(* ===== verification/Prelude.thy ===== *)
theory Prelude
  imports Main "HOL-Library.AList"
begin

text \<open>
  Shared ground of the development.

  \<^item> \<open>exn\<close>: the Python exceptions the modelled services raise or catch, with the class
    relations their \<open>except\<close> clauses rely on.
  \<^item> \<open>bindE\<close>, \<open>requireE\<close>, \<open>mapE\<close>: the error sum \<open>exn + 'a\<close>, for pure code that may raise.
  \<^item> \<open>prog\<close>: code that may raise and that changes a state \<open>'w\<close>. A datastore (Redis, MongoDB)
    and the process environment are the state \<open>'w\<close>; their operations are parameters of
    type \<open>prog\<close>.
  \<^item> dictionaries as association lists in insertion order, as CPython keeps them.
\<close>

section \<open>Exceptions\<close>

text \<open>
  What pymongo reports in \<open>BulkWriteError.details\<close>, as far as the code reads it: the codes
  of the write errors, the \<open>RetryableWriteError\<close> label, and whether there are write-concern
  errors.
\<close>

record bulk_details =
  write_error_codes :: "nat list"
  retryable_label :: bool
  has_write_concern_errors :: bool

datatype exn =
    ValueError string
  | TypeError string
  | KeyError string
  | UnicodeError string
  | IndexError
  | RuntimeError string
  | CanonicalURLValidationError string
  | URLCanonicalizationError string
  | CrawlSeedValidationError string
  | InvalidBacklinkSet string
  | BacklinkDocumentRejected string
  | ReconciliationRejected string
  | MongoWriteConflict
  | MongoWriteNotAcknowledged
  | InvalidImageWork string
  | InvalidPublicationKey string
  | PageDataDecodeError string
  | LockLostError string
  | RedisError string
  | RedisResponseError string
  | RedisScanLimitExceeded string
  | ConnectionFailure
  | WTimeoutError
  | DuplicateKeyError
  | BulkWriteError bulk_details
  | OperationFailure nat
  | OtherPyMongoError
  | InvalidDocument
  | OverflowError
  | PermissionError string
  | BaselineSeedError string
  | IncompatibleCrawlSeedCollection
  | OSError
  | URLValidationError string
  | TableDataError

text \<open>
  Subclass tests of the \<open>except\<close> clauses: redis-py's \<open>RedisError\<close> has \<open>ResponseError\<close>
  below it and the backlinks processor derives \<open>RedisScanLimitExceeded\<close> from it; pymongo's
  \<open>PyMongoError\<close> is the base of every driver error.
\<close>

fun is_redis_error :: "exn \<Rightarrow> bool" where
  "is_redis_error (RedisError _) = True"
| "is_redis_error (RedisResponseError _) = True"
| "is_redis_error (RedisScanLimitExceeded _) = True"
| "is_redis_error _ = False"

fun is_pymongo_error :: "exn \<Rightarrow> bool" where
  "is_pymongo_error ConnectionFailure = True"
| "is_pymongo_error WTimeoutError = True"
| "is_pymongo_error DuplicateKeyError = True"
| "is_pymongo_error (BulkWriteError _) = True"
| "is_pymongo_error (OperationFailure _) = True"
| "is_pymongo_error OtherPyMongoError = True"
| "is_pymongo_error _ = False"

fun is_value_error :: "exn \<Rightarrow> bool" where
  "is_value_error (ValueError _) = True"
| "is_value_error (UnicodeError _) = True"
| "is_value_error (CanonicalURLValidationError _) = True"
| "is_value_error (URLCanonicalizationError _) = True"
| "is_value_error (CrawlSeedValidationError _) = True"
| "is_value_error (InvalidBacklinkSet _) = True"
| "is_value_error (BacklinkDocumentRejected _) = True"
| "is_value_error (ReconciliationRejected _) = True"
| "is_value_error (InvalidImageWork _) = True"
| "is_value_error (InvalidPublicationKey _) = True"
| "is_value_error (PageDataDecodeError _) = True"
| "is_value_error (BaselineSeedError _) = True"
| "is_value_error (URLValidationError _) = True"
| "is_value_error _ = False"

section \<open>The error sum\<close>

named_theorems sum_simps \<open>equations of the error sum\<close>
named_theorems eval_simps \<open>definitions unfolded to evaluate a closed term\<close>
named_theorems prog_simps \<open>equations of the state and exception monad\<close>

definition bindE :: "exn + 'a \<Rightarrow> ('a \<Rightarrow> exn + 'b) \<Rightarrow> exn + 'b" where
  "bindE m f = (case m of Inl e \<Rightarrow> Inl e | Inr x \<Rightarrow> f x)"

definition requireE :: "bool \<Rightarrow> exn \<Rightarrow> exn + unit" where
  "requireE c e = (if c then Inr () else Inl e)"

primrec mapE :: "('a \<Rightarrow> exn + 'b) \<Rightarrow> 'a list \<Rightarrow> exn + 'b list" where
  "mapE f [] = Inr []"
| "mapE f (x # xs) = bindE (f x) (\<lambda>y. bindE (mapE f xs) (\<lambda>ys. Inr (y # ys)))"

lemma bindE_simps [simp, sum_simps]:
  "bindE (Inl e) f = Inl e"
  "bindE (Inr x) f = f x"
  by (simp_all add: bindE_def)

lemma requireE_simps [simp, sum_simps]:
  "requireE True e = Inr ()"
  "requireE False e = Inl e"
  by (simp_all add: requireE_def)

lemma bindE_Inr_iff: "bindE m f = Inr y \<longleftrightarrow> (\<exists>x. m = Inr x \<and> f x = Inr y)"
  by (cases m) auto

lemma bindE_Inl_iff: "bindE m f = Inl e \<longleftrightarrow> m = Inl e \<or> (\<exists>x. m = Inr x \<and> f x = Inl e)"
  by (cases m) auto

lemma requireE_Inr_iff: "requireE c e = Inr u \<longleftrightarrow> c"
  by (simp add: requireE_def)

lemma requireE_Inl_iff: "requireE c e = Inl e' \<longleftrightarrow> \<not> c \<and> e' = e"
  by (auto simp: requireE_def)

lemmas sum_iffs = bindE_Inr_iff bindE_Inl_iff requireE_Inr_iff requireE_Inl_iff

lemma mapE_Inr_iff: "mapE f xs = Inr ys \<longleftrightarrow> list_all2 (\<lambda>x y. f x = Inr y) xs ys"
  by (induction xs arbitrary: ys) (auto simp: sum_iffs list_all2_Cons1)

lemma mapE_length: "mapE f xs = Inr ys \<Longrightarrow> length ys = length xs"
  by (simp add: mapE_Inr_iff list_all2_lengthD)

lemma mapE_mem: "mapE f xs = Inr ys \<Longrightarrow> y \<in> set ys \<Longrightarrow> \<exists>x \<in> set xs. f x = Inr y"
  by (induction xs arbitrary: ys) (auto simp: sum_iffs)

lemma mapE_InlD: "mapE f xs = Inl e \<Longrightarrow> \<exists>x \<in> set xs. f x = Inl e"
  by (induction xs) (auto simp: sum_iffs)

section \<open>State and exceptions\<close>

type_synonym ('w, 'a) prog = "'w \<Rightarrow> (exn + 'a) \<times> 'w"

definition ret :: "'a \<Rightarrow> ('w, 'a) prog" where
  "ret x w = (Inr x, w)"

definition raise :: "exn \<Rightarrow> ('w, 'a) prog" where
  "raise e w = (Inl e, w)"

definition lift :: "exn + 'a \<Rightarrow> ('w, 'a) prog" where
  "lift r w = (r, w)"

definition bind :: "('w, 'a) prog \<Rightarrow> ('a \<Rightarrow> ('w, 'b) prog) \<Rightarrow> ('w, 'b) prog" where
  "bind m f w = (case m w of (Inl e, w') \<Rightarrow> (Inl e, w') | (Inr x, w') \<Rightarrow> f x w')"

text \<open>
  \<open>catch m h\<close> is \<open>try: m except: h\<close>; a clause that does not match re-raises, so the handler
  decides by cases on the exception. \<open>finally m f\<close> runs \<open>f\<close> after \<open>m\<close> on every path; an
  exception of \<open>f\<close> replaces the outcome of \<open>m\<close>.
\<close>

definition catch :: "('w, 'a) prog \<Rightarrow> (exn \<Rightarrow> ('w, 'a) prog) \<Rightarrow> ('w, 'a) prog" where
  "catch m h w = (case m w of (Inl e, w') \<Rightarrow> h e w' | (Inr x, w') \<Rightarrow> (Inr x, w'))"

definition finally_do :: "('w, 'a) prog \<Rightarrow> ('w, unit) prog \<Rightarrow> ('w, 'a) prog" where
  "finally_do m f w =
     (case m w of (r, w') \<Rightarrow> (case f w' of (Inl e, w'') \<Rightarrow> (Inl e, w'') | (Inr _, w'') \<Rightarrow> (r, w'')))"

text \<open>
  \<open>attempt m\<close> is the body of a \<open>try\<close> whose outcome the continuation inspects: the value and
  the exception have different uses in the code that follows.
\<close>

definition attempt :: "('w, 'a) prog \<Rightarrow> ('w, exn + 'a) prog" where
  "attempt m w = (case m w of (r, w') \<Rightarrow> (Inr r, w'))"

definition mod_state :: "('w \<Rightarrow> 'w) \<Rightarrow> ('w, unit) prog" where
  "mod_state f w = (Inr (), f w)"

definition get_state :: "('w \<Rightarrow> 'a) \<Rightarrow> ('w, 'a) prog" where
  "get_state f w = (Inr (f w), w)"

text \<open>\<open>for x in xs\<close> over programs, collecting their values; and \<open>if not c: raise e\<close>.\<close>

primrec mapP :: "('a \<Rightarrow> ('w, 'b) prog) \<Rightarrow> 'a list \<Rightarrow> ('w, 'b list) prog" where
  "mapP f [] = ret []"
| "mapP f (x # xs) = bind (f x) (\<lambda>y. bind (mapP f xs) (\<lambda>ys. ret (y # ys)))"

definition require :: "bool \<Rightarrow> exn \<Rightarrow> ('w, unit) prog" where
  "require c e = (if c then ret () else raise e)"

lemma prog_eqs [simp, prog_simps]:
  "ret x w = (Inr x, w)"
  "raise e w = (Inl e, w)"
  "lift r w = (r, w)"
  "mod_state g w = (Inr (), g w)"
  "get_state h w = (Inr (h w), w)"
  by (simp_all add: ret_def raise_def lift_def mod_state_def get_state_def)

lemma bind_eq: "bind m f w = (case m w of (Inl e, w') \<Rightarrow> (Inl e, w') | (Inr x, w') \<Rightarrow> f x w')"
  by (rule bind_def)

lemma bind_ret [simp]: "bind (ret x) f = f x"
  by (rule ext) (simp add: bind_eq)

lemma bind_raise [simp]: "bind (raise e) f = raise e"
  by (rule ext) (simp add: bind_eq)

lemma bind_assoc: "bind (bind m f) g = bind m (\<lambda>x. bind (f x) g)"
  by (rule ext) (simp add: bind_eq split: prod.splits sum.splits)

lemma bind_Inr_iff:
  "bind m f w = (Inr y, w') \<longleftrightarrow> (\<exists>x v. m w = (Inr x, v) \<and> f x v = (Inr y, w'))"
  by (auto simp: bind_eq split: prod.splits sum.splits)

lemma bind_Inl_iff:
  "bind m f w = (Inl e, w') \<longleftrightarrow>
     m w = (Inl e, w') \<or> (\<exists>x v. m w = (Inr x, v) \<and> f x v = (Inl e, w'))"
  by (auto simp: bind_eq split: prod.splits sum.splits)

lemma catch_Inr_iff:
  "catch m h w = (Inr y, w') \<longleftrightarrow>
     m w = (Inr y, w') \<or> (\<exists>e v. m w = (Inl e, v) \<and> h e v = (Inr y, w'))"
  by (auto simp: catch_def split: prod.splits sum.splits)

lemma catch_Inl_iff:
  "catch m h w = (Inl e', w') \<longleftrightarrow> (\<exists>e v. m w = (Inl e, v) \<and> h e v = (Inl e', w'))"
  by (auto simp: catch_def split: prod.splits sum.splits)

lemma attempt_eq: "attempt m w = (case m w of (r, w') \<Rightarrow> (Inr r, w'))"
  by (rule attempt_def)

lemmas prog_iffs = bind_Inr_iff bind_Inl_iff catch_Inr_iff catch_Inl_iff

section \<open>Weakest preconditions\<close>

text \<open>
  \<open>wp m Q E w\<close>: from \<open>w\<close>, a return of \<open>m\<close> satisfies \<open>Q\<close> and an exception satisfies \<open>E\<close>. The
  equations push it through every construct, so a program is verified by simplification, with
  \<open>wp_call\<close> for the operations that have a specification of their own.
\<close>

definition wp :: "('w, 'a) prog \<Rightarrow> ('a \<Rightarrow> 'w \<Rightarrow> bool) \<Rightarrow> (exn \<Rightarrow> 'w \<Rightarrow> bool) \<Rightarrow> 'w \<Rightarrow> bool" where
  "wp m Q E w = (case m w of (Inr x, w') \<Rightarrow> Q x w' | (Inl e, w') \<Rightarrow> E e w')"

named_theorems wp_simps \<open>equations of weakest preconditions\<close>

lemma wp_ret [simp, wp_simps]: "wp (ret x) Q E w = Q x w"
  by (simp add: wp_def)

lemma wp_raise [simp, wp_simps]: "wp (raise e) Q E w = E e w"
  by (simp add: wp_def)

lemma wp_mod_state [simp, wp_simps]: "wp (mod_state f) Q E w = Q () (f w)"
  by (simp add: wp_def)

lemma wp_get_state [simp, wp_simps]: "wp (get_state g) Q E w = Q (g w) w"
  by (simp add: wp_def)

lemma wp_lift [simp, wp_simps]: "wp (lift r) Q E w = (case r of Inr x \<Rightarrow> Q x w | Inl e \<Rightarrow> E e w)"
  by (simp add: wp_def)

lemma wp_Pair [simp]: "wp (Pair r) Q E w = (case r of Inr x \<Rightarrow> Q x w | Inl e \<Rightarrow> E e w)"
  by (simp add: wp_def)

lemma wp_bind [simp, wp_simps]: "wp (bind m f) Q E w = wp m (\<lambda>x. wp (f x) Q E) E w"
  by (simp add: wp_def bind_eq split: prod.splits sum.splits)

lemma wp_catch [simp, wp_simps]: "wp (catch m h) Q E w = wp m Q (\<lambda>e. wp (h e) Q E) w"
  by (simp add: wp_def catch_def split: prod.splits sum.splits)

lemma wp_attempt [simp, wp_simps]: "wp (attempt m) Q E w = wp m (\<lambda>x. Q (Inr x)) (\<lambda>e. Q (Inl e)) w"
  by (auto simp: wp_def attempt_def split: prod.splits sum.splits)

lemma wp_if [simp, wp_simps]: "wp (if b then m else m') Q E w = ((b \<longrightarrow> wp m Q E w) \<and> (\<not> b \<longrightarrow> wp m' Q E w))"
  by simp

lemma wp_case_sum [simp, wp_simps]:
  "wp (case r of Inl e \<Rightarrow> f e | Inr x \<Rightarrow> g x) Q E w =
     ((\<forall>e. r = Inl e \<longrightarrow> wp (f e) Q E w) \<and> (\<forall>x. r = Inr x \<longrightarrow> wp (g x) Q E w))"
  by (auto split: sum.splits)

lemma wp_case_prod [simp, wp_simps]:
  "wp (case p of (a, b) \<Rightarrow> k a b) Q E w = (\<forall>a b. p = (a, b) \<longrightarrow> wp (k a b) Q E w)"
  by (auto split: prod.splits)

lemma wp_case_option [simp, wp_simps]:
  "wp (case v of None \<Rightarrow> m | Some y \<Rightarrow> h y) Q E w =
     ((v = None \<longrightarrow> wp m Q E w) \<and> (\<forall>y. v = Some y \<longrightarrow> wp (h y) Q E w))"
  by (auto split: option.splits)

lemma wp_require [simp, wp_simps]: "wp (require c e) Q E w = (if c then Q () w else E e w)"
  by (simp add: require_def)

lemma wp_call:
  "wp m Q' E' w \<Longrightarrow> (\<And>x w'. Q' x w' \<Longrightarrow> Q x w') \<Longrightarrow> (\<And>e w'. E' e w' \<Longrightarrow> E e w') \<Longrightarrow> wp m Q E w"
  by (simp add: wp_def split: prod.splits sum.splits)

lemma wp_conj: "wp m Q E w \<Longrightarrow> wp m Q' E' w \<Longrightarrow> wp m (\<lambda>x v. Q x v \<and> Q' x v) (\<lambda>e v. E e v \<and> E' e v) w"
  by (simp add: wp_def split: prod.splits sum.splits)

lemma wpI:
  "(\<And>x w'. m w = (Inr x, w') \<Longrightarrow> Q x w') \<Longrightarrow> (\<And>e w'. m w = (Inl e, w') \<Longrightarrow> E e w') \<Longrightarrow> wp m Q E w"
  by (simp add: wp_def split: prod.splits sum.splits)

lemma wp_InrD: "wp m Q E w \<Longrightarrow> m w = (Inr x, w') \<Longrightarrow> Q x w'"
  by (simp add: wp_def)

lemma wp_InlD: "wp m Q E w \<Longrightarrow> m w = (Inl e, w') \<Longrightarrow> E e w'"
  by (simp add: wp_def)

section \<open>Relations between states\<close>

text \<open>
  A relation on states that is reflexive and transitive and that every primitive keeps is kept by
  every program built from them, whatever the outcome.
\<close>

definition keeps :: "('w \<Rightarrow> 'w \<Rightarrow> bool) \<Rightarrow> ('w, 'a) prog \<Rightarrow> bool" where
  "keeps rel m \<longleftrightarrow> (\<forall>w r w'. m w = (r, w') \<longrightarrow> rel w w')"

lemma keepsD: "keeps rel m \<Longrightarrow> m w = (r, w') \<Longrightarrow> rel w w'"
  by (simp add: keeps_def)

locale world_relation =
  fixes rel :: "'w \<Rightarrow> 'w \<Rightarrow> bool"
  assumes rel_refl: "rel w w"
    and rel_trans: "rel u v \<Longrightarrow> rel v w \<Longrightarrow> rel u w"
begin

lemma keeps_pure:
  "keeps rel (ret x)" "keeps rel (Pair s)" "keeps rel (raise e)" "keeps rel (lift r)" "keeps rel (get_state f)"
  by (auto simp: keeps_def rel_refl)

lemma keeps_bind: "keeps rel m \<Longrightarrow> (\<And>x. keeps rel (f x)) \<Longrightarrow> keeps rel (bind m f)"
  unfolding keeps_def bind_eq
  by (force split: prod.splits sum.splits intro: rel_trans)

lemma keeps_catch: "keeps rel m \<Longrightarrow> (\<And>e. keeps rel (h e)) \<Longrightarrow> keeps rel (catch m h)"
  unfolding keeps_def catch_def
  by (force split: prod.splits sum.splits intro: rel_trans)

lemma keeps_attempt: "keeps rel m \<Longrightarrow> keeps rel (attempt m)"
  unfolding keeps_def attempt_def by (auto split: prod.splits)

lemma keeps_if: "keeps rel m \<Longrightarrow> keeps rel m' \<Longrightarrow> keeps rel (if b then m else m')"
  by simp

lemma keeps_require: "keeps rel (require c e)"
  by (simp add: require_def keeps_pure)

lemma keeps_case_option:
  "keeps rel m \<Longrightarrow> (\<And>x. keeps rel (f x)) \<Longrightarrow> keeps rel (case v of None \<Rightarrow> m | Some x \<Rightarrow> f x)"
  by (cases v) simp_all

lemma keeps_case_prod: "(\<And>a b. p = (a, b) \<Longrightarrow> keeps rel (f a b)) \<Longrightarrow> keeps rel (case p of (a, b) \<Rightarrow> f a b)"
  by (cases p) simp

lemmas keeps_rules =
  keeps_pure keeps_bind keeps_catch keeps_attempt keeps_if keeps_require keeps_case_option keeps_case_prod

lemma keeps_mapP: "(\<And>x. x \<in> set xs \<Longrightarrow> keeps rel (f x)) \<Longrightarrow> keeps rel (mapP f xs)"
  by (induction xs) (auto intro!: keeps_rules)

end

section \<open>Dictionaries in insertion order\<close>

text \<open>
  \<open>AList.update\<close> replaces the value of a present key in place and appends an absent one,
  which is the order a Python \<open>dict\<close> keeps. \<open>Counter\<close> objects are dictionaries of numbers.
\<close>

type_synonym ('k, 'v) dict = "('k \<times> 'v) list"

definition counter_add :: "('k, nat) dict \<Rightarrow> 'k \<Rightarrow> nat \<Rightarrow> ('k, nat) dict" where
  "counter_add c k n = AList.update k ((case map_of c k of None \<Rightarrow> 0 | Some m \<Rightarrow> m) + n) c"

definition counter_get :: "('k, nat) dict \<Rightarrow> 'k \<Rightarrow> nat" where
  "counter_get c k = (case map_of c k of None \<Rightarrow> 0 | Some m \<Rightarrow> m)"

primrec counter_update :: "('k, nat) dict \<Rightarrow> ('k, nat) dict \<Rightarrow> ('k, nat) dict" where
  "counter_update c [] = c"
| "counter_update c (kv # kvs) = counter_update (counter_add c (fst kv) (snd kv)) kvs"

definition counter_total :: "('k, nat) dict \<Rightarrow> nat" where
  "counter_total c = sum_list (map snd c)"

lemma dict_update_fresh: "k \<notin> fst ` set c \<Longrightarrow> AList.update k v c = c @ [(k, v)]"
  by (induction c) auto

lemma dict_update_total:
  "distinct (map fst c) \<Longrightarrow>
     sum_list (map snd (AList.update k (counter_get c k + n) c)) = sum_list (map snd c) + n"
proof (induction c)
  case Nil
  then show ?case by (simp add: counter_get_def)
next
  case (Cons p c)
  then show ?case
    by (cases p; cases "fst p = k") (auto simp: counter_get_def)
qed

lemma counter_add_distinct: "distinct (map fst c) \<Longrightarrow> distinct (map fst (counter_add c k n))"
  by (simp add: counter_add_def distinct_update)

lemma counter_add_total:
  "distinct (map fst c) \<Longrightarrow> counter_total (counter_add c k n) = counter_total c + n"
  using dict_update_total [of c k n] by (simp add: counter_total_def counter_add_def counter_get_def)

lemma counter_update_distinct:
  "distinct (map fst c) \<Longrightarrow> distinct (map fst (counter_update c d))"
  by (induction d arbitrary: c) (auto simp: counter_add_distinct)

lemma counter_update_total:
  "distinct (map fst c) \<Longrightarrow> counter_total (counter_update c d) = counter_total c + counter_total d"
  by (induction d arbitrary: c)
    (auto simp: counter_add_distinct counter_add_total, simp_all add: counter_total_def)

text \<open>The sum of a measure of the values, and how updates and deletions change it.\<close>

definition dict_sum :: "('v \<Rightarrow> nat) \<Rightarrow> ('k, 'v) dict \<Rightarrow> nat" where
  "dict_sum f d = sum_list (map (f \<circ> snd) d)"

abbreviation value_or :: "('v \<Rightarrow> nat) \<Rightarrow> 'v option \<Rightarrow> nat" where
  "value_or f v \<equiv> (case v of None \<Rightarrow> 0 | Some x \<Rightarrow> f x)"

lemma dict_sum_update:
  "distinct (map fst d) \<Longrightarrow> dict_sum f (AList.update k v d) + value_or f (map_of d k) = dict_sum f d + f v"
proof (induction d)
  case (Cons p d)
  then show ?case
    by (cases p; cases "fst p = k") (auto simp: dict_sum_def)
qed (simp add: dict_sum_def)

lemma dict_sum_delete:
  "distinct (map fst d) \<Longrightarrow> dict_sum f (AList.delete k d) + value_or f (map_of d k) = dict_sum f d"
proof (induction d)
  case (Cons p d)
  then have "k = fst p \<Longrightarrow> AList.delete k d = d"
    by (intro delete_id) auto
  with Cons show ?case
    by (cases p; cases "fst p = k") (auto simp: dict_sum_def AList.delete_eq)
qed (simp add: dict_sum_def)

lemma dict_sum_ge: "map_of d k = Some v \<Longrightarrow> f v \<le> dict_sum f d"
  by (induction d) (auto simp: dict_sum_def split: if_splits)

section \<open>Lists\<close>

lemma sum_list_map_le_mult:
  "(\<And>x. x \<in> set xs \<Longrightarrow> f x \<le> (b :: nat)) \<Longrightarrow> sum_list (map f xs) \<le> length xs * b"
proof (induction xs)
  case Nil
  then show ?case by simp
next
  case (Cons x xs)
  then have "f x \<le> b" and "sum_list (map f xs) \<le> length xs * b" by auto
  then show ?case by simp
qed

text \<open>Slices of \<open>n + 1\<close> elements, the last of what is left.\<close>

function chunks :: "nat \<Rightarrow> 'a list \<Rightarrow> 'a list list" where
  "chunks n [] = []"
| "chunks n (x # xs) = take (Suc n) (x # xs) # chunks n (drop (Suc n) (x # xs))"
  by pat_completeness auto
termination by (relation "measure (length \<circ> snd)") auto

lemma chunks_concat [simp]: "concat (chunks n xs) = xs"
  by (induction n xs rule: chunks.induct) auto

lemma takeWhile_dropWhile_length: "length (takeWhile P xs) + length (dropWhile P xs) = length xs"
  by (metis length_append takeWhile_dropWhile_id)

end
