(* ===== verification/Py_Str.thy ===== *)
theory Py_Str
  imports Prelude
begin

text \<open>
  Python text and bytes. A \<open>str\<close> is the list of its code points and a \<open>bytes\<close> value the
  list of its byte values, so that lengths, slices and comparisons are those of the program.
  The theory models the parts of \<open>str\<close>, \<open>int\<close>, \<open>unicodedata.category\<close> and the UTF-8 codec
  that the services use. Lower-casing beyond ASCII needs the Unicode tables of the
  interpreter: it takes the table as an argument.
\<close>

type_synonym pystr = "nat list"
type_synonym bytes = "nat list"

definition py :: "string \<Rightarrow> pystr" where
  "py s = map of_char s"

lemma py_length [simp]: "length (py s) = length s"
  by (simp add: py_def)

lemma py_append [simp]: "py (s @ t) = py s @ py t"
  by (simp add: py_def)

lemma py_eq_iff [simp]: "py s = py t \<longleftrightarrow> s = t"
proof
  assume "py s = py t"
  then have "map (char_of :: nat \<Rightarrow> char) (py s) = map char_of (py t)" by simp
  then show "s = t" by (simp add: py_def comp_def)
qed simp

lemma py_Nil_iff [simp]: "py s = [] \<longleftrightarrow> s = []" "[] = py s \<longleftrightarrow> s = []"
  by (auto simp: py_def)

section \<open>Characters\<close>

definition ascii_digit :: "nat \<Rightarrow> bool" where
  "ascii_digit c \<longleftrightarrow> 48 \<le> c \<and> c \<le> 57"

definition ascii_upper :: "nat \<Rightarrow> bool" where
  "ascii_upper c \<longleftrightarrow> 65 \<le> c \<and> c \<le> 90"

definition ascii_lower :: "nat \<Rightarrow> bool" where
  "ascii_lower c \<longleftrightarrow> 97 \<le> c \<and> c \<le> 122"

definition ascii_alpha :: "nat \<Rightarrow> bool" where
  "ascii_alpha c \<longleftrightarrow> ascii_upper c \<or> ascii_lower c"

definition ascii_alnum :: "nat \<Rightarrow> bool" where
  "ascii_alnum c \<longleftrightarrow> ascii_alpha c \<or> ascii_digit c"

definition hex_digit :: "nat \<Rightarrow> bool" where
  "hex_digit c \<longleftrightarrow> ascii_digit c \<or> 65 \<le> c \<and> c \<le> 70 \<or> 97 \<le> c \<and> c \<le> 102"

definition hex_value :: "nat \<Rightarrow> nat" where
  "hex_value c = (if ascii_digit c then c - 48 else if c \<le> 70 then c - 55 else c - 87)"

lemmas char_class_defs =
  ascii_digit_def ascii_upper_def ascii_lower_def ascii_alpha_def ascii_alnum_def hex_digit_def

definition is_ascii :: "pystr \<Rightarrow> bool" where
  "is_ascii s \<longleftrightarrow> list_all (\<lambda>c. c < 128) s"

text \<open>\<open>str.isspace\<close>, which \<open>str.strip()\<close> removes at both ends.\<close>

definition is_space :: "nat \<Rightarrow> bool" where
  "is_space c \<longleftrightarrow> 9 \<le> c \<and> c \<le> 13 \<or> 28 \<le> c \<and> c \<le> 32 \<or>
     c \<in> {133, 160, 5760, 8232, 8233, 8239, 8287, 12288} \<or> 8192 \<le> c \<and> c \<le> 8202"

text \<open>\<open>unicodedata.category(c) == "Cc"\<close>: the C0 and C1 controls and DEL.\<close>

definition is_control :: "nat \<Rightarrow> bool" where
  "is_control c \<longleftrightarrow> c < 32 \<or> 127 \<le> c \<and> c \<le> 159"

section \<open>Strings\<close>

definition lower_ascii :: "nat \<Rightarrow> nat" where
  "lower_ascii c = (if ascii_upper c then c + 32 else c)"

definition upper_ascii :: "nat \<Rightarrow> nat" where
  "upper_ascii c = (if ascii_lower c then c - 32 else c)"

text \<open>
  \<open>str.lower()\<close>: ASCII letters as ever, any other code point by the interpreter's table
  \<open>u\<close> (one code point may become several).
\<close>

definition py_lower :: "(nat \<Rightarrow> nat list) \<Rightarrow> pystr \<Rightarrow> pystr" where
  "py_lower u s = concat (map (\<lambda>c. if c < 128 then [lower_ascii c] else u c) s)"

definition py_strip :: "pystr \<Rightarrow> pystr" where
  "py_strip s = rev (dropWhile is_space (rev (dropWhile is_space s)))"

definition starts_with :: "pystr \<Rightarrow> pystr \<Rightarrow> bool" where
  "starts_with p s \<longleftrightarrow> take (length p) s = p"

definition ends_with :: "pystr \<Rightarrow> pystr \<Rightarrow> bool" where
  "ends_with p s \<longleftrightarrow> length p \<le> length s \<and> drop (length s - length p) s = p"

text \<open>\<open>s.partition(c)\<close>: the text before the first \<open>c\<close>, whether \<open>c\<close> occurs, the text after it.\<close>

definition partition_at :: "nat \<Rightarrow> pystr \<Rightarrow> pystr \<times> bool \<times> pystr" where
  "partition_at c s =
     (takeWhile (\<lambda>d. d \<noteq> c) s, c \<in> set s, drop 1 (dropWhile (\<lambda>d. d \<noteq> c) s))"

text \<open>\<open>s.rpartition(c)\<close>: the text before the last \<open>c\<close> (empty if there is none) and after it.\<close>

definition rpartition_at :: "nat \<Rightarrow> pystr \<Rightarrow> pystr \<times> bool \<times> pystr" where
  "rpartition_at c s =
     (if c \<in> set s
      then (rev (drop 1 (dropWhile (\<lambda>d. d \<noteq> c) (rev s))), True, rev (takeWhile (\<lambda>d. d \<noteq> c) (rev s)))
      else ([], False, s))"

text \<open>\<open>s.split(c)\<close>, and \<open>s.split(c, n)\<close> with at most \<open>n\<close> cuts.\<close>

fun split_on :: "nat \<Rightarrow> pystr \<Rightarrow> pystr list" where
  "split_on c [] = [[]]"
| "split_on c (d # s) =
     (if d = c then [] # split_on c s
      else (case split_on c s of [] \<Rightarrow> [[d]] | p # ps \<Rightarrow> (d # p) # ps))"

fun split_max :: "nat \<Rightarrow> nat \<Rightarrow> pystr \<Rightarrow> pystr list" where
  "split_max c 0 s = [s]"
| "split_max c (Suc n) s =
     (if c \<in> set s
      then takeWhile (\<lambda>d. d \<noteq> c) s # split_max c n (drop 1 (dropWhile (\<lambda>d. d \<noteq> c) s))
      else [s])"

definition decimal_value :: "pystr \<Rightarrow> nat" where
  "decimal_value s = foldl (\<lambda>n c. 10 * n + (c - 48)) 0 s"

text \<open>\<open>str(n)\<close> of a non-negative integer.\<close>

fun show_nat :: "nat \<Rightarrow> pystr" where
  "show_nat n = (if n < 10 then [48 + n] else show_nat (n div 10) @ [48 + n mod 10])"

declare show_nat.simps [simp del]

lemma py_lower_ascii: "is_ascii s \<Longrightarrow> py_lower u s = map lower_ascii s"
  by (induction s) (auto simp: py_lower_def is_ascii_def)

lemma split_on_nonempty [simp]: "split_on c s \<noteq> []"
  by (induction s) (auto split: list.splits)

lemma split_on_chars: "p \<in> set (split_on c s) \<Longrightarrow> set p \<subseteq> set s - {c}"
proof (induction s arbitrary: p)
  case Nil
  then show ?case by simp
next
  case (Cons d s)
  then show ?case
    by (cases "split_on c s") (force split: if_splits)+
qed

lemma split_max_last_clean: "length (split_max c n s) \<le> Suc n"
  by (induction n arbitrary: s) auto

lemma is_ascii_append [simp]: "is_ascii (s @ t) \<longleftrightarrow> is_ascii s \<and> is_ascii t"
  by (simp add: is_ascii_def)

lemma is_ascii_Cons [simp]: "is_ascii (c # s) \<longleftrightarrow> c < 128 \<and> is_ascii s"
  by (simp add: is_ascii_def)

lemma is_ascii_Nil [simp]: "is_ascii []"
  by (simp add: is_ascii_def)

lemma decimal_value_snoc: "decimal_value (s @ [c]) = 10 * decimal_value s + (c - 48)"
  by (simp add: decimal_value_def)

lemma show_nat_digits: "list_all ascii_digit (show_nat n)"
proof (induction n rule: show_nat.induct)
  case (1 n)
  show ?case
  proof (cases "n < 10")
    case True
    then show ?thesis by (subst show_nat.simps) (simp add: ascii_digit_def)
  next
    case False
    with 1 have "list_all ascii_digit (show_nat (n div 10))" by simp
    with False show ?thesis by (subst show_nat.simps) (simp add: ascii_digit_def)
  qed
qed

lemma show_nat_nonempty [simp]: "show_nat n \<noteq> []"
  by (subst show_nat.simps) simp

lemma show_nat_head: "0 < n \<Longrightarrow> show_nat n = c # s \<Longrightarrow> c \<noteq> 48"
proof (induction n arbitrary: s rule: show_nat.induct)
  case (1 n)
  show ?case
  proof (cases "n < 10")
    case True
    then show ?thesis using 1(2,3) by (simp add: show_nat.simps)
  next
    case False
    obtain t where t: "show_nat (n div 10) = c # t"
      using 1(3) False by (subst (asm) show_nat.simps) (cases "show_nat (n div 10)"; auto)
    then show ?thesis using 1(1) [OF False _ t] False by simp
  qed
qed

text \<open>Printing and reading a number is a round trip.\<close>

lemma decimal_value_show_nat [simp]: "decimal_value (show_nat n) = n"
proof (induction n rule: show_nat.induct)
  case (1 n)
  show ?case
  proof (cases "n < 10")
    case True
    then show ?thesis by (subst show_nat.simps) (simp add: decimal_value_def)
  next
    case False
    with 1 have "decimal_value (show_nat (n div 10)) = n div 10" by simp
    with False show ?thesis
      by (subst show_nat.simps) (simp add: decimal_value_snoc)
  qed
qed

lemma show_nat_inject: "show_nat m = show_nat n \<longleftrightarrow> m = n"
  by (metis decimal_value_show_nat)

section \<open>UTF-8\<close>

definition is_surrogate :: "nat \<Rightarrow> bool" where
  "is_surrogate c \<longleftrightarrow> 55296 \<le> c \<and> c \<le> 57343"

text \<open>The strict encoder: \<open>None\<close> is \<open>UnicodeEncodeError\<close> (a lone surrogate).\<close>

definition utf8_char :: "nat \<Rightarrow> bytes option" where
  "utf8_char c =
     (if c < 128 then Some [c]
      else if c < 2048 then Some [192 + c div 64, 128 + c mod 64]
      else if is_surrogate c then None
      else if c < 65536 then Some [224 + c div 4096, 128 + c div 64 mod 64, 128 + c mod 64]
      else if c < 1114112 then
        Some [240 + c div 262144, 128 + c div 4096 mod 64, 128 + c div 64 mod 64, 128 + c mod 64]
      else None)"

fun utf8_encode :: "pystr \<Rightarrow> bytes option" where
  "utf8_encode [] = Some []"
| "utf8_encode (c # s) =
     (case utf8_char c of None \<Rightarrow> None | Some b \<Rightarrow> map_option (\<lambda>r. b @ r) (utf8_encode s))"

definition is_cont :: "nat \<Rightarrow> bool" where
  "is_cont b \<longleftrightarrow> 128 \<le> b \<and> b < 192"

text \<open>
  The strict decoder: \<open>None\<close> is \<open>UnicodeDecodeError\<close>. Overlong forms, surrogates and values
  past U+10FFFF are errors.
\<close>

fun utf8_decode :: "bytes \<Rightarrow> pystr option" where
  "utf8_decode [] = Some []"
| "utf8_decode (a # s) =
     (if a < 128 then map_option ((#) a) (utf8_decode s)
      else if 194 \<le> a \<and> a < 224 then
        (case s of b # s' \<Rightarrow>
             if is_cont b then map_option ((#) ((a - 192) * 64 + (b - 128))) (utf8_decode s') else None
         | _ \<Rightarrow> None)
      else if 224 \<le> a \<and> a < 240 then
        (case s of b # c # s' \<Rightarrow>
             let v = (a - 224) * 4096 + (b - 128) * 64 + (c - 128) in
             if is_cont b \<and> is_cont c \<and> 2048 \<le> v \<and> \<not> is_surrogate v
             then map_option ((#) v) (utf8_decode s') else None
         | _ \<Rightarrow> None)
      else if 240 \<le> a \<and> a < 245 then
        (case s of b # c # d # s' \<Rightarrow>
             let v = (a - 240) * 262144 + (b - 128) * 4096 + (c - 128) * 64 + (d - 128) in
             if is_cont b \<and> is_cont c \<and> is_cont d \<and> 65536 \<le> v \<and> v < 1114112
             then map_option ((#) v) (utf8_decode s') else None
         | _ \<Rightarrow> None)
      else None)"

declare utf8_decode.simps(2) [simp del]

lemma utf8_encode_ascii: "is_ascii s \<Longrightarrow> utf8_encode s = Some s"
  by (induction s) (auto simp: utf8_char_def)

lemma utf8_decode_ascii: "is_ascii s \<Longrightarrow> utf8_decode s = Some s"
  by (induction s) (auto simp: utf8_decode.simps(2))

lemma utf8_decode_char:
  assumes "utf8_char c = Some b"
  shows "utf8_decode (b @ r) = map_option ((#) c) (utf8_decode r)"
proof -
  define m q n p where "m = c mod 64" and "q = c div 64 mod 64"
    and "n = c div 4096 mod 64" and "p = c div 262144"
  have c3: "c = c div 4096 * 4096 + q * 64 + m" and c2: "c = c div 64 * 64 + m"
    and c4: "c = p * 262144 + n * 4096 + q * 64 + m"
  proof -
    have e1: "c = c div 64 * 64 + m" by (simp add: m_def)
    have "c div 4096 = c div 64 div 64" by (simp add: div_mult2_eq [symmetric])
    then have e2: "c div 64 = c div 4096 * 64 + q" by (simp add: q_def)
    have "p = c div 4096 div 64" by (simp add: p_def div_mult2_eq [symmetric])
    then have e3: "c div 4096 = p * 64 + n" by (simp add: n_def)
    show "c = c div 64 * 64 + m" by (rule e1)
    show "c = c div 4096 * 4096 + q * 64 + m" using e1 e2 by linarith
    show "c = p * 262144 + n * 4096 + q * 64 + m" using e1 e2 e3 by linarith
  qed
  have small: "m < 64" "q < 64" "n < 64" by (simp_all add: m_def q_def n_def)
  consider (one) "c < 128" | (two) "128 \<le> c" "c < 2048"
    | (three) "2048 \<le> c" "\<not> is_surrogate c" "c < 65536"
    | (four) "65536 \<le> c" "\<not> is_surrogate c" "c < 1114112"
    using assms by (fastforce simp: utf8_char_def split: if_splits)
  then show ?thesis
  proof cases
    case one
    with assms show ?thesis by (auto simp: utf8_char_def utf8_decode.simps(2))
  next
    case two
    define k where "k = c div 64"
    have b: "b = [192 + k, 128 + m]"
      using assms two by (simp add: utf8_char_def k_def m_def)
    have k: "2 \<le> k" "k < 32" "c = k * 64 + m"
      using two c2 by (simp_all add: k_def less_mult_imp_div_less less_eq_div_iff_mult_less_eq)
    then show ?thesis
      using small by (simp add: b utf8_decode.simps(2) is_cont_def)
  next
    case three
    define k where "k = c div 4096"
    have b: "b = [224 + k, 128 + q, 128 + m]"
      using assms three by (simp add: utf8_char_def k_def m_def q_def)
    have k: "k < 16" "c = k * 4096 + q * 64 + m"
      using three c3 by (simp_all add: k_def less_mult_imp_div_less)
    then show ?thesis
      using three small by (simp add: b utf8_decode.simps(2) is_cont_def)
  next
    case four
    have b: "b = [240 + p, 128 + n, 128 + q, 128 + m]"
      using assms four by (simp add: utf8_char_def m_def q_def n_def p_def)
    have p: "p < 5" using four by (simp add: p_def less_mult_imp_div_less)
    then show ?thesis
      using four small c4 by (simp add: b utf8_decode.simps(2) is_cont_def)
  qed
qed

text \<open>Decoding an encoded string gives the string back.\<close>

lemma utf8_decode_encode: "utf8_encode s = Some b \<Longrightarrow> utf8_decode b = Some s"
  by (induction s arbitrary: b) (auto simp: utf8_decode_char split: option.splits)

lemma utf8_encode_inject: "utf8_encode s = Some b \<Longrightarrow> utf8_encode t = Some b \<Longrightarrow> s = t"
  by (metis option.inject utf8_decode_encode)

lemma utf8_encode_append:
  "utf8_encode (s @ t) =
     (case utf8_encode s of None \<Rightarrow> None | Some a \<Rightarrow> map_option (\<lambda>b. a @ b) (utf8_encode t))"
  by (induction s) (cases "utf8_encode t"; auto split: option.splits)+

text \<open>The other way round: the decoder accepts only what the encoder produces.\<close>

lemma utf8_char_digits:
  "x < 32 \<Longrightarrow> y < 64 \<Longrightarrow> 128 \<le> x * 64 + y \<Longrightarrow> utf8_char (x * 64 + y) = Some [192 + x, 128 + y]"
  "x < 16 \<Longrightarrow> y < 64 \<Longrightarrow> z < 64 \<Longrightarrow> 2048 \<le> x * 4096 + y * 64 + z \<Longrightarrow>
     \<not> is_surrogate (x * 4096 + y * 64 + z) \<Longrightarrow>
     utf8_char (x * 4096 + y * 64 + z) = Some [224 + x, 128 + y, 128 + z]"
  "y < 64 \<Longrightarrow> z < 64 \<Longrightarrow> u < 64 \<Longrightarrow> 65536 \<le> x * 262144 + y * 4096 + z * 64 + u \<Longrightarrow>
     x * 262144 + y * 4096 + z * 64 + u < 1114112 \<Longrightarrow>
     utf8_char (x * 262144 + y * 4096 + z * 64 + u) = Some [240 + x, 128 + y, 128 + z, 128 + u]"
proof -
  have d: "(p * 64 + r) div 64 = p" "(p * 64 + r) mod 64 = r" if "r < 64" for p r :: nat
    using that by simp_all
  show "x < 32 \<Longrightarrow> y < 64 \<Longrightarrow> 128 \<le> x * 64 + y \<Longrightarrow> utf8_char (x * 64 + y) = Some [192 + x, 128 + y]"
    by (simp add: utf8_char_def)
  show "x < 16 \<Longrightarrow> y < 64 \<Longrightarrow> z < 64 \<Longrightarrow> 2048 \<le> x * 4096 + y * 64 + z \<Longrightarrow>
     \<not> is_surrogate (x * 4096 + y * 64 + z) \<Longrightarrow>
     utf8_char (x * 4096 + y * 64 + z) = Some [224 + x, 128 + y, 128 + z]"
  proof -
    assume a: "x < 16" "y < 64" "z < 64" "2048 \<le> x * 4096 + y * 64 + z" "\<not> is_surrogate (x * 4096 + y * 64 + z)"
    define v where "v = x * 4096 + y * 64 + z"
    have v: "v = (x * 64 + y) * 64 + z" by (simp add: v_def)
    have "v div 64 = x * 64 + y" "v mod 64 = z" unfolding v by (rule d [OF \<open>z < 64\<close>])+
    moreover have "v div 4096 = v div 64 div 64" by (simp add: div_mult2_eq [symmetric])
    ultimately have "v div 4096 = x" "v div 64 mod 64 = y" "v mod 64 = z" using a by simp_all
    moreover have "v < 65536" using a by (simp add: v_def)
    ultimately have "v div 4096 = x" "v div 64 mod 64 = y" "v mod 64 = z" "v < 65536" by blast+
    then show ?thesis using a by (simp add: utf8_char_def v_def [symmetric])
  qed
  show "y < 64 \<Longrightarrow> z < 64 \<Longrightarrow> u < 64 \<Longrightarrow> 65536 \<le> x * 262144 + y * 4096 + z * 64 + u \<Longrightarrow>
     x * 262144 + y * 4096 + z * 64 + u < 1114112 \<Longrightarrow>
     utf8_char (x * 262144 + y * 4096 + z * 64 + u) = Some [240 + x, 128 + y, 128 + z, 128 + u]"
  proof -
    assume a: "y < 64" "z < 64" "u < 64" "65536 \<le> x * 262144 + y * 4096 + z * 64 + u"
      "x * 262144 + y * 4096 + z * 64 + u < 1114112"
    define v where "v = x * 262144 + y * 4096 + z * 64 + u"
    have v: "v = ((x * 64 + y) * 64 + z) * 64 + u" by (simp add: v_def)
    have "v div 64 = (x * 64 + y) * 64 + z" "v mod 64 = u" unfolding v by (rule d [OF \<open>u < 64\<close>])+
    moreover have e: "v div 4096 = v div 64 div 64" "v div 262144 = v div 64 div 64 div 64"
      by (simp_all add: div_mult2_eq [symmetric])
    moreover have "((x * 64 + y) * 64 + z) div 64 = x * 64 + y" "((x * 64 + y) * 64 + z) mod 64 = z"
      "(x * 64 + y) div 64 = x" "(x * 64 + y) mod 64 = y"
      by (rule d [OF \<open>z < 64\<close>] d [OF \<open>y < 64\<close>])+
    ultimately have "v div 262144 = x" "v div 4096 mod 64 = y" "v div 64 mod 64 = z" "v mod 64 = u"
      by simp_all
    moreover have "\<not> is_surrogate v" using a by (simp add: is_surrogate_def v_def)
    ultimately show ?thesis using a by (simp add: utf8_char_def v_def [symmetric])
  qed
qed

lemma is_cont_digit: "is_cont b \<longleftrightarrow> (\<exists>y < 64. b = 128 + y)"
  by (auto simp: is_cont_def intro: exI [of _ "b - 128"])

lemma utf8_encode_decode: "utf8_decode b = Some s \<Longrightarrow> utf8_encode s = Some b"
proof (induction b arbitrary: s rule: utf8_decode.induct)
  case 1
  then show ?case by simp
next
  case (2 a r)
  consider (one) "a < 128" | (two) "194 \<le> a" "a < 224" | (three) "224 \<le> a" "a < 240"
    | (four) "240 \<le> a" "a < 245" | (bad) "128 \<le> a" "a < 194 \<or> 245 \<le> a" by linarith
  then show ?case
  proof cases
    case one
    then show ?thesis using 2 by (auto simp: utf8_decode.simps(2) utf8_char_def)
  next
    case two
    then obtain b r' t where r: "r = b # r'" "is_cont b" and t: "utf8_decode r' = Some t"
      and s: "s = ((a - 192) * 64 + (b - 128)) # t"
      using "2.prems" by (auto simp: utf8_decode.simps(2) split: list.splits if_splits)
    obtain y where y: "y < 64" "b = 128 + y" using r by (auto simp: is_cont_digit)
    have "utf8_encode t = Some r'" using "2.IH"(2) two r t by auto
    then show ?thesis using utf8_char_digits(1) [of "a - 192" y] two y r s by simp
  next
    case three
    then obtain b c r' t where r: "r = b # c # r'" "is_cont b" "is_cont c" and t: "utf8_decode r' = Some t"
      and s: "s = ((a - 224) * 4096 + (b - 128) * 64 + (c - 128)) # t"
      and v: "2048 \<le> (a - 224) * 4096 + (b - 128) * 64 + (c - 128)"
        "\<not> is_surrogate ((a - 224) * 4096 + (b - 128) * 64 + (c - 128))"
      using "2.prems" by (auto simp: utf8_decode.simps(2) Let_def split: list.splits if_splits)
    obtain y z where y: "y < 64" "b = 128 + y" "z < 64" "c = 128 + z" using r by (auto simp: is_cont_digit)
    have "utf8_encode t = Some r'" using "2.IH"(3) three r t v by auto
    then show ?thesis using utf8_char_digits(2) [of "a - 224" y z] three y r s v by simp
  next
    case four
    then obtain b c d r' t where r: "r = b # c # d # r'" "is_cont b" "is_cont c" "is_cont d"
      and t: "utf8_decode r' = Some t"
      and s: "s = ((a - 240) * 262144 + (b - 128) * 4096 + (c - 128) * 64 + (d - 128)) # t"
      and v: "65536 \<le> (a - 240) * 262144 + (b - 128) * 4096 + (c - 128) * 64 + (d - 128)"
        "(a - 240) * 262144 + (b - 128) * 4096 + (c - 128) * 64 + (d - 128) < 1114112"
      using "2.prems" by (auto simp: utf8_decode.simps(2) Let_def split: list.splits if_splits)
    obtain y z u where y: "y < 64" "b = 128 + y" "z < 64" "c = 128 + z" "u < 64" "d = 128 + u"
      using r by (auto simp: is_cont_digit)
    have "utf8_encode t = Some r'" using "2.IH"(4) four r t v by auto
    then show ?thesis using utf8_char_digits(3) [of y z u "a - 240"] four y r s v by simp
  next
    case bad
    then show ?thesis using "2.prems" by (auto simp: utf8_decode.simps(2) split: if_splits)
  qed
qed

lemma utf8_decode_iff: "utf8_decode b = Some s \<longleftrightarrow> utf8_encode s = Some b"
  using utf8_decode_encode utf8_encode_decode by blast

lemma utf8_encode_bytes: "utf8_encode s = Some b \<Longrightarrow> list_all (\<lambda>x. x < 256) b"
proof (induction s arbitrary: b)
  case (Cons c s)
  have m: "x mod 64 < 64" for x :: nat by simp
  have "utf8_char c = Some d \<Longrightarrow> list_all (\<lambda>x. x < 256) d" for d
    using m [of c] m [of "c div 64"] m [of "c div 4096"]
    by (auto simp: utf8_char_def less_mult_imp_div_less split: if_splits)
  then show ?case using Cons by (auto split: option.splits)
qed simp

text \<open>Bytes that decode to ASCII text are that text.\<close>

lemma utf8_decode_to_ascii: "utf8_decode b = Some s \<Longrightarrow> is_ascii s \<Longrightarrow> b = s"
proof (induction b arbitrary: s rule: utf8_decode.induct)
  case 1
  then show ?case by simp
next
  case (2 a b)
  show ?case
  proof (cases "a < 128")
    case True
    then obtain t where "utf8_decode b = Some t" "s = a # t"
      using "2.prems"(1) by (auto simp: utf8_decode.simps(2))
    then show ?thesis using "2.IH"(1) [OF True, of t] "2.prems"(2) by simp
  next
    case False
    then obtain c t where "s = c # t" "128 \<le> c"
      using "2.prems"(1) by (auto simp: utf8_decode.simps(2) Let_def split: if_splits list.splits)
    then show ?thesis using "2.prems"(2) by simp
  qed
qed

lemmas str_eval [eval_simps] =
  py_def char_class_defs hex_value_def is_ascii_def is_space_def is_control_def lower_ascii_def
  upper_ascii_def py_lower_def py_strip_def starts_with_def ends_with_def partition_at_def
  rpartition_at_def decimal_value_def utf8_char_def utf8_decode.simps(2) is_cont_def
  is_surrogate_def show_nat.simps

end
