(* ===== verification/Py_Url.thy ===== *)
theory Py_Url
  imports Py_Str
begin

text \<open>
  The parts of \<open>urllib.parse\<close>, \<open>ipaddress\<close> and \<open>re\<close> that the URL code uses, after CPython
  3.13: \<open>urlsplit\<close> with its bracket and netloc checks, the \<open>hostname\<close>, \<open>port\<close> and
  \<open>username\<close> attributes of its result, \<open>quote\<close>, and the parsers behind
  \<open>ipaddress.ip_address\<close>. What depends on the Unicode tables of the interpreter (lower-casing
  and NFKC normalisation beyond ASCII) is read from the argument \<open>u :: ucd\<close>.
\<close>

record ucd =
  uc_lower :: "nat \<Rightarrow> nat list"
  uc_nfkc :: "pystr \<Rightarrow> pystr"

section \<open>Patterns\<close>

text \<open>\<open>^[A-Za-z0-9](?:[A-Za-z0-9-]{0,61}[A-Za-z0-9])?$\<close>, matched against the whole label.\<close>

definition host_label :: "pystr \<Rightarrow> bool" where
  "host_label l \<longleftrightarrow>
     l \<noteq> [] \<and> length l \<le> 63 \<and> ascii_alnum (hd l) \<and> ascii_alnum (last l) \<and>
     list_all (\<lambda>c. ascii_alnum c \<or> c = 45) l"

text \<open>\<open>^[0-9]+(?:\.[0-9]+){3}$\<close>, matched against the whole host.\<close>

definition dotted_numeric_host :: "pystr \<Rightarrow> bool" where
  "dotted_numeric_host h \<longleftrightarrow>
     length (split_on 46 h) = 4 \<and> list_all (\<lambda>p. p \<noteq> [] \<and> list_all ascii_digit p) (split_on 46 h)"

text \<open>\<open>%(?![0-9A-Fa-f]{2})\<close> found anywhere.\<close>

fun malformed_percent :: "pystr \<Rightarrow> bool" where
  "malformed_percent [] = False"
| "malformed_percent (c # s) =
     (c = 37 \<and> \<not> (case s of a # b # _ \<Rightarrow> hex_digit a \<and> hex_digit b | _ \<Rightarrow> False) \<or> malformed_percent s)"

text \<open>\<open>%([0-9A-Fa-f]{2})\<close> with both digits upper-cased; and the test that some escape is not.\<close>

fun uppercase_escapes :: "pystr \<Rightarrow> pystr" where
  "uppercase_escapes (c # a # b # s) =
     (if c = 37 \<and> hex_digit a \<and> hex_digit b
      then c # upper_ascii a # upper_ascii b # uppercase_escapes s
      else c # uppercase_escapes (a # b # s))"
| "uppercase_escapes s = s"

fun lowercase_escape :: "pystr \<Rightarrow> bool" where
  "lowercase_escape (c # a # b # s) =
     (if c = 37 \<and> hex_digit a \<and> hex_digit b
      then ascii_lower a \<or> ascii_lower b \<or> lowercase_escape s
      else lowercase_escape (a # b # s))"
| "lowercase_escape s = False"

section \<open>IP addresses\<close>

definition ipv4_octet :: "pystr \<Rightarrow> bool" where
  "ipv4_octet p \<longleftrightarrow>
     p \<noteq> [] \<and> list_all ascii_digit p \<and> length p \<le> 3 \<and> (p = [48] \<or> hd p \<noteq> 48) \<and>
     decimal_value p \<le> 255"

definition ipv4_address :: "pystr \<Rightarrow> bool" where
  "ipv4_address s \<longleftrightarrow>
     47 \<notin> set s \<and> length (split_on 46 s) = 4 \<and> list_all ipv4_octet (split_on 46 s)"

definition hextet :: "pystr \<Rightarrow> bool" where
  "hextet p \<longleftrightarrow> p \<noteq> [] \<and> list_all hex_digit p \<and> length p \<le> 4"

text \<open>
  The colon-separated parts, after a dotted IPv4 tail was replaced by two hextets. \<open>skips\<close>
  are the positions of the inner empty parts, that is, the \<open>::\<close>.
\<close>

definition ipv6_parts :: "pystr list \<Rightarrow> bool" where
  "ipv6_parts ps =
     (let n = length ps;
          skips = filter (\<lambda>i. ps ! i = []) [1 ..< n - 1]
      in n \<le> 9 \<and>
         (case skips of
            [] \<Rightarrow> n = 8 \<and> list_all hextet ps
          | [i] \<Rightarrow>
              let hi = (if hd ps = [] then i - 1 else i);
                  lo = (if last ps = [] then n - i - 2 else n - i - 1)
              in (hd ps = [] \<longrightarrow> hi = 0) \<and> (last ps = [] \<longrightarrow> lo = 0) \<and> hi + lo \<le> 7 \<and>
                 list_all hextet (take hi ps) \<and> list_all hextet (drop (n - lo) ps)
          | _ \<Rightarrow> False))"

definition ipv6_address :: "pystr \<Rightarrow> bool" where
  "ipv6_address s =
     (let (addr, scoped, zone) = partition_at 37 s;
          ps = split_on 58 addr;
          tail4 = (46 \<in> set (last ps))
      in 47 \<notin> set s \<and> (scoped \<longrightarrow> zone \<noteq> [] \<and> 37 \<notin> set zone) \<and> 3 \<le> length ps \<and>
         (tail4 \<longrightarrow> ipv4_address (last ps)) \<and>
         ipv6_parts (if tail4 then butlast ps @ [[48], [48]] else ps))"

text \<open>\<open>ipaddress.ip_address(s).version\<close>; \<open>None\<close> is the \<open>ValueError\<close>.\<close>

definition ip_version :: "pystr \<Rightarrow> nat option" where
  "ip_version s = (if ipv4_address s then Some 4 else if ipv6_address s then Some 6 else None)"

section \<open>urlsplit\<close>

record split_result =
  sr_scheme :: pystr
  sr_netloc :: pystr
  sr_path :: pystr
  sr_query :: pystr

definition scheme_char :: "nat \<Rightarrow> bool" where
  "scheme_char c \<longleftrightarrow> ascii_alnum c \<or> c \<in> {43, 45, 46}"

text \<open>
  \<open>lstrip\<close> of the C0 controls and the space, then removal of every tab, CR and LF.
\<close>

definition url_cleanup :: "pystr \<Rightarrow> pystr" where
  "url_cleanup s = filter (\<lambda>c. c \<noteq> 9 \<and> c \<noteq> 10 \<and> c \<noteq> 13) (dropWhile (\<lambda>c. c \<le> 32) s)"

definition split_scheme :: "pystr \<Rightarrow> pystr \<times> pystr" where
  "split_scheme s =
     (let (pre, found, rest) = partition_at 58 s
      in if found \<and> pre \<noteq> [] \<and> ascii_alpha (hd pre) \<and> list_all scheme_char pre
         then (map lower_ascii pre, rest) else ([], s))"

definition netloc_end :: "nat \<Rightarrow> bool" where
  "netloc_end c \<longleftrightarrow> c = 47 \<or> c = 63 \<or> c = 35"

definition ipvfuture :: "pystr \<Rightarrow> bool" where
  "ipvfuture h =
     (let digits = takeWhile hex_digit (drop 1 h); rest = dropWhile hex_digit (drop 1 h)
      in digits \<noteq> [] \<and> starts_with [46] rest \<and> drop 1 rest \<noteq> [] \<and> 10 \<notin> set (drop 1 rest))"

definition bracketed_host :: "pystr \<Rightarrow> bool" where
  "bracketed_host h = (if starts_with (py ''v'') h then ipvfuture h else ip_version h = Some 6)"

definition bracketed_netloc :: "pystr \<Rightarrow> bool" where
  "bracketed_netloc n =
     (let (_, _, hostport) = rpartition_at 64 n;
          (pre, open_br, bracketed) = partition_at 91 hostport;
          (host, _, tail) = partition_at 93 bracketed
      in if open_br
         then pre = [] \<and> (tail = [] \<or> starts_with [58] tail) \<and> bracketed_host host
         else bracketed_host (fst (partition_at 58 hostport)))"

definition nfkc_safe :: "ucd \<Rightarrow> pystr \<Rightarrow> bool" where
  "nfkc_safe u n =
     (let m = filter (\<lambda>c. c \<notin> {64, 58, 35, 63}) n
      in is_ascii n \<or> uc_nfkc u m = m \<or> set (uc_nfkc u m) \<inter> {47, 63, 35, 64, 58} = {})"

definition urlsplit :: "ucd \<Rightarrow> pystr \<Rightarrow> exn + split_result" where
  "urlsplit u s =
     (let (scheme, rest) = split_scheme (url_cleanup s);
          has_netloc = starts_with (py ''//'') rest;
          netloc = (if has_netloc then takeWhile (\<lambda>c. \<not> netloc_end c) (drop 2 rest) else []);
          rest = (if has_netloc then dropWhile (\<lambda>c. \<not> netloc_end c) (drop 2 rest) else rest);
          (nofrag, _, _) = partition_at 35 rest;
          (path, _, query) = partition_at 63 nofrag
      in bindE (requireE ((91 \<in> set netloc) = (93 \<in> set netloc)) (ValueError ''Invalid IPv6 URL''))
           (\<lambda>_. bindE (requireE (91 \<in> set netloc \<longrightarrow> bracketed_netloc netloc) (ValueError ''Invalid IPv6 URL''))
             (\<lambda>_. bindE (requireE (nfkc_safe u netloc) (ValueError ''netloc contains invalid characters''))
               (\<lambda>_. Inr \<lparr>sr_scheme = scheme, sr_netloc = netloc, sr_path = path, sr_query = query\<rparr>))))"

text \<open>\<open>_hostinfo\<close>: the host and port texts of a netloc.\<close>

definition host_info :: "pystr \<Rightarrow> pystr \<times> pystr" where
  "host_info n =
     (let (_, _, hostport) = rpartition_at 64 n;
          (_, open_br, bracketed) = partition_at 91 hostport
      in if open_br
         then (let (host, _, tail) = partition_at 93 bracketed in (host, snd (snd (partition_at 58 tail))))
         else (let (host, _, port) = partition_at 58 hostport in (host, port)))"

text \<open>\<open>hostname or ""\<close>: the zone after a percent sign keeps its case.\<close>

definition sr_hostname :: "ucd \<Rightarrow> split_result \<Rightarrow> pystr" where
  "sr_hostname u r =
     (let (host, pct, zone) = partition_at 37 (fst (host_info (sr_netloc r)))
      in py_lower (uc_lower u) host @ (if pct then 37 # zone else []))"

definition sr_port :: "split_result \<Rightarrow> exn + nat option" where
  "sr_port r =
     (let port = snd (host_info (sr_netloc r))
      in if port = [] then Inr None
         else if list_all ascii_digit port \<and> decimal_value port \<le> 65535 then Inr (Some (decimal_value port))
         else Inl (ValueError ''Port''))"

text \<open>\<open>username is not None or password is not None\<close>\<close>

definition sr_userinfo :: "split_result \<Rightarrow> bool" where
  "sr_userinfo r \<longleftrightarrow> 64 \<in> set (sr_netloc r)"

section \<open>quote\<close>

definition hex_upper :: "nat \<Rightarrow> nat" where
  "hex_upper d = (if d < 10 then 48 + d else 55 + d)"

definition quote_byte :: "pystr \<Rightarrow> nat \<Rightarrow> pystr" where
  "quote_byte safe b =
     (if ascii_alnum b \<or> b \<in> {95, 46, 45, 126} \<or> b \<in> set safe then [b]
      else [37, hex_upper (b div 16), hex_upper (b mod 16)])"

text \<open>\<open>quote(s, safe=safe, encoding="utf-8", errors="strict")\<close>; \<open>None\<close> is \<open>UnicodeEncodeError\<close>.\<close>

definition quote :: "pystr \<Rightarrow> pystr \<Rightarrow> pystr option" where
  "quote safe s = map_option (\<lambda>b. concat (map (quote_byte safe) b)) (utf8_encode s)"

section \<open>Taking a URL apart and putting it together\<close>

lemma partition_at_split:
  "partition_at c s = (a, f, b) \<longleftrightarrow>
     c \<notin> set a \<and> (if f then s = a @ c # b else s = a \<and> b = [])"
proof
  assume "partition_at c s = (a, f, b)"
  then have a: "a = takeWhile (\<lambda>d. d \<noteq> c) s" and f: "f \<longleftrightarrow> c \<in> set s"
    and b: "b = drop 1 (dropWhile (\<lambda>d. d \<noteq> c) s)"
    by (auto simp: partition_at_def)
  have notin: "c \<notin> set a" using a by (auto dest: set_takeWhileD)
  show "c \<notin> set a \<and> (if f then s = a @ c # b else s = a \<and> b = [])"
  proof (cases "c \<in> set s")
    case True
    then have "dropWhile (\<lambda>d. d \<noteq> c) s \<noteq> []" by (auto simp: dropWhile_eq_Nil_conv)
    moreover from this have "hd (dropWhile (\<lambda>d. d \<noteq> c) s) = c"
      by (metis (mono_tags, lifting) hd_dropWhile)
    ultimately have "dropWhile (\<lambda>d. d \<noteq> c) s = c # b"
      using b by (cases "dropWhile (\<lambda>d. d \<noteq> c) s") auto
    with True notin f a show ?thesis
      by (metis takeWhile_dropWhile_id)
  next
    case False
    then have "takeWhile (\<lambda>d. d \<noteq> c) s = s" and "dropWhile (\<lambda>d. d \<noteq> c) s = []"
      by (auto simp: takeWhile_eq_all_conv dropWhile_eq_Nil_conv)
    with False notin f a b show ?thesis by simp
  qed
next
  assume h: "c \<notin> set a \<and> (if f then s = a @ c # b else s = a \<and> b = [])"
  show "partition_at c s = (a, f, b)"
  proof (cases f)
    case True
    with h have s: "s = a @ c # b" and "c \<notin> set a" by auto
    then have "takeWhile (\<lambda>d. d \<noteq> c) s = a" "dropWhile (\<lambda>d. d \<noteq> c) s = c # b"
      by (auto simp: takeWhile_append dropWhile_append takeWhile_eq_all_conv dropWhile_eq_Nil_conv)
    with True s show ?thesis by (simp add: partition_at_def)
  next
    case False
    with h have s: "s = a" "b = []" and all: "\<forall>d \<in> set a. d \<noteq> c" by auto
    from all have t: "takeWhile (\<lambda>d. d \<noteq> c) a = a" and d: "dropWhile (\<lambda>d. d \<noteq> c) a = []"
      by (simp_all add: takeWhile_eq_all_conv dropWhile_eq_Nil_conv)
    show ?thesis using False h by (simp only: partition_at_def s t d) simp
  qed
qed

lemma partition_at_found [simp]: "c \<notin> set a \<Longrightarrow> partition_at c (a @ c # b) = (a, True, b)"
  by (simp add: partition_at_split)

lemma partition_at_absent [simp]: "c \<notin> set a \<Longrightarrow> partition_at c a = (a, False, [])"
  by (simp add: partition_at_split)

lemma rpartition_at_absent [simp]: "c \<notin> set s \<Longrightarrow> rpartition_at c s = ([], False, s)"
  by (simp add: rpartition_at_def)

lemma starts_with_append [simp]: "starts_with p (p @ s)"
  by (simp add: starts_with_def)

lemma starts_withE: "starts_with p s \<Longrightarrow> \<exists>t. s = p @ t"
  by (metis append_take_drop_id starts_with_def)

lemma starts_with_Cons [simp]: "starts_with (a # p) (b # s) \<longleftrightarrow> a = b \<and> starts_with p s"
  by (auto simp: starts_with_def)

lemma starts_with_Nil [simp]: "starts_with [] s" "starts_with (a # p) [] = False"
  by (simp_all add: starts_with_def)

text \<open>Text without controls that \<open>strip\<close> leaves alone is left alone by \<open>urlsplit\<close>.\<close>

lemma py_strip_hd: "v = py_strip v \<Longrightarrow> v \<noteq> [] \<Longrightarrow> \<not> is_space (hd v)"
proof -
  assume v: "v = py_strip v" and ne: "v \<noteq> []"
  let ?w = "dropWhile is_space v"
  have len: "length (py_strip v) \<le> length ?w"
    by (simp add: py_strip_def length_dropWhile_le [of is_space "rev ?w", simplified])
  show "\<not> is_space (hd v)"
  proof
    assume "is_space (hd v)"
    with ne have "length ?w < length v"
      by (cases v) (auto simp: le_imp_less_Suc length_dropWhile_le)
    with len v show False by simp
  qed
qed

lemma url_cleanup_id:
  assumes "v = py_strip v" and "\<not> list_ex is_control v"
  shows "url_cleanup v = v"
proof (cases v)
  case Nil
  then show ?thesis by (simp add: url_cleanup_def)
next
  case (Cons c w)
  have ctl: "\<not> is_control d" if "d \<in> set v" for d
    using assms(2) that by (auto simp: list_ex_iff)
  have "\<not> is_space c" using py_strip_hd [OF assms(1)] Cons by simp
  with ctl [of c] Cons have "32 < c" by (auto simp: is_control_def is_space_def)
  then have "dropWhile (\<lambda>c. c \<le> 32) v = v" using Cons by simp
  moreover have "filter (\<lambda>c. c \<noteq> 9 \<and> c \<noteq> 10 \<and> c \<noteq> 13) v = v"
    using ctl by (intro filter_True) (fastforce simp: is_control_def)
  ultimately show ?thesis by (simp add: url_cleanup_def)
qed

lemma colon_not_scheme_char: "\<not> scheme_char 58"
  by (simp add: scheme_char_def char_class_defs)

text \<open>
  A successful \<open>urlsplit\<close> of such a text, whose scheme is written as it was read, cuts the
  text into its parts.
\<close>

lemma urlsplit_shape:
  assumes ok: "urlsplit u v = Inr r" and clean: "url_cleanup v = v"
    and scheme: "starts_with (sr_scheme r @ py ''://'') v" and netloc: "sr_netloc r \<noteq> []"
    and nofrag: "35 \<notin> set v"
  shows "\<exists>tail. v = sr_scheme r @ py ''://'' @ sr_netloc r @ sr_path r @ tail \<and>
           (tail = [] \<and> sr_query r = [] \<or> tail = 63 # sr_query r) \<and> 63 \<notin> set (sr_path r) \<and>
           (sr_path r \<noteq> [] \<longrightarrow> hd (sr_path r) = 47) \<and> list_all (\<lambda>c. \<not> netloc_end c) (sr_netloc r)"
proof -
  obtain pre found rest0 where p: "partition_at 58 v = (pre, found, rest0)"
    by (cases "partition_at 58 v") auto
  obtain sch rest where sr: "split_scheme v = (sch, rest)" by fastforce
  define nl where "nl = (if starts_with (py ''//'') rest
      then takeWhile (\<lambda>c. \<not> netloc_end c) (drop 2 rest) else [])"
  define rest' where "rest' = (if starts_with (py ''//'') rest
      then dropWhile (\<lambda>c. \<not> netloc_end c) (drop 2 rest) else rest)"
  have parts: "sr_scheme r = sch" "sr_netloc r = nl"
    "partition_at 63 (fst (partition_at 35 rest')) = (sr_path r, 63 \<in> set (fst (partition_at 35 rest')), sr_query r)"
    using ok unfolding urlsplit_def clean sr nl_def rest'_def
    by (auto simp: sum_iffs Let_def partition_at_def split: prod.splits if_splits)
  have dd: "starts_with (py ''//'') rest" using netloc parts(2) by (auto simp: nl_def split: if_splits)
  obtain t where v: "v = sch @ py ''://'' @ t"
    using starts_withE [OF scheme] parts(1) by auto
  have rest_eq: "rest = py ''//'' @ t"
  proof (cases "found \<and> pre \<noteq> [] \<and> ascii_alpha (hd pre) \<and> list_all scheme_char pre")
    case True
    then have sch: "sch = map lower_ascii pre" and rest: "rest = rest0"
      using sr p by (auto simp: split_scheme_def)
    have v': "v = pre @ 58 # rest0" "58 \<notin> set pre"
      using p True by (auto simp: partition_at_split)
    have "length sch = length pre" using sch by simp
    with v v' have "58 # rest0 = py ''://'' @ t"
      by (metis append_eq_append_conv)
    then show ?thesis using rest by (simp add: py_def)
  next
    case False
    then have "sch = []" "rest = v" using sr p by (auto simp: split_scheme_def)
    with v dd show ?thesis by (simp add: py_def)
  qed
  have nl: "nl = takeWhile (\<lambda>c. \<not> netloc_end c) t" and r': "rest' = dropWhile (\<lambda>c. \<not> netloc_end c) t"
    using dd rest_eq by (simp_all add: nl_def rest'_def py_def)
  have t: "t = nl @ rest'" by (simp add: nl r')
  have nofrag': "35 \<notin> set rest'" using nofrag v t by auto
  have pq: "partition_at 63 rest' = (sr_path r, 63 \<in> set rest', sr_query r)"
    using parts(3) nofrag' by simp
  then have path: "63 \<notin> set (sr_path r)" and
    tail: "if 63 \<in> set rest' then rest' = sr_path r @ 63 # sr_query r else rest' = sr_path r \<and> sr_query r = []"
    by (auto simp: partition_at_split)
  have "hd (sr_path r) = 47" if ne: "sr_path r \<noteq> []"
  proof -
    have "rest' \<noteq> []" using tail ne by (auto split: if_splits)
    then have "netloc_end (hd rest')" unfolding r' using hd_dropWhile by blast
    moreover have "hd rest' = hd (sr_path r)" using tail ne by (auto split: if_splits)
    moreover have "hd (sr_path r) \<noteq> 63" "hd (sr_path r) \<noteq> 35"
      using path ne nofrag' tail by (auto split: if_splits dest: hd_in_set)
    ultimately show ?thesis by (auto simp: netloc_end_def)
  qed
  moreover have "list_all (\<lambda>c. \<not> netloc_end c) nl"
    unfolding nl by (auto simp: list_all_iff dest: set_takeWhileD)
  moreover have "\<exists>tail. rest' = sr_path r @ tail \<and> (tail = [] \<and> sr_query r = [] \<or> tail = 63 # sr_query r)"
    using tail by (auto split: if_splits)
  ultimately show ?thesis
    using v t parts path by auto
qed

text \<open>The converse: a text made of such parts is split into them.\<close>

lemma urlsplit_build:
  assumes scheme: "scheme = py ''http'' \<or> scheme = py ''https''"
    and clean: "url_cleanup v = v"
    and v: "v = scheme @ py ''://'' @ netloc @ path @ tail"
    and netloc: "list_all (\<lambda>c. \<not> netloc_end c) netloc" "is_ascii netloc"
    and br: "(91 \<in> set netloc) = (93 \<in> set netloc)" "91 \<in> set netloc \<longrightarrow> bracketed_netloc netloc"
    and path: "path \<noteq> []" "hd path = 47" "63 \<notin> set path" "35 \<notin> set path"
    and tail: "tail = [] \<and> query = [] \<or> tail = 63 # query" "35 \<notin> set tail"
  shows "urlsplit u v = Inr \<lparr>sr_scheme = scheme, sr_netloc = netloc, sr_path = path, sr_query = query\<rparr>"
proof -
  have sch: "58 \<notin> set scheme" "scheme \<noteq> []" "ascii_alpha (hd scheme)" "list_all scheme_char scheme"
    "map lower_ascii scheme = scheme"
    using scheme by (auto simp: py_def char_class_defs scheme_char_def lower_ascii_def)
  have "v = scheme @ 58 # (py ''//'' @ netloc @ path @ tail)" using v by (simp add: py_def)
  then have "partition_at 58 v = (scheme, True, py ''//'' @ netloc @ path @ tail)"
    using partition_at_found [OF sch(1)] by simp
  then have split: "split_scheme v = (scheme, py ''//'' @ netloc @ path @ tail)"
    using sch by (simp add: split_scheme_def)
  obtain p where p: "path = 47 # p" using path by (cases path) auto
  have tw: "takeWhile (\<lambda>c. \<not> netloc_end c) (netloc @ path @ tail) = netloc"
    and dw: "dropWhile (\<lambda>c. \<not> netloc_end c) (netloc @ path @ tail) = path @ tail"
    using netloc(1) p by (auto simp: list_all_iff takeWhile_append dropWhile_append
        takeWhile_eq_all_conv dropWhile_eq_Nil_conv netloc_end_def)
  have pt: "partition_at 63 (path @ tail) = (path, 63 \<in> set tail, query)"
    using tail path by (auto simp: partition_at_split)
  have nf: "partition_at 35 (path @ tail) = (path @ tail, False, [])"
    using path tail by simp
  have dd: "starts_with (py ''//'') (py ''//'' @ netloc @ path @ tail)"
    "drop 2 (py ''//'' @ netloc @ path @ tail) = netloc @ path @ tail"
    by (simp_all add: py_def)
  show ?thesis
    unfolding urlsplit_def clean split
    using br netloc(2) by (simp add: dd tw dw pt nf nfkc_safe_def)
qed

lemmas url_eval [eval_simps] =
  host_label_def dotted_numeric_host_def ipv4_octet_def ipv4_address_def hextet_def ipv6_parts_def
  ipv6_address_def ip_version_def scheme_char_def url_cleanup_def split_scheme_def netloc_end_def
  ipvfuture_def bracketed_host_def bracketed_netloc_def nfkc_safe_def urlsplit_def host_info_def
  sr_hostname_def sr_port_def sr_userinfo_def hex_upper_def quote_byte_def quote_def Let_def

end
