(* ===== verification/Canonical_Text.thy ===== *)
theory Canonical_Text
  imports Py_Url
begin

text \<open>
  The abstract specification of a V1 canonical URL, shared by the two modules that handle
  them: the text that a scheme, a host, an optional port, a path and an optional query spell
  (\<open>canonical_text\<close>), and what \<open>urlsplit\<close> reads back from it.
\<close>

section \<open>The characters of IP addresses\<close>

lemma split_on_cover: "set s \<subseteq> insert c (\<Union> (set ` set (split_on c s)))"
proof (induction s)
  case Nil
  then show ?case by simp
next
  case (Cons d s)
  then show ?case by (cases "split_on c s") auto
qed

lemma split_on_parts: "d \<in> set s \<Longrightarrow> d \<noteq> c \<Longrightarrow> \<exists>p \<in> set (split_on c s). d \<in> set p"
  using split_on_cover [of s c] by auto

lemma length_split_on: "length (split_on c s) = Suc (count_list s c)"
  by (induction s) (auto split: list.splits)

lemma ipv4_chars:
  assumes "ipv4_address s" and "d \<in> set s"
  shows "ascii_digit d \<or> d = 46"
proof (cases "d = 46")
  case False
  then obtain p where "p \<in> set (split_on 46 s)" "d \<in> set p"
    using split_on_parts assms(2) by blast
  with assms(1) show ?thesis by (auto simp: ipv4_address_def ipv4_octet_def list_all_iff)
qed simp

lemma ipv6_parts_chars:
  assumes "ipv6_parts ps" and "p \<in> set ps" and "d \<in> set p"
  shows "hex_digit d"
proof -
  let ?skips = "filter (\<lambda>i. ps ! i = []) [1 ..< length ps - 1]"
  obtain k where k: "k < length ps" "ps ! k = p" using assms(2) by (auto simp: in_set_conv_nth)
  have pne: "p \<noteq> []" using assms(3) by auto
  consider (none) "?skips = []" | (one) i where "?skips = [i]"
    using assms(1) by (auto simp: ipv6_parts_def Let_def split: list.splits)
  then have "hextet p"
  proof cases
    case none
    then show ?thesis using assms(1,2) by (auto simp: ipv6_parts_def Let_def list_all_iff)
  next
    case (one i)
    have "i \<in> set ?skips" using one by simp
    then have i: "1 \<le> i" "i < length ps - 1" "ps ! i = []" by auto
    define hi where "hi = (if hd ps = [] then i - 1 else i)"
    define lo where "lo = (if last ps = [] then length ps - i - 2 else length ps - i - 1)"
    have c: "hd ps = [] \<longrightarrow> hi = 0" "last ps = [] \<longrightarrow> lo = 0"
      "list_all hextet (take hi ps)" "list_all hextet (drop (length ps - lo) ps)"
      using assms(1) one by (auto simp: ipv6_parts_def Let_def hi_def lo_def)
    have ne: "ps \<noteq> []" using k by auto
    have "k < hi \<or> length ps - lo \<le> k"
    proof (rule ccontr)
      assume "\<not> ?thesis"
      then have nk: "hi \<le> k" "k < length ps - lo" by auto
      have "ps ! k = []"
      proof (cases "k < i")
        case True
        then have "hd ps = []" using nk(1) by (auto simp: hi_def split: if_splits)
        moreover from this have "i = 1" using c(1) i by (simp add: hi_def)
        ultimately show ?thesis using True ne by (simp add: hd_conv_nth)
      next
        case False
        show ?thesis
        proof (cases "k = i")
          case True
          then show ?thesis using i by simp
        next
          case False
          with \<open>\<not> k < i\<close> have "i < k" by simp
          then have "last ps = []" using nk(2) by (auto simp: lo_def split: if_splits)
          moreover from this have "length ps - i - 2 = 0" using c(2) by (simp add: lo_def)
          ultimately have "k = length ps - 1" using \<open>i < k\<close> k(1) by linarith
          then show ?thesis using \<open>last ps = []\<close> ne by (simp add: last_conv_nth)
        qed
      qed
      then show False using k pne by simp
    qed
    then show ?thesis
    proof
      assume "k < hi"
      then have "p \<in> set (take hi ps)" using k by (auto simp: in_set_conv_nth)
      then show ?thesis using c(3) by (auto simp: list_all_iff)
    next
      assume "length ps - lo \<le> k"
      then have "p \<in> set (drop (length ps - lo) ps)"
        using k by (auto simp: in_set_conv_nth intro!: exI [of _ "k - (length ps - lo)"])
      then show ?thesis using c(4) by (auto simp: list_all_iff)
    qed
  qed
  with assms(3) show ?thesis by (auto simp: hextet_def list_all_iff)
qed

lemma ipv6_chars:
  assumes "ipv6_address s" and "37 \<notin> set s" and "d \<in> set s"
  shows "hex_digit d \<or> d = 58 \<or> d = 46"
proof (cases "d = 58")
  case False
  let ?ps = "split_on 58 s"
  obtain p where p: "p \<in> set ?ps" "d \<in> set p" using split_on_parts [OF assms(3) False] by auto
  have h: "46 \<in> set (last ?ps) \<longrightarrow> ipv4_address (last ?ps)"
    "ipv6_parts (if 46 \<in> set (last ?ps) then butlast ?ps @ [[48], [48]] else ?ps)"
    using assms(1,2) by (auto simp: ipv6_address_def Let_def)
  show ?thesis
  proof (cases "46 \<in> set (last ?ps)")
    case True
    have "p = last ?ps \<or> p \<in> set (butlast ?ps)"
      using p(1) by (metis append_butlast_last_id in_set_conv_decomp insert_iff list.simps(15)
          rotate1.simps(2) set_rotate1 split_on_nonempty)
    then show ?thesis
    proof
      assume "p = last ?ps"
      then show ?thesis using ipv4_chars h(1) True p(2) by (auto simp: hex_digit_def)
    next
      assume "p \<in> set (butlast ?ps)"
      then have "p \<in> set (butlast ?ps @ [[48], [48]])" by simp
      then show ?thesis using ipv6_parts_chars [of "butlast ?ps @ [[48], [48]]" p d] h(2) True p(2)
        by simp
    qed
  next
    case False
    then show ?thesis using ipv6_parts_chars [of ?ps p d] h(2) p by simp
  qed
qed simp

lemma ipv6_has_colon:
  assumes "ipv6_address s" and "37 \<notin> set s"
  shows "58 \<in> set s"
proof -
  have "3 \<le> length (split_on 58 s)" using assms by (auto simp: ipv6_address_def Let_def)
  then have "0 < count_list s 58" by (simp add: length_split_on)
  then show ?thesis by (metis count_list_0_iff less_not_refl)
qed

lemma ip_version_cases:
  "ip_version s = Some v \<Longrightarrow> v = 4 \<and> ipv4_address s \<or> v = 6 \<and> ipv6_address s \<and> \<not> ipv4_address s"
  by (auto simp: ip_version_def split: if_splits)

section \<open>The text of a canonical URL\<close>

definition bracket :: "pystr \<Rightarrow> pystr" where
  "bracket host = (if ip_version host = Some 6 then 91 # host @ [93] else host)"

definition port_text :: "nat option \<Rightarrow> pystr" where
  "port_text port = (case port of None \<Rightarrow> [] | Some p \<Rightarrow> 58 # show_nat p)"

definition query_text :: "pystr option \<Rightarrow> pystr" where
  "query_text query = (case query of None \<Rightarrow> [] | Some q \<Rightarrow> 63 # q)"

definition canonical_text ::
    "pystr \<Rightarrow> pystr \<Rightarrow> nat option \<Rightarrow> pystr \<Rightarrow> pystr option \<Rightarrow> pystr" where
  "canonical_text scheme host port path query =
     scheme @ py ''://'' @ bracket host @ port_text port @ path @ query_text query"

definition default_port :: "pystr \<Rightarrow> nat" where
  "default_port scheme = (if scheme = py ''http'' then 80 else 443)"

text \<open>
  What the parts must be, apart from the host: one of the two schemes, a port in range that
  is not the scheme's default, a path from the root.
\<close>

definition parts_ok :: "pystr \<Rightarrow> nat option \<Rightarrow> pystr \<Rightarrow> pystr option \<Rightarrow> bool" where
  "parts_ok scheme port path query \<longleftrightarrow>
     (scheme = py ''http'' \<or> scheme = py ''https'') \<and>
     (case port of None \<Rightarrow> True | Some p \<Rightarrow> 1 \<le> p \<and> p \<le> 65535 \<and> p \<noteq> default_port scheme) \<and>
     path \<noteq> [] \<and> hd path = 47 \<and> 63 \<notin> set path \<and> 35 \<notin> set path \<and>
     (case query of None \<Rightarrow> True | Some q \<Rightarrow> 35 \<notin> set q)"

text \<open>
  What the characters of the host must be: lower-case ASCII without the characters that have a
  meaning in an authority, and a colon only inside an IPv6 address.
\<close>

definition host_chars_ok :: "pystr \<Rightarrow> bool" where
  "host_chars_ok host \<longleftrightarrow>
     host \<noteq> [] \<and> is_ascii host \<and> map lower_ascii host = host \<and>
     set host \<inter> {35, 37, 47, 63, 64, 91, 93} = {} \<and> (58 \<in> set host \<longleftrightarrow> ip_version host = Some 6)"

lemma port_text_chars: "d \<in> set (port_text port) \<Longrightarrow> ascii_digit d \<or> d = 58"
  using show_nat_digits by (auto simp: port_text_def list_all_iff split: option.splits)

lemma bracket_chars: "d \<in> set (bracket host) \<Longrightarrow> d \<in> set host \<or> d = 91 \<or> d = 93"
  by (auto simp: bracket_def split: if_splits)

lemma ip6_not_v: "ip_version h = Some 6 \<Longrightarrow> 37 \<notin> set h \<Longrightarrow> \<not> starts_with (py ''v'') h"
proof
  assume v: "ip_version h = Some 6" and p: "37 \<notin> set h" and s: "starts_with (py ''v'') h"
  then obtain t where "h = 118 # t" by (auto simp: py_def dest: starts_withE)
  then have "118 \<in> set h" by simp
  with v p have "hex_digit 118 \<or> 118 = (58 :: nat) \<or> 118 = (46 :: nat)"
    using ipv6_chars [of h 118] ip_version_cases [of h 6] by auto
  then show False by (simp add: char_class_defs)
qed

lemma host_info_canonical:
  assumes "host_chars_ok host"
  shows "host_info (bracket host @ port_text port) =
           (host, case port of None \<Rightarrow> [] | Some p \<Rightarrow> show_nat p)"
    and "64 \<notin> set (bracket host @ port_text port)"
proof -
  let ?n = "bracket host @ port_text port"
  have dig: "c \<notin> set (show_nat p)" if "c = 64 \<or> c = 58 \<or> c = 91 \<or> c = 93" for c p
    using show_nat_digits [of p] that by (auto simp: list_all_iff ascii_digit_def)
  have host: "64 \<notin> set host" "91 \<notin> set host" "93 \<notin> set host" "58 \<in> set host \<longleftrightarrow> ip_version host = Some 6"
    using assms by (auto simp: host_chars_ok_def)
  show no_at: "64 \<notin> set ?n"
    using host dig by (auto simp: port_text_def bracket_def split: option.splits)
  show "host_info ?n = (host, case port of None \<Rightarrow> [] | Some p \<Rightarrow> show_nat p)"
  proof (cases "ip_version host = Some 6")
    case True
    have n: "?n = [] @ 91 # (host @ 93 # port_text port)" by (simp add: bracket_def True)
    have "partition_at 91 ?n = ([], True, host @ 93 # port_text port)"
      unfolding n by (rule partition_at_found) simp
    moreover have "partition_at 93 (host @ 93 # port_text port) = (host, True, port_text port)"
      using host by simp
    moreover have "snd (snd (partition_at 58 (port_text port))) = (case port of None \<Rightarrow> [] | Some p \<Rightarrow> show_nat p)"
      using partition_at_found [of 58 "[]"] by (auto simp: port_text_def split: option.splits)
    ultimately show ?thesis using no_at by (simp add: host_info_def)
  next
    case False
    have "partition_at 91 ?n = (?n, False, [])"
      using host dig False by (auto simp: bracket_def port_text_def split: option.splits intro!: partition_at_absent)
    moreover have "partition_at 58 ?n = (host, port \<noteq> None, case port of None \<Rightarrow> [] | Some p \<Rightarrow> show_nat p)"
      using host False by (auto simp: bracket_def port_text_def split: option.splits)
    ultimately show ?thesis using no_at by (simp add: host_info_def)
  qed
qed

lemma bracketed_canonical:
  assumes "host_chars_ok host"
  shows "(91 \<in> set (bracket host @ port_text port)) = (93 \<in> set (bracket host @ port_text port))"
    and "91 \<in> set (bracket host @ port_text port) \<longrightarrow> bracketed_netloc (bracket host @ port_text port)"
proof -
  let ?n = "bracket host @ port_text port"
  have dig: "c \<notin> set (show_nat p)" if "c = 91 \<or> c = 93" for c p
    using show_nat_digits [of p] that by (auto simp: list_all_iff ascii_digit_def)
  have host: "91 \<notin> set host" "93 \<notin> set host" "37 \<notin> set host"
    using assms by (auto simp: host_chars_ok_def)
  show "(91 \<in> set ?n) = (93 \<in> set ?n)"
    using host dig by (auto simp: bracket_def port_text_def split: option.splits)
  show "91 \<in> set ?n \<longrightarrow> bracketed_netloc ?n"
  proof
    assume "91 \<in> set ?n"
    then have v6: "ip_version host = Some 6"
      using host dig by (auto simp: bracket_def port_text_def split: option.splits if_splits)
    have n: "?n = [] @ 91 # (host @ 93 # port_text port)" by (simp add: bracket_def v6)
    have "partition_at 91 ?n = ([], True, host @ 93 # port_text port)"
      unfolding n by (rule partition_at_found) simp
    moreover have "partition_at 93 (host @ 93 # port_text port) = (host, True, port_text port)"
      using host by simp
    moreover have "rpartition_at 64 ?n = ([], False, ?n)"
      using host_info_canonical(2) [OF assms] by simp
    moreover have "port_text port = [] \<or> starts_with [58] (port_text port)"
      by (auto simp: port_text_def split: option.splits)
    moreover have "bracketed_host host"
      using v6 ip6_not_v host by (simp add: bracketed_host_def)
    ultimately show "bracketed_netloc ?n" by (simp add: bracketed_netloc_def)
  qed
qed

text \<open>Reading a canonical text back gives its parts.\<close>

lemma urlsplit_canonical:
  assumes parts: "parts_ok scheme port path query" and host: "host_chars_ok host"
    and clean: "url_cleanup (canonical_text scheme host port path query) = canonical_text scheme host port path query"
  shows "\<exists>r. urlsplit u (canonical_text scheme host port path query) = Inr r \<and>
           sr_scheme r = scheme \<and> sr_netloc r = bracket host @ port_text port \<and> sr_path r = path \<and>
           sr_query r = (case query of None \<Rightarrow> [] | Some q \<Rightarrow> q) \<and>
           sr_port r = Inr port \<and> sr_hostname u r = host \<and> \<not> sr_userinfo r"
proof -
  let ?n = "bracket host @ port_text port"
  let ?q = "case query of None \<Rightarrow> [] | Some q \<Rightarrow> q"
  let ?r = "\<lparr>sr_scheme = scheme, sr_netloc = ?n, sr_path = path, sr_query = ?q\<rparr>"
  have nl: "list_all (\<lambda>c. \<not> netloc_end c) ?n" "is_ascii ?n"
    using host port_text_chars [of _ port] bracket_chars [of _ host]
    by (force simp: list_all_iff netloc_end_def host_chars_ok_def is_ascii_def ascii_digit_def)+
  have split: "urlsplit u (canonical_text scheme host port path query) = Inr ?r"
    by (rule urlsplit_build [where tail = "query_text query"])
      (use parts clean nl bracketed_canonical [OF host, of port] in
        \<open>auto simp: parts_ok_def canonical_text_def query_text_def split: option.splits\<close>)
  have info: "host_info ?n = (host, case port of None \<Rightarrow> [] | Some p \<Rightarrow> show_nat p)" and at: "64 \<notin> set ?n"
    using host_info_canonical [OF host] by auto
  have "sr_port ?r = Inr port"
    using parts info show_nat_digits
    by (auto simp: sr_port_def Let_def parts_ok_def decimal_value_show_nat split: option.splits)
  moreover have "sr_hostname u ?r = host"
    using host info by (simp add: sr_hostname_def host_chars_ok_def py_lower_ascii)
  ultimately show ?thesis using split at by (auto simp: sr_userinfo_def)
qed

end
