(* ===== verification/Backlinks_Url.thy ===== *)
theory Backlinks_Url
  imports Canonical_Text
begin

text \<open>
  The canonical-URL check of the backlinks processor
  (\<^verbatim>\<open>services/backlinks-processor/url_validation.py\<close>) and the processing limits
  (\<^verbatim>\<open>config.py\<close>). Every raise is a branch of the error sum. The \<open>idna\<close> package is
  third-party: its decoder and encoder are the argument \<open>ix\<close>, with \<open>None\<close> for \<open>IDNAError\<close>.

  The theorems: what an accepted URL looks like (its text is exactly scheme, authority, path
  and query, all lower-case ASCII in the host, no default port), and that the length and
  character guards come before any parsing.
\<close>

section \<open>config.py\<close>

definition BACKLINK_KEY_PREFIX :: bytes where
  "BACKLINK_KEY_PREFIX = py ''backlinks:''"

definition MAX_CANONICAL_URL_BYTES :: nat where
  "MAX_CANONICAL_URL_BYTES = 2048"

definition MAX_BACKLINK_KEY_BYTES :: nat where
  "MAX_BACKLINK_KEY_BYTES = length BACKLINK_KEY_PREFIX + MAX_CANONICAL_URL_BYTES"

record processing_limits =
  scan_count_hint :: nat
  max_scan_calls_per_cycle :: nat
  max_targets_per_cycle :: nat
  max_pending_target_keys :: nat
  max_scan_response_items :: nat
  max_pending_member_bytes :: nat
  sscan_count_hint :: nat
  max_members_per_target_per_cycle :: nat
  max_members_per_ack_batch :: nat
  max_ack_batch_url_bytes :: nat
  max_mongo_document_bytes :: nat

definition DEFAULT_LIMITS :: processing_limits where
  "DEFAULT_LIMITS =
     \<lparr>scan_count_hint = 100, max_scan_calls_per_cycle = 100, max_targets_per_cycle = 100,
      max_pending_target_keys = 2048, max_scan_response_items = 1024,
      max_pending_member_bytes = 8 * 1024 * 1024, sscan_count_hint = 256,
      max_members_per_target_per_cycle = 256, max_members_per_ack_batch = 256,
      max_ack_batch_url_bytes = 512 * 1024, max_mongo_document_bytes = 12 * 1024 * 1024\<rparr>"

text \<open>\<open>ProcessingLimits.__post_init__\<close>\<close>

definition post_init_limits :: "processing_limits \<Rightarrow> exn + unit" where
  "post_init_limits l =
     bindE (requireE (list_all (\<lambda>v. 0 < v)
         [scan_count_hint l, max_scan_calls_per_cycle l, max_targets_per_cycle l,
          max_pending_target_keys l, max_scan_response_items l, max_pending_member_bytes l,
          sscan_count_hint l, max_members_per_target_per_cycle l, max_members_per_ack_batch l,
          max_ack_batch_url_bytes l, max_mongo_document_bytes l])
       (ValueError ''processing limits must be positive'')) (\<lambda>_.
     bindE (requireE (max_targets_per_cycle l \<le> max_pending_target_keys l)
       (ValueError ''max_pending_target_keys must be at least max_targets_per_cycle'')) (\<lambda>_.
     bindE (requireE (max_scan_response_items l \<le> max_pending_target_keys l)
       (ValueError ''max_pending_target_keys must be at least max_scan_response_items'')) (\<lambda>_.
     requireE (max_scan_response_items l * MAX_CANONICAL_URL_BYTES \<le> max_pending_member_bytes l)
       (ValueError ''max_pending_member_bytes must hold a full member scan response''))))"

text \<open>The limits every run uses have passed the constructor.\<close>

abbreviation limits_ok :: "processing_limits \<Rightarrow> bool" where
  "limits_ok l \<equiv> post_init_limits l = Inr ()"

lemma DEFAULT_LIMITS_ok: "limits_ok DEFAULT_LIMITS"
  by (simp add: post_init_limits_def DEFAULT_LIMITS_def MAX_CANONICAL_URL_BYTES_def)

lemma limits_okD:
  assumes "limits_ok l"
  shows "0 < max_scan_response_items l"
    and "0 < max_members_per_ack_batch l"
    and "0 < max_members_per_target_per_cycle l"
    and "max_targets_per_cycle l \<le> max_pending_target_keys l"
    and "max_scan_response_items l \<le> max_pending_target_keys l"
    and "max_scan_response_items l * MAX_CANONICAL_URL_BYTES \<le> max_pending_member_bytes l"
  using assms by (auto simp: post_init_limits_def sum_iffs)

section \<open>url_validation.py\<close>

record idna =
  idna_decode :: "pystr \<Rightarrow> pystr option"
  idna_encode :: "pystr \<Rightarrow> pystr option"

definition path_characters :: pystr where
  "path_characters = py ''/:@!$&'()*+,;=-._~%''"

definition query_characters :: pystr where
  "query_characters = path_characters @ py ''?''"

text \<open>
  \<open>_has_encoded_control\<close>: an escape of a C0 control or DEL, or the UTF-8 form \<open>%C2%80\<close> ..
  \<open>%C2%9F\<close> of a C1 control. Both callers have rejected an escape without two hex digits.
\<close>

fun has_encoded_control :: "pystr \<Rightarrow> bool" where
  "has_encoded_control (c # a # b # s) =
     (if c \<noteq> 37 then has_encoded_control (a # b # s)
      else (let decoded = 16 * hex_value a + hex_value b in
        if decoded < 32 \<or> decoded = 127 then True
        else if decoded = 194 \<and>
            (case s of p # x # y # _ \<Rightarrow>
                 p = 37 \<and> 128 \<le> 16 * hex_value x + hex_value y \<and> 16 * hex_value x + hex_value y \<le> 159
             | _ \<Rightarrow> False)
        then True
        else has_encoded_control s))"
| "has_encoded_control s = False"

definition valid_component :: "pystr \<Rightarrow> pystr \<Rightarrow> bool" where
  "valid_component value extra \<longleftrightarrow>
     list_all (\<lambda>c. c < 128 \<and> (ascii_alnum c \<or> c \<in> set extra)) value"

abbreviation url_invalid :: exn where
  "url_invalid \<equiv> CanonicalURLValidationError ''url_invalid''"

abbreviation url_noncanonical :: exn where
  "url_noncanonical \<equiv> CanonicalURLValidationError ''url_noncanonical''"

abbreviation url_too_long :: exn where
  "url_too_long \<equiv> CanonicalURLValidationError ''url_too_long''"

text \<open>The A-label check of one label: it must decode, and encode back to itself.\<close>

definition alabel_ok :: "ucd \<Rightarrow> idna \<Rightarrow> pystr \<Rightarrow> bool" where
  "alabel_ok u ix label =
     (case idna_decode ix label of
        None \<Rightarrow> False
      | Some decoded \<Rightarrow>
          (case idna_encode ix decoded of
             None \<Rightarrow> False
           | Some round_trip \<Rightarrow> decoded \<noteq> [] \<and> py_lower (uc_lower u) round_trip = label))"

text \<open>The branch for a host that is not an IP address.\<close>

definition domain_host_ok :: "ucd \<Rightarrow> idna \<Rightarrow> pystr \<Rightarrow> bool" where
  "domain_host_ok u ix host \<longleftrightarrow>
     \<not> dotted_numeric_host host \<and> length host \<le> 253 \<and> \<not> ends_with (py ''.'') host \<and>
     list_all host_label (split_on 46 host) \<and>
     list_all (\<lambda>l. starts_with (py ''xn--'') l \<longrightarrow> alabel_ok u ix l) (split_on 46 host)"

text \<open>The character guards, before the URL is parsed.\<close>

definition validate_characters :: "pystr \<Rightarrow> exn + unit" where
  "validate_characters value =
     bindE (requireE (value \<noteq> []) url_invalid) (\<lambda>_.
     case utf8_encode value of
       None \<Rightarrow> Inl url_invalid
     | Some encoded \<Rightarrow>
         bindE (requireE (length encoded \<le> MAX_CANONICAL_URL_BYTES) url_too_long) (\<lambda>_.
         bindE (requireE (is_ascii value \<and> value = py_strip value \<and> 92 \<notin> set value) url_noncanonical) (\<lambda>_.
         bindE (requireE (\<not> list_ex is_control value) url_noncanonical) (\<lambda>_.
         bindE (requireE (\<not> malformed_percent value \<and> \<not> lowercase_escape value) url_noncanonical) (\<lambda>_.
         requireE (\<not> has_encoded_control value \<and> 35 \<notin> set value) url_noncanonical)))))"

text \<open>The checks of the parsed URL.\<close>

definition validate_parsed :: "ucd \<Rightarrow> idna \<Rightarrow> pystr \<Rightarrow> split_result \<Rightarrow> nat option \<Rightarrow> exn + unit" where
  "validate_parsed u ix value parsed port =
     bindE (requireE ((sr_scheme parsed = py ''http'' \<or> sr_scheme parsed = py ''https'') \<and>
         starts_with (sr_scheme parsed @ py ''://'') value \<and> sr_netloc parsed \<noteq> []) url_invalid) (\<lambda>_.
     bindE (requireE (\<not> sr_userinfo parsed) url_noncanonical) (\<lambda>_.
     let host = sr_hostname u parsed in
     bindE (requireE (host \<noteq> [] \<and> 37 \<notin> set host \<and> host = py_lower (uc_lower u) host \<and> is_ascii host)
       url_noncanonical) (\<lambda>_.
     bindE (case ip_version host of
              None \<Rightarrow> bindE (requireE (domain_host_ok u ix host) url_invalid) (\<lambda>_. Inr host)
            | Some v \<Rightarrow> Inr (if v = 6 then 91 # host @ [93] else host)) (\<lambda>authority.
     let default_port = (if sr_scheme parsed = py ''http'' then 80 else 443) in
     bindE (case port of
              None \<Rightarrow> Inr authority
            | Some p \<Rightarrow> bindE (requireE (1 \<le> p \<and> p \<noteq> default_port) url_noncanonical)
                (\<lambda>_. Inr (authority @ 58 # show_nat p))) (\<lambda>authority.
     bindE (requireE (sr_netloc parsed = authority \<and> sr_path parsed \<noteq> []) url_noncanonical) (\<lambda>_.
     requireE (valid_component (sr_path parsed) path_characters \<and>
         valid_component (sr_query parsed) query_characters) url_noncanonical))))))"

definition validate_canonical_url :: "ucd \<Rightarrow> idna \<Rightarrow> pystr \<Rightarrow> exn + unit" where
  "validate_canonical_url u ix value =
     bindE (validate_characters value) (\<lambda>_.
     case bindE (urlsplit u value) (\<lambda>parsed. bindE (sr_port parsed) (\<lambda>port. Inr (parsed, port))) of
       Inl _ \<Rightarrow> Inl url_invalid
     | Inr (parsed, port) \<Rightarrow> validate_parsed u ix value parsed port)"

section \<open>What an accepted URL is\<close>

lemma validate_charactersD:
  assumes "validate_characters v = Inr ()"
  shows "v \<noteq> []" and "is_ascii v" and "length v \<le> MAX_CANONICAL_URL_BYTES"
    and "v = py_strip v" and "\<not> list_ex is_control v" and "\<not> malformed_percent v"
    and "\<not> lowercase_escape v" and "\<not> has_encoded_control v" and "35 \<notin> set v" and "92 \<notin> set v"
  using assms
  by (auto simp: validate_characters_def sum_iffs utf8_encode_ascii split: option.splits)

lemma validate_canonical_urlD:
  assumes "validate_canonical_url u ix v = Inr ()"
  shows "validate_characters v = Inr ()"
    and "\<exists>parsed port. urlsplit u v = Inr parsed \<and> sr_port parsed = Inr port \<and>
           validate_parsed u ix v parsed port = Inr ()"
  using assms
  by (auto simp: validate_canonical_url_def sum_iffs split: sum.splits)

lemma validate_canonical_url_errors:
  assumes "validate_canonical_url u ix v = Inl e"
  shows "e = url_invalid \<or> e = url_noncanonical \<or> e = url_too_long"
  using assms
  by (auto simp: validate_canonical_url_def validate_characters_def validate_parsed_def sum_iffs Let_def
      split: sum.splits option.splits if_splits)

text \<open>
  The specification: the parts of a canonical URL as this module accepts them, over the shared
  \<open>canonical_text\<close>.
\<close>

definition host_accepted :: "ucd \<Rightarrow> idna \<Rightarrow> pystr \<Rightarrow> bool" where
  "host_accepted u ix host =
     (case ip_version host of None \<Rightarrow> map lower_ascii host = host \<and> domain_host_ok u ix host
      | Some _ \<Rightarrow> is_ascii host \<and> map lower_ascii host = host \<and> 37 \<notin> set host)"

definition canonical_parts ::
    "ucd \<Rightarrow> idna \<Rightarrow> pystr \<Rightarrow> pystr \<Rightarrow> nat option \<Rightarrow> pystr \<Rightarrow> pystr option \<Rightarrow> bool" where
  "canonical_parts u ix scheme host port path query \<longleftrightarrow>
     parts_ok scheme port path query \<and> host_accepted u ix host \<and>
     valid_component path path_characters \<and>
     (case query of None \<Rightarrow> True | Some q \<Rightarrow> valid_component q query_characters)"

lemma host_label_chars: "host_label l \<Longrightarrow> d \<in> set l \<Longrightarrow> ascii_alnum d \<or> d = 45"
  by (auto simp: host_label_def list_all_iff)

lemma domain_host_chars:
  assumes "list_all host_label (split_on 46 h)" and "d \<in> set h"
  shows "ascii_alnum d \<or> d = 45 \<or> d = 46"
proof (cases "d = 46")
  case False
  then obtain p where "p \<in> set (split_on 46 h)" "d \<in> set p" using split_on_parts assms(2) by blast
  with assms(1) show ?thesis using host_label_chars by (auto simp: list_all_iff)
qed simp

lemma domain_labels_nonempty: "list_all host_label (split_on 46 h) \<Longrightarrow> h \<noteq> []"
  by (auto simp: host_label_def)

lemma host_accepted_chars:
  assumes "host_accepted u ix h"
  shows "host_chars_ok h"
proof (cases "ip_version h")
  case None
  then have l: "list_all host_label (split_on 46 h)" and low: "map lower_ascii h = h"
    using assms by (auto simp: host_accepted_def domain_host_ok_def)
  have c: "ascii_alnum d \<or> d = 45 \<or> d = 46" if "d \<in> set h" for d
    using domain_host_chars [OF l that] .
  have "is_ascii h" using c by (fastforce simp: is_ascii_def list_all_iff char_class_defs)
  moreover have "d \<notin> set h" if "d \<in> {35, 37, 47, 63, 64, 91, 93, 58}" for d
    using c [of d] that by (auto simp: char_class_defs)
  ultimately show ?thesis
    using low domain_labels_nonempty [OF l] None by (auto simp: host_chars_ok_def)
next
  case (Some v)
  have asc: "is_ascii h" and low: "map lower_ascii h = h" and pct: "37 \<notin> set h"
    using assms Some by (auto simp: host_accepted_def)
  have c: "hex_digit d \<or> d = 58 \<or> d = 46" if "d \<in> set h" for d
    using ip_version_cases [OF Some] ipv6_chars [OF _ pct that] ipv4_chars [OF _ that]
    by (auto simp: hex_digit_def)
  have "d \<notin> set h" if "d \<in> {35, 37, 47, 63, 64, 91, 93}" for d
    using c [of d] that by (auto simp: char_class_defs)
  moreover have "58 \<in> set h \<longleftrightarrow> v = 6"
    using ip_version_cases [OF Some] ipv6_has_colon pct ipv4_chars by (fastforce simp: char_class_defs)
  moreover have "h \<noteq> []"
    using ip_version_cases [OF Some] by (auto simp: ipv4_address_def ipv6_address_def partition_at_def)
  ultimately show ?thesis using asc low Some by (auto simp: host_chars_ok_def)
qed

lemma validate_parsed_canonical:
  assumes "canonical_parts u ix scheme host port path query"
    and r: "sr_scheme r = scheme" "sr_netloc r = bracket host @ port_text port" "sr_path r = path"
      "sr_query r = (case query of None \<Rightarrow> [] | Some q \<Rightarrow> q)" "sr_hostname u r = host" "\<not> sr_userinfo r"
  shows "validate_parsed u ix (canonical_text scheme host port path query) r port = Inr ()"
proof -
  have p: "parts_ok scheme port path query" and h: "host_accepted u ix host"
    and c: "valid_component path path_characters"
      "valid_component (case query of None \<Rightarrow> [] | Some q \<Rightarrow> q) query_characters"
    using assms(1) by (auto simp: canonical_parts_def valid_component_def split: option.splits)
  have hc: "host_chars_ok host" using host_accepted_chars [OF h] .
  have sw: "starts_with (scheme @ py ''://'') (canonical_text scheme host port path query)"
    by (metis append.assoc canonical_text_def starts_with_append)
  have ne: "bracket host @ port_text port \<noteq> []" using hc by (auto simp: bracket_def host_chars_ok_def)
  have auth: "(case ip_version host of
              None \<Rightarrow> bindE (requireE (domain_host_ok u ix host) url_invalid) (\<lambda>_. Inr host)
            | Some v \<Rightarrow> Inr (if v = 6 then 91 # host @ [93] else host)) = Inr (bracket host)"
    using h by (auto simp: host_accepted_def bracket_def split: option.splits)
  show ?thesis
    unfolding validate_parsed_def r auth Let_def
    using p hc c sw ne r(6)
    by (auto simp: parts_ok_def host_chars_ok_def py_lower_ascii default_port_def port_text_def
        split: option.splits)
qed

text \<open>
  The validator accepts exactly the canonical texts that pass its character guards: the
  specification characterises it in both directions.
\<close>

lemma validate_canonical_url_complete:
  assumes ch: "validate_characters v = Inr ()" and v: "v = canonical_text scheme host port path query"
    and parts: "canonical_parts u ix scheme host port path query"
  shows "validate_canonical_url u ix v = Inr ()"
proof -
  have "url_cleanup v = v"
    using url_cleanup_id validate_charactersD(4,5) [OF ch] by blast
  moreover have "parts_ok scheme port path query" "host_chars_ok host"
    using parts host_accepted_chars by (auto simp: canonical_parts_def)
  ultimately obtain r where r: "urlsplit u v = Inr r" "sr_scheme r = scheme"
    "sr_netloc r = bracket host @ port_text port" "sr_path r = path"
    "sr_query r = (case query of None \<Rightarrow> [] | Some q \<Rightarrow> q)" "sr_port r = Inr port"
    "sr_hostname u r = host" "\<not> sr_userinfo r"
    using urlsplit_canonical [of scheme port path query host u] v by blast
  have "validate_parsed u ix v r port = Inr ()"
    unfolding v by (rule validate_parsed_canonical [OF parts]) (use r in auto)
  with ch r show ?thesis by (simp add: validate_canonical_url_def)
qed

lemma validate_parsed_sound:
  assumes ch: "validate_characters v = Inr ()" and split: "urlsplit u v = Inr r"
    and port: "sr_port r = Inr port" and ok: "validate_parsed u ix v r port = Inr ()"
  shows "\<exists>scheme host path query. v = canonical_text scheme host port path query \<and>
           canonical_parts u ix scheme host port path query"
proof -
  define host where "host = sr_hostname u r"
  have clean: "url_cleanup v = v" and frag: "35 \<notin> set v" and asc: "is_ascii v"
    using url_cleanup_id validate_charactersD [OF ch] by blast+
  have s: "sr_scheme r = py ''http'' \<or> sr_scheme r = py ''https''"
    and sw: "starts_with (sr_scheme r @ py ''://'') v" and nl: "sr_netloc r \<noteq> []"
    and h: "host \<noteq> []" "37 \<notin> set host" "host = py_lower (uc_lower u) host" "is_ascii host"
    and dom: "ip_version host = None \<Longrightarrow> domain_host_ok u ix host"
    and p: "case port of None \<Rightarrow> True | Some p \<Rightarrow> 1 \<le> p \<and> p \<noteq> default_port (sr_scheme r)"
    and auth: "sr_netloc r = bracket host @ port_text port"
    and path: "sr_path r \<noteq> []" "valid_component (sr_path r) path_characters"
      "valid_component (sr_query r) query_characters"
    using ok unfolding validate_parsed_def host_def [symmetric]
    by (auto simp: sum_iffs Let_def bracket_def port_text_def default_port_def
        split: option.splits if_splits dest: ip_version_cases)
  obtain tail where v: "v = sr_scheme r @ py ''://'' @ sr_netloc r @ sr_path r @ tail"
    and tail: "tail = [] \<and> sr_query r = [] \<or> tail = 63 # sr_query r"
    and pt: "63 \<notin> set (sr_path r)" "hd (sr_path r) = 47"
    using urlsplit_shape [OF split clean sw nl frag] path(1) by blast
  define query where "query = (if tail = [] then None else Some (sr_query r))"
  have qt: "query_text query = tail" using tail by (auto simp: query_def query_text_def)
  have "map lower_ascii host = host" using h(3,4) by (simp add: py_lower_ascii)
  then have acc: "host_accepted u ix host"
    using h dom by (auto simp: host_accepted_def split: option.splits)
  have "case port of None \<Rightarrow> True | Some p \<Rightarrow> p \<le> 65535"
    using port by (auto simp: sr_port_def Let_def split: if_splits)
  moreover have "35 \<notin> set (sr_path r)" "case query of None \<Rightarrow> True | Some q \<Rightarrow> 35 \<notin> set q"
    using frag v tail by (auto simp: query_def split: if_splits)
  ultimately have "parts_ok (sr_scheme r) port (sr_path r) query"
    using s p path(1) pt by (auto simp: parts_ok_def split: option.splits)
  then have "canonical_parts u ix (sr_scheme r) host port (sr_path r) query"
    using acc path by (auto simp: canonical_parts_def query_def)
  moreover have "v = canonical_text (sr_scheme r) host port (sr_path r) query"
    using v auth qt by (simp add: canonical_text_def)
  ultimately show ?thesis by blast
qed


lemmas backlinks_url_eval [eval_simps] =
  BACKLINK_KEY_PREFIX_def MAX_CANONICAL_URL_BYTES_def MAX_BACKLINK_KEY_BYTES_def DEFAULT_LIMITS_def
  path_characters_def query_characters_def valid_component_def alabel_ok_def domain_host_ok_def
  validate_characters_def validate_parsed_def validate_canonical_url_def

end
