(* ===== verification/Datastore.thy ===== *)
theory Datastore
  imports Py_Str "HOL-Library.List_Lexorder"
begin

text \<open>
  The data that crosses the boundary to MongoDB: BSON values, documents in field order, update
  operations and the driver's results. The server itself is a parameter of every component;
  this theory fixes only the data the code builds and reads. A finite double is \<open>BFloat m e\<close>,
  the number \<open>m / 2 ^ e\<close>.
\<close>

datatype bson =
    BNull
  | BBool bool
  | BInt int
  | BFloat int nat
  | BNaN
  | BInfinity
  | BStr pystr
  | BDate int
  | BArr "bson list"
  | BDoc "(pystr \<times> bson) list"
  | BOther nat

type_synonym doc = "(pystr, bson) dict"

fun bson_str :: "bson \<Rightarrow> pystr option" where
  "bson_str (BStr s) = Some s"
| "bson_str _ = None"

fun bson_list :: "bson \<Rightarrow> bson list option" where
  "bson_list (BArr xs) = Some xs"
| "bson_list _ = None"

text \<open>A list whose every value is text, as those texts.\<close>

definition text_list :: "bson list \<Rightarrow> pystr list option" where
  "text_list xs = (if list_all (\<lambda>x. bson_str x \<noteq> None) xs then Some (map (the \<circ> bson_str) xs) else None)"

lemma text_list_BStr [simp]: "text_list (map BStr ss) = Some ss"
  by (simp add: text_list_def list_all_iff comp_def)

lemma text_list_SomeD: "text_list xs = Some ss \<Longrightarrow> xs = map BStr ss"
proof (induction xs arbitrary: ss)
  case Nil
  then show ?case by (simp add: text_list_def)
next
  case (Cons x xs)
  then show ?case by (cases x) (auto simp: text_list_def split: if_splits)
qed

text \<open>\<open>sorted(set(xs))\<close>: Python orders text by code points.\<close>

definition sorted_set :: "'a::linorder list \<Rightarrow> 'a list" where
  "sorted_set xs = sort (remdups xs)"

lemma set_sorted_set [simp]: "set (sorted_set xs) = set xs"
  by (simp add: sorted_set_def)

lemma sorted_sorted_set [simp]: "sorted (sorted_set xs)"
  by (simp add: sorted_set_def)

lemma distinct_sorted_set [simp]: "distinct (sorted_set xs)"
  by (simp add: sorted_set_def)

lemma sorted_set_Nil_iff [simp]: "sorted_set xs = [] \<longleftrightarrow> xs = []"
  by (metis set_empty set_sorted_set)

lemma sorted_set_id: "sorted xs \<Longrightarrow> distinct xs \<Longrightarrow> sorted_set xs = xs"
  by (simp add: sorted_set_def distinct_remdups_id sorted_sort_id)

record update_one =
  uo_filter :: doc
  uo_update :: doc
  uo_upsert :: bool

record bulk_result =
  br_acknowledged :: bool
  br_matched :: nat
  br_upserted :: nat

record update_result =
  ur_acknowledged :: bool
  ur_count :: nat

text \<open>
  A cursor is the documents it yields and the exception it ends with, if any; consuming it in a
  \<open>for\<close> loop raises that exception after the last document.
\<close>

record cursor =
  cur_docs :: "doc list"
  cur_end :: "exn option"

text \<open>\<open>$addToSet\<close> with \<open>$each\<close>: each value not yet present is appended, in order.\<close>

definition add_each :: "'a list \<Rightarrow> 'a list \<Rightarrow> 'a list" where
  "add_each l vs = foldl (\<lambda>l v. if v \<in> set l then l else l @ [v]) l vs"

lemma set_add_each [simp]: "set (add_each l vs) = set l \<union> set vs"
  unfolding add_each_def by (induction vs arbitrary: l) auto

text \<open>For distinct values that is the list with the missing ones appended.\<close>

lemma add_each_filter: "distinct vs \<Longrightarrow> add_each l vs = l @ filter (\<lambda>v. v \<notin> set l) vs"
proof (induction vs arbitrary: l)
  case Nil
  then show ?case by (simp add: add_each_def)
next
  case (Cons v vs)
  have step: "add_each l (v # vs) = add_each (if v \<in> set l then l else l @ [v]) vs"
    by (simp add: add_each_def)
  have "filter (\<lambda>w. w \<notin> set (l @ [v])) vs = filter (\<lambda>w. w \<notin> set l) vs"
    using Cons.prems by (intro filter_cong) auto
  then show ?case using Cons by (simp add: step)
qed

lemmas datastore_eval [eval_simps] = text_list_def sorted_set_def add_each_def

end
