(* ===== verification/Backlinks_Stores.thy ===== *)
theory Backlinks_Stores
  imports Backlinks_Url Datastore
begin

text \<open>
  The datastore clients of the backlinks processor: \<^verbatim>\<open>data/redis_client.py\<close>,
  \<^verbatim>\<open>data/mongo_client.py\<close> and the value types of \<^verbatim>\<open>models/backlinks.py\<close>.

  The redis-py and pymongo calls are the parameters \<open>bl_redis\<close> and \<open>bl_mongo\<close> over an
  abstract world \<open>'w\<close>. Redis keys and set members are raw bytes, MongoDB values are BSON.
  The theorems: a parsed key or member re-encodes to the bytes it came from; a scan never
  returns more items than its limit; \<open>add_backlinks\<close> writes only validated URLs and only
  below the document ceiling, and after it returned the sources are stored.
\<close>

section \<open>models/backlinks.py\<close>

record backlink_member =
  bm_raw :: bytes
  bm_url :: pystr

record backlink_batch =
  bb_redis_key :: bytes
  bb_target_url :: pystr
  bb_members :: "backlink_member list"
  bb_encoded_url_bytes :: nat

section \<open>The third-party clients\<close>

record 'w bl_redis =
  redis_scan :: "nat \<Rightarrow> bytes \<Rightarrow> nat \<Rightarrow> ('w, nat \<times> bytes list) prog"
  redis_type :: "bytes \<Rightarrow> ('w, bytes) prog"
  redis_sscan :: "bytes \<Rightarrow> nat \<Rightarrow> nat \<Rightarrow> ('w, nat \<times> bytes list) prog"
  redis_srem :: "bytes \<Rightarrow> bytes list \<Rightarrow> ('w, nat) prog"

record 'w bl_mongo =
  mongo_find_one :: "pystr \<Rightarrow> doc \<Rightarrow> ('w, doc option) prog"
  mongo_insert_one :: "pystr \<Rightarrow> doc \<Rightarrow> ('w, bool) prog"
  mongo_bulk_write :: "pystr \<Rightarrow> update_one list \<Rightarrow> ('w, bulk_result) prog"
  mongo_find :: "pystr \<Rightarrow> doc \<Rightarrow> doc \<Rightarrow> ('w, cursor) prog"
  mongo_count :: "pystr \<Rightarrow> doc \<Rightarrow> nat \<Rightarrow> ('w, nat) prog"
  bson_encode_size :: "doc \<Rightarrow> exn + nat"

record 'w bl_env =
  e_ucd :: ucd
  e_idna :: idna
  e_redis :: "'w bl_redis"
  e_mongo :: "'w bl_mongo"
  e_stop :: "'w \<Rightarrow> bool \<times> 'w"

abbreviation check_url :: "('w, 'z) bl_env_scheme \<Rightarrow> pystr \<Rightarrow> exn + unit" where
  "check_url env \<equiv> validate_canonical_url (e_ucd env) (e_idna env)"

section \<open>data/redis_client.py\<close>

definition validate_redis_auth :: "pystr \<Rightarrow> pystr \<Rightarrow> bool \<Rightarrow> exn + unit" where
  "validate_redis_auth username password allow_insecure =
     bindE (requireE (\<not> (username \<noteq> [] \<and> password = [])) (ValueError ''REDIS_USERNAME requires REDIS_PASSWORD''))
       (\<lambda>_. requireE (\<not> (password = [] \<and> \<not> allow_insecure)) (ValueError ''Redis authentication is required''))"

definition parse_backlink_key :: "('w, 'z) bl_env_scheme \<Rightarrow> bytes \<Rightarrow> exn + pystr" where
  "parse_backlink_key env raw_key =
     bindE (requireE (starts_with BACKLINK_KEY_PREFIX raw_key) (InvalidBacklinkSet ''target_key_invalid'')) (\<lambda>_.
     bindE (requireE (length raw_key \<le> MAX_BACKLINK_KEY_BYTES) (InvalidBacklinkSet ''target_url_too_long'')) (\<lambda>_.
     let raw_url = drop (length BACKLINK_KEY_PREFIX) raw_key in
     bindE (requireE (raw_url \<noteq> []) (InvalidBacklinkSet ''target_key_invalid'')) (\<lambda>_.
     case utf8_decode raw_url of
       None \<Rightarrow> Inl (InvalidBacklinkSet ''target_key_invalid'')
     | Some target_url \<Rightarrow>
         (case check_url env target_url of
            Inl _ \<Rightarrow> Inl (InvalidBacklinkSet ''target_url_noncanonical'')
          | Inr _ \<Rightarrow> Inr target_url))))"

definition parse_backlink_member :: "('w, 'z) bl_env_scheme \<Rightarrow> bytes \<Rightarrow> exn + backlink_member" where
  "parse_backlink_member env raw_member =
     bindE (requireE (length raw_member \<le> MAX_CANONICAL_URL_BYTES) (InvalidBacklinkSet ''member_url_too_long'')) (\<lambda>_.
     case utf8_decode raw_member of
       None \<Rightarrow> Inl (InvalidBacklinkSet ''member_invalid_utf8'')
     | Some url \<Rightarrow>
         bindE (requireE (url \<noteq> []) (InvalidBacklinkSet ''member_invalid_utf8'')) (\<lambda>_.
         (case check_url env url of
            Inl _ \<Rightarrow> Inl (InvalidBacklinkSet ''member_url_noncanonical'')
          | Inr _ \<Rightarrow> Inr \<lparr>bm_raw = raw_member, bm_url = url\<rparr>)))"

definition scan_backlink_keys ::
    "('w, 'z) bl_env_scheme \<Rightarrow> nat \<Rightarrow> nat \<Rightarrow> nat \<Rightarrow> ('w, nat \<times> bytes list) prog" where
  "scan_backlink_keys env cursor count_hint max_items =
     bind (redis_scan (e_redis env) cursor (BACKLINK_KEY_PREFIX @ py ''*'') count_hint) (\<lambda>(next_cursor, keys).
     if length keys > max_items then raise (RedisScanLimitExceeded ''key_scan_response_limit_exceeded'')
     else ret (next_cursor, keys))"

text \<open>
  An \<open>SSCAN\<close> on a key whose type changed since the \<open>TYPE\<close> call fails with a response error
  naming \<open>WRONGTYPE\<close>.
\<close>

definition mentions_wrongtype :: "string \<Rightarrow> bool" where
  "mentions_wrongtype msg \<longleftrightarrow> list_ex (\<lambda>i. take 9 (drop i msg) = ''WRONGTYPE'') [0 ..< length msg]"

definition scan_backlink_members ::
    "('w, 'z) bl_env_scheme \<Rightarrow> bytes \<Rightarrow> nat \<Rightarrow> nat \<Rightarrow> nat \<Rightarrow> ('w, nat \<times> bytes list) prog" where
  "scan_backlink_members env key cursor count_hint max_items =
     bind (redis_type (e_redis env) key) (\<lambda>key_type.
     if key_type = py ''none'' then ret (0, [])
     else if key_type \<noteq> py ''set'' then raise (InvalidBacklinkSet ''redis_key_wrong_type'')
     else bind (catch (redis_sscan (e_redis env) key cursor count_hint)
         (\<lambda>e. case e of
            RedisResponseError msg \<Rightarrow>
              if mentions_wrongtype msg then raise (InvalidBacklinkSet ''redis_key_wrong_type'') else raise e
          | _ \<Rightarrow> raise e)) (\<lambda>(next_cursor, members).
       if length members > max_items
       then raise (RedisScanLimitExceeded ''member_scan_response_limit_exceeded'')
       else ret (next_cursor, members)))"

definition srem_backlink_members ::
    "('w, 'z) bl_env_scheme \<Rightarrow> bytes \<Rightarrow> bytes list \<Rightarrow> ('w, nat) prog" where
  "srem_backlink_members env key members =
     (if members = [] then raise (ValueError ''at least one backlink member is required'')
      else redis_srem (e_redis env) key members)"

section \<open>data/mongo_client.py\<close>

definition BACKLINKS_COLLECTION :: pystr where
  "BACKLINKS_COLLECTION = py ''backlinks''"

definition OUTLINKS_COLLECTION :: pystr where
  "OUTLINKS_COLLECTION = py ''outlinks''"

definition validate_mongo_auth :: "pystr \<Rightarrow> pystr \<Rightarrow> bool \<Rightarrow> exn + unit" where
  "validate_mongo_auth username password allow_insecure =
     bindE (requireE ((username \<noteq> []) = (password \<noteq> []))
         (ValueError ''MONGO_USERNAME and MONGO_PASSWORD must be set together''))
       (\<lambda>_. requireE (\<not> (username = [] \<and> \<not> allow_insecure)) (ValueError ''MongoDB authentication is required''))"

definition validate_url :: "('w, 'z) bl_env_scheme \<Rightarrow> string \<Rightarrow> pystr \<Rightarrow> exn + unit" where
  "validate_url env reason value =
     bindE (requireE (value \<noteq> []) (BacklinkDocumentRejected reason)) (\<lambda>_.
     case utf8_encode value of
       None \<Rightarrow> Inl (BacklinkDocumentRejected reason)
     | Some encoded \<Rightarrow>
         bindE (requireE (length encoded \<le> MAX_CANONICAL_URL_BYTES) (BacklinkDocumentRejected reason)) (\<lambda>_.
         (case check_url env value of
            Inl _ \<Rightarrow> Inl (BacklinkDocumentRejected reason)
          | Inr _ \<Rightarrow> Inr ())))"

text \<open>The encoded length of a text that has been validated.\<close>

definition utf8_length :: "pystr \<Rightarrow> nat" where
  "utf8_length s = (case utf8_encode s of None \<Rightarrow> 0 | Some b \<Rightarrow> length b)"

definition validate_batch ::
    "('w, 'z) bl_env_scheme \<Rightarrow> pystr \<Rightarrow> pystr list \<Rightarrow> nat \<Rightarrow> nat \<Rightarrow> exn + pystr list" where
  "validate_batch env target_url source_urls max_members max_batch_url_bytes =
     bindE (validate_url env ''target_url_invalid'' target_url) (\<lambda>_.
     let unique_sources = sorted_set source_urls in
     bindE (requireE (unique_sources \<noteq> []) (BacklinkDocumentRejected ''member_batch_empty'')) (\<lambda>_.
     bindE (requireE (length unique_sources \<le> max_members) (BacklinkDocumentRejected ''member_batch_too_large'')) (\<lambda>_.
     bindE (mapE (validate_url env ''member_url_invalid'') unique_sources) (\<lambda>_.
     bindE (requireE (sum_list (map utf8_length unique_sources) \<le> max_batch_url_bytes)
       (BacklinkDocumentRejected ''member_batch_too_large'')) (\<lambda>_.
     Inr unique_sources)))))"

definition id_filter :: "pystr \<Rightarrow> doc" where
  "id_filter target_url = [(py ''_id'', BStr target_url)]"

definition root_selector :: "pystr \<Rightarrow> doc \<Rightarrow> doc" where
  "root_selector target_url existing =
     [(py ''_id'', BStr target_url),
      (py ''$expr'', BDoc [(py ''$eq'', BArr [BStr (py ''$$ROOT''), BDoc [(py ''$literal'', BDoc existing)]])])]"

definition add_to_set_update :: "pystr \<Rightarrow> pystr list \<Rightarrow> doc" where
  "add_to_set_update target_url unique_sources =
     [(py ''$setOnInsert'', BDoc [(py ''_id'', BStr target_url)]),
      (py ''$addToSet'', BDoc [(py ''links'', BDoc [(py ''$each'', BArr (map BStr unique_sources))])])]"

text \<open>The links of the stored document, and the document as it would be after the write.\<close>

definition existing_links :: "doc option \<Rightarrow> exn + pystr list" where
  "existing_links existing =
     (case existing of
        None \<Rightarrow> Inr []
      | Some d \<Rightarrow>
          (case map_of d (py ''links'') of
             None \<Rightarrow> Inr []
           | Some v \<Rightarrow>
               (case Option.bind (bson_list v) text_list of
                  None \<Rightarrow> Inl (BacklinkDocumentRejected ''mongo_links_invalid'')
                | Some links \<Rightarrow> Inr links)))"

definition projected_document :: "pystr \<Rightarrow> doc option \<Rightarrow> pystr list \<Rightarrow> doc" where
  "projected_document target_url existing links =
     AList.update (py ''links'') (BArr (map BStr links))
       (case existing of None \<Rightarrow> [(py ''_id'', BStr target_url)] | Some d \<Rightarrow> d)"

definition write_insert :: "('w, 'z) bl_env_scheme \<Rightarrow> doc \<Rightarrow> ('w, unit) prog" where
  "write_insert env projected =
     bind (catch (mongo_insert_one (e_mongo env) BACKLINKS_COLLECTION projected)
         (\<lambda>e. if e = DuplicateKeyError then raise MongoWriteConflict else raise e)) (\<lambda>acknowledged.
     if acknowledged then ret () else raise MongoWriteNotAcknowledged)"

text \<open>How a failed bulk write is reported to the caller.\<close>

definition bulk_error :: "exn \<Rightarrow> exn" where
  "bulk_error e =
     (case e of
        DuplicateKeyError \<Rightarrow> MongoWriteConflict
      | BulkWriteError d \<Rightarrow>
          if 11000 \<in> set (write_error_codes d) then MongoWriteConflict
          else if retryable_label d \<or> has_write_concern_errors d then MongoWriteNotAcknowledged
          else BacklinkDocumentRejected ''mongo_write_rejected''
      | _ \<Rightarrow> e)"

definition write_update ::
    "('w, 'z) bl_env_scheme \<Rightarrow> pystr \<Rightarrow> doc \<Rightarrow> pystr list \<Rightarrow> ('w, unit) prog" where
  "write_update env target_url existing unique_sources =
     (let operation = \<lparr>uo_filter = root_selector target_url existing,
                       uo_update = add_to_set_update target_url unique_sources, uo_upsert = False\<rparr> in
     bind (catch (mongo_bulk_write (e_mongo env) BACKLINKS_COLLECTION [operation])
         (\<lambda>e. raise (bulk_error e))) (\<lambda>result.
     if \<not> br_acknowledged result then raise MongoWriteNotAcknowledged
     else if br_matched result + br_upserted result \<noteq> 1 then raise MongoWriteConflict
     else ret ()))"

definition add_backlinks ::
    "('w, 'z) bl_env_scheme \<Rightarrow> pystr \<Rightarrow> pystr list \<Rightarrow> nat \<Rightarrow> nat \<Rightarrow> nat \<Rightarrow> ('w, unit) prog" where
  "add_backlinks env target_url source_urls max_members max_batch_url_bytes max_document_bytes =
     bind (lift (validate_batch env target_url source_urls max_members max_batch_url_bytes)) (\<lambda>unique_sources.
     bind (mongo_find_one (e_mongo env) BACKLINKS_COLLECTION (id_filter target_url)) (\<lambda>existing.
     bind (lift (existing_links existing)) (\<lambda>links.
     let new_sources = filter (\<lambda>s. s \<notin> set links) unique_sources;
         projected = projected_document target_url existing (links @ new_sources) in
     bind (lift (case bson_encode_size (e_mongo env) projected of
         Inl e \<Rightarrow> Inl (if e = InvalidDocument \<or> e = OverflowError
                       then BacklinkDocumentRejected ''mongo_document_invalid'' else e)
       | Inr n \<Rightarrow> Inr n)) (\<lambda>projected_size.
     if new_sources \<noteq> [] \<and> projected_size \<ge> max_document_bytes
     then raise (BacklinkDocumentRejected ''mongo_document_ceiling_exceeded'')
     else (case existing of
        None \<Rightarrow> write_insert env projected
      | Some d \<Rightarrow> write_update env target_url d unique_sources)))))"

definition links_projection :: doc where
  "links_projection = [(py ''_id'', BInt 1), (py ''links'', BInt 1)]"

definition iter_outlinks :: "('w, 'z) bl_env_scheme \<Rightarrow> ('w, cursor) prog" where
  "iter_outlinks env = mongo_find (e_mongo env) OUTLINKS_COLLECTION [] links_projection"

definition iter_backlinks :: "('w, 'z) bl_env_scheme \<Rightarrow> ('w, cursor) prog" where
  "iter_backlinks env = mongo_find (e_mongo env) BACKLINKS_COLLECTION [] links_projection"

definition edge_filter :: "pystr \<Rightarrow> pystr \<Rightarrow> doc" where
  "edge_filter document link = [(py ''_id'', BStr document), (py ''links'', BStr link)]"

definition has_backlink :: "('w, 'z) bl_env_scheme \<Rightarrow> pystr \<Rightarrow> pystr \<Rightarrow> ('w, bool) prog" where
  "has_backlink env target_url source_url =
     bind (mongo_count (e_mongo env) BACKLINKS_COLLECTION (edge_filter target_url source_url) 1) (\<lambda>n. ret (n = 1))"

definition has_outlink :: "('w, 'z) bl_env_scheme \<Rightarrow> pystr \<Rightarrow> pystr \<Rightarrow> ('w, bool) prog" where
  "has_outlink env source_url target_url =
     bind (mongo_count (e_mongo env) OUTLINKS_COLLECTION (edge_filter source_url target_url) 1) (\<lambda>n. ret (n = 1))"

section \<open>What the parsers rely on in the URL check\<close>

text \<open>
  The interface between the clients and the URL check: whatever passes is non-empty ASCII within
  the limit. Then a byte string that decodes to a passing URL is that URL, so nothing is lost
  between the raw Redis member and the URL written to MongoDB.
\<close>

locale url_checker =
  fixes check :: "pystr \<Rightarrow> exn + unit" and limit :: nat
  assumes check_ascii: "check v = Inr () \<Longrightarrow> is_ascii v"
    and check_nonempty: "check v = Inr () \<Longrightarrow> v \<noteq> []"
    and check_length: "check v = Inr () \<Longrightarrow> length v \<le> limit"
begin

lemma raw_is_url: "utf8_decode raw = Some v \<Longrightarrow> check v = Inr () \<Longrightarrow> raw = v"
  using utf8_decode_to_ascii check_ascii by blast

lemma encodes: "check v = Inr () \<Longrightarrow> utf8_encode v = Some v"
  using utf8_encode_ascii check_ascii by blast

lemma raw_bounds: "utf8_decode raw = Some v \<Longrightarrow> check v = Inr () \<Longrightarrow> 0 < length raw \<and> length raw \<le> limit"
  using raw_is_url check_nonempty check_length by blast

end

interpretation canonical: url_checker "validate_canonical_url u ix" MAX_CANONICAL_URL_BYTES for u ix
  by unfold_locales (auto dest: validate_canonical_urlD(1) validate_charactersD)

lemma parse_backlink_memberD:
  assumes "parse_backlink_member env raw = Inr m"
  shows "bm_raw m = raw" and "bm_url m = raw" and "check_url env raw = Inr ()"
    and "length raw \<le> MAX_CANONICAL_URL_BYTES" and "utf8_encode (bm_url m) = Some raw"
proof -
  obtain url where url: "utf8_decode raw = Some url" "check_url env url = Inr ()"
    and m: "m = \<lparr>bm_raw = raw, bm_url = url\<rparr>" and len: "length raw \<le> MAX_CANONICAL_URL_BYTES"
    using assms by (auto simp: parse_backlink_member_def sum_iffs split: option.splits sum.splits)
  have "raw = url" using canonical.raw_is_url url by blast
  then show "bm_raw m = raw" "bm_url m = raw" "check_url env raw = Inr ()"
    "length raw \<le> MAX_CANONICAL_URL_BYTES" "utf8_encode (bm_url m) = Some raw"
    using url m len canonical.encodes by auto
qed

lemma parse_backlink_memberI:
  "check_url env raw = Inr () \<Longrightarrow> parse_backlink_member env raw = Inr \<lparr>bm_raw = raw, bm_url = raw\<rparr>"
  using canonical.check_ascii canonical.check_nonempty canonical.check_length
  by (auto simp: parse_backlink_member_def utf8_decode_ascii)

lemma parse_backlink_keyD:
  assumes "parse_backlink_key env raw = Inr t"
  shows "raw = BACKLINK_KEY_PREFIX @ t" and "check_url env t = Inr ()"
proof -
  have "\<exists>p. raw = BACKLINK_KEY_PREFIX @ p \<and> utf8_decode p = Some t \<and> check_url env t = Inr ()"
    using assms by (auto simp: parse_backlink_key_def sum_iffs Let_def split: option.splits sum.splits
        dest!: starts_withE)
  then show "raw = BACKLINK_KEY_PREFIX @ t" "check_url env t = Inr ()"
    using canonical.raw_is_url by blast+
qed

lemma parse_backlink_keyI:
  "check_url env t = Inr () \<Longrightarrow> parse_backlink_key env (BACKLINK_KEY_PREFIX @ t) = Inr t"
  using canonical.check_ascii [of "e_ucd env" "e_idna env" t]
    canonical.check_nonempty [of "e_ucd env" "e_idna env" t]
    canonical.check_length [of "e_ucd env" "e_idna env" t]
  by (simp add: parse_backlink_key_def Let_def utf8_decode_ascii MAX_BACKLINK_KEY_BYTES_def)

text \<open>
  A Redis key parses to a target exactly when it is the prefix followed by a canonical URL;
  no two keys name the same target.
\<close>

theorem parse_backlink_key_iff:
  "parse_backlink_key env raw = Inr t \<longleftrightarrow> raw = BACKLINK_KEY_PREFIX @ t \<and> check_url env t = Inr ()"
  using parse_backlink_keyD parse_backlink_keyI by blast

lemma parse_backlink_member_errors:
  "parse_backlink_member env raw = Inl e \<Longrightarrow> \<exists>reason. e = InvalidBacklinkSet reason"
  by (auto simp: parse_backlink_member_def sum_iffs split: option.splits sum.splits)

lemma parse_backlink_key_errors:
  "parse_backlink_key env raw = Inl e \<Longrightarrow> \<exists>reason. e = InvalidBacklinkSet reason"
  by (auto simp: parse_backlink_key_def sum_iffs Let_def split: option.splits sum.splits)

section \<open>Scan bounds\<close>

lemma scan_backlink_keys_bound:
  "scan_backlink_keys env c n m w = (Inr (c', ks), w') \<Longrightarrow> length ks \<le> m"
  by (auto simp: scan_backlink_keys_def prog_iffs split: if_splits)

lemma scan_backlink_members_bound:
  "scan_backlink_members env k c n m w = (Inr (c', ms), w') \<Longrightarrow> length ms \<le> m"
  by (auto simp: scan_backlink_members_def prog_iffs split: if_splits)

section \<open>What the code relies on in MongoDB\<close>

text \<open>
  The documented behaviour of the operations used, over the view \<open>V w c i\<close> of the document
  with identity \<open>i\<close> in collection \<open>c\<close>: a read returns the stored document, an acknowledged
  insert stores it, an acknowledged update of a matched document adds the missing values of
  \<open>$each\<close>, a count with limit 1 tells whether the link is in the array, an exhausted cursor
  yielded every document.
\<close>

definition links_of :: "doc option \<Rightarrow> pystr list" where
  "links_of d = (case existing_links d of Inl _ \<Rightarrow> [] | Inr l \<Rightarrow> l)"

definition has_link :: "doc option \<Rightarrow> pystr \<Rightarrow> bool" where
  "has_link d l =
     (case d of None \<Rightarrow> False
      | Some d' \<Rightarrow> (case Option.bind (map_of d' (py ''links'')) bson_list of
                     None \<Rightarrow> False | Some xs \<Rightarrow> BStr l \<in> set xs))"

definition bulk_documented :: "'w bl_mongo \<Rightarrow> ('w \<Rightarrow> pystr \<Rightarrow> pystr \<Rightarrow> doc option) \<Rightarrow> bool" where
  "bulk_documented M V \<longleftrightarrow>
     (\<forall>c t d l srcs w r w'.
        mongo_bulk_write M c [\<lparr>uo_filter = root_selector t d, uo_update = add_to_set_update t srcs, uo_upsert = False\<rparr>] w
          = (Inr r, w') \<longrightarrow>
        br_acknowledged r \<longrightarrow> br_matched r + br_upserted r = 1 \<longrightarrow> existing_links (Some d) = Inr l \<longrightarrow>
        V w' = (V w)(c := (V w c)(t \<mapsto> AList.update (py ''links'') (BArr (map BStr (add_each l srcs))) d)))"

text \<open>\<open>projects p d\<close>: the projection of a stored document keeps its links.\<close>

definition projects :: "doc \<Rightarrow> pystr \<Rightarrow> doc \<Rightarrow> bool" where
  "projects p t d \<longleftrightarrow> map_of p (py ''_id'') = Some (BStr t) \<and> map_of p (py ''links'') = map_of d (py ''links'')"

definition find_documented :: "'w bl_mongo \<Rightarrow> ('w \<Rightarrow> pystr \<Rightarrow> pystr \<Rightarrow> doc option) \<Rightarrow> bool" where
  "find_documented M V \<longleftrightarrow>
     (\<forall>c w cur w'. mongo_find M c [] links_projection w = (Inr cur, w') \<longrightarrow>
        V w' = V w \<and>
        (\<forall>p \<in> set (cur_docs cur). \<forall>t. map_of p (py ''_id'') = Some (BStr t) \<longrightarrow>
           (\<exists>d. V w c t = Some d \<and> projects p t d)) \<and>
        (cur_end cur = None \<longrightarrow> (\<forall>t d. V w c t = Some d \<longrightarrow> (\<exists>p \<in> set (cur_docs cur). projects p t d))))"

definition mongo_documented :: "'w bl_mongo \<Rightarrow> ('w \<Rightarrow> pystr \<Rightarrow> pystr \<Rightarrow> doc option) \<Rightarrow> bool" where
  "mongo_documented M V \<longleftrightarrow>
     (\<forall>c t w r w'. mongo_find_one M c (id_filter t) w = (Inr r, w') \<longrightarrow> r = V w c t \<and> V w' = V w) \<and>
     (\<forall>c t d w w'. mongo_insert_one M c d w = (Inr True, w') \<longrightarrow> map_of d (py ''_id'') = Some (BStr t) \<longrightarrow>
        V w' = (V w)(c := (V w c)(t \<mapsto> d))) \<and>
     (\<forall>c t l w n w'. mongo_count M c (edge_filter t l) 1 w = (Inr n, w') \<longrightarrow>
        V w' = V w \<and> n = (if has_link (V w c t) l then 1 else 0)) \<and>
     bulk_documented M V \<and> find_documented M V"

lemma mongo_find_oneD:
  "mongo_documented M V \<Longrightarrow> mongo_find_one M c (id_filter t) w = (Inr r, w') \<Longrightarrow> r = V w c t \<and> V w' = V w"
  unfolding mongo_documented_def by blast

lemma mongo_insert_oneD:
  "mongo_documented M V \<Longrightarrow> mongo_insert_one M c d w = (Inr True, w') \<Longrightarrow>
     map_of d (py ''_id'') = Some (BStr t) \<Longrightarrow> V w' = (V w)(c := (V w c)(t \<mapsto> d))"
  unfolding mongo_documented_def by blast

lemma mongo_countD:
  "mongo_documented M V \<Longrightarrow> mongo_count M c (edge_filter t l) 1 w = (Inr n, w') \<Longrightarrow>
     V w' = V w \<and> n = (if has_link (V w c t) l then 1 else 0)"
  unfolding mongo_documented_def by blast

lemma mongo_bulk_writeD:
  "mongo_documented M V \<Longrightarrow>
     mongo_bulk_write M c [\<lparr>uo_filter = root_selector t d, uo_update = add_to_set_update t srcs, uo_upsert = False\<rparr>] w
       = (Inr r, w') \<Longrightarrow>
     br_acknowledged r \<Longrightarrow> br_matched r + br_upserted r = 1 \<Longrightarrow> existing_links (Some d) = Inr l \<Longrightarrow>
     V w' = (V w)(c := (V w c)(t \<mapsto> AList.update (py ''links'') (BArr (map BStr (add_each l srcs))) d))"
  unfolding mongo_documented_def bulk_documented_def by blast

lemma mongo_findD:
  assumes "mongo_documented M V" and "mongo_find M c [] links_projection w = (Inr cur, w')"
  shows "V w' = V w"
    and "p \<in> set (cur_docs cur) \<Longrightarrow> map_of p (py ''_id'') = Some (BStr t) \<Longrightarrow> \<exists>d. V w c t = Some d \<and> projects p t d"
    and "cur_end cur = None \<Longrightarrow> V w c t = Some d \<Longrightarrow> \<exists>p \<in> set (cur_docs cur). projects p t d"
  using assms unfolding mongo_documented_def find_documented_def by blast+

section \<open>add_backlinks\<close>

lemma validate_urlD: "validate_url env reason v = Inr () \<Longrightarrow> check_url env v = Inr ()"
  by (auto simp: validate_url_def sum_iffs split: option.splits sum.splits)

lemma validate_urlI: "check_url env v = Inr () \<Longrightarrow> validate_url env reason v = Inr ()"
  using canonical.encodes canonical.check_nonempty canonical.check_length
  by (fastforce simp: validate_url_def)

lemma validate_batchD:
  assumes "validate_batch env t srcs mm mb = Inr us"
  shows "us = sorted_set srcs" and "us \<noteq> []" and "length us \<le> mm"
    and "check_url env t = Inr ()" and "\<forall>s \<in> set srcs. check_url env s = Inr ()"
    and "sum_list (map utf8_length us) \<le> mb"
proof -
  have m: "us = sorted_set srcs" "us \<noteq> []" "length us \<le> mm" "validate_url env ''target_url_invalid'' t = Inr ()"
    "\<exists>ys. mapE (validate_url env ''member_url_invalid'') us = Inr ys" "sum_list (map utf8_length us) \<le> mb"
    using assms by (auto simp: validate_batch_def sum_iffs Let_def)
  then show "us = sorted_set srcs" "us \<noteq> []" "length us \<le> mm" "check_url env t = Inr ()"
    "sum_list (map utf8_length us) \<le> mb"
    using validate_urlD by auto
  from m(5) have "\<forall>s \<in> set us. \<exists>y. validate_url env ''member_url_invalid'' s = Inr y"
    by (auto simp: mapE_Inr_iff list_all2_conv_all_nth in_set_conv_nth)
  then show "\<forall>s \<in> set srcs. check_url env s = Inr ()"
    using m(1) validate_urlD by fastforce
qed

lemma add_backlinksD:
  assumes "add_backlinks env t srcs mm mb md w = (Inr u, w')"
  obtains us existing links n v where
    "validate_batch env t srcs mm mb = Inr us"
    and "mongo_find_one (e_mongo env) BACKLINKS_COLLECTION (id_filter t) w = (Inr existing, v)"
    and "existing_links existing = Inr links"
    and "bson_encode_size (e_mongo env)
           (projected_document t existing (links @ filter (\<lambda>s. s \<notin> set links) us)) = Inr n"
    and "filter (\<lambda>s. s \<notin> set links) us = [] \<or> n < md"
    and "(case existing of
        None \<Rightarrow> write_insert env (projected_document t existing (links @ filter (\<lambda>s. s \<notin> set links) us))
      | Some d \<Rightarrow> write_update env t d us) v = (Inr (), w')"
  using assms
  by (fastforce simp: add_backlinks_def bind_Inr_iff Let_def split: if_splits sum.splits)

text \<open>The document that is stored is the one whose size was checked.\<close>

lemma add_backlinks_stores_projection:
  assumes doc: "mongo_documented (e_mongo env) V"
    and ok: "add_backlinks env t srcs mm mb md w = (Inr u, w')"
  shows "\<exists>d n. V w' = (V w)(BACKLINKS_COLLECTION := (V w BACKLINKS_COLLECTION)(t \<mapsto> d)) \<and>
           existing_links (Some d) = Inr (links_of (V w BACKLINKS_COLLECTION t) @
              filter (\<lambda>s. s \<notin> set (links_of (V w BACKLINKS_COLLECTION t))) (sorted_set srcs)) \<and>
           bson_encode_size (e_mongo env) d = Inr n \<and>
           (n < md \<or> set srcs \<subseteq> set (links_of (V w BACKLINKS_COLLECTION t)))"
proof -
  obtain us existing links n v where
    vb: "validate_batch env t srcs mm mb = Inr us"
    and find: "mongo_find_one (e_mongo env) BACKLINKS_COLLECTION (id_filter t) w = (Inr existing, v)"
    and el: "existing_links existing = Inr links"
    and size: "bson_encode_size (e_mongo env)
           (projected_document t existing (links @ filter (\<lambda>s. s \<notin> set links) us)) = Inr n"
    and ceil: "filter (\<lambda>s. s \<notin> set links) us = [] \<or> n < md"
    and wr: "(case existing of
        None \<Rightarrow> write_insert env (projected_document t existing (links @ filter (\<lambda>s. s \<notin> set links) us))
      | Some d \<Rightarrow> write_update env t d us) v = (Inr (), w')"
    using add_backlinksD [OF ok] by metis
  let ?l = "links @ filter (\<lambda>s. s \<notin> set links) us"
  let ?d = "projected_document t existing ?l"
  have us: "us = sorted_set srcs" using validate_batchD(1) [OF vb] .
  have ex: "existing = V w BACKLINKS_COLLECTION t" and vv: "V v = V w"
    using mongo_find_oneD [OF doc find] by auto
  have lo: "links_of (V w BACKLINKS_COLLECTION t) = links" using el ex by (simp add: links_of_def)
  have id: "map_of ?d (py ''_id'') = Some (BStr t)" if "existing = None"
    using that by (simp add: projected_document_def)
  have view: "V w' = (V w)(BACKLINKS_COLLECTION := (V w BACKLINKS_COLLECTION)(t \<mapsto> ?d))"
  proof (cases existing)
    case None
    then have "mongo_insert_one (e_mongo env) BACKLINKS_COLLECTION ?d v = (Inr True, w')"
      using wr by (auto simp: write_insert_def prog_iffs split: if_splits)
    then show ?thesis using mongo_insert_oneD [OF doc _ id [OF None]] vv by simp
  next
    case (Some d)
    then obtain r where r: "mongo_bulk_write (e_mongo env) BACKLINKS_COLLECTION
        [\<lparr>uo_filter = root_selector t d, uo_update = add_to_set_update t us, uo_upsert = False\<rparr>] v = (Inr r, w')"
      "br_acknowledged r" "br_matched r + br_upserted r = 1"
      using wr by (auto simp: write_update_def prog_iffs Let_def split: if_splits)
    have "add_each links us = ?l" using us by (simp add: add_each_filter)
    with mongo_bulk_writeD [OF doc r] el Some vv show ?thesis
      by (simp add: projected_document_def)
  qed
  moreover have "existing_links (Some ?d) = Inr ?l"
    using text_list_BStr [of ?l]
    by (simp add: existing_links_def projected_document_def update_conv del: map_append)
  moreover have "n < md \<or> set srcs \<subseteq> set links"
    using ceil us by (auto simp: filter_empty_conv)
  ultimately show ?thesis using size lo us by auto
qed

text \<open>
  C5. When \<open>add_backlinks\<close> returns, every source URL of the batch is in the stored document of
  the target, no link that was there is lost, and no other document changed.
\<close>

theorem add_backlinks_durable:
  assumes "mongo_documented (e_mongo env) V"
    and "add_backlinks env t srcs max_members max_bytes max_document w = (Inr u, w')"
  shows "\<exists>d. V w' = (V w)(BACKLINKS_COLLECTION := (V w BACKLINKS_COLLECTION)(t \<mapsto> d)) \<and>
           set (links_of (Some d)) = set (links_of (V w BACKLINKS_COLLECTION t)) \<union> set srcs"
proof -
  obtain d where V': "V w' = (V w)(BACKLINKS_COLLECTION := (V w BACKLINKS_COLLECTION)(t \<mapsto> d))"
    and l: "existing_links (Some d) = Inr (links_of (V w BACKLINKS_COLLECTION t) @
              filter (\<lambda>s. s \<notin> set (links_of (V w BACKLINKS_COLLECTION t))) (sorted_set srcs))"
    using add_backlinks_stores_projection [OF assms] by blast
  have "links_of (Some d) = links_of (V w BACKLINKS_COLLECTION t) @
              filter (\<lambda>s. s \<notin> set (links_of (V w BACKLINKS_COLLECTION t))) (sorted_set srcs)"
    using l by (simp add: links_of_def [of "Some d"])
  then have "set (links_of (Some d)) = set (links_of (V w BACKLINKS_COLLECTION t)) \<union> set srcs"
    by auto
  with V' show ?thesis by blast
qed

text \<open>
  C6. The document ceiling holds for what is stored: when \<open>add_backlinks\<close> returns after adding a
  link, the encoded size of the stored document is below the limit.
\<close>

theorem add_backlinks_ceiling:
  assumes "mongo_documented (e_mongo env) V"
    and "add_backlinks env t srcs max_members max_bytes max_document w = (Inr u, w')"
    and "\<not> set srcs \<subseteq> set (links_of (V w BACKLINKS_COLLECTION t))"
  shows "\<exists>d n. V w' BACKLINKS_COLLECTION t = Some d \<and> bson_encode_size (e_mongo env) d = Inr n \<and> n < max_document"
  using add_backlinks_stores_projection [OF assms(1,2)] assms(3) by fastforce

section \<open>A reference instance of the store\<close>

text \<open>
  An in-memory MongoDB that behaves as documented: the documents of all collections as a
  dictionary. It shows that the hypotheses on the server can hold, and gives the theorems
  concrete instances.
\<close>

type_synonym mem_store = "((pystr \<times> pystr), doc) dict"

definition literal_of :: "doc \<Rightarrow> doc option" where
  "literal_of f =
     (case map_of f (py ''$expr'') of
        Some (BDoc [(_, BArr [_, BDoc [(_, BDoc d)]])]) \<Rightarrow> Some d
      | _ \<Rightarrow> None)"

definition each_of :: "doc \<Rightarrow> pystr list option" where
  "each_of f =
     (case map_of f (py ''$addToSet'') of
        Some (BDoc [(_, BDoc [(_, BArr xs)])]) \<Rightarrow> text_list xs
      | _ \<Rightarrow> None)"

definition id_of :: "doc \<Rightarrow> pystr option" where
  "id_of f = Option.bind (map_of f (py ''_id'')) bson_str"

definition mem_update_one :: "pystr \<Rightarrow> update_one \<Rightarrow> mem_store \<Rightarrow> (exn + bulk_result) \<times> mem_store" where
  "mem_update_one c op w =
     (case (id_of (uo_filter op), literal_of (uo_filter op), each_of (uo_update op)) of
        (Some t, Some d, Some vs) \<Rightarrow>
          (if map_of w (c, t) = Some d
           then (Inr \<lparr>br_acknowledged = True, br_matched = 1, br_upserted = 0\<rparr>,
                 AList.update (c, t) (AList.update (py ''links'')
                   (BArr (map BStr (add_each (links_of (Some d)) vs))) d) w)
           else (Inr \<lparr>br_acknowledged = True, br_matched = 0, br_upserted = 0\<rparr>, w))
      | _ \<Rightarrow> (Inl OtherPyMongoError, w))"

definition mem_mongo :: "mem_store bl_mongo" where
  "mem_mongo =
     \<lparr>mongo_find_one = (\<lambda>c f w. (Inr (Option.bind (id_of f) (\<lambda>t. map_of w (c, t))), w)),
      mongo_insert_one = (\<lambda>c d w.
        (case id_of d of
           None \<Rightarrow> (Inl OtherPyMongoError, w)
         | Some t \<Rightarrow> if map_of w (c, t) = None then (Inr True, AList.update (c, t) d w)
                     else (Inl DuplicateKeyError, w))),
      mongo_bulk_write = (\<lambda>c ops w. case ops of [op] \<Rightarrow> mem_update_one c op w | _ \<Rightarrow> (Inl OtherPyMongoError, w)),
      mongo_find = (\<lambda>c f p w.
        (Inr \<lparr>cur_docs = map (\<lambda>((c', t), d). (py ''_id'', BStr t) #
             (case map_of d (py ''links'') of None \<Rightarrow> [] | Some l \<Rightarrow> [(py ''links'', l)]))
           (filter (\<lambda>((c', t), d). c' = c) (AList.clearjunk w)), cur_end = None\<rparr>, w)),
      mongo_count = (\<lambda>c f n w.
        (Inr (case (id_of f, Option.bind (map_of f (py ''links'')) bson_str) of
                (Some t, Some l) \<Rightarrow> if has_link (map_of w (c, t)) l then 1 else 0
              | _ \<Rightarrow> 0), w)),
      bson_encode_size = (\<lambda>d. Inr (64 * length d))\<rparr>"

definition mem_view :: "mem_store \<Rightarrow> pystr \<Rightarrow> pystr \<Rightarrow> doc option" where
  "mem_view w c t = map_of w (c, t)"

lemma mem_view_update: "mem_view (AList.update (c, t) d w) = (mem_view w)(c := (mem_view w c)(t \<mapsto> d))"
  by (auto simp: mem_view_def update_conv fun_eq_iff)

lemma mem_filters [simp]:
  "id_of (id_filter t) = Some t" "id_of (root_selector t d) = Some t"
  "literal_of (root_selector t d) = Some d" "each_of (add_to_set_update t vs) = Some vs"
  "id_of (edge_filter t l) = Some t" "map_of (edge_filter t l) (py ''links'') = Some (BStr l)"
  by (simp_all add: id_of_def id_filter_def root_selector_def literal_of_def add_to_set_update_def
      each_of_def edge_filter_def)

lemma id_of_map: "map_of d (py ''_id'') = Some (BStr t) \<Longrightarrow> id_of d = Some t"
  by (simp add: id_of_def)

lemma links_of_existing: "existing_links (Some d) = Inr l \<Longrightarrow> links_of (Some d) = l"
  by (simp add: links_of_def)

lemma mem_find_documented: "find_documented mem_mongo mem_view"
  unfolding find_documented_def
proof (intro allI impI)
  fix c w cur w' assume run: "mongo_find mem_mongo c [] links_projection w = (Inr cur, w')"
  have stored: "((c, t), d) \<in> set (AList.clearjunk w) \<longleftrightarrow> mem_view w c t = Some d" for t d
    by (metis (no_types, lifting) distinct_clearjunk map_of_clearjunk map_of_eq_Some_iff mem_view_def)
  have "\<exists>d. mem_view w c t = Some d \<and> projects p t d"
    if "p \<in> set (cur_docs cur)" "map_of p (py ''_id'') = Some (BStr t)" for p t
    using that run stored by (auto simp: mem_mongo_def projects_def split: option.splits)
  moreover have "\<exists>p \<in> set (cur_docs cur). projects p t d" if "mem_view w c t = Some d" for t d
    using that [folded stored] run by (force simp: mem_mongo_def projects_def split: option.splits)
  moreover have "mem_view w' = mem_view w" using run by (simp add: mem_mongo_def)
  ultimately show "mem_view w' = mem_view w \<and>
        (\<forall>p \<in> set (cur_docs cur). \<forall>t. map_of p (py ''_id'') = Some (BStr t) \<longrightarrow>
           (\<exists>d. mem_view w c t = Some d \<and> projects p t d)) \<and>
        (cur_end cur = None \<longrightarrow> (\<forall>t d. mem_view w c t = Some d \<longrightarrow> (\<exists>p \<in> set (cur_docs cur). projects p t d)))"
    by blast
qed

lemma mem_mongo_documented: "mongo_documented mem_mongo mem_view"
  unfolding mongo_documented_def bulk_documented_def
  by (intro conjI allI impI mem_find_documented)
    (auto simp: mem_mongo_def mem_update_one_def mem_view_update mem_view_def [symmetric]
      links_of_existing id_of_map split: if_splits option.splits)

text \<open>An environment for the examples: no Unicode tables, no A-labels, the in-memory store.\<close>

definition ascii_ucd :: ucd where
  "ascii_ucd = \<lparr>uc_lower = (\<lambda>c. [c]), uc_nfkc = (\<lambda>s. s)\<rparr>"

definition no_idna :: idna where
  "no_idna = \<lparr>idna_decode = (\<lambda>_. None), idna_encode = (\<lambda>_. None)\<rparr>"

definition mem_env :: "mem_store bl_env" where
  "mem_env =
     \<lparr>e_ucd = ascii_ucd, e_idna = no_idna,
      e_redis = \<lparr>redis_scan = (\<lambda>_ _ _ w. (Inr (0, []), w)), redis_type = (\<lambda>_ w. (Inr (py ''none''), w)),
                 redis_sscan = (\<lambda>_ _ _ w. (Inr (0, []), w)), redis_srem = (\<lambda>_ ms w. (Inr (length ms), w))\<rparr>,
      e_mongo = mem_mongo, e_stop = (\<lambda>w. (False, w))\<rparr>"

lemmas backlinks_stores_eval [eval_simps] =
  validate_redis_auth_def parse_backlink_key_def parse_backlink_member_def scan_backlink_keys_def
  scan_backlink_members_def srem_backlink_members_def validate_url_def utf8_length_def
  validate_batch_def id_filter_def root_selector_def add_to_set_update_def existing_links_def
  projected_document_def write_insert_def write_update_def add_backlinks_def edge_filter_def
  BACKLINKS_COLLECTION_def OUTLINKS_COLLECTION_def has_link_def links_of_def literal_of_def
  each_of_def id_of_def mem_update_one_def mem_mongo_def ascii_ucd_def no_idna_def mem_env_def
  bind_eq catch_def

lemma run_add_backlinks:
  "add_backlinks mem_env (py ''http://a.b/'') [py ''http://d.e/'', py ''http://c.d/''] 256 4096 256 [] =
     (Inr (), [((BACKLINKS_COLLECTION, py ''http://a.b/''),
        [(py ''_id'', BStr (py ''http://a.b/'')),
         (py ''links'', BArr [BStr (py ''http://c.d/''), BStr (py ''http://d.e/'')])])])"
  by (simp add: eval_simps)

lemma mem_env_documented: "mongo_documented (e_mongo mem_env) mem_view"
  using mem_mongo_documented by (simp add: mem_env_def)

theorem add_backlinks_durable_witness:
  "\<exists>d. set (links_of (Some d)) = {py ''http://d.e/'', py ''http://c.d/''}"
  using add_backlinks_durable [OF mem_env_documented run_add_backlinks]
  by (auto simp: mem_view_def links_of_def existing_links_def)

theorem add_backlinks_ceiling_witness:
  "\<exists>d n. mem_view [((BACKLINKS_COLLECTION, py ''http://a.b/''),
        [(py ''_id'', BStr (py ''http://a.b/'')),
         (py ''links'', BArr [BStr (py ''http://c.d/''), BStr (py ''http://d.e/'')])])]
       BACKLINKS_COLLECTION (py ''http://a.b/'') = Some d \<and>
     bson_encode_size (e_mongo mem_env) d = Inr n \<and> n < 256"
  by (rule add_backlinks_ceiling [OF mem_env_documented run_add_backlinks])
    (simp add: mem_view_def links_of_def existing_links_def)

end
