(* ===== verification/Backlinks_Cycle.thy ===== *)
theory Backlinks_Cycle
  imports Backlinks_Stores
begin

text \<open>
  The backlinks processor: \<^verbatim>\<open>services/backlinks-processor/main.py\<close>.

  \<open>processor_state\<close> is what survives between cycles (the key cursor, the queue of target keys,
  the buffered members per target and the target waiting for buffer space). A cycle refills the
  queue, visits at most \<open>max_targets_per_cycle\<close> targets, and for each admits a batch, writes it to
  MongoDB and only then removes it from Redis. \<open>'w cyc\<close> adds the counters of the running cycle and
  the outside world. The loops are recursive in a count the code fixes in advance, except
  \<open>run_processor\<close>, which takes fuel.
\<close>

section \<open>State\<close>

datatype batch_status = Acked | Rejected | RetryLater

record batch_result =
  res_status :: batch_status
  res_requested :: nat
  res_removed :: nat
  res_reason :: "string option"

record target_scan_state =
  ts_cursor :: nat
  ts_scan_complete :: bool
  ts_pending :: "bytes list"

record processor_state =
  ps_key_cursor :: nat
  ps_pending_keys :: "bytes list"
  ps_queued_keys :: "bytes set"
  ps_targets :: "(bytes, target_scan_state) dict"
  ps_waiter :: "bytes option"

definition new_target :: target_scan_state where
  "new_target = \<lparr>ts_cursor = 0, ts_scan_complete = False, ts_pending = []\<rparr>"

definition new_processor :: processor_state where
  "new_processor = \<lparr>ps_key_cursor = 0, ps_pending_keys = [], ps_queued_keys = {}, ps_targets = [], ps_waiter = None\<rparr>"

text \<open>The local variables of \<open>process_cycle\<close>.\<close>

record cycle_acc =
  ca_targets_visited :: nat
  ca_batches_acked :: nat
  ca_members_acked :: nat
  ca_members_removed :: nat
  ca_rejections :: "(string, nat) dict"
  ca_retries :: "(string, nat) dict"
  ca_pending_bytes :: int

record 'w cyc =
  cy_st :: processor_state
  cy_acc :: cycle_acc
  cy_ext :: 'w

definition on_ext :: "('w, 'a) prog \<Rightarrow> ('w cyc, 'a) prog" where
  "on_ext m c = (case m (cy_ext c) of (r, w') \<Rightarrow> (r, c\<lparr>cy_ext := w'\<rparr>))"

definition on_st :: "(processor_state \<Rightarrow> processor_state) \<Rightarrow> ('w cyc, unit) prog" where
  "on_st f = mod_state (\<lambda>c. c\<lparr>cy_st := f (cy_st c)\<rparr>)"

definition on_acc :: "(cycle_acc \<Rightarrow> cycle_acc) \<Rightarrow> ('w cyc, unit) prog" where
  "on_acc f = mod_state (\<lambda>c. c\<lparr>cy_acc := f (cy_acc c)\<rparr>)"

definition stop_is_set :: "('w, 'z) bl_env_scheme \<Rightarrow> ('w, bool) prog" where
  "stop_is_set env w = (case e_stop env w of (b, w') \<Rightarrow> (Inr b, w'))"

definition count_rejection :: "string \<Rightarrow> ('w cyc, unit) prog" where
  "count_rejection reason = on_acc (ca_rejections_update (\<lambda>c. counter_add c reason 1))"

definition count_retry :: "string \<Rightarrow> ('w cyc, unit) prog" where
  "count_retry reason = on_acc (ca_retries_update (\<lambda>c. counter_add c reason 1))"

lemma wp_on_ext [simp, wp_simps]:
  "wp (on_ext m) Q E c = wp m (\<lambda>x w. Q x (c\<lparr>cy_ext := w\<rparr>)) (\<lambda>e w. E e (c\<lparr>cy_ext := w\<rparr>)) (cy_ext c)"
  by (simp add: wp_def on_ext_def split: prod.splits sum.splits)

lemma wp_on_st [simp, wp_simps]: "wp (on_st f) Q E c = Q () (c\<lparr>cy_st := f (cy_st c)\<rparr>)"
  by (simp add: on_st_def)

lemma wp_on_acc [simp, wp_simps]: "wp (on_acc f) Q E c = Q () (c\<lparr>cy_acc := f (cy_acc c)\<rparr>)"
  by (simp add: on_acc_def)

lemma wp_stop_is_set [simp, wp_simps]:
  "wp (stop_is_set env) Q E w = (case e_stop env w of (b, w') \<Rightarrow> Q b w')"
  by (simp add: wp_def stop_is_set_def split: prod.splits)

section \<open>process_batch\<close>

text \<open>The exception clauses around \<open>add_backlinks\<close>, in order; \<open>None\<close> propagates.\<close>

definition batch_failure :: "nat \<Rightarrow> exn \<Rightarrow> batch_result option" where
  "batch_failure n e =
     (case e of
        BacklinkDocumentRejected reason \<Rightarrow> Some \<lparr>res_status = Rejected, res_requested = n, res_removed = 0, res_reason = Some reason\<rparr>
      | MongoWriteConflict \<Rightarrow>
          Some \<lparr>res_status = RetryLater, res_requested = n, res_removed = 0, res_reason = Some ''mongo_write_conflict''\<rparr>
      | MongoWriteNotAcknowledged \<Rightarrow>
          Some \<lparr>res_status = RetryLater, res_requested = n, res_removed = 0, res_reason = Some ''mongo_write_not_acknowledged''\<rparr>
      | ConnectionFailure \<Rightarrow>
          Some \<lparr>res_status = RetryLater, res_requested = n, res_removed = 0, res_reason = Some ''mongo_unavailable''\<rparr>
      | WTimeoutError \<Rightarrow>
          Some \<lparr>res_status = RetryLater, res_requested = n, res_removed = 0, res_reason = Some ''mongo_unavailable''\<rparr>
      | _ \<Rightarrow>
          if is_pymongo_error e
          then Some \<lparr>res_status = Rejected, res_requested = n, res_removed = 0, res_reason = Some ''mongo_write_rejected''\<rparr>
          else None)"

definition process_batch ::
    "('w, 'z) bl_env_scheme \<Rightarrow> backlink_batch \<Rightarrow> nat \<Rightarrow> nat \<Rightarrow> nat \<Rightarrow> ('w, batch_result) prog" where
  "process_batch env batch max_members max_batch_url_bytes max_document_bytes =
     (let n = length (bb_members batch) in
      bind (attempt (add_backlinks env (bb_target_url batch) (map bm_url (bb_members batch))
                       max_members max_batch_url_bytes max_document_bytes)) (\<lambda>outcome.
      case outcome of
        Inl e \<Rightarrow> (case batch_failure n e of Some r \<Rightarrow> ret r | None \<Rightarrow> raise e)
      | Inr _ \<Rightarrow>
          bind (attempt (srem_backlink_members env (bb_redis_key batch) (map bm_raw (bb_members batch)))) (\<lambda>ack.
          case ack of
            Inl e \<Rightarrow>
              if is_redis_error e
              then ret \<lparr>res_status = RetryLater, res_requested = n, res_removed = 0,
                        res_reason = Some ''redis_ack_unavailable''\<rparr>
              else raise e
          | Inr removed \<Rightarrow> ret \<lparr>res_status = Acked, res_requested = n, res_removed = removed, res_reason = None\<rparr>)))"

section \<open>The queue of targets and their buffers\<close>

definition queue_key :: "bytes \<Rightarrow> processor_state \<Rightarrow> processor_state" where
  "queue_key key st =
     (if key \<in> ps_queued_keys st then st
      else st\<lparr>ps_pending_keys := ps_pending_keys st @ [key], ps_queued_keys := insert key (ps_queued_keys st)\<rparr>)"

definition restore_members :: "backlink_member list \<Rightarrow> target_scan_state \<Rightarrow> target_scan_state" where
  "restore_members members ts =
     foldr (\<lambda>member ts. ts\<lparr>ts_pending := bm_raw member # ts_pending ts\<rparr>) members ts"

definition set_target :: "bytes \<Rightarrow> target_scan_state \<Rightarrow> processor_state \<Rightarrow> processor_state" where
  "set_target key ts st = st\<lparr>ps_targets := AList.update key ts (ps_targets st)\<rparr>"

definition pop_target :: "bytes \<Rightarrow> processor_state \<Rightarrow> processor_state" where
  "pop_target key st = st\<lparr>ps_targets := AList.delete key (ps_targets st)\<rparr>"

definition target_of :: "bytes \<Rightarrow> processor_state \<Rightarrow> target_scan_state" where
  "target_of key st = (case map_of (ps_targets st) key of None \<Rightarrow> new_target | Some ts \<Rightarrow> ts)"

definition ts_bytes :: "target_scan_state \<Rightarrow> nat" where
  "ts_bytes ts = sum_list (map length (ts_pending ts))"

definition total_bytes :: "processor_state \<Rightarrow> nat" where
  "total_bytes st = dict_sum ts_bytes (ps_targets st)"

primrec fill_pending_keys ::
    "('w, 'z) bl_env_scheme \<Rightarrow> processing_limits \<Rightarrow> nat \<Rightarrow> ('w cyc, unit) prog" where
  "fill_pending_keys env l 0 = ret ()"
| "fill_pending_keys env l (Suc calls) =
     bind (get_state cy_st) (\<lambda>st.
     if max_pending_target_keys l < length (ps_pending_keys st) + max_scan_response_items l then ret ()
     else bind (on_ext (stop_is_set env)) (\<lambda>stop.
     if stop then ret ()
     else bind (on_ext (scan_backlink_keys env (ps_key_cursor st) (scan_count_hint l) (max_scan_response_items l)))
       (\<lambda>(next_cursor, keys).
     bind (on_st (\<lambda>st. fold queue_key keys (st\<lparr>ps_key_cursor := next_cursor\<rparr>))) (\<lambda>_.
     bind (get_state cy_st) (\<lambda>st.
     if next_cursor = 0 \<or> max_targets_per_cycle l \<le> length (ps_pending_keys st) then ret ()
     else fill_pending_keys env l calls)))))"

section \<open>Admission\<close>

text \<open>
  The loop of \<open>_admit_members\<close> on the buffered raw members: what is admitted, the rejection
  counter, and what stays buffered.
\<close>

fun admit_members ::
    "('w, 'z) bl_env_scheme \<Rightarrow> processing_limits \<Rightarrow> nat \<Rightarrow> backlink_member list \<Rightarrow> nat \<Rightarrow> (string, nat) dict \<Rightarrow>
     bytes list \<Rightarrow> backlink_member list \<times> (string, nat) dict \<times> bytes list" where
  "admit_members env l examined admitted encoded_bytes rejections [] = (admitted, rejections, [])"
| "admit_members env l examined admitted encoded_bytes rejections (raw # pending) =
     (if max_members_per_target_per_cycle l \<le> examined then (admitted, rejections, raw # pending)
      else case parse_backlink_member env raw of
        Inl (InvalidBacklinkSet reason) \<Rightarrow>
          admit_members env l (Suc examined) admitted encoded_bytes (counter_add rejections reason 1) pending
      | Inl _ \<Rightarrow> (admitted, rejections, raw # pending)
      | Inr member \<Rightarrow>
          let next_bytes = encoded_bytes + length (bm_raw member) in
          if max_members_per_ack_batch l \<le> length admitted \<or> max_ack_batch_url_bytes l < next_bytes
          then if admitted = [] \<and> max_ack_batch_url_bytes l < next_bytes
               then admit_members env l (Suc examined) admitted encoded_bytes
                      (counter_add rejections ''member_batch_byte_limit_exceeded'' 1) pending
               else (admitted, rejections, raw # pending)
          else admit_members env l (Suc examined) (admitted @ [member]) next_bytes rejections pending)"

section \<open>One target\<close>

definition scan_byte_limit :: "processing_limits \<Rightarrow> nat" where
  "scan_byte_limit l = max_scan_response_items l * MAX_CANONICAL_URL_BYTES"

text \<open>The guarded call of the scan and its \<open>except\<close> clauses.\<close>

definition fetch_page ::
    "('w, 'z) bl_env_scheme \<Rightarrow> processing_limits \<Rightarrow> bytes \<Rightarrow> nat \<Rightarrow> ('w cyc, nat \<times> bytes list) prog" where
  "fetch_page env l key cursor =
     bind (on_ext (scan_backlink_members env key cursor (sscan_count_hint l) (max_scan_response_items l)))
       (\<lambda>(next_cursor, members).
     if scan_byte_limit l < sum_list (map length members)
     then raise (RedisScanLimitExceeded ''member_scan_response_byte_limit_exceeded'')
     else ret (next_cursor, members))"

definition page_failure :: "bytes \<Rightarrow> exn \<Rightarrow> ('w cyc, bool) prog" where
  "page_failure key e =
     (case e of
        InvalidBacklinkSet reason \<Rightarrow>
          bind (count_rejection reason) (\<lambda>_. bind (on_st (pop_target key)) (\<lambda>_. ret False))
      | _ \<Rightarrow> if is_redis_error e then bind (on_st (queue_key key)) (\<lambda>_. raise e) else raise e)"

text \<open>
  The scan for a target without buffered members; \<open>False\<close> means the loop goes on with the next
  target. The page is held only when a full page still fits in the buffer.
\<close>

definition scan_target ::
    "('w, 'z) bl_env_scheme \<Rightarrow> processing_limits \<Rightarrow> bytes \<Rightarrow> ('w cyc, bool) prog" where
  "scan_target env l key =
     bind (get_state (\<lambda>c. c)) (\<lambda>c.
     let st = cy_st c; ts = target_of key st in
     if ts_pending ts \<noteq> [] \<or> ts_scan_complete ts then ret True
     else if ps_waiter st \<noteq> None \<and> ps_waiter st \<noteq> Some key \<or>
             ca_pending_bytes (cy_acc c) + int (scan_byte_limit l) > int (max_pending_member_bytes l)
     then bind (on_st (\<lambda>st. queue_key key (if ps_waiter st = None then st\<lparr>ps_waiter := Some key\<rparr> else st))) (\<lambda>_.
          bind (count_retry ''pending_member_byte_limit'') (\<lambda>_. ret False))
     else bind (on_st (ps_waiter_update (\<lambda>_. None))) (\<lambda>_.
          bind (attempt (fetch_page env l key (ts_cursor ts))) (\<lambda>outcome.
          case outcome of
            Inl e \<Rightarrow> page_failure key e
          | Inr (cursor, members) \<Rightarrow>
              bind (on_st (set_target key (ts\<lparr>ts_cursor := cursor, ts_scan_complete := (cursor = 0),
                                              ts_pending := ts_pending ts @ members\<rparr>))) (\<lambda>_. ret True))))"

definition status_name :: "batch_status \<Rightarrow> string" where
  "status_name s = (case s of Acked \<Rightarrow> ''acked'' | Rejected \<Rightarrow> ''rejected'' | RetryLater \<Rightarrow> ''retry_later'')"

definition reason_of :: "batch_result \<Rightarrow> string" where
  "reason_of r = (case res_reason r of
     None \<Rightarrow> status_name (res_status r)
   | Some reason \<Rightarrow> if reason = [] then status_name (res_status r) else reason)"

text \<open>The branch of the cycle after a batch was processed.\<close>

definition settle_batch ::
    "bytes \<Rightarrow> backlink_member list \<Rightarrow> batch_result \<Rightarrow> ('w cyc, unit) prog" where
  "settle_batch key members result =
     (case res_status result of
        Acked \<Rightarrow>
          on_acc (\<lambda>a. a\<lparr>ca_batches_acked := ca_batches_acked a + 1,
                        ca_members_acked := ca_members_acked a + res_requested result,
                        ca_members_removed := ca_members_removed a + res_removed result\<rparr>)
      | RetryLater \<Rightarrow>
          bind (on_st (\<lambda>st. set_target key (restore_members members (target_of key st)) st)) (\<lambda>_.
          count_retry (reason_of result))
      | Rejected \<Rightarrow> count_rejection (reason_of result))"

definition drain_target ::
    "('w, 'z) bl_env_scheme \<Rightarrow> processing_limits \<Rightarrow> bytes \<Rightarrow> pystr \<Rightarrow> ('w cyc, unit) prog" where
  "drain_target env l key target_url =
     bind (get_state (\<lambda>c. target_of key (cy_st c))) (\<lambda>ts.
     case admit_members env l 0 [] 0 [] (ts_pending ts) of (members, rejections, rest) \<Rightarrow>
     bind (on_st (set_target key (ts\<lparr>ts_pending := rest\<rparr>))) (\<lambda>_.
     bind (on_acc (ca_rejections_update (\<lambda>c. counter_update c rejections))) (\<lambda>_.
     if members = [] then ret ()
     else bind (on_ext (stop_is_set env)) (\<lambda>stop.
       if stop then on_st (\<lambda>st. set_target key (restore_members members (target_of key st)) st)
       else bind (on_ext (process_batch env
                \<lparr>bb_redis_key = key, bb_target_url = target_url, bb_members = members,
                 bb_encoded_url_bytes = sum_list (map (length \<circ> bm_raw) members)\<rparr>
                (max_members_per_ack_batch l) (max_ack_batch_url_bytes l) (max_mongo_document_bytes l)))
              (settle_batch key members)))))"

definition settle_target :: "bytes \<Rightarrow> nat \<Rightarrow> ('w cyc, unit) prog" where
  "settle_target key previous_bytes =
     bind (get_state (\<lambda>c. target_of key (cy_st c))) (\<lambda>ts.
     bind (on_acc (ca_pending_bytes_update (\<lambda>b. b + (int (ts_bytes ts) - int previous_bytes)))) (\<lambda>_.
     on_st (if ts_pending ts \<noteq> [] \<or> \<not> ts_scan_complete ts then queue_key key else pop_target key)))"

definition next_key :: "('w cyc, bytes) prog" where
  "next_key =
     bind (get_state (\<lambda>c. ps_pending_keys (cy_st c))) (\<lambda>keys.
     case keys of
       [] \<Rightarrow> raise IndexError
     | key # rest \<Rightarrow>
         bind (on_st (\<lambda>st. st\<lparr>ps_pending_keys := rest, ps_queued_keys := ps_queued_keys st - {key}\<rparr>)) (\<lambda>_. ret key))"

definition visit_target :: "('w, 'z) bl_env_scheme \<Rightarrow> processing_limits \<Rightarrow> ('w cyc, unit) prog" where
  "visit_target env l =
     bind next_key (\<lambda>key.
     bind (on_acc (ca_targets_visited_update Suc)) (\<lambda>_.
     case parse_backlink_key env key of
       Inl (InvalidBacklinkSet reason) \<Rightarrow> count_rejection reason
     | Inl e \<Rightarrow> raise e
     | Inr target_url \<Rightarrow>
         bind (on_st (\<lambda>st. set_target key (target_of key st) st)) (\<lambda>_.
         bind (get_state (\<lambda>c. ts_bytes (target_of key (cy_st c)))) (\<lambda>previous_bytes.
         bind (scan_target env l key) (\<lambda>proceed.
         if \<not> proceed then ret ()
         else bind (drain_target env l key target_url) (\<lambda>_. settle_target key previous_bytes))))))"

primrec visit_targets :: "('w, 'z) bl_env_scheme \<Rightarrow> processing_limits \<Rightarrow> nat \<Rightarrow> ('w cyc, unit) prog" where
  "visit_targets env l 0 = ret ()"
| "visit_targets env l (Suc n) =
     bind (on_ext (stop_is_set env)) (\<lambda>stop.
     if stop then ret () else bind (visit_target env l) (\<lambda>_. visit_targets env l n))"

section \<open>The cycle and the loop of the service\<close>

definition start_acc :: "processor_state \<Rightarrow> cycle_acc" where
  "start_acc st =
     \<lparr>ca_targets_visited = 0, ca_batches_acked = 0, ca_members_acked = 0, ca_members_removed = 0,
      ca_rejections = [], ca_retries = [], ca_pending_bytes = int (total_bytes st)\<rparr>"

definition fill_failure :: "exn \<Rightarrow> ('w cyc, unit) prog" where
  "fill_failure e =
     (case e of
        RedisScanLimitExceeded _ \<Rightarrow> count_retry ''redis_key_scan_response_limit_exceeded''
      | _ \<Rightarrow> if is_redis_error e then count_retry ''redis_key_scan_unavailable'' else raise e)"

definition fill_or_count :: "('w, 'z) bl_env_scheme \<Rightarrow> processing_limits \<Rightarrow> ('w cyc, unit) prog" where
  "fill_or_count env l = catch (fill_pending_keys env l (max_scan_calls_per_cycle l)) fill_failure"

text \<open>\<open>process_cycle\<close> from a state and a world: the counters and whether it was interrupted.\<close>

definition cycle_body ::
    "('w, 'z) bl_env_scheme \<Rightarrow> processing_limits \<Rightarrow> ('w cyc, cycle_acc \<times> bool) prog" where
  "cycle_body env l =
     bind (fill_or_count env l) (\<lambda>_.
     bind (get_state (\<lambda>c. min (length (ps_pending_keys (cy_st c))) (max_targets_per_cycle l))) (\<lambda>targets_this_cycle.
     bind (visit_targets env l targets_this_cycle) (\<lambda>_.
     bind (on_ext (stop_is_set env)) (\<lambda>stop.
     bind (get_state cy_acc) (\<lambda>acc. ret (acc, stop))))))"

definition process_cycle ::
    "('w, 'z) bl_env_scheme \<Rightarrow> processing_limits \<Rightarrow> processor_state \<Rightarrow> 'w \<Rightarrow>
       (exn + cycle_acc \<times> bool) \<times> processor_state \<times> 'w" where
  "process_cycle env l st w =
     (case cycle_body env l \<lparr>cy_st = st, cy_acc = start_acc st, cy_ext = w\<rparr> of
        (r, c) \<Rightarrow> (r, cy_st c, cy_ext c))"

definition RETRY_BACKOFF_SECONDS :: nat where "RETRY_BACKOFF_SECONDS = 2"
definition POLL_INTERVAL_SECONDS :: nat where "POLL_INTERVAL_SECONDS = 10"

text \<open>
  One turn of the \<open>while\<close> loop after \<open>stop_event\<close> was found clear: \<open>Inr True\<close> goes on, \<open>Inr False\<close>
  breaks out of the loop. \<open>wait\<close> is the caller's or the event's wait.
\<close>

definition run_iteration ::
    "('w, 'z) bl_env_scheme \<Rightarrow> (nat \<Rightarrow> 'w \<Rightarrow> 'w) \<Rightarrow> processing_limits \<Rightarrow> processor_state \<Rightarrow> 'w \<Rightarrow>
       (exn + bool) \<times> processor_state \<times> 'w" where
  "run_iteration env wait l st w =
     (case process_cycle env l st w of
        (Inl e, st', w') \<Rightarrow>
          if is_pymongo_error e \<or> is_redis_error e then (Inr True, st', wait RETRY_BACKOFF_SECONDS w')
          else (Inl e, st', w')
      | (Inr (acc, _), st', w') \<Rightarrow>
          (case e_stop env w' of (stop, w'') \<Rightarrow>
             if stop then (Inr False, st', w'')
             else if ca_retries acc \<noteq> [] then (Inr True, st', wait RETRY_BACKOFF_SECONDS w'')
             else if ps_pending_keys st' = [] then (Inr True, st', wait POLL_INTERVAL_SECONDS w'')
             else (Inr True, st', w'')))"

primrec run_loop ::
    "('w, 'z) bl_env_scheme \<Rightarrow> (nat \<Rightarrow> 'w \<Rightarrow> 'w) \<Rightarrow> processing_limits \<Rightarrow> nat \<Rightarrow> processor_state \<Rightarrow> 'w \<Rightarrow>
       (exn + nat) option \<times> processor_state \<times> 'w" where
  "run_loop env wait l 0 st w = (None, st, w)"
| "run_loop env wait l (Suc fuel) st w =
     (case e_stop env w of (stop, w') \<Rightarrow>
        if stop then (Some (Inr 0), st, w')
        else (case run_iteration env wait l st w' of
                (Inl e, st', w'') \<Rightarrow> (Some (Inl e), st', w'')
              | (Inr continue, st', w'') \<Rightarrow>
                  if continue then run_loop env wait l fuel st' w'' else (Some (Inr 0), st', w'')))"

definition run_processor ::
    "('w, 'z) bl_env_scheme \<Rightarrow> (nat \<Rightarrow> 'w \<Rightarrow> 'w) \<Rightarrow> processing_limits \<Rightarrow> nat \<Rightarrow> 'w \<Rightarrow>
       (exn + nat) option \<times> processor_state \<times> 'w" where
  "run_processor env wait l fuel w = run_loop env wait l fuel new_processor w"

end
