(* ===== verification/Backlinks_Safety.thy ===== *)
theory Backlinks_Safety
  imports Backlinks_Cycle "HOL-Library.Sublist"
begin

text \<open>
  Correctness of the backlinks processor.

  \<^item> Admission: nothing is dropped silently, and a batch respects every limit.
  \<^item> The state invariant \<open>proc_inv\<close> (the queue and the buffers within their limits, every
    buffered target queued, the waiter queued) holds after every cycle, also after a failed one.
  \<^item> A cycle fails only with a Redis error, so the service loop ends only by its stop event.
  \<^item> A member leaves Redis only when its edge is stored in MongoDB.
\<close>

section \<open>Errors of the clients\<close>

text \<open>
  What redis-py, pymongo and bson may raise: their own errors. \<open>BSON.encode\<close> raises
  \<open>InvalidDocument\<close> or \<open>OverflowError\<close>.
\<close>

definition client_errors :: "('w, 'z) bl_env_scheme \<Rightarrow> bool" where
  "client_errors env \<longleftrightarrow>
     (\<forall>c p n w. wp (redis_scan (e_redis env) c p n) (\<lambda>_ _. True) (\<lambda>e _. is_redis_error e) w) \<and>
     (\<forall>k w. wp (redis_type (e_redis env) k) (\<lambda>_ _. True) (\<lambda>e _. is_redis_error e) w) \<and>
     (\<forall>k c n w. wp (redis_sscan (e_redis env) k c n) (\<lambda>_ _. True) (\<lambda>e _. is_redis_error e) w) \<and>
     (\<forall>k ms w. wp (redis_srem (e_redis env) k ms) (\<lambda>_ _. True) (\<lambda>e _. is_redis_error e) w) \<and>
     (\<forall>c f w. wp (mongo_find_one (e_mongo env) c f) (\<lambda>_ _. True) (\<lambda>e _. is_pymongo_error e) w) \<and>
     (\<forall>c d w. wp (mongo_insert_one (e_mongo env) c d) (\<lambda>_ _. True) (\<lambda>e _. is_pymongo_error e) w) \<and>
     (\<forall>c ops w. wp (mongo_bulk_write (e_mongo env) c ops) (\<lambda>_ _. True) (\<lambda>e _. is_pymongo_error e) w) \<and>
     (\<forall>d e. bson_encode_size (e_mongo env) d = Inl e \<longrightarrow> e = InvalidDocument \<or> e = OverflowError)"

lemma wp_clients:
  assumes "client_errors env"
  shows "wp (redis_scan (e_redis env) c p n) (\<lambda>_ _. True) (\<lambda>e _. is_redis_error e) w"
    and "wp (redis_type (e_redis env) k) (\<lambda>_ _. True) (\<lambda>e _. is_redis_error e) w"
    and "wp (redis_sscan (e_redis env) k c n) (\<lambda>_ _. True) (\<lambda>e _. is_redis_error e) w"
    and "wp (redis_srem (e_redis env) k ms) (\<lambda>_ _. True) (\<lambda>e _. is_redis_error e) w"
    and "wp (mongo_find_one (e_mongo env) cl f) (\<lambda>_ _. True) (\<lambda>e _. is_pymongo_error e) w"
    and "wp (mongo_insert_one (e_mongo env) cl d) (\<lambda>_ _. True) (\<lambda>e _. is_pymongo_error e) w"
    and "wp (mongo_bulk_write (e_mongo env) cl ops) (\<lambda>_ _. True) (\<lambda>e _. is_pymongo_error e) w"
    and "bson_encode_size (e_mongo env) d = Inl e \<Longrightarrow> e = InvalidDocument \<or> e = OverflowError"
  using assms by (simp_all add: client_errors_def)

lemma wp_scan_backlink_keys:
  assumes "client_errors env"
  shows "wp (scan_backlink_keys env c n m) (\<lambda>(_, ks) _. length ks \<le> m) (\<lambda>e _. is_redis_error e) w"
  unfolding scan_backlink_keys_def wp_bind
  by (rule wp_call [OF wp_clients(1) [OF assms]]) auto

lemma wp_scan_backlink_members:
  assumes "client_errors env"
  shows "wp (scan_backlink_members env k c n m) (\<lambda>(_, ms) _. length ms \<le> m)
           (\<lambda>e _. is_redis_error e \<or> (\<exists>r. e = InvalidBacklinkSet r)) w"
proof -
  have h: "wp (case e of
            RedisResponseError msg \<Rightarrow>
              if mentions_wrongtype msg then raise (InvalidBacklinkSet ''redis_key_wrong_type'') else raise e
          | _ \<Rightarrow> raise e) Q (\<lambda>e _. is_redis_error e \<or> (\<exists>r. e = InvalidBacklinkSet r)) w'"
    if "is_redis_error e" for e w' and Q :: "nat \<times> bytes list \<Rightarrow> 'a \<Rightarrow> bool"
    using that by (cases e) auto
  show ?thesis
    unfolding scan_backlink_members_def wp_bind
    by (rule wp_call [OF wp_clients(2) [OF assms]])
      (auto intro!: wp_call [OF wp_clients(3) [OF assms]] h)
qed

lemma wp_add_backlinks:
  assumes "client_errors env"
  shows "wp (add_backlinks env t srcs mm mb md) (\<lambda>_ _. True) (\<lambda>e _. \<exists>r. batch_failure n e = Some r) w"
proof -
  have pm: "is_pymongo_error e \<Longrightarrow> \<exists>r. batch_failure n e = Some r" for e
    by (cases e) (auto simp: batch_failure_def)
  have rej: "\<exists>r. batch_failure n (BacklinkDocumentRejected s) = Some r"
    and con: "\<exists>r. batch_failure n MongoWriteConflict = Some r"
    and ack: "\<exists>r. batch_failure n MongoWriteNotAcknowledged = Some r" for s
    by (auto simp: batch_failure_def)
  have v: "validate_batch env t srcs mm mb = Inl e \<Longrightarrow> \<exists>s. e = BacklinkDocumentRejected s" for e
    by (auto simp: validate_batch_def validate_url_def sum_iffs Let_def
        dest!: mapE_InlD split: option.splits sum.splits)
  have l: "existing_links d = Inl e \<Longrightarrow> \<exists>s. e = BacklinkDocumentRejected s" for d e
    by (auto simp: existing_links_def split: option.splits)
  have b: "is_pymongo_error e \<Longrightarrow> \<exists>r. batch_failure n (bulk_error e) = Some r" for e
    using rej con ack pm by (cases e) (auto simp: bulk_error_def)
  have ins: "wp (write_insert env p) (\<lambda>_ _. True) (\<lambda>e _. \<exists>r. batch_failure n e = Some r) w'" for p w'
    unfolding write_insert_def wp_bind wp_catch
    by (rule wp_call [OF wp_clients(6) [OF assms]]) (use con ack pm in auto)
  have upd: "wp (write_update env t d us) (\<lambda>_ _. True) (\<lambda>e _. \<exists>r. batch_failure n e = Some r) w'" for d us w'
    unfolding write_update_def Let_def wp_bind wp_catch
    by (rule wp_call [OF wp_clients(7) [OF assms]]) (use con ack b in auto)
  have rest: "wp (bind (lift (existing_links existing)) k) (\<lambda>_ _. True) (\<lambda>e _. \<exists>r. batch_failure n e = Some r) w'"
    if "\<And>links. wp (k links) (\<lambda>_ _. True) (\<lambda>e _. \<exists>r. batch_failure n e = Some r) w'"
    for existing k w'
    using that l rej by (auto split: sum.splits dest!: l)
  show ?thesis
    unfolding add_backlinks_def Let_def wp_bind [of "lift (validate_batch env t srcs mm mb)"]
      wp_bind [of "mongo_find_one (e_mongo env) BACKLINKS_COLLECTION (id_filter t)"]
    by (auto split: sum.splits dest!: v l intro!: rej rest wp_call [OF wp_clients(5) [OF assms]] ins upd dest: pm wp_clients(8) [OF assms])
qed

lemma batch_failure_requested: "batch_failure n e = Some r \<Longrightarrow> res_requested r = n \<and> res_status r \<noteq> Acked"
  by (auto simp: batch_failure_def split: exn.splits if_splits)

lemma wp_srem_backlink_members:
  assumes "client_errors env" and "ms \<noteq> []"
  shows "wp (srem_backlink_members env k ms) (\<lambda>_ _. True) (\<lambda>e _. is_redis_error e) w"
  using assms wp_clients(4) [OF assms(1)] by (simp add: srem_backlink_members_def)

lemma wp_process_batch:
  assumes "client_errors env" and "bb_members b \<noteq> []"
  shows "wp (process_batch env b mm mb md) (\<lambda>r _. res_requested r = length (bb_members b)) (\<lambda>_ _. False) w"
  unfolding process_batch_def Let_def wp_bind wp_attempt
proof (rule wp_call [OF wp_add_backlinks [OF assms(1), where n = "length (bb_members b)"]], goal_cases)
  case (1 x w')
  have ack: "wp (srem_backlink_members env (bb_redis_key b) (map bm_raw (bb_members b))) (\<lambda>_ _. True) (\<lambda>e _. is_redis_error e) w'"
    using assms by (intro wp_srem_backlink_members) auto
  show ?case by simp (rule wp_call [OF ack], auto)
next
  case (2 e w')
  then show ?case by (auto dest: batch_failure_requested)
qed

section \<open>Admission\<close>

definition raw_bytes :: "backlink_member list \<Rightarrow> nat" where
  "raw_bytes ms = sum_list (map (length \<circ> bm_raw) ms)"

definition member_ok :: "('w, 'z) bl_env_scheme \<Rightarrow> backlink_member \<Rightarrow> bool" where
  "member_ok env m \<longleftrightarrow> parse_backlink_member env (bm_raw m) = Inr m"

text \<open>
  What an admission that starts with \<open>ad\<close> admitted and \<open>rj\<close> counted has done with the buffer
  \<open>ps\<close>: it used a prefix, in which the raw bytes of the new members and the rejected members are
  interleaved in order.
\<close>

definition admission ::
    "(string, nat) dict \<Rightarrow> backlink_member list \<Rightarrow> bytes list \<Rightarrow>
     backlink_member list \<times> (string, nat) dict \<times> bytes list \<Rightarrow> nat \<Rightarrow> bool" where
  "admission rj ad ps result n \<longleftrightarrow>
     (case result of (adm, rj', rest) \<Rightarrow>
       \<exists>new dropped used. adm = ad @ new \<and> ps = used @ rest \<and> used \<in> shuffles (map bm_raw new) dropped \<and>
         counter_total rj' = counter_total rj + length dropped \<and> length used \<le> n)"

lemma admission_stop: "admission rj ad ps (ad, rj, ps) n"
  by (auto simp: admission_def)

lemma admission_drop:
  assumes "admission (counter_add rj reason 1) ad ps result n" and "distinct (map fst rj)"
  shows "admission rj ad (raw # ps) result (Suc n)"
proof -
  obtain adm rj' rest new dropped used where r: "result = (adm, rj', rest)" and p: "adm = ad @ new" "ps = used @ rest"
    "used \<in> shuffles (map bm_raw new) dropped"
    "counter_total rj' = counter_total (counter_add rj reason 1) + length dropped" "length used \<le> n"
    using assms(1) by (auto simp: admission_def)
  show ?thesis unfolding admission_def r
    using p assms(2)
    by (simp, intro exI [of _ "raw # dropped"] exI [of _ "raw # used"])
      (auto simp: counter_add_total Cons_in_shuffles_iff)
qed

lemma admission_take:
  assumes "admission rj (ad @ [m]) ps result n"
  shows "admission rj ad (bm_raw m # ps) result (Suc n)"
proof -
  obtain adm rj' rest new dropped used where r: "result = (adm, rj', rest)" and p: "adm = ad @ m # new" "ps = used @ rest"
    "used \<in> shuffles (map bm_raw new) dropped"
    "counter_total rj' = counter_total rj + length dropped" "length used \<le> n"
    using assms(1) by (auto simp: admission_def)
  show ?thesis unfolding admission_def r
    using p
    by (simp, intro exI [of _ "m # new"] exI [of _ dropped] exI [of _ "bm_raw m # used"])
      (auto simp: Cons_in_shuffles_iff)
qed

text \<open>The limits on what is admitted.\<close>

definition within_limits :: "('w, 'z) bl_env_scheme \<Rightarrow> processing_limits \<Rightarrow> backlink_member list \<Rightarrow> bool" where
  "within_limits env l ad \<longleftrightarrow> list_all (member_ok env) ad \<and> raw_bytes ad \<le> max_ack_batch_url_bytes l \<and>
     length ad \<le> max_members_per_ack_batch l"

lemma admit_members_correct:
  assumes "within_limits env l ad" and "distinct (map fst rj)" and "eb = raw_bytes ad"
  shows "admission rj ad ps (admit_members env l ex ad eb rj ps) (max_members_per_target_per_cycle l - ex) \<and>
         within_limits env l (fst (admit_members env l ex ad eb rj ps))"
  using assms
proof (induction ps arbitrary: ex ad eb rj)
  case Nil
  then show ?case by (simp add: admission_stop)
next
  case (Cons raw ps)
  show ?case
  proof (cases "max_members_per_target_per_cycle l \<le> ex")
    case True
    then show ?thesis using Cons.prems by (simp add: admission_stop)
  next
    case False
    then have n: "max_members_per_target_per_cycle l - ex = Suc (max_members_per_target_per_cycle l - Suc ex)" by simp
    have drop: "admission rj ad (raw # ps) (admit_members env l (Suc ex) ad eb (counter_add rj reason 1) ps)
         (max_members_per_target_per_cycle l - ex) \<and>
       within_limits env l (fst (admit_members env l (Suc ex) ad eb (counter_add rj reason 1) ps))" for reason
      using Cons.IH [of ad "counter_add rj reason 1" eb "Suc ex"] Cons.prems
        admission_drop [of rj reason ad ps _ "max_members_per_target_per_cycle l - Suc ex" raw]
      by (simp add: n counter_add_distinct)
    show ?thesis
    proof (cases "parse_backlink_member env raw")
      case (Inl e)
      then obtain reason where "e = InvalidBacklinkSet reason"
        using parse_backlink_member_errors by blast
      then show ?thesis using Inl False drop by simp
    next
      case (Inr m)
      then have raw: "bm_raw m = raw" and ok: "member_ok env m"
        using parse_backlink_memberD(1) by (auto simp: member_ok_def)
      show ?thesis
      proof (cases "max_members_per_ack_batch l \<le> length ad \<or> max_ack_batch_url_bytes l < eb + length (bm_raw m)")
        case True
        then show ?thesis using Inr False drop Cons.prems by (auto simp: admission_stop Let_def)
      next
        case room: False
        then have "within_limits env l (ad @ [m])" and "eb + length (bm_raw m) = raw_bytes (ad @ [m])"
          using Cons.prems ok by (auto simp: within_limits_def raw_bytes_def)
        from Cons.IH [OF this(1) Cons.prems(2) this(2), of "Suc ex"]
        show ?thesis using Inr False room raw admission_take [of rj ad m ps _ "max_members_per_target_per_cycle l - Suc ex"]
          by (simp add: n Let_def)
      qed
    qed
  qed
qed

lemma admit_members_rest:
  assumes "within_limits env l ad" and "distinct (map fst rj)" and "eb = raw_bytes ad"
  shows "length (snd (snd (admit_members env l ex ad eb rj ps))) \<le> length ps"
  using admit_members_correct [OF assms, of ps ex] by (auto simp: admission_def split: prod.splits)

text \<open>With limits that pass \<open>__post_init__\<close>, a visit makes progress: a buffered member is used.\<close>

lemma admit_members_progress:
  assumes "limits_ok l" and "admit_members env l 0 [] 0 [] (raw # ps) = (adm, rj, rest)"
  shows "length rest \<le> length ps"
proof -
  have pos: "0 < max_members_per_target_per_cycle l" "0 < max_members_per_ack_batch l"
    using limits_okD [OF assms(1)] by auto
  have skip: "length (snd (snd (admit_members env l (Suc 0) [] 0 (counter_add [] reason 1) ps))) \<le> length ps" for reason
    by (rule admit_members_rest) (simp_all add: within_limits_def raw_bytes_def counter_add_def)
  show ?thesis
  proof (cases "parse_backlink_member env raw")
    case (Inl e)
    then obtain reason where "e = InvalidBacklinkSet reason" using parse_backlink_member_errors by blast
    then show ?thesis using assms(2) Inl pos skip [of reason] by simp
  next
    case (Inr m)
    show ?thesis
    proof (cases "max_ack_batch_url_bytes l < length (bm_raw m)")
      case True
      then show ?thesis using assms(2) Inr pos skip [of "''member_batch_byte_limit_exceeded''"] by (simp add: Let_def)
    next
      case False
      moreover have "length (snd (snd (admit_members env l (Suc 0) [m] (length (bm_raw m)) [] ps))) \<le> length ps"
        using False Inr pos parse_backlink_memberD(1) [OF Inr]
        by (intro admit_members_rest) (auto simp: within_limits_def raw_bytes_def member_ok_def)
      ultimately show ?thesis using assms(2) Inr pos by (simp add: Let_def)
    qed
  qed
qed

section \<open>The state invariant\<close>

text \<open>
  \<open>inv_with env l n vs st\<close>: the invariant while the keys \<open>vs\<close> (none, or the one being visited)
  are off the queue, with at least \<open>n\<close> keys queued. A waiting target has nothing buffered and is
  not exhausted, so its next visit scans.
\<close>

definition waits :: "('w, 'z) bl_env_scheme \<Rightarrow> processor_state \<Rightarrow> bytes \<Rightarrow> bool" where
  "waits env st k \<longleftrightarrow> ts_pending (target_of k st) = [] \<and> \<not> ts_scan_complete (target_of k st) \<and>
     (\<exists>t. parse_backlink_key env k = Inr t)"

definition inv_with ::
    "('w, 'z) bl_env_scheme \<Rightarrow> processing_limits \<Rightarrow> nat \<Rightarrow> bytes set \<Rightarrow> processor_state \<Rightarrow> bool" where
  "inv_with env l n vs st \<longleftrightarrow>
     distinct (ps_pending_keys st) \<and> set (ps_pending_keys st) = ps_queued_keys st \<and>
     distinct (map fst (ps_targets st)) \<and> fst ` set (ps_targets st) \<subseteq> ps_queued_keys st \<union> vs \<and>
     (\<forall>k \<in> fst ` set (ps_targets st). \<exists>t. parse_backlink_key env k = Inr t) \<and>
     ps_queued_keys st \<inter> vs = {} \<and>
     n \<le> length (ps_pending_keys st) \<and> length (ps_pending_keys st) + card vs \<le> max_pending_target_keys l \<and>
     total_bytes st \<le> max_pending_member_bytes l \<and>
     (\<forall>k. ps_waiter st = Some k \<longrightarrow> k \<in> ps_queued_keys st \<union> vs \<and> waits env st k)"

definition proc_inv :: "('w, 'z) bl_env_scheme \<Rightarrow> processing_limits \<Rightarrow> processor_state \<Rightarrow> bool" where
  "proc_inv env l st \<longleftrightarrow> inv_with env l 0 {} st"

lemma inv_with_mono: "inv_with env l n vs st \<Longrightarrow> m \<le> n \<Longrightarrow> inv_with env l m vs st"
  by (simp add: inv_with_def)

lemma proc_inv_new: "proc_inv env l new_processor"
  by (simp add: proc_inv_def inv_with_def new_processor_def total_bytes_def dict_sum_def)

lemma queue_key_fields [simp]:
  "ps_targets (queue_key k st) = ps_targets st" "ps_waiter (queue_key k st) = ps_waiter st"
  "ps_key_cursor (queue_key k st) = ps_key_cursor st" "ps_queued_keys (queue_key k st) = insert k (ps_queued_keys st)"
  by (auto simp: queue_key_def)

lemma set_target_fields [simp]:
  "ps_pending_keys (set_target k ts st) = ps_pending_keys st" "ps_queued_keys (set_target k ts st) = ps_queued_keys st"
  "ps_waiter (set_target k ts st) = ps_waiter st"
  by (simp_all add: set_target_def)

lemma pop_target_fields [simp]:
  "ps_pending_keys (pop_target k st) = ps_pending_keys st" "ps_queued_keys (pop_target k st) = ps_queued_keys st"
  "ps_waiter (pop_target k st) = ps_waiter st"
  by (simp_all add: pop_target_def)

lemma target_of_other [simp]:
  "target_of k (st\<lparr>ps_pending_keys := ks\<rparr>) = target_of k st"
  "target_of k (st\<lparr>ps_queued_keys := s\<rparr>) = target_of k st"
  "target_of k (st\<lparr>ps_waiter := v\<rparr>) = target_of k st"
  "target_of k (st\<lparr>ps_key_cursor := c\<rparr>) = target_of k st"
  "target_of k (queue_key k' st) = target_of k st"
  by (simp_all add: target_of_def)

lemma total_bytes_other [simp]:
  "total_bytes (st\<lparr>ps_pending_keys := ks\<rparr>) = total_bytes st"
  "total_bytes (st\<lparr>ps_queued_keys := s\<rparr>) = total_bytes st"
  "total_bytes (st\<lparr>ps_waiter := v\<rparr>) = total_bytes st"
  "total_bytes (st\<lparr>ps_key_cursor := c\<rparr>) = total_bytes st"
  "total_bytes (queue_key k' st) = total_bytes st"
  by (simp_all add: total_bytes_def)

lemma waits_other [simp]:
  "waits env (st\<lparr>ps_pending_keys := ks\<rparr>) k = waits env st k"
  "waits env (st\<lparr>ps_queued_keys := s\<rparr>) k = waits env st k"
  "waits env (st\<lparr>ps_waiter := v\<rparr>) k = waits env st k"
  "waits env (st\<lparr>ps_key_cursor := c\<rparr>) k = waits env st k"
  "waits env (queue_key k' st) k = waits env st k"
  by (simp_all add: waits_def)

lemma target_of_set [simp]: "target_of k (set_target k' ts st) = (if k = k' then ts else target_of k st)"
  by (simp add: target_of_def set_target_def update_conv)

lemma target_of_pop: "k \<noteq> k' \<Longrightarrow> target_of k (pop_target k' st) = target_of k st"
  by (simp add: target_of_def pop_target_def delete_conv)

lemma ts_bytes_new [simp]: "ts_bytes new_target = 0"
  by (simp add: ts_bytes_def new_target_def)

lemma value_or_target: "value_or ts_bytes (map_of (ps_targets st) k) = ts_bytes (target_of k st)"
  by (simp add: target_of_def split: option.splits)

lemma total_bytes_set:
  "distinct (map fst (ps_targets st)) \<Longrightarrow>
     total_bytes (set_target k ts st) + ts_bytes (target_of k st) = total_bytes st + ts_bytes ts"
  using dict_sum_update [of "ps_targets st" ts_bytes k ts] value_or_target [of st k]
  by (simp add: total_bytes_def set_target_def)

lemma total_bytes_pop:
  "distinct (map fst (ps_targets st)) \<Longrightarrow>
     total_bytes (pop_target k st) + ts_bytes (target_of k st) = total_bytes st"
  using dict_sum_delete [of "ps_targets st" ts_bytes k] value_or_target [of st k]
  by (simp add: total_bytes_def pop_target_def)

lemma inv_queue_key: "inv_with env l n {key} st \<Longrightarrow> inv_with env l n {} (queue_key key st)"
  by (auto simp: inv_with_def queue_key_def)

lemma inv_queue_new:
  "inv_with env l n {} st \<Longrightarrow> length (ps_pending_keys st) < max_pending_target_keys l \<Longrightarrow>
     inv_with env l n {} (queue_key key st)"
  by (auto simp: inv_with_def queue_key_def)

lemma length_queue_key: "length (ps_pending_keys (queue_key k st)) \<le> Suc (length (ps_pending_keys st))"
  by (simp add: queue_key_def)

lemma inv_queue_keys:
  "inv_with env l n {} st \<Longrightarrow> length (ps_pending_keys st) + length ks \<le> max_pending_target_keys l \<Longrightarrow>
     inv_with env l n {} (fold queue_key ks st)"
proof (induction ks arbitrary: st)
  case (Cons k ks)
  have "inv_with env l n {} (queue_key k st)" using Cons.prems by (intro inv_queue_new) auto
  then show ?case using Cons.IH length_queue_key [of k st] Cons.prems by simp
qed simp

lemma inv_pop_target:
  assumes "inv_with env l n {key} st" and "ps_waiter st \<noteq> Some key"
  shows "inv_with env l n {} (pop_target key st)"
proof -
  have d: "distinct (map fst (ps_targets st))" using assms by (simp add: inv_with_def)
  then have "total_bytes (pop_target key st) \<le> total_bytes st" using total_bytes_pop [of st key] by linarith
  moreover have "waits env st k \<Longrightarrow> k \<noteq> key \<Longrightarrow> waits env (pop_target key st) k" for k
    by (simp add: waits_def target_of_pop)
  moreover have "fst ` set (ps_targets (pop_target key st)) = fst ` set (ps_targets st) - {key}"
    by (auto simp: pop_target_def AList.delete_eq)
  moreover have "distinct (map fst (ps_targets (pop_target key st)))"
    using d by (simp add: pop_target_def distinct_delete)
  ultimately show ?thesis using assms by (auto simp: inv_with_def)
qed

lemma inv_set_target:
  assumes "inv_with env l n {key} st" and "total_bytes st + ts_bytes ts \<le> max_pending_member_bytes l + ts_bytes (target_of key st)"
    and "parse_backlink_key env key = Inr t"
    and "ps_waiter st = Some key \<Longrightarrow> ts_pending ts = [] \<and> \<not> ts_scan_complete ts"
  shows "inv_with env l n {key} (set_target key ts st)"
proof -
  have d: "distinct (map fst (ps_targets st))" using assms by (simp add: inv_with_def)
  then have "total_bytes (set_target key ts st) \<le> max_pending_member_bytes l"
    using total_bytes_set [of st key ts] assms(2) by linarith
  moreover have "ps_waiter st = Some k \<Longrightarrow> waits env (set_target key ts st) k" for k
    using assms by (auto simp: waits_def inv_with_def)
  moreover have "fst ` set (ps_targets (set_target key ts st)) = insert key (fst ` set (ps_targets st))"
    by (simp add: set_target_def dom_update)
  moreover have "distinct (map fst (ps_targets (set_target key ts st)))"
    using d by (simp add: set_target_def distinct_update)
  ultimately show ?thesis using assms(1,3) by (auto simp: inv_with_def)
qed

lemma inv_next_key:
  assumes "inv_with env l (Suc n) {} st" and "ps_pending_keys st = key # rest"
  shows "inv_with env l n {key} (st\<lparr>ps_pending_keys := rest, ps_queued_keys := ps_queued_keys st - {key}\<rparr>)"
  using assms
  by (auto simp: inv_with_def)

lemma inv_skip_key:
  assumes "inv_with env l n {key} st" and "parse_backlink_key env key = Inl e"
  shows "inv_with env l n {} st"
proof -
  have "key \<notin> fst ` set (ps_targets st)" and "ps_waiter st \<noteq> Some key"
    using assms by (fastforce simp: inv_with_def waits_def)+
  then show ?thesis using assms(1) by (auto simp: inv_with_def)
qed

text \<open>During a cycle the byte counter is the size of the buffers.\<close>

definition cyc_inv :: "('w, 'z) bl_env_scheme \<Rightarrow> processing_limits \<Rightarrow> nat \<Rightarrow> 'v cyc \<Rightarrow> bool" where
  "cyc_inv env l n c \<longleftrightarrow> inv_with env l n {} (cy_st c) \<and>
     ca_pending_bytes (cy_acc c) = int (total_bytes (cy_st c))"

text \<open>
  While \<open>key\<close> is visited the counter lags behind: \<open>previous\<close> is what the target held when the
  visit began.
\<close>

definition visiting ::
    "('w, 'z) bl_env_scheme \<Rightarrow> processing_limits \<Rightarrow> nat \<Rightarrow> bytes \<Rightarrow> nat \<Rightarrow> 'v cyc \<Rightarrow> bool" where
  "visiting env l n key previous c \<longleftrightarrow> inv_with env l n {key} (cy_st c) \<and> ps_waiter (cy_st c) \<noteq> Some key \<and>
     ca_pending_bytes (cy_acc c) + int (ts_bytes (target_of key (cy_st c))) = int (total_bytes (cy_st c)) + int previous"

abbreviation failed :: "('w, 'z) bl_env_scheme \<Rightarrow> processing_limits \<Rightarrow> exn \<Rightarrow> 'v cyc \<Rightarrow> bool" where
  "failed env l e c \<equiv> is_redis_error e \<and> inv_with env l 0 {} (cy_st c)"

lemma cyc_inv_other [simp]:
  "cyc_inv env l n (c\<lparr>cy_ext := w\<rparr>) = cyc_inv env l n c"
  "cyc_inv env l n (c\<lparr>cy_acc := cy_acc c\<lparr>ca_rejections := r\<rparr>\<rparr>) = cyc_inv env l n c"
  "cyc_inv env l n (c\<lparr>cy_acc := cy_acc c\<lparr>ca_retries := r\<rparr>\<rparr>) = cyc_inv env l n c"
  "visiting env l n k p (c\<lparr>cy_ext := w\<rparr>) = visiting env l n k p c"
  by (simp_all add: cyc_inv_def visiting_def)

lemma wp_count [simp, wp_simps]:
  "wp (count_rejection r) Q E c = Q () (c\<lparr>cy_acc := ca_rejections_update (\<lambda>d. counter_add d r 1) (cy_acc c)\<rparr>)"
  "wp (count_retry r) Q' E' c = Q' () (c\<lparr>cy_acc := ca_retries_update (\<lambda>d. counter_add d r 1) (cy_acc c)\<rparr>)"
  by (simp_all add: count_rejection_def count_retry_def)

lemma wp_fill_pending_keys:
  assumes "client_errors env" and "cyc_inv env l 0 c"
  shows "wp (fill_pending_keys env l calls) (\<lambda>_. cyc_inv env l 0) (\<lambda>e c. is_redis_error e \<and> cyc_inv env l 0 c) c"
  using assms(2)
proof (induction calls arbitrary: c)
  case 0
  then show ?case by simp
next
  case (Suc calls)
  have step: "cyc_inv env l 0 (c\<lparr>cy_ext := w, cy_st := fold queue_key ks (cy_st c\<lparr>ps_key_cursor := cur\<rparr>)\<rparr>)"
    if "length ks \<le> max_scan_response_items l"
      and "length (ps_pending_keys (cy_st c)) + max_scan_response_items l \<le> max_pending_target_keys l"
    for ks w cur
  proof -
    have "inv_with env l 0 {} (cy_st c\<lparr>ps_key_cursor := cur\<rparr>)"
      using Suc.prems by (simp add: cyc_inv_def inv_with_def)
    then have "inv_with env l 0 {} (fold queue_key ks (cy_st c\<lparr>ps_key_cursor := cur\<rparr>))"
      using that by (intro inv_queue_keys) auto
    moreover have "total_bytes (fold queue_key ks st) = total_bytes st" for st
      by (induction ks arbitrary: st) auto
    ultimately show ?thesis using Suc.prems by (simp add: cyc_inv_def)
  qed
  show ?case
    using Suc.prems step
    by (auto split: prod.splits intro!: wp_call [OF wp_scan_backlink_keys [OF assms(1)]] Suc.IH)
qed

lemma wp_fill_or_count:
  assumes "client_errors env" and "cyc_inv env l 0 c"
  shows "wp (fill_or_count env l) (\<lambda>_. cyc_inv env l 0) (\<lambda>_ _. False) c"
proof -
  have "wp (fill_failure e) (\<lambda>_. cyc_inv env l 0) (\<lambda>_ _. False) v"
    if "is_redis_error e" "cyc_inv env l 0 v" for e v
    using that by (cases e) (auto simp: fill_failure_def cyc_inv_def)
  then show ?thesis
    unfolding fill_or_count_def wp_catch
    by (intro wp_call [OF wp_fill_pending_keys [OF assms]]) auto
qed

lemma wp_scan_target:
  assumes ce: "client_errors env" and parse: "parse_backlink_key env key = Inr t"
    and inv: "inv_with env l n {key} (cy_st c)"
    and bytes: "ca_pending_bytes (cy_acc c) = int (total_bytes (cy_st c))"
  shows "wp (scan_target env l key)
           (\<lambda>go c'. if go then visiting env l n key (ts_bytes (target_of key (cy_st c))) c' else cyc_inv env l n c')
           (failed env l) c"
proof -
  let ?ts = "target_of key (cy_st c)"
  consider (drain) "ts_pending ?ts \<noteq> [] \<or> ts_scan_complete ?ts"
    | (full) "\<not> (ts_pending ?ts \<noteq> [] \<or> ts_scan_complete ?ts)"
        "ps_waiter (cy_st c) \<noteq> None \<and> ps_waiter (cy_st c) \<noteq> Some key \<or>
           ca_pending_bytes (cy_acc c) + int (scan_byte_limit l) > int (max_pending_member_bytes l)"
    | (scan) "\<not> (ts_pending ?ts \<noteq> [] \<or> ts_scan_complete ?ts)"
        "\<not> (ps_waiter (cy_st c) \<noteq> None \<and> ps_waiter (cy_st c) \<noteq> Some key \<or>
           ca_pending_bytes (cy_acc c) + int (scan_byte_limit l) > int (max_pending_member_bytes l))"
    by blast
  then show ?thesis
  proof cases
    case drain
    then have "ps_waiter (cy_st c) \<noteq> Some key" using inv by (auto simp: inv_with_def waits_def)
    then show ?thesis using drain inv bytes by (simp add: scan_target_def Let_def visiting_def)
  next
    case full
    have "inv_with env l n {key} (if ps_waiter (cy_st c) = None then cy_st c\<lparr>ps_waiter := Some key\<rparr> else cy_st c)"
      using inv full(1) parse by (auto simp: inv_with_def waits_def)
    from inv_queue_key [OF this] show ?thesis
      using full bytes by (auto simp: scan_target_def Let_def cyc_inv_def)
  next
    case scan
    let ?c = "\<lambda>w. c\<lparr>cy_st := cy_st c\<lparr>ps_waiter := None\<rparr>, cy_ext := w\<rparr>"
    have free: "inv_with env l n {key} (cy_st c\<lparr>ps_waiter := None\<rparr>)"
      using inv by (auto simp: inv_with_def)
    have empty: "ts_bytes ?ts = 0" using scan(1) by (simp add: ts_bytes_def)
    have taken: "visiting env l n key (ts_bytes ?ts)
        (c\<lparr>cy_ext := w, cy_st := set_target key (?ts\<lparr>ts_cursor := cur, ts_scan_complete := (cur = 0),
            ts_pending := ts_pending ?ts @ ms\<rparr>) (cy_st c\<lparr>ps_waiter := None\<rparr>)\<rparr>)"
      if "sum_list (map length ms) \<le> scan_byte_limit l" for cur ms w
    proof -
      let ?ts' = "?ts\<lparr>ts_cursor := cur, ts_scan_complete := (cur = 0), ts_pending := ts_pending ?ts @ ms\<rparr>"
      have b: "ts_bytes ?ts' = sum_list (map length ms)" using scan(1) by (simp add: ts_bytes_def)
      have "total_bytes (set_target key ?ts' (cy_st c\<lparr>ps_waiter := None\<rparr>)) = total_bytes (cy_st c) + ts_bytes ?ts'"
        using total_bytes_set [of "cy_st c\<lparr>ps_waiter := None\<rparr>" key ?ts'] free empty by (simp add: inv_with_def)
      moreover have "inv_with env l n {key} (set_target key ?ts' (cy_st c\<lparr>ps_waiter := None\<rparr>))"
        using free parse b that scan(2) bytes empty by (intro inv_set_target [where t = t]) auto
      ultimately show ?thesis using bytes empty by (simp add: visiting_def)
    qed
    have gone: "cyc_inv env l n (c\<lparr>cy_ext := w, cy_acc := a, cy_st := pop_target key (cy_st c\<lparr>ps_waiter := None\<rparr>)\<rparr>)"
      if "ca_pending_bytes a = ca_pending_bytes (cy_acc c)" for w a
      using inv_pop_target [OF free] total_bytes_pop [of "cy_st c\<lparr>ps_waiter := None\<rparr>" key] free empty that bytes
      by (simp add: cyc_inv_def inv_with_def)
    have err: "wp (page_failure key e)
        (\<lambda>go c'. if go then visiting env l n key (ts_bytes ?ts) c' else cyc_inv env l n c') (failed env l) (?c w)"
      if "is_redis_error e \<or> (\<exists>r. e = InvalidBacklinkSet r)" for e w
      using that inv_with_mono [OF inv_queue_key [OF free]] gone by (cases e) (auto simp: page_failure_def)
    have fetch: "wp (fetch_page env l key (ts_cursor ?ts))
         (\<lambda>r v. (\<exists>w. v = ?c w) \<and> sum_list (map length (snd r)) \<le> scan_byte_limit l)
         (\<lambda>e v. (\<exists>w. v = ?c w) \<and> (is_redis_error e \<or> (\<exists>r. e = InvalidBacklinkSet r))) (?c (cy_ext c))"
      unfolding fetch_page_def wp_bind wp_on_ext
      by (rule wp_call [OF wp_scan_backlink_members [OF ce]]) auto
    let ?Q = "\<lambda>go c'. if go then visiting env l n key (ts_bytes ?ts) c' else cyc_inv env l n c'"
    have body: "wp (bind (attempt (fetch_page env l key (ts_cursor ?ts))) (\<lambda>outcome.
          case outcome of
            Inl e \<Rightarrow> page_failure key e
          | Inr (cursor, members) \<Rightarrow>
              bind (on_st (set_target key (?ts\<lparr>ts_cursor := cursor, ts_scan_complete := (cursor = 0),
                                              ts_pending := ts_pending ?ts @ members\<rparr>))) (\<lambda>_. ret True)))
          ?Q (failed env l) (?c (cy_ext c))"
      unfolding wp_bind wp_attempt
    proof (rule wp_call [OF fetch], goal_cases)
      case (1 r v)
      then show ?case using taken by (cases r) auto
    next
      case (2 e v)
      then obtain w where "v = ?c w" "is_redis_error e \<or> (\<exists>r. e = InvalidBacklinkSet r)" by blast
      then show ?case using err [of e w] by (simp only: wp_case_sum) simp
    qed
    show ?thesis
      unfolding scan_target_def Let_def wp_bind wp_get_state wp_if wp_on_st
      using scan body unfolding wp_bind by simp auto
  qed
qed

lemma ts_pending_restore: "restore_members ms ts = ts\<lparr>ts_pending := map bm_raw ms @ ts_pending ts\<rparr>"
  by (induction ms) (auto simp: restore_members_def)

lemma shuffle_bytes: "used \<in> shuffles xs ys \<Longrightarrow> sum_list (map length used) = sum_list (map length xs) + sum_list (map length ys)"
  by (induction xs ys arbitrary: used rule: shuffles.induct) (auto simp: Cons_in_shuffles_iff)

text \<open>What a batch admitted from the buffer of a target looks like.\<close>

lemma admit_from_buffer:
  assumes "admit_members env l 0 [] 0 [] ps = (adm, rj, rest)"
  shows "admission [] [] ps (adm, rj, rest) (max_members_per_target_per_cycle l)" and "within_limits env l adm"
    and "raw_bytes adm + sum_list (map length rest) \<le> sum_list (map length ps)"
proof -
  show a: "admission [] [] ps (adm, rj, rest) (max_members_per_target_per_cycle l)" and "within_limits env l adm"
    using admit_members_correct [of env l "[]" "[]" 0 ps 0] assms
    by (simp_all add: within_limits_def raw_bytes_def)
  from a obtain dropped used where "ps = used @ rest" "used \<in> shuffles (map bm_raw adm) dropped"
    by (auto simp: admission_def)
  then show "raw_bytes adm + sum_list (map length rest) \<le> sum_list (map length ps)"
    using shuffle_bytes by (fastforce simp: raw_bytes_def comp_def)
qed

lemma visiting_shrink:
  assumes "visiting env l n key previous c" and "parse_backlink_key env key = Inr t"
    and "ts_bytes ts \<le> ts_bytes (target_of key (cy_st c))" and "ca_pending_bytes a = ca_pending_bytes (cy_acc c)"
  shows "visiting env l n key previous (c\<lparr>cy_st := set_target key ts (cy_st c), cy_acc := a\<rparr>)"
proof -
  have "inv_with env l n {key} (set_target key ts (cy_st c))"
    using assms by (intro inv_set_target [where t = t]) (auto simp: visiting_def inv_with_def)
  then show ?thesis
    using assms(1,4) total_bytes_set [of "cy_st c" key ts] by (simp add: visiting_def inv_with_def)
qed

lemma set_target_twice [simp]: "set_target k ts (set_target k ts' st) = set_target k ts st"
  by (simp add: set_target_def)

lemma wp_drain_target:
  assumes ce: "client_errors env" and parse: "parse_backlink_key env key = Inr t"
    and vis: "visiting env l n key previous c"
  shows "wp (drain_target env l key t) (\<lambda>_. visiting env l n key previous) (\<lambda>_ _. False) c"
proof -
  let ?ts = "target_of key (cy_st c)"
  obtain adm rj rest where adm: "admit_members env l 0 [] 0 [] (ts_pending ?ts) = (adm, rj, rest)"
    using prod_cases3 by blast
  let ?kept = "?ts\<lparr>ts_pending := rest\<rparr>" and ?undone = "?ts\<lparr>ts_pending := map bm_raw adm @ rest\<rparr>"
  have fit: "ts_bytes ?kept \<le> ts_bytes ?ts" "ts_bytes ?undone \<le> ts_bytes ?ts"
    using admit_from_buffer(3) [OF adm] by (simp_all add: ts_bytes_def raw_bytes_def comp_def)
  have kept: "visiting env l n key previous v"
    if "cy_st v = set_target key ?kept (cy_st c) \<or> cy_st v = set_target key ?undone (cy_st c)"
      and "ca_pending_bytes (cy_acc v) = ca_pending_bytes (cy_acc c)" for v :: "'a cyc"
    using that visiting_shrink [OF vis parse fit(1), of "cy_acc v"] visiting_shrink [OF vis parse fit(2), of "cy_acc v"]
    by (auto simp: visiting_def)
  let ?b = "\<lparr>bb_redis_key = key, bb_target_url = t, bb_members = adm,
              bb_encoded_url_bytes = sum_list (map (length \<circ> bm_raw) adm)\<rparr>"
  let ?kpt = "\<lambda>v :: 'a cyc. cy_st v = set_target key ?kept (cy_st c) \<and>
      ca_pending_bytes (cy_acc v) = ca_pending_bytes (cy_acc c)"
  have settle: "wp (settle_batch key adm r) (\<lambda>_. visiting env l n key previous) (\<lambda>_ _. False) v" if "?kpt v" for r v
    using that kept by (cases "res_status r") (auto simp: settle_batch_def ts_pending_restore)
  have batch: "wp (process_batch env ?b mm mb md) (\<lambda>r w. wp (settle_batch key adm r)
      (\<lambda>_. visiting env l n key previous) (\<lambda>_ _. False) (v\<lparr>cy_ext := w\<rparr>)) (\<lambda>_ _. False) w"
    if "adm \<noteq> []" "?kpt v" for v mm mb md w
    using that by (intro wp_call [OF wp_process_batch [OF ce]]) (auto intro!: settle)
  show ?thesis
    using kept batch by (auto simp: drain_target_def adm ts_pending_restore split: prod.splits)
qed

lemma wp_settle_target:
  assumes "visiting env l n key previous c"
  shows "wp (settle_target key previous) (\<lambda>_. cyc_inv env l n) (\<lambda>_ _. False) c"
proof -
  have "inv_with env l n {} (queue_key key (cy_st c))" "inv_with env l n {} (pop_target key (cy_st c))"
    using assms inv_queue_key inv_pop_target by (auto simp: visiting_def)
  moreover have "total_bytes (pop_target key (cy_st c)) + ts_bytes (target_of key (cy_st c)) = total_bytes (cy_st c)"
    using assms by (intro total_bytes_pop) (simp add: visiting_def inv_with_def)
  ultimately show ?thesis
    using assms by (auto simp: settle_target_def cyc_inv_def visiting_def ts_bytes_def)
qed

lemma wp_next_key:
  assumes "cyc_inv env l (Suc n) c"
  shows "wp next_key (\<lambda>key c'. inv_with env l n {key} (cy_st c') \<and>
           ca_pending_bytes (cy_acc c') = int (total_bytes (cy_st c')) \<and> cy_ext c' = cy_ext c) (\<lambda>_ _. False) c"
  using assms inv_next_key [of env l n "cy_st c"]
  by (cases "ps_pending_keys (cy_st c)") (auto simp: next_key_def cyc_inv_def inv_with_def)

lemma wp_visit_target:
  assumes ce: "client_errors env" and inv: "cyc_inv env l (Suc n) c"
  shows "wp (visit_target env l) (\<lambda>_. cyc_inv env l n) (failed env l) c"
  unfolding visit_target_def wp_bind wp_on_acc
proof (rule wp_call [OF wp_next_key [OF inv]], goal_cases)
  case (1 key c')
  show ?case
  proof (cases "parse_backlink_key env key")
    case (Inl e)
    then obtain r where "e = InvalidBacklinkSet r" using parse_backlink_key_errors by blast
    then show ?thesis using Inl 1 inv_skip_key [OF _ Inl] by (simp add: cyc_inv_def)
  next
    case (Inr t)
    let ?c = "c'\<lparr>cy_acc := ca_targets_visited_update Suc (cy_acc c'), cy_st := set_target key (target_of key (cy_st c')) (cy_st c')\<rparr>"
    have "distinct (map fst (ps_targets (cy_st c')))" using 1 by (simp add: inv_with_def)
    then have total: "total_bytes (cy_st ?c) = total_bytes (cy_st c')"
      using total_bytes_set [of "cy_st c'" key "target_of key (cy_st c')"] by simp
    have i: "inv_with env l n {key} (cy_st c')" using 1 by simp
    then have "total_bytes (cy_st c') \<le> max_pending_member_bytes l"
      and "ps_waiter (cy_st c') = Some key \<Longrightarrow> ts_pending (target_of key (cy_st c')) = [] \<and>
             \<not> ts_scan_complete (target_of key (cy_st c'))"
      by (auto simp: inv_with_def waits_def)
    with i have "inv_with env l n {key} (cy_st ?c)"
      using inv_set_target [OF i _ Inr] by simp
    then have scan: "wp (scan_target env l key)
           (\<lambda>go c'. if go then visiting env l n key (ts_bytes (target_of key (cy_st ?c))) c' else cyc_inv env l n c')
           (failed env l) ?c"
      using 1 total Inr by (intro wp_scan_target [OF ce Inr]) auto
    have "wp (bind (scan_target env l key) (\<lambda>proceed.
         if \<not> proceed then ret ()
         else bind (drain_target env l key t) (\<lambda>_. settle_target key (ts_bytes (target_of key (cy_st ?c))))))
        (\<lambda>_. cyc_inv env l n) (failed env l) ?c"
      unfolding wp_bind
      by (rule wp_call [OF scan])
        (auto intro!: wp_call [OF wp_drain_target [OF ce Inr]] wp_call [OF wp_settle_target])
    then show ?thesis using Inr by simp
  qed
qed auto

lemma wp_visit_targets:
  assumes ce: "client_errors env" and inv: "cyc_inv env l n c"
  shows "wp (visit_targets env l n) (\<lambda>_. cyc_inv env l 0) (failed env l) c"
  using inv
proof (induction n arbitrary: c)
  case (Suc n)
  have "cyc_inv env l 0 c" using Suc.prems by (simp add: cyc_inv_def inv_with_def)
  then show ?case
    using Suc.prems by (auto split: prod.splits intro!: wp_call [OF wp_visit_target [OF ce]] Suc.IH)
qed simp

lemma wp_cycle_body:
  assumes ce: "client_errors env" and inv: "cyc_inv env l 0 c"
  shows "wp (cycle_body env l) (\<lambda>_. cyc_inv env l 0) (failed env l) c"
proof -
  have "cyc_inv env l (min (length (ps_pending_keys (cy_st v))) m) v" if "cyc_inv env l 0 v" for v m
    using that by (simp add: cyc_inv_def inv_with_def)
  then show ?thesis
    unfolding cycle_body_def wp_bind wp_get_state
    by (intro wp_call [OF wp_fill_or_count [OF ce inv]] wp_call [OF wp_visit_targets [OF ce]])
      (auto split: prod.splits)
qed

lemma process_cycle_inv:
  assumes "client_errors env" and "proc_inv env l st" and "process_cycle env l st w = (r, st', w')"
  shows "proc_inv env l st'" and "r = Inl e \<Longrightarrow> is_redis_error e"
proof -
  have "cyc_inv env l 0 \<lparr>cy_st = st, cy_acc = start_acc st, cy_ext = w\<rparr>"
    using assms(2) by (simp add: cyc_inv_def proc_inv_def start_acc_def)
  from wp_cycle_body [OF assms(1) this] assms(3)
  show "proc_inv env l st'" and "r = Inl e \<Longrightarrow> is_redis_error e"
    by (auto simp: process_cycle_def wp_def proc_inv_def cyc_inv_def split: prod.splits sum.splits)
qed

section \<open>The turns of the service\<close>

text \<open>
  One turn of the service loop that does not end it, as a relation on the processor and the world: the stop event is
  polled and clear, a cycle runs, and then the service backs off after a failed cycle or a retry, waits for work when
  nothing is queued, or goes on at once.
\<close>

inductive service_turn ::
    "('w, 'z) bl_env_scheme \<Rightarrow> (nat \<Rightarrow> 'w \<Rightarrow> 'w) \<Rightarrow> processing_limits \<Rightarrow> processor_state \<times> 'w \<Rightarrow> processor_state \<times> 'w \<Rightarrow> bool"
  for env wait l where
  failed: "e_stop env w = (False, v) \<Longrightarrow> process_cycle env l st v = (Inl e, st', v') \<Longrightarrow>
     is_pymongo_error e \<or> is_redis_error e \<Longrightarrow>
     service_turn env wait l (st, w) (st', wait RETRY_BACKOFF_SECONDS v')"
| retried: "e_stop env w = (False, v) \<Longrightarrow> process_cycle env l st v = (Inr (acc, i), st', v') \<Longrightarrow>
     e_stop env v' = (False, v'') \<Longrightarrow> ca_retries acc \<noteq> [] \<Longrightarrow>
     service_turn env wait l (st, w) (st', wait RETRY_BACKOFF_SECONDS v'')"
| idle: "e_stop env w = (False, v) \<Longrightarrow> process_cycle env l st v = (Inr (acc, i), st', v') \<Longrightarrow>
     e_stop env v' = (False, v'') \<Longrightarrow> ca_retries acc = [] \<Longrightarrow> ps_pending_keys st' = [] \<Longrightarrow>
     service_turn env wait l (st, w) (st', wait POLL_INTERVAL_SECONDS v'')"
| busy: "e_stop env w = (False, v) \<Longrightarrow> process_cycle env l st v = (Inr (acc, i), st', v') \<Longrightarrow>
     e_stop env v' = (False, v'') \<Longrightarrow> ca_retries acc = [] \<Longrightarrow> ps_pending_keys st' \<noteq> [] \<Longrightarrow>
     service_turn env wait l (st, w) (st', v'')"

text \<open>The stop event was found set: before a cycle, or after one that did not fail.\<close>

inductive service_stop :: "('w, 'z) bl_env_scheme \<Rightarrow> processing_limits \<Rightarrow> processor_state \<times> 'w \<Rightarrow> processor_state \<times> 'w \<Rightarrow> bool"
  for env l where
  before: "e_stop env w = (True, w') \<Longrightarrow> service_stop env l (st, w) (st, w')"
| after: "e_stop env w = (False, v) \<Longrightarrow> process_cycle env l st v = (Inr (acc, i), st', v') \<Longrightarrow>
     e_stop env v' = (True, w') \<Longrightarrow> service_stop env l (st, w) (st', w')"

lemma service_stop_polled: "service_stop env l (st, w) (st', w') \<Longrightarrow> \<exists>v. e_stop env v = (True, w')"
  by (auto elim: service_stop.cases)

text \<open>A turn of the loop that the invariant holds in ends in a turn or a stop, never in an exception.\<close>

lemma run_iteration_turn:
  assumes "client_errors env" and "proc_inv env l st" and "e_stop env w = (False, v)"
  shows "case run_iteration env wait l st v of
      (Inl e, _) \<Rightarrow> False
    | (Inr True, st', w') \<Rightarrow> service_turn env wait l (st, w) (st', w') \<and> proc_inv env l st'
    | (Inr False, st', w') \<Rightarrow> service_stop env l (st, w) (st', w') \<and> proc_inv env l st'"
proof -
  obtain r st' v' where c: "process_cycle env l st v = (r, st', v')" using prod_cases3 by blast
  note inv = process_cycle_inv [OF assms(1,2) c]
  show ?thesis
  proof (cases r)
    case (Inl e)
    then show ?thesis using c inv service_turn.failed [OF assms(3) c [unfolded Inl]] by (auto simp: run_iteration_def)
  next
    case (Inr x)
    obtain acc i where x: "x = (acc, i)" by (cases x)
    obtain stop v'' where s: "e_stop env v' = (stop, v'')" by (cases "e_stop env v'")
    note c' = c [unfolded Inr x]
    show ?thesis
    proof (cases stop)
      case True
      then show ?thesis using c' s inv service_stop.after [OF assms(3) c'] by (simp add: run_iteration_def)
    next
      case False
      then show ?thesis
        using c' s inv service_turn.retried [OF assms(3) c'] service_turn.idle [OF assms(3) c'] service_turn.busy [OF assms(3) c']
        by (simp add: run_iteration_def)
    qed
  qed
qed

lemma run_loop_turns:
  assumes ce: "client_errors env"
  shows "proc_inv env l st \<Longrightarrow> run_loop env wait l fuel st w = (res, st', w') \<Longrightarrow>
     proc_inv env l st' \<and>
     (case res of
        None \<Rightarrow> (service_turn env wait l ^^ fuel) (st, w) (st', w')
      | Some r \<Rightarrow> r = Inr 0 \<and> (\<exists>n < fuel. \<exists>s. (service_turn env wait l ^^ n) (st, w) s \<and> service_stop env l s (st', w')))"
proof (induction fuel arbitrary: st w)
  case (Suc fuel)
  obtain stop v where s: "e_stop env w = (stop, v)" by fastforce
  have now: "\<exists>n < Suc fuel. \<exists>s. (service_turn env wait l ^^ n) (st, w) s \<and> service_stop env l s x"
    if "service_stop env l (st, w) x" for x
    using that by (intro exI [of _ 0] conjI exI [of _ "(st, w)"]) simp_all
  show ?case
  proof (cases stop)
    case True
    then have "service_stop env l (st, w) (st, v)" using s by (simp add: service_stop.before)
    moreover have "res = Some (Inr 0)" "st' = st" "w' = v" using Suc.prems(2) s True by auto
    ultimately show ?thesis using now Suc.prems(1) by (simp del: split_paired_Ex)
  next
    case False
    obtain r st2 v2 where i: "run_iteration env wait l st v = (r, st2, v2)" using prod_cases3 by blast
    have "e_stop env w = (False, v)" using s False by simp
    note t = run_iteration_turn [OF ce Suc.prems(1) this, of wait, unfolded i]
    obtain b where r: "r = Inr b" using t by (cases r) auto
    show ?thesis
    proof (cases b)
      case True
      have turn: "service_turn env wait l (st, w) (st2, v2)" and inv: "proc_inv env l st2" using t r True by auto
      have run: "run_loop env wait l fuel st2 v2 = (res, st', w')" using Suc.prems(2) s \<open>\<not> stop\<close> i r True by simp
      note IH = Suc.IH [OF inv run]
      have more: "(service_turn env wait l ^^ Suc n) (st, w) s" if "(service_turn env wait l ^^ n) (st2, v2) s" for n s
        by (rule relpowp_Suc_I2 [where P = "service_turn env wait l", OF turn that])
      show ?thesis
      proof (cases res)
        case None
        then show ?thesis using IH more by simp
      next
        case (Some x)
        then obtain n s where "n < fuel" "(service_turn env wait l ^^ n) (st2, v2) s" "service_stop env l s (st', w')"
          and x: "x = Inr 0"
          using IH by auto
        then have "Suc n < Suc fuel \<and> (service_turn env wait l ^^ Suc n) (st, w) s \<and> service_stop env l s (st', w')"
          using more by blast
        then have "\<exists>n < Suc fuel. \<exists>s. (service_turn env wait l ^^ n) (st, w) s \<and> service_stop env l s (st', w')" by blast
        then show ?thesis unfolding Some option.case using x conjunct1 [OF IH] by (intro conjI)
      qed
    next
      case False
      have stopped: "service_stop env l (st, w) (st2, v2)" and inv: "proc_inv env l st2" using t r False by auto
      have "res = Some (Inr 0)" "st' = st2" "w' = v2" using Suc.prems(2) s \<open>\<not> stop\<close> i r False by auto
      then show ?thesis using now [OF stopped] inv by (simp del: split_paired_Ex)
    qed
  qed
qed simp


section \<open>No edge is lost\<close>

text \<open>
  The two stores as the code relies on them: \<open>V\<close> views the MongoDB documents, \<open>R\<close> the Redis sets.
  Reads change nothing, \<open>SREM\<close> removes at most the named members of the named key, a MongoDB
  write, whether or not it succeeds, removes no link and leaves Redis alone.
\<close>

definition grows :: "('w \<Rightarrow> pystr \<Rightarrow> pystr \<Rightarrow> doc option) \<Rightarrow> 'w \<Rightarrow> 'w \<Rightarrow> bool" where
  "grows V w w' \<longleftrightarrow>
     (\<forall>t. set (links_of (V w BACKLINKS_COLLECTION t)) \<subseteq> set (links_of (V w' BACKLINKS_COLLECTION t)))"

definition untouched ::
    "('w \<Rightarrow> pystr \<Rightarrow> pystr \<Rightarrow> doc option) \<Rightarrow> ('w \<Rightarrow> bytes \<Rightarrow> bytes set) \<Rightarrow> 'w \<Rightarrow> 'w \<Rightarrow> bool" where
  "untouched V R w w' \<longleftrightarrow> V w' = V w \<and> R w' = R w"

definition stores_documented ::
    "('w, 'z) bl_env_scheme \<Rightarrow> ('w \<Rightarrow> pystr \<Rightarrow> pystr \<Rightarrow> doc option) \<Rightarrow> ('w \<Rightarrow> bytes \<Rightarrow> bytes set) \<Rightarrow> bool" where
  "stores_documented env V R \<longleftrightarrow>
     mongo_documented (e_mongo env) V \<and>
     (\<forall>c p n. keeps (untouched V R) (redis_scan (e_redis env) c p n)) \<and>
     (\<forall>k. keeps (untouched V R) (redis_type (e_redis env) k)) \<and>
     (\<forall>k c n. keeps (untouched V R) (redis_sscan (e_redis env) k c n)) \<and>
     (\<forall>w b w'. e_stop env w = (b, w') \<longrightarrow> untouched V R w w') \<and>
     (\<forall>k ms. keeps (\<lambda>w w'. V w' = V w \<and> (\<forall>k'. R w k' - (if k' = k then set ms else {}) \<subseteq> R w' k'))
        (redis_srem (e_redis env) k ms)) \<and>
     (\<forall>c f. keeps (untouched V R) (mongo_find_one (e_mongo env) c f)) \<and>
     (\<forall>c d. keeps (\<lambda>w w'. R w' = R w \<and> grows V w w') (mongo_insert_one (e_mongo env) c d)) \<and>
     (\<forall>c t d us. keeps (\<lambda>w w'. R w' = R w \<and> grows V w w')
        (mongo_bulk_write (e_mongo env) c
          [\<lparr>uo_filter = root_selector t d, uo_update = add_to_set_update t us, uo_upsert = False\<rparr>]))"

text \<open>The edge of the member \<open>m\<close> of the set \<open>k\<close> is stored.\<close>

definition edge_stored ::
    "('w, 'z) bl_env_scheme \<Rightarrow> ('w \<Rightarrow> pystr \<Rightarrow> pystr \<Rightarrow> doc option) \<Rightarrow> 'w \<Rightarrow> bytes \<Rightarrow> bytes \<Rightarrow> bool" where
  "edge_stored env V w k m \<longleftrightarrow>
     (\<exists>t. parse_backlink_key env k = Inr t \<and> m \<in> set (links_of (V w BACKLINKS_COLLECTION t)))"

definition edges_kept ::
    "('w, 'z) bl_env_scheme \<Rightarrow> ('w \<Rightarrow> pystr \<Rightarrow> pystr \<Rightarrow> doc option) \<Rightarrow> ('w \<Rightarrow> bytes \<Rightarrow> bytes set) \<Rightarrow> 'w \<Rightarrow> 'w \<Rightarrow> bool" where
  "edges_kept env V R w w' \<longleftrightarrow> grows V w w' \<and>
     (\<forall>k. \<forall>m \<in> R w k. m \<in> R w' k \<or> edge_stored env V w' k m)"

interpretation edges: world_relation "edges_kept env V R" for env V R
proof unfold_locales
  show "edges_kept env V R w w" for w by (simp add: edges_kept_def grows_def)
  fix u v w assume uv: "edges_kept env V R u v" and vw: "edges_kept env V R v w"
  have "edge_stored env V v k m \<Longrightarrow> edge_stored env V w k m" for k m
    using vw unfolding edges_kept_def grows_def edge_stored_def by blast
  moreover have "grows V u w" using uv vw unfolding edges_kept_def grows_def by blast
  ultimately show "edges_kept env V R u w" using uv vw unfolding edges_kept_def by blast
qed

interpretation cycle_edges: world_relation "\<lambda>c c'. edges_kept env V R (cy_ext c) (cy_ext c')" for env V R
  by unfold_locales (auto intro: edges.rel_refl edges.rel_trans)

lemma untouched_edges: "untouched V R w w' \<Longrightarrow> edges_kept env V R w w'"
  by (simp add: untouched_def edges_kept_def grows_def)

lemma keeps_mono: "keeps rel m \<Longrightarrow> (\<And>w w'. rel w w' \<Longrightarrow> rel' w w') \<Longrightarrow> keeps rel' m"
  by (auto simp: keeps_def)

lemma keeps_on_ext: "keeps (edges_kept env V R) m \<Longrightarrow> keeps (\<lambda>c c'. edges_kept env V R (cy_ext c) (cy_ext c')) (on_ext m)"
  by (auto simp: keeps_def on_ext_def split: prod.splits)

lemma keeps_on_st:
  "keeps (\<lambda>c c'. edges_kept env V R (cy_ext c) (cy_ext c')) (on_st f)"
  "keeps (\<lambda>c c'. edges_kept env V R (cy_ext c) (cy_ext c')) (on_acc g)"
  "keeps (\<lambda>c c'. edges_kept env V R (cy_ext c) (cy_ext c')) (count_rejection r)"
  "keeps (\<lambda>c c'. edges_kept env V R (cy_ext c) (cy_ext c')) (count_retry r)"
  by (auto simp: keeps_def on_st_def on_acc_def count_rejection_def count_retry_def edges.rel_refl)

lemma stores_documentedD:
  assumes "stores_documented env V R"
  shows "mongo_documented (e_mongo env) V"
    and "keeps (edges_kept env V R) (redis_scan (e_redis env) c p n)"
    and "keeps (edges_kept env V R) (redis_type (e_redis env) k)"
    and "keeps (edges_kept env V R) (redis_sscan (e_redis env) k c n)"
    and "keeps (edges_kept env V R) (stop_is_set env)"
    and "keeps (\<lambda>w w'. V w' = V w \<and> (\<forall>k'. R w k' - (if k' = k then set ms else {}) \<subseteq> R w' k'))
           (redis_srem (e_redis env) k ms)"
    and "keeps (edges_kept env V R) (mongo_find_one (e_mongo env) cl f)"
    and "keeps (edges_kept env V R) (mongo_insert_one (e_mongo env) cl d)"
    and "keeps (edges_kept env V R) (mongo_bulk_write (e_mongo env) cl
          [\<lparr>uo_filter = root_selector t d, uo_update = add_to_set_update t us, uo_upsert = False\<rparr>])"
proof -
  note d = assms [unfolded stores_documented_def]
  have w: "R w' = R w \<and> grows V w w' \<Longrightarrow> edges_kept env V R w w'" for w w'
    by (simp add: edges_kept_def)
  show "mongo_documented (e_mongo env) V"
    and "keeps (\<lambda>w w'. V w' = V w \<and> (\<forall>k'. R w k' - (if k' = k then set ms else {}) \<subseteq> R w' k'))
           (redis_srem (e_redis env) k ms)"
    using d by blast+
  show "keeps (edges_kept env V R) (redis_scan (e_redis env) c p n)"
    by (rule keeps_mono [OF _ untouched_edges]) (use d in blast)
  show "keeps (edges_kept env V R) (redis_type (e_redis env) k)"
    by (rule keeps_mono [OF _ untouched_edges]) (use d in blast)
  show "keeps (edges_kept env V R) (redis_sscan (e_redis env) k c n)"
    by (rule keeps_mono [OF _ untouched_edges]) (use d in blast)
  show "keeps (edges_kept env V R) (mongo_find_one (e_mongo env) cl f)"
    by (rule keeps_mono [OF _ untouched_edges]) (use d in blast)
  show "keeps (edges_kept env V R) (mongo_insert_one (e_mongo env) cl d)"
    by (rule keeps_mono [OF _ w]) (use d in blast)
  show "keeps (edges_kept env V R) (mongo_bulk_write (e_mongo env) cl
          [\<lparr>uo_filter = root_selector t d, uo_update = add_to_set_update t us, uo_upsert = False\<rparr>])"
    by (rule keeps_mono [OF _ w]) (use d in blast)
  have "\<forall>w b w'. e_stop env w = (b, w') \<longrightarrow> untouched V R w w'" using d by blast
  then show "keeps (edges_kept env V R) (stop_is_set env)"
    by (auto simp: keeps_def stop_is_set_def untouched_edges split: prod.splits)
qed

lemma keeps_scans:
  assumes "stores_documented env V R"
  shows "keeps (edges_kept env V R) (scan_backlink_keys env c n m)"
    and "keeps (edges_kept env V R) (scan_backlink_members env k c n m)"
  using stores_documentedD(2-4) [OF assms]
  unfolding scan_backlink_keys_def scan_backlink_members_def
  by (auto intro!: edges.keeps_rules split: exn.splits prod.splits)

lemma keeps_add_backlinks:
  assumes "stores_documented env V R"
  shows "keeps (edges_kept env V R) (add_backlinks env t srcs mm mb md)"
  using stores_documentedD(7-9) [OF assms]
  unfolding add_backlinks_def Let_def write_insert_def write_update_def
  by (auto intro!: edges.keeps_rules split: option.splits)

text \<open>The batches of the processor: the members are the raw members of the key they came from.\<close>

definition batch_ok :: "('w, 'z) bl_env_scheme \<Rightarrow> backlink_batch \<Rightarrow> bool" where
  "batch_ok env b \<longleftrightarrow> parse_backlink_key env (bb_redis_key b) = Inr (bb_target_url b) \<and>
     list_all (member_ok env) (bb_members b)"

lemma member_ok_url: "member_ok env m \<Longrightarrow> bm_url m = bm_raw m"
  using parse_backlink_memberD [of env "bm_raw m" m] by (simp add: member_ok_def)

lemma batch_urls: "batch_ok env b \<Longrightarrow> map bm_url (bb_members b) = map bm_raw (bb_members b)"
  by (auto simp: batch_ok_def list_all_iff member_ok_url)

lemma add_backlinks_stored:
  assumes "mongo_documented (e_mongo env) V" and "add_backlinks env t srcs mm mb md w = (Inr u, w')"
  shows "set srcs \<subseteq> set (links_of (V w' BACKLINKS_COLLECTION t))"
proof -
  obtain d where "V w' = (V w)(BACKLINKS_COLLECTION := (V w BACKLINKS_COLLECTION)(t \<mapsto> d))"
    and "existing_links (Some d) = Inr (links_of (V w BACKLINKS_COLLECTION t) @
              filter (\<lambda>s. s \<notin> set (links_of (V w BACKLINKS_COLLECTION t))) (sorted_set srcs))"
    using add_backlinks_stores_projection [OF assms] by blast
  then show ?thesis by (auto simp: links_of_existing)
qed

lemma keeps_process_batch:
  assumes sd: "stores_documented env V R" and ok: "batch_ok env b"
  shows "keeps (edges_kept env V R) (process_batch env b mm mb md)"
proof -
  let ?ms = "map bm_raw (bb_members b)" and ?t = "bb_target_url b" and ?k = "bb_redis_key b"
  have srem: "edges_kept env V R v v'"
    if "set ?ms \<subseteq> set (links_of (V v BACKLINKS_COLLECTION ?t))" "srem_backlink_members env ?k ?ms v = (r, v')" for v r v'
  proof (cases "?ms = []")
    case True
    then show ?thesis using that(2) by (simp add: srem_backlink_members_def edges.rel_refl)
  next
    case False
    then have "V v' = V v \<and> (\<forall>k'. R v k' - (if k' = ?k then set ?ms else {}) \<subseteq> R v' k')"
      using that(2) by (intro keepsD [OF stores_documentedD(6) [OF sd]]) (simp add: srem_backlink_members_def)
    moreover have "edge_stored env V v ?k m" if "m \<in> set ?ms" for m
      using that \<open>set ?ms \<subseteq> _\<close> ok by (auto simp: edge_stored_def batch_ok_def)
    moreover have "edge_stored env V v' = edge_stored env V v" if "V v' = V v"
      using that by (simp add: edge_stored_def fun_eq_iff)
    ultimately have "grows V v v'" and "x \<in> R v k \<Longrightarrow> x \<in> R v' k \<or> edge_stored env V v' k x" for k x
      by (auto simp: grows_def) (cases "k = ?k"; force)
    then show ?thesis by (auto simp: edges_kept_def)
  qed
  show ?thesis
    unfolding keeps_def
  proof (intro allI impI)
    fix w r w' assume run: "process_batch env b mm mb md w = (r, w')"
    obtain o1 v where add: "add_backlinks env ?t (map bm_url (bb_members b)) mm mb md w = (o1, v)"
      by fastforce
    then have first: "edges_kept env V R w v" by (rule keepsD [OF keeps_add_backlinks [OF sd]])
    show "edges_kept env V R w w'"
    proof (cases o1)
      case (Inl e)
      then have "w' = v" using run add by (auto simp: process_batch_def Let_def bind_eq attempt_def split: option.splits)
      then show ?thesis using first by simp
    next
      case (Inr u)
      obtain r2 v2 where s: "srem_backlink_members env ?k ?ms v = (r2, v2)" by fastforce
      then have "v2 = w'"
        using run add Inr by (cases r2) (simp_all add: process_batch_def Let_def bind_eq attempt_def split: if_splits)
      then have "srem_backlink_members env ?k ?ms v = (r2, w')" using s by simp
      moreover have "set ?ms \<subseteq> set (links_of (V v BACKLINKS_COLLECTION ?t))"
        using add_backlinks_stored [OF stores_documentedD(1) [OF sd] add [unfolded Inr]] batch_urls [OF ok] by simp
      ultimately have "edges_kept env V R v w'" by (intro srem)
      with first show ?thesis by (rule edges.rel_trans)
    qed
  qed
qed

lemma keeps_drain_target:
  assumes sd: "stores_documented env V R" and parse: "parse_backlink_key env key = Inr t"
  shows "keeps (\<lambda>c c'. edges_kept env V R (cy_ext c) (cy_ext c')) (drain_target env l key t)"
proof -
  have batch: "keeps (edges_kept env V R) (process_batch env
      \<lparr>bb_redis_key = key, bb_target_url = t, bb_members = adm, bb_encoded_url_bytes = nb\<rparr> mm mb md)"
    if "admit_members env l 0 [] 0 [] ps = (adm, rj, rest)" for adm nb mm mb md ps rj rest
    using admit_from_buffer(2) [OF that] parse
    by (intro keeps_process_batch [OF sd]) (simp add: batch_ok_def within_limits_def)
  have settle: "keeps (\<lambda>c c'. edges_kept env V R (cy_ext c) (cy_ext c')) (settle_batch key ms r)" for ms r
    unfolding settle_batch_def
    by (cases "res_status r") (auto intro!: cycle_edges.keeps_rules keeps_on_st)
  show ?thesis
    unfolding drain_target_def
    by (auto intro!: cycle_edges.keeps_rules keeps_on_st keeps_on_ext settle batch
        stores_documentedD(5) [OF sd] split: prod.splits)
qed

lemma keeps_scan_target:
  assumes sd: "stores_documented env V R"
  shows "keeps (\<lambda>c c'. edges_kept env V R (cy_ext c) (cy_ext c')) (scan_target env l key)"
proof -
  have "keeps (\<lambda>c c'. edges_kept env V R (cy_ext c) (cy_ext c')) (fetch_page env l key cur)" for cur
    unfolding fetch_page_def
    by (auto intro!: cycle_edges.keeps_rules keeps_on_ext keeps_scans [OF sd])
  moreover have "keeps (\<lambda>c c'. edges_kept env V R (cy_ext c) (cy_ext c')) (page_failure key e)" for e
    unfolding page_failure_def
    by (cases e) (auto intro!: cycle_edges.keeps_rules keeps_on_st)
  ultimately show ?thesis
    unfolding scan_target_def Let_def
    by (auto intro!: cycle_edges.keeps_rules keeps_on_st split: sum.splits)
qed

lemma keeps_visit_target:
  assumes sd: "stores_documented env V R"
  shows "keeps (\<lambda>c c'. edges_kept env V R (cy_ext c) (cy_ext c')) (visit_target env l)"
proof -
  let ?rel = "\<lambda>c c'. edges_kept env V R (cy_ext c) (cy_ext c')"
  have next_key: "keeps ?rel next_key"
    unfolding next_key_def by (auto intro!: cycle_edges.keeps_rules keeps_on_st split: list.splits)
  have settle: "keeps ?rel (settle_target key n)" for key n
    unfolding settle_target_def by (auto intro!: cycle_edges.keeps_rules keeps_on_st)
  have visit: "keeps ?rel (bind (on_st (f key)) (\<lambda>_. bind (get_state (g key)) (\<lambda>previous_bytes.
         bind (scan_target env l key) (\<lambda>proceed.
         if \<not> proceed then ret ()
         else bind (drain_target env l key t) (\<lambda>_. settle_target key previous_bytes)))))"
    if "parse_backlink_key env key = Inr t" for key t f g
    by (auto intro!: cycle_edges.keeps_rules keeps_on_st keeps_scan_target [OF sd] settle
        keeps_drain_target [OF sd that])
  show ?thesis
    unfolding visit_target_def
    by (rule cycle_edges.keeps_bind [OF next_key], rule cycle_edges.keeps_bind [OF keeps_on_st(2)])
      (auto intro!: cycle_edges.keeps_rules keeps_on_st visit split: sum.splits exn.splits)
qed

lemma keeps_cycle_body:
  assumes sd: "stores_documented env V R"
  shows "keeps (\<lambda>c c'. edges_kept env V R (cy_ext c) (cy_ext c')) (cycle_body env l)"
proof -
  let ?rel = "\<lambda>c c'. edges_kept env V R (cy_ext c) (cy_ext c')"
  note rules = cycle_edges.keeps_rules keeps_on_st keeps_on_ext stores_documentedD(5) [OF sd]
  have fill: "keeps ?rel (fill_pending_keys env l n)" for n
    by (induction n) (auto intro!: rules keeps_scans [OF sd])
  have visit: "keeps ?rel (visit_targets env l n)" for n
    by (induction n) (auto intro!: rules keeps_visit_target [OF sd])
  have "keeps ?rel (fill_failure e)" for e
    unfolding fill_failure_def by (cases e) (auto intro!: rules)
  then show ?thesis
    unfolding cycle_body_def fill_or_count_def by (intro rules fill visit)
qed

lemma process_cycle_edges:
  assumes "stores_documented env V R" and "process_cycle env l st w = (r, st', w')"
  shows "edges_kept env V R w w'"
  using keeps_cycle_body [OF assms(1), of l] assms(2)
  by (fastforce simp: process_cycle_def keeps_def split: prod.splits)

lemma run_loop_edges:
  assumes sd: "stores_documented env V R" and wait: "\<And>s w. untouched V R w (wait s w)"
  shows "run_loop env wait l fuel st w = (res, st', w') \<Longrightarrow> edges_kept env V R w w'"
proof (induction fuel arbitrary: st w)
  case (Suc fuel)
  obtain stop v where s: "e_stop env w = (stop, v)" by fastforce
  have sv: "edges_kept env V R w v"
    using keepsD [OF stores_documentedD(5) [OF sd], of w "Inr stop" v] s by (simp add: stop_is_set_def)
  obtain r st2 v2 where i: "run_iteration env wait l st v = (r, st2, v2)" using prod_cases3 by blast
  obtain r0 st0 v0 where c: "process_cycle env l st v = (r0, st0, v0)" using prod_cases3 by blast
  obtain stop0 u0 where s0: "e_stop env v0 = (stop0, u0)" by fastforce
  have u0: "edges_kept env V R v0 u0"
    using keepsD [OF stores_documentedD(5) [OF sd], of v0 "Inr stop0" u0] s0 by (simp add: stop_is_set_def)
  note w0 = untouched_edges [OF wait, of env]
  have "v2 = v0 \<or> v2 = u0 \<or> (\<exists>n. v2 = wait n v0 \<or> v2 = wait n u0)"
    using i c s0 by (auto simp: run_iteration_def split: sum.splits prod.splits if_splits)
  then have "edges_kept env V R v0 v2"
    using u0 w0 edges.rel_trans [OF u0 w0] edges.rel_refl by metis
  then have wv2: "edges_kept env V R w v2"
    using sv process_cycle_edges [OF sd c] edges.rel_trans by metis
  show ?case
  proof (cases stop)
    case True
    then show ?thesis using Suc.prems s sv by simp
  next
    case False
    then have "w' = v2 \<or> (\<exists>stx. run_loop env wait l fuel stx v2 = (res, st', w'))"
      using Suc.prems s i by (auto split: sum.splits if_splits)
    then show ?thesis using wv2 Suc.IH edges.rel_trans [OF wv2] by blast
  qed
qed (simp add: edges.rel_refl)

end
