(* ===== verification/Backlinks_Properties.thy ===== *)
theory Backlinks_Properties
  imports Backlinks_Safety
begin

text \<open>
  The properties of the backlinks processor, with a reference world on which their hypotheses
  hold and on which they are applied to a run.
\<close>

section \<open>A reference world\<close>

text \<open>
  An in-memory Redis beside the in-memory MongoDB, and a stop event that is set after a number
  of polls. It meets the hypotheses and gives the theorems a run to apply to.
\<close>

record mem_world =
  mw_sets :: "(bytes, bytes list) dict"
  mw_docs :: mem_store
  mw_ticks :: nat

definition on_docs :: "(mem_store, 'a) prog \<Rightarrow> (mem_world, 'a) prog" where
  "on_docs m w = (case m (mw_docs w) of (r, d) \<Rightarrow> (r, w\<lparr>mw_docs := d\<rparr>))"

definition set_members :: "mem_world \<Rightarrow> bytes \<Rightarrow> bytes list" where
  "set_members w k = (case map_of (mw_sets w) k of None \<Rightarrow> [] | Some ms \<Rightarrow> ms)"

definition world_env :: "mem_world bl_env" where
  "world_env =
     \<lparr>e_ucd = ascii_ucd, e_idna = no_idna,
      e_redis =
        \<lparr>redis_scan = (\<lambda>_ _ _ w. (Inr (0, map fst (filter (\<lambda>(k, ms). ms \<noteq> []) (mw_sets w))), w)),
         redis_type = (\<lambda>k w. (Inr (if set_members w k = [] then py ''none'' else py ''set''), w)),
         redis_sscan = (\<lambda>k _ _ w. (Inr (0, set_members w k), w)),
         redis_srem = (\<lambda>k ms w. (Inr (length (filter (\<lambda>m. m \<in> set ms) (set_members w k))),
           w\<lparr>mw_sets := AList.update k (filter (\<lambda>m. m \<notin> set ms) (set_members w k)) (mw_sets w)\<rparr>))\<rparr>,
      e_mongo =
        \<lparr>mongo_find_one = (\<lambda>c f. on_docs (mongo_find_one mem_mongo c f)),
         mongo_insert_one = (\<lambda>c d. on_docs (mongo_insert_one mem_mongo c d)),
         mongo_bulk_write = (\<lambda>c ops. on_docs (mongo_bulk_write mem_mongo c ops)),
         mongo_find = (\<lambda>c f p. on_docs (mongo_find mem_mongo c f p)),
         mongo_count = (\<lambda>c f n. on_docs (mongo_count mem_mongo c f n)),
         bson_encode_size = bson_encode_size mem_mongo\<rparr>,
      e_stop = (\<lambda>w. (mw_ticks w = 0, w\<lparr>mw_ticks := mw_ticks w - 1\<rparr>))\<rparr>"

definition world_docs :: "mem_world \<Rightarrow> pystr \<Rightarrow> pystr \<Rightarrow> doc option" where
  "world_docs w = mem_view (mw_docs w)"

definition world_sets :: "mem_world \<Rightarrow> bytes \<Rightarrow> bytes set" where
  "world_sets w k = set (set_members w k)"

definition no_wait :: "nat \<Rightarrow> mem_world \<Rightarrow> mem_world" where
  "no_wait s w = w"

definition sample_world :: mem_world where
  "sample_world = \<lparr>mw_sets = [(py ''backlinks:http://a.b/'', [py ''http://c.d/''])], mw_docs = [], mw_ticks = 6\<rparr>"

lemmas backlinks_cycle_eval [eval_simps] =
  new_target_def new_processor_def on_ext_def on_st_def on_acc_def stop_is_set_def count_rejection_def
  count_retry_def batch_failure_def process_batch_def queue_key_def restore_members_def set_target_def
  pop_target_def target_of_def ts_bytes_def total_bytes_def dict_sum_def scan_byte_limit_def fetch_page_def
  page_failure_def scan_target_def status_name_def reason_of_def settle_batch_def drain_target_def
  settle_target_def next_key_def visit_target_def start_acc_def fill_failure_def fill_or_count_def
  cycle_body_def process_cycle_def run_iteration_def run_processor_def on_docs_def set_members_def
  world_env_def no_wait_def attempt_eq DEFAULT_LIMITS_def

lemmas backlinks_loops_eval [eval_simps] =
  fill_pending_keys.simps(2) [where calls = "pred_numeral k", folded numeral_eq_Suc]
  visit_targets.simps(2) [where n = "pred_numeral k", folded numeral_eq_Suc]
  run_loop.simps(2) [where fuel = "pred_numeral k", folded numeral_eq_Suc] for k

lemma run_sample:
  "run_processor world_env no_wait DEFAULT_LIMITS 2 sample_world =
     (Some (Inr 0), new_processor,
      \<lparr>mw_sets = [(py ''backlinks:http://a.b/'', [])],
       mw_docs = [((BACKLINKS_COLLECTION, py ''http://a.b/''),
         [(py ''_id'', BStr (py ''http://a.b/'')), (py ''links'', BArr [BStr (py ''http://c.d/'')])])],
       mw_ticks = 0\<rparr>)"
  by (simp add: eval_simps sample_world_def)

lemma wp_on_docs: "wp (on_docs m) Q E w = wp m (\<lambda>x d. Q x (w\<lparr>mw_docs := d\<rparr>)) (\<lambda>e d. E e (w\<lparr>mw_docs := d\<rparr>)) (mw_docs w)"
  by (simp add: wp_def on_docs_def split: prod.splits sum.splits)

lemma mem_mongo_errors:
  "wp (mongo_find_one mem_mongo c f) (\<lambda>_ _. True) (\<lambda>e _. is_pymongo_error e) w"
  "wp (mongo_insert_one mem_mongo c d) (\<lambda>_ _. True) (\<lambda>e _. is_pymongo_error e) w"
  "wp (mongo_bulk_write mem_mongo c ops) (\<lambda>_ _. True) (\<lambda>e _. is_pymongo_error e) w"
  by (auto simp: wp_def mem_mongo_def mem_update_one_def split: option.splits list.splits prod.splits)

lemma world_env_errors: "client_errors world_env"
  unfolding client_errors_def world_env_def
  by (intro conjI allI) (simp_all add: wp_on_docs mem_mongo_errors, simp_all add: wp_def mem_mongo_def)

lemma mem_insert_view:
  "mongo_insert_one mem_mongo c d w = (r, w') \<Longrightarrow>
     w' = w \<or> (\<exists>t. mem_view w c t = None \<and> mem_view w' = (mem_view w)(c := (mem_view w c)(t \<mapsto> d)))"
  by (auto simp: mem_mongo_def mem_view_update mem_view_def split: option.splits if_splits)

lemma mem_insert_grows: "keeps (grows mem_view) (mongo_insert_one mem_mongo c d)"
  unfolding keeps_def grows_def
  by (auto dest!: mem_insert_view simp: links_of_def existing_links_def)

lemma mem_update_view:
  "mongo_bulk_write mem_mongo c [\<lparr>uo_filter = root_selector t d, uo_update = add_to_set_update t us, uo_upsert = b\<rparr>] w = (r, w') \<Longrightarrow>
     w' = w \<or> mem_view w c t = Some d \<and>
     mem_view w' = (mem_view w)(c := (mem_view w c)(t \<mapsto> AList.update (py ''links'')
        (BArr (map BStr (add_each (links_of (Some d)) us))) d))"
  by (auto simp: mem_mongo_def mem_update_one_def mem_view_update mem_view_def split: if_splits)

lemma links_of_update: "links_of (Some (AList.update (py ''links'') (BArr (map BStr l)) d)) = l"
  by (simp add: links_of_def existing_links_def update_conv)

lemma mem_update_grows:
  "keeps (grows mem_view) (mongo_bulk_write mem_mongo c
     [\<lparr>uo_filter = root_selector t d, uo_update = add_to_set_update t us, uo_upsert = b\<rparr>])"
  unfolding keeps_def grows_def
  by (auto dest!: mem_update_view simp: links_of_update)

lemma on_docsD: "on_docs m w = (r, w') \<Longrightarrow> m (mw_docs w) = (r, mw_docs w') \<and> mw_sets w' = mw_sets w"
  by (auto simp: on_docs_def split: prod.splits)

lemma world_mongo [simp]:
  "mongo_find_one (e_mongo world_env) c f = on_docs (mongo_find_one mem_mongo c f)"
  "mongo_insert_one (e_mongo world_env) c d = on_docs (mongo_insert_one mem_mongo c d)"
  "mongo_bulk_write (e_mongo world_env) c ops = on_docs (mongo_bulk_write mem_mongo c ops)"
  "mongo_find (e_mongo world_env) c f p = on_docs (mongo_find mem_mongo c f p)"
  "mongo_count (e_mongo world_env) c f n = on_docs (mongo_count mem_mongo c f n)"
  by (simp_all add: world_env_def)

lemma world_find_documented: "find_documented (e_mongo world_env) world_docs"
  using mem_find_documented unfolding find_documented_def world_mongo world_docs_def
  by (fastforce dest!: on_docsD)

lemma world_mongo_documented: "mongo_documented (e_mongo world_env) world_docs"
  unfolding mongo_documented_def bulk_documented_def
  unfolding world_mongo world_docs_def
  by (intro conjI allI impI world_find_documented [unfolded world_docs_def])
    (auto dest!: on_docsD dest: mongo_find_oneD [OF mem_mongo_documented] mongo_insert_oneD [OF mem_mongo_documented]
      mongo_bulk_writeD [OF mem_mongo_documented] mongo_countD [OF mem_mongo_documented, simplified])

lemma keeps_on_docs:
  assumes "keeps (grows mem_view) m"
  shows "keeps (\<lambda>w w'. world_sets w' = world_sets w \<and> grows world_docs w w') (on_docs m)"
  using assms by (fastforce simp: keeps_def grows_def world_docs_def world_sets_def set_members_def dest!: on_docsD)

lemma world_env_stores: "stores_documented world_env world_docs world_sets"
proof -
  have find: "keeps (untouched world_docs world_sets) (on_docs (mongo_find_one mem_mongo c f))" for c f
    by (auto simp: keeps_def untouched_def world_docs_def world_sets_def set_members_def mem_mongo_def on_docs_def)
  show ?thesis
    unfolding stores_documented_def
    using world_mongo_documented find keeps_on_docs [OF mem_insert_grows] keeps_on_docs [OF mem_update_grows]
    apply (intro conjI allI impI)
    apply (simp_all)
    by (auto simp: world_env_def keeps_def untouched_def world_docs_def world_sets_def set_members_def update_conv')
qed

section \<open>Properties\<close>

text \<open>
  C1. No edge is lost. Over any run of the service, through every retry, rejection and failed
  cycle, a member that is no longer in its Redis set has its edge stored in MongoDB, under the
  target its key names.
\<close>

theorem run_processor_keeps_edges:
  assumes "stores_documented env V R" and "\<And>s w. untouched V R w (wait s w)"
    and "run_processor env wait l fuel w = (res, st', w')"
    and "m \<in> R w k" and "m \<notin> R w' k"
  shows "\<exists>t. parse_backlink_key env k = Inr t \<and> m \<in> set (links_of (V w' BACKLINKS_COLLECTION t))"
  using run_loop_edges [where wait = wait, OF assms(1,2), where l = l and fuel = fuel and st = new_processor and w = w] assms(3-)
  by (auto simp: run_processor_def edges_kept_def edge_stored_def)

theorem run_processor_keeps_edges_witness:
  "\<exists>t. parse_backlink_key world_env (py ''backlinks:http://a.b/'') = Inr t \<and>
     py ''http://c.d/'' \<in> set (links_of (world_docs
       \<lparr>mw_sets = [(py ''backlinks:http://a.b/'', [])],
        mw_docs = [((BACKLINKS_COLLECTION, py ''http://a.b/''),
          [(py ''_id'', BStr (py ''http://a.b/'')), (py ''links'', BArr [BStr (py ''http://c.d/'')])])],
        mw_ticks = 0\<rparr> BACKLINKS_COLLECTION t))"
  by (rule run_processor_keeps_edges [OF world_env_stores _ run_sample])
    (simp_all add: untouched_def no_wait_def world_sets_def set_members_def sample_world_def)

text \<open>
  C3. A cycle preserves the processor invariant, also when it fails, and the only exceptions it
  raises are those of Redis: the queue holds each key once and at most
  \<open>max_pending_target_keys\<close>, the buffers hold at most \<open>max_pending_member_bytes\<close>, every buffered
  target is queued, and a target that waits for buffer space is queued and will scan.
\<close>

theorem process_cycle_invariant:
  assumes "client_errors env" and "proc_inv env l st" and "process_cycle env l st w = (r, st', w')"
  shows "proc_inv env l st' \<and> (\<forall>e. r = Inl e \<longrightarrow> is_redis_error e)"
  using process_cycle_inv [OF assms] by blast

lemma cycle_sample:
  "\<exists>r w'. process_cycle world_env DEFAULT_LIMITS new_processor sample_world = (r, new_processor, w')"
  by (simp add: eval_simps sample_world_def)

theorem process_cycle_invariant_witness:
  "\<exists>r w'. process_cycle world_env DEFAULT_LIMITS new_processor sample_world = (r, new_processor, w') \<and>
     proc_inv world_env DEFAULT_LIMITS new_processor \<and> (\<forall>e. r = Inl e \<longrightarrow> is_redis_error e)"
  using cycle_sample process_cycle_invariant [OF world_env_errors proc_inv_new [of world_env DEFAULT_LIMITS]]
  by blast

text \<open>
  C4. The service loop ends only on its stop event, with exit code 0: the last thing it did was to poll the event and find it
  set, before a cycle or after one that did not fail. Until then, and as long as it runs, it makes the turns of
  \<open>service_turn\<close>, in which a datastore failure is followed by the retry backoff and never ends it, and its state
  satisfies the invariant.
\<close>

theorem run_processor_exit:
  assumes "client_errors env" and "run_processor env wait l fuel w = (res, st', w')"
  shows "proc_inv env l st' \<and>
    (case res of
       None \<Rightarrow> (service_turn env wait l ^^ fuel) (new_processor, w) (st', w')
     | Some r \<Rightarrow> r = Inr 0 \<and> (\<exists>v. e_stop env v = (True, w')) \<and>
         (\<exists>n < fuel. \<exists>s. (service_turn env wait l ^^ n) (new_processor, w) s \<and> service_stop env l s (st', w')))"
proof -
  note t = run_loop_turns [OF assms(1) proc_inv_new assms(2) [unfolded run_processor_def]]
  show ?thesis
  proof (cases res)
    case None
    then show ?thesis using t by simp
  next
    case (Some r)
    then obtain n st v where s: "r = Inr 0" "n < fuel" "(service_turn env wait l ^^ n) (new_processor, w) (st, v)"
      "service_stop env l (st, v) (st', w')"
      using t by auto
    then have "\<exists>n < fuel. \<exists>s. (service_turn env wait l ^^ n) (new_processor, w) s \<and> service_stop env l s (st', w')" by blast
    then show ?thesis unfolding Some option.case using s(1) service_stop_polled [OF s(4)] conjunct1 [OF t] by (intro conjI)
  qed
qed

theorem run_processor_exit_witness:
  "\<exists>w' v n s. run_processor world_env no_wait DEFAULT_LIMITS 2 sample_world = (Some (Inr 0), new_processor, w') \<and>
     e_stop world_env v = (True, w') \<and> n < 2 \<and>
     (service_turn world_env no_wait DEFAULT_LIMITS ^^ n) (new_processor, sample_world) s \<and>
     service_stop world_env DEFAULT_LIMITS s (new_processor, w')"
proof -
  obtain w' where run: "run_processor world_env no_wait DEFAULT_LIMITS 2 sample_world = (Some (Inr 0), new_processor, w')"
    using run_sample by blast
  from run_processor_exit [OF world_env_errors run] run show ?thesis unfolding option.case by blast
qed

text \<open>
  Admission uses a prefix of the buffer, never empty when the buffer is not: the used members
  are the admitted ones and the rejected ones, interleaved in order, and each rejection is
  counted once. The admitted members parse, and their number and bytes are within the limits of
  an acknowledged batch.
\<close>

theorem admit_members_batch:
  assumes "limits_ok l" and "admit_members env l 0 [] 0 [] ps = (adm, rj, rest)"
  shows "(\<exists>used dropped. ps = used @ rest \<and> used \<in> shuffles (map bm_raw adm) dropped \<and>
            counter_total rj = length dropped \<and> length used \<le> max_members_per_target_per_cycle l \<and>
            (used = [] \<longleftrightarrow> ps = [])) \<and>
         (\<forall>m \<in> set adm. parse_backlink_member env (bm_raw m) = Inr m) \<and>
         length adm \<le> max_members_per_ack_batch l \<and>
         sum_list (map (length \<circ> bm_raw) adm) \<le> max_ack_batch_url_bytes l"
proof -
  obtain used dropped where u: "ps = used @ rest" "used \<in> shuffles (map bm_raw adm) dropped"
    "counter_total rj = length dropped" "length used \<le> max_members_per_target_per_cycle l"
    using admit_from_buffer(1) [OF assms(2)] by (auto simp: admission_def counter_total_def)
  have "used = [] \<longleftrightarrow> ps = []"
    using u(1) admit_members_progress [OF assms(1)] assms(2) by (cases ps) fastforce+
  then show ?thesis
    using u admit_from_buffer(2) [OF assms(2)]
    by (auto simp: within_limits_def list_all_iff member_ok_def raw_bytes_def)
qed

lemma admit_sample:
  "admit_members world_env DEFAULT_LIMITS 0 [] 0 [] [py ''http://a.b/'', py ''bad'', py ''http://c.d/''] =
     ([\<lparr>bm_raw = py ''http://a.b/'', bm_url = py ''http://a.b/''\<rparr>, \<lparr>bm_raw = py ''http://c.d/'', bm_url = py ''http://c.d/''\<rparr>],
      [(''member_url_noncanonical'', 1)], [])"
  by (simp add: eval_simps counter_add_def)

theorem admit_members_batch_witness:
  "\<exists>used dropped. [py ''http://a.b/'', py ''bad'', py ''http://c.d/''] = used \<and>
     used \<in> shuffles [py ''http://a.b/'', py ''http://c.d/''] dropped \<and> length dropped = 1"
  using admit_members_batch [OF DEFAULT_LIMITS_ok admit_sample] by (auto simp: counter_total_def)

end
