(* ===== verification/Backlinks_Reconcile.thy ===== *)
theory Backlinks_Reconcile
  imports Backlinks_Stores
begin

text \<open>
  The reconciliation of the reverse edges: \<^verbatim>\<open>services/backlinks-processor/reconcile.py\<close>.

  The generators of the code are what they yield and the exception they end with, like a cursor;
  a loop over a generator runs its body on every yielded edge before that exception is raised.
  The theorems: a report counts no missing edge exactly when every outlink has its reverse edge,
  \<open>--apply\<close> makes that so, and without it nothing is written.
\<close>

section \<open>Generators\<close>

type_synonym 'a generator = "'a list \<times> exn option"

primrec run_items :: "('a \<Rightarrow> 's \<Rightarrow> ('w, 's) prog) \<Rightarrow> 'a list \<Rightarrow> 's \<Rightarrow> ('w, 's) prog" where
  "run_items body [] s = ret s"
| "run_items body (x # xs) s = bind (body x s) (run_items body xs)"

definition for_each :: "'a generator \<Rightarrow> ('a \<Rightarrow> 's \<Rightarrow> ('w, 's) prog) \<Rightarrow> 's \<Rightarrow> ('w, 's) prog" where
  "for_each g body s =
     bind (run_items body (fst g) s) (\<lambda>s'. case snd g of None \<Rightarrow> ret s' | Some e \<Rightarrow> raise e)"

text \<open>\<open>yield from\<close> over the documents of a cursor.\<close>

fun yield_from :: "('d \<Rightarrow> 'a generator) \<Rightarrow> 'd list \<Rightarrow> exn option \<Rightarrow> 'a generator" where
  "yield_from f [] end = ([], end)"
| "yield_from f (d # ds) end =
     (case f d of
        (xs, Some e) \<Rightarrow> (xs, Some e)
      | (xs, None) \<Rightarrow> (case yield_from f ds end of (ys, r) \<Rightarrow> (xs @ ys, r)))"

section \<open>reconcile.py\<close>

record reconciliation_report =
  rr_authoritative_edges :: nat
  rr_missing_before :: nat
  rr_added :: nat
  rr_missing_after :: nat
  rr_historical_edges :: nat
  rr_extra_historical_edges :: nat

text \<open>The loop over the sorted targets: it stops at the first that is not canonical.\<close>

fun yield_targets :: "('w, 'z) bl_env_scheme \<Rightarrow> pystr \<Rightarrow> pystr list \<Rightarrow> (pystr \<times> pystr) generator" where
  "yield_targets env source_url [] = ([], None)"
| "yield_targets env source_url (target_url # rest) =
     (case check_url env target_url of
        Inl _ \<Rightarrow> ([], Some (ReconciliationRejected ''outlinks_target_invalid''))
      | Inr _ \<Rightarrow> (case yield_targets env source_url rest of (es, r) \<Rightarrow> ((target_url, source_url) # es, r)))"

definition validated_document_edges :: "('w, 'z) bl_env_scheme \<Rightarrow> doc \<Rightarrow> (pystr \<times> pystr) generator" where
  "validated_document_edges env document =
     (case (Option.bind (map_of document (py ''_id'')) bson_str, Option.bind (map_of document (py ''links'')) bson_list) of
        (Some source_url, Some links) \<Rightarrow>
          (case check_url env source_url of
             Inl _ \<Rightarrow> ([], Some (ReconciliationRejected ''outlinks_source_invalid''))
           | Inr _ \<Rightarrow>
               (case text_list links of
                  None \<Rightarrow> ([], Some (ReconciliationRejected ''outlinks_target_invalid''))
                | Some targets \<Rightarrow> yield_targets env source_url (sorted_set targets)))
      | _ \<Rightarrow> ([], Some (ReconciliationRejected ''outlinks_document_invalid'')))"

definition authoritative_edges :: "('w, 'z) bl_env_scheme \<Rightarrow> ('w, (pystr \<times> pystr) generator) prog" where
  "authoritative_edges env =
     bind (iter_outlinks env) (\<lambda>cur. ret (yield_from (validated_document_edges env) (cur_docs cur) (cur_end cur)))"

definition count_missing :: "('w, 'z) bl_env_scheme \<Rightarrow> ('w, nat \<times> nat) prog" where
  "count_missing env =
     bind (authoritative_edges env) (\<lambda>g.
     for_each g (\<lambda>(target_url, source_url) (edges, missing).
       bind (has_backlink env target_url source_url) (\<lambda>present.
       ret (edges + 1, if present then missing else missing + 1))) (0, 0))"

text \<open>
  The historical edges of one document; the code iterates over a set, whose order does not
  matter to the counts it returns.
\<close>

definition count_document :: "('w, 'z) bl_env_scheme \<Rightarrow> doc \<Rightarrow> nat \<times> nat \<Rightarrow> ('w, nat \<times> nat) prog" where
  "count_document env document counts =
     (case (Option.bind (map_of document (py ''_id'')) bson_str, Option.bind (map_of document (py ''links'')) bson_list) of
        (Some target_url, Some links) \<Rightarrow>
          (case check_url env target_url of
             Inl _ \<Rightarrow> raise (ReconciliationRejected ''backlinks_target_invalid'')
           | Inr _ \<Rightarrow>
               (case text_list links of
                  None \<Rightarrow> raise (ReconciliationRejected ''backlinks_source_invalid'')
                | Some sources \<Rightarrow>
                    run_items (\<lambda>source_url (edges, extra).
                      case check_url env source_url of
                        Inl _ \<Rightarrow> raise (ReconciliationRejected ''backlinks_source_invalid'')
                      | Inr _ \<Rightarrow>
                          bind (has_outlink env source_url target_url) (\<lambda>present.
                          ret (edges + 1, if present then extra else extra + 1))) (remdups sources) counts))
      | _ \<Rightarrow> raise (ReconciliationRejected ''backlinks_document_invalid''))"

definition count_historical :: "('w, 'z) bl_env_scheme \<Rightarrow> ('w, nat \<times> nat) prog" where
  "count_historical env =
     bind (iter_backlinks env) (\<lambda>cur. for_each (cur_docs cur, cur_end cur) (count_document env) (0, 0))"

definition add_missing :: "('w, 'z) bl_env_scheme \<Rightarrow> ('w, nat) prog" where
  "add_missing env =
     bind (authoritative_edges env) (\<lambda>g.
     for_each g (\<lambda>(target_url, source_url) added.
       bind (has_backlink env target_url source_url) (\<lambda>present.
       if present then ret added
       else bind (add_backlinks env target_url [source_url] (max_members_per_ack_batch DEFAULT_LIMITS)
                    (max_ack_batch_url_bytes DEFAULT_LIMITS) (max_mongo_document_bytes DEFAULT_LIMITS))
              (\<lambda>_. ret (added + 1)))) 0)"

definition reconcile_backlinks :: "('w, 'z) bl_env_scheme \<Rightarrow> bool \<Rightarrow> ('w, reconciliation_report) prog" where
  "reconcile_backlinks env apply_writes =
     bind (count_missing env) (\<lambda>(edges, missing_before).
     bind (if apply_writes \<and> missing_before \<noteq> 0 then add_missing env else ret 0) (\<lambda>added.
     bind (count_missing env) (\<lambda>(_, missing_after).
     bind (count_historical env) (\<lambda>(historical, extra).
     ret \<lparr>rr_authoritative_edges = edges, rr_missing_before = missing_before, rr_added = added,
          rr_missing_after = missing_after, rr_historical_edges = historical,
          rr_extra_historical_edges = extra\<rparr>))))"

text \<open>
  The exit status of the command: \<open>--apply\<close> needs the database name as confirmation
  (\<open>argparse\<close> exits with 2), every exception ends with 1, missing edges with 2.
\<close>

definition reconcile_main ::
    "('w, 'z) bl_env_scheme \<Rightarrow> pystr \<Rightarrow> bool \<Rightarrow> pystr option \<Rightarrow> 'w \<Rightarrow> nat \<times> 'w" where
  "reconcile_main env database_name apply_writes confirm_database w =
     (if apply_writes \<and> confirm_database \<noteq> Some database_name then (2, w)
      else case reconcile_backlinks env apply_writes w of
        (Inl _, w') \<Rightarrow> (1, w')
      | (Inr report, w') \<Rightarrow> (if rr_missing_after report = 0 then 0 else 2, w'))"

section \<open>Loops\<close>

lemma wp_run_items:
  assumes "\<And>ds x rest s w. xs = ds @ x # rest \<Longrightarrow> I ds s w \<Longrightarrow> wp (body x s) (\<lambda>s'. I (ds @ [x]) s') E w"
    and "I [] s w"
  shows "wp (run_items body xs s) (I xs) E w"
proof -
  have "I ds s w \<Longrightarrow> xs = ds @ rest \<Longrightarrow> wp (run_items body rest s) (I xs) E w" for ds rest s w
  proof (induction rest arbitrary: ds s w)
    case (Cons x rest)
    show ?case
      using assms(1) [OF Cons.prems(2,1)] Cons.IH [of "ds @ [x]"] Cons.prems(2)
      by (auto intro: wp_call)
  qed simp
  then show ?thesis using assms(2) by fastforce
qed

text \<open>A loop over a generator that ends normally has run on all its items.\<close>

lemma wp_for_each:
  assumes "\<And>ds x rest s w. fst g = ds @ x # rest \<Longrightarrow> I ds s w \<Longrightarrow> wp (body x s) (\<lambda>s'. I (ds @ [x]) s') (\<lambda>_ _. True) w"
    and "I [] s w"
  shows "wp (for_each g body s) (\<lambda>s' w'. snd g = None \<and> I (fst g) s' w') (\<lambda>_ _. True) w"
  unfolding for_each_def wp_bind
  by (rule wp_call [OF wp_run_items [where I = I, OF assms]]) auto

section \<open>The edges\<close>

lemma bson_str_Some: "bson_str v = Some s \<longleftrightarrow> v = BStr s"
  by (cases v) auto

lemma bson_list_Some: "bson_list v = Some xs \<longleftrightarrow> v = BArr xs"
  by (cases v) auto

lemma bind_Some: "Option.bind v f = Some y \<longleftrightarrow> (\<exists>x. v = Some x \<and> f x = Some y)"
  by (cases v) auto

lemma has_link_iff: "has_link d l \<longleftrightarrow> (\<exists>d' xs. d = Some d' \<and> map_of d' (py ''links'') = Some (BArr xs) \<and> BStr l \<in> set xs)"
  by (auto simp: has_link_def bind_Some bson_list_Some split: option.splits)

lemma yield_targets_all:
  "yield_targets env s ts = (es, None) \<Longrightarrow> es = map (\<lambda>t. (t, s)) ts"
  by (induction ts arbitrary: es) (auto split: sum.splits prod.splits)

lemma validated_document_edges_all:
  assumes "validated_document_edges env p = (es, None)"
  shows "\<exists>s xs. map_of p (py ''_id'') = Some (BStr s) \<and> map_of p (py ''links'') = Some (BArr xs) \<and>
           set es = {(t, s) |t. BStr t \<in> set xs}"
proof -
  obtain s xs ts where "map_of p (py ''_id'') = Some (BStr s)" "map_of p (py ''links'') = Some (BArr xs)"
    and ts: "text_list xs = Some ts" "yield_targets env s (sorted_set ts) = (es, None)"
    using assms
    by (auto simp: validated_document_edges_def bind_Some bson_str_Some bson_list_Some
        split: option.splits sum.splits)
  moreover have "set es = {(t, s) |t. BStr t \<in> set xs}"
    using yield_targets_all [OF ts(2)] text_list_SomeD [OF ts(1)] by auto
  ultimately show ?thesis by blast
qed

lemma yield_from_all:
  "yield_from f ds end = (es, None) \<Longrightarrow>
     end = None \<and> (\<forall>d \<in> set ds. snd (f d) = None) \<and> set es = (\<Union>d \<in> set ds. set (fst (f d)))"
  by (induction ds arbitrary: es) (auto split: prod.splits option.splits)

text \<open>The reverse edge of every outlink is stored.\<close>

definition reverse_closed :: "('w \<Rightarrow> pystr \<Rightarrow> pystr \<Rightarrow> doc option) \<Rightarrow> 'w \<Rightarrow> bool" where
  "reverse_closed V w \<longleftrightarrow>
     (\<forall>s t. has_link (V w OUTLINKS_COLLECTION s) t \<longrightarrow> has_link (V w BACKLINKS_COLLECTION t) s)"

lemma wp_authoritative_edges:
  assumes "mongo_documented (e_mongo env) V"
  shows "wp (authoritative_edges env) (\<lambda>g w'. V w' = V w \<and>
           (snd g = None \<longrightarrow> (\<forall>t s. (t, s) \<in> set (fst g) \<longleftrightarrow> has_link (V w OUTLINKS_COLLECTION s) t))) (\<lambda>_ _. True) w"
  unfolding authoritative_edges_def wp_bind iter_outlinks_def
proof (rule wpI, goal_cases)
  case (1 cur w')
  note find = mongo_findD [OF assms 1]
  let ?g = "yield_from (validated_document_edges env) (cur_docs cur) (cur_end cur)"
  have "(t, s) \<in> set (fst ?g) \<longleftrightarrow> has_link (V w OUTLINKS_COLLECTION s) t" if none: "snd ?g = None" for t s
  proof -
    have all: "cur_end cur = None" "\<forall>p \<in> set (cur_docs cur). snd (validated_document_edges env p) = None"
      "set (fst ?g) = (\<Union>p \<in> set (cur_docs cur). set (fst (validated_document_edges env p)))"
      using yield_from_all [of "validated_document_edges env" "cur_docs cur" "cur_end cur" "fst ?g"] none
      by (metis prod.collapse)+
    have doc: "\<exists>s xs. map_of p (py ''_id'') = Some (BStr s) \<and> map_of p (py ''links'') = Some (BArr xs) \<and>
           set (fst (validated_document_edges env p)) = {(t, s) |t. BStr t \<in> set xs}"
      if "p \<in> set (cur_docs cur)" for p
      using that all(2) by (intro validated_document_edges_all) (auto simp: prod_eq_iff)
    show ?thesis
    proof
      assume "(t, s) \<in> set (fst ?g)"
      then obtain p where p: "p \<in> set (cur_docs cur)" "(t, s) \<in> set (fst (validated_document_edges env p))"
        using all(3) by blast
      then obtain xs where "map_of p (py ''_id'') = Some (BStr s)" "map_of p (py ''links'') = Some (BArr xs)"
        "BStr t \<in> set xs"
        using doc [OF p(1)] by auto
      moreover obtain d where "V w OUTLINKS_COLLECTION s = Some d" "projects p s d"
        using find(2) [OF p(1)] calculation by blast
      ultimately show "has_link (V w OUTLINKS_COLLECTION s) t"
        by (simp add: has_link_iff projects_def) metis
    next
      assume "has_link (V w OUTLINKS_COLLECTION s) t"
      then obtain d xs where d: "V w OUTLINKS_COLLECTION s = Some d" "map_of d (py ''links'') = Some (BArr xs)"
        "BStr t \<in> set xs"
        by (auto simp: has_link_iff)
      then obtain p where p: "p \<in> set (cur_docs cur)" "projects p s d" using find(3) [OF all(1)] by blast
      then have "(t, s) \<in> set (fst (validated_document_edges env p))"
        using doc [OF p(1)] d by (auto simp: projects_def)
      then show "(t, s) \<in> set (fst ?g)" using all(3) p(1) by blast
    qed
  qed
  then show ?case using find(1) by simp
qed simp

section \<open>Counting and adding\<close>

lemma wp_has_backlink:
  assumes "mongo_documented (e_mongo env) V"
  shows "wp (has_backlink env t s) (\<lambda>b w'. V w' = V w \<and> b = has_link (V w BACKLINKS_COLLECTION t) s) (\<lambda>_ _. True) w"
  unfolding has_backlink_def wp_bind
  by (rule wpI) (auto dest!: mongo_countD [OF assms, simplified] split: if_splits)

lemma wp_has_outlink:
  assumes "mongo_documented (e_mongo env) V"
  shows "wp (has_outlink env s t) (\<lambda>b w'. V w' = V w) (\<lambda>_ _. True) w"
  unfolding has_outlink_def wp_bind
  by (rule wpI) (auto dest!: mongo_countD [OF assms, simplified] split: if_splits)

lemma wp_count_missing:
  assumes "mongo_documented (e_mongo env) V"
  shows "wp (count_missing env) (\<lambda>r w'. V w' = V w \<and> (snd r = 0 \<longleftrightarrow> reverse_closed V w)) (\<lambda>_ _. True) w"
  unfolding count_missing_def wp_bind
proof (rule wp_call [OF wp_authoritative_edges [OF assms]], goal_cases)
  case (1 g v)
  let ?I = "\<lambda>ds (counts :: nat \<times> nat) u. V u = V w \<and>
     (snd counts = 0 \<longleftrightarrow> (\<forall>t s. (t, s) \<in> set ds \<longrightarrow> has_link (V w BACKLINKS_COLLECTION t) s))"
  show ?case
  proof (rule wp_call [OF wp_for_each [where I = ?I]], goal_cases)
    case (1 ds x rest s u)
    then show ?case
      by (cases x; cases s) (auto intro!: wp_call [OF wp_has_backlink [OF assms]] split: if_splits)
  next
    case (3 r u)
    then show ?case using \<open>V v = V w \<and> _\<close> by (auto simp: reverse_closed_def)
  qed (use 1 in auto)
qed simp

lemma wp_count_historical:
  assumes "mongo_documented (e_mongo env) V"
  shows "wp (count_historical env) (\<lambda>_ w'. V w' = V w) (\<lambda>_ _. True) w"
proof -
  have body: "wp (count_document env d c) (\<lambda>_ w'. V w' = V w) (\<lambda>_ _. True) u" if "V u = V w" for d c u
    unfolding count_document_def using that
    by (auto intro!: wp_call [OF wp_run_items [where I = "\<lambda>_ _ v. V v = V w" and E = "\<lambda>_ _. True"]]
        wp_call [OF wp_has_outlink [OF assms]] split: option.splits sum.splits prod.splits)
  show ?thesis
    unfolding count_historical_def iter_backlinks_def wp_bind
  proof (rule wpI, goal_cases)
    case (1 cur v)
    then have "V v = V w" using mongo_findD(1) [OF assms] by blast
    then show ?case
      by (intro wp_call [OF wp_for_each [where I = "\<lambda>_ _ u. V u = V w"]]) (auto intro: body)
  qed simp
qed

lemma add_backlinks_links:
  assumes doc: "mongo_documented (e_mongo env) V" and ok: "add_backlinks env t srcs mm mb md w = (Inr u, w')"
  shows "has_link (V w' BACKLINKS_COLLECTION t') l \<longleftrightarrow>
           has_link (V w BACKLINKS_COLLECTION t') l \<or> t' = t \<and> l \<in> set srcs"
    and "V w' OUTLINKS_COLLECTION = V w OUTLINKS_COLLECTION"
proof -
  obtain d where V': "V w' = (V w)(BACKLINKS_COLLECTION := (V w BACKLINKS_COLLECTION)(t \<mapsto> d))"
    and l: "existing_links (Some d) = Inr (links_of (V w BACKLINKS_COLLECTION t) @
              filter (\<lambda>s. s \<notin> set (links_of (V w BACKLINKS_COLLECTION t))) (sorted_set srcs))"
    using add_backlinks_stores_projection [OF doc ok] by blast
  have stored: "has_link d' x \<longleftrightarrow> x \<in> set ls" if "existing_links d' = Inr ls" for d' x ls
  proof (cases "Option.bind d' (\<lambda>d. map_of d (py ''links''))")
    case None
    then show ?thesis using that by (auto simp: existing_links_def has_link_iff split: option.splits)
  next
    case (Some v)
    then obtain d where d: "d' = Some d" "map_of d (py ''links'') = Some v" by (auto simp: bind_Some)
    then have "Option.bind (bson_list v) text_list = Some ls"
      using that by (auto simp: existing_links_def split: option.splits)
    then obtain xs where "v = BArr xs" "text_list xs = Some ls" by (auto simp: bind_Some bson_list_Some)
    then show ?thesis using text_list_SomeD [of xs ls] d by (auto simp: has_link_iff)
  qed
  obtain ls where old: "existing_links (V w BACKLINKS_COLLECTION t) = Inr ls"
    using add_backlinksD [OF ok] mongo_find_oneD [OF doc] by metis
  have "has_link (Some d) x \<longleftrightarrow> has_link (V w BACKLINKS_COLLECTION t) x \<or> x \<in> set srcs" for x
    using stored [OF l] stored [OF old] old by (auto simp: links_of_def)
  then show "has_link (V w' BACKLINKS_COLLECTION t') l \<longleftrightarrow>
           has_link (V w BACKLINKS_COLLECTION t') l \<or> t' = t \<and> l \<in> set srcs"
    using V' by simp
  show "V w' OUTLINKS_COLLECTION = V w OUTLINKS_COLLECTION"
    using V' by (simp add: BACKLINKS_COLLECTION_def OUTLINKS_COLLECTION_def)
qed

text \<open>What the writes of a reconciliation do to the two collections.\<close>

definition only_adds :: "('w \<Rightarrow> pystr \<Rightarrow> pystr \<Rightarrow> doc option) \<Rightarrow> 'w \<Rightarrow> 'w \<Rightarrow> bool" where
  "only_adds V w w' \<longleftrightarrow> V w' OUTLINKS_COLLECTION = V w OUTLINKS_COLLECTION \<and>
     (\<forall>t s. has_link (V w BACKLINKS_COLLECTION t) s \<longrightarrow> has_link (V w' BACKLINKS_COLLECTION t) s) \<and>
     (\<forall>t s. has_link (V w' BACKLINKS_COLLECTION t) s \<longrightarrow>
        has_link (V w BACKLINKS_COLLECTION t) s \<or> has_link (V w OUTLINKS_COLLECTION s) t)"

lemma wp_add_missing:
  assumes doc: "mongo_documented (e_mongo env) V"
  shows "wp (add_missing env) (\<lambda>_ w'. only_adds V w w' \<and> reverse_closed V w') (\<lambda>_ _. True) w"
  unfolding add_missing_def wp_bind
proof (rule wpI, goal_cases)
  case (1 g v)
  note auth = wp_InrD [OF wp_authoritative_edges [OF doc] 1]
  let ?I = "\<lambda>ds (n :: nat) u. snd g = None \<longrightarrow> only_adds V w u \<and>
     (\<forall>t s. (t, s) \<in> set ds \<longrightarrow> has_link (V u BACKLINKS_COLLECTION t) s)"
  show ?case
  proof (rule wp_call [OF wp_for_each [where I = ?I]], goal_cases)
    case (1 ds x rest n u)
    obtain t s where x: "x = (t, s)" by fastforce
    have out: "has_link (V w OUTLINKS_COLLECTION s) t" if "snd g = None"
      using auth that 1(1) x by auto
    have add: "?I (ds @ [x]) m u2" if "V u1 = V u" "add_backlinks env t [s] mm mb md u1 = (Inr y, u2)" for u1 u2 y mm mb md m
      using 1(2) out add_backlinks_links [OF doc that(2)] x unfolding only_adds_def that(1) by auto
    have keep: "?I (ds @ [x]) n u1" if "V u1 = V u" "has_link (V u BACKLINKS_COLLECTION t) s" for u1
      using 1(2) x that unfolding only_adds_def by auto
    have wr: "wp (add_backlinks env t [s] mm mb md) (\<lambda>_. ?I (ds @ [x]) m) (\<lambda>_ _. True) u1" if "V u1 = V u" for u1 mm mb md m
      using add [OF that] by (intro wpI) auto
    show ?case unfolding x prod.case wp_bind
    proof (rule wp_call [OF wp_has_backlink [OF doc]], goal_cases)
      case (1 b u1)
      show ?case
      proof (cases b)
        case True
        then show ?thesis using 1 keep [of u1] x by simp
      next
        case False
        then show ?thesis using 1 x by (auto intro!: wp_call [OF wr])
      qed
    qed simp
  next
    case 2
    then show ?case using auth by (simp add: only_adds_def)
  next
    case (3 n u)
    then show ?case using auth by (auto simp: reverse_closed_def only_adds_def)
  qed simp
qed simp

lemma reconcile_backlinksD:
  assumes doc: "mongo_documented (e_mongo env) V" and run: "reconcile_backlinks env a w = (Inr r, w')"
  shows "only_adds V w w'" and "rr_missing_after r = 0 \<longleftrightarrow> reverse_closed V w'"
    and "a \<Longrightarrow> reverse_closed V w'" and "\<not> a \<Longrightarrow> V w' = V w \<and> rr_added r = 0"
    and "rr_missing_before r = 0 \<longleftrightarrow> reverse_closed V w"
proof -
  obtain c1 v1 n v2 c2 v3 h where
    m1: "count_missing env w = (Inr c1, v1)"
    and ad: "(if a \<and> snd c1 \<noteq> 0 then add_missing env else ret 0) v1 = (Inr n, v2)"
    and m2: "count_missing env v2 = (Inr c2, v3)" and hs: "count_historical env v3 = (Inr h, w')"
    and r: "rr_missing_before r = snd c1" "rr_added r = n" "rr_missing_after r = snd c2"
    using run by (auto simp: reconcile_backlinks_def bind_Inr_iff split: prod.splits)
  have v1: "V v1 = V w" "snd c1 = 0 \<longleftrightarrow> reverse_closed V w"
    using wp_InrD [OF wp_count_missing [OF doc] m1] by auto
  have v3: "V v3 = V v2" "snd c2 = 0 \<longleftrightarrow> reverse_closed V v2"
    using wp_InrD [OF wp_count_missing [OF doc] m2] by auto
  have w': "V w' = V v2" using wp_InrD [OF wp_count_historical [OF doc] hs] v3 by simp
  have v2: "if a \<and> snd c1 \<noteq> 0 then only_adds V v1 v2 \<and> reverse_closed V v2 else v2 = v1 \<and> n = 0"
    using ad wp_InrD [OF wp_add_missing [OF doc], of v1 n v2] by (auto split: if_splits)
  have closed: "reverse_closed V u = reverse_closed V u'" if "V u = V u'" for u u'
    using that by (simp add: reverse_closed_def)
  show "rr_missing_before r = 0 \<longleftrightarrow> reverse_closed V w" using r v1 by simp
  show "only_adds V w w'" using v1 v2 w' by (auto simp: only_adds_def split: if_splits)
  show "rr_missing_after r = 0 \<longleftrightarrow> reverse_closed V w'" using r v3 closed [OF w'] by simp
  show "a \<Longrightarrow> reverse_closed V w'" using v1 v2 closed [OF w'] closed [of v2 w] by (auto split: if_splits)
  show "\<not> a \<Longrightarrow> V w' = V w \<and> rr_added r = 0" using v1 v2 w' r by auto
qed

section \<open>Properties\<close>

text \<open>
  C7. When \<open>reconcile_backlinks\<close> returns with \<open>apply\<close>, every outlink has its reverse edge, the
  report says that none is missing, no backlink was removed, and every backlink that was added is
  the reverse of an outlink.
\<close>

theorem reconcile_apply_closes:
  assumes "mongo_documented (e_mongo env) V" and "reconcile_backlinks env True w = (Inr r, w')"
  shows "rr_missing_after r = 0 \<and>
     (\<forall>s t. has_link (V w' OUTLINKS_COLLECTION s) t \<longrightarrow> has_link (V w' BACKLINKS_COLLECTION t) s) \<and>
     (\<forall>s t. has_link (V w BACKLINKS_COLLECTION t) s \<longrightarrow> has_link (V w' BACKLINKS_COLLECTION t) s) \<and>
     (\<forall>s t. has_link (V w' BACKLINKS_COLLECTION t) s \<longrightarrow>
        has_link (V w BACKLINKS_COLLECTION t) s \<or> has_link (V w OUTLINKS_COLLECTION s) t) \<and>
     V w' OUTLINKS_COLLECTION = V w OUTLINKS_COLLECTION"
  using reconcile_backlinksD [OF assms] by (auto simp: only_adds_def reverse_closed_def)

text \<open>
  C8. Without \<open>apply\<close> nothing is written, and the command's status is 0 exactly when every
  outlink has its reverse edge.
\<close>

theorem reconcile_report_exact:
  assumes "mongo_documented (e_mongo env) V" and "reconcile_backlinks env False w = (Inr r, w')"
  shows "V w' = V w \<and> rr_added r = 0 \<and>
     fst (reconcile_main env database False confirm w) =
       (if \<forall>s t. has_link (V w OUTLINKS_COLLECTION s) t \<longrightarrow> has_link (V w BACKLINKS_COLLECTION t) s then 0 else 2)"
proof -
  have v: "V w' = V w" "rr_added r = 0" "rr_missing_after r = 0 \<longleftrightarrow> reverse_closed V w'"
    using reconcile_backlinksD [OF assms] by simp_all
  have "reverse_closed V w' \<longleftrightarrow> reverse_closed V w" using v(1) by (simp add: reverse_closed_def)
  then show ?thesis using v assms(2) by (simp add: reconcile_main_def reverse_closed_def)
qed

definition sample_store :: mem_store where
  "sample_store =
     [((OUTLINKS_COLLECTION, py ''http://a.b/''),
       [(py ''_id'', BStr (py ''http://a.b/'')), (py ''links'', BArr [BStr (py ''http://c.d/'')])])]"

lemmas backlinks_reconcile_eval [eval_simps] =
  for_each_def validated_document_edges_def authoritative_edges_def count_missing_def count_document_def
  count_historical_def add_missing_def reconcile_backlinks_def sample_store_def iter_outlinks_def
  iter_backlinks_def has_backlink_def has_outlink_def DEFAULT_LIMITS_def

lemma reconcile_sample_apply:
  "reconcile_backlinks mem_env True sample_store =
     (Inr \<lparr>rr_authoritative_edges = 1, rr_missing_before = 1, rr_added = 1, rr_missing_after = 0,
           rr_historical_edges = 1, rr_extra_historical_edges = 0\<rparr>,
      sample_store @ [((BACKLINKS_COLLECTION, py ''http://c.d/''),
       [(py ''_id'', BStr (py ''http://c.d/'')), (py ''links'', BArr [BStr (py ''http://a.b/'')])])])"
  by (simp add: eval_simps)

lemma reconcile_sample_report:
  "reconcile_backlinks mem_env False sample_store =
     (Inr \<lparr>rr_authoritative_edges = 1, rr_missing_before = 1, rr_added = 0, rr_missing_after = 1,
           rr_historical_edges = 0, rr_extra_historical_edges = 0\<rparr>, sample_store)"
  by (simp add: eval_simps)

theorem reconcile_apply_closes_witness:
  "has_link (mem_view (sample_store @ [((BACKLINKS_COLLECTION, py ''http://c.d/''),
       [(py ''_id'', BStr (py ''http://c.d/'')), (py ''links'', BArr [BStr (py ''http://a.b/'')])])])
     BACKLINKS_COLLECTION (py ''http://c.d/'')) (py ''http://a.b/'')"
  using reconcile_apply_closes [OF mem_env_documented reconcile_sample_apply]
  by (auto simp: mem_view_def has_link_iff sample_store_def)

theorem reconcile_report_exact_witness:
  "fst (reconcile_main mem_env (py ''test'') False None sample_store) = 2"
  using reconcile_report_exact [OF mem_env_documented reconcile_sample_report, of "py ''test''" None]
  by (auto simp: mem_view_def has_link_iff sample_store_def BACKLINKS_COLLECTION_def OUTLINKS_COLLECTION_def)

end
