(* ===== verification/Base64_Url.thy ===== *)
theory Base64_Url
  imports Py_Str
begin

text \<open>
  \<open>base64.urlsafe_b64encode\<close> with its padding stripped, and
  \<open>base64.b64decode(..., altchars=b"-_", validate=True)\<close>, as the services use them to put URLs
  into Redis keys. The encoding is decoded back to the bytes it came from.
\<close>

definition b64_char :: "nat \<Rightarrow> nat" where
  "b64_char n = (if n < 26 then 65 + n else if n < 52 then 71 + n else if n < 62 then n - 4
                 else if n = 62 then 45 else 95)"

text \<open>The decoder translates the alternative characters, so it accepts \<open>+\<close> and \<open>/\<close> too.\<close>

definition b64_value :: "nat \<Rightarrow> nat option" where
  "b64_value c = (if 65 \<le> c \<and> c \<le> 90 then Some (c - 65) else if 97 \<le> c \<and> c \<le> 122 then Some (c - 71)
                  else if 48 \<le> c \<and> c \<le> 57 then Some (c + 4) else if c = 45 \<or> c = 43 then Some 62
                  else if c = 95 \<or> c = 47 then Some 63 else None)"

fun to_sextets :: "bytes \<Rightarrow> nat list" where
  "to_sextets [] = []"
| "to_sextets [a] = [a div 4, a mod 4 * 16]"
| "to_sextets [a, b] = [a div 4, a mod 4 * 16 + b div 16, b mod 16 * 4]"
| "to_sextets (a # b # c # rest) =
     [a div 4, a mod 4 * 16 + b div 16, b mod 16 * 4 + c div 64, c mod 64] @ to_sextets rest"

definition b64url_encode :: "bytes \<Rightarrow> pystr" where
  "b64url_encode bs = map b64_char (to_sextets bs)"

text \<open>Groups of sextets; leftover bits are dropped, a single leftover sextet is an error.\<close>

definition byte_1 :: "nat \<Rightarrow> nat \<Rightarrow> nat" where "byte_1 p q = p * 4 + q div 16"
definition byte_2 :: "nat \<Rightarrow> nat \<Rightarrow> nat" where "byte_2 q r = q mod 16 * 16 + r div 4"
definition byte_3 :: "nat \<Rightarrow> nat \<Rightarrow> nat" where "byte_3 r s = r mod 4 * 64 + s"

fun sextets_bytes :: "nat list \<Rightarrow> bytes option" where
  "sextets_bytes [] = Some []"
| "sextets_bytes [p] = None"
| "sextets_bytes [p, q] = Some [byte_1 p q]"
| "sextets_bytes [p, q, r] = Some [byte_1 p q, byte_2 q r]"
| "sextets_bytes (p # q # r # s # rest) =
     map_option (\<lambda>bs. [byte_1 p q, byte_2 q r, byte_3 r s] @ bs) (sextets_bytes rest)"

definition b64_decode :: "pystr \<Rightarrow> bytes option" where
  "b64_decode s =
     (let body = takeWhile (\<lambda>c. c \<noteq> 61) s; pad = dropWhile (\<lambda>c. c \<noteq> 61) s in
      if list_all (\<lambda>c. c = 61) pad \<and> length pad = (4 - length body mod 4) mod 4 \<and>
         list_all (\<lambda>c. b64_value c \<noteq> None) body
      then sextets_bytes (map (the \<circ> b64_value) body) else None)"

text \<open>\<open>encoded + "=" * (-len(encoded) % 4)\<close>\<close>

definition b64_pad :: "pystr \<Rightarrow> pystr" where
  "b64_pad s = s @ replicate ((4 - length s mod 4) mod 4) 61"

lemmas byte_defs = byte_1_def byte_2_def byte_3_def

section \<open>Round trip\<close>

abbreviation is_bytes :: "bytes \<Rightarrow> bool" where
  "is_bytes bs \<equiv> list_all (\<lambda>x. x < 256) bs"

lemma b64_value_char: "n < 64 \<Longrightarrow> b64_value (b64_char n) = Some n"
  by (auto simp: b64_value_def b64_char_def)

lemma b64_char_range: "n < 64 \<Longrightarrow> b64_char n \<noteq> 61 \<and> b64_char n \<noteq> 58 \<and> b64_char n < 128"
  by (auto simp: b64_char_def)

lemma sextet_parts:
  fixes a b :: nat
  shows "a mod 4 * 16 < 64" and "b < 256 \<Longrightarrow> a mod 4 * 16 + b div 16 < 64"
    and "b mod 16 * 4 < 64" and "a < 256 \<Longrightarrow> b mod 16 * 4 + a div 64 < 64"
proof -
  have m: "a mod 4 \<le> 3" "b mod 16 \<le> 15"
    using mod_less_divisor [of 4 a] mod_less_divisor [of 16 b] by linarith+
  then show "a mod 4 * 16 < 64" "b mod 16 * 4 < 64" by linarith+
  show "b < 256 \<Longrightarrow> a mod 4 * 16 + b div 16 < 64"
    using m(1) less_mult_imp_div_less [of b 16 16] by linarith
  show "a < 256 \<Longrightarrow> b mod 16 * 4 + a div 64 < 64"
    using m(2) less_mult_imp_div_less [of a 4 64] by linarith
qed

lemma to_sextets_small: "is_bytes bs \<Longrightarrow> list_all (\<lambda>n. n < 64) (to_sextets bs)"
  by (induction bs rule: to_sextets.induct) (auto simp: sextet_parts less_mult_imp_div_less)

lemma join_byte: "(a :: nat) div 4 * 4 + (a mod 4 * 16 + b div 16) div 16 = a" if "b < 256"
proof -
  have "(a mod 4 * 16 + b div 16) div 16 = a mod 4"
    using less_mult_imp_div_less [of b 16 16] that by simp
  then show ?thesis using div_mult_mod_eq [of a 4] by simp
qed

lemma sextets_bytes_to_sextets: "is_bytes bs \<Longrightarrow> sextets_bytes (to_sextets bs) = Some bs"
proof (induction bs rule: to_sextets.induct)
  case (2 a)
  then show ?case using div_mult_mod_eq [of a 4] by (simp add: byte_defs)
next
  case (3 a b)
  have "(b mod 16 * 4) div 4 = b mod 16" by simp
  moreover have "b div 16 < 16" using less_mult_imp_div_less [of b 16 16] 3 by simp
  ultimately show ?case using 3 join_byte [of b a] div_mult_mod_eq [of b 16] by (simp add: byte_defs)
next
  case (4 a b c rest)
  have "(b mod 16 * 4 + c div 64) div 4 = b mod 16" "(b mod 16 * 4 + c div 64) mod 4 = c div 64"
    using less_mult_imp_div_less [of c 4 64] 4(2) by simp_all
  moreover have "b div 16 < 16" using less_mult_imp_div_less [of b 16 16] 4(2) by simp
  ultimately show ?case
    using 4 join_byte [of b a] div_mult_mod_eq [of b 16] div_mult_mod_eq [of c 64] by (simp add: byte_defs)
qed simp

lemma length_to_sextets: "length (to_sextets bs) mod 4 \<noteq> 1"
  by (induction bs rule: to_sextets.induct) auto

lemma encode_chars:
  assumes "is_bytes bs" and "c \<in> set (b64url_encode bs)"
  shows "c \<noteq> 61" and "c \<noteq> 58" and "c < 128" and "b64_value c \<noteq> None"
proof -
  obtain n where "n < 64" "c = b64_char n"
    using assms to_sextets_small [of bs] by (auto simp: b64url_encode_def list_all_iff)
  then show "c \<noteq> 61" and "c \<noteq> 58" and "c < 128" and "b64_value c \<noteq> None"
    using b64_value_char b64_char_range by auto
qed

lemma b64_decode_encode:
  assumes "is_bytes bs"
  shows "b64_decode (b64_pad (b64url_encode bs)) = Some bs"
proof -
  let ?e = "b64url_encode bs"
  have tw: "takeWhile (\<lambda>c. c \<noteq> 61) (b64_pad ?e) = ?e"
    and dw: "dropWhile (\<lambda>c. c \<noteq> 61) (b64_pad ?e) = replicate ((4 - length ?e mod 4) mod 4) 61"
    using encode_chars(1) [OF assms] unfolding b64_pad_def
    by (simp_all add: takeWhile_append2 dropWhile_append2 takeWhile_replicate dropWhile_replicate
        cong del: takeWhile_cong)
  have "map (the \<circ> b64_value) ?e = to_sextets bs"
    using to_sextets_small [OF assms]
    by (simp add: b64url_encode_def list_all_iff b64_value_char map_idI)
  then show ?thesis
    using encode_chars(4) [OF assms] sextets_bytes_to_sextets [OF assms]
    by (simp add: b64_decode_def tw dw Let_def list_all_iff)
qed

lemma b64url_encode_ascii: "is_bytes bs \<Longrightarrow> is_ascii (b64url_encode bs)"
  using encode_chars(3) by (auto simp: is_ascii_def list_all_iff)

lemma b64url_encode_inject: "is_bytes bs \<Longrightarrow> is_bytes cs \<Longrightarrow> b64url_encode bs = b64url_encode cs \<Longrightarrow> bs = cs"
  using b64_decode_encode by (metis option.inject)

lemma length_b64url_encode: "3 * length (b64url_encode bs) \<le> 4 * length bs + 2"
  by (induction bs rule: to_sextets.induct) (auto simp: b64url_encode_def)

lemma b64url_encode_Nil_iff [simp]: "b64url_encode bs = [] \<longleftrightarrow> bs = []"
  by (cases bs rule: to_sextets.cases) (auto simp: b64url_encode_def)

end
