(* ===== verification/Publication_Keys.thy ===== *)
theory Publication_Keys
  imports Base64_Url
begin

text \<open>
  The Redis keys of a crawl publication: a prefix, the 64 hexadecimal digits of the publication
  and URLs in unpadded base64url. \<open>decode_key_url\<close> is the decoder the image indexer has as
  \<open>_decode_url\<close> and the indexer inside \<open>parse_page_publication_key\<close>; the exception it raises is
  its argument. It inverts \<open>encode_key_url\<close> and accepts nothing else.
\<close>

definition MAX_KEY_URL_BYTES :: nat where
  "MAX_KEY_URL_BYTES = 2048"

definition MAX_ENCODED_URL_BYTES :: nat where
  "MAX_ENCODED_URL_BYTES = (MAX_KEY_URL_BYTES * 4 + 2) div 3"

text \<open>\<open>PUBLICATION_ID_PATTERN.fullmatch\<close>\<close>

definition publication_id_ok :: "pystr \<Rightarrow> bool" where
  "publication_id_ok s \<longleftrightarrow> length s = 64 \<and> list_all (\<lambda>c. ascii_digit c \<or> 97 \<le> c \<and> c \<le> 102) s"

definition decode_key_url :: "(string \<Rightarrow> exn) \<Rightarrow> pystr \<Rightarrow> exn + pystr" where
  "decode_key_url err encoded =
     bindE (requireE (encoded \<noteq> [] \<and> length encoded \<le> MAX_ENCODED_URL_BYTES \<and> is_ascii encoded)
       (err ''invalid encoded URL'')) (\<lambda>_.
     case b64_decode (b64_pad encoded) of
       None \<Rightarrow> Inl (err ''invalid URL encoding'')
     | Some raw \<Rightarrow>
         bindE (requireE (length raw \<le> MAX_KEY_URL_BYTES) (err ''decoded URL exceeds limit'')) (\<lambda>_.
         case utf8_decode raw of
           None \<Rightarrow> Inl (err ''invalid URL encoding'')
         | Some value \<Rightarrow>
             bindE (requireE (value \<noteq> [] \<and> b64url_encode raw = encoded) (err ''non-canonical URL encoding''))
               (\<lambda>_. Inr value)))"

text \<open>\<open>base64.urlsafe_b64encode(url.encode()).decode().rstrip("=")\<close>\<close>

definition encode_key_url :: "pystr \<Rightarrow> pystr option" where
  "encode_key_url url = map_option b64url_encode (utf8_encode url)"

definition key_url_ok :: "pystr \<Rightarrow> bool" where
  "key_url_ok url \<longleftrightarrow> url \<noteq> [] \<and> (\<exists>b. utf8_encode url = Some b \<and> length b \<le> MAX_KEY_URL_BYTES)"

lemma decode_key_url_iff:
  "decode_key_url err encoded = Inr url \<longleftrightarrow> key_url_ok url \<and> encode_key_url url = Some encoded"
proof
  assume "decode_key_url err encoded = Inr url"
  then obtain raw where raw: "b64_decode (b64_pad encoded) = Some raw" "length raw \<le> MAX_KEY_URL_BYTES"
    "utf8_decode raw = Some url" "url \<noteq> []" "b64url_encode raw = encoded"
    by (auto simp: decode_key_url_def sum_iffs split: option.splits)
  then show "key_url_ok url \<and> encode_key_url url = Some encoded"
    by (auto simp: key_url_ok_def encode_key_url_def utf8_decode_iff)
next
  assume a: "key_url_ok url \<and> encode_key_url url = Some encoded"
  then obtain raw where raw: "utf8_encode url = Some raw" "length raw \<le> MAX_KEY_URL_BYTES" "url \<noteq> []"
    "encoded = b64url_encode raw"
    by (auto simp: key_url_ok_def encode_key_url_def)
  have b: "is_bytes raw" using utf8_encode_bytes [OF raw(1)] .
  have "raw \<noteq> []" using raw(1,3) utf8_decode_encode [OF raw(1)] by auto
  moreover have "3 * length encoded \<le> MAX_KEY_URL_BYTES * 4 + 2"
    using length_b64url_encode [of raw] raw by simp
  then have "length encoded \<le> MAX_ENCODED_URL_BYTES"
    by (simp add: MAX_ENCODED_URL_BYTES_def)
  ultimately show "decode_key_url err encoded = Inr url"
    using raw b b64_decode_encode [OF b] b64url_encode_ascii [OF b] utf8_decode_encode [OF raw(1)]
    by (simp add: decode_key_url_def)
qed

lemma decode_key_url_errors: "decode_key_url err encoded = Inl e \<Longrightarrow> \<exists>s. e = err s"
  by (auto simp: decode_key_url_def sum_iffs split: option.splits)

lemma encode_key_url_inject: "encode_key_url u = Some e \<Longrightarrow> encode_key_url v = Some e \<Longrightarrow> u = v"
  unfolding encode_key_url_def
  by (auto dest!: b64url_encode_inject [OF utf8_encode_bytes utf8_encode_bytes, rotated 2]
      intro: utf8_encode_inject)

lemma encode_key_url_clean: "encode_key_url u = Some e \<Longrightarrow> 58 \<notin> set e"
  using encode_chars(2) utf8_encode_bytes by (fastforce simp: encode_key_url_def)

lemmas publication_keys_eval [eval_simps] =
  MAX_KEY_URL_BYTES_def MAX_ENCODED_URL_BYTES_def publication_id_ok_def decode_key_url_def
  b64_decode_def b64_pad_def b64url_encode_def b64_char_def b64_value_def

end
