(* ===== verification/Sha256.thy ===== *)
theory Sha256
  imports Py_Str "HOL-Library.Word"
begin

text \<open>
  \<open>hashlib.sha256\<close>, on 32-bit words with wrap-around addition, and the hexadecimal digest the
  services use as identity and log reference.
\<close>

unbundle bit_operations_syntax

type_synonym w32 = "32 word"

definition sha_k :: "w32 list" where
  "sha_k =
     [1116352408, 1899447441, 3049323471, 3921009573, 961987163, 1508970993, 2453635748, 2870763221,
      3624381080, 310598401, 607225278, 1426881987, 1925078388, 2162078206, 2614888103, 3248222580,
      3835390401, 4022224774, 264347078, 604807628, 770255983, 1249150122, 1555081692, 1996064986,
      2554220882, 2821834349, 2952996808, 3210313671, 3336571891, 3584528711, 113926993, 338241895,
      666307205, 773529912, 1294757372, 1396182291, 1695183700, 1986661051, 2177026350, 2456956037,
      2730485921, 2820302411, 3259730800, 3345764771, 3516065817, 3600352804, 4094571909, 275423344,
      430227734, 506948616, 659060556, 883997877, 958139571, 1322822218, 1537002063, 1747873779,
      1955562222, 2024104815, 2227730452, 2361852424, 2428436474, 2756734187, 3204031479, 3329325298]"

type_synonym sha_state = "w32 \<times> w32 \<times> w32 \<times> w32 \<times> w32 \<times> w32 \<times> w32 \<times> w32"

definition sha_init :: sha_state where
  "sha_init = (1779033703, 3144134277, 1013904242, 2773480762, 1359893119, 2600822924, 528734635, 1541459225)"

definition sha_pad :: "bytes \<Rightarrow> bytes" where
  "sha_pad m =
     m @ [128] @ replicate ((119 - length m mod 64) mod 64) 0 @
     map (\<lambda>i. (8 * length m) div 256 ^ i mod 256) [7, 6, 5, 4, 3, 2, 1, 0]"

fun sha_words :: "bytes \<Rightarrow> w32 list" where
  "sha_words (a # b # c # d # rest) =
     of_nat (((a * 256 + b) * 256 + c) * 256 + d) # sha_words rest"
| "sha_words _ = []"

definition sha_s0 :: "w32 \<Rightarrow> w32" where
  "sha_s0 x = word_rotr 7 x XOR word_rotr 18 x XOR drop_bit 3 x"

definition sha_s1 :: "w32 \<Rightarrow> w32" where
  "sha_s1 x = word_rotr 17 x XOR word_rotr 19 x XOR drop_bit 10 x"

text \<open>The message schedule, extended by one word at a time.\<close>

primrec sha_extend :: "nat \<Rightarrow> w32 list \<Rightarrow> w32 list" where
  "sha_extend 0 ws = ws"
| "sha_extend (Suc n) ws =
     (let t = length ws in
      sha_extend n (ws @ [ws ! (t - 16) + sha_s0 (ws ! (t - 15)) + ws ! (t - 7) + sha_s1 (ws ! (t - 2))]))"

fun sha_round :: "w32 \<times> w32 \<Rightarrow> sha_state \<Rightarrow> sha_state" where
  "sha_round (k, w) (a, b, c, d, e, f, g, h) =
     (let t1 = h + (word_rotr 6 e XOR word_rotr 11 e XOR word_rotr 25 e) + ((e AND f) XOR (NOT e AND g)) + k + w;
          t2 = (word_rotr 2 a XOR word_rotr 13 a XOR word_rotr 22 a) + ((a AND b) XOR (a AND c) XOR (b AND c))
      in (t1 + t2, a, b, c, d + t1, e, f, g))"

fun sha_add :: "sha_state \<Rightarrow> sha_state \<Rightarrow> sha_state" where
  "sha_add (a, b, c, d, e, f, g, h) (a', b', c', d', e', f', g', h') =
     (a + a', b + b', c + c', d + d', e + e', f + f', g + g', h + h')"

definition sha_block :: "w32 list \<Rightarrow> sha_state \<Rightarrow> sha_state" where
  "sha_block ws s = sha_add s (fold sha_round (zip sha_k (sha_extend 48 ws)) s)"

function sha_blocks :: "w32 list \<Rightarrow> sha_state \<Rightarrow> sha_state" where
  "sha_blocks ws s = (if length ws < 16 then s else sha_blocks (drop 16 ws) (sha_block (take 16 ws) s))"
  by auto
termination by (relation "measure (length \<circ> fst)") auto

declare sha_blocks.simps [simp del]

fun state_words :: "sha_state \<Rightarrow> w32 list" where
  "state_words (a, b, c, d, e, f, g, h) = [a, b, c, d, e, f, g, h]"

definition sha256 :: "bytes \<Rightarrow> w32 list" where
  "sha256 m = state_words (sha_blocks (sha_words (sha_pad m)) sha_init)"

definition hex_char :: "nat \<Rightarrow> nat" where
  "hex_char n = (if n < 10 then 48 + n else 87 + n)"

definition hex_word :: "w32 \<Rightarrow> pystr" where
  "hex_word w = map (\<lambda>i. hex_char (unat w div 16 ^ i mod 16)) [7, 6, 5, 4, 3, 2, 1, 0]"

text \<open>\<open>hexdigest()\<close>\<close>

definition sha256_hex :: "bytes \<Rightarrow> pystr" where
  "sha256_hex m = concat (map hex_word (sha256 m))"

lemma length_state_words [simp]: "length (state_words s) = 8"
  by (cases s) auto

lemma hex_char_lower_hex: "n < 16 \<Longrightarrow> 48 \<le> hex_char n \<and> hex_char n \<le> 57 \<or> 97 \<le> hex_char n \<and> hex_char n \<le> 102"
  by (auto simp: hex_char_def)

lemma length_hex_word [simp]: "length (hex_word w) = 8"
  by (simp add: hex_word_def)

text \<open>Every digest is 64 lower-case hexadecimal digits.\<close>

lemma length_sha256_hex [simp]: "length (sha256_hex m) = 64"
proof -
  have "length (concat (map hex_word ws)) = 8 * length ws" for ws
    by (induction ws) auto
  then show ?thesis by (simp add: sha256_hex_def sha256_def)
qed

lemma sha256_hex_chars: "c \<in> set (sha256_hex m) \<Longrightarrow> 48 \<le> c \<and> c \<le> 57 \<or> 97 \<le> c \<and> c \<le> 102"
proof -
  have "x \<in> set (hex_word w) \<Longrightarrow> 48 \<le> x \<and> x \<le> 57 \<or> 97 \<le> x \<and> x \<le> 102" for x w
  proof -
    assume "x \<in> set (hex_word w)"
    then obtain i where "x = hex_char (unat w div 16 ^ i mod 16)"
      unfolding hex_word_def set_map by blast
    then show ?thesis using hex_char_lower_hex [of "unat w div 16 ^ i mod 16"] by simp
  qed
  moreover assume "c \<in> set (sha256_hex m)"
  ultimately show ?thesis by (auto simp: sha256_hex_def)
qed

end
