(* ===== verification/Py_Text.thy ===== *)
theory Py_Text
  imports Py_Url
begin

text \<open>
  More of Python's text handling: \<open>bytes.decode("utf-8", "replace")\<close>, \<open>urllib.parse.unquote\<close>,
  \<open>str.lower\<close> on whole texts, substring tests and the splitting of names. Lower-casing beyond ASCII
  depends on the interpreter's tables and on context (a final sigma), so it is an argument.
\<close>

section \<open>Decoding with replacement\<close>

text \<open>How many continuation bytes a lead byte asks for; 0 for a byte that cannot lead.\<close>

definition utf8_need :: "nat \<Rightarrow> nat" where
  "utf8_need b = (if 194 \<le> b \<and> b \<le> 223 then 1 else if 224 \<le> b \<and> b \<le> 239 then 2
                  else if 240 \<le> b \<and> b \<le> 244 then 3 else 0)"

definition utf8_second :: "nat \<Rightarrow> nat \<Rightarrow> bool" where
  "utf8_second b c \<longleftrightarrow> is_cont c \<and> (b = 224 \<longrightarrow> 160 \<le> c) \<and> (b = 237 \<longrightarrow> c \<le> 159) \<and>
     (b = 240 \<longrightarrow> 144 \<le> c) \<and> (b = 244 \<longrightarrow> c \<le> 143)"

definition utf8_found :: "nat \<Rightarrow> bytes \<Rightarrow> nat" where
  "utf8_found b r =
     (case r of
        [] \<Rightarrow> 0
      | c # r' \<Rightarrow> if 0 < utf8_need b \<and> utf8_second b c
                  then Suc (length (takeWhile is_cont (take (utf8_need b - 1) r'))) else 0)"

definition utf8_scalar :: "nat \<Rightarrow> bytes \<Rightarrow> nat" where
  "utf8_scalar b cs =
     foldl (\<lambda>n c. 64 * n + (c - 128)) (b - (case length cs of Suc 0 \<Rightarrow> 192 | Suc (Suc 0) \<Rightarrow> 224 | _ \<Rightarrow> 240)) cs"

text \<open>Every maximal ill-formed prefix becomes one U+FFFD.\<close>

function utf8_replace :: "bytes \<Rightarrow> pystr" where
  "utf8_replace [] = []"
| "utf8_replace (b # r) =
     (if b < 128 then b # utf8_replace r
      else (let n = utf8_found b r in
            (if 0 < n \<and> n = utf8_need b then utf8_scalar b (take n r) else 65533) # utf8_replace (drop n r)))"
  by pat_completeness auto
termination by (relation "measure length") auto

section \<open>unquote\<close>

fun unquote_bytes :: "bytes \<Rightarrow> bytes" where
  "unquote_bytes (c # a # b # r) =
     (if c = 37 \<and> hex_digit a \<and> hex_digit b then (16 * hex_value a + hex_value b) # unquote_bytes r
      else c # unquote_bytes (a # b # r))"
| "unquote_bytes s = s"

function unquote :: "pystr \<Rightarrow> pystr" where
  "unquote [] = []"
| "unquote (c # s) =
     (if c < 128
      then utf8_replace (unquote_bytes (takeWhile (\<lambda>d. d < 128) (c # s))) @ unquote (dropWhile (\<lambda>d. d < 128) s)
      else c # unquote s)"
  by pat_completeness auto
termination
  by (relation "measure length") (auto simp: le_imp_less_Suc length_dropWhile_le)

section \<open>Words\<close>

definition lower_text :: "(pystr \<Rightarrow> pystr) \<Rightarrow> pystr \<Rightarrow> pystr" where
  "lower_text t s = (if is_ascii s then map lower_ascii s else t s)"

definition has_sub :: "pystr \<Rightarrow> pystr \<Rightarrow> bool" where
  "has_sub p s \<longleftrightarrow> list_ex (\<lambda>i. starts_with p (drop i s)) [0..<Suc (length s)]"

text \<open>The non-empty pieces between the characters that satisfy \<open>P\<close>.\<close>

fun split_where :: "(nat \<Rightarrow> bool) \<Rightarrow> pystr \<Rightarrow> pystr list" where
  "split_where P [] = [[]]"
| "split_where P (c # s) =
     (if P c then [] # split_where P s
      else (case split_where P s of [] \<Rightarrow> [[c]] | p # ps \<Rightarrow> (c # p) # ps))"

definition pieces :: "(nat \<Rightarrow> bool) \<Rightarrow> pystr \<Rightarrow> pystr list" where
  "pieces P s = filter (\<lambda>p. p \<noteq> []) (split_where P s)"

definition name_separator :: "nat \<Rightarrow> bool" where
  "name_separator c \<longleftrightarrow> c \<in> {45, 95, 46, 47} \<or> is_space c"

lemma split_where_clean: "p \<in> set (split_where P s) \<Longrightarrow> c \<in> set p \<Longrightarrow> c \<in> set s \<and> \<not> P c"
  by (induction s arbitrary: p) (fastforce split: if_splits list.splits)+

lemma pieces_clean: "p \<in> set (pieces P s) \<Longrightarrow> p \<noteq> [] \<and> (\<forall>c \<in> set p. c \<in> set s \<and> \<not> P c)"
  using split_where_clean by (auto simp: pieces_def)

text \<open>On ASCII without escapes both are the identity.\<close>

lemma utf8_replace_ascii: "is_ascii b \<Longrightarrow> utf8_replace b = b"
  by (induction b) auto

lemma unquote_plain:
  assumes "is_ascii s" and "37 \<notin> set s"
  shows "unquote s = s"
proof -
  have "unquote_bytes t = t" if "37 \<notin> set t" for t
    using that by (induction t rule: unquote_bytes.induct) auto
  then have u: "unquote_bytes s = s" using assms(2) by simp
  show ?thesis
  proof (cases s)
    case (Cons c r)
    then have "\<forall>d \<in> set r. d < 128" "c < 128"
      using assms(1) by (auto simp: is_ascii_def list_all_iff)
    then show ?thesis using Cons u utf8_replace_ascii [OF assms(1)]
      by (simp add: takeWhile_eq_all_conv [THEN iffD2] dropWhile_eq_Nil_conv [THEN iffD2])
  qed simp
qed

lemmas text_eval [eval_simps] =
  utf8_need_def utf8_second_def utf8_found_def utf8_scalar_def lower_text_def has_sub_def pieces_def
  name_separator_def

end
