(* ===== verification/Image_Model.thy ===== *)
theory Image_Model
  imports Publication_Keys Sha256 Py_Text
begin

text \<open>
  The data of the image indexer (\<open>models/image.py\<close>, \<open>utils/\<close> and the pure part of
  \<open>data/redis_client.py\<close>): the bounds, the parsers of manifest and payload keys, the \<open>Image\<close> record
  with its construction from a Redis payload, and the words of a file name.

  The lemmas: the key parsers accept exactly the keys that the key builders make, in one way, and a
  payload becomes an image only when all of its fields are those of its publication.
\<close>

section \<open>Constants\<close>

definition MAX_IMAGE_ALT_BYTES :: nat where "MAX_IMAGE_ALT_BYTES = 4096"
definition MAX_IMAGES_PER_PAGE :: nat where "MAX_IMAGES_PER_PAGE = 1000"
definition MAX_MANIFEST_BYTES :: nat where "MAX_MANIFEST_BYTES = 4 * 1024 * 1024"
definition MAX_INDEX_WORDS :: nat where "MAX_INDEX_WORDS = 1000"
definition IMAGE_DEAD_LETTER_MAX_ENTRIES :: nat where "IMAGE_DEAD_LETTER_MAX_ENTRIES = 1000"
definition IMAGE_RECOVERY_BATCH_SIZE :: nat where "IMAGE_RECOVERY_BATCH_SIZE = 100"

definition PAGE_IMAGES_PREFIX :: pystr where "PAGE_IMAGES_PREFIX = py ''page_images''"
definition IMAGE_PREFIX :: pystr where "IMAGE_PREFIX = py ''image_data''"

definition FILE_TYPES :: "pystr list" where
  "FILE_TYPES = map py [''png'', ''svg'', ''ico'', ''gif'', ''jpeg'', ''jpg'']"

lemmas image_constants =
  MAX_IMAGE_ALT_BYTES_def MAX_IMAGES_PER_PAGE_def MAX_MANIFEST_BYTES_def MAX_INDEX_WORDS_def
  IMAGE_DEAD_LETTER_MAX_ENTRIES_def IMAGE_RECOVERY_BATCH_SIZE_def PAGE_IMAGES_PREFIX_def
  IMAGE_PREFIX_def FILE_TYPES_def

section \<open>Keys\<close>

text \<open>\<open>hashlib.sha256(text.encode()).hexdigest()\<close>\<close>

definition sha256_text :: "pystr \<Rightarrow> exn + pystr" where
  "sha256_text s = (case utf8_encode s of None \<Rightarrow> Inl (UnicodeError ''encode'') | Some b \<Rightarrow> Inr (sha256_hex b))"

definition image_claim_reference :: "pystr \<Rightarrow> exn + pystr" where
  "image_claim_reference value = bindE (sha256_text value) (\<lambda>h. Inr (take 16 h))"

definition image_decode_url :: "pystr \<Rightarrow> exn + pystr" where
  "image_decode_url encoded = decode_key_url InvalidImageWork encoded"

definition parse_manifest_key :: "pystr \<Rightarrow> exn + pystr \<times> pystr \<times> pystr" where
  "parse_manifest_key manifest_key =
     (case split_max 58 2 manifest_key of
        [prefix, publication_id, encoded] \<Rightarrow>
          if prefix = PAGE_IMAGES_PREFIX \<and> publication_id_ok publication_id
          then bindE (image_decode_url encoded) (\<lambda>url. Inr (publication_id, url, encoded))
          else Inl (InvalidImageWork ''invalid manifest key'')
      | _ \<Rightarrow> Inl (InvalidImageWork ''invalid manifest key''))"

definition parse_payload_key :: "pystr \<Rightarrow> exn + pystr \<times> pystr \<times> pystr" where
  "parse_payload_key payload_key =
     (case split_max 58 3 payload_key of
        [prefix, publication_id, encoded_page, encoded_source] \<Rightarrow>
          if prefix = IMAGE_PREFIX \<and> publication_id_ok publication_id
          then bindE (image_decode_url encoded_page) (\<lambda>page_url.
               bindE (image_decode_url encoded_source) (\<lambda>source_url.
               Inr (publication_id, page_url, source_url)))
          else Inl (InvalidImageWork ''invalid payload key'')
      | _ \<Rightarrow> Inl (InvalidImageWork ''invalid payload key''))"

text \<open>The texts these keys have.\<close>

definition manifest_key_text :: "pystr \<Rightarrow> pystr \<Rightarrow> pystr" where
  "manifest_key_text publication_id encoded = PAGE_IMAGES_PREFIX @ [58] @ publication_id @ [58] @ encoded"

definition payload_key_text :: "pystr \<Rightarrow> pystr \<Rightarrow> pystr \<Rightarrow> pystr" where
  "payload_key_text publication_id encoded_page encoded_source =
     IMAGE_PREFIX @ [58] @ publication_id @ [58] @ encoded_page @ [58] @ encoded_source"

section \<open>Images\<close>

record image =
  im_id :: pystr
  im_source_url :: pystr
  im_page_url :: pystr
  im_alt :: pystr
  im_filename :: pystr

record image_work =
  iw_manifest_key :: pystr
  iw_publication_id :: pystr
  iw_page_url :: pystr
  iw_payload_keys :: "pystr list"
  iw_images :: "image list"
  iw_serialized_keys :: pystr

definition association_id :: "pystr \<Rightarrow> pystr \<Rightarrow> exn + pystr" where
  "association_id page_url source_url = sha256_text (page_url @ [0] @ source_url)"

definition image_filename :: "ucd \<Rightarrow> pystr \<Rightarrow> exn + pystr" where
  "image_filename u source_url =
     bindE (urlsplit u source_url) (\<lambda>r. Inr (take 512 (unquote (snd (snd (rpartition_at 47 (sr_path r)))))))"

definition payload_fields :: "pystr list" where
  "payload_fields = map py
     [''contract_version'', ''publication_id'', ''normalized_page_url'', ''normalized_source_url'', ''alt'']"

definition image_from_contract ::
    "ucd \<Rightarrow> (pystr, pystr) dict \<Rightarrow> pystr \<Rightarrow> pystr \<Rightarrow> exn + image" where
  "image_from_contract u payload publication_id page_url =
     bindE (requireE (fst ` set payload = set payload_fields)
       (ValueError ''image payload fields do not match contract'')) (\<lambda>_.
     bindE (requireE (map_of payload (py ''contract_version'') = Some (py ''1''))
       (ValueError ''unsupported image payload contract'')) (\<lambda>_.
     bindE (requireE (map_of payload (py ''publication_id'') = Some publication_id)
       (ValueError ''image payload publication mismatch'')) (\<lambda>_.
     bindE (requireE (map_of payload (py ''normalized_page_url'') = Some page_url)
       (ValueError ''image payload page mismatch'')) (\<lambda>_.
     let source_url = the (map_of payload (py ''normalized_source_url''));
         alt = the (map_of payload (py ''alt'')) in
     bindE (requireE (source_url \<noteq> []) (ValueError ''image source is required'')) (\<lambda>_.
     bindE (association_id page_url source_url) (\<lambda>ident.
     bindE (image_filename u source_url) (\<lambda>filename.
     Inr \<lparr>im_id = ident, im_source_url = source_url, im_page_url = page_url, im_alt = alt,
          im_filename = filename\<rparr>)))))))"

text \<open>The words of a file name or an alternative text; \<open>t\<close> lower-cases text beyond ASCII.\<close>

definition name_word_ok :: "(pystr \<Rightarrow> pystr) \<Rightarrow> pystr \<Rightarrow> bool" where
  "name_word_ok t part \<longleftrightarrow> lower_text t part \<notin> set FILE_TYPES \<and> \<not> has_sub (py ''px'') (lower_text t part)"

definition part_size :: "pystr \<Rightarrow> exn + nat" where
  "part_size s = (case utf8_encode s of None \<Rightarrow> Inl (UnicodeError ''encode'') | Some b \<Rightarrow> Inr (length b))"

definition split_name :: "(pystr \<Rightarrow> pystr) \<Rightarrow> pystr \<Rightarrow> exn + pystr list" where
  "split_name t filename =
     bindE (mapE (\<lambda>part. bindE (part_size part) (\<lambda>n. Inr (part, n))) (pieces name_separator filename)) (\<lambda>sized.
     Inr (take 100 (map (lower_text t \<circ> fst) (filter (\<lambda>(part, n). n \<le> 256 \<and> name_word_ok t part) sized))))"

section \<open>Key parsing\<close>

lemma split_max_2 [simp]: "split_max c (Suc 0) s = (if c \<in> set s then [takeWhile (\<lambda>d. d \<noteq> c) s, drop 1 (dropWhile (\<lambda>d. d \<noteq> c) s)] else [s])"
  by simp

lemma split_max_join:
  "c \<notin> set p \<Longrightarrow> split_max c (Suc n) (p @ c # s) = p # split_max c n s"
  by (simp add: takeWhile_append dropWhile_append)

lemma split_max_parts:
  "split_max c n s = p # q # ps \<Longrightarrow> c \<notin> set p \<and> (\<exists>r. s = p @ c # r \<and> split_max c (n - 1) r = q # ps)"
proof (cases n)
  case (Suc m)
  assume a: "split_max c n s = p # q # ps"
  then have "c \<in> set s" using Suc by (auto split: if_splits)
  then have "s = takeWhile (\<lambda>d. d \<noteq> c) s @ c # drop 1 (dropWhile (\<lambda>d. d \<noteq> c) s)"
    by (induction s) auto
  moreover have "c \<notin> set (takeWhile (\<lambda>d. d \<noteq> c) s)" by (auto dest: set_takeWhileD)
  ultimately show ?thesis using a Suc \<open>c \<in> set s\<close> by auto
qed simp

lemma publication_id_clean: "publication_id_ok p \<Longrightarrow> 58 \<notin> set p"
  by (auto simp: publication_id_ok_def list_all_iff ascii_digit_def)

lemma prefixes_clean [simp]: "58 \<notin> set PAGE_IMAGES_PREFIX" "58 \<notin> set IMAGE_PREFIX"
  by (simp_all add: image_constants py_def)

lemma parse_manifest_key_iff:
  "parse_manifest_key key = Inr (publication_id, url, encoded) \<longleftrightarrow>
     publication_id_ok publication_id \<and> key_url_ok url \<and> encode_key_url url = Some encoded \<and>
     key = manifest_key_text publication_id encoded"
proof
  assume a: "parse_manifest_key key = Inr (publication_id, url, encoded)"
  then have parts: "split_max 58 2 key = [PAGE_IMAGES_PREFIX, publication_id, encoded]"
    and ok: "publication_id_ok publication_id" "image_decode_url encoded = Inr url"
    by (auto simp: parse_manifest_key_def sum_iffs split: list.splits if_splits)
  obtain r where "key = PAGE_IMAGES_PREFIX @ 58 # r" "split_max 58 1 r = [publication_id, encoded]"
    using split_max_parts [OF parts] by auto
  moreover then obtain r' where "r = publication_id @ 58 # r'" "split_max 58 0 r' = [encoded]"
    using split_max_parts [of 58 1 r publication_id encoded "[]"] by auto
  ultimately show "publication_id_ok publication_id \<and> key_url_ok url \<and> encode_key_url url = Some encoded \<and>
     key = manifest_key_text publication_id encoded"
    using ok by (simp add: manifest_key_text_def image_decode_url_def decode_key_url_iff)
next
  assume b: "publication_id_ok publication_id \<and> key_url_ok url \<and> encode_key_url url = Some encoded \<and>
     key = manifest_key_text publication_id encoded"
  then have "split_max 58 2 key = [PAGE_IMAGES_PREFIX, publication_id, encoded]"
    using publication_id_clean [of publication_id]
    by (simp add: manifest_key_text_def numeral_2_eq_2 split_max_join del: split_max.simps(2) split_max_2)
  then show "parse_manifest_key key = Inr (publication_id, url, encoded)"
    using b by (simp add: parse_manifest_key_def image_decode_url_def decode_key_url_iff sum_iffs)
qed

lemma parse_payload_key_iff:
  "parse_payload_key key = Inr (publication_id, page_url, source_url) \<longleftrightarrow>
     publication_id_ok publication_id \<and> key_url_ok page_url \<and> key_url_ok source_url \<and>
     (\<exists>p s. encode_key_url page_url = Some p \<and> encode_key_url source_url = Some s \<and>
        key = payload_key_text publication_id p s)"
proof
  assume a: "parse_payload_key key = Inr (publication_id, page_url, source_url)"
  then obtain p s where parts: "split_max 58 3 key = [IMAGE_PREFIX, publication_id, p, s]"
    and ok: "publication_id_ok publication_id" "image_decode_url p = Inr page_url" "image_decode_url s = Inr source_url"
    by (auto simp: parse_payload_key_def sum_iffs split: list.splits if_splits)
  obtain r1 where 1: "key = IMAGE_PREFIX @ 58 # r1" "split_max 58 2 r1 = [publication_id, p, s]"
    using split_max_parts [OF parts] by auto
  obtain r2 where 2: "r1 = publication_id @ 58 # r2" "split_max 58 1 r2 = [p, s]"
    using split_max_parts [OF 1(2)] by auto
  obtain r3 where 3: "r2 = p @ 58 # r3" "split_max 58 0 r3 = [s]"
    using split_max_parts [OF 2(2)] by auto
  show "publication_id_ok publication_id \<and> key_url_ok page_url \<and> key_url_ok source_url \<and>
     (\<exists>p s. encode_key_url page_url = Some p \<and> encode_key_url source_url = Some s \<and>
        key = payload_key_text publication_id p s)"
    using 1 2 3 ok by (simp add: payload_key_text_def image_decode_url_def decode_key_url_iff)
next
  assume "publication_id_ok publication_id \<and> key_url_ok page_url \<and> key_url_ok source_url \<and>
     (\<exists>p s. encode_key_url page_url = Some p \<and> encode_key_url source_url = Some s \<and>
        key = payload_key_text publication_id p s)"
  then obtain p s where b: "publication_id_ok publication_id" "key_url_ok page_url" "key_url_ok source_url"
    "encode_key_url page_url = Some p" "encode_key_url source_url = Some s" "key = payload_key_text publication_id p s"
    by blast
  then have "split_max 58 3 key = [IMAGE_PREFIX, publication_id, p, s]"
    using publication_id_clean [of publication_id] encode_key_url_clean [of page_url p]
    by (simp add: payload_key_text_def numeral_3_eq_3 split_max_join del: split_max.simps(2) split_max_2)
  then show "parse_payload_key key = Inr (publication_id, page_url, source_url)"
    using b by (simp add: parse_payload_key_def image_decode_url_def decode_key_url_iff sum_iffs)
qed

lemma parse_manifest_key_errors: "parse_manifest_key key = Inl e \<Longrightarrow> \<exists>s. e = InvalidImageWork s"
  by (auto simp: parse_manifest_key_def image_decode_url_def sum_iffs split: list.splits if_splits
      dest: decode_key_url_errors)

lemma parse_payload_key_errors: "parse_payload_key key = Inl e \<Longrightarrow> \<exists>s. e = InvalidImageWork s"
  by (auto simp: parse_payload_key_def image_decode_url_def sum_iffs split: list.splits if_splits
      dest: decode_key_url_errors)

section \<open>Image construction\<close>

lemma image_from_contract_fields:
  assumes "image_from_contract u payload publication_id page_url = Inr img"
  shows "im_page_url img = page_url" and "association_id page_url (im_source_url img) = Inr (im_id img)"
    and "map_of payload (py ''publication_id'') = Some publication_id"
    and "map_of payload (py ''normalized_page_url'') = Some page_url"
    and "map_of payload (py ''normalized_source_url'') = Some (im_source_url img)"
    and "map_of payload (py ''alt'') = Some (im_alt img)"
    and "map_of payload (py ''contract_version'') = Some (py ''1'')"
    and "im_source_url img \<noteq> []" and "length (im_filename img) \<le> 512"
proof -
  have f: "fst ` set payload = set payload_fields"
    using assms by (simp add: image_from_contract_def sum_iffs Let_def)
  then have "map_of payload (py ''normalized_source_url'') \<noteq> None" "map_of payload (py ''alt'') \<noteq> None"
    by (auto simp: map_of_eq_None_iff payload_fields_def)
  then show "im_page_url img = page_url" and "association_id page_url (im_source_url img) = Inr (im_id img)"
    and "map_of payload (py ''publication_id'') = Some publication_id"
    and "map_of payload (py ''normalized_page_url'') = Some page_url"
    and "map_of payload (py ''normalized_source_url'') = Some (im_source_url img)"
    and "map_of payload (py ''alt'') = Some (im_alt img)"
    and "map_of payload (py ''contract_version'') = Some (py ''1'')"
    and "im_source_url img \<noteq> []" and "length (im_filename img) \<le> 512"
    using assms by (auto simp: image_from_contract_def image_filename_def sum_iffs Let_def)
qed

lemma split_name_bounds:
  "split_name t s = Inr ws \<Longrightarrow> length ws \<le> 100 \<and> (\<forall>w \<in> set ws. w \<notin> set FILE_TYPES \<and> \<not> has_sub (py ''px'') w)"
  by (auto simp: split_name_def sum_iffs name_word_ok_def dest!: in_set_takeD)

lemmas image_model_eval [eval_simps] =
  image_constants sha256_text_def image_claim_reference_def image_decode_url_def parse_manifest_key_def
  parse_payload_key_def association_id_def image_filename_def payload_fields_def
  image_from_contract_def name_word_ok_def part_size_def split_name_def

end
