(* ===== verification/Json.thy ===== *)
theory Json
  imports Py_Str
begin

text \<open>
  \<open>json.loads\<close> and the part of \<open>json.dumps\<close> the services use (a list of texts, compact
  separators, ASCII only). Numbers keep their text: no caller looks at one. The parser recurses
  on fuel; every call consumes a character or returns to one that did, so \<open>2 * length + 2\<close> is
  never used up. CPython's recursion limit on nesting is not modelled.
\<close>

datatype json =
    JNull
  | JBool bool
  | JNumber pystr
  | JString pystr
  | JArray "json list"
  | JObject "(pystr \<times> json) list"

fun json_string :: "json \<Rightarrow> pystr option" where
  "json_string (JString s) = Some s"
| "json_string _ = None"

section \<open>Parsing\<close>

definition json_space :: "nat \<Rightarrow> bool" where
  "json_space c \<longleftrightarrow> c = 32 \<or> c = 9 \<or> c = 10 \<or> c = 13"

abbreviation skip_space :: "pystr \<Rightarrow> pystr" where
  "skip_space \<equiv> dropWhile json_space"

definition hex4 :: "pystr \<Rightarrow> nat option" where
  "hex4 s = (if length s < 4 \<or> \<not> list_all hex_digit (take 4 s) then None
             else Some (foldl (\<lambda>n c. 16 * n + hex_value c) 0 (take 4 s)))"

definition simple_escape :: "nat \<Rightarrow> nat option" where
  "simple_escape c = map_of [(34, 34), (92, 92), (47, 47), (98, 8), (102, 12), (110, 10), (114, 13), (116, 9)] c"

text \<open>An escape after the backslash: the character and how many characters of the text it took.\<close>

definition parse_escape :: "pystr \<Rightarrow> (nat \<times> nat) option" where
  "parse_escape s =
     (case s of
        [] \<Rightarrow> None
      | c # s' \<Rightarrow>
          if c \<noteq> 117 then map_option (\<lambda>v. (v, 1)) (simple_escape c)
          else (case hex4 s' of
                  None \<Rightarrow> None
                | Some n \<Rightarrow>
                    (let rest = drop 4 s' in
                     if 55296 \<le> n \<and> n < 56320 \<and> take 2 rest = [92, 117]
                     then (case hex4 (drop 2 rest) of
                             Some m \<Rightarrow> if 56320 \<le> m \<and> m < 57344
                                       then Some (65536 + (n - 55296) * 1024 + (m - 56320), 11)
                                       else Some (n, 5)
                           | None \<Rightarrow> None)
                     else Some (n, 5))))"

text \<open>The text after the opening quote.\<close>

function parse_string :: "pystr \<Rightarrow> (pystr \<times> pystr) option" where
  "parse_string s =
     (case s of
        [] \<Rightarrow> None
      | c # s' \<Rightarrow>
          if c = 34 then Some ([], s')
          else if c = 92 then
            (case parse_escape s' of
               None \<Rightarrow> None
             | Some (v, n) \<Rightarrow> map_option (\<lambda>(t, r). (v # t, r)) (parse_string (drop n s')))
          else if c < 32 then None
          else map_option (\<lambda>(t, r). (c # t, r)) (parse_string s'))"
  by auto
termination by (relation "measure length") auto

declare parse_string.simps [simp del]

definition digits_end :: "pystr \<Rightarrow> pystr" where
  "digits_end s = dropWhile ascii_digit s"

text \<open>The text that remains after a number, if there is one.\<close>

definition number_end :: "pystr \<Rightarrow> pystr option" where
  "number_end s =
     (let body = (if take 1 s = [45] then drop 1 s else s) in
      case body of
        [] \<Rightarrow> None
      | c # s' \<Rightarrow>
          if \<not> ascii_digit c then None
          else (let s1 = (if c = 48 then s' else digits_end s');
                    s2 = (case s1 of
                            p # d # r \<Rightarrow> if p = 46 \<and> ascii_digit d then digits_end (d # r) else s1
                          | _ \<Rightarrow> s1);
                    s3 = (case s2 of
                            e # r \<Rightarrow>
                              if e = 101 \<or> e = 69
                              then (let r' = (if take 1 r = [43] \<or> take 1 r = [45] then drop 1 r else r) in
                                    if take 1 r' \<noteq> [] \<and> ascii_digit (hd r') then digits_end r' else s2)
                              else s2
                          | [] \<Rightarrow> s2)
                in Some s3))"

definition parse_literal :: "pystr \<Rightarrow> (json \<times> pystr) option" where
  "parse_literal s =
     (if starts_with (py ''null'') s then Some (JNull, drop 4 s)
      else if starts_with (py ''true'') s then Some (JBool True, drop 4 s)
      else if starts_with (py ''false'') s then Some (JBool False, drop 5 s)
      else if starts_with (py ''NaN'') s then Some (JNumber (py ''NaN''), drop 3 s)
      else if starts_with (py ''Infinity'') s then Some (JNumber (py ''Infinity''), drop 8 s)
      else if starts_with (py ''-Infinity'') s then Some (JNumber (py ''-Infinity''), drop 9 s)
      else (case number_end s of
              None \<Rightarrow> None
            | Some r \<Rightarrow> Some (JNumber (take (length s - length r) s), r)))"

text \<open>
  \<open>parse_items\<close> is after the opening bracket or a comma, \<open>parse_members\<close> after the opening brace
  or a comma; both have skipped white space.
\<close>

fun parse_value :: "nat \<Rightarrow> pystr \<Rightarrow> (json \<times> pystr) option"
  and parse_items :: "nat \<Rightarrow> pystr \<Rightarrow> (json list \<times> pystr) option"
  and parse_members :: "nat \<Rightarrow> pystr \<Rightarrow> ((pystr \<times> json) list \<times> pystr) option" where
  "parse_value 0 s = None"
| "parse_value (Suc n) s =
     (case s of
        [] \<Rightarrow> None
      | c # r \<Rightarrow>
          if c = 34 then map_option (\<lambda>(t, r'). (JString t, r')) (parse_string r)
          else if c = 91 then
            (case skip_space r of
               [] \<Rightarrow> None
             | d # r' \<Rightarrow> if d = 93 then Some (JArray [], r')
                         else map_option (\<lambda>(vs, r''). (JArray vs, r'')) (parse_items n (d # r')))
          else if c = 123 then
            (case skip_space r of
               [] \<Rightarrow> None
             | d # r' \<Rightarrow> if d = 125 then Some (JObject [], r')
                         else map_option (\<lambda>(ms, r''). (JObject ms, r'')) (parse_members n (d # r')))
          else parse_literal s)"
| "parse_items 0 s = None"
| "parse_items (Suc n) s =
     (case parse_value n s of
        None \<Rightarrow> None
      | Some (v, r) \<Rightarrow>
          (case skip_space r of
             [] \<Rightarrow> None
           | c # r' \<Rightarrow>
               if c = 93 then Some ([v], r')
               else if c = 44 then map_option (\<lambda>(vs, r''). (v # vs, r'')) (parse_items n (skip_space r'))
               else None))"
| "parse_members 0 s = None"
| "parse_members (Suc n) s =
     (case s of
        [] \<Rightarrow> None
      | q # r \<Rightarrow>
          if q \<noteq> 34 then None
          else (case parse_string r of
                  None \<Rightarrow> None
                | Some (k, r1) \<Rightarrow>
                    (case skip_space r1 of
                       [] \<Rightarrow> None
                     | c # r2 \<Rightarrow>
                         if c \<noteq> 58 then None
                         else (case parse_value n (skip_space r2) of
                                 None \<Rightarrow> None
                               | Some (v, r3) \<Rightarrow>
                                   (case skip_space r3 of
                                      [] \<Rightarrow> None
                                    | d # r4 \<Rightarrow>
                                        if d = 125 then Some ([(k, v)], r4)
                                        else if d = 44 then
                                          map_option (\<lambda>(ms, r5). ((k, v) # ms, r5)) (parse_members n (skip_space r4))
                                        else None)))))"

definition json_loads :: "pystr \<Rightarrow> json option" where
  "json_loads s =
     (case parse_value (2 * length s + 2) (skip_space s) of
        Some (v, r) \<Rightarrow> if skip_space r = [] then Some v else None
      | None \<Rightarrow> None)"

section \<open>Printing\<close>

definition hex4_text :: "nat \<Rightarrow> pystr" where
  "hex4_text n = map (\<lambda>i. let d = n div 16 ^ i mod 16 in if d < 10 then 48 + d else 87 + d) [3, 2, 1, 0]"

definition escape_char :: "nat \<Rightarrow> pystr" where
  "escape_char c =
     (if c = 34 \<or> c = 92 then [92, c]
      else if 32 \<le> c \<and> c \<le> 126 then [c]
      else if c = 8 then [92, 98] else if c = 12 then [92, 102] else if c = 10 then [92, 110]
      else if c = 13 then [92, 114] else if c = 9 then [92, 116]
      else if c < 65536 then [92, 117] @ hex4_text c
      else [92, 117] @ hex4_text (55296 + (c - 65536) div 1024) @
           [92, 117] @ hex4_text (56320 + (c - 65536) mod 1024))"

definition dump_string :: "pystr \<Rightarrow> pystr" where
  "dump_string s = [34] @ concat (map escape_char s) @ [34]"

fun join_comma :: "pystr list \<Rightarrow> pystr" where
  "join_comma [] = []"
| "join_comma [s] = s"
| "join_comma (s # ss) = s @ [44] @ join_comma ss"

text \<open>\<open>json.dumps(texts, separators=(",", ":"))\<close>\<close>

definition json_dumps_texts :: "pystr list \<Rightarrow> pystr" where
  "json_dumps_texts ss = [91] @ join_comma (map dump_string ss) @ [93]"

lemmas json_eval [eval_simps] =
  json_space_def hex4_def simple_escape_def parse_escape_def digits_end_def
  number_end_def parse_literal_def json_loads_def hex4_text_def escape_char_def dump_string_def
  json_dumps_texts_def

section \<open>Round trip for plain texts\<close>

text \<open>Texts of printable ASCII characters without quotes and backslashes print as they are.\<close>

definition plain :: "pystr \<Rightarrow> bool" where
  "plain s \<longleftrightarrow> list_all (\<lambda>c. 32 \<le> c \<and> c \<le> 126 \<and> c \<noteq> 34 \<and> c \<noteq> 92) s"

lemma dump_plain: "plain s \<Longrightarrow> dump_string s = [34] @ s @ [34]"
proof -
  assume "plain s"
  then have "concat (map escape_char s) = s"
    by (induction s) (auto simp: plain_def escape_char_def)
  then show ?thesis by (simp add: dump_string_def)
qed

lemma parse_plain: "plain s \<Longrightarrow> parse_string (s @ 34 # r) = Some (s, r)"
  by (induction s) (auto simp: plain_def parse_string.simps)

lemma parse_value_plain:
  "plain s \<Longrightarrow> parse_value (Suc n) (dump_string s @ r) = Some (JString s, r)"
  by (simp add: dump_plain parse_plain)

lemma parse_items_last:
  "plain s \<Longrightarrow> parse_items (Suc (Suc n)) (dump_string s @ 93 # r) = Some ([JString s], r)"
  by (simp only: parse_items.simps parse_value_plain) (simp add: json_space_def)

lemma parse_items_more:
  "plain s \<Longrightarrow> parse_items (Suc (Suc n)) (dump_string s @ 44 # 34 # r) =
     map_option (\<lambda>(vs, r''). (JString s # vs, r'')) (parse_items (Suc n) (34 # r))"
  by (simp only: parse_items.simps(2) [of "Suc n"] parse_value_plain)
     (simp add: json_space_def del: parse_items.simps)

lemma join_comma_quote:
  "ss \<noteq> [] \<Longrightarrow> \<exists>j. join_comma (map dump_string ss) = 34 # j"
  by (cases ss rule: join_comma.cases) (auto simp: dump_string_def)

lemma parse_items_plain:
  "ss \<noteq> [] \<Longrightarrow> list_all plain ss \<Longrightarrow> Suc (length ss) \<le> n \<Longrightarrow>
     parse_items n (join_comma (map dump_string ss) @ 93 # r) = Some (map JString ss, r)"
proof (induction ss arbitrary: n rule: join_comma.induct)
  case (2 s)
  have n: "n = Suc (Suc (n - 2))" using "2.prems"(3) by simp
  have "plain s" using "2.prems" by simp
  then show ?case by (subst n) (simp add: parse_items_last del: parse_items.simps)
next
  case (3 s s' ss)
  define m where "m = n - 2"
  have n: "n = Suc (Suc m)" using "3.prems"(3) by (simp add: m_def)
  obtain j where j: "join_comma (map dump_string (s' # ss)) = 34 # j"
    using join_comma_quote by blast
  have "parse_items (Suc m) ((34 # j) @ 93 # r) = Some (map JString (s' # ss), r)"
    unfolding j [symmetric] using "3.prems" n by (intro "3.IH") auto
  moreover have "join_comma (map dump_string (s # s' # ss)) @ 93 # r = dump_string s @ 44 # 34 # j @ 93 # r"
    using j by simp
  moreover have "plain s" using "3.prems" by simp
  ultimately show ?case by (simp only: n parse_items_more) simp
qed simp

lemma length_join_comma: "length ss \<le> Suc (length (join_comma ss))"
  by (induction ss rule: join_comma.induct) auto

lemma json_loads_dumps:
  assumes "list_all plain ss"
  shows "json_loads (json_dumps_texts ss) = Some (JArray (map JString ss))"
proof (cases "ss = []")
  case True
  then show ?thesis by (simp add: json_loads_def json_dumps_texts_def json_space_def eval_nat_numeral)
next
  case False
  let ?n = "2 * length (json_dumps_texts ss) + 1"
  obtain j where j: "join_comma (map dump_string ss) = 34 # j"
    using False join_comma_quote by blast
  have "parse_items ?n ((34 # j) @ [93]) = Some (map JString ss, [])"
    unfolding j [symmetric] using False assms length_join_comma [of "map dump_string ss"]
    by (intro parse_items_plain) (auto simp: json_dumps_texts_def)
  then show ?thesis using j
    by (simp add: json_loads_def json_dumps_texts_def json_space_def del: parse_items.simps)
qed

end
