(* ===== verification/Redis_Store.thy ===== *)
theory Redis_Store
  imports Py_Str
begin

text \<open>
  The Redis commands that the embedded Lua scripts call, as a parameter \<open>'w redis_cmds\<close> over an
  abstract server state \<open>'w\<close>, and what the scripts rely on: \<open>redis_documented C V\<close> says that the
  commands act on the keyspace \<open>V w\<close> as the Redis documentation has it. \<open>mem_redis\<close> is a keyspace
  that is its own view.

  A script runs alone on the server, so it is a \<open>prog\<close> on the server state; \<open>redis.error_reply\<close>
  is the exception \<open>RedisResponseError\<close>. \<open>simulates\<close> carries a fact about a script from
  \<open>mem_redis\<close> to every documented server.
\<close>

section \<open>Keyspace\<close>

datatype rvalue =
    RStr bytes
  | RList "bytes list"
  | RHash "(bytes, bytes) dict"
  | RSet "bytes list"
  | RZset "(bytes, nat) dict"

type_synonym rdb = "bytes \<Rightarrow> rvalue option"

fun type_of :: "rvalue option \<Rightarrow> string" where
  "type_of None = ''none''"
| "type_of (Some (RStr _)) = ''string''"
| "type_of (Some (RList _)) = ''list''"
| "type_of (Some (RHash _)) = ''hash''"
| "type_of (Some (RSet _)) = ''set''"
| "type_of (Some (RZset _)) = ''zset''"

fun str_of :: "rvalue option \<Rightarrow> bytes option" where
  "str_of (Some (RStr s)) = Some s"
| "str_of _ = None"

fun list_of :: "rvalue option \<Rightarrow> bytes list" where
  "list_of (Some (RList xs)) = xs"
| "list_of _ = []"

fun hash_of :: "rvalue option \<Rightarrow> (bytes, bytes) dict" where
  "hash_of (Some (RHash h)) = h"
| "hash_of _ = []"

text \<open>The members of a set, each once, in the order the server lists them.\<close>

fun members_of :: "rvalue option \<Rightarrow> bytes list" where
  "members_of (Some (RSet ms)) = ms"
| "members_of _ = []"

text \<open>Redis deletes a list that becomes empty.\<close>

definition list_value :: "bytes list \<Rightarrow> rvalue option" where
  "list_value xs = (if xs = [] then None else Some (RList xs))"

lemma list_of_value [simp]: "list_of (list_value xs) = xs"
  by (simp add: list_value_def)

lemma type_of_list_value [simp]: "type_of (list_value xs) = (if xs = [] then ''none'' else ''list'')"
  by (simp add: list_value_def)

lemma type_of_string: "type_of v = ''string'' \<longleftrightarrow> (\<exists>s. v = Some (RStr s))"
  by (cases v rule: type_of.cases) auto

lemma type_of_list: "type_of v = ''list'' \<longleftrightarrow> (\<exists>xs. v = Some (RList xs))"
  by (cases v rule: type_of.cases) auto

lemma type_of_hash: "type_of v = ''hash'' \<longleftrightarrow> (\<exists>h. v = Some (RHash h))"
  by (cases v rule: type_of.cases) auto

lemma type_of_none: "type_of v = ''none'' \<longleftrightarrow> v = None"
  by (cases v rule: type_of.cases) auto

lemmas type_of_iffs = type_of_string type_of_list type_of_hash type_of_none

section \<open>Commands\<close>

record 'w redis_cmds =
  c_type :: "bytes \<Rightarrow> 'w \<Rightarrow> string"
  c_get :: "bytes \<Rightarrow> 'w \<Rightarrow> bytes option"
  c_lrange :: "bytes \<Rightarrow> 'w \<Rightarrow> bytes list"
  c_hgetall :: "bytes \<Rightarrow> 'w \<Rightarrow> (bytes, bytes) dict"
  c_smembers :: "bytes \<Rightarrow> 'w \<Rightarrow> bytes list"
  c_set :: "bytes \<Rightarrow> bytes \<Rightarrow> 'w \<Rightarrow> 'w"
  c_incr :: "bytes \<Rightarrow> 'w \<Rightarrow> 'w"
  c_del :: "bytes list \<Rightarrow> 'w \<Rightarrow> 'w"
  c_rpush :: "bytes \<Rightarrow> bytes \<Rightarrow> 'w \<Rightarrow> 'w"
  c_lpush :: "bytes \<Rightarrow> bytes \<Rightarrow> 'w \<Rightarrow> 'w"
  c_lpop :: "bytes \<Rightarrow> 'w \<Rightarrow> 'w"
  c_rpoplpush :: "bytes \<Rightarrow> bytes \<Rightarrow> 'w \<Rightarrow> 'w"
  c_lrem :: "bytes \<Rightarrow> bytes \<Rightarrow> 'w \<Rightarrow> 'w"
  c_ltrim :: "bytes \<Rightarrow> nat \<Rightarrow> 'w \<Rightarrow> 'w"

text \<open>The reads that are expressed through these: \<open>EXISTS\<close>, \<open>LPOS\<close>, \<open>LINDEX k 0\<close>, \<open>LLEN\<close>, \<open>HGET\<close>, \<open>HLEN\<close>, \<open>HSTRLEN\<close>.\<close>

definition c_exists :: "('w, 'z) redis_cmds_scheme \<Rightarrow> bytes \<Rightarrow> 'w \<Rightarrow> bool" where
  "c_exists C k w \<longleftrightarrow> c_type C k w \<noteq> ''none''"

definition c_lpos :: "('w, 'z) redis_cmds_scheme \<Rightarrow> bytes \<Rightarrow> bytes \<Rightarrow> 'w \<Rightarrow> bool" where
  "c_lpos C k v w \<longleftrightarrow> v \<in> set (c_lrange C k w)"

definition c_lhead :: "('w, 'z) redis_cmds_scheme \<Rightarrow> bytes \<Rightarrow> 'w \<Rightarrow> bytes option" where
  "c_lhead C k w = (case c_lrange C k w of [] \<Rightarrow> None | x # _ \<Rightarrow> Some x)"

definition c_llen :: "('w, 'z) redis_cmds_scheme \<Rightarrow> bytes \<Rightarrow> 'w \<Rightarrow> nat" where
  "c_llen C k w = length (c_lrange C k w)"

definition c_hget :: "('w, 'z) redis_cmds_scheme \<Rightarrow> bytes \<Rightarrow> bytes \<Rightarrow> 'w \<Rightarrow> bytes option" where
  "c_hget C k f w = map_of (c_hgetall C k w) f"

definition c_hlen :: "('w, 'z) redis_cmds_scheme \<Rightarrow> bytes \<Rightarrow> 'w \<Rightarrow> nat" where
  "c_hlen C k w = length (c_hgetall C k w)"

definition c_hstrlen :: "('w, 'z) redis_cmds_scheme \<Rightarrow> bytes \<Rightarrow> bytes \<Rightarrow> 'w \<Rightarrow> nat" where
  "c_hstrlen C k f w = (case c_hget C k f w of None \<Rightarrow> 0 | Some v \<Rightarrow> length v)"

section \<open>A reference keyspace\<close>

definition mem_set_list :: "bytes \<Rightarrow> bytes list \<Rightarrow> rdb \<Rightarrow> rdb" where
  "mem_set_list k xs db = db(k := list_value xs)"

definition mem_redis :: "rdb redis_cmds" where
  "mem_redis =
     \<lparr>c_type = (\<lambda>k db. type_of (db k)),
      c_get = (\<lambda>k db. str_of (db k)),
      c_lrange = (\<lambda>k db. list_of (db k)),
      c_hgetall = (\<lambda>k db. hash_of (db k)),
      c_smembers = (\<lambda>k db. members_of (db k)),
      c_set = (\<lambda>k v db. db(k \<mapsto> RStr v)),
      c_incr = (\<lambda>k db. db(k \<mapsto> RStr (show_nat ((case str_of (db k) of None \<Rightarrow> 0 | Some s \<Rightarrow> decimal_value s) + 1)))),
      c_del = (\<lambda>ks db k. if k \<in> set ks then None else db k),
      c_rpush = (\<lambda>k v db. mem_set_list k (list_of (db k) @ [v]) db),
      c_lpush = (\<lambda>k v db. mem_set_list k (v # list_of (db k)) db),
      c_lpop = (\<lambda>k db. mem_set_list k (tl (list_of (db k))) db),
      c_rpoplpush = (\<lambda>k k' db.
        if list_of (db k) = [] then db
        else let v = last (list_of (db k)); db' = mem_set_list k (butlast (list_of (db k))) db
             in mem_set_list k' (v # list_of (db' k')) db'),
      c_lrem = (\<lambda>k v db. mem_set_list k (remove1 v (list_of (db k))) db),
      c_ltrim = (\<lambda>k n db. mem_set_list k (take n (list_of (db k))) db)\<rparr>"

lemma mem_redis_cmds [simp]:
  "c_type mem_redis k db = type_of (db k)"
  "c_get mem_redis k db = str_of (db k)"
  "c_lrange mem_redis k db = list_of (db k)"
  "c_hgetall mem_redis k db = hash_of (db k)"
  "c_smembers mem_redis k db = members_of (db k)"
  "c_set mem_redis k v db = db(k \<mapsto> RStr v)"
  "c_incr mem_redis k db = db(k \<mapsto> RStr (show_nat ((case str_of (db k) of None \<Rightarrow> 0 | Some s \<Rightarrow> decimal_value s) + 1)))"
  "c_del mem_redis ks db k' = (if k' \<in> set ks then None else db k')"
  "c_rpush mem_redis k v db = mem_set_list k (list_of (db k) @ [v]) db"
  "c_lpush mem_redis k v db = mem_set_list k (v # list_of (db k)) db"
  "c_lpop mem_redis k db = mem_set_list k (tl (list_of (db k))) db"
  "c_lrem mem_redis k v db = mem_set_list k (remove1 v (list_of (db k))) db"
  "c_ltrim mem_redis k n db = mem_set_list k (take n (list_of (db k))) db"
  by (simp_all add: mem_redis_def)

lemma mem_rpoplpush [simp]:
  "c_rpoplpush mem_redis k k' db =
     (if list_of (db k) = [] then db
      else let v = last (list_of (db k)); db' = mem_set_list k (butlast (list_of (db k))) db
           in mem_set_list k' (v # list_of (db' k')) db')"
  by (simp add: mem_redis_def)

lemma mem_set_list_at [simp]: "mem_set_list k xs db k' = (if k' = k then list_value xs else db k')"
  by (simp add: mem_set_list_def)

text \<open>
  What the scripts rely on. The write commands are only relied on for keys of the right type:
  the scripts check the types first.
\<close>

definition redis_documented :: "('w, 'z) redis_cmds_scheme \<Rightarrow> ('w \<Rightarrow> rdb) \<Rightarrow> bool" where
  "redis_documented C V \<longleftrightarrow>
     (\<forall>k w. c_type C k w = c_type mem_redis k (V w)) \<and>
     (\<forall>k w. c_get C k w = c_get mem_redis k (V w)) \<and>
     (\<forall>k w. c_lrange C k w = c_lrange mem_redis k (V w)) \<and>
     (\<forall>k w. c_hgetall C k w = c_hgetall mem_redis k (V w)) \<and>
     (\<forall>k w. c_smembers C k w = c_smembers mem_redis k (V w)) \<and>
     (\<forall>k v w. V (c_set C k v w) = c_set mem_redis k v (V w)) \<and>
     (\<forall>k w. V (c_incr C k w) = c_incr mem_redis k (V w)) \<and>
     (\<forall>ks w. V (c_del C ks w) = c_del mem_redis ks (V w)) \<and>
     (\<forall>k v w. V (c_rpush C k v w) = c_rpush mem_redis k v (V w)) \<and>
     (\<forall>k v w. V (c_lpush C k v w) = c_lpush mem_redis k v (V w)) \<and>
     (\<forall>k w. V (c_lpop C k w) = c_lpop mem_redis k (V w)) \<and>
     (\<forall>k k' w. V (c_rpoplpush C k k' w) = c_rpoplpush mem_redis k k' (V w)) \<and>
     (\<forall>k v w. V (c_lrem C k v w) = c_lrem mem_redis k v (V w)) \<and>
     (\<forall>k n w. V (c_ltrim C k n w) = c_ltrim mem_redis k n (V w))"

lemma mem_redis_documented: "redis_documented mem_redis (\<lambda>w. w)"
  by (simp add: redis_documented_def)

section \<open>Simulation\<close>

definition simulates :: "('w \<Rightarrow> 'v) \<Rightarrow> ('w, 'a) prog \<Rightarrow> ('v, 'a) prog \<Rightarrow> bool" where
  "simulates V m m' \<longleftrightarrow> (\<forall>w. m' (V w) = (fst (m w), V (snd (m w))))"

named_theorems sim_intros \<open>rules of simulation\<close>

lemma simulatesD: "simulates V m m' \<Longrightarrow> m w = (r, w') \<Longrightarrow> m' (V w) = (r, V w')"
  by (simp add: simulates_def)

lemma simulates_ret [sim_intros]: "simulates V (ret x) (ret x)" "simulates V (raise e) (raise e)"
  by (simp_all add: simulates_def)

lemma simulates_get [sim_intros]: "(\<And>w. f w = g (V w)) \<Longrightarrow> simulates V (get_state f) (get_state g)"
  by (simp add: simulates_def)

lemma simulates_mod [sim_intros]: "(\<And>w. V (f w) = g (V w)) \<Longrightarrow> simulates V (mod_state f) (mod_state g)"
  by (simp add: simulates_def)

lemma simulates_bind [sim_intros]:
  "simulates V m m' \<Longrightarrow> (\<And>x. simulates V (f x) (g x)) \<Longrightarrow> simulates V (bind m f) (bind m' g)"
  by (simp add: simulates_def bind_eq split: prod.splits sum.splits)

lemma simulates_if [sim_intros]:
  "simulates V m m' \<Longrightarrow> simulates V n n' \<Longrightarrow> simulates V (if b then m else n) (if b then m' else n')"
  by simp

lemma documented_cmds:
  assumes "redis_documented C V"
  shows "c_type C k w = c_type mem_redis k (V w)" "c_get C k w = c_get mem_redis k (V w)"
    "c_lrange C k w = c_lrange mem_redis k (V w)" "c_hgetall C k w = c_hgetall mem_redis k (V w)"
    "c_smembers C k w = c_smembers mem_redis k (V w)"
    "V (c_set C k v w) = c_set mem_redis k v (V w)" "V (c_incr C k w) = c_incr mem_redis k (V w)"
    "V (c_del C ks w) = c_del mem_redis ks (V w)" "V (c_rpush C k v w) = c_rpush mem_redis k v (V w)"
    "V (c_lpush C k v w) = c_lpush mem_redis k v (V w)" "V (c_lpop C k w) = c_lpop mem_redis k (V w)"
    "V (c_rpoplpush C k k' w) = c_rpoplpush mem_redis k k' (V w)"
    "V (c_lrem C k v w) = c_lrem mem_redis k v (V w)" "V (c_ltrim C k n w) = c_ltrim mem_redis k n (V w)"
  using assms by (simp_all add: redis_documented_def)

lemma documented_reads:
  assumes "redis_documented C V"
  shows "c_exists C k w = c_exists mem_redis k (V w)" "c_lpos C k v w = c_lpos mem_redis k v (V w)"
    "c_lhead C k w = c_lhead mem_redis k (V w)" "c_llen C k w = c_llen mem_redis k (V w)"
    "c_hget C k f w = c_hget mem_redis k f (V w)" "c_hlen C k w = c_hlen mem_redis k (V w)"
    "c_hstrlen C k f w = c_hstrlen mem_redis k f (V w)"
  using documented_cmds [OF assms]
  by (simp_all add: c_exists_def c_lpos_def c_lhead_def c_llen_def c_hget_def c_hlen_def c_hstrlen_def)

lemmas redis_read_defs =
  c_exists_def c_lpos_def c_lhead_def c_llen_def c_hget_def c_hlen_def c_hstrlen_def

end
