(* ===== verification/Queue_Scripts.thy ===== *)
theory Queue_Scripts
  imports Redis_Store
begin

text \<open>
  The Lua scripts with which the indexer and the image indexer work on their Redis queues. Both
  services embed the same scripts up to the wording of the error replies and the order of two
  comparisons; \<open>queue_messages\<close> holds the wording and \<open>queue_keys\<close> the key names.

  \<^item> Ownership: a lock key holds \<open>token:epoch\<close> and a counter key the current epoch. A worker is
    the owner when both match what it was given.
  \<^item> Work: claims move from the queue to the processing list, and from there back to the queue
    (recover, release), to the bounded dead-letter list (quarantine) or out (acknowledged).
\<close>

record queue_keys =
  qk_lock :: bytes
  qk_epoch :: bytes
  qk_queue :: bytes
  qk_processing :: bytes
  qk_dead :: bytes

record queue_messages =
  qm_lock_type :: string
  qm_epoch_type :: string
  qm_epoch_value :: string
  qm_owner_types :: string
  qm_queue_type :: string
  qm_processing_type :: string
  qm_dead_type :: string

definition owner_text :: "bytes \<Rightarrow> nat \<Rightarrow> bytes" where
  "owner_text token epoch = token @ [58] @ show_nat epoch"

definition MAX_LUA_INTEGER :: nat where
  "MAX_LUA_INTEGER = 9007199254740991"

text \<open>The Lua pattern \<open>^[1-9][0-9]*$\<close>.\<close>

definition positive_decimal :: "bytes \<Rightarrow> bool" where
  "positive_decimal s \<longleftrightarrow> s \<noteq> [] \<and> list_all ascii_digit s \<and> hd s \<noteq> 48"

definition reject :: "string \<Rightarrow> ('w, 'a) prog" where
  "reject message = raise (RedisResponseError message)"

definition check :: "('w \<Rightarrow> bool) \<Rightarrow> string \<Rightarrow> ('w, unit) prog" where
  "check p message = bind (get_state p) (\<lambda>ok. if ok then ret () else reject message)"

abbreviation absent_or :: "string \<Rightarrow> ('w, 'z) redis_cmds_scheme \<Rightarrow> bytes \<Rightarrow> 'w \<Rightarrow> bool" where
  "absent_or t C k w \<equiv> c_type C k w = ''none'' \<or> c_type C k w = t"

definition owner_types :: "('w, 'z) redis_cmds_scheme \<Rightarrow> queue_keys \<Rightarrow> 'w \<Rightarrow> bool" where
  "owner_types C q w \<longleftrightarrow> c_type C (qk_lock q) w = ''string'' \<and> c_type C (qk_epoch q) w = ''string''"

definition owner_matches :: "('w, 'z) redis_cmds_scheme \<Rightarrow> queue_keys \<Rightarrow> bytes \<Rightarrow> bytes \<Rightarrow> 'w \<Rightarrow> bool" where
  "owner_matches C q owner epoch w \<longleftrightarrow>
     c_get C (qk_lock q) w = Some owner \<and> c_get C (qk_epoch q) w = Some epoch"

section \<open>Ownership\<close>

text \<open>\<open>None\<close> is the reply \<open>false\<close>: the lock is held.\<close>

definition acquire_script ::
    "('w, 'z) redis_cmds_scheme \<Rightarrow> queue_messages \<Rightarrow> queue_keys \<Rightarrow> bytes \<Rightarrow> ('w, bytes option) prog" where
  "acquire_script C m q token =
     bind (check (absent_or ''string'' C (qk_lock q)) (qm_lock_type m)) (\<lambda>_.
     bind (check (absent_or ''string'' C (qk_epoch q)) (qm_epoch_type m)) (\<lambda>_.
     bind (get_state (c_exists C (qk_lock q))) (\<lambda>held.
     if held then ret None
     else bind (get_state (c_get C (qk_epoch q))) (\<lambda>current.
       if (case current of None \<Rightarrow> False
           | Some s \<Rightarrow> \<not> positive_decimal s \<or> MAX_LUA_INTEGER \<le> decimal_value s)
       then reject (qm_epoch_value m)
       else bind (mod_state (c_incr C (qk_epoch q))) (\<lambda>_.
         bind (get_state (c_get C (qk_epoch q))) (\<lambda>epoch.
         case epoch of
           None \<Rightarrow> reject (qm_epoch_value m)
         | Some e \<Rightarrow> bind (mod_state (c_set C (qk_lock q) (token @ [58] @ e))) (\<lambda>_. ret (Some e))))))))"

text \<open>\<open>PEXPIRE\<close> answers 1 for a key that exists; expiry itself is a step of the environment.\<close>

definition renew_script ::
    "('w, 'z) redis_cmds_scheme \<Rightarrow> queue_messages \<Rightarrow> queue_keys \<Rightarrow> bytes \<Rightarrow> bytes \<Rightarrow> ('w, nat) prog" where
  "renew_script C m q owner epoch =
     bind (check (owner_types C q) (qm_owner_types m)) (\<lambda>_.
     bind (get_state (owner_matches C q owner epoch)) (\<lambda>mine. ret (if mine then 1 else 0)))"

definition drop_script ::
    "('w, 'z) redis_cmds_scheme \<Rightarrow> queue_keys \<Rightarrow> bytes \<Rightarrow> bytes \<Rightarrow> ('w, nat) prog" where
  "drop_script C q owner epoch =
     bind (get_state (\<lambda>w. owner_types C q w \<and> owner_matches C q owner epoch w)) (\<lambda>mine.
     if mine then bind (mod_state (c_del C [qk_lock q])) (\<lambda>_. ret 1) else ret 0)"

section \<open>Claims\<close>

text \<open>The guards every script of this part starts with; \<open>LOCK_LOST\<close> comes after the type checks.\<close>

definition require_owner ::
    "('w, 'z) redis_cmds_scheme \<Rightarrow> queue_keys \<Rightarrow> bytes \<Rightarrow> bytes \<Rightarrow> ('w, unit) prog" where
  "require_owner C q owner epoch = check (owner_matches C q owner epoch) ''LOCK_LOST''"

definition claim_script ::
    "('w, 'z) redis_cmds_scheme \<Rightarrow> queue_messages \<Rightarrow> queue_keys \<Rightarrow> bytes \<Rightarrow> bytes \<Rightarrow> ('w, bytes option) prog" where
  "claim_script C m q owner epoch =
     bind (check (owner_types C q) (qm_owner_types m)) (\<lambda>_.
     bind (check (absent_or ''list'' C (qk_queue q)) (qm_queue_type m)) (\<lambda>_.
     bind (check (absent_or ''list'' C (qk_processing q)) (qm_processing_type m)) (\<lambda>_.
     bind (require_owner C q owner epoch) (\<lambda>_.
     bind (get_state (c_lrange C (qk_queue q))) (\<lambda>queued.
     if queued = [] then ret None
     else bind (mod_state (c_rpoplpush C (qk_queue q) (qk_processing q))) (\<lambda>_. ret (Some (last queued))))))))"

primrec recover_loop :: "('w, 'z) redis_cmds_scheme \<Rightarrow> queue_keys \<Rightarrow> nat \<Rightarrow> nat \<Rightarrow> ('w, nat) prog" where
  "recover_loop C q 0 recovered = ret recovered"
| "recover_loop C q (Suc n) recovered =
     bind (get_state (c_lhead C (qk_processing q))) (\<lambda>value.
     case value of
       None \<Rightarrow> ret recovered
     | Some v \<Rightarrow>
         bind (mod_state (c_rpush C (qk_queue q) v)) (\<lambda>_.
         bind (mod_state (c_lpop C (qk_processing q))) (\<lambda>_. recover_loop C q n (recovered + 1))))"

definition recover_script ::
    "('w, 'z) redis_cmds_scheme \<Rightarrow> queue_messages \<Rightarrow> queue_keys \<Rightarrow> bytes \<Rightarrow> bytes \<Rightarrow> nat \<Rightarrow> ('w, nat) prog" where
  "recover_script C m q owner epoch limit =
     bind (check (owner_types C q) (qm_owner_types m)) (\<lambda>_.
     bind (check (absent_or ''list'' C (qk_processing q)) (qm_processing_type m)) (\<lambda>_.
     bind (check (absent_or ''list'' C (qk_queue q)) (qm_queue_type m)) (\<lambda>_.
     bind (require_owner C q owner epoch) (\<lambda>_.
     bind (check (\<lambda>_. 1 \<le> limit \<and> limit \<le> 1000) ''invalid recovery limit'') (\<lambda>_.
     recover_loop C q limit 0)))))"

definition release_script ::
    "('w, 'z) redis_cmds_scheme \<Rightarrow> queue_messages \<Rightarrow> queue_keys \<Rightarrow> bytes \<Rightarrow> bytes \<Rightarrow> bytes \<Rightarrow> ('w, nat) prog" where
  "release_script C m q owner epoch claim =
     bind (check (owner_types C q) (qm_owner_types m)) (\<lambda>_.
     bind (check (absent_or ''list'' C (qk_processing q)) (qm_processing_type m)) (\<lambda>_.
     bind (check (absent_or ''list'' C (qk_queue q)) (qm_queue_type m)) (\<lambda>_.
     bind (require_owner C q owner epoch) (\<lambda>_.
     bind (get_state (c_lpos C (qk_processing q) claim)) (\<lambda>present.
     if \<not> present then ret 0
     else bind (mod_state (c_rpush C (qk_queue q) claim)) (\<lambda>_.
          bind (mod_state (c_lrem C (qk_processing q) claim)) (\<lambda>_. ret 1)))))))"

definition quarantine_script ::
    "('w, 'z) redis_cmds_scheme \<Rightarrow> queue_messages \<Rightarrow> queue_keys \<Rightarrow> bytes \<Rightarrow> bytes \<Rightarrow> bytes \<Rightarrow> nat \<Rightarrow> ('w, nat) prog" where
  "quarantine_script C m q owner epoch claim limit =
     bind (check (owner_types C q) (qm_owner_types m)) (\<lambda>_.
     bind (check (absent_or ''list'' C (qk_processing q)) (qm_processing_type m)) (\<lambda>_.
     bind (check (absent_or ''list'' C (qk_dead q)) (qm_dead_type m)) (\<lambda>_.
     bind (require_owner C q owner epoch) (\<lambda>_.
     bind (get_state (c_lpos C (qk_processing q) claim)) (\<lambda>present.
     if \<not> present then ret 0
     else bind (check (\<lambda>_. 1 \<le> limit \<and> limit \<le> 10000) ''invalid dead-letter limit'') (\<lambda>_.
          bind (mod_state (c_lpush C (qk_dead q) claim)) (\<lambda>_.
          bind (mod_state (c_ltrim C (qk_dead q) limit)) (\<lambda>_.
          bind (mod_state (c_lrem C (qk_processing q) claim)) (\<lambda>_. ret 1)))))))))"

definition work_sizes_script ::
    "('w, 'z) redis_cmds_scheme \<Rightarrow> queue_messages \<Rightarrow> queue_keys \<Rightarrow> bytes \<Rightarrow> bytes \<Rightarrow> ('w, nat \<times> nat) prog" where
  "work_sizes_script C m q owner epoch =
     bind (check (owner_types C q) (qm_owner_types m)) (\<lambda>_.
     bind (check (absent_or ''list'' C (qk_queue q)) (qm_queue_type m)) (\<lambda>_.
     bind (check (absent_or ''list'' C (qk_processing q)) (qm_processing_type m)) (\<lambda>_.
     bind (require_owner C q owner epoch) (\<lambda>_.
     bind (get_state (c_llen C (qk_queue q))) (\<lambda>queued.
     bind (get_state (c_llen C (qk_processing q))) (\<lambda>processing. ret (queued, processing)))))))"

section \<open>The scripts on a documented server\<close>

text \<open>
  Every script does on a documented server what it does on the reference keyspace, so the facts
  below are about \<open>mem_redis\<close>.
\<close>

lemma simulates_check [sim_intros]: "(\<And>w. p w = p' (V w)) \<Longrightarrow> simulates V (check p msg) (check p' msg)"
  unfolding check_def reject_def by (intro sim_intros) auto

lemma simulates_case_option [sim_intros]:
  "simulates V m m' \<Longrightarrow> (\<And>x. simulates V (f x) (f' x)) \<Longrightarrow>
     simulates V (case v of None \<Rightarrow> m | Some x \<Rightarrow> f x) (case v of None \<Rightarrow> m' | Some x \<Rightarrow> f' x)"
  by (cases v) simp_all

lemma simulates_reject [sim_intros]: "simulates V (reject msg) (reject msg)"
  unfolding reject_def by (rule sim_intros)

lemma owner_documented:
  assumes "redis_documented C V"
  shows "owner_types C q w = owner_types mem_redis q (V w)"
    and "owner_matches C q owner epoch w = owner_matches mem_redis q owner epoch (V w)"
  using documented_cmds [OF assms] by (simp_all add: owner_types_def owner_matches_def)

lemma simulates_require_owner:
  "redis_documented C V \<Longrightarrow> simulates V (require_owner C q owner epoch) (require_owner mem_redis q owner epoch)"
  unfolding require_owner_def by (intro sim_intros) (simp add: owner_documented)

lemma simulates_recover_loop:
  assumes "redis_documented C V"
  shows "simulates V (recover_loop C q n r) (recover_loop mem_redis q n r)"
  by (induction n arbitrary: r)
    (auto intro!: sim_intros simp: documented_cmds [OF assms] documented_reads [OF assms])

lemma simulates_scripts:
  assumes "redis_documented C V"
  shows "simulates V (acquire_script C m q token) (acquire_script mem_redis m q token)"
    and "simulates V (renew_script C m q owner epoch) (renew_script mem_redis m q owner epoch)"
    and "simulates V (drop_script C q owner epoch) (drop_script mem_redis q owner epoch)"
    and "simulates V (claim_script C m q owner epoch) (claim_script mem_redis m q owner epoch)"
    and "simulates V (recover_script C m q owner epoch n) (recover_script mem_redis m q owner epoch n)"
    and "simulates V (release_script C m q owner epoch c) (release_script mem_redis m q owner epoch c)"
    and "simulates V (quarantine_script C m q owner epoch c n) (quarantine_script mem_redis m q owner epoch c n)"
    and "simulates V (work_sizes_script C m q owner epoch) (work_sizes_script mem_redis m q owner epoch)"
  unfolding acquire_script_def renew_script_def drop_script_def claim_script_def recover_script_def
    release_script_def quarantine_script_def work_sizes_script_def
  by (intro sim_intros simulates_require_owner [OF assms] simulates_recover_loop [OF assms];
      simp add: documented_cmds [OF assms] documented_reads [OF assms] owner_documented [OF assms])+

end
