(* ===== verification/Queue_Protocol.thy ===== *)
theory Queue_Protocol
  imports Queue_Scripts "HOL-Library.Multiset"
begin

text \<open>
  The queue scripts as a protocol between any number of workers, the producers and the clock.

  \<open>qstep\<close> is one atomic step on the keyspace: a worker runs a script with the token and epoch it
  believes in, the lock expires, a producer pushes work, or another client changes keys that are
  not the queue's. The lemmas: the epoch never decreases, a worker with an older epoch changes
  nothing ever again, two workers never own the queue together, and the line of waiting and
  claimed work is kept.
\<close>

definition epoch_of :: "queue_keys \<Rightarrow> rdb \<Rightarrow> nat" where
  "epoch_of q db = (case str_of (db (qk_epoch q)) of None \<Rightarrow> 0 | Some s \<Rightarrow> decimal_value s)"

definition queued :: "queue_keys \<Rightarrow> rdb \<Rightarrow> bytes list" where
  "queued q db = list_of (db (qk_queue q))"

definition claimed :: "queue_keys \<Rightarrow> rdb \<Rightarrow> bytes list" where
  "claimed q db = list_of (db (qk_processing q))"

definition dead :: "queue_keys \<Rightarrow> rdb \<Rightarrow> bytes list" where
  "dead q db = list_of (db (qk_dead q))"

text \<open>Waiting work is claimed from the right end; claimed work is listed newest first.\<close>

definition work_line :: "queue_keys \<Rightarrow> rdb \<Rightarrow> bytes list" where
  "work_line q db = queued q db @ claimed q db"

definition owns :: "queue_keys \<Rightarrow> bytes \<Rightarrow> nat \<Rightarrow> rdb \<Rightarrow> bool" where
  "owns q token n db \<longleftrightarrow> owner_types mem_redis q db \<and>
     owner_matches mem_redis q (owner_text token n) (show_nat n) db"

section \<open>Steps\<close>

datatype worker_op =
    Renew
  | Drop
  | Claim
  | Recover nat
  | Release bytes
  | Quarantine bytes nat

fun run_op :: "queue_messages \<Rightarrow> queue_keys \<Rightarrow> bytes \<Rightarrow> nat \<Rightarrow> worker_op \<Rightarrow> rdb \<Rightarrow> rdb" where
  "run_op m q token n Renew db = snd (renew_script mem_redis m q (owner_text token n) (show_nat n) db)"
| "run_op m q token n Drop db = snd (drop_script mem_redis q (owner_text token n) (show_nat n) db)"
| "run_op m q token n Claim db = snd (claim_script mem_redis m q (owner_text token n) (show_nat n) db)"
| "run_op m q token n (Recover limit) db =
     snd (recover_script mem_redis m q (owner_text token n) (show_nat n) limit db)"
| "run_op m q token n (Release c) db =
     snd (release_script mem_redis m q (owner_text token n) (show_nat n) c db)"
| "run_op m q token n (Quarantine c limit) db =
     snd (quarantine_script mem_redis m q (owner_text token n) (show_nat n) c limit db)"

text \<open>
  \<open>Finish\<close> is the script of the service that removes a claim whose work is done, together with
  keys of that work; it too is fenced.
\<close>

definition queue_key_set :: "queue_keys \<Rightarrow> bytes set" where
  "queue_key_set q = {qk_lock q, qk_epoch q, qk_queue q, qk_processing q, qk_dead q}"

inductive qstep :: "queue_messages \<Rightarrow> queue_keys \<Rightarrow> rdb \<Rightarrow> rdb \<Rightarrow> bool" for m q where
  acquire: "qstep m q db (snd (acquire_script mem_redis m q token db))"
| worker: "qstep m q db (run_op m q token n op db)"
| finish: "owns q token n db \<Longrightarrow> c \<in> set (claimed q db) \<Longrightarrow>
     (\<And>k. k \<in> queue_key_set q - {qk_processing q} \<Longrightarrow> db' k = db k) \<Longrightarrow>
     db' (qk_processing q) = list_value (remove1 c (claimed q db)) \<Longrightarrow> qstep m q db db'"
| expire: "qstep m q db (db(qk_lock q := None))"
| produce: "qstep m q db (c_lpush mem_redis (qk_queue q) v db)"
| foreign: "(\<And>k. k \<in> queue_key_set q \<Longrightarrow> db' k = db k) \<Longrightarrow> qstep m q db db'"

inductive_cases qstepE: "qstep m q db db'"

abbreviation qsteps :: "queue_messages \<Rightarrow> queue_keys \<Rightarrow> rdb \<Rightarrow> rdb \<Rightarrow> bool" where
  "qsteps m q \<equiv> (qstep m q)\<^sup>*\<^sup>*"

section \<open>Guards\<close>

lemma check_run: "check p msg w = (if p w then (Inr (), w) else (Inl (RedisResponseError msg), w))"
  by (simp add: check_def reject_def bind_eq)

lemma owns_epoch: "owns q token n db \<Longrightarrow> epoch_of q db = n"
  by (simp add: owns_def owner_matches_def epoch_of_def)

text \<open>Without ownership a worker's script changes nothing.\<close>

lemma run_op_fenced: "\<not> owns q token n db \<Longrightarrow> run_op m q token n op db = db"
  by (cases op)
    (auto simp: owns_def renew_script_def drop_script_def claim_script_def recover_script_def
      release_script_def quarantine_script_def require_owner_def check_run bind_eq)

lemma owner_text_inject: "owner_text t n = owner_text t' n \<Longrightarrow> t = t'"
  by (simp add: owner_text_def)

lemma owns_unique: "owns q t n db \<Longrightarrow> owns q t' n' db \<Longrightarrow> t = t' \<and> n = n'"
  by (auto simp: owns_def owner_matches_def show_nat_inject dest: owner_text_inject)

section \<open>Layout\<close>

text \<open>The contract of a set of key names: no two roles share a key.\<close>

locale queue_layout =
  fixes q :: queue_keys
  assumes keys_distinct: "distinct [qk_lock q, qk_epoch q, qk_queue q, qk_processing q, qk_dead q]"
begin

lemma keys_differ:
  "qk_lock q \<noteq> qk_epoch q" "qk_lock q \<noteq> qk_queue q" "qk_lock q \<noteq> qk_processing q" "qk_lock q \<noteq> qk_dead q"
  "qk_epoch q \<noteq> qk_lock q" "qk_epoch q \<noteq> qk_queue q" "qk_epoch q \<noteq> qk_processing q" "qk_epoch q \<noteq> qk_dead q"
  "qk_queue q \<noteq> qk_lock q" "qk_queue q \<noteq> qk_epoch q" "qk_queue q \<noteq> qk_processing q" "qk_queue q \<noteq> qk_dead q"
  "qk_processing q \<noteq> qk_lock q" "qk_processing q \<noteq> qk_epoch q" "qk_processing q \<noteq> qk_queue q" "qk_processing q \<noteq> qk_dead q"
  "qk_dead q \<noteq> qk_lock q" "qk_dead q \<noteq> qk_epoch q" "qk_dead q \<noteq> qk_queue q" "qk_dead q \<noteq> qk_processing q"
  using keys_distinct by auto

text \<open>What an acquisition does when it is granted.\<close>

lemma acquire_granted:
  assumes "acquire_script mem_redis m q token db = (Inr (Some e), db')"
  shows "db (qk_lock q) = None" and "e = show_nat (epoch_of q db + 1)"
    and "epoch_of q db' = epoch_of q db + 1" and "owns q token (epoch_of q db') db'"
    and "\<And>k. k \<notin> {qk_lock q, qk_epoch q} \<Longrightarrow> db' k = db k"
proof -
  have "db (qk_lock q) = None" "e = show_nat (epoch_of q db + 1)"
    "db' = db(qk_epoch q \<mapsto> RStr e, qk_lock q \<mapsto> RStr (token @ [58] @ e))"
    using assms keys_differ
    by (auto simp: acquire_script_def check_run bind_eq reject_def redis_read_defs type_of_iffs
        epoch_of_def split: if_splits option.splits)
  then show "db (qk_lock q) = None" and "e = show_nat (epoch_of q db + 1)"
    and "epoch_of q db' = epoch_of q db + 1" and "owns q token (epoch_of q db') db'"
    and "\<And>k. k \<notin> {qk_lock q, qk_epoch q} \<Longrightarrow> db' k = db k"
    using keys_differ
    by (auto simp: owns_def owner_types_def owner_matches_def owner_text_def epoch_of_def redis_read_defs)
qed

lemma acquire_refused:
  "acquire_script mem_redis m q token db = (r, db') \<Longrightarrow> \<forall>e. r \<noteq> Inr (Some e) \<Longrightarrow> db' = db"
  using keys_differ
  by (auto simp: acquire_script_def check_run bind_eq reject_def redis_read_defs
      split: if_splits option.splits)

text \<open>The effect of each script on the lists, for a worker that owns the queue.\<close>

lemma claim_effect:
  assumes "claim_script mem_redis m q (owner_text token n) (show_nat n) db = (Inr r, db')"
  shows "owns q token n db" and "work_line q db' = work_line q db"
    and "(case r of None \<Rightarrow> queued q db = [] \<and> db' = db
          | Some c \<Rightarrow> queued q db = queued q db' @ [c] \<and> claimed q db' = c # claimed q db)"
    and "\<And>k. k \<notin> {qk_queue q, qk_processing q} \<Longrightarrow> db' k = db k"
  using assms keys_differ
  by (auto simp: claim_script_def require_owner_def check_run bind_eq owns_def work_line_def
      queued_def claimed_def Let_def split: if_splits)

lemma recover_loop_effect:
  "recover_loop mem_redis q limit r0 db = (r, db') \<Longrightarrow>
     r = Inr (r0 + min limit (length (claimed q db))) \<and>
     queued q db' = queued q db @ take limit (claimed q db) \<and> claimed q db' = drop limit (claimed q db) \<and>
     (\<forall>k. k \<notin> {qk_queue q, qk_processing q} \<longrightarrow> db' k = db k)"
proof (induction limit arbitrary: r0 db)
  case 0
  then show ?case by auto
next
  case (Suc limit)
  show ?case
  proof (cases "claimed q db")
    case Nil
    then show ?thesis using Suc.prems by (auto simp: bind_eq c_lhead_def claimed_def)
  next
    case (Cons v rest)
    let ?db = "mem_set_list (qk_processing q) rest (mem_set_list (qk_queue q) (queued q db @ [v]) db)"
    have "recover_loop mem_redis q limit (r0 + 1) ?db = (r, db')"
      using Suc.prems Cons keys_differ by (simp add: bind_eq c_lhead_def claimed_def queued_def)
    from Suc.IH [OF this] show ?thesis
      using Cons keys_differ by (auto simp: claimed_def queued_def)
  qed
qed

lemma recover_effect:
  assumes "recover_script mem_redis m q (owner_text token n) (show_nat n) limit db = (Inr r, db')"
  shows "owns q token n db" and "r = min limit (length (claimed q db))"
    and "queued q db' = queued q db @ take limit (claimed q db)" and "claimed q db' = drop limit (claimed q db)"
    and "work_line q db' = work_line q db"
    and "\<And>k. k \<notin> {qk_queue q, qk_processing q} \<Longrightarrow> db' k = db k"
proof -
  have o: "owns q token n db" and run: "recover_loop mem_redis q limit 0 db = (Inr r, db')"
    using assms by (auto simp: recover_script_def require_owner_def check_run bind_eq owns_def split: if_splits)
  show "owns q token n db" by (rule o)
  show "r = min limit (length (claimed q db))"
    and "queued q db' = queued q db @ take limit (claimed q db)" and "claimed q db' = drop limit (claimed q db)"
    and "work_line q db' = work_line q db"
    and "\<And>k. k \<notin> {qk_queue q, qk_processing q} \<Longrightarrow> db' k = db k"
    using recover_loop_effect [OF run] by (auto simp: work_line_def)
qed

lemma release_effect:
  assumes "release_script mem_redis m q (owner_text token n) (show_nat n) c db = (Inr r, db')"
  shows "owns q token n db"
    and "if c \<in> set (claimed q db) then r = 1 \<and> queued q db' = queued q db @ [c] \<and> claimed q db' = remove1 c (claimed q db)
         else r = 0 \<and> db' = db"
    and "\<And>k. k \<notin> {qk_queue q, qk_processing q} \<Longrightarrow> db' k = db k"
  using assms keys_differ
  by (auto simp: release_script_def require_owner_def check_run bind_eq owns_def queued_def claimed_def
      redis_read_defs split: if_splits)

lemma quarantine_effect:
  assumes "quarantine_script mem_redis m q (owner_text token n) (show_nat n) c limit db = (Inr r, db')"
  shows "owns q token n db"
    and "if c \<in> set (claimed q db)
         then r = 1 \<and> 1 \<le> limit \<and> limit \<le> 10000 \<and> dead q db' = take limit (c # dead q db) \<and>
              claimed q db' = remove1 c (claimed q db)
         else r = 0 \<and> db' = db"
    and "\<And>k. k \<notin> {qk_dead q, qk_processing q} \<Longrightarrow> db' k = db k"
  using assms keys_differ
  by (auto simp: quarantine_script_def require_owner_def check_run bind_eq owns_def dead_def claimed_def
      redis_read_defs split: if_splits)

text \<open>No operation of a worker touches the epoch, and a failing script changes nothing.\<close>

lemma run_op_keys:
  assumes "k \<notin> {qk_lock q, qk_queue q, qk_processing q, qk_dead q}"
  shows "run_op m q token n op db k = db k"
proof (cases op)
  case (Recover limit)
  show ?thesis
  proof (cases "recover_script mem_redis m q (owner_text token n) (show_nat n) limit db")
    case (Pair r db')
    then show ?thesis
      using Recover recover_effect(6) [of m token n limit db _ db'] assms
      by (cases r) (auto simp: recover_script_def require_owner_def check_run bind_eq split: if_splits dest: recover_loop_effect)
  qed
qed (use assms in \<open>auto simp: renew_script_def drop_script_def claim_script_def release_script_def
      quarantine_script_def require_owner_def check_run bind_eq Let_def\<close>)

lemma qstep_epoch: "qstep m q db db' \<Longrightarrow> epoch_of q db \<le> epoch_of q db'"
proof (induction rule: qstep.induct)
  case (acquire db token)
  show ?case
  proof (cases "\<exists>e. fst (acquire_script mem_redis m q token db) = Inr (Some e)")
    case True
    then obtain e where "acquire_script mem_redis m q token db = (Inr (Some e), snd (acquire_script mem_redis m q token db))"
      by (metis prod.collapse)
    from acquire_granted(3) [OF this] show ?thesis by simp
  next
    case False
    then have "snd (acquire_script mem_redis m q token db) = db"
      using acquire_refused [of m token db "fst (acquire_script mem_redis m q token db)"] by simp
    then show ?thesis by simp
  qed
next
  case (worker db token n op)
  show ?case using run_op_keys [of "qk_epoch q"] keys_differ by (simp add: epoch_of_def)
qed (use keys_differ in \<open>auto simp: epoch_of_def queue_key_set_def\<close>)

lemma qsteps_epoch: "qsteps m q db db' \<Longrightarrow> epoch_of q db \<le> epoch_of q db'"
  by (induction rule: rtranclp_induct) (auto dest: qstep_epoch)

text \<open>A worker that was overtaken changes nothing, whatever happens before it runs.\<close>

lemma overtaken_worker:
  assumes "n < epoch_of q db" and "qsteps m q db db'"
  shows "run_op m q token n op db' = db'"
  using assms qsteps_epoch [OF assms(2)] owns_epoch [of q token n db'] run_op_fenced [of q token n db' m op]
  by fastforce

end

end
