(* ===== verification/Redis_Client.thy ===== *)
theory Redis_Client
  imports Queue_Protocol
begin

text \<open>
  What the Redis clients of the indexer and the image indexer share: the connection, the owner
  token and epoch they hold, and the call of a script.

  A call is delivered, lost on the way (redis-py raises and nothing happened) or its reply is lost
  (redis-py raises although the script ran). Which of these happens, and what other clients do
  before the call, is the parameter \<open>rc_net\<close>.
\<close>

datatype delivery = Delivered | RequestLost | ReplyLost

record 'w rc_env =
  rc_cmds :: "'w redis_cmds"
  rc_net :: "'w \<Rightarrow> delivery \<times> 'w"

record redis_client =
  rc_connected :: bool
  rc_owner_token :: pystr
  rc_owner_epoch :: "nat option"

abbreviation connection_lost :: exn where
  "connection_lost \<equiv> RedisError ''connection lost''"

definition call_server :: "('w, 'z) rc_env_scheme \<Rightarrow> ('w, 'a) prog \<Rightarrow> ('w, 'a) prog" where
  "call_server env script w =
     (case rc_net env w of
        (Delivered, v) \<Rightarrow> script v
      | (RequestLost, v) \<Rightarrow> (Inl connection_lost, v)
      | (ReplyLost, v) \<Rightarrow> (Inl connection_lost, snd (script v)))"

text \<open>Arguments are sent as UTF-8; replies are decoded (\<open>decode_responses=True\<close>).\<close>

definition encode_arg :: "pystr \<Rightarrow> exn + bytes" where
  "encode_arg s = (case utf8_encode s of None \<Rightarrow> Inl (UnicodeError ''encode'') | Some b \<Rightarrow> Inr b)"

definition decode_reply :: "bytes \<Rightarrow> exn + pystr" where
  "decode_reply b = (case utf8_decode b of None \<Rightarrow> Inl (UnicodeError ''decode'') | Some s \<Rightarrow> Inr s)"

definition decode_option :: "bytes option \<Rightarrow> exn + pystr option" where
  "decode_option r = (case r of None \<Rightarrow> Inr None | Some b \<Rightarrow> bindE (decode_reply b) (\<lambda>s. Inr (Some s)))"

text \<open>
  \<open>HGETALL\<close>: the fields and values of a hash as text, an empty dictionary for an absent key, a
  response error for a key of another type.
\<close>

definition decode_pairs :: "(bytes \<times> bytes) list \<Rightarrow> exn + (pystr \<times> pystr) list" where
  "decode_pairs = mapE (\<lambda>(f, v). bindE (decode_reply f) (\<lambda>f'. bindE (decode_reply v) (\<lambda>v'. Inr (f', v'))))"

definition hgetall_cmd :: "('w, 'z) redis_cmds_scheme \<Rightarrow> bytes \<Rightarrow> ('w, (bytes \<times> bytes) list) prog" where
  "hgetall_cmd C k =
     bind (check (absent_or ''hash'' C k) ''WRONGTYPE'') (\<lambda>_. get_state (c_hgetall C k))"

definition require_client :: "redis_client \<Rightarrow> ('w, unit) prog" where
  "require_client cl = (if rc_connected cl then ret () else raise (RedisError ''Redis connection not initialized''))"

definition owner_value :: "redis_client \<Rightarrow> exn + pystr \<times> nat" where
  "owner_value cl =
     (case rc_owner_epoch cl of
        None \<Rightarrow> Inl (LockLostError ''no fencing epoch'')
      | Some n \<Rightarrow> Inr (rc_owner_token cl @ [58] @ show_nat n, n))"

text \<open>A call with the owner value and the epoch as arguments.\<close>

definition call_as_owner ::
    "('w, 'z) rc_env_scheme \<Rightarrow> redis_client \<Rightarrow> (bytes \<Rightarrow> bytes \<Rightarrow> ('w, 'a) prog) \<Rightarrow> ('w, 'a) prog" where
  "call_as_owner env cl script =
     bind (lift (owner_value cl)) (\<lambda>(owner, epoch).
     bind (lift (encode_arg owner)) (\<lambda>owner_bytes.
     call_server env (script owner_bytes (show_nat epoch))))"

section \<open>What other clients do\<close>

text \<open>
  \<open>quiet_net\<close>: between calls the other clients of the queue take protocol steps only. Under it, a
  call takes protocol steps when its script is one.
\<close>

definition steps_only ::
    "('w \<Rightarrow> rdb) \<Rightarrow> queue_messages \<Rightarrow> queue_keys \<Rightarrow> ('w, 'z) rc_env_scheme \<Rightarrow> bool" where
  "steps_only V m q env \<longleftrightarrow> (\<forall>w d w'. rc_net env w = (d, w') \<longrightarrow> qsteps m q (V w) (V w'))"

definition by_steps :: "('w \<Rightarrow> rdb) \<Rightarrow> queue_messages \<Rightarrow> queue_keys \<Rightarrow> 'w \<Rightarrow> 'w \<Rightarrow> bool" where
  "by_steps V m q w w' \<longleftrightarrow> qsteps m q (V w) (V w')"

interpretation steps: world_relation "by_steps V m q" for V m q
  by unfold_locales (auto simp: by_steps_def)

lemma keeps_call_server:
  assumes "steps_only V m q env" and "keeps (by_steps V m q) script"
  shows "keeps (by_steps V m q) (call_server env script)"
  unfolding keeps_def
proof (intro allI impI)
  fix w r w' assume run: "call_server env script w = (r, w')"
  obtain d v where n: "rc_net env w = (d, v)" by fastforce
  then have wv: "by_steps V m q w v" using assms(1) by (auto simp: steps_only_def by_steps_def)
  have "v = w' \<or> (\<exists>r'. script v = (r', w'))"
    using run n by (cases d) (auto simp: call_server_def prod_eq_iff)
  then show "by_steps V m q w w'"
    using keepsD [OF assms(2)] wv steps.rel_trans [OF wv] by blast
qed

lemma keeps_call_as_owner:
  assumes "steps_only V m q env" and "\<And>owner epoch. rc_owner_epoch cl = Some epoch \<Longrightarrow>
      utf8_encode (rc_owner_token cl @ [58] @ show_nat epoch) = Some owner \<Longrightarrow>
      keeps (by_steps V m q) (script owner (show_nat epoch))"
  shows "keeps (by_steps V m q) (call_as_owner env cl script)"
proof (cases "rc_owner_epoch cl")
  case None
  then show ?thesis by (simp add: call_as_owner_def owner_value_def keeps_def bind_eq by_steps_def)
next
  case (Some n)
  show ?thesis
  proof (cases "utf8_encode (rc_owner_token cl @ [58] @ show_nat n)")
    case None
    then show ?thesis using Some
      by (simp add: call_as_owner_def owner_value_def encode_arg_def keeps_def bind_eq by_steps_def)
  next
    case (Some owner)
    then show ?thesis
      using \<open>rc_owner_epoch cl = Some n\<close> keeps_call_server [OF assms(1) assms(2) [OF _ Some]]
      by (simp add: call_as_owner_def owner_value_def encode_arg_def keeps_def bind_eq)
  qed
qed

end
