(* ===== verification/Mongo_Store.thy ===== *)
theory Mongo_Store
  imports Datastore Redis_Client
begin

text \<open>
  The MongoDB operations of the indexers as a parameter \<open>'w mongo_cmds\<close>, and what the code relies on:
  \<open>service_mongo_documented C M idx\<close> says that they act on the collections \<open>M w\<close> as the MongoDB manual has
  it, with the unique indexes \<open>idx\<close>. \<open>mem_service_mongo\<close> is a database that is its own view.

  Filters are terms for the filter documents the code builds, update operations are the \<open>UpdateOne\<close>
  objects with \<open>$set\<close> and \<open>$setOnInsert\<close>. A document that an upsert creates without an \<open>_id\<close> gets one
  from the server; no code reads it and it is left out here.
\<close>

section \<open>Filters\<close>

datatype mfilter =
    FEq pystr bson
  | FExists pystr bool
  | FLte pystr int
  | FIn pystr "bson list"
  | FNin pystr "bson list"
  | FAnd "mfilter list"
  | FOr "mfilter list"

text \<open>
  An equality with a value also holds for an array that contains the value; the field \<open>_id\<close> is never
  an array.
\<close>

definition value_matches :: "bson \<Rightarrow> bson option \<Rightarrow> bool" where
  "value_matches v x \<longleftrightarrow> (case x of None \<Rightarrow> v = BNull | Some (BArr xs) \<Rightarrow> BArr xs = v \<or> v \<in> set xs | Some y \<Rightarrow> y = v)"

definition field_matches :: "pystr \<Rightarrow> bson \<Rightarrow> doc \<Rightarrow> bool" where
  "field_matches k v d \<longleftrightarrow> (if k = py ''_id'' then map_of d k = Some v else value_matches v (map_of d k))"

definition value_lte :: "bson option \<Rightarrow> int \<Rightarrow> bool" where
  "value_lte x n \<longleftrightarrow>
     (case x of Some (BInt m) \<Rightarrow> m \<le> n | Some (BFloat m e) \<Rightarrow> m \<le> n * 2 ^ e | _ \<Rightarrow> False)"

fun doc_matches :: "mfilter \<Rightarrow> doc \<Rightarrow> bool" where
  "doc_matches (FEq k v) d = field_matches k v d"
| "doc_matches (FExists k b) d = ((map_of d k \<noteq> None) = b)"
| "doc_matches (FLte k n) d = value_lte (map_of d k) n"
| "doc_matches (FIn k vs) d = list_ex (\<lambda>v. field_matches k v d) vs"
| "doc_matches (FNin k vs) d = (\<not> list_ex (\<lambda>v. field_matches k v d) vs)"
| "doc_matches (FAnd fs) d = list_all (\<lambda>f. doc_matches f d) fs"
| "doc_matches (FOr fs) d = list_ex (\<lambda>f. doc_matches f d) fs"

text \<open>The equalities of a filter, which an upsert puts into the new document.\<close>

fun filter_equalities :: "mfilter \<Rightarrow> doc" where
  "filter_equalities (FEq k v) = [(k, v)]"
| "filter_equalities (FAnd fs) = concat (map filter_equalities fs)"
| "filter_equalities _ = []"

section \<open>Collections\<close>

text \<open>
  A unique index gives a document its key, or \<open>None\<close> when a partial index leaves it out. Two
  documents of a collection never share a key.
\<close>

type_synonym index = "doc \<Rightarrow> bson list option"
type_synonym mdb = "string \<Rightarrow> doc list"

definition id_index :: index where
  "id_index d = map_option (\<lambda>v. [v]) (map_of d (py ''_id''))"

definition conflicts :: "index list \<Rightarrow> doc \<Rightarrow> doc list \<Rightarrow> bool" where
  "conflicts idx d c \<longleftrightarrow> list_ex (\<lambda>ix. ix d \<noteq> None \<and> ix d \<in> ix ` set c) idx"

definition set_fields :: "doc \<Rightarrow> doc \<Rightarrow> doc" where
  "set_fields kvs d = foldl (\<lambda>d (k, v). AList.update k v d) d kvs"

record update_op =
  up_filter :: mfilter
  up_set :: doc
  up_set_on_insert :: doc
  up_upsert :: bool

text \<open>The documents before the first that matches, that document, and those after it.\<close>

fun first_match :: "mfilter \<Rightarrow> doc list \<Rightarrow> (doc list \<times> doc \<times> doc list) option" where
  "first_match f [] = None"
| "first_match f (d # c) =
     (if doc_matches f d then Some ([], d, c)
      else map_option (\<lambda>(a, e, b). (d # a, e, b)) (first_match f c))"

definition coll_insert :: "index list \<Rightarrow> doc \<Rightarrow> doc list \<Rightarrow> doc list option" where
  "coll_insert idx d c = (if conflicts idx d c then None else Some (c @ [d]))"

definition coll_put :: "index list \<Rightarrow> doc list \<times> doc \<times> doc list \<Rightarrow> doc \<Rightarrow> doc list option" where
  "coll_put idx p d = (case p of (a, _, b) \<Rightarrow> if conflicts idx d (a @ b) then None else Some (a @ d # b))"

definition coll_replace :: "index list \<Rightarrow> mfilter \<Rightarrow> doc \<Rightarrow> bool \<Rightarrow> doc list \<Rightarrow> doc list option" where
  "coll_replace idx f d upsert c =
     (case first_match f c of
        Some p \<Rightarrow> coll_put idx p d
      | None \<Rightarrow> if upsert then coll_insert idx d c else Some c)"

definition upsert_doc :: "update_op \<Rightarrow> doc" where
  "upsert_doc op = set_fields (up_set op) (set_fields (up_set_on_insert op) (set_fields (filter_equalities (up_filter op)) []))"

definition coll_update :: "index list \<Rightarrow> update_op \<Rightarrow> doc list \<Rightarrow> doc list option" where
  "coll_update idx op c =
     (case first_match (up_filter op) c of
        Some (a, d, b) \<Rightarrow> coll_put idx (a, d, b) (set_fields (up_set op) d)
      | None \<Rightarrow> if up_upsert op then coll_insert idx (upsert_doc op) c else Some c)"

text \<open>An ordered bulk stops at the first error, an unordered one goes on; both report it at the end.\<close>

primrec coll_bulk :: "index list \<Rightarrow> bool \<Rightarrow> update_op list \<Rightarrow> doc list \<Rightarrow> bool \<times> doc list" where
  "coll_bulk idx ordered [] c = (True, c)"
| "coll_bulk idx ordered (op # ops) c =
     (case coll_update idx op c of
        Some c' \<Rightarrow> coll_bulk idx ordered ops c'
      | None \<Rightarrow> if ordered then (False, c) else (False, snd (coll_bulk idx ordered ops c)))"

definition delete_first :: "mfilter \<Rightarrow> doc list \<Rightarrow> doc list" where
  "delete_first f c = (case first_match f c of Some (a, _, b) \<Rightarrow> a @ b | None \<Rightarrow> c)"

definition delete_all :: "mfilter \<Rightarrow> doc list \<Rightarrow> doc list" where
  "delete_all f c = filter (\<lambda>d. \<not> doc_matches f d) c"

section \<open>Commands\<close>

record write_result =
  wr_acknowledged :: bool
  wr_count :: nat

record 'w mongo_cmds =
  mc_find_one :: "string \<Rightarrow> mfilter \<Rightarrow> pystr list \<Rightarrow> 'w \<Rightarrow> doc option"
  mc_distinct :: "string \<Rightarrow> pystr \<Rightarrow> mfilter \<Rightarrow> 'w \<Rightarrow> bson list"
  mc_insert_one :: "string \<Rightarrow> doc \<Rightarrow> ('w, write_result) prog"
  mc_delete_one :: "string \<Rightarrow> mfilter \<Rightarrow> ('w, write_result) prog"
  mc_delete_many :: "string \<Rightarrow> mfilter \<Rightarrow> ('w, write_result) prog"
  mc_replace_one :: "string \<Rightarrow> mfilter \<Rightarrow> doc \<Rightarrow> bool \<Rightarrow> ('w, write_result) prog"
  mc_bulk_write :: "string \<Rightarrow> update_op list \<Rightarrow> bool \<Rightarrow> ('w, write_result) prog"

definition written :: "nat \<Rightarrow> write_result" where
  "written n = \<lparr>wr_acknowledged = True, wr_count = n\<rparr>"

definition project :: "pystr list \<Rightarrow> doc \<Rightarrow> doc" where
  "project names d = filter (\<lambda>(k, _). k = py ''_id'' \<or> k \<in> set names) d"

definition duplicate_in_bulk :: exn where
  "duplicate_in_bulk =
     BulkWriteError \<lparr>write_error_codes = [11000], retryable_label = False, has_write_concern_errors = False\<rparr>"

definition mem_write :: "string \<Rightarrow> (doc list \<Rightarrow> doc list option) \<Rightarrow> (mdb, write_result) prog" where
  "mem_write coll f db =
     (case f (db coll) of None \<Rightarrow> (Inl DuplicateKeyError, db) | Some c \<Rightarrow> (Inr (written 1), db(coll := c)))"

definition mem_delete :: "string \<Rightarrow> (doc list \<Rightarrow> doc list) \<Rightarrow> (mdb, write_result) prog" where
  "mem_delete coll f db =
     (Inr (written (length (db coll) - length (f (db coll)))), db(coll := f (db coll)))"

definition mem_bulk :: "(string \<Rightarrow> index list) \<Rightarrow> string \<Rightarrow> update_op list \<Rightarrow> bool \<Rightarrow> (mdb, write_result) prog" where
  "mem_bulk idx coll ops ordered db =
     (case coll_bulk (idx coll) ordered ops (db coll) of (ok, c) \<Rightarrow>
        (if ok then Inr (written (length ops)) else Inl duplicate_in_bulk, db(coll := c)))"

definition mem_service_mongo :: "(string \<Rightarrow> index list) \<Rightarrow> mdb mongo_cmds" where
  "mem_service_mongo idx =
     \<lparr>mc_find_one = (\<lambda>coll f names db. map_option (\<lambda>(_, d, _). project names d) (first_match f (db coll))),
      mc_distinct = (\<lambda>coll k f db. remdups (List.map_filter (\<lambda>d. map_of d k) (filter (doc_matches f) (db coll)))),
      mc_insert_one = (\<lambda>coll d. mem_write coll (coll_insert (idx coll) d)),
      mc_delete_one = (\<lambda>coll f. mem_delete coll (delete_first f)),
      mc_delete_many = (\<lambda>coll f. mem_delete coll (delete_all f)),
      mc_replace_one = (\<lambda>coll f d upsert. mem_write coll (coll_replace (idx coll) f d upsert)),
      mc_bulk_write = mem_bulk idx\<rparr>"

text \<open>What the code relies on.\<close>

definition service_mongo_documented ::
    "('w, 'z) mongo_cmds_scheme \<Rightarrow> ('w \<Rightarrow> mdb) \<Rightarrow> (string \<Rightarrow> index list) \<Rightarrow> bool" where
  "service_mongo_documented C M idx \<longleftrightarrow>
     (\<forall>coll f names w. mc_find_one C coll f names w = mc_find_one (mem_service_mongo idx) coll f names (M w)) \<and>
     (\<forall>coll k f w. mc_distinct C coll k f w = mc_distinct (mem_service_mongo idx) coll k f (M w)) \<and>
     (\<forall>coll d. simulates M (mc_insert_one C coll d) (mc_insert_one (mem_service_mongo idx) coll d)) \<and>
     (\<forall>coll f. simulates M (mc_delete_one C coll f) (mc_delete_one (mem_service_mongo idx) coll f)) \<and>
     (\<forall>coll f. simulates M (mc_delete_many C coll f) (mc_delete_many (mem_service_mongo idx) coll f)) \<and>
     (\<forall>coll f d u. simulates M (mc_replace_one C coll f d u) (mc_replace_one (mem_service_mongo idx) coll f d u)) \<and>
     (\<forall>coll ops b. simulates M (mc_bulk_write C coll ops b) (mc_bulk_write (mem_service_mongo idx) coll ops b))"

lemma mem_service_mongo_documented: "service_mongo_documented (mem_service_mongo idx) (\<lambda>w. w) idx"
  by (simp add: service_mongo_documented_def simulates_def)

section \<open>Calls\<close>

text \<open>The environment of a service with both stores, its \<open>running\<close> flag and its clock.\<close>

record 'w service_env = "'w rc_env" +
  mg_cmds :: "'w mongo_cmds"
  mg_net :: "'w \<Rightarrow> delivery \<times> 'w"
  sv_running :: "'w \<Rightarrow> bool \<times> 'w"
  sv_now :: "'w \<Rightarrow> int \<times> 'w"
  sv_monotonic :: "'w \<Rightarrow> int \<times> 'w"
  sv_sleep :: "'w \<Rightarrow> 'w"

definition call_mongo :: "('w, 'z) service_env_scheme \<Rightarrow> ('w, 'a) prog \<Rightarrow> ('w, 'a) prog" where
  "call_mongo env m w =
     (case mg_net env w of
        (Delivered, v) \<Rightarrow> m v
      | (RequestLost, v) \<Rightarrow> (Inl ConnectionFailure, v)
      | (ReplyLost, v) \<Rightarrow> (Inl ConnectionFailure, snd (m v)))"

definition is_running :: "('w, 'z) service_env_scheme \<Rightarrow> ('w, bool) prog" where
  "is_running env w = (case sv_running env w of (b, v) \<Rightarrow> (Inr b, v))"

definition time_now :: "('w, 'z) service_env_scheme \<Rightarrow> ('w, int) prog" where
  "time_now env w = (case sv_now env w of (t, v) \<Rightarrow> (Inr t, v))"

definition monotonic :: "('w, 'z) service_env_scheme \<Rightarrow> ('w, int) prog" where
  "monotonic env w = (case sv_monotonic env w of (t, v) \<Rightarrow> (Inr t, v))"

definition find_one ::
    "('w, 'z) service_env_scheme \<Rightarrow> string \<Rightarrow> mfilter \<Rightarrow> pystr list \<Rightarrow> ('w, doc option) prog" where
  "find_one env coll f names = call_mongo env (get_state (mc_find_one (mg_cmds env) coll f names))"

definition distinct_values ::
    "('w, 'z) service_env_scheme \<Rightarrow> string \<Rightarrow> pystr \<Rightarrow> mfilter \<Rightarrow> ('w, bson list) prog" where
  "distinct_values env coll k f = call_mongo env (get_state (mc_distinct (mg_cmds env) coll k f))"

text \<open>
  An integer that does not fit 64 bits, or a field name with a NUL, makes the driver raise before
  anything is sent. The callers do not tell these exceptions apart.
\<close>

fun bson_fits :: "bson \<Rightarrow> bool" where
  "bson_fits (BInt n) = (- (2 ^ 63) \<le> n \<and> n < 2 ^ 63)"
| "bson_fits (BArr xs) = list_all bson_fits xs"
| "bson_fits (BDoc kvs) = list_all (\<lambda>(k, v). 0 \<notin> set k \<and> bson_fits v) kvs"
| "bson_fits _ = True"

definition doc_fits :: "doc \<Rightarrow> bool" where
  "doc_fits d = list_all (\<lambda>(_, v). bson_fits v) d"

definition insert_one :: "('w, 'z) service_env_scheme \<Rightarrow> string \<Rightarrow> doc \<Rightarrow> ('w, write_result) prog" where
  "insert_one env coll d =
     bind (require (doc_fits d) OverflowError) (\<lambda>_. call_mongo env (mc_insert_one (mg_cmds env) coll d))"

definition delete_one :: "('w, 'z) service_env_scheme \<Rightarrow> string \<Rightarrow> mfilter \<Rightarrow> ('w, write_result) prog" where
  "delete_one env coll f = call_mongo env (mc_delete_one (mg_cmds env) coll f)"

definition delete_many :: "('w, 'z) service_env_scheme \<Rightarrow> string \<Rightarrow> mfilter \<Rightarrow> ('w, write_result) prog" where
  "delete_many env coll f = call_mongo env (mc_delete_many (mg_cmds env) coll f)"

definition replace_one ::
    "('w, 'z) service_env_scheme \<Rightarrow> string \<Rightarrow> mfilter \<Rightarrow> doc \<Rightarrow> bool \<Rightarrow> ('w, write_result) prog" where
  "replace_one env coll f d upsert =
     bind (require (doc_fits d) OverflowError) (\<lambda>_. call_mongo env (mc_replace_one (mg_cmds env) coll f d upsert))"

definition bulk_write ::
    "('w, 'z) service_env_scheme \<Rightarrow> string \<Rightarrow> update_op list \<Rightarrow> bool \<Rightarrow> ('w, write_result) prog" where
  "bulk_write env coll ops ordered =
     bind (require (list_all (\<lambda>op. doc_fits (up_set op) \<and> doc_fits (up_set_on_insert op)) ops) OverflowError) (\<lambda>_.
     call_mongo env (mc_bulk_write (mg_cmds env) coll ops ordered))"

section \<open>What the operations do to a collection\<close>

lemma first_match_Some:
  "first_match f c = Some (a, d, b) \<Longrightarrow> c = a @ d # b \<and> doc_matches f d \<and> (\<forall>e \<in> set a. \<not> doc_matches f e)"
  by (induction c arbitrary: a) (auto split: if_splits)

lemma first_match_None: "first_match f c = None \<longleftrightarrow> (\<forall>d \<in> set c. \<not> doc_matches f d)"
  by (induction c) auto

text \<open>A document that the filter does not match stays; what is new is the replacement.\<close>

lemma coll_put_set: "coll_put idx (a, d, b) e = Some c \<Longrightarrow> set c = insert e (set a \<union> set b)"
  by (auto simp: coll_put_def split: if_splits)

lemma coll_insert_set: "coll_insert idx d c = Some c' \<Longrightarrow> set c' = insert d (set c)"
  by (auto simp: coll_insert_def split: if_splits)

lemma coll_replace_set:
  assumes "coll_replace idx f d u c = Some c'"
  shows "e \<in> set c \<Longrightarrow> \<not> doc_matches f e \<Longrightarrow> e \<in> set c'"
    and "set c' \<subseteq> insert d (set c)"
    and "u \<Longrightarrow> d \<in> set c'"
  using assms first_match_Some [of f c]
  by (fastforce simp: coll_replace_def split: option.splits if_splits prod.splits
      dest!: coll_put_set coll_insert_set)+

lemma coll_replace_spares:
  "coll_replace idx f d u c = Some c' \<Longrightarrow> \<forall>e. e \<in> set c \<longrightarrow> \<not> doc_matches f e \<longrightarrow> e \<in> set c'"
  using coll_replace_set(1) by blast

lemma coll_update_set:
  assumes "coll_update idx op c = Some c'"
  shows "e \<in> set c \<Longrightarrow> \<not> doc_matches (up_filter op) e \<Longrightarrow> e \<in> set c'"
    and "e \<in> set c' \<Longrightarrow> e \<in> set c \<or> (\<exists>d \<in> set c. doc_matches (up_filter op) d \<and> e = set_fields (up_set op) d) \<or> e = upsert_doc op"
    and "up_upsert op \<Longrightarrow> (\<exists>d \<in> set c. doc_matches (up_filter op) d \<and> set_fields (up_set op) d \<in> set c') \<or> upsert_doc op \<in> set c'"
  using assms first_match_Some [of "up_filter op" c]
  by (fastforce simp: coll_update_def split: option.splits if_splits prod.splits
      dest!: coll_put_set coll_insert_set)+

lemma coll_bulk_spares:
  "coll_bulk idx ordered ops c = (r, c') \<Longrightarrow> e \<in> set c \<Longrightarrow> \<forall>op \<in> set ops. \<not> doc_matches (up_filter op) e \<Longrightarrow> e \<in> set c'"
proof (induction ops arbitrary: c r c')
  case (Cons op ops)
  show ?case
  proof (cases "coll_update idx op c")
    case None
    then show ?thesis using Cons by (cases "coll_bulk idx ordered ops c") (auto split: if_splits)
  next
    case (Some c1)
    then show ?thesis using Cons coll_update_set(1) [OF Some Cons.prems(2)] by auto
  qed
qed simp

lemma coll_bulk_append:
  "coll_bulk idx True (ops @ ops') c = (True, c') \<longleftrightarrow>
     (\<exists>d. coll_bulk idx True ops c = (True, d) \<and> coll_bulk idx True ops' d = (True, c'))"
  by (induction ops arbitrary: c) (auto split: option.splits)

text \<open>A document that an update made: the old one with the fields set, or a new one.\<close>

definition made_by :: "update_op \<Rightarrow> doc \<Rightarrow> bool" where
  "made_by op d \<longleftrightarrow> d = upsert_doc op \<or> (\<exists>e. doc_matches (up_filter op) e \<and> d = set_fields (up_set op) e)"

lemma coll_bulk_made:
  "coll_bulk idx True ops c = (True, c') \<Longrightarrow> d \<in> set c' \<Longrightarrow> d \<in> set c \<or> (\<exists>op \<in> set ops. made_by op d)"
proof (induction ops arbitrary: c)
  case (Cons op ops)
  then obtain c1 where c1: "coll_update idx op c = Some c1" "coll_bulk idx True ops c1 = (True, c')"
    by (auto split: option.splits)
  show ?case
    using Cons.IH [OF c1(2) Cons.prems(2)] coll_update_set(2) [OF c1(1), of d] by (auto simp: made_by_def)
qed simp

text \<open>When no operation touches what an earlier one made, each leaves its document.\<close>

lemma coll_bulk_leaves:
  assumes "coll_bulk idx True ops c = (True, c')" and "op \<in> set ops" and "\<forall>op \<in> set ops. up_upsert op"
    and "sorted_wrt (\<lambda>op op'. \<forall>d. made_by op d \<longrightarrow> \<not> doc_matches (up_filter op') d) ops"
  shows "\<exists>d \<in> set c'. made_by op d"
  using assms
proof (induction ops arbitrary: c)
  case (Cons op' ops)
  then obtain c1 where c1: "coll_update idx op' c = Some c1" "coll_bulk idx True ops c1 = (True, c')"
    by (auto split: option.splits)
  show ?case
  proof (cases "op \<in> set ops")
    case True
    then show ?thesis using Cons c1 by auto
  next
    case False
    then have "op = op'" using Cons.prems by simp
    then obtain d where "d \<in> set c1" "made_by op d"
      using coll_update_set(3) [OF c1(1)] Cons.prems by (auto simp: made_by_def)
    moreover have "\<forall>op2 \<in> set ops. \<not> doc_matches (up_filter op2) d"
      using Cons.prems \<open>op = op'\<close> \<open>made_by op d\<close> by auto
    ultimately show ?thesis using coll_bulk_spares [OF c1(2)] by blast
  qed
qed simp

lemma delete_first_spares: "e \<in> set c \<Longrightarrow> \<not> doc_matches f e \<Longrightarrow> e \<in> set (delete_first f c)"
  using first_match_Some [of f c] by (auto simp: delete_first_def split: option.splits)

lemma delete_all_set: "set (delete_all f c) = {d \<in> set c. \<not> doc_matches f d}"
  by (auto simp: delete_all_def)

text \<open>Setting fields: the last value of a field wins.\<close>

lemma set_fields_get: "map_of (set_fields kvs d) k = (case map_of (rev kvs) k of Some v \<Rightarrow> Some v | None \<Rightarrow> map_of d k)"
proof -
  have "map_of (foldl (\<lambda>d (k, v). AList.update k v d) d kvs) k = (case map_of (rev kvs) k of Some v \<Rightarrow> Some v | None \<Rightarrow> map_of d k)"
    by (induction kvs arbitrary: d) (auto simp: update_conv' map_add_def split: option.splits)
  then show ?thesis by (simp add: set_fields_def)
qed

lemma set_fields_distinct:
  "distinct (map fst kvs) \<Longrightarrow> map_of (set_fields kvs d) k = (case map_of kvs k of Some v \<Rightarrow> Some v | None \<Rightarrow> map_of d k)"
  using map_of_inject_set [of "rev kvs" kvs] by (simp add: set_fields_get rev_map [symmetric])

section \<open>Documents an operation spares\<close>

text \<open>
  \<open>spares M cs P\<close>: the documents of the collections \<open>cs\<close> that satisfy \<open>P\<close> are still there. Every
  operation whose filter matches none of them has that property, whatever its outcome.
\<close>

definition spares :: "('w \<Rightarrow> mdb) \<Rightarrow> string set \<Rightarrow> (doc \<Rightarrow> bool) \<Rightarrow> 'w \<Rightarrow> 'w \<Rightarrow> bool" where
  "spares M cs P w w' \<longleftrightarrow> (\<forall>c \<in> cs. \<forall>d \<in> set (M w c). P d \<longrightarrow> d \<in> set (M w' c))"

interpretation spared: world_relation "spares M cs P" for M cs P
  by unfold_locales (auto simp: spares_def)

definition net_within :: "('w \<Rightarrow> 'w \<Rightarrow> bool) \<Rightarrow> ('w, 'z) service_env_scheme \<Rightarrow> bool" where
  "net_within rel env \<longleftrightarrow>
     (\<forall>w d w'. mg_net env w = (d, w') \<longrightarrow> rel w w') \<and> (\<forall>w d w'. rc_net env w = (d, w') \<longrightarrow> rel w w') \<and>
     (\<forall>w b w'. sv_running env w = (b, w') \<longrightarrow> rel w w') \<and> (\<forall>w t w'. sv_now env w = (t, w') \<longrightarrow> rel w w') \<and>
     (\<forall>w t w'. sv_monotonic env w = (t, w') \<longrightarrow> rel w w') \<and>
     (\<forall>w. rel w (sv_sleep env w))"

context world_relation
begin

lemma keeps_call_mongo:
  assumes "net_within rel env" and "keeps rel m"
  shows "keeps rel (call_mongo env m)"
  unfolding keeps_def
proof (intro allI impI)
  fix w r w' assume run: "call_mongo env m w = (r, w')"
  obtain d v where n: "mg_net env w = (d, v)" by fastforce
  then have wv: "rel w v" using assms(1) by (simp add: net_within_def)
  have "v = w' \<or> (\<exists>r'. m v = (r', w'))"
    using run n by (cases d) (auto simp: call_mongo_def prod_eq_iff)
  then show "rel w w'" using keepsD [OF assms(2)] wv rel_trans [OF wv] by blast
qed

lemma keeps_environment:
  assumes "net_within rel env"
  shows "keeps rel (is_running env)" and "keeps rel (time_now env)" and "keeps rel (monotonic env)"
    and "keeps rel (mod_state (sv_sleep env))"
  using assms by (auto simp: keeps_def is_running_def time_now_def monotonic_def net_within_def split: prod.splits)

lemma keeps_reads:
  assumes "net_within rel env"
  shows "keeps rel (find_one env coll f names)" and "keeps rel (distinct_values env coll k f)"
  unfolding find_one_def distinct_values_def by (intro keeps_call_mongo [OF assms] keeps_pure)+

end

lemma spares_simulated:
  "simulates M m m' \<Longrightarrow> (\<And>db. spares (\<lambda>db. db) cs P db (snd (m' db))) \<Longrightarrow> keeps (spares M cs P) m"
  unfolding keeps_def simulates_def spares_def by (metis snd_conv)

lemma spares_update: "(\<And>d. d \<in> set (db coll) \<Longrightarrow> coll \<in> cs \<Longrightarrow> P d \<Longrightarrow> d \<in> set c) \<Longrightarrow> spares (\<lambda>db. db) cs P db (db(coll := c))"
  by (auto simp: spares_def)

text \<open>The operations of a documented database spare what their filters do not match.\<close>

lemma keeps_spared:
  assumes doc: "service_mongo_documented (mg_cmds env) M idx" and net: "net_within (spares M cs P) env"
  shows "keeps (spares M cs P) (insert_one env coll d)"
    and "(coll \<in> cs \<Longrightarrow> \<forall>d. P d \<longrightarrow> \<not> doc_matches f d) \<Longrightarrow> keeps (spares M cs P) (delete_one env coll f)"
    and "(coll \<in> cs \<Longrightarrow> \<forall>d. P d \<longrightarrow> \<not> doc_matches f d) \<Longrightarrow> keeps (spares M cs P) (delete_many env coll f)"
    and "(coll \<in> cs \<Longrightarrow> \<forall>d. P d \<longrightarrow> \<not> doc_matches f d) \<Longrightarrow> keeps (spares M cs P) (replace_one env coll f e u)"
    and "(coll \<in> cs \<Longrightarrow> \<forall>op \<in> set ops. \<forall>d. P d \<longrightarrow> \<not> doc_matches (up_filter op) d) \<Longrightarrow>
           keeps (spares M cs P) (bulk_write env coll ops b)"
proof -
  note rules = spared.keeps_rules spared.keeps_call_mongo [OF net]
  have sim: "simulates M (mc_insert_one (mg_cmds env) coll d) (mc_insert_one (mem_service_mongo idx) coll d)"
    "simulates M (mc_delete_one (mg_cmds env) coll f) (mc_delete_one (mem_service_mongo idx) coll f)"
    "simulates M (mc_delete_many (mg_cmds env) coll f) (mc_delete_many (mem_service_mongo idx) coll f)"
    "simulates M (mc_replace_one (mg_cmds env) coll f e u) (mc_replace_one (mem_service_mongo idx) coll f e u)"
    "simulates M (mc_bulk_write (mg_cmds env) coll ops b) (mc_bulk_write (mem_service_mongo idx) coll ops b)"
    using doc by (simp_all add: service_mongo_documented_def)
  show "keeps (spares M cs P) (insert_one env coll d)"
    unfolding insert_one_def
    by (intro rules spares_simulated [OF sim(1)])
      (auto simp: mem_service_mongo_def mem_write_def spared.rel_refl split: option.splits
        intro!: spares_update dest!: coll_insert_set)
  show "keeps (spares M cs P) (delete_one env coll f)" if "coll \<in> cs \<Longrightarrow> \<forall>d. P d \<longrightarrow> \<not> doc_matches f d"
    unfolding delete_one_def using that
    by (intro rules spares_simulated [OF sim(2)])
      (auto simp: mem_service_mongo_def mem_delete_def intro!: spares_update delete_first_spares)
  show "keeps (spares M cs P) (delete_many env coll f)" if "coll \<in> cs \<Longrightarrow> \<forall>d. P d \<longrightarrow> \<not> doc_matches f d"
    unfolding delete_many_def using that
    by (intro rules spares_simulated [OF sim(3)])
      (auto simp: mem_service_mongo_def mem_delete_def delete_all_set intro!: spares_update)
  show "keeps (spares M cs P) (replace_one env coll f e u)" if "coll \<in> cs \<Longrightarrow> \<forall>d. P d \<longrightarrow> \<not> doc_matches f d"
    unfolding replace_one_def using that
    by (intro rules spares_simulated [OF sim(4)])
      (auto simp: mem_service_mongo_def mem_write_def spared.rel_refl split: option.splits
        intro!: spares_update dest!: coll_replace_spares)
  show "keeps (spares M cs P) (bulk_write env coll ops b)"
    if "coll \<in> cs \<Longrightarrow> \<forall>op \<in> set ops. \<forall>d. P d \<longrightarrow> \<not> doc_matches (up_filter op) d"
    unfolding bulk_write_def using that
    by (intro rules spares_simulated [OF sim(5)])
      (auto simp: mem_service_mongo_def mem_bulk_def split: prod.splits intro!: spares_update dest: coll_bulk_spares)
qed

section \<open>Undisturbed operations\<close>

text \<open>
  \<open>undisturbed M env\<close>: nobody else writes to the database meanwhile. Then a call that returns had
  exactly its documented effect.
\<close>

definition undisturbed :: "('w \<Rightarrow> mdb) \<Rightarrow> ('w, 'z) service_env_scheme \<Rightarrow> bool" where
  "undisturbed M env \<longleftrightarrow> net_within (\<lambda>w w'. M w' = M w) env"

lemma call_mongo_Inr:
  "call_mongo env m w = (Inr r, w') \<Longrightarrow> \<exists>v. mg_net env w = (Delivered, v) \<and> m v = (Inr r, w')"
  by (auto simp: call_mongo_def split: prod.splits delivery.splits)

lemma undisturbed_net: "undisturbed M env \<Longrightarrow> mg_net env w = (d, v) \<Longrightarrow> M v = M w"
  by (auto simp: undisturbed_def net_within_def)

lemma find_one_Inr:
  assumes doc: "service_mongo_documented (mg_cmds env) M idx" and still: "undisturbed M env"
    and run: "find_one env coll f names w = (Inr r, w')"
  shows "M w' = M w" and "r = map_option (\<lambda>(_, d, _). project names d) (first_match f (M w coll))"
  using run undisturbed_net [OF still] doc
  by (auto simp: find_one_def service_mongo_documented_def mem_service_mongo_def dest!: call_mongo_Inr)

lemma distinct_values_Inr:
  assumes doc: "service_mongo_documented (mg_cmds env) M idx" and still: "undisturbed M env"
    and run: "distinct_values env coll k f w = (Inr r, w')"
  shows "M w' = M w" and "v \<in> set r \<longleftrightarrow> (\<exists>d \<in> set (M w coll). doc_matches f d \<and> map_of d k = Some v)"
proof -
  obtain u where u: "mg_net env w = (Delivered, u)" "w' = u" "r = mc_distinct (mg_cmds env) coll k f u"
    using call_mongo_Inr [OF run [unfolded distinct_values_def]] by auto
  then show "M w' = M w" using undisturbed_net [OF still u(1)] by simp
  have r: "r = mc_distinct (mem_service_mongo idx) coll k f (M w)"
    using u undisturbed_net [OF still u(1)] doc by (simp add: service_mongo_documented_def)
  show "v \<in> set r \<longleftrightarrow> (\<exists>d \<in> set (M w coll). doc_matches f d \<and> map_of d k = Some v)"
    by (force simp: r mem_service_mongo_def List.map_filter_def)
qed

lemma delete_many_Inr:
  assumes doc: "service_mongo_documented (mg_cmds env) M idx" and still: "undisturbed M env"
    and run: "delete_many env coll f w = (Inr r, w')"
  shows "M w' = (M w)(coll := delete_all f (M w coll))"
proof -
  obtain v where v: "mg_net env w = (Delivered, v)" "mc_delete_many (mg_cmds env) coll f v = (Inr r, w')"
    using call_mongo_Inr run unfolding delete_many_def by metis
  have "simulates M (mc_delete_many (mg_cmds env) coll f) (mc_delete_many (mem_service_mongo idx) coll f)"
    using doc by (simp add: service_mongo_documented_def)
  from simulatesD [OF this v(2)] show ?thesis
    using undisturbed_net [OF still v(1)] by (simp add: mem_service_mongo_def mem_delete_def)
qed

lemma replace_one_Inr:
  assumes doc: "service_mongo_documented (mg_cmds env) M idx" and still: "undisturbed M env"
    and run: "replace_one env coll f d u w = (Inr r, w')"
  shows "\<exists>c. coll_replace (idx coll) f d u (M w coll) = Some c \<and> M w' = (M w)(coll := c)"
proof -
  obtain v where v: "mg_net env w = (Delivered, v)" "mc_replace_one (mg_cmds env) coll f d u v = (Inr r, w')"
    using call_mongo_Inr run unfolding replace_one_def require_def
    by (force simp: bind_Inr_iff split: if_splits)
  have "simulates M (mc_replace_one (mg_cmds env) coll f d u) (mc_replace_one (mem_service_mongo idx) coll f d u)"
    using doc by (simp add: service_mongo_documented_def)
  from simulatesD [OF this v(2)] show ?thesis
    using undisturbed_net [OF still v(1)] by (auto simp: mem_service_mongo_def mem_write_def split: option.splits)
qed

lemma bulk_write_Inr:
  assumes doc: "service_mongo_documented (mg_cmds env) M idx" and still: "undisturbed M env"
    and run: "bulk_write env coll ops b w = (Inr r, w')"
  shows "\<exists>c. coll_bulk (idx coll) b ops (M w coll) = (True, c) \<and> M w' = (M w)(coll := c)"
proof -
  obtain v where v: "mg_net env w = (Delivered, v)" "mc_bulk_write (mg_cmds env) coll ops b v = (Inr r, w')"
    using call_mongo_Inr run unfolding bulk_write_def require_def
    by (force simp: bind_Inr_iff split: if_splits)
  have "simulates M (mc_bulk_write (mg_cmds env) coll ops b) (mc_bulk_write (mem_service_mongo idx) coll ops b)"
    using doc by (simp add: service_mongo_documented_def)
  from simulatesD [OF this v(2)] show ?thesis
    using undisturbed_net [OF still v(1)] by (auto simp: mem_service_mongo_def mem_bulk_def split: prod.splits if_splits)
qed

end
