(* ===== verification/Indexer_Service.thy ===== *)
theory Indexer_Service
  imports Mongo_Store Queue_Client Py_Text
begin

text \<open>
  The loops the two indexers share: waiting for the owner lock, recovering the claims of a crashed
  worker, the outcome of a claim, and leaving the service through the release of the lock. Loops
  take fuel; \<open>None\<close> is a loop that is still running.
\<close>

record 'w indexer_env = "'w service_env" +
  sv_ucd :: ucd
  sv_lower :: "pystr \<Rightarrow> pystr"

datatype claim_outcome = Completed | Skipped | Quarantined | TransientFailure

text \<open>\<open>try: return m() except Exception: return False\<close>\<close>

definition false_on_error :: "('w, bool) prog \<Rightarrow> ('w, bool) prog" where
  "false_on_error m = catch m (\<lambda>_. ret False)"

text \<open>\<open>a and b\<close> of two calls.\<close>

definition andalso :: "('w, bool) prog \<Rightarrow> ('w, bool) prog \<Rightarrow> ('w, bool) prog" where
  "andalso a b = bind a (\<lambda>x. if x then b else ret False)"

definition outcome_of :: "claim_outcome \<Rightarrow> ('w, bool) prog \<Rightarrow> ('w, claim_outcome) prog" where
  "outcome_of result m = bind m (\<lambda>b. ret (if b then result else TransientFailure))"

definition transient_on_error :: "('w, claim_outcome) prog \<Rightarrow> ('w, claim_outcome) prog" where
  "transient_on_error m = catch m (\<lambda>_. ret TransientFailure)"

section \<open>Owner loops\<close>

primrec acquire_loop ::
    "('w, 'z) service_env_scheme \<Rightarrow> (redis_client \<Rightarrow> ('w, bool \<times> redis_client) prog) \<Rightarrow> nat \<Rightarrow> redis_client \<Rightarrow>
       ('w, (bool \<times> redis_client) option) prog" where
  "acquire_loop env acquire 0 cl = ret None"
| "acquire_loop env acquire (Suc fuel) cl =
     bind (is_running env) (\<lambda>running.
     if \<not> running then ret (Some (False, cl))
     else bind (attempt (acquire cl)) (\<lambda>result.
       case result of
         Inl e \<Rightarrow> ret (Some (False, cl))
       | Inr (granted, cl') \<Rightarrow>
           if granted then ret (Some (True, cl'))
           else bind (mod_state (sv_sleep env)) (\<lambda>_. acquire_loop env acquire fuel cl')))"

primrec recover_batches ::
    "('w, 'z) service_env_scheme \<Rightarrow> ('w, bool) prog \<Rightarrow> ('w, nat) prog \<Rightarrow> nat \<Rightarrow> nat \<Rightarrow> ('w, bool option) prog" where
  "recover_batches env renew recover batch 0 = ret None"
| "recover_batches env renew recover batch (Suc fuel) =
     bind (is_running env) (\<lambda>running.
     if \<not> running then ret (Some False)
     else bind renew (\<lambda>renewed.
       if \<not> renewed then ret (Some False)
       else bind (attempt recover) (\<lambda>result.
         case result of
           Inl e \<Rightarrow> ret (Some False)
         | Inr n \<Rightarrow> if n < batch then ret (Some True) else recover_batches env renew recover batch fuel)))"

section \<open>Leaving the service\<close>

text \<open>\<open>return 0 if not running else 1\<close>\<close>

definition stopped_code :: "('w, 'z) service_env_scheme \<Rightarrow> ('w, nat option) prog" where
  "stopped_code env = bind (is_running env) (\<lambda>running. ret (Some (if running then 1 else 0)))"

text \<open>\<open>finally: release\<close>, with the errors of the release swallowed; not while still running.\<close>

definition release_at_exit :: "('w, bool) prog \<Rightarrow> ('w, nat option) prog \<Rightarrow> ('w, nat option) prog" where
  "release_at_exit release m =
     bind (attempt m) (\<lambda>r.
     case r of
       Inr None \<Rightarrow> ret None
     | _ \<Rightarrow> bind (attempt release) (\<lambda>_. lift r))"

text \<open>
  The renewal check at the top of the main loop: the time of the last renewal, or \<open>None\<close> when a
  renewal was due and failed. The clock counts microseconds.
\<close>

definition renew_if_due ::
    "('w, 'z) service_env_scheme \<Rightarrow> nat \<Rightarrow> ('w, bool) prog \<Rightarrow> int \<Rightarrow> ('w, int option) prog" where
  "renew_if_due env seconds renew last_renewal =
     bind (monotonic env) (\<lambda>now.
     if now - last_renewal < int seconds * 1000000 then ret (Some last_renewal)
     else bind renew (\<lambda>renewed.
       if \<not> renewed then ret None else bind (monotonic env) (\<lambda>t. ret (Some t))))"

lemma wp_derived [simp, wp_simps]:
  "wp (false_on_error m) Q E w = wp m Q (\<lambda>_. Q False) w"
  "wp (andalso a b) Q E w = wp a (\<lambda>x w'. if x then wp b Q E w' else Q False w') E w"
  "wp (outcome_of r m) Q' E w = wp m (\<lambda>b. Q' (if b then r else TransientFailure)) E w"
  "wp (transient_on_error n) Q' E w = wp n Q' (\<lambda>_. Q' TransientFailure) w"
  by (auto simp: false_on_error_def andalso_def outcome_of_def transient_on_error_def wp_def bind_eq catch_def
      split: prod.splits sum.splits)

context world_relation
begin

lemma keeps_derived:
  "keeps rel m \<Longrightarrow> keeps rel (false_on_error m)"
  "keeps rel m \<Longrightarrow> keeps rel m' \<Longrightarrow> keeps rel (andalso m m')"
  "keeps rel m \<Longrightarrow> keeps rel (outcome_of r m)"
  "keeps rel n \<Longrightarrow> keeps rel (transient_on_error n)"
  unfolding false_on_error_def andalso_def outcome_of_def transient_on_error_def
  by (intro keeps_rules; assumption)+

lemma keeps_case_sum:
  "(\<And>e. keeps rel (f e)) \<Longrightarrow> (\<And>x. keeps rel (g x)) \<Longrightarrow> keeps rel (case r of Inl e \<Rightarrow> f e | Inr x \<Rightarrow> g x)"
  by (cases r) simp_all

lemma keeps_finally: "keeps rel m \<Longrightarrow> keeps rel f \<Longrightarrow> keeps rel (finally_do m f)"
  unfolding keeps_def finally_do_def by (force split: prod.splits sum.splits intro: rel_trans)

lemma keeps_acquire_loop:
  assumes "net_within rel env" and "\<And>cl. keeps rel (acquire cl)"
  shows "keeps rel (acquire_loop env acquire fuel cl)"
proof (induction fuel arbitrary: cl)
  case (Suc fuel)
  have "keeps rel (case result of Inl e \<Rightarrow> ret (Some (False, cl))
      | Inr (granted, cl') \<Rightarrow> if granted then ret (Some (True, cl'))
          else bind (mod_state (sv_sleep env)) (\<lambda>_. acquire_loop env acquire fuel cl'))" for result
    by (cases result) (auto intro!: keeps_rules keeps_environment assms Suc)
  then show ?case
    unfolding acquire_loop.simps by (intro keeps_rules keeps_environment assms)
qed (simp add: keeps_rules)

lemma keeps_recover_batches:
  assumes "net_within rel env" and "keeps rel renew" and "keeps rel recover"
  shows "keeps rel (recover_batches env renew recover batch fuel)"
proof (induction fuel)
  case (Suc fuel)
  have "keeps rel (case result of Inl e \<Rightarrow> ret (Some False)
      | Inr n \<Rightarrow> if n < batch then ret (Some True) else recover_batches env renew recover batch fuel)" for result
    by (cases result) (auto intro!: keeps_rules Suc)
  then show ?case
    unfolding recover_batches.simps by (intro keeps_rules keeps_environment assms)
qed (simp add: keeps_rules)

lemma keeps_stopped_code: "net_within rel env \<Longrightarrow> keeps rel (stopped_code env)"
  unfolding stopped_code_def by (intro keeps_rules keeps_environment)

lemma keeps_renew_if_due: "net_within rel env \<Longrightarrow> keeps rel renew \<Longrightarrow> keeps rel (renew_if_due env n renew t)"
  unfolding renew_if_due_def by (intro keeps_rules keeps_environment)

lemma keeps_release_at_exit:
  assumes "keeps rel release" and "keeps rel m"
  shows "keeps rel (release_at_exit release m)"
proof -
  have "keeps rel (case r of Inr None \<Rightarrow> ret None | _ \<Rightarrow> bind (attempt release) (\<lambda>_. lift r))"
    for r :: "exn + nat option"
    by (auto split: sum.splits option.splits intro!: keeps_rules assms)
  then show ?thesis
    unfolding release_at_exit_def by (intro keeps_rules assms)
qed

end

end
