(* ===== verification/Queue_Recovery.thy ===== *)
theory Queue_Recovery
  imports Indexer_Service
begin

text \<open>
  Recovery after a crash ends: an owner that is not interrupted moves every abandoned claim back to
  the queue, in order, within as many batches as there are full batches of claims plus one.
\<close>

definition lists_ok :: "queue_keys \<Rightarrow> rdb \<Rightarrow> bool" where
  "lists_ok q db \<longleftrightarrow> absent_or ''list'' mem_redis (qk_queue q) db \<and> absent_or ''list'' mem_redis (qk_processing q) db"

text \<open>The next owner gets an epoch: there is none yet, or a positive number with room above it.\<close>

definition epoch_usable :: "queue_keys \<Rightarrow> rdb \<Rightarrow> bool" where
  "epoch_usable q db \<longleftrightarrow>
     (case db (qk_epoch q) of
        None \<Rightarrow> True
      | Some (RStr s) \<Rightarrow> positive_decimal s \<and> decimal_value s < MAX_LUA_INTEGER
      | Some _ \<Rightarrow> False)"

text \<open>Nobody interferes and nothing is lost.\<close>

definition reliable :: "('w, 'z) service_env_scheme \<Rightarrow> bool" where
  "reliable env \<longleftrightarrow> (\<forall>w. rc_net env w = (Delivered, w)) \<and> (\<forall>w. sv_running env w = (True, w))"

lemma simulates_run:
  assumes "simulates V m m'" and "m' (V w) = (r, db)"
  obtains v where "m w = (r, v)" and "V v = db"
  using assms that by (cases "m w") (simp add: simulates_def)

context queue_layout
begin

lemma recover_loop_lists: "recover_loop mem_redis q limit r0 db = (r, db') \<Longrightarrow> lists_ok q db \<Longrightarrow> lists_ok q db'"
proof (induction limit arbitrary: r0 db)
  case (Suc limit)
  show ?case
  proof (cases "claimed q db")
    case Nil
    then show ?thesis using Suc.prems by (auto simp: bind_eq c_lhead_def claimed_def)
  next
    case (Cons v rest)
    let ?db = "mem_set_list (qk_processing q) rest (mem_set_list (qk_queue q) (queued q db @ [v]) db)"
    have "recover_loop mem_redis q limit (r0 + 1) ?db = (r, db')"
      using Suc.prems(1) Cons keys_differ by (simp add: bind_eq c_lhead_def claimed_def queued_def)
    moreover have "lists_ok q ?db" using keys_differ by (auto simp: lists_ok_def)
    ultimately show ?thesis using Suc.IH by blast
  qed
qed simp

lemma owns_kept:
  "owns q token n db \<Longrightarrow> db' (qk_lock q) = db (qk_lock q) \<Longrightarrow> db' (qk_epoch q) = db (qk_epoch q) \<Longrightarrow> owns q token n db'"
  by (simp add: owns_def owner_types_def owner_matches_def)

lemma recover_script_runs:
  assumes "owns q token n db" and "lists_ok q db" and "1 \<le> limit" "limit \<le> 1000"
  obtains db' where "recover_script mem_redis m q (owner_text token n) (show_nat n) limit db = (Inr (min limit (length (claimed q db))), db')"
    and "queued q db' = queued q db @ take limit (claimed q db)" and "claimed q db' = drop limit (claimed q db)"
    and "owns q token n db'" and "lists_ok q db'" and "\<And>k. k \<notin> {qk_queue q, qk_processing q} \<Longrightarrow> db' k = db k"
proof -
  obtain r db' where run: "recover_loop mem_redis q limit 0 db = (r, db')" by fastforce
  note e = recover_loop_effect [OF run]
  have "recover_script mem_redis m q (owner_text token n) (show_nat n) limit db = (r, db')"
    using assms run by (auto simp: recover_script_def require_owner_def check_run bind_eq owns_def lists_ok_def)
  moreover have "owns q token n db'"
    using e keys_differ by (intro owns_kept [OF assms(1)]) auto
  ultimately show thesis using that e recover_loop_lists [OF run assms(2)] by auto
qed

lemma renew_script_runs:
  "owns q token n db \<Longrightarrow> renew_script mem_redis m q (owner_text token n) (show_nat n) db = (Inr 1, db)"
  by (simp add: renew_script_def check_run bind_eq owns_def)

lemma acquire_script_runs:
  assumes "db (qk_lock q) = None" and "epoch_usable q db"
  obtains db' where "acquire_script mem_redis m q t db = (Inr (Some (show_nat (epoch_of q db + 1))), db')"
    and "owns q t (epoch_of q db + 1) db'" and "epoch_of q db' = epoch_of q db + 1"
    and "\<And>k. k \<notin> {qk_lock q, qk_epoch q} \<Longrightarrow> db' k = db k"
proof -
  obtain e db' where run: "acquire_script mem_redis m q t db = (Inr (Some e), db')"
    using assms keys_differ
    by (auto simp: epoch_usable_def acquire_script_def check_run bind_eq reject_def redis_read_defs
        split: option.splits rvalue.splits)
  then show thesis using that acquire_granted [OF run] by simp
qed

lemma drop_script_runs:
  assumes "owns q t n db"
  shows "drop_script mem_redis q (owner_text t n) (show_nat n) db = (Inr 1, db(qk_lock q := None))"
  using assms by (auto simp: drop_script_def owns_def bind_eq fun_eq_iff)

end

text \<open>A call of the owner that nothing disturbs is the script on the documented keyspace.\<close>

lemma call_as_owner_run:
  assumes "reliable env" and "rc_owner_epoch cl = Some n" and "utf8_encode (rc_owner_token cl) = Some t"
    and "\<And>owner epoch. simulates V (script owner epoch) (script' owner epoch)"
    and "script' (owner_text t n) (show_nat n) (V w) = (r, db)"
  obtains v where "call_as_owner env cl script w = (r, v)" and "V v = db"
proof -
  have "is_ascii ([58] @ show_nat n)"
    using show_nat_digits [of n] by (fastforce simp: is_ascii_def list_all_iff ascii_digit_def)
  then have "utf8_encode (rc_owner_token cl @ [58] @ show_nat n) = Some (owner_text t n)"
    using assms(3) utf8_encode_ascii [of "[58] @ show_nat n"]
    by (simp add: utf8_encode_append owner_text_def split: option.splits)
  then have "call_as_owner env cl script w = script (owner_text t n) (show_nat n) w"
    using assms(1,2) by (simp add: call_as_owner_def owner_value_def encode_arg_def bind_eq call_server_def reliable_def)
  then show thesis using simulates_run [OF assms(4,5)] that by metis
qed

context queue_layout
begin

lemma recover_batches_empties:
  assumes doc: "redis_documented (rc_cmds env) V" and rel: "reliable env" and conn: "rc_connected cl"
    and epoch: "rc_owner_epoch cl = Some n" and tok: "utf8_encode (rc_owner_token cl) = Some t"
    and batch: "1 \<le> batch" "batch \<le> 1000"
  shows "owns q t n (V w) \<Longrightarrow> lists_ok q (V w) \<Longrightarrow> length (claimed q (V w)) < fuel * batch \<Longrightarrow>
     \<exists>w'. recover_batches env (false_on_error (client_renew env m q cl)) (client_recover env m q cl batch) batch fuel w =
            (Inr (Some True), w') \<and>
          claimed q (V w') = [] \<and> queued q (V w') = queued q (V w) @ claimed q (V w) \<and> owns q t n (V w') \<and>
          lists_ok q (V w') \<and> (\<forall>k. k \<notin> {qk_queue q, qk_processing q} \<longrightarrow> V w' k = V w k)"
proof (induction fuel arbitrary: w)
  case (Suc fuel)
  note sim = simulates_scripts [OF doc]
  obtain v1 where v1: "call_as_owner env cl (renew_script (rc_cmds env) m q) w = (Inr 1, v1)" "V v1 = V w"
    by (rule call_as_owner_run [where script' = "renew_script mem_redis m q", OF rel epoch tok sim(2) renew_script_runs [OF Suc.prems(1)]])
  obtain db' where db': "recover_script mem_redis m q (owner_text t n) (show_nat n) batch (V v1) =
        (Inr (min batch (length (claimed q (V w)))), db')"
      "queued q db' = queued q (V w) @ take batch (claimed q (V w))" "claimed q db' = drop batch (claimed q (V w))"
      "owns q t n db'" "lists_ok q db'" "\<And>k. k \<notin> {qk_queue q, qk_processing q} \<Longrightarrow> db' k = V w k"
    using recover_script_runs [OF Suc.prems(1,2) batch, of m] v1(2) by metis
  obtain v2 where v2: "call_as_owner env cl (\<lambda>owner epoch. recover_script (rc_cmds env) m q owner epoch batch) v1 =
        (Inr (min batch (length (claimed q (V w)))), v2)" "V v2 = db'"
    by (rule call_as_owner_run [where script' = "\<lambda>owner epoch. recover_script mem_redis m q owner epoch batch", OF rel epoch tok sim(5) db'(1)])
  have step: "recover_batches env (false_on_error (client_renew env m q cl)) (client_recover env m q cl batch) batch (Suc fuel) w =
      (if min batch (length (claimed q (V w))) < batch then (Inr (Some True), v2)
       else recover_batches env (false_on_error (client_renew env m q cl)) (client_recover env m q cl batch) batch fuel v2)"
    using v1(1) v2(1) rel conn
    by (simp add: bind_eq is_running_def reliable_def false_on_error_def catch_def client_renew_def
        client_recover_def require_client_def attempt_eq)
  show ?case
  proof (cases "length (claimed q (V w)) < batch")
    case True
    then show ?thesis using step db' v2(2) by simp
  next
    case False
    then have "length (claimed q (V v2)) < fuel * batch" using Suc.prems(3) db'(3) v2(2) by simp
    from Suc.IH [OF _ _ this] show ?thesis
      using step False db' v2(2) by auto
  qed
qed simp

end

text \<open>The same as conditions on the state that is left.\<close>

lemma wp_call_as_owner:
  assumes "reliable env" and "rc_owner_epoch cl = Some n" and "utf8_encode (rc_owner_token cl) = Some t"
    and "\<And>owner epoch. simulates V (script owner epoch) (script' owner epoch)"
    and "script' (owner_text t n) (show_nat n) (V w) = (Inr x, db)"
  shows "wp (call_as_owner env cl script) (\<lambda>y v. y = x \<and> V v = db) (\<lambda>_ _. False) w"
proof -
  obtain v where "call_as_owner env cl script w = (Inr x, v)" "V v = db"
    by (rule call_as_owner_run [where script = script and script' = script', OF assms])
  then show ?thesis by (simp add: wp_def)
qed

lemma wp_running: "reliable env \<Longrightarrow> wp (is_running env) Q E w = Q True w"
  by (simp add: reliable_def is_running_def wp_def)

lemma positive_show_nat: "0 < n \<Longrightarrow> positive_decimal (show_nat n)"
  using show_nat_head [of n] show_nat_digits [of n] by (cases "show_nat n") (auto simp: positive_decimal_def)

end
