(* ===== verification/Image_Redis.thy ===== *)
theory Image_Redis
  imports Image_Model Json Queue_Recovery
begin

text \<open>
  \<open>data/redis_client.py\<close> of the image indexer: its Lua scripts on the image keys, and the methods of
  its client. \<open>image_load_work\<close> reads a publication (manifest, then payloads) and rejects everything
  that is not exactly what the spider writes; \<open>image_ack\<close> removes a claim and the publication.

  The lemmas: what a loaded work item is known to be, which exceptions loading raises, and the
  exact effect of an acknowledgement.
\<close>

section \<open>Keys and messages\<close>

definition image_keys :: queue_keys where
  "image_keys =
     \<lparr>qk_lock = py ''image_indexer_queue:owner'', qk_epoch = py ''image_indexer_queue:fence_epoch'',
      qk_queue = py ''image_indexer_queue'', qk_processing = py ''image_indexer_queue:processing'',
      qk_dead = py ''image_indexer_queue:dead''\<rparr>"

definition image_messages :: queue_messages where
  "image_messages =
     \<lparr>qm_lock_type = ''owner lock must be a string'', qm_epoch_type = ''fence epoch must be a string'',
      qm_epoch_value = ''invalid fence epoch'', qm_owner_types = ''owner keys must be strings'',
      qm_queue_type = ''queue must be a list'', qm_processing_type = ''processing must be a list'',
      qm_dead_type = ''dead letter must be a list''\<rparr>"

interpretation image_queue: queue_layout image_keys
  by unfold_locales (simp add: image_keys_def)

section \<open>Scripts\<close>

definition image_acquire_script :: "('w, 'z) redis_cmds_scheme \<Rightarrow> bytes \<Rightarrow> ('w, bytes option) prog" where
  "image_acquire_script C = acquire_script C image_messages image_keys"

definition image_renew_script :: "('w, 'z) redis_cmds_scheme \<Rightarrow> bytes \<Rightarrow> bytes \<Rightarrow> ('w, nat) prog" where
  "image_renew_script C = renew_script C image_messages image_keys"

definition image_drop_script :: "('w, 'z) redis_cmds_scheme \<Rightarrow> bytes \<Rightarrow> bytes \<Rightarrow> ('w, nat) prog" where
  "image_drop_script C = drop_script C image_keys"

definition image_claim_script :: "('w, 'z) redis_cmds_scheme \<Rightarrow> bytes \<Rightarrow> bytes \<Rightarrow> ('w, bytes option) prog" where
  "image_claim_script C = claim_script C image_messages image_keys"

definition image_recover_script :: "('w, 'z) redis_cmds_scheme \<Rightarrow> bytes \<Rightarrow> bytes \<Rightarrow> nat \<Rightarrow> ('w, nat) prog" where
  "image_recover_script C = recover_script C image_messages image_keys"

definition image_release_script :: "('w, 'z) redis_cmds_scheme \<Rightarrow> bytes \<Rightarrow> bytes \<Rightarrow> bytes \<Rightarrow> ('w, nat) prog" where
  "image_release_script C = release_script C image_messages image_keys"

definition image_quarantine_script ::
    "('w, 'z) redis_cmds_scheme \<Rightarrow> bytes \<Rightarrow> bytes \<Rightarrow> bytes \<Rightarrow> nat \<Rightarrow> ('w, nat) prog" where
  "image_quarantine_script C = quarantine_script C image_messages image_keys"

definition image_work_sizes_script :: "('w, 'z) redis_cmds_scheme \<Rightarrow> bytes \<Rightarrow> bytes \<Rightarrow> ('w, nat \<times> nat) prog" where
  "image_work_sizes_script C = work_sizes_script C image_messages image_keys"

text \<open>
  The acknowledgement. \<open>values\<close> are the source URL and the alternative text of each payload; the
  argument \<open>count\<close> is sent as decimal text.
\<close>

record ack_args =
  aa_manifest :: bytes
  aa_payloads :: "bytes list"
  aa_serialized :: bytes
  aa_count :: nat
  aa_publication :: bytes
  aa_page :: bytes
  aa_values :: "(bytes \<times> bytes) list"

primrec check_payloads ::
    "('w, 'z) redis_cmds_scheme \<Rightarrow> bytes \<Rightarrow> bytes \<Rightarrow> (bytes \<times> bytes \<times> bytes) list \<Rightarrow> ('w, unit) prog" where
  "check_payloads C publication page [] = ret ()"
| "check_payloads C publication page (p # ps) =
     (case p of (key, source, alt) \<Rightarrow>
        bind (check (\<lambda>w. c_hget C key (py ''publication_id'') w = Some publication \<and>
                         c_hget C key (py ''normalized_page_url'') w = Some page) ''payload identity mismatch'') (\<lambda>_.
        bind (check (\<lambda>w. c_hget C key (py ''contract_version'') w = Some (py ''1'') \<and>
                         c_hget C key (py ''normalized_source_url'') w = Some source \<and>
                         c_hget C key (py ''alt'') w = Some alt) ''payload changed'') (\<lambda>_.
        check_payloads C publication page ps)))"

definition ack_script ::
    "('w, 'z) redis_cmds_scheme \<Rightarrow> bytes \<Rightarrow> bytes \<Rightarrow> ack_args \<Rightarrow> ('w, nat) prog" where
  "ack_script C owner epoch a =
     bind (check (owner_types C image_keys) ''owner keys must be strings'') (\<lambda>_.
     bind (check (\<lambda>w. c_type C (qk_processing image_keys) w = ''list'') ''processing must be a list'') (\<lambda>_.
     bind (check (\<lambda>w. c_type C (aa_manifest a) w = ''hash'') ''manifest must be a hash'') (\<lambda>_.
     bind (check (\<lambda>_. aa_count a \<le> 1000 \<and> length (aa_payloads a) = aa_count a \<and>
                      length (aa_values a) = aa_count a) ''invalid payload count'') (\<lambda>_.
     bind (check (\<lambda>w. list_all (\<lambda>k. c_type C k w = ''hash'') (aa_payloads a)) ''payload must be a hash'') (\<lambda>_.
     bind (require_owner C image_keys owner epoch) (\<lambda>_.
     bind (get_state (c_lpos C (qk_processing image_keys) (aa_manifest a))) (\<lambda>present.
     if \<not> present then ret 0
     else
       bind (check (\<lambda>w. c_hget C (aa_manifest a) (py ''image_keys'') w = Some (aa_serialized a) \<and>
                        c_hget C (aa_manifest a) (py ''image_count'') w = Some (show_nat (aa_count a)))
               ''manifest changed'') (\<lambda>_.
       bind (check (\<lambda>w. c_hget C (aa_manifest a) (py ''publication_id'') w = Some (aa_publication a) \<and>
                        c_hget C (aa_manifest a) (py ''normalized_url'') w = Some (aa_page a))
               ''manifest identity mismatch'') (\<lambda>_.
       bind (check (\<lambda>w. c_hget C (aa_manifest a) (py ''contract_version'') w = Some (py ''1''))
               ''manifest contract changed'') (\<lambda>_.
       bind (check_payloads C (aa_publication a) (aa_page a) (zip (aa_payloads a) (aa_values a))) (\<lambda>_.
       bind (mod_state (c_lrem C (qk_processing image_keys) (aa_manifest a))) (\<lambda>_.
       bind (mod_state (c_del C (aa_manifest a # aa_payloads a))) (\<lambda>_. ret 1)))))))))))))"

definition manifest_preflight_script ::
    "('w, 'z) redis_cmds_scheme \<Rightarrow> bytes \<Rightarrow> nat \<Rightarrow> ('w, nat) prog" where
  "manifest_preflight_script C key max_bytes =
     bind (check (\<lambda>w. c_type C key w = ''hash'') ''manifest must be a hash'') (\<lambda>_.
     bind (check (\<lambda>w. c_hlen C key w = 5) ''manifest field count is invalid'') (\<lambda>_.
     bind (check (\<lambda>w. c_hstrlen C key (py ''image_keys'') w \<le> max_bytes) ''manifest exceeds limit'') (\<lambda>_. ret 1)))"

primrec payloads_preflight ::
    "('w, 'z) redis_cmds_scheme \<Rightarrow> bytes list \<Rightarrow> nat \<Rightarrow> nat \<Rightarrow> ('w, nat) prog" where
  "payloads_preflight C [] max_alt max_url = ret 1"
| "payloads_preflight C (key # keys) max_alt max_url =
     bind (check (\<lambda>w. c_type C key w = ''hash'') ''payload must be a hash'') (\<lambda>_.
     bind (check (\<lambda>w. c_hlen C key w = 5) ''payload field count is invalid'') (\<lambda>_.
     bind (check (\<lambda>w. c_hstrlen C key (py ''alt'') w \<le> max_alt) ''payload alt exceeds limit'') (\<lambda>_.
     bind (check (\<lambda>w. c_hstrlen C key (py ''normalized_page_url'') w \<le> max_url) ''payload page exceeds limit'') (\<lambda>_.
     bind (check (\<lambda>w. c_hstrlen C key (py ''normalized_source_url'') w \<le> max_url)
             ''payload source exceeds limit'') (\<lambda>_.
     payloads_preflight C keys max_alt max_url)))))"

definition payload_preflight_script ::
    "('w, 'z) redis_cmds_scheme \<Rightarrow> bytes list \<Rightarrow> nat \<Rightarrow> nat \<Rightarrow> ('w, nat) prog" where
  "payload_preflight_script C keys max_alt max_url =
     bind (check (\<lambda>_. length keys \<le> 1000) ''too many payloads'') (\<lambda>_.
     payloads_preflight C keys max_alt max_url)"

section \<open>The client\<close>

definition image_acquire_lock :: "('w, 'z) rc_env_scheme \<Rightarrow> redis_client \<Rightarrow> ('w, bool \<times> redis_client) prog" where
  "image_acquire_lock env cl = client_acquire env image_messages image_keys cl"

definition image_renew_lock :: "('w, 'z) rc_env_scheme \<Rightarrow> redis_client \<Rightarrow> ('w, bool) prog" where
  "image_renew_lock env cl = client_renew env image_messages image_keys cl"

definition image_release_lock :: "('w, 'z) rc_env_scheme \<Rightarrow> redis_client \<Rightarrow> ('w, bool) prog" where
  "image_release_lock env cl = client_drop env image_keys cl"

definition image_claim :: "('w, 'z) rc_env_scheme \<Rightarrow> redis_client \<Rightarrow> ('w, pystr option) prog" where
  "image_claim env cl = client_claim env image_messages image_keys cl"

definition image_recover :: "('w, 'z) rc_env_scheme \<Rightarrow> redis_client \<Rightarrow> nat \<Rightarrow> ('w, nat) prog" where
  "image_recover env cl limit = client_recover env image_messages image_keys cl limit"

definition image_release_claim :: "('w, 'z) rc_env_scheme \<Rightarrow> redis_client \<Rightarrow> pystr \<Rightarrow> ('w, bool) prog" where
  "image_release_claim env cl claim = client_release env image_messages image_keys cl claim"

definition image_quarantine :: "('w, 'z) rc_env_scheme \<Rightarrow> redis_client \<Rightarrow> pystr \<Rightarrow> ('w, bool) prog" where
  "image_quarantine env cl claim =
     client_quarantine env image_messages image_keys cl IMAGE_DEAD_LETTER_MAX_ENTRIES claim"

definition image_work_sizes :: "('w, 'z) rc_env_scheme \<Rightarrow> redis_client \<Rightarrow> ('w, nat \<times> nat) prog" where
  "image_work_sizes env cl = client_work_sizes env image_messages image_keys cl"

section \<open>Loading a publication\<close>

definition hgetall_text :: "('w, 'z) rc_env_scheme \<Rightarrow> bytes \<Rightarrow> ('w, (pystr, pystr) dict) prog" where
  "hgetall_text env key =
     bind (call_server env (hgetall_cmd (rc_cmds env) key)) (\<lambda>pairs. lift (decode_pairs pairs))"

text \<open>\<open>except redis.ResponseError: raise e\<close>\<close>

definition on_response_error :: "('w, 'a) prog \<Rightarrow> exn \<Rightarrow> ('w, 'a) prog" where
  "on_response_error m e = catch m (\<lambda>x. case x of RedisResponseError _ \<Rightarrow> raise e | _ \<Rightarrow> raise x)"

definition manifest_fields :: "pystr list" where
  "manifest_fields = map py
     [''contract_version'', ''publication_id'', ''normalized_url'', ''image_count'', ''image_keys'']"

text \<open>A text that is \<open>str(n)\<close> for a natural number \<open>n\<close>.\<close>

definition canonical_count :: "pystr \<Rightarrow> nat option" where
  "canonical_count s =
     (if s \<noteq> [] \<and> list_all ascii_digit s \<and> show_nat (decimal_value s) = s then Some (decimal_value s) else None)"

text \<open>One payload key against the publication: the source URL it names.\<close>

definition check_payload_key :: "pystr \<Rightarrow> pystr \<Rightarrow> pystr \<Rightarrow> pystr \<Rightarrow> exn + pystr" where
  "check_payload_key publication_id page_url encoded_page payload_key =
     bindE (parse_payload_key payload_key) (\<lambda>(payload_publication, payload_page, source_url).
     bindE (requireE (payload_publication = publication_id \<and> payload_page = page_url)
       (InvalidImageWork ''payload key identity mismatch'')) (\<lambda>_.
     case encode_key_url source_url of
       None \<Rightarrow> Inl (UnicodeError ''encode'')
     | Some encoded \<Rightarrow>
         bindE (requireE (payload_key = payload_key_text publication_id encoded_page encoded)
           (InvalidImageWork ''payload key is not canonical'')) (\<lambda>_. Inr source_url)))"

text \<open>
  The checks on the manifest: the payload keys, their canonical list and the source URLs. \<open>int\<close>
  accepts more texts than \<open>canonical_count\<close>, but the comparison with \<open>str(count)\<close> leaves only these.
\<close>

definition manifest_entries ::
    "(pystr, pystr) dict \<Rightarrow> pystr \<Rightarrow> pystr \<Rightarrow> pystr \<Rightarrow> exn + pystr list \<times> pystr list" where
  "manifest_entries manifest publication_id page_url encoded_page =
     bindE (requireE (fst ` set manifest = set manifest_fields)
       (InvalidImageWork ''manifest is missing or corrupt'')) (\<lambda>_.
     let field = (\<lambda>name. the (map_of manifest (py name))) in
     bindE (part_size (field ''image_keys'')) (\<lambda>keys_size.
     bindE (requireE (field ''contract_version'' = py ''1'' \<and> field ''publication_id'' = publication_id \<and>
         field ''normalized_url'' = page_url \<and> keys_size \<le> MAX_MANIFEST_BYTES)
       (InvalidImageWork ''manifest identity is corrupt'')) (\<lambda>_.
     case canonical_count (field ''image_count'') of
       None \<Rightarrow> Inl (InvalidImageWork ''manifest count is invalid'')
     | Some n \<Rightarrow>
         bindE (requireE (n \<le> MAX_IMAGES_PER_PAGE) (InvalidImageWork ''manifest count exceeds limit'')) (\<lambda>_.
         case json_loads (field ''image_keys'') of
           None \<Rightarrow> Inl (InvalidImageWork ''manifest key list is invalid'')
         | Some (JArray vs) \<Rightarrow>
             (let payload_keys = map (the \<circ> json_string) vs in
              bindE (requireE (length vs = n \<and> list_all (\<lambda>v. json_string v \<noteq> None) vs \<and> distinct payload_keys)
                (InvalidImageWork ''manifest key list does not match count'')) (\<lambda>_.
              bindE (requireE (json_dumps_texts payload_keys = field ''image_keys'')
                (InvalidImageWork ''manifest key list is not canonical'')) (\<lambda>_.
              bindE (mapE (check_payload_key publication_id page_url encoded_page) payload_keys) (\<lambda>source_urls.
              bindE (requireE (source_urls = sort source_urls)
                (InvalidImageWork ''payload keys are not source sorted'')) (\<lambda>_.
              Inr (payload_keys, source_urls))))))
         | Some _ \<Rightarrow> Inl (InvalidImageWork ''manifest key list does not match count'')))))"

text \<open>\<open>except (TypeError, ValueError): raise InvalidImageWork\<close>\<close>

definition is_type_error :: "exn \<Rightarrow> bool" where
  "is_type_error e \<longleftrightarrow> (case e of TypeError _ \<Rightarrow> True | _ \<Rightarrow> False)"

definition load_image :: "ucd \<Rightarrow> pystr \<Rightarrow> pystr \<Rightarrow> (pystr, pystr) dict \<times> pystr \<Rightarrow> exn + image" where
  "load_image u publication_id page_url p =
     (case p of (payload, source_url) \<Rightarrow>
        (case bindE (image_from_contract u payload publication_id page_url) (\<lambda>img.
              bindE (part_size (im_alt img)) (\<lambda>alt_size.
              bindE (requireE (im_source_url img = source_url \<and> alt_size \<le> MAX_IMAGE_ALT_BYTES)
                (ValueError ''payload metadata does not match key'')) (\<lambda>_. Inr img))) of
           Inl e \<Rightarrow> if is_value_error e \<or> is_type_error e
                    then Inl (InvalidImageWork ''image payload validation failed'') else Inl e
         | Inr img \<Rightarrow> Inr img))"

definition load_payloads ::
    "('w, 'z) rc_env_scheme \<Rightarrow> pystr list \<Rightarrow> ('w, (pystr, pystr) dict list) prog" where
  "load_payloads env payload_keys =
     (if payload_keys = [] then ret []
      else bind (lift (mapE encode_arg payload_keys)) (\<lambda>keys.
        bind (on_response_error
          (call_server env (payload_preflight_script (rc_cmds env) keys MAX_IMAGE_ALT_BYTES MAX_KEY_URL_BYTES))
          (InvalidImageWork ''payload preflight failed'')) (\<lambda>_.
        mapP (hgetall_text env) keys)))"

definition image_load_work ::
    "('w, 'z) rc_env_scheme \<Rightarrow> ucd \<Rightarrow> redis_client \<Rightarrow> pystr \<Rightarrow> ('w, image_work) prog" where
  "image_load_work env u cl manifest_key =
     bind (require_client cl) (\<lambda>_.
     bind (lift (parse_manifest_key manifest_key)) (\<lambda>(publication_id, page_url, encoded_page).
     bind (lift (encode_arg manifest_key)) (\<lambda>key.
     bind (on_response_error
       (call_server env (manifest_preflight_script (rc_cmds env) key MAX_MANIFEST_BYTES))
       (InvalidImageWork ''manifest preflight failed'')) (\<lambda>_.
     bind (hgetall_text env key) (\<lambda>manifest.
     bind (lift (manifest_entries manifest publication_id page_url encoded_page)) (\<lambda>(payload_keys, source_urls).
     bind (load_payloads env payload_keys) (\<lambda>payloads.
     bind (lift (mapE (load_image u publication_id page_url) (zip payloads source_urls))) (\<lambda>images.
     ret \<lparr>iw_manifest_key = manifest_key, iw_publication_id = publication_id, iw_page_url = page_url,
          iw_payload_keys = payload_keys, iw_images = images,
          iw_serialized_keys = json_dumps_texts payload_keys\<rparr>))))))))"

section \<open>Acknowledging\<close>

definition ack_arguments :: "image_work \<Rightarrow> exn + ack_args" where
  "ack_arguments work =
     bindE (encode_arg (iw_manifest_key work)) (\<lambda>manifest.
     bindE (mapE encode_arg (iw_payload_keys work)) (\<lambda>payloads.
     bindE (encode_arg (iw_serialized_keys work)) (\<lambda>serialized.
     bindE (encode_arg (iw_publication_id work)) (\<lambda>publication.
     bindE (encode_arg (iw_page_url work)) (\<lambda>page.
     bindE (mapE (\<lambda>img. bindE (encode_arg (im_source_url img)) (\<lambda>source.
                        bindE (encode_arg (im_alt img)) (\<lambda>alt. Inr (source, alt)))) (iw_images work)) (\<lambda>values.
     Inr \<lparr>aa_manifest = manifest, aa_payloads = payloads, aa_serialized = serialized,
          aa_count = length (iw_payload_keys work), aa_publication = publication, aa_page = page,
          aa_values = values\<rparr>))))))"

definition image_ack :: "('w, 'z) rc_env_scheme \<Rightarrow> redis_client \<Rightarrow> image_work \<Rightarrow> ('w, bool) prog" where
  "image_ack env cl work =
     bind (require_client cl) (\<lambda>_.
     bind (lift (ack_arguments work)) (\<lambda>a.
     bind (call_as_owner env cl (\<lambda>owner epoch. ack_script (rc_cmds env) owner epoch a)) (\<lambda>n. ret (n = 1))))"

section \<open>What a loaded publication is\<close>

text \<open>The shape of a work item: everything in it is determined by the publication, the page and the images.\<close>

definition work_ok :: "image_work \<Rightarrow> bool" where
  "work_ok work \<longleftrightarrow>
     publication_id_ok (iw_publication_id work) \<and> key_url_ok (iw_page_url work) \<and>
     (\<exists>page. encode_key_url (iw_page_url work) = Some page \<and>
        iw_manifest_key work = manifest_key_text (iw_publication_id work) page \<and>
        list_all2 (\<lambda>key img. \<exists>source. encode_key_url (im_source_url img) = Some source \<and>
            key = payload_key_text (iw_publication_id work) page source)
          (iw_payload_keys work) (iw_images work)) \<and>
     length (iw_images work) \<le> MAX_IMAGES_PER_PAGE \<and>
     sorted (map im_source_url (iw_images work)) \<and> distinct (map im_source_url (iw_images work)) \<and>
     iw_serialized_keys work = json_dumps_texts (iw_payload_keys work) \<and>
     list_all (\<lambda>img. im_page_url img = iw_page_url work \<and>
         association_id (iw_page_url work) (im_source_url img) = Inr (im_id img) \<and>
         (\<exists>b. utf8_encode (im_alt img) = Some b \<and> length b \<le> MAX_IMAGE_ALT_BYTES)) (iw_images work)"

lemma part_size_iff: "part_size s = Inr n \<longleftrightarrow> (\<exists>b. utf8_encode s = Some b \<and> n = length b)"
  by (auto simp: part_size_def split: option.splits)

lemma load_image_sound:
  assumes "load_image u publication_id page_url (payload, source_url) = Inr img"
  shows "im_source_url img = source_url" and "im_page_url img = page_url"
    and "association_id page_url source_url = Inr (im_id img)"
    and "\<exists>b. utf8_encode (im_alt img) = Some b \<and> length b \<le> MAX_IMAGE_ALT_BYTES"
  using assms image_from_contract_fields(1,2) [of u payload publication_id page_url]
  by (auto simp: load_image_def sum_iffs part_size_iff split: sum.splits if_splits)

lemma load_images_sound:
  assumes "mapE (load_image u publication_id page_url) (zip payloads sources) = Inr images"
    and "length payloads = length sources"
  shows "map im_source_url images = sources"
    and "list_all (\<lambda>img. im_page_url img = page_url \<and> association_id page_url (im_source_url img) = Inr (im_id img) \<and>
           (\<exists>b. utf8_encode (im_alt img) = Some b \<and> length b \<le> MAX_IMAGE_ALT_BYTES)) images"
proof -
  have l: "list_all2 (\<lambda>p img. load_image u publication_id page_url p = Inr img) (zip payloads sources) images"
    using assms(1) by (simp add: mapE_Inr_iff)
  have n: "length images = length sources" using list_all2_lengthD [OF l] assms(2) by simp
  have each: "load_image u publication_id page_url (payloads ! i, sources ! i) = Inr (images ! i)"
    if "i < length images" for i
    using list_all2_nthD2 [OF l that] n assms(2) that by simp
  show "map im_source_url images = sources"
    using n load_image_sound(1) [OF each] by (auto intro: nth_equalityI)
  show "list_all (\<lambda>img. im_page_url img = page_url \<and> association_id page_url (im_source_url img) = Inr (im_id img) \<and>
           (\<exists>b. utf8_encode (im_alt img) = Some b \<and> length b \<le> MAX_IMAGE_ALT_BYTES)) images"
    unfolding list_all_length using load_image_sound [OF each] by auto
qed

lemma check_payload_key_iff:
  assumes "encode_key_url page_url = Some page" and "publication_id_ok publication_id" and "key_url_ok page_url"
  shows "check_payload_key publication_id page_url page key = Inr source \<longleftrightarrow>
     key_url_ok source \<and> (\<exists>e. encode_key_url source = Some e \<and> key = payload_key_text publication_id page e)"
proof
  assume "check_payload_key publication_id page_url page key = Inr source"
  then show "key_url_ok source \<and> (\<exists>e. encode_key_url source = Some e \<and> key = payload_key_text publication_id page e)"
    by (auto simp: check_payload_key_def sum_iffs parse_payload_key_iff split: option.splits)
next
  assume r: "key_url_ok source \<and> (\<exists>e. encode_key_url source = Some e \<and> key = payload_key_text publication_id page e)"
  then have "parse_payload_key key = Inr (publication_id, page_url, source)"
    using assms by (auto simp: parse_payload_key_iff)
  then show "check_payload_key publication_id page_url page key = Inr source"
    using r by (auto simp: check_payload_key_def)
qed

lemma manifest_entries_sound:
  assumes "manifest_entries manifest publication_id page_url page = Inr (payload_keys, sources)"
    and "encode_key_url page_url = Some page" and "publication_id_ok publication_id" and "key_url_ok page_url"
  shows "length payload_keys \<le> MAX_IMAGES_PER_PAGE" and "distinct payload_keys" and "sorted sources"
    and "list_all2 (\<lambda>key source. key_url_ok source \<and>
           (\<exists>e. encode_key_url source = Some e \<and> key = payload_key_text publication_id page e)) payload_keys sources"
    and "map_of manifest (py ''image_keys'') = Some (json_dumps_texts payload_keys)"
proof -
  note eq = assms(1) [unfolded manifest_entries_def Let_def]
  have f: "fst ` set manifest = set manifest_fields"
    and checked: "mapE (check_payload_key publication_id page_url page) payload_keys = Inr sources"
    and rest: "length payload_keys \<le> MAX_IMAGES_PER_PAGE" "distinct payload_keys" "sources = sort sources"
      "json_dumps_texts payload_keys = the (map_of manifest (py ''image_keys''))"
    using eq by (auto simp: sum_iffs split: option.splits json.splits if_splits)
  have "map_of manifest (py ''image_keys'') \<noteq> None"
    using f by (simp add: map_of_eq_None_iff manifest_fields_def)
  then show "map_of manifest (py ''image_keys'') = Some (json_dumps_texts payload_keys)"
    using rest(4) by auto
  show "length payload_keys \<le> MAX_IMAGES_PER_PAGE" "distinct payload_keys" by (rule rest)+
  show "sorted sources" using rest(3) by (metis sorted_sort)
  show "list_all2 (\<lambda>key source. key_url_ok source \<and>
      (\<exists>e. encode_key_url source = Some e \<and> key = payload_key_text publication_id page e)) payload_keys sources"
    using checked by (simp add: mapE_Inr_iff check_payload_key_iff [OF assms(2-4)])
qed

lemma mapP_length: "mapP f xs w = (Inr ys, w') \<Longrightarrow> length ys = length xs"
  by (induction xs arbitrary: ys w w') (auto simp: bind_Inr_iff)

text \<open>Loading succeeds only on a publication that is exactly what it should be.\<close>

lemma image_load_work_sound:
  assumes "image_load_work env u cl manifest_key w = (Inr work, w')"
  shows "work_ok work" and "iw_manifest_key work = manifest_key"
proof -
  obtain publication_id page_url page manifest payload_keys sources payloads images v1 v2 where
      key: "parse_manifest_key manifest_key = Inr (publication_id, page_url, page)"
    and entries: "manifest_entries manifest publication_id page_url page = Inr (payload_keys, sources)"
    and payloads: "load_payloads env payload_keys v1 = (Inr payloads, v2)"
    and images: "mapE (load_image u publication_id page_url) (zip payloads sources) = Inr images"
    and work: "work = \<lparr>iw_manifest_key = manifest_key, iw_publication_id = publication_id, iw_page_url = page_url,
          iw_payload_keys = payload_keys, iw_images = images, iw_serialized_keys = json_dumps_texts payload_keys\<rparr>"
    using assms by (auto simp: image_load_work_def bind_Inr_iff)
  have k: "publication_id_ok publication_id" "key_url_ok page_url" "encode_key_url page_url = Some page"
    "manifest_key = manifest_key_text publication_id page"
    using key by (simp_all add: parse_manifest_key_iff)
  note e = manifest_entries_sound [OF entries k(3,1,2)]
  have "length payloads = length payload_keys"
    using payloads by (auto simp: load_payloads_def bind_Inr_iff mapE_length dest!: mapP_length split: if_splits)
  then have "length payloads = length sources" using list_all2_lengthD [OF e(4)] by simp
  note i = load_images_sound [OF images this]
  have "list_all2 (\<lambda>key img. \<exists>source. encode_key_url (im_source_url img) = Some source \<and>
      key = payload_key_text publication_id page source) payload_keys images"
    using e(4) unfolding i(1) [symmetric] list_all2_map2 by (rule list_all2_mono) auto
  moreover have "distinct sources"
  proof -
    have "map (\<lambda>s. payload_key_text publication_id page (the (encode_key_url s))) sources = payload_keys"
      using e(4) by (induction rule: list_all2_induct) auto
    then show ?thesis using e(2) by (metis distinct_map)
  qed
  moreover have "length images \<le> MAX_IMAGES_PER_PAGE"
    using e(1) list_all2_lengthD [OF e(4)] i(1) by (metis length_map)
  ultimately show "work_ok work" using k e i by (simp add: work_ok_def work)
  show "iw_manifest_key work = manifest_key" by (simp add: work)
qed

section \<open>What an acknowledgement does\<close>

lemma check_payloads_run:
  "check_payloads mem_redis publication page ps db = (r, db') \<Longrightarrow>
     db' = db \<and> (r = Inr () \<longrightarrow> list_all (\<lambda>(key, source, alt).
       map_of (hash_of (db key)) (py ''publication_id'') = Some publication \<and>
       map_of (hash_of (db key)) (py ''normalized_page_url'') = Some page \<and>
       map_of (hash_of (db key)) (py ''contract_version'') = Some (py ''1'') \<and>
       map_of (hash_of (db key)) (py ''normalized_source_url'') = Some source \<and>
       map_of (hash_of (db key)) (py ''alt'') = Some alt) ps)"
  by (induction ps) (auto simp: check_run bind_eq c_hget_def split: if_splits)

text \<open>An acknowledgement that answers 1 removed the claim, the manifest and the payloads, and nothing else.\<close>

lemma ack_script_effect:
  assumes "ack_script mem_redis (owner_text token n) (show_nat n) a db = (Inr 1, db')"
  shows "owns image_keys token n db" and "aa_manifest a \<in> set (claimed image_keys db)"
    and "claimed image_keys db' = remove1 (aa_manifest a) (claimed image_keys db)"
    and "\<And>k. k \<in> set (aa_manifest a # aa_payloads a) \<Longrightarrow> db' k = None"
    and "\<And>k. k \<notin> set (aa_manifest a # aa_payloads a) \<Longrightarrow> k \<noteq> qk_processing image_keys \<Longrightarrow> db' k = db k"
    and "\<And>k. k \<in> set (aa_manifest a # aa_payloads a) \<Longrightarrow> \<exists>h. db k = Some (RHash h)"
    and "qk_processing image_keys \<notin> set (aa_manifest a # aa_payloads a)"
proof -
  have types: "type_of (db (qk_processing image_keys)) = ''list''" "type_of (db (aa_manifest a)) = ''hash''"
    "list_all (\<lambda>k. type_of (db k) = ''hash'') (aa_payloads a)"
    and own: "owns image_keys token n db" and mem: "aa_manifest a \<in> set (claimed image_keys db)"
    and eq: "db' = c_del mem_redis (aa_manifest a # aa_payloads a)
        (c_lrem mem_redis (qk_processing image_keys) (aa_manifest a) db)"
    using assms
    by (auto simp: ack_script_def require_owner_def check_run bind_eq owns_def claimed_def c_lpos_def
        split: if_splits prod.splits sum.splits dest!: check_payloads_run)
  show "owns image_keys token n db" "aa_manifest a \<in> set (claimed image_keys db)" by (rule own mem)+
  show h: "\<exists>h. db k = Some (RHash h)" if "k \<in> set (aa_manifest a # aa_payloads a)" for k
    using that types by (auto simp: list_all_iff type_of_iffs)
  show p: "qk_processing image_keys \<notin> set (aa_manifest a # aa_payloads a)"
    using h types(1) by (fastforce simp: type_of_iffs)
  show "db' k = None" if "k \<in> set (aa_manifest a # aa_payloads a)" for k
    using that by (simp add: eq del: list.set)
  show "db' k = db k" if "k \<notin> set (aa_manifest a # aa_payloads a)" "k \<noteq> qk_processing image_keys" for k
    using that by (simp add: eq del: list.set)
  show "claimed image_keys db' = remove1 (aa_manifest a) (claimed image_keys db)"
    using p by (simp add: eq claimed_def del: list.set)
qed

lemma ack_script_refused:
  "ack_script mem_redis owner epoch a db = (r, db') \<Longrightarrow> r \<noteq> Inr 1 \<Longrightarrow> db' = db"
  by (auto simp: ack_script_def require_owner_def check_run bind_eq
      split: if_splits prod.splits sum.splits dest!: check_payloads_run)

section \<open>Operations as protocol steps\<close>

text \<open>The keys of a publication are none of the queue's.\<close>

lemma encode_prefix: "is_ascii p \<Longrightarrow> utf8_encode (p @ s) = Some b \<Longrightarrow> \<exists>c. b = p @ c"
  using utf8_encode_ascii [of p] by (auto simp: utf8_encode_append split: option.splits)

lemma manifest_key_foreign:
  assumes "utf8_encode (manifest_key_text publication_id page) = Some k"
  shows "k \<notin> queue_key_set image_keys"
proof -
  have "is_ascii PAGE_IMAGES_PREFIX" by (simp add: image_constants py_def is_ascii_def)
  then obtain c where "k = PAGE_IMAGES_PREFIX @ c"
    using encode_prefix assms unfolding manifest_key_text_def by blast
  then show ?thesis by (simp add: queue_key_set_def image_keys_def image_constants py_def)
qed

lemma payload_key_foreign:
  assumes "utf8_encode (payload_key_text publication_id page source) = Some k"
  shows "k \<notin> queue_key_set image_keys"
proof -
  have "is_ascii IMAGE_PREFIX" by (simp add: image_constants py_def is_ascii_def)
  then obtain c where "k = IMAGE_PREFIX @ c"
    using encode_prefix assms unfolding payload_key_text_def by blast
  then show ?thesis by (simp add: queue_key_set_def image_keys_def image_constants py_def)
qed

lemma encode_arg_iff: "encode_arg s = Inr b \<longleftrightarrow> utf8_encode s = Some b"
  by (simp add: encode_arg_def split: option.splits)

lemma work_keys_foreign:
  assumes "work_ok work" and "ack_arguments work = Inr a"
  shows "set (aa_manifest a # aa_payloads a) \<inter> queue_key_set image_keys = {}"
proof -
  obtain page where m: "iw_manifest_key work = manifest_key_text (iw_publication_id work) page"
    and p: "list_all2 (\<lambda>key img. \<exists>source. encode_key_url (im_source_url img) = Some source \<and>
            key = payload_key_text (iw_publication_id work) page source)
          (iw_payload_keys work) (iw_images work)"
    using assms(1) by (auto simp: work_ok_def)
  have "utf8_encode (iw_manifest_key work) = Some (aa_manifest a)"
    and payloads: "list_all2 (\<lambda>key b. utf8_encode key = Some b) (iw_payload_keys work) (aa_payloads a)"
    using assms(2) by (auto simp: ack_arguments_def sum_iffs encode_arg_iff mapE_Inr_iff)
  then have "aa_manifest a \<notin> queue_key_set image_keys" using manifest_key_foreign m by metis
  moreover have "k \<notin> queue_key_set image_keys" if member: "k \<in> set (aa_payloads a)" for k
  proof -
    obtain i where i: "i < length (iw_payload_keys work)" "utf8_encode (iw_payload_keys work ! i) = Some k"
      using payloads member unfolding in_set_conv_nth list_all2_conv_all_nth by metis
    obtain source where "iw_payload_keys work ! i = payload_key_text (iw_publication_id work) page source"
      using list_all2_nthD [OF p i(1)] by auto
    with i(2) show ?thesis using payload_key_foreign by metis
  qed
  ultimately show ?thesis by auto
qed

lemma simulates_check_payloads:
  "redis_documented C V \<Longrightarrow> simulates V (check_payloads C publication page ps) (check_payloads mem_redis publication page ps)"
proof (induction ps)
  case (Cons p ps)
  then show ?case
    by (cases p) (auto intro!: sim_intros simp: documented_reads [OF Cons.prems])
qed (simp add: sim_intros)

lemma simulates_ack:
  assumes "redis_documented C V"
  shows "simulates V (ack_script C owner epoch a) (ack_script mem_redis owner epoch a)"
  unfolding ack_script_def
  by (intro sim_intros simulates_require_owner [OF assms] simulates_check_payloads [OF assms];
      simp add: documented_cmds [OF assms] documented_reads [OF assms] owner_documented [OF assms])

text \<open>An acknowledgement of foreign keys is a step of the protocol.\<close>

lemma ack_script_step:
  assumes "set (aa_manifest a # aa_payloads a) \<inter> queue_key_set image_keys = {}"
  shows "qsteps m image_keys db (snd (ack_script mem_redis (owner_text token n) (show_nat n) a db))"
proof -
  obtain r db' where run: "ack_script mem_redis (owner_text token n) (show_nat n) a db = (r, db')" by fastforce
  show ?thesis
  proof (cases "r = Inr 1")
    case True
    note e = ack_script_effect [OF run [unfolded True]]
    have "list_of (db' (qk_processing image_keys)) = remove1 (aa_manifest a) (claimed image_keys db)"
      using e(3) by (simp add: claimed_def)
    moreover have "db' (qk_processing image_keys) = list_value (list_of (db' (qk_processing image_keys)))"
    proof -
      have "db' = c_del mem_redis (aa_manifest a # aa_payloads a)
        (c_lrem mem_redis (qk_processing image_keys) (aa_manifest a) db)"
        using run True
        by (auto simp: ack_script_def require_owner_def check_run bind_eq
            split: if_splits prod.splits sum.splits dest!: check_payloads_run)
      then show ?thesis using e(7) by (simp del: list.set)
    qed
    ultimately have "qstep m image_keys db db'"
      using e assms by (intro qstep.finish [of _ token n _ "aa_manifest a"]) (auto simp del: list.set)
    then show ?thesis using run by simp
  next
    case False
    then show ?thesis using ack_script_refused [OF run] run by simp
  qed
qed

lemma keeps_ack_script:
  assumes "redis_documented C V" and "set (aa_manifest a # aa_payloads a) \<inter> queue_key_set image_keys = {}"
    and "utf8_encode (token @ [58] @ show_nat n) = Some owner"
  shows "keeps (by_steps V m image_keys) (ack_script C owner (show_nat n) a)"
proof -
  obtain t where "owner = owner_text t n" by (rule owner_encoding [OF assms(3)])
  then have "qsteps m image_keys (V w) (V (snd (ack_script C owner (show_nat n) a w)))" for w
    using ack_script_step [OF assms(2), of m "V w" t n] simulates_ack [OF assms(1), of owner "show_nat n" a]
    by (simp add: simulates_def)
  then show ?thesis unfolding keeps_def by_steps_def by (metis snd_conv)
qed

lemma keeps_image_ack:
  assumes "redis_documented (rc_cmds env) V" and "steps_only V m image_keys env" and "work_ok work"
  shows "keeps (by_steps V m image_keys) (image_ack env cl work)"
proof (cases "ack_arguments work")
  case (Inl e)
  then show ?thesis by (simp add: image_ack_def require_client_def steps.keeps_rules bind_eq keeps_def by_steps_def)
next
  case (Inr a)
  have "keeps (by_steps V m image_keys)
    (bind (call_as_owner env cl (\<lambda>owner epoch. ack_script (rc_cmds env) owner epoch a)) (\<lambda>n. ret (n = 1)))"
    by (intro steps.keeps_bind steps.keeps_pure keeps_call_as_owner [OF assms(2)]
        keeps_ack_script [OF assms(1) work_keys_foreign [OF assms(3) Inr]])
  then show ?thesis
    unfolding image_ack_def require_client_def Inr by (auto simp: keeps_def bind_eq by_steps_def)
qed

text \<open>Reads change nothing, and the client's other operations are those of the queue.\<close>

lemma keeps_read:
  assumes "steps_only V m q env" and "\<And>w. snd (script w) = w"
  shows "keeps (by_steps V m q) (call_server env script)"
  by (intro keeps_call_server [OF assms(1)]) (use assms(2) in \<open>auto simp: keeps_def by_steps_def\<close>, metis rtranclp.rtrancl_refl snd_conv)

lemma hgetall_pure: "snd (hgetall_cmd C k w) = w"
  by (simp add: hgetall_cmd_def check_run bind_eq)

lemma manifest_preflight_pure: "snd (manifest_preflight_script C k n w) = w"
  by (simp add: manifest_preflight_script_def check_run bind_eq)

lemma payload_preflight_pure: "snd (payload_preflight_script C ks n m w) = w"
proof -
  have "snd (payloads_preflight C ks n m w) = w"
    by (induction ks) (simp_all add: check_run bind_eq)
  then show ?thesis by (simp add: payload_preflight_script_def check_run bind_eq)
qed

lemma keeps_on_response_error:
  "keeps (by_steps V m q) p \<Longrightarrow> keeps (by_steps V m q) (on_response_error p e)"
  unfolding on_response_error_def
  by (rule steps.keeps_catch) (auto split: exn.splits intro: steps.keeps_rules)

lemma keeps_image_load:
  assumes "steps_only V m q env"
  shows "keeps (by_steps V m q) (image_load_work env u cl key)"
proof -
  have h: "keeps (by_steps V m q) (hgetall_text env k)" for k
    unfolding hgetall_text_def
    by (intro steps.keeps_rules keeps_read [OF assms] hgetall_pure)
  have "keeps (by_steps V m q) (load_payloads env ks)" for ks
    unfolding load_payloads_def
    by (intro steps.keeps_rules keeps_on_response_error keeps_read [OF assms] payload_preflight_pure
        steps.keeps_mapP h)
  then show ?thesis
    unfolding image_load_work_def require_client_def
    by (intro steps.keeps_rules keeps_on_response_error keeps_read [OF assms] manifest_preflight_pure h)
qed

lemmas image_client_defs =
  image_acquire_lock_def image_renew_lock_def image_release_lock_def image_claim_def image_recover_def
  image_release_claim_def image_quarantine_def image_work_sizes_def

lemma keeps_image_client:
  assumes "redis_documented (rc_cmds env) V" and "steps_only V image_messages image_keys env"
  shows "keeps (by_steps V image_messages image_keys) (image_acquire_lock env cl)"
    and "keeps (by_steps V image_messages image_keys) (image_renew_lock env cl)"
    and "keeps (by_steps V image_messages image_keys) (image_release_lock env cl)"
    and "keeps (by_steps V image_messages image_keys) (image_claim env cl)"
    and "keeps (by_steps V image_messages image_keys) (image_recover env cl limit)"
    and "keeps (by_steps V image_messages image_keys) (image_release_claim env cl claim)"
    and "keeps (by_steps V image_messages image_keys) (image_quarantine env cl claim)"
    and "keeps (by_steps V image_messages image_keys) (image_work_sizes env cl)"
  unfolding image_client_defs by (intro client_steps [OF assms])+

lemmas image_redis_eval [eval_simps] =
  image_keys_def image_messages_def manifest_fields_def canonical_count_def check_payload_key_def
  manifest_entries_def is_type_error_def load_image_def load_payloads_def hgetall_text_def
  on_response_error_def image_load_work_def ack_arguments_def image_ack_def manifest_preflight_script_def
  payload_preflight_script_def ack_script_def image_client_defs

end
