(* ===== verification/Image_Main.thy ===== *)
theory Image_Main
  imports Image_Redis Image_Mongo Indexer_Service
begin

text \<open>
  \<open>main.py\<close> of the image indexer: one claim from its parsing to its acknowledgement, and the service
  loop. \<open>connected\<close> is whether the MongoDB client was initialised. The log lines and the claim
  references they print are not modelled.

  The lemmas: everything the service does to Redis is steps of its queue's protocol, and recovery ends.
\<close>

definition IMAGE_LOCK_RENEW_SECONDS :: nat where "IMAGE_LOCK_RENEW_SECONDS = 10"

definition image_renew_owner :: "('w, 'z) indexer_env_scheme \<Rightarrow> redis_client \<Rightarrow> ('w, bool) prog" where
  "image_renew_owner env cl = false_on_error (image_renew_lock env cl)"

definition image_acquire_owner ::
    "('w, 'z) indexer_env_scheme \<Rightarrow> nat \<Rightarrow> redis_client \<Rightarrow> ('w, (bool \<times> redis_client) option) prog" where
  "image_acquire_owner env fuel cl = acquire_loop env (image_acquire_lock env) fuel cl"

definition image_recover_claims :: "('w, 'z) indexer_env_scheme \<Rightarrow> nat \<Rightarrow> redis_client \<Rightarrow> ('w, bool option) prog" where
  "image_recover_claims env fuel cl =
     recover_batches env (image_renew_owner env cl) (image_recover env cl IMAGE_RECOVERY_BATCH_SIZE)
       IMAGE_RECOVERY_BATCH_SIZE fuel"

text \<open>\<open>owner_check\<close>\<close>

definition image_owner_check ::
    "('w, 'z) indexer_env_scheme \<Rightarrow> redis_client \<Rightarrow> bool \<Rightarrow> pystr \<Rightarrow> pystr \<Rightarrow> ('w, bool) prog" where
  "image_owner_check env cl connected page_url token =
     andalso (is_running env) (andalso (image_renew_owner env cl) (owns_canonical env connected page_url token))"

definition quarantine_malformed :: "('w, 'z) indexer_env_scheme \<Rightarrow> redis_client \<Rightarrow> pystr \<Rightarrow> ('w, claim_outcome) prog" where
  "quarantine_malformed env cl manifest_key =
     transient_on_error (outcome_of Quarantined (image_quarantine env cl manifest_key))"

definition quarantine_owned ::
    "('w, 'z) indexer_env_scheme \<Rightarrow> redis_client \<Rightarrow> ('w, bool) prog \<Rightarrow> pystr \<Rightarrow> ('w, claim_outcome) prog" where
  "quarantine_owned env cl owner_check manifest_key =
     transient_on_error (outcome_of Quarantined (andalso owner_check (image_quarantine env cl manifest_key)))"

text \<open>From the loaded publication to its acknowledgement.\<close>

definition reconcile_work ::
    "('w, 'z) indexer_env_scheme \<Rightarrow> redis_client \<Rightarrow> bool \<Rightarrow> nat \<Rightarrow> pystr \<Rightarrow> ('w, bool) prog \<Rightarrow> image_work \<Rightarrow>
       ('w, bool) prog" where
  "reconcile_work env cl connected epoch token owner_check work =
     bind (get_keywords env (sv_lower env) connected (iw_page_url work)) (\<lambda>keywords.
     replace_page_images env (sv_lower env) connected (iw_page_url work) (iw_publication_id work)
       (iw_images work) keywords epoch token owner_check)"

definition finish_work ::
    "('w, 'z) indexer_env_scheme \<Rightarrow> redis_client \<Rightarrow> bool \<Rightarrow> nat \<Rightarrow> pystr \<Rightarrow> ('w, bool) prog \<Rightarrow> image_work \<Rightarrow>
       ('w, claim_outcome) prog" where
  "finish_work env cl connected epoch token owner_check work =
     bind (attempt (reconcile_work env cl connected epoch token owner_check work)) (\<lambda>reconciled.
     case reconciled of
       Inl e \<Rightarrow> ret TransientFailure
     | Inr ok \<Rightarrow>
         bind (if ok then owner_check else ret False) (\<lambda>current.
         if \<not> current then ret TransientFailure
         else transient_on_error (outcome_of Completed (image_ack env cl work))))"

definition process_owned ::
    "('w, 'z) indexer_env_scheme \<Rightarrow> redis_client \<Rightarrow> bool \<Rightarrow> nat \<Rightarrow> pystr \<Rightarrow> ('w, bool) prog \<Rightarrow> pystr \<Rightarrow>
       ('w, claim_outcome) prog" where
  "process_owned env cl connected epoch token owner_check manifest_key =
     bind (attempt (image_load_work env (sv_ucd env) cl manifest_key)) (\<lambda>loaded.
     case loaded of
       Inl (InvalidImageWork _) \<Rightarrow> quarantine_owned env cl owner_check manifest_key
     | Inl e \<Rightarrow> ret TransientFailure
     | Inr work \<Rightarrow> finish_work env cl connected epoch token owner_check work)"

text \<open>
  A client without an epoch fails its renewal, so the second \<open>case\<close> has an epoch whenever it is
  reached.
\<close>

definition image_process_claim ::
    "('w, 'z) indexer_env_scheme \<Rightarrow> redis_client \<Rightarrow> bool \<Rightarrow> pystr \<Rightarrow> ('w, claim_outcome) prog" where
  "image_process_claim env cl connected manifest_key =
     (case parse_manifest_key manifest_key of
        Inl (InvalidImageWork _) \<Rightarrow> quarantine_malformed env cl manifest_key
      | Inl e \<Rightarrow> ret TransientFailure
      | Inr (publication_id, page_url, encoded) \<Rightarrow>
          bind (image_renew_owner env cl) (\<lambda>renewed.
          if \<not> renewed then ret TransientFailure
          else bind (lift (image_lock_token (rc_owner_token cl) publication_id)) (\<lambda>token.
            case rc_owner_epoch cl of
              None \<Rightarrow> ret TransientFailure
            | Some epoch \<Rightarrow>
                bind (false_on_error (image_acquire_canonical env connected page_url token publication_id epoch)) (\<lambda>acquired.
                if \<not> acquired then ret TransientFailure
                else finally_do
                  (process_owned env cl connected epoch token
                     (image_owner_check env cl connected page_url token) manifest_key)
                  (bind (false_on_error (release_canonical env connected page_url token)) (\<lambda>_. ret ()))))))"

section \<open>The service loop\<close>

text \<open>One turn with a claim: \<open>None\<close> goes on, \<open>Some code\<close> leaves the loop.\<close>

definition image_take_claim ::
    "('w, 'z) indexer_env_scheme \<Rightarrow> redis_client \<Rightarrow> bool \<Rightarrow> pystr \<Rightarrow> ('w, nat option) prog" where
  "image_take_claim env cl connected claim =
     bind (is_running env) (\<lambda>running.
     if \<not> running then ret (Some 0)
     else bind (image_process_claim env cl connected claim) (\<lambda>outcome.
       if outcome = TransientFailure
       then bind (attempt (image_release_claim env cl claim)) (\<lambda>_. ret (Some 1))
       else ret None))"

primrec image_loop ::
    "('w, 'z) indexer_env_scheme \<Rightarrow> redis_client \<Rightarrow> bool \<Rightarrow> nat \<Rightarrow> int \<Rightarrow> ('w, nat option) prog" where
  "image_loop env cl connected 0 last_renewal = ret None"
| "image_loop env cl connected (Suc fuel) last_renewal =
     bind (is_running env) (\<lambda>running.
     if \<not> running then ret (Some 0)
     else bind (renew_if_due env IMAGE_LOCK_RENEW_SECONDS (image_renew_owner env cl) last_renewal) (\<lambda>renewal.
       case renewal of
         None \<Rightarrow> ret (Some 1)
       | Some last_renewal' \<Rightarrow>
           bind (attempt (image_claim env cl)) (\<lambda>claimed.
           case claimed of
             Inl e \<Rightarrow> ret (Some 1)
           | Inr None \<Rightarrow>
               bind (mod_state (sv_sleep env)) (\<lambda>_. image_loop env cl connected fuel last_renewal')
           | Inr (Some claim) \<Rightarrow>
               bind (image_take_claim env cl connected claim) (\<lambda>left.
               case left of None \<Rightarrow> image_loop env cl connected fuel last_renewal' | Some code \<Rightarrow> ret (Some code)))))"

definition image_serve ::
    "('w, 'z) indexer_env_scheme \<Rightarrow> redis_client \<Rightarrow> bool \<Rightarrow> nat \<Rightarrow> ('w, nat option) prog" where
  "image_serve env cl connected fuel =
     bind (image_recover_claims env fuel cl) (\<lambda>recovered.
     case recovered of
       None \<Rightarrow> ret None
     | Some ok \<Rightarrow>
         if \<not> ok then stopped_code env
         else bind (monotonic env) (\<lambda>now. image_loop env cl connected fuel now))"

definition image_run_indexer ::
    "('w, 'z) indexer_env_scheme \<Rightarrow> redis_client \<Rightarrow> bool \<Rightarrow> nat \<Rightarrow> ('w, nat option) prog" where
  "image_run_indexer env cl connected fuel =
     bind (image_acquire_owner env fuel cl) (\<lambda>acquired.
     case acquired of
       None \<Rightarrow> ret None
     | Some (granted, cl') \<Rightarrow>
         if \<not> granted then stopped_code env
         else release_at_exit (image_release_lock env cl') (image_serve env cl' connected fuel))"

section \<open>Protocol conformance\<close>

text \<open>
  \<open>mongo_apart V C\<close>: MongoDB operations do not change the Redis keyspace. Then the image indexer
  takes nothing but protocol steps of its queue.
\<close>

definition mongo_apart :: "('w \<Rightarrow> rdb) \<Rightarrow> ('w, 'z) mongo_cmds_scheme \<Rightarrow> bool" where
  "mongo_apart V C \<longleftrightarrow>
     (\<forall>c d w. V (snd (mc_insert_one C c d w)) = V w) \<and> (\<forall>c f w. V (snd (mc_delete_one C c f w)) = V w) \<and>
     (\<forall>c f w. V (snd (mc_delete_many C c f w)) = V w) \<and> (\<forall>c f d u w. V (snd (mc_replace_one C c f d u w)) = V w) \<and>
     (\<forall>c ops b w. V (snd (mc_bulk_write C c ops b w)) = V w)"

lemma keeps_still: "(\<And>w. V (snd (m w)) = V w) \<Longrightarrow> keeps (by_steps V msg q) m"
  unfolding keeps_def by_steps_def by (metis rtranclp.rtrancl_refl snd_conv)

lemma keeps_mongo:
  assumes "net_within (by_steps V msg q) env" and "mongo_apart V (mg_cmds env)"
  shows "keeps (by_steps V msg q) (insert_one env c d)" and "keeps (by_steps V msg q) (delete_one env c f)"
    and "keeps (by_steps V msg q) (delete_many env c f)" and "keeps (by_steps V msg q) (replace_one env c f e u)"
    and "keeps (by_steps V msg q) (bulk_write env c ops b)" and "keeps (by_steps V msg q) (find_one env c f names)"
    and "keeps (by_steps V msg q) (distinct_values env c k f)"
  using assms(2) unfolding insert_one_def delete_one_def delete_many_def replace_one_def bulk_write_def
  by (intro steps.keeps_rules steps.keeps_call_mongo [OF assms(1)] steps.keeps_reads [OF assms(1)] keeps_still;
      simp add: mongo_apart_def)+

context world_relation
begin

lemma keeps_canonical:
  assumes "net_within rel env" and "\<And>c d. keeps rel (insert_one env c d)" and "\<And>c f. keeps rel (delete_one env c f)"
  shows "keeps rel (image_acquire_canonical env connected url token publication epoch)"
    and "keeps rel (release_canonical env connected url token)"
    and "keeps rel (owns_canonical env connected url token)"
    and "keeps rel (page_epoch_is_current env url epoch)"
  unfolding image_acquire_canonical_def release_canonical_def owns_canonical_def page_epoch_is_current_def
  by (intro keeps_rules keeps_environment keeps_reads assms)+

lemma keeps_guarded: "keeps rel m \<Longrightarrow> keeps rel k \<Longrightarrow> keeps rel (guarded m k)"
  unfolding guarded_def by (intro keeps_rules)

lemma keeps_acked: "keeps rel m \<Longrightarrow> keeps rel (acked m)"
  unfolding acked_def by (intro keeps_rules)

lemma keeps_with_filter:
  "(\<And>f. fenced_filter identity epoch = Inr f \<Longrightarrow> keeps rel (k f)) \<Longrightarrow> keeps rel (with_filter identity epoch k)"
  unfolding with_filter_def keeps_def
  by (cases "fenced_filter identity epoch") (auto simp: bind_eq rel_refl)

lemma keeps_write_batches:
  assumes "keeps rel current" and "\<And>b. b \<in> set bs \<Longrightarrow> keeps rel (bulk_write env coll b True)"
  shows "keeps rel (write_batches env coll current bs)"
  using assms(2) by (induction bs) (auto intro!: keeps_rules assms(1))

lemma keeps_publication_is_current:
  assumes "net_within rel env" and "keeps rel owner_check"
  shows "keeps rel (publication_is_current env connected url token epoch owner_check b)"
  unfolding publication_is_current_def owns_canonical_def page_epoch_is_current_def
  by (intro keeps_rules keeps_reads assms)

end

lemma keeps_replace_page_images:
  assumes net: "net_within (by_steps V msg q) env" and apart: "mongo_apart V (mg_cmds env)"
    and owner: "keeps (by_steps V msg q) owner_check"
  shows "keeps (by_steps V msg q)
    (replace_page_images env t connected page_url publication_id images keywords epoch token owner_check)"
  unfolding replace_page_images_def reconcile_body_def bulk_write_current_def
  by (intro steps.keeps_rules steps.keeps_guarded steps.keeps_acked steps.keeps_with_filter
      steps.keeps_write_batches steps.keeps_publication_is_current [OF net owner] keeps_mongo [OF net apart]
      steps.keeps_canonical [OF net])

lemma image_conformance:
  assumes doc: "redis_documented (rc_cmds env) V" and net: "net_within (by_steps V image_messages image_keys) env"
    and apart: "mongo_apart V (mg_cmds env)"
  shows "keeps (by_steps V image_messages image_keys) (image_process_claim env cl connected key)"
    and "keeps (by_steps V image_messages image_keys) (image_run_indexer env cl connected fuel)"
proof -
  have rc: "steps_only V image_messages image_keys env"
    using net by (auto simp: net_within_def steps_only_def by_steps_def)
  note client = keeps_image_client [OF doc rc]
  note mongo = keeps_mongo [OF net apart]
  note canonical = steps.keeps_canonical [OF net mongo(1,2)]
  note rules = steps.keeps_rules steps.keeps_derived steps.keeps_case_sum steps.keeps_environment [OF net] client mongo canonical
  have renew: "keeps (by_steps V image_messages image_keys) (image_renew_owner env cl)" for cl
    unfolding image_renew_owner_def by (intro rules)
  have check: "keeps (by_steps V image_messages image_keys) (image_owner_check env cl connected url token)" for cl url token
    unfolding image_owner_check_def by (intro rules renew)
  have finish: "keeps (by_steps V image_messages image_keys)
      (finish_work env cl connected epoch token (image_owner_check env cl connected url token) work)"
    if "work_ok work" for cl epoch token url work
    unfolding finish_work_def reconcile_work_def get_keywords_def
    by (intro rules check keeps_replace_page_images [OF net apart] keeps_image_ack [OF doc rc that])
      (auto split: option.splits bson.splits intro!: rules)
  have quarantine: "keeps (by_steps V image_messages image_keys)
      (quarantine_owned env cl (image_owner_check env cl connected url token) key)" for cl url token key
    unfolding quarantine_owned_def by (intro rules check)
  have owned: "keeps (by_steps V image_messages image_keys)
      (process_owned env cl connected epoch token (image_owner_check env cl connected url token) key)" for cl epoch token url key
  proof -
    have l: "keeps (by_steps V image_messages image_keys) (image_load_work env (sv_ucd env) cl key)"
      by (rule keeps_image_load [OF rc])
    show ?thesis
      unfolding process_owned_def keeps_def
    proof (intro allI impI)
      fix w r w'
      assume run: "bind (attempt (image_load_work env (sv_ucd env) cl key)) (\<lambda>loaded. case loaded of
          Inl (InvalidImageWork _) \<Rightarrow> quarantine_owned env cl (image_owner_check env cl connected url token) key
        | Inl e \<Rightarrow> ret TransientFailure
        | Inr work \<Rightarrow> finish_work env cl connected epoch token (image_owner_check env cl connected url token) work) w = (r, w')"
      obtain x v where x: "image_load_work env (sv_ucd env) cl key w = (x, v)" by fastforce
      have wv: "by_steps V image_messages image_keys w v" by (rule keepsD [OF l x])
      have "by_steps V image_messages image_keys v w'"
      proof (cases x)
        case (Inl e)
        then show ?thesis using run x keepsD [OF quarantine]
          by (cases e) (auto simp: bind_eq attempt_eq steps.rel_refl)
      next
        case (Inr work)
        then show ?thesis using run x keepsD [OF finish [OF image_load_work_sound(1)]]
          by (auto simp: bind_eq attempt_eq)
      qed
      then show "by_steps V image_messages image_keys w w'" by (rule steps.rel_trans [OF wv])
    qed
  qed
  have malformed: "keeps (by_steps V image_messages image_keys) (quarantine_malformed env cl key)" for cl key
    unfolding quarantine_malformed_def by (intro rules)
  show process: "keeps (by_steps V image_messages image_keys) (image_process_claim env cl connected key)" for cl key
  proof (cases "parse_manifest_key key")
    case (Inl e)
    then show ?thesis using malformed by (cases e) (auto simp: image_process_claim_def steps.keeps_pure)
  next
    case (Inr p)
    then show ?thesis unfolding image_process_claim_def
      by (cases p) (auto intro!: rules renew owned steps.keeps_finally)
  qed
  have take: "keeps (by_steps V image_messages image_keys) (image_take_claim env cl connected claim)" for cl claim
    unfolding image_take_claim_def by (intro rules process)
  have loop: "keeps (by_steps V image_messages image_keys) (image_loop env cl connected fuel t)" for cl fuel t
    by (induction fuel arbitrary: t)
      (auto intro!: rules steps.keeps_renew_if_due [OF net] renew take split: option.splits)
  have serve: "keeps (by_steps V image_messages image_keys) (image_serve env cl connected fuel)" for cl fuel
    unfolding image_serve_def image_recover_claims_def
    by (intro rules loop steps.keeps_recover_batches [OF net] renew steps.keeps_stopped_code [OF net])
  show "keeps (by_steps V image_messages image_keys) (image_run_indexer env cl connected fuel)"
    unfolding image_run_indexer_def image_acquire_owner_def
    by (intro rules steps.keeps_acquire_loop [OF net] steps.keeps_stopped_code [OF net] steps.keeps_release_at_exit serve)
qed

end
