(* ===== verification/Image_Reconcile.thy ===== *)
theory Image_Reconcile
  imports Image_Main
begin

text \<open>
  What \<open>replace_page_images\<close> achieves. \<open>newer n\<close> documents, those with an epoch above \<open>n\<close>, survive it
  whatever happens; and when it returns \<open>True\<close> with nobody else writing, the images, the image words
  and the state of the page are those of the publication.
\<close>

definition newer :: "nat \<Rightarrow> doc \<Rightarrow> bool" where
  "newer n d \<longleftrightarrow> map_of d (py ''fence_epoch'') \<noteq> None \<and> \<not> value_lte (map_of d (py ''fence_epoch'')) (int n)"

definition page_collections :: "string set" where
  "page_collections = {IMAGE_COLLECTION, WORD_IMAGES_COLLECTION, IMAGE_PAGE_STATE_COLLECTION}"

section \<open>Fencing\<close>

lemma fenced_filter_spares: "fenced_filter identity n = Inr f \<Longrightarrow> newer n d \<Longrightarrow> \<not> doc_matches f d"
  by (auto simp: fenced_filter_def newer_def split: if_splits)

lemma image_operation_spares: "image_operation p n img = Inr op \<Longrightarrow> newer n d \<Longrightarrow> \<not> doc_matches (up_filter op) d"
  by (auto simp: image_operation_def sum_iffs dest: fenced_filter_spares)

lemma word_operation_spares: "word_operation url p n row = Inr op \<Longrightarrow> newer n d \<Longrightarrow> \<not> doc_matches (up_filter op) d"
  by (auto simp: word_operation_def sum_iffs split: prod.splits dest: fenced_filter_spares)

lemma mapE_image_operations_spare:
  "mapE f xs = Inr ops \<Longrightarrow> (\<And>x op. f x = Inr op \<Longrightarrow> P op) \<Longrightarrow> op \<in> set ops \<Longrightarrow> P op"
  by (auto simp: mapE_Inr_iff list_all2_conv_all_nth in_set_conv_nth)

lemma batches_concat [simp]: "concat (batches xs) = xs"
  by (simp add: batches_def)

lemma batches_members: "b \<in> set (batches xs) \<Longrightarrow> set b \<subseteq> set xs"
  by (metis batches_concat UN_upper set_concat)

lemma batches_bound: "b \<in> set (batches xs) \<Longrightarrow> b \<noteq> [] \<and> length b \<le> MONGO_BATCH_SIZE"
proof -
  have "b \<in> set (chunks n ys) \<Longrightarrow> b \<noteq> [] \<and> length b \<le> Suc n" for n and ys :: "'a list"
    by (induction n ys rule: chunks.induct) auto
  then show "b \<in> set (batches xs) \<Longrightarrow> b \<noteq> [] \<and> length b \<le> MONGO_BATCH_SIZE"
    by (force simp: batches_def MONGO_BATCH_SIZE_def)
qed

lemma keeps_bind_lift:
  "world_relation rel \<Longrightarrow> (\<And>x. r = Inr x \<Longrightarrow> keeps rel (k x)) \<Longrightarrow> keeps rel (bind (lift r) k)"
  by (cases r) (auto simp: keeps_def bind_eq world_relation.rel_refl)

lemma reconcile_body_spares:
  assumes doc: "service_mongo_documented (mg_cmds env) M idx" and net: "net_within (spares M page_collections (newer n)) env"
    and current: "\<And>b. keeps (spares M page_collections (newer n)) (current b)"
  shows "keeps (spares M page_collections (newer n)) (reconcile_body env t current url p images keywords n)"
proof -
  let ?R = "spares M page_collections (newer n)"
  have writes: "keeps ?R (write_batches env coll (current True) (batches ops))"
    if "\<forall>op \<in> set ops. \<forall>d. newer n d \<longrightarrow> \<not> doc_matches (up_filter op) d" for coll ops
    by (intro spared.keeps_write_batches current keeps_spared(5) [OF doc net]) (use that batches_members in blast)
  have deletes: "keeps ?R (acked (with_filter identity n (delete_many env coll)))" for identity coll
    by (intro spared.keeps_acked spared.keeps_with_filter keeps_spared(3) [OF doc net]) (blast dest: fenced_filter_spares)
  have replaces: "keeps ?R (acked (with_filter identity n (\<lambda>f. replace_one env coll f d True)))" for identity coll d
    by (intro spared.keeps_acked spared.keeps_with_filter keeps_spared(4) [OF doc net]) (blast dest: fenced_filter_spares)
  have epoch: "keeps ?R (page_epoch_is_current env url n)"
    unfolding page_epoch_is_current_def by (intro spared.keeps_rules spared.keeps_reads [OF net])
  have images: "\<forall>op \<in> set ops. \<forall>d. newer n d \<longrightarrow> \<not> doc_matches (up_filter op) d"
    if "mapE (image_operation p n) images = Inr ops" for ops
    using mapE_image_operations_spare [OF that, of "\<lambda>op. \<forall>d. newer n d \<longrightarrow> \<not> doc_matches (up_filter op) d"]
      image_operation_spares by blast
  have words: "\<forall>op \<in> set ops. \<forall>d. newer n d \<longrightarrow> \<not> doc_matches (up_filter op) d"
    if "bindE (image_words t keywords images) (mapE (word_operation url p n)) = Inr ops" for ops
    using that mapE_image_operations_spare [of "word_operation url p n" _ ops "\<lambda>op. \<forall>d. newer n d \<longrightarrow> \<not> doc_matches (up_filter op) d"]
      word_operation_spares unfolding bindE_Inr_iff by blast
  show ?thesis
    unfolding reconcile_body_def bulk_write_current_def
    by (intro spared.keeps_guarded spared.keeps_bind spared.keeps_reads [OF net]
        keeps_bind_lift [OF spared.world_relation_axioms] current writes deletes replaces epoch images words)
qed

lemma replace_page_images_spares:
  assumes "service_mongo_documented (mg_cmds env) M idx" and "net_within (spares M page_collections (newer n)) env"
    and "keeps (spares M page_collections (newer n)) owner_check"
  shows "keeps (spares M page_collections (newer n))
    (replace_page_images env t connected url p images keywords n token owner_check)"
  unfolding replace_page_images_def
  by (intro spared.keeps_rules reconcile_body_spares [OF assms(1,2)] spared.keeps_publication_is_current assms(2,3))

section \<open>Documents made by the operations\<close>

lemma fenced_filter_Inr:
  "fenced_filter identity n = Inr f \<longleftrightarrow> 1 \<le> n \<and>
     f = FAnd [identity, FOr [FExists (py ''fence_epoch'') False, FLte (py ''fence_epoch'') (int n)]]"
  by (auto simp: fenced_filter_def)

lemma image_operation_made:
  assumes "image_operation p n img = Inr op" and "made_by op d"
  shows "map_of d (py ''_id'') = Some (BStr (im_id img))"
    and "\<forall>(k, v) \<in> set (image_fields img p n). map_of d k = Some v"
proof -
  have op: "up_set op = image_fields img p n" "up_set_on_insert op = [(py ''_id'', BStr (im_id img))]"
    "doc_matches (up_filter op) e \<Longrightarrow> map_of e (py ''_id'') = Some (BStr (im_id img))" for e
    using assms(1) by (auto simp: image_operation_def fenced_filter_Inr field_matches_def sum_iffs)
  have dist: "distinct (map fst (image_fields img p n))" by (simp add: image_fields_def)
  have new: "map_of (image_fields img p n) (py ''_id'') = None" by (simp add: image_fields_def)
  show "map_of d (py ''_id'') = Some (BStr (im_id img))"
    using assms(2) op by (auto simp: made_by_def upsert_doc_def set_fields_distinct [OF dist] set_fields_distinct [of "[(k, v)]" for k v, simplified] new)
  have "map_of d k = Some v" if "(k, v) \<in> set (image_fields img p n)" for k v
    using assms(2) that map_of_is_SomeI [OF dist that]
    by (auto simp: made_by_def upsert_doc_def op(1) set_fields_distinct [OF dist])
  then show "\<forall>(k, v) \<in> set (image_fields img p n). map_of d k = Some v" by blast
qed

lemma word_operation_made:
  assumes "word_operation url p n (img, row) = Inr op" and "made_by op d"
  shows "\<forall>(k, v) \<in> set (word_fields url p n img row). map_of d k = Some v"
proof -
  have op: "up_set op = word_fields url p n img row"
    using assms(1) by (auto simp: word_operation_def sum_iffs split: prod.splits)
  have dist: "distinct (map fst (word_fields url p n img row))" by (simp add: word_fields_def)
  have "map_of d k = Some v" if "(k, v) \<in> set (word_fields url p n img row)" for k v
    using assms(2) map_of_is_SomeI [OF dist that]
    by (auto simp: made_by_def upsert_doc_def op set_fields_distinct [OF dist])
  then show ?thesis by blast
qed

lemma image_operation_match:
  "image_operation p n img = Inr op \<Longrightarrow> doc_matches (up_filter op) d \<Longrightarrow> map_of d (py ''_id'') = Some (BStr (im_id img))"
  by (auto simp: image_operation_def fenced_filter_Inr field_matches_def sum_iffs)

lemma word_operation_match:
  assumes "word_operation url p n (img, row) = Inr op" and "doc_matches (up_filter op) d"
    and "\<forall>(k, v) \<in> set (word_fields url' p' n' img' row'). map_of d k = Some v"
  shows "fst row' = fst row" and "im_id img' = im_id img"
  using assms
  by (auto simp: word_operation_def fenced_filter_Inr field_matches_def sum_iffs word_fields_def value_matches_def split: prod.splits if_splits)

lemma upserts:
  "image_operation p n img = Inr op \<Longrightarrow> up_upsert op" "word_operation url p n row = Inr op' \<Longrightarrow> up_upsert op'"
  by (auto simp: image_operation_def word_operation_def sum_iffs split: prod.splits)

text \<open>A bulk of image operations leaves a document for each image, and only such documents are new.\<close>

lemma image_bulk:
  assumes "mapE (image_operation p n) images = Inr ops" and "distinct (map im_id images)"
    and "coll_bulk idx True ops c = (True, c')"
  shows "img \<in> set images \<Longrightarrow> \<exists>d \<in> set c'. map_of d (py ''_id'') = Some (BStr (im_id img)) \<and>
           (\<forall>(k, v) \<in> set (image_fields img p n). map_of d k = Some v)"
    and "d \<in> set c' \<Longrightarrow> d \<in> set c \<or> (\<exists>img \<in> set images. map_of d (py ''_id'') = Some (BStr (im_id img)))"
proof -
  have all: "list_all2 (\<lambda>img op. image_operation p n img = Inr op) images ops"
    using assms(1) by (simp add: mapE_Inr_iff)
  have from_image: "\<exists>img \<in> set images. image_operation p n img = Inr op" if "op \<in> set ops" for op
    using all that by (fastforce simp: list_all2_conv_all_nth in_set_conv_nth)
  have sep: "sorted_wrt (\<lambda>op op'. \<forall>d. made_by op d \<longrightarrow> \<not> doc_matches (up_filter op') d) ops"
    unfolding sorted_wrt_iff_nth_less
  proof (intro allI impI)
    fix i j d assume ij: "i < j" "j < length ops" and m: "made_by (ops ! i) d"
    have "image_operation p n (images ! i) = Inr (ops ! i)" "image_operation p n (images ! j) = Inr (ops ! j)"
      using all ij by (auto simp: list_all2_conv_all_nth)
    moreover have "im_id (images ! i) \<noteq> im_id (images ! j)"
      using assms(2) ij all by (simp add: distinct_conv_nth list_all2_conv_all_nth)
    ultimately show "\<not> doc_matches (up_filter (ops ! j)) d"
      using image_operation_made(1) m image_operation_match by fastforce
  qed
  show "\<exists>d \<in> set c'. map_of d (py ''_id'') = Some (BStr (im_id img)) \<and>
      (\<forall>(k, v) \<in> set (image_fields img p n). map_of d k = Some v)" if member: "img \<in> set images"
  proof -
    obtain op where op: "op \<in> set ops" "image_operation p n img = Inr op"
      using all member by (fastforce simp: list_all2_conv_all_nth in_set_conv_nth)
    obtain d where "d \<in> set c'" "made_by op d"
      using coll_bulk_leaves [OF assms(3) op(1) _ sep] upserts(1) from_image by blast
    then show ?thesis using image_operation_made [OF op(2)] by blast
  qed
  show "d \<in> set c \<or> (\<exists>img \<in> set images. map_of d (py ''_id'') = Some (BStr (im_id img)))" if "d \<in> set c'"
    using coll_bulk_made [OF assms(3) that] from_image image_operation_made(1) by blast
qed

lemma word_bulk:
  assumes "mapE (word_operation url p n) rows = Inr ops"
    and "distinct (map (\<lambda>(img, row). (im_id img, fst row)) rows)"
    and "coll_bulk idx True ops c = (True, c')"
  shows "(img, row) \<in> set rows \<Longrightarrow> \<exists>d \<in> set c'. \<forall>(k, v) \<in> set (word_fields url p n img row). map_of d k = Some v"
    and "d \<in> set c' \<Longrightarrow> d \<in> set c \<or>
           (\<exists>(img, row) \<in> set rows. \<forall>(k, v) \<in> set (word_fields url p n img row). map_of d k = Some v)"
proof -
  have all: "list_all2 (\<lambda>r op. word_operation url p n r = Inr op) rows ops"
    using assms(1) by (simp add: mapE_Inr_iff)
  have from_image: "\<exists>(img, row) \<in> set rows. word_operation url p n (img, row) = Inr op" if "op \<in> set ops" for op
    using all that by (fastforce simp: list_all2_conv_all_nth in_set_conv_nth)
  have sep: "sorted_wrt (\<lambda>op op'. \<forall>d. made_by op d \<longrightarrow> \<not> doc_matches (up_filter op') d) ops"
    unfolding sorted_wrt_iff_nth_less
  proof (intro allI impI notI)
    fix i j d assume ij: "i < j" "j < length ops" and m: "made_by (ops ! i) d" and d: "doc_matches (up_filter (ops ! j)) d"
    obtain a r where a: "rows ! i = (a, r)" by (cases "rows ! i")
    obtain b s where b: "rows ! j = (b, s)" by (cases "rows ! j")
    note ab = a b
    have ops: "word_operation url p n (a, r) = Inr (ops ! i)" "word_operation url p n (b, s) = Inr (ops ! j)"
      unfolding ab [symmetric] using list_all2_nthD2 [OF all] ij by simp_all
    have "length rows = length ops" using all by (rule list_all2_lengthD)
    then have "(im_id a, fst r) \<noteq> (im_id b, fst s)"
      using nth_eq_iff_index_eq [OF assms(2), of i j] ij ab by simp
    then show False
      using word_operation_match [OF ops(2) d word_operation_made [OF ops(1) m]] by simp
  qed
  show "\<exists>d \<in> set c'. \<forall>(k, v) \<in> set (word_fields url p n img row). map_of d k = Some v" if member: "(img, row) \<in> set rows"
  proof -
    obtain op where op: "op \<in> set ops" "word_operation url p n (img, row) = Inr op"
      using all member by (fastforce simp: list_all2_conv_all_nth in_set_conv_nth)
    obtain d where "d \<in> set c'" "made_by op d"
      using coll_bulk_leaves [OF assms(3) op(1) _ sep] upserts(2) from_image by blast
    then show ?thesis using word_operation_made [OF op(2)] by blast
  qed
  show "d \<in> set c \<or> (\<exists>(img, row) \<in> set rows. \<forall>(k, v) \<in> set (word_fields url p n img row). map_of d k = Some v)"
    if "d \<in> set c'"
    using coll_bulk_made [OF assms(3) that] from_image word_operation_made by fast
qed

text \<open>The words of the images are distinct within an image.\<close>

lemma keep_keywords_distinct:
  "keep_keywords t kvs acc = Inr r \<Longrightarrow> distinct (map fst acc) \<Longrightarrow> distinct (map fst r)"
  by (induction t kvs acc rule: keep_keywords.induct)
    (auto simp: sum_iffs distinct_update split: if_splits option.splits sum.splits)

lemma keep_keywords_bound:
  "keep_keywords t kvs acc = Inr r \<Longrightarrow> length acc < MAX_INDEX_WORDS \<Longrightarrow> length r \<le> MAX_INDEX_WORDS"
proof (induction t kvs acc rule: keep_keywords.induct)
  case (2 t word weight rest acc)
  have grow: "length (AList.update k (v :: int) a) \<le> Suc (length a)" for k :: pystr and v a
    by (induction a) auto
  obtain acc' where step: "(if word = [] then Inr acc
            else bindE (part_size word) (\<lambda>size.
              if size > 256 then Inr acc
              else (case weight_int weight of
                      None \<Rightarrow> Inr acc
                    | Some (Inl e) \<Rightarrow> Inl e
                    | Some (Inr n) \<Rightarrow> Inr (AList.update (lower_text t word) n acc)))) = Inr acc'"
    and r: "(if MAX_INDEX_WORDS \<le> length acc' then Inr acc' else keep_keywords t rest acc') = Inr r"
    using "2.prems"(1) unfolding keep_keywords.simps bindE_Inr_iff by blast
  have a: "length acc' \<le> Suc (length acc)"
    using step grow by (auto simp: sum_iffs split: if_splits option.splits sum.splits)
  show ?case
  proof (cases "MAX_INDEX_WORDS \<le> length acc'")
    case True
    then show ?thesis using a r "2.prems"(2) by simp
  next
    case False
    then show ?thesis using "2.IH" r by simp
  qed
qed simp

lemma word_weights_distinct:
  assumes "word_weights t img keywords = Inr ws" and "distinct (map fst keywords)"
  shows "distinct (map fst ws)"
proof -
  have "distinct (map fst a) \<Longrightarrow> distinct (map fst (foldl (add_metadata_word keywords) a words))" for a words
    by (induction words arbitrary: a) (simp_all add: add_metadata_word_def distinct_update)
  then show ?thesis using assms by (auto simp: word_weights_def sum_iffs)
qed

lemma image_words_distinct:
  assumes "image_words t keywords images = Inr rows" and "distinct (map fst keywords)"
    and "distinct (map im_id images)"
  shows "distinct (map (\<lambda>(img, row). (im_id img, fst row)) rows)"
proof -
  have "mapE (\<lambda>img. bindE (word_weights t img keywords) (\<lambda>ws. Inr (map (Pair img) (sort_key fst ws)))) images = Inr rs
      \<Longrightarrow> distinct (map (\<lambda>(img, row). (im_id img, fst row)) (concat rs)) \<and>
          (\<forall>(img, row) \<in> set (concat rs). img \<in> set images)" for rs
    using assms(3)
  proof (induction images arbitrary: rs)
    case (Cons img images)
    then obtain ws rs' where ws: "word_weights t img keywords = Inr ws"
      and rs: "rs = map (Pair img) (sort_key fst ws) # rs'"
      and rest: "mapE (\<lambda>img. bindE (word_weights t img keywords) (\<lambda>ws. Inr (map (Pair img) (sort_key fst ws)))) images = Inr rs'"
      by (auto simp: sum_iffs)
    have IH: "distinct (map (\<lambda>(img, row). (im_id img, fst row)) (concat rs'))"
      "\<And>i row. (i, row) \<in> set (concat rs') \<Longrightarrow> i \<in> set images"
      using Cons.IH [OF rest] Cons.prems by auto
    have "distinct (map fst (sort_key fst ws))"
      using word_weights_distinct [OF ws assms(2)] by (metis distinct_map distinct_sort set_sort)
    then have "distinct (map (\<lambda>row. (im_id img, fst row)) (sort_key fst ws))"
      by (auto simp: distinct_map inj_on_def)
    moreover have "(\<lambda>row. (im_id img, fst row)) ` set ws \<inter> (\<lambda>(img, row). (im_id img, fst row)) ` set (concat rs') = {}"
    proof -
      have "im_id img \<notin> im_id ` set images" using Cons.prems by simp
      then have "im_id i \<noteq> im_id img" if "(i, row) \<in> set (concat rs')" for i row
        using IH(2) [OF that] by (metis imageI)
      then show ?thesis by (fastforce simp: disjoint_iff simp del: set_concat)
    qed
    moreover have "map (\<lambda>(img, row). (im_id img, fst row)) (map (Pair img) (sort_key fst ws) @ concat rs') =
        map (\<lambda>row. (im_id img, fst row)) (sort_key fst ws) @ map (\<lambda>(img, row). (im_id img, fst row)) (concat rs')"
      by (simp only: map_append map_map comp_def prod.case)
    ultimately have "distinct (map (\<lambda>(img, row). (im_id img, fst row)) (map (Pair img) (sort_key fst ws) @ concat rs'))"
      using IH(1) by (simp only: distinct_append set_map set_sort)
    moreover have "\<forall>(i, row) \<in> set (map (Pair img) (sort_key fst ws) @ concat rs'). i \<in> set (img # images)"
      using IH(2) by auto
    ultimately show ?case by (simp only: rs concat.simps)
  qed simp
  then show ?thesis using assms(1) by (auto simp: image_words_def sum_iffs)
qed

section \<open>A reconciliation that succeeds\<close>

interpretation untouched: world_relation "\<lambda>w w'. M w' = M w" for M :: "'w \<Rightarrow> mdb"
  by unfold_locales auto

lemma guarded_True: "guarded m k w = (Inr True, w') \<longleftrightarrow> (\<exists>v. m w = (Inr True, v) \<and> k v = (Inr True, w'))"
  by (auto simp: guarded_def bind_Inr_iff)

lemma acked_Inr: "acked (with_filter identity n k) w = (Inr True, w') \<Longrightarrow>
    \<exists>f r. fenced_filter identity n = Inr f \<and> k f w = (Inr r, w')"
  by (auto simp: acked_def with_filter_def bind_Inr_iff)

lemma write_batches_True:
  assumes doc: "service_mongo_documented (mg_cmds env) M idx" and still: "undisturbed M env"
    and current: "\<And>w r v. current w = (r, v) \<Longrightarrow> M v = M w"
  shows "write_batches env coll current bs w = (Inr True, w') \<Longrightarrow>
     \<exists>c. coll_bulk (idx coll) True (concat bs) (M w coll) = (True, c) \<and> M w' = (M w)(coll := c)"
proof (induction bs arbitrary: w)
  case (Cons b bs)
  then obtain v1 v2 r where v1: "current w = (Inr True, v1)" and v2: "bulk_write env coll b True v1 = (Inr r, v2)"
    and rest: "write_batches env coll current bs v2 = (Inr True, w')"
    by (auto simp: bind_Inr_iff split: if_splits)
  obtain c where c: "coll_bulk (idx coll) True b (M w coll) = (True, c)" "M v2 = (M w)(coll := c)"
    using bulk_write_Inr [OF doc still v2] current [OF v1] by auto
  obtain c' where "coll_bulk (idx coll) True (concat bs) c = (True, c')" "M w' = (M v2)(coll := c')"
    using Cons.IH [OF rest] c(2) by (metis fun_upd_same)
  then show ?case using c by (auto simp: coll_bulk_append)
qed (simp add: fun_upd_idem)

text \<open>The documents of the page when the reconciliation has returned \<open>True\<close>.\<close>

definition images_reconciled :: "pystr \<Rightarrow> pystr \<Rightarrow> image list \<Rightarrow> nat \<Rightarrow> doc list \<Rightarrow> bool" where
  "images_reconciled url p images n c \<longleftrightarrow>
     (\<forall>img \<in> set images. \<exists>d \<in> set c. map_of d (py ''_id'') = Some (BStr (im_id img)) \<and>
        (\<forall>(k, v) \<in> set (image_fields img p n). map_of d k = Some v)) \<and>
     (\<forall>d \<in> set c. map_of d (py ''page_url'') = Some (BStr url) \<longrightarrow>
        newer n d \<or> (\<exists>img \<in> set images. map_of d (py ''_id'') = Some (BStr (im_id img))))"

definition words_reconciled :: "pystr \<Rightarrow> pystr \<Rightarrow> (image \<times> pystr \<times> int) list \<Rightarrow> nat \<Rightarrow> doc list \<Rightarrow> bool" where
  "words_reconciled url p rows n c \<longleftrightarrow>
     (\<forall>(img, row) \<in> set rows. \<exists>d \<in> set c. \<forall>(k, v) \<in> set (word_fields url p n img row). map_of d k = Some v) \<and>
     (\<forall>d \<in> set c. map_of d (py ''page_url'') = Some (BStr url) \<longrightarrow>
        newer n d \<or> (\<exists>(img, row) \<in> set rows. \<forall>(k, v) \<in> set (word_fields url p n img row). map_of d k = Some v))"

lemma stale_or_newer:
  assumes "fenced_filter identity n = Inr f" and "d \<in> set (delete_all f c)" and "doc_matches identity d"
  shows "newer n d"
  using assms by (auto simp: delete_all_set fenced_filter_Inr newer_def)

lemma collections_differ:
  "IMAGE_COLLECTION \<noteq> WORD_IMAGES_COLLECTION" "IMAGE_COLLECTION \<noteq> IMAGE_PAGE_STATE_COLLECTION"
  "WORD_IMAGES_COLLECTION \<noteq> IMAGE_PAGE_STATE_COLLECTION"
  by (simp_all add: image_collections)

lemma reconcile_body_True:
  assumes doc: "service_mongo_documented (mg_cmds env) M idx" and still: "undisturbed M env"
    and current: "\<And>b w r v. current b w = (r, v) \<Longrightarrow> M v = M w"
    and ids: "distinct (map im_id images)" and keys: "distinct (map fst keywords)"
    and run: "reconcile_body env t current url p images keywords n w = (Inr True, w')"
  shows "page_state_document url p images n \<in> set (M w' IMAGE_PAGE_STATE_COLLECTION)"
    and "images_reconciled url p images n (M w' IMAGE_COLLECTION)"
    and "\<exists>rows. image_words t keywords images = Inr rows \<and>
           words_reconciled url p rows n (M w' WORD_IMAGES_COLLECTION)"
proof -
  obtain v1 old v2 v3 v4 v5 v6 ops v7 v8 v9 v10 wops where
      1: "current False w = (Inr True, v1)"
    and 2: "distinct_values env IMAGE_COLLECTION (py ''_id'') (FEq (py ''page_url'') (BStr url)) v1 = (Inr old, v2)"
    and 3: "acked (with_filter (FEq (py ''_id'') (BStr url)) n (\<lambda>f.
       replace_one env IMAGE_PAGE_STATE_COLLECTION f (page_state_document url p images n) True)) v2 = (Inr True, v3)"
    and 4: "page_epoch_is_current env url n v3 = (Inr True, v4)" and 5: "current True v4 = (Inr True, v5)"
    and 6: "acked (with_filter (stale_images_filter url images) n (delete_many env IMAGE_COLLECTION)) v5 = (Inr True, v6)"
    and ops: "mapE (image_operation p n) images = Inr ops"
    and 7: "write_batches env IMAGE_COLLECTION (current True) (batches ops) v6 = (Inr True, v7)"
    and 8: "current True v7 = (Inr True, v8)"
    and 9: "acked (with_filter (stale_words_filter url old) n (delete_many env WORD_IMAGES_COLLECTION)) v8 = (Inr True, v9)"
    and wops: "bindE (image_words t keywords images) (mapE (word_operation url p n)) = Inr wops"
    and 10: "write_batches env WORD_IMAGES_COLLECTION (current True) (batches wops) v9 = (Inr True, v10)"
    and 11: "current True v10 = (Inr True, w')"
    using run by (auto simp: reconcile_body_def bulk_write_current_def guarded_True bind_Inr_iff)
  have written: "\<exists>c. coll_bulk (idx coll) True (concat bs) (M x coll) = (True, c) \<and> M y = (M x)(coll := c)"
    if "write_batches env coll (current True) bs x = (Inr True, y)" for coll bs x y
    using current that by (rule write_batches_True [OF doc still])
  have m2: "M v2 = M w" using current [OF 1] distinct_values_Inr(1) [OF doc still 2] by simp
  obtain f3 r3 where f3: "replace_one env IMAGE_PAGE_STATE_COLLECTION f3 (page_state_document url p images n) True v2 = (Inr r3, v3)"
    using acked_Inr [OF 3] by auto
  obtain c3 where c3: "page_state_document url p images n \<in> set c3" "M v3 = (M w)(IMAGE_PAGE_STATE_COLLECTION := c3)"
    using replace_one_Inr [OF doc still f3] coll_replace_set(3) m2 by force
  have m5: "M v5 = M v3"
    using 4 find_one_Inr(1) [OF doc still] current [OF 5] by (auto simp: page_epoch_is_current_def bind_Inr_iff)
  obtain f6 r6 where f6: "fenced_filter (stale_images_filter url images) n = Inr f6"
    and d6: "delete_many env IMAGE_COLLECTION f6 v5 = (Inr r6, v6)"
    using acked_Inr [OF 6] by auto
  obtain c7 where c7: "coll_bulk (idx IMAGE_COLLECTION) True ops (delete_all f6 (M w IMAGE_COLLECTION)) = (True, c7)"
      "M v7 = (M v6)(IMAGE_COLLECTION := c7)"
    using written [OF 7] delete_many_Inr [OF doc still d6] m5 c3(2) collections_differ by auto
  obtain f9 r9 where f9: "fenced_filter (stale_words_filter url old) n = Inr f9"
    and d9: "delete_many env WORD_IMAGES_COLLECTION f9 v8 = (Inr r9, v9)"
    using acked_Inr [OF 9] by auto
  obtain c10 where c10: "coll_bulk (idx WORD_IMAGES_COLLECTION) True wops (M v9 WORD_IMAGES_COLLECTION) = (True, c10)"
      "M v10 = (M v9)(WORD_IMAGES_COLLECTION := c10)"
    using written [OF 10] by auto
  have m9: "M v9 = (M v7)(WORD_IMAGES_COLLECTION := delete_all f9 (M v7 WORD_IMAGES_COLLECTION))"
    using delete_many_Inr [OF doc still d9] current [OF 8] by simp
  have final: "M w' IMAGE_PAGE_STATE_COLLECTION = c3" "M w' IMAGE_COLLECTION = c7" "M w' WORD_IMAGES_COLLECTION = c10"
    using current [OF 11] c10(2) m9 c7(2) delete_many_Inr [OF doc still d6] m5 c3(2) collections_differ by simp_all
  show "page_state_document url p images n \<in> set (M w' IMAGE_PAGE_STATE_COLLECTION)"
    using c3(1) by (simp add: final)
  show "images_reconciled url p images n (M w' IMAGE_COLLECTION)"
    unfolding images_reconciled_def final
  proof (intro conjI ballI impI)
    fix d assume d: "d \<in> set c7" "map_of d (py ''page_url'') = Some (BStr url)"
    show "newer n d \<or> (\<exists>img \<in> set images. map_of d (py ''_id'') = Some (BStr (im_id img)))"
    proof (cases "\<exists>img \<in> set images. map_of d (py ''_id'') = Some (BStr (im_id img))")
      case False
      then have "d \<in> set (delete_all f6 (M w IMAGE_COLLECTION))"
        using image_bulk(2) [OF ops ids c7(1) d(1)] by blast
      moreover have "doc_matches (stale_images_filter url images) d"
        using False d(2) by (auto simp: stale_images_filter_def field_matches_def value_matches_def list_ex_iff)
      ultimately show ?thesis using stale_or_newer [OF f6] by blast
    qed simp
  qed (use image_bulk(1) [OF ops ids c7(1)] in blast)
  obtain rows where rows: "image_words t keywords images = Inr rows" "mapE (word_operation url p n) rows = Inr wops"
    using wops by (auto simp: bindE_Inr_iff)
  note wb = word_bulk [OF rows(2) image_words_distinct [OF rows(1) keys ids] c10(1)]
  have "words_reconciled url p rows n c10"
    unfolding words_reconciled_def
  proof (intro conjI ballI impI)
    fix d assume d: "d \<in> set c10" "map_of d (py ''page_url'') = Some (BStr url)"
    have "newer n d" if "d \<in> set (M v9 WORD_IMAGES_COLLECTION)"
      using that d(2) m9 by (intro stale_or_newer [OF f9]) (auto simp: stale_words_filter_def field_matches_def value_matches_def)
    then show "newer n d \<or> (\<exists>(img, row) \<in> set rows. \<forall>(k, v) \<in> set (word_fields url p n img row). map_of d k = Some v)"
      using wb(2) [OF d(1)] by blast
  qed (use wb(1) in blast)
  then show "\<exists>rows. image_words t keywords images = Inr rows \<and>
           words_reconciled url p rows n (M w' WORD_IMAGES_COLLECTION)"
    using rows(1) final by auto
qed

end
