(* ===== verification/Image_Load.thy ===== *)
theory Image_Load
  imports Image_Redis
begin

text \<open>
  What \<open>load_work\<close> of the image indexer reads: \<open>publication_stored\<close> says which hashes Redis holds for a
  work item, the manifest and one payload per image. The lemmas turn every check on the way (the Lua
  preflights, \<open>HGETALL\<close> and its decoding, the manifest's fields, the list of keys, the payload's
  contract) into an equivalence, and together they give the exact condition on the stored hashes under
  which a work item is loaded.
\<close>

section \<open>Stored hashes\<close>

text \<open>The hash at a key has exactly these fields; names are ASCII, values are sent as UTF-8.\<close>

definition hash_is :: "rdb \<Rightarrow> pystr \<Rightarrow> (pystr \<times> pystr) list \<Rightarrow> bool" where
  "hash_is db key fs \<longleftrightarrow>
     (\<exists>k h. utf8_encode key = Some k \<and> db k = Some (RHash h) \<and> length h = length fs \<and>
        list_all (\<lambda>(f, v). \<exists>b. utf8_encode v = Some b \<and> map_of h f = Some b) fs)"

definition payload_stored :: "ucd \<Rightarrow> rdb \<Rightarrow> pystr \<Rightarrow> pystr \<Rightarrow> pystr \<Rightarrow> image \<Rightarrow> bool" where
  "payload_stored u db publication_id page_url key img \<longleftrightarrow>
     hash_is db key
       [(py ''contract_version'', py ''1''), (py ''publication_id'', publication_id),
        (py ''normalized_page_url'', page_url), (py ''normalized_source_url'', im_source_url img), (py ''alt'', im_alt img)] \<and>
     key_url_ok (im_source_url img) \<and> image_filename u (im_source_url img) = Inr (im_filename img)"

definition publication_stored :: "ucd \<Rightarrow> rdb \<Rightarrow> image_work \<Rightarrow> bool" where
  "publication_stored u db work \<longleftrightarrow>
     hash_is db (iw_manifest_key work)
       [(py ''contract_version'', py ''1''), (py ''publication_id'', iw_publication_id work),
        (py ''normalized_url'', iw_page_url work), (py ''image_count'', show_nat (length (iw_images work))),
        (py ''image_keys'', iw_serialized_keys work)] \<and>
     length (iw_serialized_keys work) \<le> MAX_MANIFEST_BYTES \<and>
     list_all2 (payload_stored u db (iw_publication_id work) (iw_page_url work)) (iw_payload_keys work) (iw_images work)"

section \<open>Decoding a hash\<close>

abbreviation decodes :: "bytes \<times> bytes \<Rightarrow> pystr \<times> pystr \<Rightarrow> bool" where
  "decodes p p' \<equiv> utf8_encode (fst p') = Some (fst p) \<and> utf8_encode (snd p') = Some (snd p)"

lemma decode_reply_iff: "decode_reply b = Inr s \<longleftrightarrow> utf8_encode s = Some b"
  unfolding utf8_decode_iff [symmetric] by (auto simp: decode_reply_def split: option.splits)

lemma decode_pairs_iff: "decode_pairs h = Inr m \<longleftrightarrow> list_all2 decodes h m"
proof -
  have "(case p of (f, v) \<Rightarrow> bindE (decode_reply f) (\<lambda>f'. bindE (decode_reply v) (\<lambda>v'. Inr (f', v')))) = Inr p' \<longleftrightarrow>
      decodes p p'" for p p'
    by (cases p; cases p') (auto simp: sum_iffs decode_reply_iff)
  then show ?thesis by (simp add: decode_pairs_def mapE_Inr_iff)
qed

lemma decodes_field:
  assumes "is_ascii n" and "utf8_encode f' = Some f"
  shows "f' = n \<longleftrightarrow> f = n"
  using assms utf8_encode_ascii [OF assms(1)] utf8_encode_inject by auto

lemma decodes_lookup:
  "list_all2 decodes h m \<Longrightarrow> is_ascii n \<Longrightarrow> map_of h n = (case map_of m n of None \<Rightarrow> None | Some v \<Rightarrow> utf8_encode v)"
proof (induction rule: list_all2_induct)
  case (Cons p h p' m)
  have "fst p' = n \<longleftrightarrow> fst p = n" using Cons decodes_field by blast
  then show ?case using Cons by (cases p; cases p') auto
qed simp

lemma decodes_fields:
  "list_all2 decodes h m \<Longrightarrow> list_all is_ascii ns \<Longrightarrow> fst ` set h \<subseteq> set ns \<Longrightarrow> map fst m = map fst h"
proof (induction rule: list_all2_induct)
  case (Cons p h p' m)
  have "fst p' = fst p"
    using Cons.hyps(1) Cons.prems decodes_field [of "fst p" "fst p'" "fst p"] by (auto simp: list_all_iff)
  then show ?case using Cons by simp
qed simp

lemma decodes_exists:
  "\<forall>p \<in> set h. \<exists>f v. utf8_encode f = Some (fst p) \<and> utf8_encode v = Some (snd p) \<Longrightarrow> \<exists>m. list_all2 decodes h m"
proof (induction h)
  case Nil
  have "list_all2 decodes [] []" by simp
  then show ?case by blast
next
  case (Cons p h)
  then obtain m f v where "list_all2 decodes h m" "utf8_encode f = Some (fst p)" "utf8_encode v = Some (snd p)"
    by auto
  then have "list_all2 decodes (p # h) ((f, v) # m)" by simp
  then show ?case by blast
qed

lemma decodes_value: "list_all2 decodes h m \<Longrightarrow> p' \<in> set m \<Longrightarrow> \<exists>b. utf8_encode (snd p') = Some b"
  by (induction rule: list_all2_induct) auto

text \<open>As many entries as fields, and every field present: no others, and none twice.\<close>

lemma exact_fields:
  assumes "length h = length ns" and "distinct ns" and "\<forall>n \<in> set ns. map_of h n \<noteq> None"
  shows "fst ` set h = set ns" and "distinct (map fst h)"
proof -
  have sub: "set ns \<subseteq> set (map fst h)" using assms(3) by (auto simp: map_of_eq_None_iff)
  have "card (set (map fst h)) \<le> card (set ns)"
    using card_length [of "map fst h"] assms(1,2) by (simp add: distinct_card)
  then have eq: "set ns = set (map fst h)" using sub by (intro card_seteq) auto
  then show "fst ` set h = set ns" by simp
  have "card (set (map fst h)) = length (map fst h)"
    using eq assms(1,2) by (metis distinct_card length_map)
  then show "distinct (map fst h)" by (rule card_distinct)
qed

lemma hash_decodes:
  assumes "list_all (\<lambda>(f, v). is_ascii f) fs" and "distinct (map fst fs)"
  shows "(\<exists>m. decode_pairs h = Inr m \<and> fst ` set m = fst ` set fs \<and> list_all (\<lambda>(f, v). map_of m f = Some v) fs \<and>
       length h = length fs) \<longleftrightarrow>
     length h = length fs \<and> list_all (\<lambda>(f, v). \<exists>b. utf8_encode v = Some b \<and> map_of h f = Some b) fs"
proof
  assume "\<exists>m. decode_pairs h = Inr m \<and> fst ` set m = fst ` set fs \<and> list_all (\<lambda>(f, v). map_of m f = Some v) fs \<and>
       length h = length fs"
  then obtain m where m: "list_all2 decodes h m" "fst ` set m = fst ` set fs" "list_all (\<lambda>(f, v). map_of m f = Some v) fs"
      "length h = length fs"
    by (auto simp: decode_pairs_iff)
  have "\<exists>b. utf8_encode v = Some b \<and> map_of h f = Some b" if fv: "(f, v) \<in> set fs" for f v
  proof -
    have mv: "map_of m f = Some v" and "is_ascii f" using fv m(3) assms(1) by (auto simp: list_all_iff)
    then have hv: "map_of h f = utf8_encode v" using decodes_lookup [OF m(1)] by simp
    have "(f, v) \<in> set m" by (rule map_of_SomeD [OF mv])
    then have "\<exists>b. utf8_encode v = Some b" using decodes_value [OF m(1)] by fastforce
    then show ?thesis using hv by auto
  qed
  then show "length h = length fs \<and> list_all (\<lambda>(f, v). \<exists>b. utf8_encode v = Some b \<and> map_of h f = Some b) fs"
    using m(4) by (auto simp: list_all_iff)
next
  assume r: "length h = length fs \<and> list_all (\<lambda>(f, v). \<exists>b. utf8_encode v = Some b \<and> map_of h f = Some b) fs"
  then have present: "\<forall>n \<in> set (map fst fs). map_of h n \<noteq> None" and size: "length h = length (map fst fs)"
    by (auto simp: list_all_iff)
  note f = exact_fields [OF size assms(2) present]
  have "\<exists>f v. utf8_encode f = Some (fst p) \<and> utf8_encode v = Some (snd p)" if p: "p \<in> set h" for p
  proof -
    have "fst p \<in> fst ` set fs" using f(1) imageI [OF p, of fst] by simp
    then obtain v where v: "(fst p, v) \<in> set fs" by force
    have "map_of h (fst p) = Some (snd p)" using f(2) p by simp
    then have "utf8_encode v = Some (snd p)" using v r by (auto simp: list_all_iff)
    moreover have "utf8_encode (fst p) = Some (fst p)" using v assms(1) utf8_encode_ascii by (auto simp: list_all_iff)
    ultimately show ?thesis by blast
  qed
  then obtain m where m: "list_all2 decodes h m" using decodes_exists [of h] by blast
  have names: "map fst m = map fst h"
    using f(1) assms(1) by (intro decodes_fields [OF m, of "map fst fs"]) (auto simp: list_all_iff)
  have "map_of m g = Some v" if gv: "(g, v) \<in> set fs" for g v
  proof -
    obtain b where b: "utf8_encode v = Some b" "map_of h g = Some b" and a: "is_ascii g"
      using gv r assms(1) by (fastforce simp: list_all_iff)
    then show ?thesis using decodes_lookup [OF m a] utf8_encode_inject by (auto split: option.splits)
  qed
  then have "list_all (\<lambda>(f, v). map_of m f = Some v) fs" by (auto simp: list_all_iff)
  moreover have "fst ` set m = fst ` set fs"
    using names f(1) by (metis list.set_map)
  ultimately show "\<exists>m. decode_pairs h = Inr m \<and> fst ` set m = fst ` set fs \<and> list_all (\<lambda>(f, v). map_of m f = Some v) fs \<and>
       length h = length fs"
    using m r by (auto simp: decode_pairs_iff)
qed

section \<open>The manifest\<close>

lemma canonical_count_iff: "canonical_count s = Some n \<longleftrightarrow> s = show_nat n"
  using show_nat_digits [of n] by (auto simp: canonical_count_def)

lemma b64_char_plain: "n < 64 \<Longrightarrow> plain [b64_char n]"
  by (auto simp: plain_def b64_char_def)

lemma encode_key_url_plain: "encode_key_url url = Some e \<Longrightarrow> plain e"
  using to_sextets_small [OF utf8_encode_bytes [of url]] b64_char_plain
  by (auto simp: encode_key_url_def b64url_encode_def plain_def list_all_iff)

lemma payload_key_plain:
  assumes "publication_id_ok publication_id" and "plain page" and "plain source"
  shows "plain (payload_key_text publication_id page source)"
  using assms
  by (auto simp: payload_key_text_def publication_id_ok_def plain_def list_all_iff ascii_digit_def image_constants py_def)

lemma payload_key_inject:
  "payload_key_text publication_id page e = payload_key_text publication_id page e' \<longleftrightarrow> e = e'"
  by (simp add: payload_key_text_def)

lemma ascii_dumps: "list_all plain ss \<Longrightarrow> is_ascii (json_dumps_texts ss)"
proof -
  assume p: "list_all plain ss"
  have "plain s \<Longrightarrow> is_ascii (dump_string s)" for s
    by (auto simp: dump_plain plain_def is_ascii_def list_all_iff)
  then have "list_all plain ss \<Longrightarrow> is_ascii (join_comma (map dump_string ss))"
    by (induction ss rule: join_comma.induct) auto
  then show ?thesis using p by (simp add: json_dumps_texts_def)
qed

abbreviation names_source :: "pystr \<Rightarrow> pystr \<Rightarrow> pystr \<Rightarrow> pystr \<Rightarrow> bool" where
  "names_source publication_id page key source \<equiv>
     key_url_ok source \<and> (\<exists>e. encode_key_url source = Some e \<and> key = payload_key_text publication_id page e)"

lemma names_source_plain:
  assumes "list_all2 (names_source publication_id page) keys sources"
    and "publication_id_ok publication_id" and "plain page"
  shows "list_all plain keys"
  using assms(1)
  by (induction rule: list_all2_induct) (auto intro: payload_key_plain [OF assms(2,3)] encode_key_url_plain)

lemma manifest_entries_iff:
  assumes "encode_key_url page_url = Some page" and "publication_id_ok publication_id" and "key_url_ok page_url"
  shows "manifest_entries m publication_id page_url page = Inr (keys, sources) \<longleftrightarrow>
     fst ` set m = set manifest_fields \<and> map_of m (py ''contract_version'') = Some (py ''1'') \<and>
     map_of m (py ''publication_id'') = Some publication_id \<and> map_of m (py ''normalized_url'') = Some page_url \<and>
     map_of m (py ''image_count'') = Some (show_nat (length keys)) \<and>
     map_of m (py ''image_keys'') = Some (json_dumps_texts keys) \<and>
     length (json_dumps_texts keys) \<le> MAX_MANIFEST_BYTES \<and> length keys \<le> MAX_IMAGES_PER_PAGE \<and> distinct keys \<and>
     sorted sources \<and> list_all2 (names_source publication_id page) keys sources" (is "?l \<longleftrightarrow> ?r")
proof
  assume l: ?l
  note s = manifest_entries_sound [OF l assms]
  have plain: "list_all plain keys"
    by (rule names_source_plain [OF s(4) assms(2) encode_key_url_plain [OF assms(1)]])
  have f: "fst ` set m = set manifest_fields" using l by (simp add: manifest_entries_def sum_iffs Let_def)
  then have "\<exists>v. map_of m n = Some v" if "n \<in> set manifest_fields" for n
    using that by (metis map_of_eq_None_iff not_None_eq)
  then have present: "\<exists>v. map_of m (py ''contract_version'') = Some v" "\<exists>v. map_of m (py ''publication_id'') = Some v"
      "\<exists>v. map_of m (py ''normalized_url'') = Some v" "\<exists>v. map_of m (py ''image_count'') = Some v"
    by (simp_all add: manifest_fields_def)
  have "utf8_encode (json_dumps_texts keys) = Some (json_dumps_texts keys)"
    by (rule utf8_encode_ascii [OF ascii_dumps [OF plain]])
  then show ?r
    using l s f present
    by (auto simp: manifest_entries_def sum_iffs Let_def part_size_iff canonical_count_iff
        split: option.splits json.splits if_splits)
next
  assume r: ?r
  have plain: "list_all plain keys"
    using r by (intro names_source_plain [OF _ assms(2) encode_key_url_plain [OF assms(1)]]) auto
  have enc: "utf8_encode (json_dumps_texts keys) = Some (json_dumps_texts keys)"
    by (rule utf8_encode_ascii [OF ascii_dumps [OF plain]])
  have loads: "json_loads (json_dumps_texts keys) = Some (JArray (map JString keys))"
    by (rule json_loads_dumps [OF plain])
  have count: "canonical_count (show_nat (length keys)) = Some (length keys)"
    by (simp add: canonical_count_iff)
  have texts: "map (the \<circ> json_string) (map JString keys) = keys" by (simp add: map_idI)
  have checked: "mapE (check_payload_key publication_id page_url page) keys = Inr sources"
    using r by (simp add: mapE_Inr_iff check_payload_key_iff [OF assms])
  have sorted: "sort sources = sources" using r by (simp add: sorted_sort_id)
  show ?l
    using r enc loads count texts checked sorted
    by (simp add: manifest_entries_def Let_def part_size_def list_all_length)
qed

section \<open>The payloads\<close>

lemma load_image_iff:
  "load_image u publication_id page_url (payload, source) = Inr img \<longleftrightarrow>
     fst ` set payload = set payload_fields \<and> map_of payload (py ''contract_version'') = Some (py ''1'') \<and>
     map_of payload (py ''publication_id'') = Some publication_id \<and>
     map_of payload (py ''normalized_page_url'') = Some page_url \<and>
     map_of payload (py ''normalized_source_url'') = Some source \<and>
     map_of payload (py ''alt'') = Some (im_alt img) \<and> source \<noteq> [] \<and>
     association_id page_url source = Inr (im_id img) \<and> image_filename u source = Inr (im_filename img) \<and>
     im_source_url img = source \<and> im_page_url img = page_url \<and>
     (\<exists>b. utf8_encode (im_alt img) = Some b \<and> length b \<le> MAX_IMAGE_ALT_BYTES)" (is "?l \<longleftrightarrow> ?r")
proof
  assume l: ?l
  then have c: "image_from_contract u payload publication_id page_url = Inr img"
    by (auto simp: load_image_def sum_iffs split: sum.splits if_splits)
  then have "fst ` set payload = set payload_fields" "image_filename u (im_source_url img) = Inr (im_filename img)"
    by (auto simp: image_from_contract_def sum_iffs Let_def)
  then show ?r using l load_image_sound [OF l] image_from_contract_fields [OF c] by simp
next
  assume r: ?r
  then have "image_from_contract u payload publication_id page_url = Inr img"
    by (cases img) (simp add: image_from_contract_def Let_def)
  then show ?l using r by (auto simp: load_image_def part_size_def)
qed

section \<open>Reading\<close>

lemma call_reliable: "reliable env \<Longrightarrow> call_server env script w = script w"
  by (simp add: call_server_def reliable_def)

lemma on_response_error_Inr: "on_response_error m e w = (Inr x, w') \<longleftrightarrow> m w = (Inr x, w')"
proof -
  have "(case x' of RedisResponseError _ \<Rightarrow> raise e | _ \<Rightarrow> raise x') v \<noteq> (Inr x, w')" for x' v
    by (cases x') simp_all
  then show ?thesis unfolding on_response_error_def catch_Inr_iff by blast
qed

lemma mapP_read:
  assumes "\<And>x y v. x \<in> set xs \<Longrightarrow> f x w = (Inr y, v) \<longleftrightarrow> v = w \<and> R x y"
  shows "mapP f xs w = (Inr ys, v) \<longleftrightarrow> v = w \<and> list_all2 R xs ys"
  using assms by (induction xs arbitrary: ys) (auto simp: bind_Inr_iff list_all2_Cons1)

lemma list_all2_through:
  "(\<exists>ys. list_all2 P xs ys \<and> list_all Q ys \<and> list_all2 R ys zs) \<longleftrightarrow> list_all2 (\<lambda>x z. \<exists>y. P x y \<and> Q y \<and> R y z) xs zs"
proof (induction xs arbitrary: zs)
  case Nil
  then show ?case by auto
next
  case (Cons x xs)
  have "(\<exists>ys. list_all2 P (x # xs) ys \<and> list_all Q ys \<and> list_all2 R ys zs) \<longleftrightarrow>
      (\<exists>y ys. P x y \<and> list_all2 P xs ys \<and> Q y \<and> list_all Q ys \<and> list_all2 R (y # ys) zs)"
    unfolding list_all2_Cons1 [of P x xs] by (rule iffI; elim exE conjE; fastforce)
  then show ?case by (cases zs) (auto simp: Cons.IH [symmetric])
qed

abbreviation stored_size :: "(bytes, bytes) dict \<Rightarrow> bytes \<Rightarrow> nat" where
  "stored_size h f \<equiv> (case map_of h f of None \<Rightarrow> 0 | Some v \<Rightarrow> length v)"

lemma manifest_preflight_iff:
  assumes "redis_documented C V"
  shows "manifest_preflight_script C k n w = (Inr x, w') \<longleftrightarrow>
     w' = w \<and> x = 1 \<and> (\<exists>h. V w k = Some (RHash h) \<and> length h = 5 \<and> stored_size h (py ''image_keys'') \<le> n)"
  by (auto simp: manifest_preflight_script_def check_run bind_eq documented_cmds [OF assms] redis_read_defs type_of_iffs
      split: if_splits)

definition payload_read :: "rdb \<Rightarrow> pystr \<Rightarrow> (pystr, pystr) dict \<Rightarrow> bool" where
  "payload_read db key p \<longleftrightarrow>
     (\<exists>k h. utf8_encode key = Some k \<and> db k = Some (RHash h) \<and> length h = 5 \<and>
        stored_size h (py ''alt'') \<le> MAX_IMAGE_ALT_BYTES \<and> stored_size h (py ''normalized_page_url'') \<le> MAX_KEY_URL_BYTES \<and>
        stored_size h (py ''normalized_source_url'') \<le> MAX_KEY_URL_BYTES \<and> decode_pairs h = Inr p)"

lemma payloads_preflight_iff:
  assumes "redis_documented C V"
  shows "payloads_preflight C ks a n w = (Inr x, w') \<longleftrightarrow>
     w' = w \<and> x = 1 \<and> list_all (\<lambda>k. \<exists>h. V w k = Some (RHash h) \<and> length h = 5 \<and> stored_size h (py ''alt'') \<le> a \<and>
        stored_size h (py ''normalized_page_url'') \<le> n \<and> stored_size h (py ''normalized_source_url'') \<le> n) ks"
  by (induction ks)
    (auto simp: check_run bind_eq documented_cmds [OF assms] redis_read_defs type_of_iffs split: if_splits)

lemma hgetall_text_iff:
  assumes "redis_documented (rc_cmds env) V" and "reliable env" and "V w k = Some (RHash h)"
  shows "hgetall_text env k w = (Inr p, w') \<longleftrightarrow> w' = w \<and> decode_pairs h = Inr p"
  using assms(3)
  by (auto simp: hgetall_text_def bind_Inr_iff call_reliable [OF assms(2)] hgetall_cmd_def check_run
      documented_cmds [OF assms(1)] split: if_splits)

lemma load_payloads_iff:
  assumes "redis_documented (rc_cmds env) V" and "reliable env" and "length keys \<le> MAX_IMAGES_PER_PAGE"
  shows "load_payloads env keys w = (Inr ps, w') \<longleftrightarrow> w' = w \<and> list_all2 (payload_read (V w)) keys ps"
proof (cases "keys = []")
  case True
  then show ?thesis by (auto simp: load_payloads_def)
next
  case False
  have n: "length ks = length keys \<Longrightarrow> length ks \<le> 1000" for ks :: "bytes list"
    using assms(3) by (simp add: MAX_IMAGES_PER_PAGE_def)
  let ?ok = "\<lambda>k. \<exists>h. V w k = Some (RHash h) \<and> length h = 5 \<and> stored_size h (py ''alt'') \<le> MAX_IMAGE_ALT_BYTES \<and>
      stored_size h (py ''normalized_page_url'') \<le> MAX_KEY_URL_BYTES \<and>
      stored_size h (py ''normalized_source_url'') \<le> MAX_KEY_URL_BYTES"
  have read: "mapP (hgetall_text env) ks w = (Inr ps, v) \<longleftrightarrow>
      v = w \<and> list_all2 (\<lambda>k p. decode_pairs (hash_of (V w k)) = Inr p) ks ps" if stored: "list_all ?ok ks" for ks v
  proof (rule mapP_read)
    fix k y v assume "k \<in> set ks"
    then obtain h where "V w k = Some (RHash h)" using stored by (auto simp: list_all_iff)
    then show "hgetall_text env k w = (Inr y, v) \<longleftrightarrow> v = w \<and> decode_pairs (hash_of (V w k)) = Inr y"
      by (simp add: hgetall_text_iff [OF assms(1,2)])
  qed
  have "load_payloads env keys w = (Inr ps, w') \<longleftrightarrow>
      (\<exists>ks. mapE encode_arg keys = Inr ks \<and> list_all ?ok ks \<and> w' = w \<and>
         list_all2 (\<lambda>k p. decode_pairs (hash_of (V w k)) = Inr p) ks ps)"
    using False n mapE_length [of encode_arg keys]
    by (auto simp: load_payloads_def bind_Inr_iff on_response_error_Inr call_reliable [OF assms(2)]
        payload_preflight_script_def check_run payloads_preflight_iff [OF assms(1)] read split: if_splits)
  also have "\<dots> \<longleftrightarrow> w' = w \<and> list_all2 (payload_read (V w)) keys ps"
  proof -
    have "payload_read (V w) = (\<lambda>key p. \<exists>k. utf8_encode key = Some k \<and> ?ok k \<and> decode_pairs (hash_of (V w k)) = Inr p)"
      by (intro ext) (auto simp: payload_read_def)
    then show ?thesis by (auto simp: mapE_Inr_iff encode_arg_iff list_all2_through [symmetric])
  qed
  finally show ?thesis .
qed

section \<open>What is loaded is what is stored\<close>

lemma hash_is_read:
  assumes "list_all (\<lambda>(f, v). is_ascii f) fs" and "distinct (map fst fs)"
  shows "hash_is db key fs \<longleftrightarrow>
     (\<exists>k h m. utf8_encode key = Some k \<and> db k = Some (RHash h) \<and> length h = length fs \<and> decode_pairs h = Inr m \<and>
        fst ` set m = fst ` set fs \<and> list_all (\<lambda>(f, v). map_of m f = Some v \<and> map_of h f = utf8_encode v) fs)"
proof -
  have conv: "list_all (\<lambda>(f, v). map_of m f = Some v \<and> map_of h f = utf8_encode v) fs \<longleftrightarrow>
      list_all (\<lambda>(f, v). map_of m f = Some v) fs" if m: "decode_pairs h = Inr m" for h m
  proof (rule list.pred_cong [OF refl])
    fix p assume "p \<in> set fs"
    then have "is_ascii (fst p)" using assms(1) by (auto simp: list_all_iff)
    then have "map_of h (fst p) = (case map_of m (fst p) of None \<Rightarrow> None | Some v \<Rightarrow> utf8_encode v)"
      using decodes_lookup m by (simp add: decode_pairs_iff)
    then show "(case p of (f, v) \<Rightarrow> map_of m f = Some v \<and> map_of h f = utf8_encode v) = (case p of (f, v) \<Rightarrow> map_of m f = Some v)"
      by (cases p; cases "map_of m (fst p)") auto
  qed
  have "hash_is db key fs \<longleftrightarrow>
     (\<exists>k h m. utf8_encode key = Some k \<and> db k = Some (RHash h) \<and> length h = length fs \<and> decode_pairs h = Inr m \<and>
        fst ` set m = fst ` set fs \<and> list_all (\<lambda>(f, v). map_of m f = Some v) fs)"
    unfolding hash_is_def hash_decodes [OF assms, symmetric] by blast
  also have "\<dots> \<longleftrightarrow>
     (\<exists>k h m. utf8_encode key = Some k \<and> db k = Some (RHash h) \<and> length h = length fs \<and> decode_pairs h = Inr m \<and>
        fst ` set m = fst ` set fs \<and> list_all (\<lambda>(f, v). map_of m f = Some v \<and> map_of h f = utf8_encode v) fs)"
    by (simp only: conv cong: conj_cong)
  finally show ?thesis .
qed

lemma manifest_read:
  assumes "is_ascii serialized"
  shows "(\<exists>k h m. utf8_encode key = Some k \<and> db k = Some (RHash h) \<and> length h = 5 \<and>
        stored_size h (py ''image_keys'') \<le> MAX_MANIFEST_BYTES \<and> decode_pairs h = Inr m \<and>
        fst ` set m = set manifest_fields \<and> map_of m (py ''contract_version'') = Some (py ''1'') \<and>
        map_of m (py ''publication_id'') = Some publication_id \<and> map_of m (py ''normalized_url'') = Some page_url \<and>
        map_of m (py ''image_count'') = Some (show_nat n) \<and> map_of m (py ''image_keys'') = Some serialized) \<longleftrightarrow>
     hash_is db key
       [(py ''contract_version'', py ''1''), (py ''publication_id'', publication_id), (py ''normalized_url'', page_url),
        (py ''image_count'', show_nat n), (py ''image_keys'', serialized)] \<and>
     length serialized \<le> MAX_MANIFEST_BYTES" (is "?l \<longleftrightarrow> hash_is db key ?fs \<and> _")
proof -
  have names: "list_all (\<lambda>(f, v). is_ascii f) ?fs" "distinct (map fst ?fs)" by (simp_all add: py_def is_ascii_def)
  have fields: "fst ` set ?fs = set manifest_fields" by (auto simp: manifest_fields_def)
  have enc: "utf8_encode serialized = Some serialized" by (rule utf8_encode_ascii [OF assms])
  have look: "map_of h (py ''image_keys'') = Some serialized"
    if "decode_pairs h = Inr m" "map_of m (py ''image_keys'') = Some serialized" for h m
    using decodes_lookup [of h m "py ''image_keys''"] that enc by (simp add: decode_pairs_iff py_def is_ascii_def)
  show ?thesis
  proof
    assume ?l
    then obtain k h m where r: "utf8_encode key = Some k" "db k = Some (RHash h)" "length h = 5"
        "stored_size h (py ''image_keys'') \<le> MAX_MANIFEST_BYTES" "decode_pairs h = Inr m"
        "fst ` set m = set manifest_fields" "list_all (\<lambda>(f, v). map_of m f = Some v) ?fs"
      by auto
    have "hash_is db key ?fs"
      using r hash_decodes [OF names, of h] unfolding fields hash_is_def by auto
    moreover have "length serialized \<le> MAX_MANIFEST_BYTES" using look [OF r(5)] r(4,7) by simp
    ultimately show "hash_is db key ?fs \<and> length serialized \<le> MAX_MANIFEST_BYTES" by blast
  next
    assume "hash_is db key ?fs \<and> length serialized \<le> MAX_MANIFEST_BYTES"
    then show ?l unfolding hash_is_read [OF names] fields using enc by fastforce
  qed
qed

lemma payload_loaded_iff:
  assumes "key_url_ok page_url" and "key_url_ok source"
  shows "(\<exists>p. payload_read db key p \<and> load_image u publication_id page_url (p, source) = Inr img) \<longleftrightarrow>
     payload_stored u db publication_id page_url key img \<and> im_source_url img = source \<and> im_page_url img = page_url \<and>
     association_id page_url source = Inr (im_id img) \<and>
     (\<exists>b. utf8_encode (im_alt img) = Some b \<and> length b \<le> MAX_IMAGE_ALT_BYTES)"
    (is "?l \<longleftrightarrow> ?r")
proof -
  let ?fs = "[(py ''contract_version'', py ''1''), (py ''publication_id'', publication_id),
        (py ''normalized_page_url'', page_url), (py ''normalized_source_url'', im_source_url img), (py ''alt'', im_alt img)]"
  have names: "list_all (\<lambda>(f, v). is_ascii f) ?fs" "distinct (map fst ?fs)" by (simp_all add: py_def is_ascii_def)
  have fields: "fst ` set ?fs = set payload_fields" by (auto simp: payload_fields_def)
  obtain bp bs where b: "utf8_encode page_url = Some bp" "length bp \<le> MAX_KEY_URL_BYTES"
      "utf8_encode source = Some bs" "length bs \<le> MAX_KEY_URL_BYTES"
    using assms by (auto simp: key_url_ok_def)
  show ?thesis
  proof
    assume ?l
    then obtain p k h where r: "utf8_encode key = Some k" "db k = Some (RHash h)" "length h = 5" "decode_pairs h = Inr p"
        and i: "load_image u publication_id page_url (p, source) = Inr img"
      by (auto simp: payload_read_def)
    then have "hash_is db key ?fs"
      using hash_decodes [OF names, of h] unfolding fields hash_is_def load_image_iff by auto
    then show ?r using i assms(2) by (simp add: payload_stored_def load_image_iff)
  next
    assume r: ?r
    then obtain k h p where "utf8_encode key = Some k" "db k = Some (RHash h)" "length h = 5" "decode_pairs h = Inr p"
        "fst ` set p = set payload_fields" and m: "list_all (\<lambda>(f, v). map_of p f = Some v \<and> map_of h f = utf8_encode v) ?fs"
      unfolding payload_stored_def hash_is_read [OF names] fields by auto
    then have "payload_read db key p" and "load_image u publication_id page_url (p, source) = Inr img"
      using r b assms(2) by (auto simp: payload_read_def load_image_iff key_url_ok_def payload_stored_def)
    then show ?l by blast
  qed
qed

lemma work_length:
  "list_all2 R keys ps \<Longrightarrow> mapE f (zip ps sources) = Inr images \<Longrightarrow> length keys = length sources \<Longrightarrow> length images = length keys"
  by (simp add: mapE_length list_all2_lengthD)

lemma payloads_loaded_iff:
  assumes "key_url_ok page_url" and "length keys = length sources" and "list_all key_url_ok sources"
  shows "(\<exists>ps. list_all2 (payload_read db) keys ps \<and> mapE (load_image u publication_id page_url) (zip ps sources) = Inr images) \<longleftrightarrow>
     list_all2 (payload_stored u db publication_id page_url) keys images \<and> map im_source_url images = sources \<and>
     list_all (\<lambda>img. im_page_url img = page_url \<and> association_id page_url (im_source_url img) = Inr (im_id img) \<and>
       (\<exists>b. utf8_encode (im_alt img) = Some b \<and> length b \<le> MAX_IMAGE_ALT_BYTES)) images"
  using assms(2,3)
proof (induction keys sources arbitrary: images rule: list_induct2)
  case Nil
  then show ?case by auto
next
  case (Cons key keys source sources)
  have "(\<exists>ps. list_all2 (payload_read db) (key # keys) ps \<and>
        mapE (load_image u publication_id page_url) (zip ps (source # sources)) = Inr images) \<longleftrightarrow>
      (\<exists>img imgs. images = img # imgs \<and>
        (\<exists>p. payload_read db key p \<and> load_image u publication_id page_url (p, source) = Inr img) \<and>
        (\<exists>ps. list_all2 (payload_read db) keys ps \<and>
           mapE (load_image u publication_id page_url) (zip ps sources) = Inr imgs))"
    unfolding list_all2_Cons1 by (rule iffI; elim exE conjE; fastforce simp: sum_iffs)
  then show ?case
    using Cons.prems Cons.IH payload_loaded_iff [OF assms(1), of source]
    by (cases images) auto
qed

lemma image_load_work_iff:
  assumes "redis_documented (rc_cmds env) V" and "reliable env" and "rc_connected cl"
  shows "image_load_work env u cl key w = (Inr work, w') \<longleftrightarrow>
     w' = w \<and> iw_manifest_key work = key \<and> work_ok work \<and> publication_stored u (V w) work" (is "?l \<longleftrightarrow> ?r")
proof
  assume l: ?l
  then obtain publication_id page_url page where k: "parse_manifest_key key = Inr (publication_id, page_url, page)"
    by (auto simp: image_load_work_def bind_Inr_iff)
  then have id: "publication_id_ok publication_id" "key_url_ok page_url" "encode_key_url page_url = Some page"
    by (simp_all add: parse_manifest_key_iff)
  from l k obtain b h where h: "utf8_encode key = Some b" "V w b = Some (RHash h)" "length h = 5"
      "stored_size h (py ''image_keys'') \<le> MAX_MANIFEST_BYTES"
    by (auto simp: image_load_work_def require_client_def assms(3) bind_Inr_iff encode_arg_iff on_response_error_Inr call_reliable [OF assms(2)]
        manifest_preflight_iff [OF assms(1)])
  note get = hgetall_text_iff [OF assms(1,2) h(2)]
  have pre: "manifest_preflight_script (rc_cmds env) b MAX_MANIFEST_BYTES w = (Inr 1, w)"
    using h by (simp add: manifest_preflight_iff [OF assms(1)])
  from l obtain m keys sources v ps images where m: "decode_pairs h = Inr m"
    and e: "manifest_entries m publication_id page_url page = Inr (keys, sources)"
    and p: "load_payloads env keys w = (Inr ps, v)" and w': "w' = v"
    and i: "mapE (load_image u publication_id page_url) (zip ps sources) = Inr images"
    and work: "work = \<lparr>iw_manifest_key = key, iw_publication_id = publication_id, iw_page_url = page_url,
          iw_payload_keys = keys, iw_images = images, iw_serialized_keys = json_dumps_texts keys\<rparr>"
    using h(1) k pre
    by (auto simp: image_load_work_def require_client_def assms(3) bind_Inr_iff encode_arg_iff on_response_error_Inr call_reliable [OF assms(2)] get)
  note me = e [unfolded manifest_entries_iff [OF id(3,1,2)]]
  have len: "length keys \<le> MAX_IMAGES_PER_PAGE" using me by blast
  have names: "list_all2 (names_source publication_id page) keys sources" using me by blast
  have ps: "w' = w" "list_all2 (payload_read (V w)) keys ps" using p w' load_payloads_iff [OF assms(1,2) len] by auto
  have "list_all plain keys" by (rule names_source_plain [OF names id(1) encode_key_url_plain [OF id(3)]])
  then have ascii: "is_ascii (json_dumps_texts keys)" by (rule ascii_dumps)
  have n: "length keys = length images" using work_length [OF ps(2) i] list_all2_lengthD [OF names] by simp
  have oks: "list_all key_url_ok sources" using names by (induction rule: list_all2_induct) auto
  have "list_all2 (payload_stored u (V w) publication_id page_url) keys images"
    using payloads_loaded_iff [OF id(2) list_all2_lengthD [OF names] oks] ps(2) i by blast
  moreover have "hash_is (V w) key
       [(py ''contract_version'', py ''1''), (py ''publication_id'', publication_id), (py ''normalized_url'', page_url),
        (py ''image_count'', show_nat (length keys)), (py ''image_keys'', json_dumps_texts keys)] \<and>
     length (json_dumps_texts keys) \<le> MAX_MANIFEST_BYTES"
    unfolding manifest_read [OF ascii, symmetric] using h m me by blast
  ultimately show ?r
    using image_load_work_sound [OF l] ps(1) n by (simp add: publication_stored_def work)
next
  assume r: ?r
  let ?pid = "iw_publication_id work" and ?url = "iw_page_url work" and ?sources = "map im_source_url (iw_images work)"
  let ?keys = "iw_payload_keys work"
  from r obtain page where id: "publication_id_ok ?pid" "key_url_ok ?url" "encode_key_url ?url = Some page"
    and key: "key = manifest_key_text ?pid page"
    and ks: "list_all2 (\<lambda>key img. \<exists>source. encode_key_url (im_source_url img) = Some source \<and>
            key = payload_key_text ?pid page source) ?keys (iw_images work)"
    and stored: "list_all2 (payload_stored u (V w) ?pid ?url) ?keys (iw_images work)"
    and facts: "length (iw_images work) \<le> MAX_IMAGES_PER_PAGE" "sorted ?sources" "distinct ?sources"
      "iw_serialized_keys work = json_dumps_texts ?keys"
    by (auto simp: work_ok_def publication_stored_def)
  have k: "parse_manifest_key key = Inr (?pid, ?url, page)" using id key by (simp add: parse_manifest_key_iff)
  have n: "length ?keys = length (iw_images work)" by (rule list_all2_lengthD [OF stored])
  have oks: "list_all key_url_ok ?sources"
    using stored by (induction rule: list_all2_induct) (auto simp: payload_stored_def)
  have names: "list_all2 (names_source ?pid page) ?keys ?sources"
    using ks oks by (auto simp: list_all2_conv_all_nth list_all_length)
  have dist: "distinct ?keys"
  proof -
    have "?keys = map (\<lambda>s. payload_key_text ?pid page (the (encode_key_url s))) ?sources"
      using names by (induction rule: list_all2_induct) auto
    moreover have "inj_on (\<lambda>s. payload_key_text ?pid page (the (encode_key_url s))) (set ?sources)"
    proof (rule inj_onI)
      have enc: "\<exists>e. encode_key_url s = Some e" if "s \<in> set ?sources" for s
        using names that by (induction rule: list_all2_induct) auto
      fix s t assume "s \<in> set ?sources" "t \<in> set ?sources"
        and same: "payload_key_text ?pid page (the (encode_key_url s)) = payload_key_text ?pid page (the (encode_key_url t))"
      then obtain d e where de: "encode_key_url s = Some d" "encode_key_url t = Some e" using enc by blast
      then have "d = e" using same by (simp add: payload_key_inject)
      then show "s = t" using de encode_key_url_inject by blast
    qed
    ultimately show ?thesis using facts(3) by (metis distinct_map)
  qed
  have "list_all plain ?keys" by (rule names_source_plain [OF names id(1) encode_key_url_plain [OF id(3)]])
  then have ascii: "is_ascii (json_dumps_texts ?keys)" by (rule ascii_dumps)
  obtain b h m where h: "utf8_encode key = Some b" "V w b = Some (RHash h)" "length h = 5"
      "stored_size h (py ''image_keys'') \<le> MAX_MANIFEST_BYTES" "decode_pairs h = Inr m"
    and m: "fst ` set m = set manifest_fields" "map_of m (py ''contract_version'') = Some (py ''1'')"
      "map_of m (py ''publication_id'') = Some ?pid" "map_of m (py ''normalized_url'') = Some ?url"
      "map_of m (py ''image_count'') = Some (show_nat (length (iw_images work)))"
      "map_of m (py ''image_keys'') = Some (json_dumps_texts ?keys)"
    using r manifest_read [OF ascii, of key "V w" ?pid ?url "length (iw_images work)"] facts(4)
    by (auto simp: publication_stored_def)
  have e: "manifest_entries m ?pid ?url page = Inr (?keys, ?sources)"
    unfolding manifest_entries_iff [OF id(3,1,2)] using m n facts dist names r by (simp add: publication_stored_def)
  obtain ps where ps: "list_all2 (payload_read (V w)) ?keys ps"
    and i: "mapE (load_image u ?pid ?url) (zip ps ?sources) = Inr (iw_images work)"
    using payloads_loaded_iff [OF id(2) list_all2_lengthD [OF names] oks] stored r unfolding work_ok_def by blast
  have p: "load_payloads env ?keys w = (Inr ps, w)"
    using ps n facts(1) load_payloads_iff [OF assms(1,2)] by simp
  have pre: "manifest_preflight_script (rc_cmds env) b MAX_MANIFEST_BYTES w = (Inr 1, w)"
    using h by (simp add: manifest_preflight_iff [OF assms(1)])
  have get: "hgetall_text env b w = (Inr m, w)" using hgetall_text_iff [OF assms(1,2) h(2)] h(5) by simp
  have "on_response_error (call_server env (manifest_preflight_script (rc_cmds env) b MAX_MANIFEST_BYTES))
      (InvalidImageWork ''manifest preflight failed'') w = (Inr 1, w)"
    by (simp add: on_response_error_Inr call_reliable [OF assms(2)] pre)
  then have "image_load_work env u cl key w = (Inr \<lparr>iw_manifest_key = key, iw_publication_id = ?pid, iw_page_url = ?url,
          iw_payload_keys = ?keys, iw_images = iw_images work, iw_serialized_keys = json_dumps_texts ?keys\<rparr>, w)"
    by (simp add: image_load_work_def require_client_def assms(3) bind_eq k encode_arg_def h(1) get e p i)
  then show ?l using r facts(4) by simp
qed

end
