(* ===== verification/Image_Service.thy ===== *)
theory Image_Service
  imports Image_Main
begin

text \<open>
  Runs of the image indexer's service that nothing disturbs, as conditions on the Redis keyspace \<open>V w\<close> they leave:
  acquiring and dropping the owner lock, recovery, one claim. From these, what the service does with a queue value that
  is not UTF-8, in its first run and in every restart.
\<close>

text \<open>The operations of an undisturbed service, as conditions on the keyspace they leave.\<close>

lemma wp_monotonic:
  assumes "net_within (\<lambda>w w'. V w' = V w) env"
  shows "wp (monotonic env) (\<lambda>_ v. V v = V w) (\<lambda>_ _. False) w"
  using assms by (auto simp: wp_def monotonic_def net_within_def split: prod.splits)

lemma wp_image_renew:
  assumes "redis_documented (rc_cmds env) V" and "reliable env" and "rc_connected cl"
    and "rc_owner_epoch cl = Some n" and "utf8_encode (rc_owner_token cl) = Some t" and "owns image_keys t n (V w)"
  shows "wp (image_renew_owner env cl) (\<lambda>ok v. ok \<and> V v = V w) (\<lambda>_ _. False) w"
  unfolding image_renew_owner_def image_renew_lock_def client_renew_def require_client_def wp_derived wp_bind
  using assms(3)
  by (auto intro!: wp_call [OF wp_call_as_owner [where script = "renew_script (rc_cmds env) image_messages image_keys"
        and script' = "renew_script mem_redis image_messages image_keys",
        OF assms(2,4,5) simulates_scripts(2) [OF assms(1)] image_queue.renew_script_runs [OF assms(6)]]])

lemma wp_image_acquire:
  assumes "redis_documented (rc_cmds env) V" and "reliable env" and "rc_connected cl"
    and "utf8_encode (rc_owner_token cl) = Some t" and "V w (qk_lock image_keys) = None" and "epoch_usable image_keys (V w)"
    and "0 < fuel"
  shows "wp (image_acquire_owner env fuel cl)
    (\<lambda>r v. r = Some (True, cl\<lparr>rc_owner_epoch := Some (epoch_of image_keys (V w) + 1)\<rparr>) \<and>
       owns image_keys t (epoch_of image_keys (V w) + 1) (V v) \<and>
       (\<forall>k. k \<notin> {qk_lock image_keys, qk_epoch image_keys} \<longrightarrow> V v k = V w k)) (\<lambda>_ _. False) w"
proof -
  obtain db' where run: "acquire_script mem_redis image_messages image_keys t (V w) = (Inr (Some (show_nat (epoch_of image_keys (V w) + 1))), db')"
    and db': "owns image_keys t (epoch_of image_keys (V w) + 1) db'"
      "\<And>k. k \<notin> {qk_lock image_keys, qk_epoch image_keys} \<Longrightarrow> db' k = V w k"
    using image_queue.acquire_script_runs [OF assms(5,6), of image_messages t] by metis
  obtain v where v: "acquire_script (rc_cmds env) image_messages image_keys t w = (Inr (Some (show_nat (epoch_of image_keys (V w) + 1))), v)"
    "V v = db'"
    using simulates_run [OF simulates_scripts(1) [OF assms(1)] run] by blast
  have net: "rc_net env w = (Delivered, w)" using assms(2) by (simp add: reliable_def)
  have acq: "image_acquire_lock env cl w = (Inr (True, cl\<lparr>rc_owner_epoch := Some (epoch_of image_keys (V w) + 1)\<rparr>), v)"
    using v(1) assms(3,4)
    by (simp add: image_acquire_lock_def client_acquire_def require_client_def encode_arg_def bind_eq call_server_def net)
  obtain f where "fuel = Suc f" using assms(7) by (cases fuel) auto
  then have "image_acquire_owner env fuel cl w = (Inr (Some (True, cl\<lparr>rc_owner_epoch := Some (epoch_of image_keys (V w) + 1)\<rparr>)), v)"
    using assms(2) acq by (simp add: image_acquire_owner_def bind_eq is_running_def reliable_def attempt_eq)
  then show ?thesis using v(2) db' by (simp add: wp_def)
qed

lemma wp_image_drop:
  assumes "redis_documented (rc_cmds env) V" and "reliable env" and "rc_connected cl"
    and "rc_owner_epoch cl = Some n" and "utf8_encode (rc_owner_token cl) = Some t" and "owns image_keys t n (V w)"
  shows "wp (image_release_lock env cl) (\<lambda>_ v. V v = (V w)(qk_lock image_keys := None)) (\<lambda>_ _. False) w"
  unfolding image_release_lock_def client_drop_def
  using assms(3,4)
  by (auto simp: fun_upd_def intro!: wp_call [OF wp_call_as_owner [where script = "drop_script (rc_cmds env) image_keys" and script' = "drop_script mem_redis image_keys",
        OF assms(2,4,5) simulates_scripts(3) [OF assms(1)] image_queue.drop_script_runs [OF assms(6)]]])

lemma wp_image_claim_undecodable:
  assumes "redis_documented (rc_cmds env) V" and "reliable env" and "rc_connected cl"
    and "rc_owner_epoch cl = Some n" and "utf8_encode (rc_owner_token cl) = Some t"
    and "owns image_keys t n (V w)" and "lists_ok image_keys (V w)"
    and "queued image_keys (V w) = xs @ [c]" and "utf8_decode c = None"
  shows "wp (image_claim env cl) (\<lambda>_ _. False)
    (\<lambda>e v. e = UnicodeError ''decode'' \<and> queued image_keys (V v) = xs \<and> claimed image_keys (V v) = c # claimed image_keys (V w) \<and>
       lists_ok image_keys (V v) \<and>
       (\<forall>k. k \<notin> {qk_queue image_keys, qk_processing image_keys} \<longrightarrow> V v k = V w k)) w"
proof -
  obtain r db where run: "claim_script mem_redis image_messages image_keys (owner_text t n) (show_nat n) (V w) = (r, db)"
    by fastforce
  have r: "r = Inr (Some c)" and lists: "lists_ok image_keys db"
    using run assms(6-8)
    by (auto simp: claim_script_def require_owner_def check_run bind_eq owns_def lists_ok_def queued_def Let_def
        split: if_splits)
  obtain v where v: "call_as_owner env cl (claim_script (rc_cmds env) image_messages image_keys) w = (r, v)" "V v = db"
    by (rule call_as_owner_run [where script' = "claim_script mem_redis image_messages image_keys",
          OF assms(2,4,5) simulates_scripts(4) [OF assms(1)] run])
  have e: "claimed image_keys db = c # claimed image_keys (V w)" "queued image_keys (V w) = queued image_keys db @ [c]"
    "\<And>k. k \<notin> {qk_queue image_keys, qk_processing image_keys} \<Longrightarrow> db k = V w k"
    using image_queue.claim_effect(3,4) [OF run [unfolded r]] by simp_all
  have "image_claim env cl w = (Inl (UnicodeError ''decode''), v)"
    using v(1) r assms(3,9)
    by (simp add: image_claim_def client_claim_def require_client_def bind_eq decode_option_def decode_reply_def)
  then show ?thesis using v(2) e lists assms(8) by (simp add: wp_def)
qed


lemma wp_image_serve_undecodable:
  assumes doc: "redis_documented (rc_cmds env) V" and rel: "reliable env" and net: "net_within (\<lambda>w w'. V w' = V w) env"
    and cl: "rc_connected cl" "rc_owner_epoch cl = Some n" "utf8_encode (rc_owner_token cl) = Some t"
    and own: "owns image_keys t n (V w)" and lists: "lists_ok image_keys (V w)"
    and line: "work_line image_keys (V w) = xs @ [c]" and bad: "utf8_decode c = None"
    and fuel: "length (claimed image_keys (V w)) < fuel * IMAGE_RECOVERY_BATCH_SIZE"
  shows "wp (image_serve env cl connected fuel)
    (\<lambda>r v. r = Some 1 \<and> queued image_keys (V v) = xs \<and> claimed image_keys (V v) = [c] \<and> lists_ok image_keys (V v) \<and>
       (\<forall>k. k \<notin> {qk_queue image_keys, qk_processing image_keys} \<longrightarrow> V v k = V w k)) (\<lambda>_ _. False) w"
proof -
  have b: "1 \<le> IMAGE_RECOVERY_BATCH_SIZE" "IMAGE_RECOVERY_BATCH_SIZE \<le> 1000"
    by (simp_all add: IMAGE_RECOVERY_BATCH_SIZE_def)
  obtain v where v: "image_recover_claims env fuel cl w = (Inr (Some True), v)" "claimed image_keys (V v) = []"
    "queued image_keys (V v) = xs @ [c]" "owns image_keys t n (V v)" "lists_ok image_keys (V v)"
    "\<forall>k. k \<notin> {qk_queue image_keys, qk_processing image_keys} \<longrightarrow> V v k = V w k"
    using image_queue.recover_batches_empties [OF doc rel cl b own lists fuel, of image_messages] line
    unfolding image_recover_claims_def image_renew_owner_def image_renew_lock_def image_recover_def work_line_def by auto
  obtain f where f: "fuel = Suc f" using fuel by (cases fuel) auto
  have claim: "wp (image_claim env cl) (\<lambda>_ _. False)
      (\<lambda>e u. queued image_keys (V u) = xs \<and> claimed image_keys (V u) = [c] \<and> lists_ok image_keys (V u) \<and>
        (\<forall>k. k \<notin> {qk_queue image_keys, qk_processing image_keys} \<longrightarrow> V u k = V w k)) u" if "V u = V v" for u
    using wp_image_claim_undecodable [where w = u, OF doc rel cl] v bad that
    by (fastforce intro: wp_call)
  have due: "wp (renew_if_due env IMAGE_LOCK_RENEW_SECONDS (image_renew_owner env cl) last)
      (\<lambda>r u'. r \<noteq> None \<and> V u' = V v) (\<lambda>_ _. False) u" if "V u = V v" for u last
    unfolding renew_if_due_def wp_bind
  proof (rule wp_call [OF wp_monotonic [OF net]], goal_cases)
    case (1 now u1)
    have "owns image_keys t n (V u1)" using v(4) 1 that by simp
    then have renew: "wp (image_renew_owner env cl) (\<lambda>ok u2. ok \<and> V u2 = V v) (\<lambda>_ _. False) u1"
      using wp_image_renew [OF doc rel cl, of u1] 1 that by simp
    have "wp (image_renew_owner env cl) (\<lambda>ok. wp (if \<not> ok then ret None else bind (monotonic env) (\<lambda>t. ret (Some t)))
        (\<lambda>r u'. r \<noteq> None \<and> V u' = V v) (\<lambda>_ _. False)) (\<lambda>_ _. False) u1"
      by (rule wp_call [OF renew]) (auto intro!: wp_call [OF wp_monotonic [OF net]])
    then show ?case using 1 that by simp
  qed simp
  have "wp (image_loop env cl connected fuel now)
      (\<lambda>r u. r = Some 1 \<and> queued image_keys (V u) = xs \<and> claimed image_keys (V u) = [c] \<and> lists_ok image_keys (V u) \<and>
        (\<forall>k. k \<notin> {qk_queue image_keys, qk_processing image_keys} \<longrightarrow> V u k = V w k)) (\<lambda>_ _. False) u" if "V u = V v" for u now
    unfolding f image_loop.simps wp_bind wp_running [OF rel]
    by (simp, rule wp_call [OF due [OF that]]) (auto intro!: wp_call [OF claim])
  then show ?thesis
    unfolding image_serve_def wp_bind wp_def [of "image_recover_claims env fuel cl"] v(1)
    by (auto intro!: wp_call [OF wp_monotonic [OF net]])
qed

lemma wp_image_run_undecodable:
  assumes doc: "redis_documented (rc_cmds env) V" and rel: "reliable env" and net: "net_within (\<lambda>w w'. V w' = V w) env"
    and cl: "rc_connected cl" "utf8_encode (rc_owner_token cl) = Some t"
    and free: "V w (qk_lock image_keys) = None" "epoch_usable image_keys (V w)" and lists: "lists_ok image_keys (V w)"
    and line: "work_line image_keys (V w) = xs @ [c]" and bad: "utf8_decode c = None"
    and fuel: "length (claimed image_keys (V w)) < fuel * IMAGE_RECOVERY_BATCH_SIZE"
  shows "wp (image_run_indexer env cl connected fuel)
    (\<lambda>r v. r = Some 1 \<and> queued image_keys (V v) = xs \<and> claimed image_keys (V v) = [c] \<and> lists_ok image_keys (V v) \<and>
       dead image_keys (V v) = dead image_keys (V w) \<and> V v (qk_lock image_keys) = None \<and>
       V v (qk_epoch image_keys) = Some (RStr (show_nat (epoch_of image_keys (V w) + 1)))) (\<lambda>_ _. False) w"
proof -
  define n where "n = epoch_of image_keys (V w) + 1"
  define cl' where "cl' = cl\<lparr>rc_owner_epoch := Some n\<rparr>"
  have cl': "rc_connected cl'" "rc_owner_epoch cl' = Some n" "utf8_encode (rc_owner_token cl') = Some t"
    using cl by (simp_all add: cl'_def)
  have fuel0: "0 < fuel" using fuel by (cases fuel) auto
  have served: "wp (release_at_exit (image_release_lock env cl') (image_serve env cl' connected fuel))
      (\<lambda>r v. r = Some 1 \<and> queued image_keys (V v) = xs \<and> claimed image_keys (V v) = [c] \<and> lists_ok image_keys (V v) \<and>
         dead image_keys (V v) = dead image_keys (V w) \<and> V v (qk_lock image_keys) = None \<and>
         V v (qk_epoch image_keys) = Some (RStr (show_nat n))) (\<lambda>_ _. False) u"
    if own: "owns image_keys t n (V u)" and frame: "\<forall>k. k \<notin> {qk_lock image_keys, qk_epoch image_keys} \<longrightarrow> V u k = V w k" for u
  proof -
    note kd = image_queue.keys_differ
    have u: "lists_ok image_keys (V u)" "work_line image_keys (V u) = xs @ [c]"
      "length (claimed image_keys (V u)) < fuel * IMAGE_RECOVERY_BATCH_SIZE" "dead image_keys (V u) = dead image_keys (V w)"
      using lists line fuel frame kd by (simp_all add: lists_ok_def work_line_def queued_def claimed_def dead_def)
    have drop: "wp (image_release_lock env cl') (\<lambda>_ v'. V v' = (V v)(qk_lock image_keys := None)) (\<lambda>_ _. False) v"
      if "\<forall>k. k \<notin> {qk_queue image_keys, qk_processing image_keys} \<longrightarrow> V v k = V u k" for v
    proof (rule wp_image_drop [OF doc rel cl'])
      show "owns image_keys t n (V v)" using image_queue.owns_kept [OF own] that kd by simp
    qed
    have epoch: "V u (qk_epoch image_keys) = Some (RStr (show_nat n))"
      using own by (auto simp: owns_def owner_types_def owner_matches_def type_of_iffs)
    show ?thesis
      unfolding release_at_exit_def wp_bind wp_attempt
    proof (rule wp_call [OF wp_image_serve_undecodable [OF doc rel net cl' own u(1,2) bad u(3)]], goal_cases)
      case (1 r v)
      then show ?case
        using kd epoch u(4)
        by (auto intro!: wp_call [OF drop] simp: lists_ok_def queued_def claimed_def dead_def)
    qed simp
  qed
  show ?thesis
    unfolding image_run_indexer_def wp_bind
  proof (rule wp_call [OF wp_image_acquire [OF doc rel cl free fuel0]], goal_cases)
    case (1 r v)
    then show ?case using served [of v] by (simp add: n_def cl'_def)
  qed
qed


text \<open>The n-th restart finds the keyspace as the first run found it, but for the epoch.\<close>

lemma undecodable_restarts:
  assumes doc: "redis_documented (rc_cmds env) V" and rel: "reliable env" and net: "net_within (\<lambda>w w'. V w' = V w) env"
    and cl: "rc_connected cl" "utf8_encode (rc_owner_token cl) = Some t"
    and free: "V w (qk_lock image_keys) = None" "epoch_usable image_keys (V w)" and lists: "lists_ok image_keys (V w)"
    and line: "work_line image_keys (V w) = xs @ [c]" and bad: "utf8_decode c = None"
    and fuel: "length (claimed image_keys (V w)) < fuel * IMAGE_RECOVERY_BATCH_SIZE"
    and run: "run = image_run_indexer env cl connected fuel"
  shows "epoch_of image_keys (V w) + k < MAX_LUA_INTEGER \<Longrightarrow> v = ((\<lambda>v. snd (run v)) ^^ k) w \<Longrightarrow>
     V v (qk_lock image_keys) = None \<and> epoch_usable image_keys (V v) \<and> lists_ok image_keys (V v) \<and>
     work_line image_keys (V v) = xs @ [c] \<and> length (claimed image_keys (V v)) < fuel * IMAGE_RECOVERY_BATCH_SIZE \<and>
     epoch_of image_keys (V v) = epoch_of image_keys (V w) + k \<and> dead image_keys (V v) = dead image_keys (V w)"
proof (induction k arbitrary: v)
  case 0
  then show ?case using free lists line fuel by simp
next
  case (Suc k)
  define u where "u = ((\<lambda>v. snd (run v)) ^^ k) w"
  have IH: "V u (qk_lock image_keys) = None" "epoch_usable image_keys (V u)" "lists_ok image_keys (V u)"
    "work_line image_keys (V u) = xs @ [c]" "length (claimed image_keys (V u)) < fuel * IMAGE_RECOVERY_BATCH_SIZE"
    "epoch_of image_keys (V u) = epoch_of image_keys (V w) + k" "dead image_keys (V u) = dead image_keys (V w)"
    using Suc.IH [OF _ u_def] Suc.prems(1) by auto
  obtain r where r: "run u = (r, v)" using Suc.prems(2) by (simp add: u_def prod_eq_iff)
  have v: "queued image_keys (V v) = xs" "claimed image_keys (V v) = [c]" "lists_ok image_keys (V v)"
    "dead image_keys (V v) = dead image_keys (V u)" "V v (qk_lock image_keys) = None"
    "V v (qk_epoch image_keys) = Some (RStr (show_nat (epoch_of image_keys (V u) + 1)))"
    using wp_image_run_undecodable [OF doc rel net cl IH(1-4) bad IH(5), of connected] r unfolding run wp_def
    by (auto split: sum.splits)
  have "1 < fuel * IMAGE_RECOVERY_BATCH_SIZE" using fuel by (cases fuel) (auto simp: IMAGE_RECOVERY_BATCH_SIZE_def)
  then show ?case
    using v IH(6,7) Suc.prems(1) positive_show_nat [of "Suc (epoch_of image_keys (V w) + k)"]
    by (simp add: epoch_usable_def work_line_def epoch_of_def)
qed

end
