(* ===== verification/Service_Reference.thy ===== *)
theory Service_Reference
  imports Queue_Recovery
begin

text \<open>
  A world that is a Redis keyspace and a MongoDB database, with nothing lost and nobody else
  writing. It satisfies every hypothesis on the environment and evaluates the witnesses.
\<close>

type_synonym ref_world = "rdb \<times> mdb"

definition ref_redis :: "ref_world redis_cmds" where
  "ref_redis =
     \<lparr>c_type = (\<lambda>k w. c_type mem_redis k (fst w)), c_get = (\<lambda>k w. c_get mem_redis k (fst w)),
      c_lrange = (\<lambda>k w. c_lrange mem_redis k (fst w)), c_hgetall = (\<lambda>k w. c_hgetall mem_redis k (fst w)),
      c_smembers = (\<lambda>k w. c_smembers mem_redis k (fst w)),
      c_set = (\<lambda>k v. apfst (c_set mem_redis k v)), c_incr = (\<lambda>k. apfst (c_incr mem_redis k)),
      c_del = (\<lambda>ks. apfst (c_del mem_redis ks)), c_rpush = (\<lambda>k v. apfst (c_rpush mem_redis k v)),
      c_lpush = (\<lambda>k v. apfst (c_lpush mem_redis k v)), c_lpop = (\<lambda>k. apfst (c_lpop mem_redis k)),
      c_rpoplpush = (\<lambda>k k'. apfst (c_rpoplpush mem_redis k k')), c_lrem = (\<lambda>k v. apfst (c_lrem mem_redis k v)),
      c_ltrim = (\<lambda>k n. apfst (c_ltrim mem_redis k n))\<rparr>"

definition on_mongo :: "(mdb, 'a) prog \<Rightarrow> (ref_world, 'a) prog" where
  "on_mongo m w = (case m (snd w) of (r, db) \<Rightarrow> (r, (fst w, db)))"

definition ref_mongo :: "(string \<Rightarrow> index list) \<Rightarrow> ref_world mongo_cmds" where
  "ref_mongo idx =
     \<lparr>mc_find_one = (\<lambda>c f n w. mc_find_one (mem_service_mongo idx) c f n (snd w)),
      mc_distinct = (\<lambda>c k f w. mc_distinct (mem_service_mongo idx) c k f (snd w)),
      mc_insert_one = (\<lambda>c d. on_mongo (mc_insert_one (mem_service_mongo idx) c d)),
      mc_delete_one = (\<lambda>c f. on_mongo (mc_delete_one (mem_service_mongo idx) c f)),
      mc_delete_many = (\<lambda>c f. on_mongo (mc_delete_many (mem_service_mongo idx) c f)),
      mc_replace_one = (\<lambda>c f d u. on_mongo (mc_replace_one (mem_service_mongo idx) c f d u)),
      mc_bulk_write = (\<lambda>c ops b. on_mongo (mc_bulk_write (mem_service_mongo idx) c ops b))\<rparr>"

definition ref_env :: "(string \<Rightarrow> index list) \<Rightarrow> ref_world indexer_env" where
  "ref_env idx =
     \<lparr>rc_cmds = ref_redis, rc_net = (\<lambda>w. (Delivered, w)), mg_cmds = ref_mongo idx,
      mg_net = (\<lambda>w. (Delivered, w)), sv_running = (\<lambda>w. (True, w)), sv_now = (\<lambda>w. (0, w)),
      sv_monotonic = (\<lambda>w. (0, w)), sv_sleep = (\<lambda>w. w),
      sv_ucd = \<lparr>uc_lower = (\<lambda>c. [c]), uc_nfkc = (\<lambda>s. s)\<rparr>, sv_lower = (\<lambda>s. s)\<rparr>"

definition ref_client :: redis_client where
  "ref_client = \<lparr>rc_connected = True, rc_owner_token = py ''worker'', rc_owner_epoch = Some 1\<rparr>"

lemma ref_env_simps [simp]:
  "rc_cmds (ref_env idx) = ref_redis" "mg_cmds (ref_env idx) = ref_mongo idx"
  "rc_net (ref_env idx) w = (Delivered, w)" "mg_net (ref_env idx) w = (Delivered, w)"
  "sv_running (ref_env idx) w = (True, w)" "sv_now (ref_env idx) w = (0, w)"
  "sv_monotonic (ref_env idx) w = (0, w)" "sv_sleep (ref_env idx) w = w"
  by (simp_all add: ref_env_def)

lemma ref_redis_documented: "redis_documented ref_redis fst"
  by (simp add: redis_documented_def ref_redis_def mem_redis_def)

lemma ref_mongo_documented: "service_mongo_documented (ref_mongo idx) snd idx"
  by (simp add: service_mongo_documented_def ref_mongo_def simulates_def on_mongo_def split: prod.splits)

lemma ref_net_within: "(\<And>w. rel w w) \<Longrightarrow> net_within rel (ref_env idx)"
  by (simp add: net_within_def)

lemma ref_undisturbed: "undisturbed M (ref_env idx)"
  by (simp add: undisturbed_def net_within_def)

lemma ref_reliable: "reliable (ref_env idx)"
  by (simp add: reliable_def)

lemma ref_env_apart: "V = fst \<Longrightarrow> V (snd (mc_insert_one (ref_mongo idx) c d w)) = V w"
  by (simp add: ref_mongo_def on_mongo_def split: prod.splits)

lemma on_mongo_fst [simp]: "fst (snd (on_mongo m w)) = fst w"
  by (simp add: on_mongo_def split: prod.splits)

end
