(* ===== verification/Image_Properties.thy ===== *)
theory Image_Properties
  imports Image_Reconcile Image_Load Image_Service Service_Reference
begin

text \<open>
  The claims about the image indexer. \<open>V w\<close> is the Redis keyspace of the world and \<open>M w\<close> the MongoDB
  database; the witnesses run in the reference world.
\<close>

lemma ref_mongo_apart: "mongo_apart fst (ref_mongo idx)"
  by (simp add: mongo_apart_def ref_mongo_def)

abbreviation no_docs :: mdb where "no_docs \<equiv> \<lambda>_. []"

section \<open>The queue protocol\<close>

text \<open>
  C9. Once a newer owner has been granted the queue, nothing an earlier worker runs ever changes
  Redis again: neither its queue scripts nor an acknowledgement.
\<close>

theorem image_overtaken_worker:
  assumes "n < epoch_of image_keys db" and "qsteps image_messages image_keys db db'"
  shows "run_op image_messages image_keys token n op db' = db' \<and>
    snd (ack_script mem_redis (owner_text token n) (show_nat n) a db') = db'"
proof -
  have "n < epoch_of image_keys db'" using assms image_queue.qsteps_epoch [OF assms(2)] by simp
  then have "\<not> owns image_keys token n db'" using owns_epoch by fastforce
  then have "snd (ack_script mem_redis (owner_text token n) (show_nat n) a db') = db'"
    using ack_script_refused ack_script_effect(1) by (metis prod.collapse)
  then show ?thesis using image_queue.overtaken_worker [OF assms] by simp
qed

definition epoch_2 :: rdb where
  "epoch_2 = [py ''image_indexer_queue:fence_epoch'' \<mapsto> RStr (py ''2''), py ''image_indexer_queue'' \<mapsto> RList [py ''a'']]"

theorem image_overtaken_worker_witness:
  "run_op image_messages image_keys (py ''old'') 1 Claim epoch_2 = epoch_2 \<and>
   snd (ack_script mem_redis (owner_text (py ''old'') 1) (show_nat 1)
     \<lparr>aa_manifest = [], aa_payloads = [], aa_serialized = [], aa_count = 0, aa_publication = [], aa_page = [], aa_values = []\<rparr>
     epoch_2) = epoch_2"
proof (rule image_overtaken_worker)
  show "1 < epoch_of image_keys epoch_2"
    by (simp add: epoch_of_def image_keys_def epoch_2_def decimal_value_def py_def)
qed simp

text \<open>
  Epochs are granted in strictly increasing order, and a grant takes the queue from the earlier
  owner for good: of two grants the later one owns the queue and the earlier one does not.
\<close>

theorem image_epochs_increase:
  assumes "image_acquire_script mem_redis t1 db = (Inr (Some e1), db1)"
    and "qsteps image_messages image_keys db1 db2"
    and "image_acquire_script mem_redis t2 db2 = (Inr (Some e2), db3)"
  shows "decimal_value e1 < decimal_value e2 \<and> owns image_keys t2 (decimal_value e2) db3 \<and>
    \<not> owns image_keys t1 (decimal_value e1) db3"
proof -
  note g1 = image_queue.acquire_granted [OF assms(1) [unfolded image_acquire_script_def]]
  note g2 = image_queue.acquire_granted [OF assms(3) [unfolded image_acquire_script_def]]
  have e: "decimal_value e1 = epoch_of image_keys db1" "decimal_value e2 = epoch_of image_keys db3"
    using g1(2,3) g2(2,3) by simp_all
  have less: "decimal_value e1 < decimal_value e2"
    using image_queue.qsteps_epoch [OF assms(2)] g2(3) e by simp
  have own: "owns image_keys t2 (decimal_value e2) db3" using g2(4) e(2) by simp
  have "\<not> owns image_keys t1 (decimal_value e1) db3"
  proof
    assume "owns image_keys t1 (decimal_value e1) db3"
    from owns_unique [OF this own] less show False by simp
  qed
  with less own show ?thesis by simp
qed

lemma show_nat_small: "n < 10 \<Longrightarrow> show_nat n = [48 + n]"
  by (simp add: show_nat.simps)

lemma acquire_empty:
  "image_acquire_script mem_redis t Map.empty =
     (Inr (Some [49]), [qk_epoch image_keys \<mapsto> RStr [49], qk_lock image_keys \<mapsto> RStr (t @ [58, 49])])"
  by (simp add: image_acquire_script_def acquire_script_def check_run bind_eq redis_read_defs image_keys_def
      show_nat_small)

lemma acquire_second:
  "image_acquire_script mem_redis t [qk_epoch image_keys \<mapsto> RStr [49]] =
     (Inr (Some [50]), [qk_epoch image_keys \<mapsto> RStr [50], qk_lock image_keys \<mapsto> RStr (t @ [58, 50])])"
  by (simp add: image_acquire_script_def acquire_script_def check_run bind_eq redis_read_defs image_keys_def
      positive_decimal_def ascii_digit_def decimal_value_def MAX_LUA_INTEGER_def show_nat_small)

theorem image_epochs_increase_witness: "decimal_value [49] < decimal_value [50] \<and>
    owns image_keys (py ''b'') (decimal_value [50])
      [qk_epoch image_keys \<mapsto> RStr [50], qk_lock image_keys \<mapsto> RStr (py ''b'' @ [58, 50])] \<and>
    \<not> owns image_keys (py ''a'') (decimal_value [49])
      [qk_epoch image_keys \<mapsto> RStr [50], qk_lock image_keys \<mapsto> RStr (py ''b'' @ [58, 50])]"
proof (rule image_epochs_increase [OF acquire_empty _ acquire_second])
  have "[qk_epoch image_keys \<mapsto> RStr [49], qk_lock image_keys \<mapsto> RStr (py ''a'' @ [58, 49])](qk_lock image_keys := None)
      = [qk_epoch image_keys \<mapsto> RStr [49]]"
    by (auto simp: image_keys_def)
  then show "qsteps image_messages image_keys
      [qk_epoch image_keys \<mapsto> RStr [49], qk_lock image_keys \<mapsto> RStr (py ''a'' @ [58, 49])] [qk_epoch image_keys \<mapsto> RStr [49]]"
    using qstep.expire by (metis r_into_rtranclp)
qed


text \<open>
  C11. The image indexer refines the queue protocol: whatever it does to Redis, in a run of any length
  and with any failures, is a sequence of protocol steps; in particular the epoch never decreases.
\<close>

theorem image_run_indexer_conforms:
  assumes "redis_documented (rc_cmds env) V" and "net_within (by_steps V image_messages image_keys) env"
    and "mongo_apart V (mg_cmds env)"
    and "image_run_indexer env cl connected fuel w = (r, w')"
  shows "qsteps image_messages image_keys (V w) (V w') \<and> epoch_of image_keys (V w) \<le> epoch_of image_keys (V w')"
proof -
  have "by_steps V image_messages image_keys w w'"
    by (rule keepsD [OF image_conformance(2) [OF assms(1-3)] assms(4)])
  then show ?thesis using image_queue.qsteps_epoch by (simp add: by_steps_def)
qed

theorem image_run_indexer_conforms_witness:
  "qsteps image_messages image_keys (fst (epoch_2, no_docs))
     (fst (snd (image_run_indexer (ref_env image_indexes) ref_client True 3 (epoch_2, no_docs)))) \<and>
   epoch_of image_keys (fst (epoch_2, no_docs)) \<le>
     epoch_of image_keys (fst (snd (image_run_indexer (ref_env image_indexes) ref_client True 3 (epoch_2, no_docs))))"
proof (rule image_run_indexer_conforms [where env = "ref_env image_indexes" and V = fst and cl = ref_client
      and connected = True and fuel = 3 and w = "(epoch_2, no_docs)"])
  show "redis_documented (rc_cmds (ref_env image_indexes)) fst"
    by (simp add: ref_redis_documented)
  show "net_within (by_steps fst image_messages image_keys) (ref_env image_indexes)"
    by (intro ref_net_within steps.rel_refl)
  show "mongo_apart fst (mg_cmds (ref_env image_indexes))"
    by (simp add: ref_mongo_apart)
  show "image_run_indexer (ref_env image_indexes) ref_client True 3 (epoch_2, no_docs) =
      (fst (image_run_indexer (ref_env image_indexes) ref_client True 3 (epoch_2, no_docs)),
       snd (image_run_indexer (ref_env image_indexes) ref_client True 3 (epoch_2, no_docs)))"
    by (rule prod.collapse [symmetric])
qed

text \<open>
  C12. Recovery ends and restores the order: an undisturbed owner with more rounds than full batches
  moves every abandoned claim back to the head of the line, losing none.
\<close>

theorem image_recovery_complete:
  assumes "redis_documented (rc_cmds env) V" and "reliable env" and "rc_connected cl"
    and "rc_owner_epoch cl = Some n" and "utf8_encode (rc_owner_token cl) = Some t"
    and "owns image_keys t n (V w)" and "lists_ok image_keys (V w)"
    and "length (claimed image_keys (V w)) < fuel * IMAGE_RECOVERY_BATCH_SIZE"
  shows "\<exists>w'. image_recover_claims env fuel cl w = (Inr (Some True), w') \<and> claimed image_keys (V w') = [] \<and>
    queued image_keys (V w') = queued image_keys (V w) @ claimed image_keys (V w)"
proof -
  have b: "1 \<le> IMAGE_RECOVERY_BATCH_SIZE" "IMAGE_RECOVERY_BATCH_SIZE \<le> 1000"
    by (simp_all add: IMAGE_RECOVERY_BATCH_SIZE_def)
  show ?thesis
    using image_queue.recover_batches_empties [OF assms(1-5) b assms(6-8), of image_messages]
    unfolding image_recover_claims_def image_renew_owner_def image_renew_lock_def image_recover_def by auto
qed

definition crashed :: rdb where
  "crashed =
     [qk_epoch image_keys \<mapsto> RStr [49], qk_lock image_keys \<mapsto> RStr (py ''worker'' @ [58, 49]),
      qk_queue image_keys \<mapsto> RList [py ''new''], qk_processing image_keys \<mapsto> RList [py ''b'', py ''a'']]"

lemma crashed_facts:
  "owns image_keys (py ''worker'') 1 crashed" "lists_ok image_keys crashed"
  "queued image_keys crashed = [py ''new'']" "claimed image_keys crashed = [py ''b'', py ''a'']"
  by (simp_all add: crashed_def owns_def owner_types_def owner_matches_def owner_text_def show_nat_small lists_ok_def
      queued_def claimed_def image_keys_def)

theorem image_recovery_complete_witness:
  "\<exists>w'. image_recover_claims (ref_env image_indexes) 1 ref_client (crashed, no_docs) = (Inr (Some True), w') \<and>
     claimed image_keys (fst w') = [] \<and> queued image_keys (fst w') = [py ''new''] @ [py ''b'', py ''a'']"
proof -
  have "utf8_encode (py ''worker'') = Some (py ''worker'')"
    by (rule utf8_encode_ascii) (simp add: py_def is_ascii_def)
  then show ?thesis
    using image_recovery_complete [of "ref_env image_indexes" fst ref_client 1 "py ''worker''" "(crashed, no_docs)" 1]
      crashed_facts ref_redis_documented ref_reliable
    by (simp add: ref_client_def IMAGE_RECOVERY_BATCH_SIZE_def)
qed

text \<open>
  C13. A queue value that is not UTF-8 blocks the service for good and is never quarantined: when it is next in line, the
  service claims it, fails to decode it and exits with 1, leaving it claimed; and so does every restart, which first
  recovers it to the head of the line. The rest of the line and the dead letters stay as they are.
\<close>

theorem undecodable_claim_stays:
  assumes "redis_documented (rc_cmds env) V" and "reliable env" and "net_within (\<lambda>w w'. V w' = V w) env"
    and "rc_connected cl" and "utf8_encode (rc_owner_token cl) = Some t"
    and "V w (qk_lock image_keys) = None" and "epoch_usable image_keys (V w)" and "lists_ok image_keys (V w)"
    and "work_line image_keys (V w) = xs @ [c]" and "utf8_decode c = None"
    and "length (claimed image_keys (V w)) < fuel * IMAGE_RECOVERY_BATCH_SIZE"
    and "epoch_of image_keys (V w) + restarts < MAX_LUA_INTEGER"
  shows "\<exists>v. image_run_indexer env cl connected fuel
        (((\<lambda>v. snd (image_run_indexer env cl connected fuel v)) ^^ restarts) w) = (Inr (Some 1), v) \<and>
     queued image_keys (V v) = xs \<and> claimed image_keys (V v) = [c] \<and> dead image_keys (V v) = dead image_keys (V w)"
proof -
  let ?u = "((\<lambda>v. snd (image_run_indexer env cl connected fuel v)) ^^ restarts) w"
  note u = undecodable_restarts [OF assms(1-11) refl assms(12) refl]
  have "wp (image_run_indexer env cl connected fuel)
    (\<lambda>r v. r = Some 1 \<and> queued image_keys (V v) = xs \<and> claimed image_keys (V v) = [c] \<and>
       dead image_keys (V v) = dead image_keys (V w)) (\<lambda>_ _. False) ?u"
    using u by (intro wp_call [OF wp_image_run_undecodable [OF assms(1-5) _ _ _ _ assms(10)]]) auto
  then show ?thesis by (auto simp: wp_def split: prod.splits sum.splits)
qed

definition poisoned :: rdb where
  "poisoned = [qk_epoch image_keys \<mapsto> RStr [49], qk_queue image_keys \<mapsto> RList [py ''next'', [255]]]"

theorem undecodable_claim_stays_witness:
  "\<exists>v. image_run_indexer (ref_env image_indexes) ref_client True 1
      (((\<lambda>v. snd (image_run_indexer (ref_env image_indexes) ref_client True 1 v)) ^^ 2) (poisoned, no_docs)) = (Inr (Some 1), v) \<and>
     queued image_keys (fst v) = [py ''next''] \<and> claimed image_keys (fst v) = [[255]]"
proof -
  have doc: "redis_documented (rc_cmds (ref_env image_indexes)) fst" by (simp add: ref_redis_documented)
  have net: "net_within (\<lambda>w w'. fst w' = fst w) (ref_env image_indexes)" by (simp add: ref_net_within)
  have cl: "rc_connected ref_client" "utf8_encode (rc_owner_token ref_client) = Some (py ''worker'')"
    using utf8_encode_ascii [of "py ''worker''"] by (simp_all add: ref_client_def py_def is_ascii_def)
  have start: "fst (poisoned, no_docs) (qk_lock image_keys) = None" "epoch_usable image_keys (fst (poisoned, no_docs))"
    "lists_ok image_keys (fst (poisoned, no_docs))" "work_line image_keys (fst (poisoned, no_docs)) = [py ''next''] @ [[255]]"
    "length (claimed image_keys (fst (poisoned, no_docs))) < 1 * IMAGE_RECOVERY_BATCH_SIZE"
    "epoch_of image_keys (fst (poisoned, no_docs)) + 2 < MAX_LUA_INTEGER"
    by (simp_all add: poisoned_def epoch_usable_def positive_decimal_def ascii_digit_def decimal_value_def MAX_LUA_INTEGER_def
        lists_ok_def work_line_def queued_def claimed_def epoch_of_def image_keys_def IMAGE_RECOVERY_BATCH_SIZE_def)
  have bad: "utf8_decode [255] = None" by (simp add: utf8_decode.simps)
  show ?thesis
    using undecodable_claim_stays [OF doc ref_reliable net cl start(1-4) bad start(5,6), of True] by blast
qed

section \<open>Publications\<close>

text \<open>
  Parsing a manifest key inverts making one: a text is accepted exactly when it is the prefix, a
  publication identifier and the base64url of a non-empty URL of at most 2048 bytes, and then these
  are what is returned.
\<close>

theorem manifest_key_roundtrip:
  "parse_manifest_key key = Inr (publication_id, url, encoded) \<longleftrightarrow>
     publication_id_ok publication_id \<and> key_url_ok url \<and> encode_key_url url = Some encoded \<and>
     key = manifest_key_text publication_id encoded"
  by (rule parse_manifest_key_iff)

text \<open>A publication of one image, as the spider writes it.\<close>

definition wit_publication :: pystr where "wit_publication = replicate 64 97"
definition wit_key :: pystr where "wit_key = manifest_key_text wit_publication (py ''dQ'')"
definition wit_payload_key :: pystr where
  "wit_payload_key = payload_key_text wit_publication (py ''dQ'') (py ''cw'')"

definition wit_manifest :: "(bytes, bytes) dict" where
  "wit_manifest =
     [(py ''contract_version'', py ''1''), (py ''publication_id'', wit_publication), (py ''normalized_url'', py ''u''),
      (py ''image_count'', py ''1''), (py ''image_keys'', json_dumps_texts [wit_payload_key])]"

definition wit_payload :: "(bytes, bytes) dict" where
  "wit_payload =
     [(py ''contract_version'', py ''1''), (py ''publication_id'', wit_publication), (py ''normalized_page_url'', py ''u''),
      (py ''normalized_source_url'', py ''s''), (py ''alt'', py ''a cat'')]"

definition published :: rdb where
  "published =
     [qk_epoch image_keys \<mapsto> RStr [49], qk_lock image_keys \<mapsto> RStr (py ''worker'' @ [58, 49]),
      qk_processing image_keys \<mapsto> RList [wit_key], wit_key \<mapsto> RHash wit_manifest, wit_payload_key \<mapsto> RHash wit_payload]"

definition wit_image :: image where
  "wit_image =
     \<lparr>im_id = sha256_hex (py ''u'' @ [0] @ py ''s''), im_source_url = py ''s'', im_page_url = py ''u'',
      im_alt = py ''a cat'', im_filename = py ''s''\<rparr>"

definition wit_work :: image_work where
  "wit_work =
     \<lparr>iw_manifest_key = wit_key, iw_publication_id = wit_publication, iw_page_url = py ''u'',
      iw_payload_keys = [wit_payload_key], iw_images = [wit_image],
      iw_serialized_keys = json_dumps_texts [wit_payload_key]\<rparr>"

lemma ascii_texts [simp]:
  "utf8_encode (py ''u'') = Some (py ''u'')" "utf8_encode (py ''s'') = Some (py ''s'')"
  "utf8_encode (py ''a cat'') = Some (py ''a cat'')" "utf8_encode (py ''1'') = Some (py ''1'')"
  "utf8_encode (py ''u'' @ [0] @ py ''s'') = Some (py ''u'' @ [0] @ py ''s'')"
  "utf8_encode (py ''worker'') = Some (py ''worker'')"
  by (rule utf8_encode_ascii, simp add: py_def is_ascii_def)+

lemma wit_publication_ok: "publication_id_ok wit_publication"
  by (simp add: publication_id_ok_def wit_publication_def list_all_iff)

lemma wit_urls:
  "encode_key_url (py ''u'') = Some (py ''dQ'')" "encode_key_url (py ''s'') = Some (py ''cw'')"
  "key_url_ok (py ''u'')" "key_url_ok (py ''s'')"
  by (simp_all add: encode_key_url_def key_url_ok_def MAX_KEY_URL_BYTES_def)
    (simp_all add: py_def b64url_encode_def b64_char_def)

lemma wit_keys_parsed:
  "parse_manifest_key wit_key = Inr (wit_publication, py ''u'', py ''dQ'')"
  "check_payload_key wit_publication (py ''u'') (py ''dQ'') wit_payload_key = Inr (py ''s'')"
  using wit_publication_ok wit_urls
  by (simp_all add: parse_manifest_key_iff wit_key_def check_payload_key_iff wit_payload_key_def)

lemma wit_ascii:
  "is_ascii wit_key" "is_ascii wit_payload_key" "plain wit_payload_key" "is_ascii wit_publication"
  by (simp_all add: wit_key_def wit_payload_key_def manifest_key_text_def payload_key_text_def wit_publication_def
      image_constants py_def is_ascii_def plain_def list_all_iff)

lemma wit_serialized: "json_dumps_texts [wit_payload_key] = [91, 34] @ wit_payload_key @ [34, 93]"
  by (simp add: json_dumps_texts_def dump_plain wit_ascii(3))

lemma wit_encoded [simp]:
  "utf8_encode wit_key = Some wit_key" "utf8_encode wit_payload_key = Some wit_payload_key"
  "utf8_encode wit_publication = Some wit_publication"
  "utf8_encode (json_dumps_texts [wit_payload_key]) = Some (json_dumps_texts [wit_payload_key])"
  using wit_ascii by (auto simp: utf8_encode_ascii wit_serialized simp del: utf8_encode.simps)

lemma wit_decoded:
  "decode_pairs wit_manifest = Inr wit_manifest" "decode_pairs wit_payload = Inr wit_payload"
  by (simp_all add: decode_pairs_def wit_manifest_def wit_payload_def decode_reply_def utf8_decode_encode
      utf8_decode_ascii wit_encoded [THEN utf8_decode_encode] ascii_texts [THEN utf8_decode_encode]
      py_def is_ascii_def)

lemma wit_entries:
  "manifest_entries wit_manifest wit_publication (py ''u'') (py ''dQ'') = Inr ([wit_payload_key], [py ''s''])"
proof -
  have len: "length (json_dumps_texts [wit_payload_key]) \<le> MAX_MANIFEST_BYTES"
    unfolding wit_serialized
    by (simp add: wit_payload_key_def payload_key_text_def wit_publication_def image_constants)
  have cnt: "canonical_count (py ''1'') = Some 1"
    by (simp add: canonical_count_def py_def ascii_digit_def decimal_value_def show_nat_small)
  have loads: "json_loads (json_dumps_texts [wit_payload_key]) = Some (JArray [JString wit_payload_key])"
    using json_loads_dumps [of "[wit_payload_key]"] wit_ascii(3) by simp
  show ?thesis
    using len cnt loads wit_keys_parsed(2)
    by (simp add: manifest_entries_def wit_manifest_def manifest_fields_def part_size_def MAX_IMAGES_PER_PAGE_def insert_commute)
qed

lemma wit_loaded: "load_image u wit_publication (py ''u'') (wit_payload, py ''s'') = Inr wit_image"
proof -
  have "image_filename u (py ''s'') = Inr (py ''s'')"
    by (simp add: image_filename_def urlsplit_def split_scheme_def url_cleanup_def scheme_char_def nfkc_safe_def
        partition_at_def rpartition_at_def starts_with_def py_def is_ascii_def is_control_def py_strip_def is_space_def
        utf8_replace.simps)
  then show ?thesis
    using ascii_texts
    by (simp add: load_image_def image_from_contract_def wit_payload_def payload_fields_def association_id_def
        sha256_text_def part_size_def wit_image_def MAX_IMAGE_ALT_BYTES_def insert_commute Let_def)
qed

lemma published_at [simp]:
  "published wit_key = Some (RHash wit_manifest)" "published wit_payload_key = Some (RHash wit_payload)"
  "published (qk_processing image_keys) = Some (RList [wit_key])"
  "published (qk_lock image_keys) = Some (RStr (owner_text (py ''worker'') 1))"
  "published (qk_epoch image_keys) = Some (RStr (show_nat 1))"
  by (simp_all add: published_def image_keys_def wit_key_def wit_payload_key_def manifest_key_text_def
      payload_key_text_def image_constants py_def owner_text_def show_nat_small)

lemma ref_redis_reads [simp]:
  "c_type ref_redis k w = type_of (fst w k)" "c_get ref_redis k w = str_of (fst w k)"
  "c_lrange ref_redis k w = list_of (fst w k)" "c_hgetall ref_redis k w = hash_of (fst w k)"
  by (simp_all add: ref_redis_def)

lemma wit_loads:
  "image_load_work (ref_env idx) u ref_client wit_key (published, no_docs) = (Inr wit_work, (published, no_docs))"
proof -
  have p: "payload_preflight_script ref_redis [wit_payload_key] MAX_IMAGE_ALT_BYTES MAX_KEY_URL_BYTES (published, no_docs)
      = (Inr 1, (published, no_docs))"
    by (simp add: payload_preflight_script_def check_run bind_eq redis_read_defs wit_payload_def
        MAX_IMAGE_ALT_BYTES_def MAX_KEY_URL_BYTES_def)
  have m: "manifest_preflight_script ref_redis wit_key MAX_MANIFEST_BYTES (published, no_docs) = (Inr 1, (published, no_docs))"
  proof -
    have "length (json_dumps_texts [wit_payload_key]) \<le> MAX_MANIFEST_BYTES"
      unfolding wit_serialized
      by (simp add: wit_payload_key_def payload_key_text_def wit_publication_def image_constants)
    then show ?thesis
      by (simp add: manifest_preflight_script_def check_run bind_eq redis_read_defs wit_manifest_def)
  qed
  have h: "hgetall_text (ref_env idx) wit_key (published, no_docs) = (Inr wit_manifest, (published, no_docs))"
    "hgetall_text (ref_env idx) wit_payload_key (published, no_docs) = (Inr wit_payload, (published, no_docs))"
    by (simp_all add: hgetall_text_def call_server_def hgetall_cmd_def check_run bind_eq wit_decoded)
  show ?thesis
    by (simp add: image_load_work_def require_client_def ref_client_def wit_keys_parsed encode_arg_def bind_eq
        on_response_error_def catch_def call_server_def m h wit_entries load_payloads_def p wit_loaded wit_work_def)
qed

text \<open>
  C14. A publication is loaded exactly when it is stored as the spider writes it: the manifest is a hash of just the
  contract version, the publication and the page of its key, the number of the images and the canonical list of their
  keys; each payload is a hash of just the contract version, the same publication and page, a source URL and an
  alternative text; the keys are those of the publication, the page and the sources, in strictly increasing source order
  and within the bounds. The loaded work item has these values, and Redis is unchanged.
\<close>

theorem image_load_work_exact:
  assumes "redis_documented (rc_cmds env) V" and "reliable env" and "rc_connected cl"
  shows "image_load_work env u cl manifest_key w = (Inr work, w') \<longleftrightarrow>
     w' = w \<and> iw_manifest_key work = manifest_key \<and> work_ok work \<and> publication_stored u (V w) work"
  by (rule image_load_work_iff [OF assms])

theorem image_load_work_exact_witness:
  "work_ok wit_work \<and> iw_manifest_key wit_work = wit_key \<and> (\<forall>u. publication_stored u published wit_work)"
proof -
  have doc: "redis_documented (rc_cmds (ref_env image_indexes)) fst" by (simp add: ref_redis_documented)
  have "rc_connected ref_client" by (simp add: ref_client_def)
  note load = image_load_work_exact [OF doc ref_reliable this, of _ wit_key "(published, no_docs)" wit_work "(published, no_docs)"]
  have "work_ok wit_work \<and> iw_manifest_key wit_work = wit_key \<and> publication_stored u published wit_work" for u
    using load [of u] by (simp add: wit_loads)
  then show ?thesis by blast
qed

text \<open>
  C15. An acknowledgement that succeeds removed one occurrence of the claim, the manifest and the
  payloads, all of which were there, and changed no other key.
\<close>

theorem image_ack_exact:
  assumes "redis_documented (rc_cmds env) V" and "rc_net env w = (Delivered, v)"
    and "ack_arguments work = Inr a" and "image_ack env cl work w = (Inr True, w')"
  shows "aa_manifest a \<in> set (claimed image_keys (V v)) \<and>
    claimed image_keys (V w') = remove1 (aa_manifest a) (claimed image_keys (V v)) \<and>
    (\<forall>k. V w' k = (if k \<in> set (aa_manifest a # aa_payloads a) then None
                   else if k = qk_processing image_keys then V w' k else V v k))"
proof -
  obtain n where n: "rc_owner_epoch cl = Some n"
    using assms(4) by (cases "rc_owner_epoch cl")
      (auto simp: image_ack_def call_as_owner_def owner_value_def bind_Inr_iff)
  obtain owner where o: "utf8_encode (rc_owner_token cl @ [58] @ show_nat n) = Some owner"
    and run: "ack_script (rc_cmds env) owner (show_nat n) a v = (Inr 1, w')"
    using assms(2-4) n
    by (auto simp: image_ack_def call_as_owner_def owner_value_def encode_arg_def call_server_def
        require_client_def bind_Inr_iff split: option.splits if_splits)
  obtain t where t: "owner = owner_text t n" by (rule owner_encoding [OF o])
  from simulatesD [OF simulates_ack [OF assms(1)] run]
  have "ack_script mem_redis (owner_text t n) (show_nat n) a (V v) = (Inr 1, V w')" by (simp add: t)
  from ack_script_effect(2-5) [OF this] show ?thesis by auto
qed

definition wit_args :: ack_args where
  "wit_args =
     \<lparr>aa_manifest = wit_key, aa_payloads = [wit_payload_key], aa_serialized = json_dumps_texts [wit_payload_key],
      aa_count = 1, aa_publication = wit_publication, aa_page = py ''u'', aa_values = [(py ''s'', py ''a cat'')]\<rparr>"

lemma wit_ack_arguments: "ack_arguments wit_work = Inr wit_args"
  by (simp add: ack_arguments_def wit_work_def encode_arg_def wit_image_def wit_args_def)

lemma wit_acks: "\<exists>db. image_ack (ref_env idx) ref_client wit_work (published, no_docs) = (Inr True, (db, no_docs))"
proof -
  have o: "call_as_owner (ref_env idx) ref_client script w = script (owner_text (py ''worker'') 1) (show_nat 1) w" for script w
  proof -
    have "utf8_encode (py ''worker'' @ [58] @ show_nat 1) = Some (py ''worker'' @ [58] @ show_nat 1)"
      by (rule utf8_encode_ascii) (simp add: py_def is_ascii_def show_nat_small)
    then show ?thesis
      by (simp add: call_as_owner_def owner_value_def ref_client_def encode_arg_def call_server_def bind_eq owner_text_def)
  qed
  have "\<exists>db. ack_script ref_redis (owner_text (py ''worker'') 1) (show_nat 1) wit_args (published, no_docs) = (Inr 1, (db, no_docs))"
    by (simp add: ack_script_def wit_args_def check_run bind_eq require_owner_def owner_types_def owner_matches_def
        redis_read_defs wit_manifest_def wit_payload_def ref_redis_def show_nat_small)
      (simp add: py_def)
  then show ?thesis
    by (auto simp: image_ack_def require_client_def wit_ack_arguments o bind_eq) (simp add: ref_client_def)
qed

theorem image_ack_exact_witness:
  "\<exists>w'. image_ack (ref_env image_indexes) ref_client wit_work (published, no_docs) = (Inr True, w') \<and>
    wit_key \<in> set (claimed image_keys published) \<and>
    claimed image_keys (fst w') = remove1 wit_key (claimed image_keys published) \<and> fst w' wit_payload_key = None"
proof -
  obtain db where run: "image_ack (ref_env image_indexes) ref_client wit_work (published, no_docs) = (Inr True, (db, no_docs))"
    using wit_acks by blast
  have "redis_documented (rc_cmds (ref_env image_indexes)) fst" by (simp add: ref_redis_documented)
  from image_ack_exact [OF this _ wit_ack_arguments run, of "(published, no_docs)"] run show ?thesis
    by (auto simp: wit_args_def)
qed

section \<open>Reconciliation\<close>

text \<open>
  C16. Fencing: whatever happens during a reconciliation and however it ends, no document of a newer
  epoch in the collections of the page is changed or deleted by it.
\<close>

theorem replace_page_images_fenced:
  assumes "service_mongo_documented (mg_cmds env) M idx" and "net_within (spares M page_collections (newer n)) env"
    and "keeps (spares M page_collections (newer n)) owner_check"
    and "replace_page_images env t connected url p images keywords n token owner_check w = (r, w')"
    and "coll \<in> page_collections" and "d \<in> set (M w coll)" and "newer n d"
  shows "d \<in> set (M w' coll)"
  using keepsD [OF replace_page_images_spares [OF assms(1-3)] assms(4)] assms(5-7) by (auto simp: spares_def)

definition newer_image :: doc where
  "newer_image = [(py ''_id'', BStr (py ''n'')), (py ''page_url'', BStr (py ''u'')), (py ''fence_epoch'', BInt 9)]"

definition stale_image :: doc where
  "stale_image = [(py ''_id'', BStr (py ''o'')), (py ''page_url'', BStr (py ''u'')), (py ''fence_epoch'', BInt 1)]"

definition locked_db :: mdb where
  "locked_db =
     (\<lambda>_. [])(CANONICAL_LOCKS_COLLECTION := [lock_document ''image-indexer'' (py ''u'') (py ''token'') wit_publication 2 0],
             IMAGE_COLLECTION := [stale_image, newer_image])"

abbreviation wit_replace :: "ref_world \<Rightarrow> (exn + bool) \<times> ref_world" where
  "wit_replace \<equiv> replace_page_images (ref_env image_indexes) (\<lambda>s. s) True (py ''u'') wit_publication [wit_image] [] 2
     (py ''token'') (ret True)"

theorem replace_page_images_fenced_witness:
  "newer_image \<in> set (snd (snd (wit_replace (Map.empty, locked_db))) IMAGE_COLLECTION)"
proof -
  let ?env = "ref_env image_indexes" and ?R = "spares snd page_collections (newer 2)"
  have doc: "service_mongo_documented (mg_cmds ?env) snd image_indexes" by (simp add: ref_mongo_documented)
  have net: "net_within ?R ?env" by (intro ref_net_within spared.rel_refl)
  have check: "keeps ?R (ret True)" by (rule spared.keeps_pure)
  have run: "wit_replace (Map.empty, locked_db) =
      (fst (wit_replace (Map.empty, locked_db)), snd (wit_replace (Map.empty, locked_db)))" by simp
  have mem: "IMAGE_COLLECTION \<in> page_collections" "newer_image \<in> set (snd (Map.empty :: rdb, locked_db) IMAGE_COLLECTION)"
      "newer 2 newer_image"
    by (simp_all add: page_collections_def locked_db_def newer_def newer_image_def value_lte_def)
  show ?thesis by (rule replace_page_images_fenced [OF doc net check run mem])
qed

text \<open>
  C17. A reconciliation that returns \<open>True\<close> while nobody else writes leaves the state document of the
  publication, one image document per image with its fields, one word document per word of each
  image with its weight, and no other document of the page except newer ones.
\<close>

theorem replace_page_images_exact:
  assumes "service_mongo_documented (mg_cmds env) M idx" and "undisturbed M env"
    and "\<And>w r v. owner_check w = (r, v) \<Longrightarrow> M v = M w" and "distinct (map fst keywords)"
    and "replace_page_images env t connected url p images keywords n token owner_check w = (Inr True, w')"
  shows "page_state_document url p images n \<in> set (M w' IMAGE_PAGE_STATE_COLLECTION) \<and>
    images_reconciled url p images n (M w' IMAGE_COLLECTION) \<and>
    (\<exists>rows. image_words t keywords images = Inr rows \<and> words_reconciled url p rows n (M w' WORD_IMAGES_COLLECTION))"
proof -
  let ?current = "publication_is_current env connected url token n owner_check"
  have ids: "distinct (map im_id images)"
    and run: "reconcile_body env t ?current url p images keywords n w = (Inr True, w')"
    using assms(5) by (auto simp: replace_page_images_def bind_Inr_iff catch_Inr_iff split: if_splits)
  have "keeps (\<lambda>w w'. M w' = M w) owner_check" using assms(3) by (simp add: keeps_def)
  then have cur: "\<And>b w r v. ?current b w = (r, v) \<Longrightarrow> M v = M w"
    using keepsD [OF untouched.keeps_publication_is_current [OF assms(2) [unfolded undisturbed_def]]] by blast
  show ?thesis by (intro conjI; rule reconcile_body_True [OF assms(1,2) cur ids assms(4) run])
qed

lemma wit_words:
  "split_name (\<lambda>s. s) (py ''s'') = Inr [py ''s'']" "split_name (\<lambda>s. s) (py ''a cat'') = Inr [py ''a'', py ''cat'']"
  by (simp_all add: split_name_def pieces_def name_separator_def is_space_def py_def part_size_def
      utf8_char_def name_word_ok_def lower_text_def is_ascii_def lower_ascii_def ascii_upper_def FILE_TYPES_def has_sub_def starts_with_def
      upt_rec)


definition lock_only :: mdb where
  "lock_only = no_docs(CANONICAL_LOCKS_COLLECTION := [lock_document ''image-indexer'' (py ''u'') (py ''token'') wit_publication 2 0])"

lemma batches_small: "batches [] = []" "length xs < 500 \<Longrightarrow> batches (x # xs) = [x # xs]"
  by (simp_all add: batches_def MONGO_BATCH_SIZE_def)

lemmas wit_db_eval =
  replace_page_images_def foreign_image.simps association_id_def sha256_text_def
  reconcile_body_def guarded_def acked_def with_filter_def fenced_filter_def
  publication_is_current_def owns_canonical_def lock_filter_def page_epoch_is_current_def
  find_one_def distinct_values_def delete_many_def replace_one_def bulk_write_def bulk_write_current_def
  batches_small write_batches.simps call_mongo_def get_state_def ref_mongo_def mem_service_mongo_def on_mongo_def mem_write_def mem_delete_def
  mem_bulk_def coll_replace_def coll_insert_def coll_update_def coll_put_def delete_all_def conflicts_def
  field_matches_def value_matches_def value_lte_def project_def written_def lock_only_def lock_document_def
  page_state_document_def image_operation_def image_fields_def word_operation_def word_fields_def
  image_words_def word_weights_def add_metadata_word_def stale_images_filter_def stale_words_filter_def
  set_fields_def upsert_doc_def require_def doc_fits_def ret_def bind_def lift_def catch_def 
  image_indexes_def word_association_index_def id_index_def wit_words wit_image_def

lemma wit_foreign: "foreign_image (py ''u'') [wit_image] = Inr False"
  by (simp add: wit_image_def association_id_def sha256_text_def ascii_texts [simplified])

lemma wit_exact_run: "fst (reconcile_body (ref_env image_indexes) (\<lambda>s. s) (publication_is_current (ref_env image_indexes) True (py ''u'') (py ''token'') 2 (ret True))
     (py ''u'') wit_publication [wit_image] [] 2 (Map.empty, lock_only)) = Inr True"
  by (simp add: wit_db_eval image_collections py_def wit_words [unfolded py_def, simplified])

lemma wit_replace_run: "wit_replace (Map.empty, lock_only) = (Inr True, snd (wit_replace (Map.empty, lock_only)))"
proof -
  let ?m = "reconcile_body (ref_env image_indexes) (\<lambda>s. s)
    (publication_is_current (ref_env image_indexes) True (py ''u'') (py ''token'') 2 (ret True))
    (py ''u'') wit_publication [wit_image] [] 2"
  obtain v where "?m (Map.empty, lock_only) = (Inr True, v)"
    using wit_exact_run by (cases "?m (Map.empty, lock_only)") simp
  then show ?thesis
    by (simp add: replace_page_images_def wit_foreign lift_def bind_def catch_def del: foreign_image.simps)
qed

theorem replace_page_images_exact_witness:
  "page_state_document (py ''u'') wit_publication [wit_image] 2
     \<in> set (snd (snd (wit_replace (Map.empty, lock_only))) IMAGE_PAGE_STATE_COLLECTION)"
proof -
  have run: "wit_replace (Map.empty, lock_only) = (Inr True, snd (wit_replace (Map.empty, lock_only)))"
    by (rule wit_replace_run)
  have doc: "service_mongo_documented (mg_cmds (ref_env image_indexes)) snd image_indexes" by (simp add: ref_mongo_documented)
  have check: "\<And>w r v. ret True w = (r, v) \<Longrightarrow> snd v = snd w" by (simp add: ret_def)
  show ?thesis
    using replace_page_images_exact [OF doc ref_undisturbed check _ run] by simp
qed

text \<open>
  The keywords that page metadata lends to its images are at most 1000 words, each listed once.
\<close>

theorem get_keywords_bounded:
  assumes "get_keywords env t connected url w = (Inr keywords, w')"
  shows "length keywords \<le> 1000 \<and> distinct (map fst keywords)"
proof -
  have "keywords = [] \<or> (\<exists>kvs. keep_keywords t kvs [] = Inr keywords)"
  proof -
    obtain found v where
      "(case (case found of None \<Rightarrow> None | Some d \<Rightarrow> map_of d (py ''keywords'')) of
          Some (BDoc kvs) \<Rightarrow> lift (keep_keywords t kvs [])
        | _ \<Rightarrow> ret []) v = (Inr keywords, w')"
      using assms by (auto simp: get_keywords_def bind_Inr_iff split: if_splits)
    moreover have "keywords = [] \<or> (\<exists>kvs. keep_keywords t kvs [] = Inr keywords)"
      if "(case x of Some (BDoc kvs) \<Rightarrow> lift (keep_keywords t kvs []) | _ \<Rightarrow> ret []) v = (Inr keywords, w')" for x
      using that by (cases x rule: option.exhaust; simp add: lift_def ret_def split: bson.splits) auto
    ultimately show ?thesis by blast
  qed
  then show ?thesis
    by (auto simp: MAX_INDEX_WORDS_def dest: keep_keywords_bound keep_keywords_distinct)
qed

definition wit_metadata :: mdb where
  "wit_metadata = no_docs(METADATA_COLLECTION :=
     [[(py ''_id'', BStr (py ''u'')), (py ''keywords'', BDoc [(py ''A'', BInt 1), (py ''b'', BNull), (py ''a'', BInt 2)])]])"

lemma wit_keywords:
  "get_keywords (ref_env image_indexes) (\<lambda>s. s) True (py ''u'') (Map.empty, wit_metadata) =
     (Inr [(py ''a'', 2)], (Map.empty, wit_metadata))"
  by (simp add: get_keywords_def find_one_def call_mongo_def get_state_def ref_mongo_def mem_service_mongo_def field_matches_def
      wit_metadata_def project_def bind_def lift_def part_size_def utf8_char_def lower_text_def is_ascii_def
      lower_ascii_def ascii_upper_def MAX_INDEX_WORDS_def py_def)

theorem get_keywords_bounded_witness:
  "length [(py ''a'', 2 :: int)] \<le> 1000 \<and> distinct (map fst [(py ''a'', 2 :: int)])"
  by (rule get_keywords_bounded [OF wit_keywords])

end
