(* ===== verification/Py_Number.thy ===== *)
theory Py_Number
  imports Py_Text
begin

text \<open>
  Python's \<open>int(text)\<close> in base 10: surrounding white space, a sign, digits with single underscores
  between them, at most 4300 digits. A decimal digit beyond ASCII counts with its value; which
  characters those are is the interpreter's table, the argument \<open>digit\<close>.
\<close>

definition int_space :: "nat \<Rightarrow> bool" where
  "int_space c \<longleftrightarrow> c \<in> {9, 10, 11, 12, 13, 32} \<or> (128 \<le> c \<and> is_space c)"

definition digit_value :: "(nat \<Rightarrow> nat option) \<Rightarrow> nat \<Rightarrow> nat option" where
  "digit_value digit c = (if c < 128 then (if ascii_digit c then Some (c - 48) else None) else digit c)"

definition int_strip :: "pystr \<Rightarrow> pystr" where
  "int_strip s = rev (dropWhile int_space (rev (dropWhile int_space s)))"

definition int_sign :: "pystr \<Rightarrow> bool \<times> pystr" where
  "int_sign s = (case s of [] \<Rightarrow> (False, []) | c # r \<Rightarrow> if c = 45 then (True, r) else if c = 43 then (False, r) else (False, s))"

definition MAX_INT_DIGITS :: nat where "MAX_INT_DIGITS = 4300"

definition digits_value :: "nat list \<Rightarrow> nat" where
  "digits_value ds = foldl (\<lambda>n d. 10 * n + d) 0 ds"

definition py_int :: "(nat \<Rightarrow> nat option) \<Rightarrow> pystr \<Rightarrow> exn + int" where
  "py_int digit s =
     (case int_sign (int_strip s) of (negative, body) \<Rightarrow>
        let groups = split_on 95 body; ds = concat groups in
        if list_all (\<lambda>g. g \<noteq> []) groups \<and> list_all (\<lambda>c. digit_value digit c \<noteq> None) ds \<and> length ds \<le> MAX_INT_DIGITS
        then Inr ((if negative then -1 else 1) * int (digits_value (map (the \<circ> digit_value digit) ds)))
        else Inl (ValueError ''invalid literal for int() with base 10''))"

text \<open>A decimal numeral is read as its value.\<close>

lemma digits_value_ascii: "list_all ascii_digit s \<Longrightarrow> digits_value (map (the \<circ> digit_value digit) s) = decimal_value s"
proof -
  assume a: "list_all ascii_digit s"
  have eq: "map (the \<circ> digit_value digit) s = map (\<lambda>c. c - 48) s"
    using a by (auto simp: list_all_iff digit_value_def ascii_digit_def)
  have "foldl (\<lambda>n d. 10 * n + d) k (map (\<lambda>c. c - 48) s) = foldl (\<lambda>n c. 10 * n + (c - 48)) k s" for k
    by (induction s arbitrary: k) auto
  then show ?thesis by (simp add: eq digits_value_def decimal_value_def del: map_map)
qed

lemma split_on_clean: "c \<notin> set s \<Longrightarrow> split_on c s = [s]"
  by (induction s) auto

lemma int_strip_digits: "list_all ascii_digit s \<Longrightarrow> int_strip s = s"
proof -
  assume a: "list_all ascii_digit s"
  then have n: "\<forall>c \<in> set s. \<not> int_space c"
    by (auto simp: list_all_iff ascii_digit_def int_space_def)
  then have "dropWhile int_space s = s" by (cases s) auto
  moreover have "dropWhile int_space (rev s) = rev s" using n by (cases "rev s") (auto simp: rev_eq_Cons_iff)
  ultimately show ?thesis by (simp add: int_strip_def)
qed

lemma py_int_decimal:
  assumes "s \<noteq> []" and "list_all ascii_digit s" and "length s \<le> MAX_INT_DIGITS"
  shows "py_int digit s = Inr (int (decimal_value s))"
proof -
  have sign: "int_sign s = (False, s)"
    using assms(1,2) by (cases s) (auto simp: int_sign_def ascii_digit_def)
  have "95 \<notin> set s" using assms(2) by (auto simp: list_all_iff ascii_digit_def)
  then have "split_on 95 s = [s]" by (rule split_on_clean)
  then show ?thesis
    using assms sign digits_value_ascii [OF assms(2), of digit]
    by (auto simp: py_int_def int_strip_digits Let_def list_all_iff digit_value_def ascii_digit_def)
qed

lemma py_int_errors: "py_int digit s = Inl e \<Longrightarrow> is_value_error e"
  by (auto simp: py_int_def Let_def split: prod.splits if_splits)

lemmas number_eval [eval_simps] =
  int_space_def digit_value_def int_strip_def int_sign_def MAX_INT_DIGITS_def digits_value_def py_int_def

end
