(* ===== verification/Page_Model.thy ===== *)
theory Page_Model
  imports Image_Model Py_Number Datastore "HOL-Library.Multiset"
begin

text \<open>
  The data of the page indexer (\<open>models/\<close>, \<open>utils/\<close> and the pure part of \<open>data/redis_client.py\<close>): the
  page publication keys, the \<open>Page\<close> record with its construction from a Redis hash, and the keywords
  of a page. Parsing a date header and formatting a date depend on the interpreter and its time zone
  and are arguments, as is the extraction of text from HTML, which is third-party code.

  The lemmas: the key parser accepts exactly the keys the spider makes, a page that is rendered has
  its provenance and one that is not has none, and the bounds on keywords.
\<close>

section \<open>Constants\<close>

definition PAGE_PREFIX :: pystr where "PAGE_PREFIX = py ''page_data''"
definition OUTLINKS_PREFIX :: pystr where "OUTLINKS_PREFIX = py ''outlinks''"
definition SIGNAL_QUEUE_KEY :: pystr where "SIGNAL_QUEUE_KEY = py ''signal_queue''"
definition RESUME_CRAWL :: pystr where "RESUME_CRAWL = py ''RESUME_CRAWL''"
definition INDEXER_DEAD_LETTER_MAX_ENTRIES :: nat where "INDEXER_DEAD_LETTER_MAX_ENTRIES = 1000"
definition INDEXER_RECOVERY_BATCH_SIZE :: nat where "INDEXER_RECOVERY_BATCH_SIZE = 100"
definition INDEXER_LOCK_RENEW_SECONDS :: nat where "INDEXER_LOCK_RENEW_SECONDS = 10"

definition POPULAR_DOMAINS :: "pystr list" where
  "POPULAR_DOMAINS = map py [
    ''com'', ''org'', ''net'', ''edu'', ''gov'', ''mil'', ''int'', ''biz'', ''info'', ''name'',
    ''pro'', ''xyz'', ''online'', ''site'', ''shop'', ''store'', ''blog'', ''news'', ''media'',
    ''art'', ''film'', ''game'', ''games'', ''tech'', ''app'', ''dev'', ''ai'', ''cloud'', ''io'',
    ''co'', ''me'', ''tv'', ''ly'', ''to'', ''fm'', ''wiki'', ''help'', ''us'', ''uk'', ''ca'', ''au'',
    ''de'', ''fr'', ''jp'', ''cn'', ''ru'', ''br'', ''in'', ''cl'', ''mx'', ''es'', ''it'', ''nl'',
    ''se'', ''no'', ''fi'', ''dk'', ''pl'', ''be'', ''ch'', ''at'', ''nz'', ''za'', ''sg'', ''hk'',
    ''kr'', ''id'', ''my'', ''ph'', ''th'', ''vn'', ''il'', ''sa'', ''ae'', ''tr'', ''eg'', ''ar'',
    ''co'', ''pe'', ''ve'', ''pk'', ''ng'', ''ke'', ''tz'', ''ro'', ''en'', ''es'', ''fr'', ''de'',
    ''it'', ''pt'', ''nl'', ''ru'', ''zh'', ''ja'', ''ko'', ''ar'', ''tr'', ''pl'', ''sv'', ''no'',
    ''da'', ''fi'', ''el'', ''cs'', ''hu'', ''ro'', ''he'', ''th'', ''id'', ''ms'', ''hi'', ''bn'',
    ''ur'', ''vi'', ''google'', ''facebook'', ''instagram'', ''twitter'', ''tiktok'', ''linkedin'',
    ''youtube'', ''reddit'', ''wikipedia'', ''yahoo'', ''bing'', ''microsoft'', ''apple'', ''amazon'',
    ''ebay'', ''netflix'', ''hulu'', ''spotify'', ''pinterest'', ''snapchat'', ''discord'', ''steam'',
    ''github'', ''gitlab'', ''bitbucket'', ''twitch'', ''paypal'', ''stripe'', ''wordpress'',
    ''tumblr'', ''medium'', ''quora'', ''stackoverflow'', ''dropbox'', ''icloud'', ''adobe'',
    ''salesforce'', ''slack'', ''zoom'', ''airbnb'', ''uber'', ''lyft'', ''doordash'', ''tesla'',
    ''openai'', ''nvidia'', ''amd'', ''intel'', ''samsung'', ''huawei'', ''xiaomi'', ''sony'', ''bbc'',
    ''cnn'', ''nytimes'', ''forbes'', ''bloomberg'', ''wsj'', ''reuters'']"

section \<open>Publication keys\<close>

definition page_key_text :: "pystr \<Rightarrow> pystr \<Rightarrow> pystr" where
  "page_key_text publication_id encoded = PAGE_PREFIX @ [58] @ publication_id @ [58] @ encoded"

definition outlinks_key_text :: "pystr \<Rightarrow> pystr \<Rightarrow> pystr" where
  "outlinks_key_text publication_id encoded = OUTLINKS_PREFIX @ [58] @ publication_id @ [58] @ encoded"

text \<open>The publication, the URL and the key of its outlinks.\<close>

definition decode_page_url :: "pystr \<Rightarrow> exn + pystr" where
  "decode_page_url encoded_url =
     (if MAX_ENCODED_URL_BYTES < length encoded_url
      then Inl (InvalidPublicationKey ''queue value exceeds the canonical URL size limit'')
      else if \<not> is_ascii encoded_url then Inl (InvalidPublicationKey ''queue value URL encoding must be ASCII'')
      else (case b64_decode (b64_pad encoded_url) of
              None \<Rightarrow> Inl (InvalidPublicationKey ''queue value has an invalid URL encoding'')
            | Some url_bytes \<Rightarrow>
                if MAX_KEY_URL_BYTES < length url_bytes
                then Inl (InvalidPublicationKey ''decoded canonical URL exceeds 2048 bytes'')
                else (case utf8_decode url_bytes of
                        None \<Rightarrow> Inl (InvalidPublicationKey ''queue value has an invalid URL encoding'')
                      | Some normalized_url \<Rightarrow>
                          if normalized_url = [] \<or> b64url_encode url_bytes \<noteq> encoded_url
                          then Inl (InvalidPublicationKey ''queue value has a non-canonical URL encoding'')
                          else Inr normalized_url)))"

definition parse_page_publication_key :: "pystr \<Rightarrow> exn + pystr \<times> pystr \<times> pystr" where
  "parse_page_publication_key page_key =
     (case split_max 58 2 page_key of
        [prefix, publication_id, encoded_url] \<Rightarrow>
          if prefix \<noteq> PAGE_PREFIX
          then Inl (InvalidPublicationKey ''queue value is not a page publication key'')
          else if \<not> publication_id_ok publication_id \<or> encoded_url = []
          then Inl (InvalidPublicationKey ''queue value has an invalid publication identity'')
          else bindE (decode_page_url encoded_url) (\<lambda>normalized_url.
            Inr (publication_id, normalized_url, outlinks_key_text publication_id encoded_url))
      | _ \<Rightarrow> Inl (InvalidPublicationKey ''queue value is not a page publication key''))"

definition image_manifest_key_from_page_key :: "pystr \<Rightarrow> exn + pystr" where
  "image_manifest_key_from_page_key page_key =
     bindE (parse_page_publication_key page_key) (\<lambda>(publication_id, _, _).
     Inr (manifest_key_text publication_id (split_max 58 2 page_key ! 2)))"

section \<open>Dates\<close>

text \<open>
  A \<open>datetime\<close>: the microseconds of its own fields since 0001-01-01, and its UTC offset in
  microseconds if it has one. Years end with 9999.
\<close>

record datetime =
  dt_fields :: int
  dt_offset :: "int option"

definition DATETIME_END :: int where "DATETIME_END = 315537897600000000"
definition UNIX_EPOCH_MICROS :: int where "UNIX_EPOCH_MICROS = 62135596800000000"
definition DAY_MICROS :: int where "DAY_MICROS = 86400000000"

definition datetime_add :: "datetime \<Rightarrow> int \<Rightarrow> exn + datetime" where
  "datetime_add d micros =
     (if 0 \<le> dt_fields d + micros \<and> dt_fields d + micros < DATETIME_END
      then Inr (d\<lparr>dt_fields := dt_fields d + micros\<rparr>) else Inl OverflowError)"

text \<open>The BSON date of a \<open>datetime\<close>; one without an offset is taken as UTC.\<close>

definition bson_date :: "datetime \<Rightarrow> exn + bson" where
  "bson_date d =
     bindE (datetime_add d (- (case dt_offset d of None \<Rightarrow> 0 | Some n \<Rightarrow> n))) (\<lambda>utc.
     Inr (BDate ((dt_fields utc - UNIX_EPOCH_MICROS) div 1000)))"

section \<open>Pages\<close>

record page =
  pg_normalized_url :: pystr
  pg_html :: pystr
  pg_content_type :: pystr
  pg_status_code :: int
  pg_last_crawled :: datetime
  pg_rendered :: bool
  pg_original_html :: pystr
  pg_render_policy_rule :: pystr
  pg_render_policy_sha256 :: pystr

record text_tables =
  tt_date :: "pystr \<Rightarrow> exn + datetime"
  tt_stamp :: "datetime \<Rightarrow> pystr"
  tt_digit :: "nat \<Rightarrow> nat option"

definition required :: "(pystr, pystr) dict \<Rightarrow> string \<Rightarrow> exn + pystr" where
  "required d k = (case map_of d (py k) of None \<Rightarrow> Inl (KeyError k) | Some v \<Rightarrow> Inr v)"

definition optional :: "(pystr, pystr) dict \<Rightarrow> string \<Rightarrow> pystr \<Rightarrow> pystr" where
  "optional d k other = (case map_of d (py k) of None \<Rightarrow> other | Some v \<Rightarrow> v)"

definition valid_policy_sha256 :: "pystr \<Rightarrow> bool" where
  "valid_policy_sha256 s \<longleftrightarrow> length s = 64 \<and> list_all (\<lambda>c. ascii_digit c \<or> 97 \<le> c \<and> c \<le> 102) s"

definition page_from_hash :: "text_tables \<Rightarrow> (pystr, pystr) dict \<Rightarrow> exn + page" where
  "page_from_hash tt page_data =
     bindE (required page_data ''last_crawled'') (\<lambda>header.
     bindE (tt_date tt header) (\<lambda>last_crawled.
     let rendered_value = optional page_data ''rendered'' (py ''false'');
         rendered = (rendered_value = py ''true'');
         original_html = optional page_data ''original_html'' [];
         rule = optional page_data ''render_policy_rule'' [];
         sha = optional page_data ''render_policy_sha256'' [] in
     bindE (requireE (rendered_value = py ''true'' \<or> rendered_value = py ''false'')
       (ValueError ''rendered must be true or false'')) (\<lambda>_.
     bindE (requireE (\<not> (rendered \<and> (original_html = [] \<or> rule = [] \<or> \<not> valid_policy_sha256 sha)))
       (ValueError ''rendered page is missing provenance'')) (\<lambda>_.
     bindE (requireE (\<not> (\<not> rendered \<and> (original_html \<noteq> [] \<or> rule \<noteq> [] \<or> sha \<noteq> [])))
       (ValueError ''static page contains rendered-page provenance'')) (\<lambda>_.
     bindE (required page_data ''normalized_url'') (\<lambda>url.
     bindE (required page_data ''html'') (\<lambda>html.
     bindE (required page_data ''content_type'') (\<lambda>content_type.
     bindE (required page_data ''status_code'') (\<lambda>status.
     bindE (py_int (tt_digit tt) status) (\<lambda>status_code.
     Inr \<lparr>pg_normalized_url = url, pg_html = html, pg_content_type = content_type,
          pg_status_code = status_code, pg_last_crawled = last_crawled, pg_rendered = rendered,
          pg_original_html = original_html, pg_render_policy_rule = rule,
          pg_render_policy_sha256 = sha\<rparr>))))))))))"

record outlinks =
  ol_id :: pystr
  ol_links :: "pystr list"

text \<open>What \<open>get_html_data\<close> returns.\<close>

record html_data =
  hd_title :: "pystr option"
  hd_description :: "pystr option"
  hd_summary_text :: pystr
  hd_text :: "pystr list"
  hd_language :: pystr

section \<open>Keywords\<close>

text \<open>The separators of \<open>URL_SPLIT_PATTERN\<close>: \<open>. , - _ / + : ( )\<close>\<close>

definition url_separator :: "nat \<Rightarrow> bool" where
  "url_separator c \<longleftrightarrow> c \<in> {46, 44, 45, 95, 47, 43, 58, 40, 41}"

definition split_url :: "(pystr \<Rightarrow> pystr) \<Rightarrow> pystr \<Rightarrow> pystr list" where
  "split_url t url =
     map (lower_text t) (filter (\<lambda>part. lower_text t part \<notin> set POPULAR_DOMAINS) (pieces url_separator url))"

text \<open>\<open>Counter(text).most_common(n)\<close>: by falling count, equal counts in order of first appearance.\<close>

definition counter :: "pystr list \<Rightarrow> (pystr, nat) dict" where
  "counter text = foldl (\<lambda>c w. counter_add c w 1) [] text"

definition most_common :: "nat \<Rightarrow> (pystr, nat) dict \<Rightarrow> (pystr, nat) dict" where
  "most_common n c = take n (sort_key (\<lambda>p. - int (snd p)) c)"

definition add_url_word :: "(pystr, nat) dict \<Rightarrow> pystr \<Rightarrow> (pystr, nat) dict" where
  "add_url_word keywords word =
     (let previous = counter_get keywords word in
      AList.update word (if previous \<noteq> 0 then previous * 50 else 10) keywords)"

definition page_keywords :: "(pystr \<Rightarrow> pystr) \<Rightarrow> pystr list \<Rightarrow> pystr \<Rightarrow> (pystr, nat) dict" where
  "page_keywords t text url = foldl add_url_word (most_common MAX_INDEX_WORDS (counter text)) (split_url t url)"


section \<open>Key parsing\<close>

lemma page_prefixes_clean [simp]: "58 \<notin> set PAGE_PREFIX" "58 \<notin> set OUTLINKS_PREFIX"
  by (simp_all add: PAGE_PREFIX_def OUTLINKS_PREFIX_def py_def)

lemma decode_page_url_iff: "encoded \<noteq> [] \<Longrightarrow> decode_page_url encoded = Inr url \<longleftrightarrow> decode_key_url InvalidPublicationKey encoded = Inr url"
  by (auto simp: decode_page_url_def decode_key_url_def sum_iffs split: option.splits)

lemma decode_page_url_errors: "decode_page_url encoded = Inl e \<Longrightarrow> \<exists>s. e = InvalidPublicationKey s"
  by (auto simp: decode_page_url_def split: option.splits if_splits)

text \<open>Three parts of a key with a clean prefix and a clean publication.\<close>

lemma split_key_parts:
  "split_max 58 2 key = [p, i, e] \<and> 58 \<notin> set p \<and> 58 \<notin> set i \<longleftrightarrow> key = p @ [58] @ i @ [58] @ e \<and> 58 \<notin> set p \<and> 58 \<notin> set i"
proof
  assume a: "split_max 58 2 key = [p, i, e] \<and> 58 \<notin> set p \<and> 58 \<notin> set i"
  then have "split_max 58 2 key = [p, i, e]" by simp
  from split_max_parts [OF this] obtain r where "key = p @ 58 # r" "split_max 58 1 r = [i, e]" by auto
  moreover from this(2) obtain r' where "r = i @ 58 # r'" "split_max 58 0 r' = [e]"
    using split_max_parts [of 58 1 r i e "[]"] by auto
  ultimately show "key = p @ [58] @ i @ [58] @ e \<and> 58 \<notin> set p \<and> 58 \<notin> set i" using a by simp
next
  assume "key = p @ [58] @ i @ [58] @ e \<and> 58 \<notin> set p \<and> 58 \<notin> set i"
  then show "split_max 58 2 key = [p, i, e] \<and> 58 \<notin> set p \<and> 58 \<notin> set i"
    by (simp add: numeral_2_eq_2 split_max_join del: split_max.simps(2) split_max_2)
qed

lemma parse_page_publication_key_iff:
  "parse_page_publication_key key = Inr (publication_id, url, outlinks_key) \<longleftrightarrow>
     publication_id_ok publication_id \<and> key_url_ok url \<and>
     (\<exists>e. encode_key_url url = Some e \<and> key = page_key_text publication_id e \<and>
          outlinks_key = outlinks_key_text publication_id e)"
proof
  assume a: "parse_page_publication_key key = Inr (publication_id, url, outlinks_key)"
  then obtain e where parts: "split_max 58 2 key = [PAGE_PREFIX, publication_id, e]"
    and ok: "publication_id_ok publication_id" "decode_page_url e = Inr url" "e \<noteq> []"
      "outlinks_key = outlinks_key_text publication_id e"
    by (auto simp: parse_page_publication_key_def sum_iffs split: list.splits if_splits)
  have "key = page_key_text publication_id e"
    using split_key_parts [of key PAGE_PREFIX publication_id e] parts publication_id_clean [OF ok(1)]
    by (simp add: page_key_text_def)
  moreover have "key_url_ok url" "encode_key_url url = Some e"
    using ok(2,3) by (simp_all add: decode_page_url_iff decode_key_url_iff)
  ultimately show "publication_id_ok publication_id \<and> key_url_ok url \<and>
     (\<exists>e. encode_key_url url = Some e \<and> key = page_key_text publication_id e \<and>
          outlinks_key = outlinks_key_text publication_id e)"
    using ok by blast
next
  assume "publication_id_ok publication_id \<and> key_url_ok url \<and>
     (\<exists>e. encode_key_url url = Some e \<and> key = page_key_text publication_id e \<and>
          outlinks_key = outlinks_key_text publication_id e)"
  then obtain e where b: "publication_id_ok publication_id" "key_url_ok url" "encode_key_url url = Some e"
    "key = page_key_text publication_id e" "outlinks_key = outlinks_key_text publication_id e"
    by blast
  have d: "decode_key_url InvalidPublicationKey e = Inr url" using b by (simp add: decode_key_url_iff)
  then have "e \<noteq> []" by (auto simp: decode_key_url_def)
  moreover have "split_max 58 2 key = [PAGE_PREFIX, publication_id, e]"
    using split_key_parts [of key PAGE_PREFIX publication_id e] publication_id_clean [OF b(1)] b(4)
    by (simp add: page_key_text_def)
  ultimately show "parse_page_publication_key key = Inr (publication_id, url, outlinks_key)"
    using b d decode_page_url_iff [of e url] by (simp add: parse_page_publication_key_def)
qed

lemma parse_page_publication_key_errors:
  "parse_page_publication_key key = Inl e \<Longrightarrow> \<exists>s. e = InvalidPublicationKey s"
  by (auto simp: parse_page_publication_key_def sum_iffs split: list.splits if_splits dest: decode_page_url_errors)

text \<open>The manifest key of a page key names the same publication and URL.\<close>

lemma image_manifest_key_of_page:
  assumes "parse_page_publication_key key = Inr (publication_id, url, outlinks_key)"
  obtains e where "encode_key_url url = Some e" and "key = page_key_text publication_id e"
    and "outlinks_key = outlinks_key_text publication_id e"
    and "image_manifest_key_from_page_key key = Inr (manifest_key_text publication_id e)"
proof -
  obtain e where e: "encode_key_url url = Some e" "key = page_key_text publication_id e"
      "outlinks_key = outlinks_key_text publication_id e" "publication_id_ok publication_id"
    using assms by (auto simp: parse_page_publication_key_iff)
  have "split_max 58 2 key = [PAGE_PREFIX, publication_id, e]"
    using split_key_parts [of key PAGE_PREFIX publication_id e] publication_id_clean [OF e(4)] e(2)
    by (simp add: page_key_text_def)
  then show thesis using that e assms by (simp add: image_manifest_key_from_page_key_def)
qed

section \<open>Pages and keywords\<close>

lemma page_from_hash_provenance:
  "page_from_hash tt h = Inr p \<Longrightarrow>
     (if pg_rendered p then pg_original_html p \<noteq> [] \<and> pg_render_policy_rule p \<noteq> [] \<and> valid_policy_sha256 (pg_render_policy_sha256 p)
      else pg_original_html p = [] \<and> pg_render_policy_rule p = [] \<and> pg_render_policy_sha256 p = [])"
  by (auto simp: page_from_hash_def sum_iffs Let_def)

lemma counter_distinct: "distinct (map fst (counter ws))"
proof -
  have "distinct (map fst c) \<Longrightarrow> distinct (map fst (foldl (\<lambda>c w. counter_add c w 1) c ws))" for c :: "(pystr, nat) dict"
    by (induction ws arbitrary: c) (auto simp: counter_add_distinct)
  then show ?thesis by (simp add: counter_def)
qed

lemma distinct_most_common: "distinct (map fst c) \<Longrightarrow> distinct (map fst (most_common n c))"
proof -
  assume a: "distinct (map fst c)"
  have "distinct (map fst (sort_key f c))" for f :: "_ \<Rightarrow> int"
  proof -
    have "mset (map fst (sort_key f c)) = mset (map fst c)" by simp
    then show ?thesis using a by (metis mset_eq_imp_distinct_iff)
  qed
  then show ?thesis by (simp add: most_common_def take_map [symmetric])
qed

lemma add_url_words:
  "distinct (map fst k) \<Longrightarrow> distinct (map fst (foldl add_url_word k ws)) \<and>
     length (foldl add_url_word k ws) \<le> length k + length ws"
proof (induction ws arbitrary: k)
  case (Cons w ws)
  have "length (AList.update w (v :: nat) k) \<le> Suc (length k)" for v
    by (induction k) auto
  then have "length (add_url_word k w) \<le> Suc (length k)" by (simp add: add_url_word_def Let_def)
  moreover have "distinct (map fst (add_url_word k w))"
    using Cons.prems by (simp add: add_url_word_def Let_def distinct_update)
  ultimately show ?case using Cons.IH [of "add_url_word k w"] by simp
qed simp

lemma page_keywords_bound:
  "distinct (map fst (page_keywords t ws url)) \<and> length (page_keywords t ws url) \<le> 1000 + length (split_url t url)"
proof -
  let ?k = "most_common MAX_INDEX_WORDS (counter ws)"
  have "length ?k \<le> 1000" by (simp add: most_common_def MAX_INDEX_WORDS_def)
  then show ?thesis
    using add_url_words [OF distinct_most_common [OF counter_distinct], of MAX_INDEX_WORDS ws "split_url t url"]
    by (simp add: page_keywords_def)
qed

lemma split_url_words:
  "w \<in> set (split_url t url) \<Longrightarrow> w \<notin> set POPULAR_DOMAINS"
  by (auto simp: split_url_def)

lemmas page_model_eval [eval_simps] =
  PAGE_PREFIX_def OUTLINKS_PREFIX_def SIGNAL_QUEUE_KEY_def RESUME_CRAWL_def
  decode_page_url_def parse_page_publication_key_def image_manifest_key_from_page_key_def
  DATETIME_END_def UNIX_EPOCH_MICROS_def DAY_MICROS_def datetime_add_def bson_date_def
  required_def optional_def valid_policy_sha256_def page_from_hash_def url_separator_def split_url_def
  counter_def most_common_def add_url_word_def page_keywords_def

end
