(* ===== verification/Queue_Foreign.thy ===== *)
theory Queue_Foreign
  imports Queue_Client
begin

text \<open>
  A service on one queue leaves every other queue alone: with disjoint key sets, whatever a client
  of the queue \<open>q\<close> does is no more than a foreign step for the queue \<open>q'\<close>.
\<close>

lemma keeps_foreign_script:
  assumes "simulates V script script'" and "\<And>db k. k \<in> queue_key_set q' \<Longrightarrow> snd (script' db) k = db k"
  shows "keeps (by_steps V m' q') script"
proof -
  have "qstep m' q' (V w) (V (snd (script w)))" for w
    using assms(2) [of _ "V w"] assms(1) by (intro qstep.foreign) (simp add: simulates_def)
  then show ?thesis unfolding keeps_def by_steps_def by (metis r_into_rtranclp snd_conv)
qed

context queue_layout
begin

lemma keeps_foreign_worker:
  assumes "queue_key_set q \<inter> queue_key_set q' = {}"
    and "\<And>t db. snd (script' (owner_text t n) db) = run_op m q t n op db"
    and "\<And>owner. simulates V (script owner) (script' owner)"
    and "utf8_encode (token @ [58] @ show_nat n) = Some owner"
  shows "keeps (by_steps V m' q') (script owner)"
proof -
  obtain t where t: "owner = owner_text t n" by (rule owner_encoding [OF assms(4)])
  have "snd (script' owner db) k = db k" if "k \<in> queue_key_set q'" for db k
    using assms(1) that run_op_keys [of k m t n op db] by (auto simp: t assms(2) queue_key_set_def)
  then show ?thesis by (rule keeps_foreign_script [OF assms(3)])
qed

lemma acquire_foreign:
  assumes "k \<notin> queue_key_set q"
  shows "snd (acquire_script mem_redis m q token db) k = db k"
proof (cases "\<exists>e. fst (acquire_script mem_redis m q token db) = Inr (Some e)")
  case True
  then obtain e where "acquire_script mem_redis m q token db = (Inr (Some e), snd (acquire_script mem_redis m q token db))"
    by (metis prod.collapse)
  from acquire_granted(5) [OF this, of k] show ?thesis using assms by (simp add: queue_key_set_def)
next
  case False
  then have "snd (acquire_script mem_redis m q token db) = db"
    using acquire_refused [of m token db "fst (acquire_script mem_redis m q token db)"] by simp
  then show ?thesis by simp
qed

lemma client_foreign:
  assumes doc: "redis_documented (rc_cmds env) V" and net: "steps_only V m' q' env"
    and apart: "queue_key_set q \<inter> queue_key_set q' = {}"
  shows "keeps (by_steps V m' q') (client_acquire env m q cl)"
    and "keeps (by_steps V m' q') (client_renew env m q cl)"
    and "keeps (by_steps V m' q') (client_drop env q cl)"
    and "keeps (by_steps V m' q') (client_claim env m q cl)"
    and "keeps (by_steps V m' q') (client_recover env m q cl limit)"
    and "keeps (by_steps V m' q') (client_release env m q cl claim)"
    and "keeps (by_steps V m' q') (client_quarantine env m q cl limit claim)"
    and "keeps (by_steps V m' q') (client_work_sizes env m q cl)"
proof -
  note sim = simulates_scripts [OF doc]
  note worker = keeps_foreign_worker [OF apart, where m = m]
  have foreign: "k \<notin> queue_key_set q" if "k \<in> queue_key_set q'" for k using apart that by auto
  show "keeps (by_steps V m' q') (client_acquire env m q cl)"
    unfolding client_acquire_def require_client_def
    by (intro steps.keeps_rules keeps_call_server [OF net] keeps_foreign_script [OF sim(1)] acquire_foreign foreign)
  show "keeps (by_steps V m' q') (client_renew env m q cl)"
    unfolding client_renew_def require_client_def
    by (intro steps.keeps_rules keeps_call_as_owner [OF net] worker [OF _ sim(2), where op = Renew]) simp_all
  show "keeps (by_steps V m' q') (client_drop env q cl)"
    unfolding client_drop_def
    by (intro steps.keeps_rules keeps_call_as_owner [OF net] worker [OF _ sim(3), where op = Drop]) simp_all
  show "keeps (by_steps V m' q') (client_claim env m q cl)"
    unfolding client_claim_def require_client_def
    by (intro steps.keeps_rules keeps_call_as_owner [OF net] worker [OF _ sim(4), where op = Claim]) simp_all
  show "keeps (by_steps V m' q') (client_recover env m q cl limit)"
    unfolding client_recover_def require_client_def
    by (intro steps.keeps_rules keeps_call_as_owner [OF net] worker [OF _ sim(5), where op = "Recover limit"]) simp_all
  show "keeps (by_steps V m' q') (client_release env m q cl claim)"
    unfolding client_release_def require_client_def
    by (intro steps.keeps_rules keeps_call_as_owner [OF net] worker [OF _ sim(6), where op = "Release c" for c]) simp_all
  show "keeps (by_steps V m' q') (client_quarantine env m q cl limit claim)"
    unfolding client_quarantine_def require_client_def
    by (intro steps.keeps_rules keeps_call_as_owner [OF net] worker [OF _ sim(7), where op = "Quarantine c limit" for c]) simp_all
  show "keeps (by_steps V m' q') (client_work_sizes env m q cl)"
    unfolding client_work_sizes_def require_client_def
    by (intro steps.keeps_rules keeps_call_as_owner [OF net] keeps_read_script [OF sim(8)] work_sizes_pure)
qed

end

end
