(* ===== verification/Page_Redis.thy ===== *)
theory Page_Redis
  imports Page_Model Image_Main Queue_Foreign
begin

text \<open>
  \<open>data/redis_client.py\<close> of the page indexer: its Lua scripts on the page keys, and the methods of its
  client. \<open>handoff_script\<close> ends the work on a publication: in one atomic step it queues the image
  manifest for the image indexer, removes the claim and deletes the page and its outlinks.

  The lemmas: the exact effect of the hand-over, and that it is a finishing step of the page queue
  and a producing step of the image queue.
\<close>

section \<open>Keys and messages\<close>

definition page_keys :: queue_keys where
  "page_keys =
     \<lparr>qk_lock = py ''pages_queue:indexer_owner'', qk_epoch = py ''pages_queue:indexer_fence_epoch'',
      qk_queue = py ''pages_queue'', qk_processing = py ''pages_queue:processing'',
      qk_dead = py ''pages_queue:dead''\<rparr>"

definition page_messages :: queue_messages where
  "page_messages =
     \<lparr>qm_lock_type = ''owner lock must be a string'', qm_epoch_type = ''fence epoch counter must be a string'',
      qm_epoch_value = ''invalid fence epoch counter'', qm_owner_types = ''owner lock and epoch must be strings'',
      qm_queue_type = ''queue key must be a list'', qm_processing_type = ''processing key must be a list'',
      qm_dead_type = ''dead-letter key must be a list''\<rparr>"

interpretation page_queue: queue_layout page_keys
  by unfold_locales (simp add: page_keys_def)

lemma queues_apart: "queue_key_set page_keys \<inter> queue_key_set image_keys = {}"
  by (simp add: queue_key_set_def page_keys_def image_keys_def)

section \<open>Scripts\<close>

definition page_acquire_script :: "('w, 'z) redis_cmds_scheme \<Rightarrow> bytes \<Rightarrow> ('w, bytes option) prog" where
  "page_acquire_script C = acquire_script C page_messages page_keys"

definition page_renew_script :: "('w, 'z) redis_cmds_scheme \<Rightarrow> bytes \<Rightarrow> bytes \<Rightarrow> ('w, nat) prog" where
  "page_renew_script C = renew_script C page_messages page_keys"

definition page_drop_script :: "('w, 'z) redis_cmds_scheme \<Rightarrow> bytes \<Rightarrow> bytes \<Rightarrow> ('w, nat) prog" where
  "page_drop_script C = drop_script C page_keys"

definition page_claim_script :: "('w, 'z) redis_cmds_scheme \<Rightarrow> bytes \<Rightarrow> bytes \<Rightarrow> ('w, bytes option) prog" where
  "page_claim_script C = claim_script C page_messages page_keys"

definition page_recover_script :: "('w, 'z) redis_cmds_scheme \<Rightarrow> bytes \<Rightarrow> bytes \<Rightarrow> nat \<Rightarrow> ('w, nat) prog" where
  "page_recover_script C = recover_script C page_messages page_keys"

definition page_release_script :: "('w, 'z) redis_cmds_scheme \<Rightarrow> bytes \<Rightarrow> bytes \<Rightarrow> bytes \<Rightarrow> ('w, nat) prog" where
  "page_release_script C = release_script C page_messages page_keys"

definition page_quarantine_script ::
    "('w, 'z) redis_cmds_scheme \<Rightarrow> bytes \<Rightarrow> bytes \<Rightarrow> bytes \<Rightarrow> nat \<Rightarrow> ('w, nat) prog" where
  "page_quarantine_script C = quarantine_script C page_messages page_keys"

definition page_work_sizes_script :: "('w, 'z) redis_cmds_scheme \<Rightarrow> bytes \<Rightarrow> bytes \<Rightarrow> ('w, nat \<times> nat) prog" where
  "page_work_sizes_script C = work_sizes_script C page_messages page_keys"

text \<open>The completing and the skipping script have the same text; the page is also the claim.\<close>

record handoff_args =
  ha_page :: bytes
  ha_outlinks :: bytes
  ha_manifest :: bytes
  ha_publication :: bytes
  ha_url :: bytes

definition handoff_script ::
    "('w, 'z) redis_cmds_scheme \<Rightarrow> bytes \<Rightarrow> bytes \<Rightarrow> handoff_args \<Rightarrow> ('w, nat) prog" where
  "handoff_script C owner epoch a =
     bind (check (owner_types C page_keys) ''owner lock and epoch must be strings'') (\<lambda>_.
     bind (check (absent_or ''list'' C (qk_processing page_keys)) ''processing key must be a list'') (\<lambda>_.
     bind (check (absent_or ''hash'' C (ha_page a)) ''page key must be a hash'') (\<lambda>_.
     bind (check (absent_or ''set'' C (ha_outlinks a)) ''outlinks key must be a set'') (\<lambda>_.
     bind (check (\<lambda>w. c_type C (ha_manifest a) w = ''hash'') ''image manifest key must be a hash'') (\<lambda>_.
     bind (check (absent_or ''list'' C (qk_queue image_keys)) ''image queue key must be a list'') (\<lambda>_.
     bind (require_owner C page_keys owner epoch) (\<lambda>_.
     bind (get_state (c_lpos C (qk_processing page_keys) (ha_page a))) (\<lambda>present.
     if \<not> present then ret 0
     else
       bind (check (\<lambda>w. c_hget C (ha_manifest a) (py ''publication_id'') w = Some (ha_publication a))
               ''image manifest publication mismatch'') (\<lambda>_.
       bind (check (\<lambda>w. c_hget C (ha_manifest a) (py ''normalized_url'') w = Some (ha_url a))
               ''image manifest URL mismatch'') (\<lambda>_.
       bind (mod_state (c_lpush C (qk_queue image_keys) (ha_manifest a))) (\<lambda>_.
       bind (mod_state (c_lrem C (qk_processing page_keys) (ha_page a))) (\<lambda>_.
       bind (mod_state (c_del C [ha_page a, ha_outlinks a])) (\<lambda>_. ret 1)))))))))))))"

definition page_complete_script ::
    "('w, 'z) redis_cmds_scheme \<Rightarrow> bytes \<Rightarrow> bytes \<Rightarrow> handoff_args \<Rightarrow> ('w, nat) prog" where
  "page_complete_script = handoff_script"

definition page_skip_script ::
    "('w, 'z) redis_cmds_scheme \<Rightarrow> bytes \<Rightarrow> bytes \<Rightarrow> handoff_args \<Rightarrow> ('w, nat) prog" where
  "page_skip_script = handoff_script"

section \<open>The client\<close>

definition page_acquire_lock :: "('w, 'z) rc_env_scheme \<Rightarrow> redis_client \<Rightarrow> ('w, bool \<times> redis_client) prog" where
  "page_acquire_lock env cl = client_acquire env page_messages page_keys cl"

definition page_renew_lock :: "('w, 'z) rc_env_scheme \<Rightarrow> redis_client \<Rightarrow> ('w, bool) prog" where
  "page_renew_lock env cl = client_renew env page_messages page_keys cl"

definition page_release_lock :: "('w, 'z) rc_env_scheme \<Rightarrow> redis_client \<Rightarrow> ('w, bool) prog" where
  "page_release_lock env cl = client_drop env page_keys cl"

definition claim_page :: "('w, 'z) rc_env_scheme \<Rightarrow> redis_client \<Rightarrow> ('w, pystr option) prog" where
  "claim_page env cl = client_claim env page_messages page_keys cl"

definition recover_abandoned_claims :: "('w, 'z) rc_env_scheme \<Rightarrow> redis_client \<Rightarrow> nat \<Rightarrow> ('w, nat) prog" where
  "recover_abandoned_claims env cl limit = client_recover env page_messages page_keys cl limit"

definition release_page :: "('w, 'z) rc_env_scheme \<Rightarrow> redis_client \<Rightarrow> pystr \<Rightarrow> ('w, bool) prog" where
  "release_page env cl page_key = false_on_error (client_release env page_messages page_keys cl page_key)"

definition quarantine_page :: "('w, 'z) rc_env_scheme \<Rightarrow> redis_client \<Rightarrow> pystr \<Rightarrow> ('w, bool) prog" where
  "quarantine_page env cl queue_value =
     false_on_error (client_quarantine env page_messages page_keys cl INDEXER_DEAD_LETTER_MAX_ENTRIES queue_value)"

definition page_work_sizes :: "('w, 'z) rc_env_scheme \<Rightarrow> redis_client \<Rightarrow> ('w, nat \<times> nat) prog" where
  "page_work_sizes env cl = client_work_sizes env page_messages page_keys cl"

text \<open>\<open>LPUSH\<close> outside a script: the length of the list, or an error for a key of another type.\<close>

definition lpush_cmd :: "('w, 'z) redis_cmds_scheme \<Rightarrow> bytes \<Rightarrow> bytes \<Rightarrow> ('w, nat) prog" where
  "lpush_cmd C k v =
     bind (check (absent_or ''list'' C k) ''WRONGTYPE'') (\<lambda>_.
     bind (mod_state (c_lpush C k v)) (\<lambda>_. get_state (c_llen C k)))"

definition signal_crawler :: "('w, 'z) rc_env_scheme \<Rightarrow> redis_client \<Rightarrow> ('w, bool) prog" where
  "signal_crawler env cl =
     bind (require_client cl) (\<lambda>_.
     bind (page_renew_lock env cl) (\<lambda>renewed.
     if \<not> renewed then ret False
     else bind (call_server env (lpush_cmd (rc_cmds env) SIGNAL_QUEUE_KEY RESUME_CRAWL)) (\<lambda>n. ret (n > 0))))"

definition handoff_arguments :: "pystr \<Rightarrow> pystr \<Rightarrow> pystr \<Rightarrow> pystr \<Rightarrow> pystr \<Rightarrow> exn + handoff_args" where
  "handoff_arguments page_key outlinks_key manifest_key publication_id url =
     bindE (encode_arg page_key) (\<lambda>page.
     bindE (encode_arg outlinks_key) (\<lambda>outlinks.
     bindE (encode_arg manifest_key) (\<lambda>manifest.
     bindE (encode_arg publication_id) (\<lambda>publication.
     bindE (encode_arg url) (\<lambda>u.
     Inr \<lparr>ha_page = page, ha_outlinks = outlinks, ha_manifest = manifest, ha_publication = publication, ha_url = u\<rparr>)))))"

definition complete_page :: "('w, 'z) rc_env_scheme \<Rightarrow> redis_client \<Rightarrow> pystr \<Rightarrow> pystr \<Rightarrow> ('w, bool) prog" where
  "complete_page env cl page_key normalized_url =
     false_on_error (
       bind (lift (parse_page_publication_key page_key)) (\<lambda>(publication_id, key_url, outlinks_key).
       if key_url \<noteq> normalized_url then ret False
       else bind (lift (image_manifest_key_from_page_key page_key)) (\<lambda>manifest_key.
         bind (require_client cl) (\<lambda>_.
         bind (lift (handoff_arguments page_key outlinks_key manifest_key publication_id normalized_url)) (\<lambda>a.
         bind (call_as_owner env cl (\<lambda>owner epoch. page_complete_script (rc_cmds env) owner epoch a)) (\<lambda>n. ret (n = 1)))))))"

definition skip_page :: "('w, 'z) rc_env_scheme \<Rightarrow> redis_client \<Rightarrow> pystr \<Rightarrow> ('w, bool) prog" where
  "skip_page env cl page_key =
     false_on_error (
       bind (lift (parse_page_publication_key page_key)) (\<lambda>(publication_id, normalized_url, outlinks_key).
       bind (lift (image_manifest_key_from_page_key page_key)) (\<lambda>manifest_key.
       bind (require_client cl) (\<lambda>_.
       bind (lift (handoff_arguments page_key outlinks_key manifest_key publication_id normalized_url)) (\<lambda>a.
       bind (call_as_owner env cl (\<lambda>owner epoch. page_skip_script (rc_cmds env) owner epoch a)) (\<lambda>n. ret (n = 1)))))))"

text \<open>\<open>str(error)\<close> of the exceptions that \<open>get_page_data\<close> wraps.\<close>

fun error_message :: "exn \<Rightarrow> string" where
  "error_message (ValueError s) = s"
| "error_message (TypeError s) = s"
| "error_message (KeyError s) = s"
| "error_message (UnicodeError s) = s"
| "error_message _ = []"

definition is_decode_error :: "exn \<Rightarrow> bool" where
  "is_decode_error e \<longleftrightarrow> is_value_error e \<or> is_type_error e \<or> (case e of KeyError _ \<Rightarrow> True | _ \<Rightarrow> False)"

definition decode_page :: "text_tables \<Rightarrow> pystr \<Rightarrow> pystr \<Rightarrow> (pystr, pystr) dict \<Rightarrow> exn + page" where
  "decode_page tt publication_id key_url page_hashed =
     (case bindE (requireE (map_of page_hashed (py ''publication_id'') = Some publication_id)
              (ValueError ''page publication ID does not match immutable key'')) (\<lambda>_.
            bindE (page_from_hash tt page_hashed) (\<lambda>page.
            bindE (requireE (pg_normalized_url page = key_url)
              (ValueError ''page normalized URL does not match immutable key'')) (\<lambda>_. Inr page))) of
        Inl e \<Rightarrow> if is_decode_error e then Inl (PageDataDecodeError (error_message e)) else Inl e
      | Inr page \<Rightarrow> Inr page)"

definition get_page_data ::
    "('w, 'z) rc_env_scheme \<Rightarrow> text_tables \<Rightarrow> redis_client \<Rightarrow> pystr \<Rightarrow> ('w, page option) prog" where
  "get_page_data env tt cl page_key =
     bind (require_client cl) (\<lambda>_.
     bind (lift (parse_page_publication_key page_key)) (\<lambda>(publication_id, key_url, _).
     bind (lift (encode_arg page_key)) (\<lambda>key.
     bind (hgetall_text env key) (\<lambda>page_hashed.
     if page_hashed = [] then ret None
     else bind (lift (decode_page tt publication_id key_url page_hashed)) (\<lambda>page. ret (Some page))))))"

text \<open>\<open>SMEMBERS\<close>, decoded.\<close>

definition smembers_cmd :: "('w, 'z) redis_cmds_scheme \<Rightarrow> bytes \<Rightarrow> ('w, bytes list) prog" where
  "smembers_cmd C k = bind (check (absent_or ''set'' C k) ''WRONGTYPE'') (\<lambda>_. get_state (c_smembers C k))"

definition get_outlinks :: "('w, 'z) rc_env_scheme \<Rightarrow> redis_client \<Rightarrow> pystr \<Rightarrow> pystr \<Rightarrow> ('w, outlinks) prog" where
  "get_outlinks env cl page_key normalized_url =
     bind (require_client cl) (\<lambda>_.
     bind (lift (parse_page_publication_key page_key)) (\<lambda>(_, key_url, outlinks_key).
     bind (require (key_url = normalized_url) (InvalidPublicationKey ''outlinks URL does not match publication'')) (\<lambda>_.
     bind (lift (encode_arg outlinks_key)) (\<lambda>key.
     bind (call_server env (smembers_cmd (rc_cmds env) key)) (\<lambda>members.
     bind (lift (mapE decode_reply members)) (\<lambda>links.
     ret \<lparr>ol_id = normalized_url, ol_links = links\<rparr>))))))"


section \<open>The hand-over\<close>

definition handoff_db :: "handoff_args \<Rightarrow> rdb \<Rightarrow> rdb" where
  "handoff_db a db = c_del mem_redis [ha_page a, ha_outlinks a]
     (mem_set_list (qk_processing page_keys) (remove1 (ha_page a) (claimed page_keys db))
       (mem_set_list (qk_queue image_keys) (ha_manifest a # queued image_keys db) db))"

lemma page_image_keys_differ [simp]:
  "qk_processing page_keys \<noteq> qk_queue image_keys" "qk_queue image_keys \<noteq> qk_processing page_keys"
  by (simp_all add: page_keys_def image_keys_def)

lemma handoff_run:
  assumes "handoff_script mem_redis (owner_text token n) (show_nat n) a db = (r, db')"
  shows "r = Inr 1 \<Longrightarrow> owns page_keys token n db \<and> ha_page a \<in> set (claimed page_keys db) \<and>
           (\<exists>h. db (ha_manifest a) = Some (RHash h) \<and> map_of h (py ''publication_id'') = Some (ha_publication a) \<and>
                map_of h (py ''normalized_url'') = Some (ha_url a)) \<and> db' = handoff_db a db"
    and "r \<noteq> Inr 1 \<Longrightarrow> db' = db"
  using assms
  by (auto simp: handoff_script_def require_owner_def check_run bind_eq owns_def claimed_def queued_def
      redis_read_defs handoff_db_def type_of_iffs split: if_splits)

text \<open>The keys of a page publication are none of the keys of the two queues.\<close>

lemma prefix_foreign:
  assumes "is_ascii prefix" and "utf8_encode (prefix @ s) = Some k"
    and "\<forall>q \<in> queue_key_set page_keys \<union> queue_key_set image_keys. \<not> starts_with prefix q"
  shows "k \<notin> queue_key_set page_keys \<union> queue_key_set image_keys"
proof -
  obtain c where "k = prefix @ c" using encode_prefix [OF assms(1,2)] by blast
  then have "starts_with prefix k" by (simp add: starts_with_def)
  then show ?thesis using assms(3) by blast
qed

lemma page_key_foreign:
  "utf8_encode (page_key_text publication_id e) = Some k \<Longrightarrow> k \<notin> queue_key_set page_keys \<union> queue_key_set image_keys"
  unfolding page_key_text_def
  by (erule prefix_foreign [where prefix = PAGE_PREFIX, rotated])
    (simp_all add: PAGE_PREFIX_def is_ascii_def starts_with_def py_def queue_key_set_def page_keys_def image_keys_def)

lemma outlinks_key_foreign:
  "utf8_encode (outlinks_key_text publication_id e) = Some k \<Longrightarrow> k \<notin> queue_key_set page_keys \<union> queue_key_set image_keys"
  unfolding outlinks_key_text_def
  by (erule prefix_foreign [where prefix = OUTLINKS_PREFIX, rotated])
    (simp_all add: OUTLINKS_PREFIX_def is_ascii_def starts_with_def py_def queue_key_set_def page_keys_def image_keys_def)

definition handoff_foreign :: "handoff_args \<Rightarrow> bool" where
  "handoff_foreign a \<longleftrightarrow> {ha_page a, ha_outlinks a} \<inter> (queue_key_set page_keys \<union> queue_key_set image_keys) = {}"

lemma handoff_arguments_foreign:
  assumes "parse_page_publication_key page_key = Inr (publication_id, url, outlinks_key)"
    and "handoff_arguments page_key outlinks_key manifest_key publication_id url' = Inr a"
  shows "handoff_foreign a"
proof -
  obtain e where "page_key = page_key_text publication_id e" "outlinks_key = outlinks_key_text publication_id e"
    using assms(1) by (auto simp: parse_page_publication_key_iff)
  then show ?thesis
    using assms(2) page_key_foreign outlinks_key_foreign
    by (auto simp: handoff_arguments_def sum_iffs encode_arg_iff handoff_foreign_def)
qed

lemma handoff_db_queues:
  assumes "handoff_foreign a"
  shows "claimed page_keys (handoff_db a db) = remove1 (ha_page a) (claimed page_keys db)"
    and "handoff_db a db (qk_processing page_keys) = list_value (remove1 (ha_page a) (claimed page_keys db))"
    and "queued image_keys (handoff_db a db) = ha_manifest a # queued image_keys db"
    and "k \<notin> {ha_page a, ha_outlinks a, qk_processing page_keys, qk_queue image_keys} \<Longrightarrow> handoff_db a db k = db k"
    and "handoff_db a db (ha_page a) = None" and "handoff_db a db (ha_outlinks a) = None"
proof -
  have f: "qk_processing page_keys \<notin> {ha_page a, ha_outlinks a}" "qk_queue image_keys \<notin> {ha_page a, ha_outlinks a}"
    using assms by (auto simp: handoff_foreign_def queue_key_set_def)
  show "claimed page_keys (handoff_db a db) = remove1 (ha_page a) (claimed page_keys db)"
    and "handoff_db a db (qk_processing page_keys) = list_value (remove1 (ha_page a) (claimed page_keys db))"
    and "queued image_keys (handoff_db a db) = ha_manifest a # queued image_keys db"
    using f by (auto simp: handoff_db_def claimed_def queued_def)
qed (auto simp: handoff_db_def)

lemma foreign_keys:
  assumes "handoff_foreign a"
  shows "k \<in> queue_key_set page_keys \<Longrightarrow> k \<notin> {ha_page a, ha_outlinks a, qk_queue image_keys}"
    and "k \<in> queue_key_set image_keys \<Longrightarrow> k \<notin> {ha_page a, ha_outlinks a, qk_processing page_keys}"
proof -
  have "qk_queue image_keys \<in> queue_key_set image_keys" "qk_processing page_keys \<in> queue_key_set page_keys"
    by (simp_all add: queue_key_set_def)
  then show "k \<in> queue_key_set page_keys \<Longrightarrow> k \<notin> {ha_page a, ha_outlinks a, qk_queue image_keys}"
    and "k \<in> queue_key_set image_keys \<Longrightarrow> k \<notin> {ha_page a, ha_outlinks a, qk_processing page_keys}"
    using assms queues_apart unfolding handoff_foreign_def by blast+
qed

text \<open>It finishes a claim of the page queue and feeds the image queue.\<close>

lemma handoff_steps:
  assumes "handoff_foreign a"
  shows "qsteps page_messages page_keys db (snd (handoff_script mem_redis (owner_text token n) (show_nat n) a db))"
    and "qsteps image_messages image_keys db (snd (handoff_script mem_redis (owner_text token n) (show_nat n) a db))"
proof -
  obtain r db' where run: "handoff_script mem_redis (owner_text token n) (show_nat n) a db = (r, db')" by fastforce
  note h = handoff_run [OF run] and q = handoff_db_queues [OF assms]
  have "qsteps page_messages page_keys db db' \<and> qsteps image_messages image_keys db db'"
  proof (cases "r = Inr 1")
    case True
    have "qstep page_messages page_keys db db'"
      using h(1) [OF True] q(2,4) foreign_keys(1) [OF assms]
      by (intro qstep.finish [of _ token n _ "ha_page a"]) auto
    moreover have "qstep image_messages image_keys (c_lpush mem_redis (qk_queue image_keys) (ha_manifest a) db) db'"
    proof (rule qstep.foreign)
      fix k assume k: "k \<in> queue_key_set image_keys"
      have foreign: "k \<noteq> ha_page a" "k \<noteq> ha_outlinks a" "k \<noteq> qk_processing page_keys"
        using foreign_keys(2) [OF assms k] by auto
      then show "db' k = c_lpush mem_redis (qk_queue image_keys) (ha_manifest a) db k"
        using h(1) [OF True] by (simp add: handoff_db_def queued_def)
    qed
    ultimately show ?thesis by (meson qstep.produce converse_rtranclp_into_rtranclp r_into_rtranclp)
  next
    case False
    then show ?thesis using h(2) by simp
  qed
  then show "qsteps page_messages page_keys db (snd (handoff_script mem_redis (owner_text token n) (show_nat n) a db))"
    and "qsteps image_messages image_keys db (snd (handoff_script mem_redis (owner_text token n) (show_nat n) a db))"
    using run by simp_all
qed

lemma simulates_handoff:
  assumes "redis_documented C V"
  shows "simulates V (handoff_script C owner epoch a) (handoff_script mem_redis owner epoch a)"
  unfolding handoff_script_def
  by (intro sim_intros simulates_require_owner [OF assms];
      simp add: documented_cmds [OF assms] documented_reads [OF assms] owner_documented [OF assms])

section \<open>Operations as protocol steps\<close>

text \<open>Steps of both queues at once.\<close>

definition pipeline :: "('w \<Rightarrow> rdb) \<Rightarrow> 'w \<Rightarrow> 'w \<Rightarrow> bool" where
  "pipeline V w w' \<longleftrightarrow> by_steps V page_messages page_keys w w' \<and> by_steps V image_messages image_keys w w'"

interpretation pipe: world_relation "pipeline V" for V
  by unfold_locales (auto simp: pipeline_def by_steps_def)

lemma pipeline_keeps:
  "keeps (pipeline V) m \<longleftrightarrow> keeps (by_steps V page_messages page_keys) m \<and> keeps (by_steps V image_messages image_keys) m"
  by (auto simp: keeps_def pipeline_def)

definition pipeline_net :: "('w \<Rightarrow> rdb) \<Rightarrow> ('w, 'z) rc_env_scheme \<Rightarrow> bool" where
  "pipeline_net V env \<longleftrightarrow> steps_only V page_messages page_keys env \<and> steps_only V image_messages image_keys env"

lemma keeps_handoff:
  assumes doc: "redis_documented (rc_cmds env) V" and net: "pipeline_net V env" and a: "handoff_foreign a"
  shows "keeps (pipeline V) (call_as_owner env cl (\<lambda>owner epoch. handoff_script (rc_cmds env) owner epoch a))"
proof -
  have "keeps (pipeline V) (handoff_script (rc_cmds env) owner (show_nat n) a)"
    if owner: "utf8_encode (rc_owner_token cl @ [58] @ show_nat n) = Some owner" for owner n
  proof -
    obtain t where "owner = owner_text t n" by (rule owner_encoding [OF owner])
    then show ?thesis
      using simulates_handoff [OF doc, of owner "show_nat n" a] handoff_steps [OF a]
      unfolding keeps_def pipeline_def by_steps_def simulates_def by (metis snd_conv)
  qed
  then show ?thesis
    unfolding pipeline_keeps using net keeps_call_as_owner
    by (auto simp: pipeline_keeps pipeline_net_def intro!: keeps_call_as_owner)
qed

lemma keeps_page_read:
  assumes "pipeline_net V env" and "\<And>w. snd (script w) = w"
  shows "keeps (pipeline V) (call_server env script)"
  using assms unfolding pipeline_keeps pipeline_net_def by (auto intro: keeps_read)

lemma keeps_page_client:
  assumes doc: "redis_documented (rc_cmds env) V" and net: "pipeline_net V env"
  shows "keeps (pipeline V) (page_acquire_lock env cl)" and "keeps (pipeline V) (page_renew_lock env cl)"
    and "keeps (pipeline V) (page_release_lock env cl)" and "keeps (pipeline V) (claim_page env cl)"
    and "keeps (pipeline V) (recover_abandoned_claims env cl limit)" and "keeps (pipeline V) (release_page env cl key)"
    and "keeps (pipeline V) (quarantine_page env cl key)" and "keeps (pipeline V) (page_work_sizes env cl)"
proof -
  have n: "steps_only V page_messages page_keys env" "steps_only V image_messages image_keys env"
    using net by (simp_all add: pipeline_net_def)
  note own = client_steps [OF doc n(1)] and other = page_queue.client_foreign [OF doc n(2) queues_apart]
  show "keeps (pipeline V) (page_acquire_lock env cl)" "keeps (pipeline V) (page_renew_lock env cl)"
    "keeps (pipeline V) (page_release_lock env cl)" "keeps (pipeline V) (claim_page env cl)"
    "keeps (pipeline V) (recover_abandoned_claims env cl limit)" "keeps (pipeline V) (page_work_sizes env cl)"
    unfolding page_acquire_lock_def page_renew_lock_def page_release_lock_def claim_page_def
      recover_abandoned_claims_def page_work_sizes_def pipeline_keeps
    by (intro conjI own other)+
  show "keeps (pipeline V) (release_page env cl key)" "keeps (pipeline V) (quarantine_page env cl key)"
    unfolding release_page_def quarantine_page_def
    by (intro pipe.keeps_derived; simp add: pipeline_keeps own other)+
qed

lemma keeps_lpush:
  assumes "redis_documented C V" and "k \<notin> queue_key_set page_keys \<union> queue_key_set image_keys"
  shows "keeps (pipeline V) (lpush_cmd C k v)"
proof -
  have sim: "simulates V (lpush_cmd C k v) (lpush_cmd mem_redis k v)"
    unfolding lpush_cmd_def
    by (intro sim_intros; simp add: documented_cmds [OF assms(1)] documented_reads [OF assms(1)])
  have "snd (lpush_cmd mem_redis k v db) k' = db k'"
    if "k' \<in> queue_key_set page_keys \<union> queue_key_set image_keys" for db k'
    using that assms(2) by (auto simp: lpush_cmd_def check_run bind_eq)
  then show ?thesis
    unfolding pipeline_keeps by (auto intro!: keeps_foreign_script [OF sim])
qed

lemma keeps_page_operations:
  assumes doc: "redis_documented (rc_cmds env) V" and net: "pipeline_net V env"
  shows "keeps (pipeline V) (signal_crawler env cl)" and "keeps (pipeline V) (complete_page env cl key url)"
    and "keeps (pipeline V) (skip_page env cl key)" and "keeps (pipeline V) (get_page_data env tt cl key)"
    and "keeps (pipeline V) (get_outlinks env cl key url)"
proof -
  note call = keeps_handoff [OF doc net] and client = keeps_page_client [OF doc net]
  have signal: "SIGNAL_QUEUE_KEY \<notin> queue_key_set page_keys \<union> queue_key_set image_keys"
    by (simp add: SIGNAL_QUEUE_KEY_def queue_key_set_def page_keys_def image_keys_def)
  have "keeps (pipeline V) (call_server env (lpush_cmd (rc_cmds env) SIGNAL_QUEUE_KEY RESUME_CRAWL))"
    using net keeps_lpush [OF doc signal] unfolding pipeline_keeps pipeline_net_def by (auto intro: keeps_call_server)
  then show "keeps (pipeline V) (signal_crawler env cl)"
    unfolding signal_crawler_def require_client_def by (intro pipe.keeps_rules client)
  have args: "keeps (pipeline V) (bind (lift (handoff_arguments key outlinks manifest publication url')) (\<lambda>a.
        bind (call_as_owner env cl (\<lambda>owner epoch. handoff_script (rc_cmds env) owner epoch a)) (\<lambda>n. ret (n = 1))))"
    if "parse_page_publication_key key = Inr (publication, url0, outlinks)" for outlinks manifest publication url' url0
  proof (cases "handoff_arguments key outlinks manifest publication url'")
    case (Inl e)
    then show ?thesis by (simp add: keeps_def bind_eq pipe.rel_refl)
  next
    case (Inr a)
    have "keeps (pipeline V) (bind (call_as_owner env cl (\<lambda>owner epoch. handoff_script (rc_cmds env) owner epoch a)) (\<lambda>n. ret (n = 1)))"
      by (intro pipe.keeps_rules call handoff_arguments_foreign [OF that Inr])
    then show ?thesis by (simp add: Inr keeps_def bind_eq)
  qed
  have parsed: "keeps (pipeline V) (bind (lift (parse_page_publication_key key)) f)"
    if "\<And>p. parse_page_publication_key key = Inr p \<Longrightarrow> keeps (pipeline V) (f p)" for f :: "_ \<Rightarrow> ('a, bool) prog"
    using that by (cases "parse_page_publication_key key") (auto simp: keeps_def bind_eq pipe.rel_refl)
  show "keeps (pipeline V) (complete_page env cl key url)"
    unfolding complete_page_def page_complete_script_def require_client_def
    by (intro pipe.keeps_derived parsed pipe.keeps_rules args) auto
  show "keeps (pipeline V) (skip_page env cl key)"
    unfolding skip_page_def page_skip_script_def require_client_def
    by (intro pipe.keeps_derived parsed pipe.keeps_rules args) auto
  have "keeps (pipeline V) (hgetall_text env k)" for k
    unfolding hgetall_text_def by (intro pipe.keeps_rules keeps_page_read [OF net] hgetall_pure)
  then show "keeps (pipeline V) (get_page_data env tt cl key)"
    unfolding get_page_data_def require_client_def by (intro pipe.keeps_rules)
  show "keeps (pipeline V) (get_outlinks env cl key url)"
    unfolding get_outlinks_def require_client_def
    by (intro pipe.keeps_rules keeps_page_read [OF net]) (simp add: smembers_cmd_def check_run bind_eq)
qed

lemmas page_redis_eval [eval_simps] =
  page_keys_def page_messages_def is_decode_error_def decode_page_def get_page_data_def smembers_cmd_def
  get_outlinks_def handoff_arguments_def complete_page_def skip_page_def lpush_cmd_def signal_crawler_def
  page_complete_script_def page_skip_script_def handoff_script_def

end
