(* ===== verification/Page_Mongo.thy ===== *)
theory Page_Mongo
  imports Page_Model Image_Reconcile
begin

text \<open>
  \<open>data/mongo_client.py\<close> of the page indexer. \<open>replace_search_state\<close> makes the words, the metadata and
  the outlinks of a URL those of a publication, \<open>remove_search_state\<close> removes them, and
  \<open>save_page_artifact\<close> keeps the original of a rendered page; all check ownership before each write
  and fence every write with the epoch. The canonical URL lock is the collection the image indexer
  uses too.

  The lemmas: newer documents survive whatever happens, and the exact result of an operation that
  returns \<open>True\<close> undisturbed.
\<close>

definition WORDS_COLLECTION :: string where "WORDS_COLLECTION = ''words''"
definition PAGE_OUTLINKS_COLLECTION :: string where "PAGE_OUTLINKS_COLLECTION = ''outlinks''"
definition DICTIONARY_COLLECTION :: string where "DICTIONARY_COLLECTION = ''dictionary''"
definition PAGE_ARTIFACTS_COLLECTION :: string where "PAGE_ARTIFACTS_COLLECTION = ''page_artifacts''"
definition PAGE_ARTIFACT_RETENTION_DAYS :: int where "PAGE_ARTIFACT_RETENTION_DAYS = 30"

lemmas search_collections =
  WORDS_COLLECTION_def PAGE_OUTLINKS_COLLECTION_def DICTIONARY_COLLECTION_def PAGE_ARTIFACTS_COLLECTION_def
  METADATA_COLLECTION_def CANONICAL_LOCKS_COLLECTION_def

definition page_validate_mongo_auth :: "pystr \<Rightarrow> pystr \<Rightarrow> bool \<Rightarrow> exn + unit" where
  "page_validate_mongo_auth username password allow_insecure =
     bindE (requireE ((username = []) = (password = []))
       (ValueError ''MONGO_USERNAME and MONGO_PASSWORD must be set together'')) (\<lambda>_.
     requireE (username \<noteq> [] \<or> allow_insecure)
       (ValueError ''MongoDB authentication is required unless ALLOW_INSECURE_DATASTORES=true is explicitly set for local testing''))"

text \<open>The unique indexes the client creates when it connects.\<close>

definition word_url_index :: index where
  "word_url_index d =
     Some [case map_of d (py ''word'') of None \<Rightarrow> BNull | Some v \<Rightarrow> v, case map_of d (py ''url'') of None \<Rightarrow> BNull | Some v \<Rightarrow> v]"

definition page_indexes :: "string \<Rightarrow> index list" where
  "page_indexes coll =
     (if coll = CANONICAL_LOCKS_COLLECTION then [id_index, owner_token_index]
      else if coll = WORDS_COLLECTION then [id_index, word_url_index]
      else [id_index])"

section \<open>Batches\<close>

definition perform_batch_operations ::
    "('w, 'z) service_env_scheme \<Rightarrow> bool \<Rightarrow> update_op list \<Rightarrow> string \<Rightarrow> ('w, write_result option) prog" where
  "perform_batch_operations env connected operations collection_name =
     (if \<not> connected then ret None
      else if operations = [] then ret None
      else catch (bind (bulk_write env collection_name operations False) (\<lambda>r. ret (Some r))) (\<lambda>_. ret None))"

definition bulk_unless_empty ::
    "('w, 'z) service_env_scheme \<Rightarrow> bool \<Rightarrow> string \<Rightarrow> update_op list \<Rightarrow> ('w, write_result option) prog" where
  "bulk_unless_empty env connected coll operations =
     (if operations = [] then ret None else perform_batch_operations env connected operations coll)"

definition create_words_bulk ::
    "('w, 'z) service_env_scheme \<Rightarrow> bool \<Rightarrow> update_op list \<Rightarrow> ('w, write_result option) prog" where
  "create_words_bulk env connected operations = bulk_unless_empty env connected WORDS_COLLECTION operations"

definition create_metadata_bulk ::
    "('w, 'z) service_env_scheme \<Rightarrow> bool \<Rightarrow> update_op list \<Rightarrow> ('w, write_result option) prog" where
  "create_metadata_bulk env connected operations = bulk_unless_empty env connected METADATA_COLLECTION operations"

definition create_outlinks_bulk ::
    "('w, 'z) service_env_scheme \<Rightarrow> bool \<Rightarrow> update_op list \<Rightarrow> ('w, write_result option) prog" where
  "create_outlinks_bulk env connected operations = bulk_unless_empty env connected PAGE_OUTLINKS_COLLECTION operations"

section \<open>Fencing and the canonical URL lock\<close>

text \<open>\<open>{**identity, "$or": [...]}\<close>; the identity is the list of its conditions.\<close>

definition page_fenced_filter :: "mfilter list \<Rightarrow> nat \<Rightarrow> exn + mfilter" where
  "page_fenced_filter identity fence_epoch =
     (if fence_epoch < 1 then Inl (ValueError ''fence epoch must be a positive integer'')
      else Inr (FAnd (identity @ [FOr [FExists (py ''fence_epoch'') False, FLte (py ''fence_epoch'') (int fence_epoch)]])))"

definition page_lock_token :: "pystr \<Rightarrow> pystr \<Rightarrow> exn + pystr" where
  "page_lock_token process_token publication_id =
     bindE (requireE (process_token \<noteq> []) (ValueError ''process token is required'')) (\<lambda>_.
     bindE (requireE (publication_id \<noteq> []) (ValueError ''publication ID is required'')) (\<lambda>_.
     bindE (sha256_text (py ''page-indexer'' @ [0] @ process_token @ [0] @ publication_id)) (\<lambda>digest.
     Inr (py ''page-indexer:'' @ digest))))"

definition page_acquire_canonical ::
    "('w, 'z) service_env_scheme \<Rightarrow> bool \<Rightarrow> pystr \<Rightarrow> pystr \<Rightarrow> pystr \<Rightarrow> nat \<Rightarrow> ('w, bool) prog" where
  "page_acquire_canonical env connected normalized_url owner_token publication_id fence_epoch =
     (if \<not> connected \<or> normalized_url = [] \<or> owner_token = [] then ret False
      else catch
        (bind (time_now env) (\<lambda>now.
         bind (insert_one env CANONICAL_LOCKS_COLLECTION
           (lock_document ''page-indexer'' normalized_url owner_token publication_id fence_epoch now)) (\<lambda>result.
         ret (wr_acknowledged result))))
        (\<lambda>_. ret False))"

definition publication_is_owned ::
    "('w, 'z) service_env_scheme \<Rightarrow> bool \<Rightarrow> pystr \<Rightarrow> pystr \<Rightarrow> ('w, bool) prog \<Rightarrow> ('w, bool) prog" where
  "publication_is_owned env connected normalized_url canonical_owner_token owner_check =
     andalso owner_check (owns_canonical env connected normalized_url canonical_owner_token)"

section \<open>Documents and operations\<close>

definition word_values :: "pystr \<Rightarrow> pystr \<Rightarrow> nat \<Rightarrow> nat \<Rightarrow> doc" where
  "word_values word url tf fence_epoch =
     [(py ''word'', BStr word), (py ''url'', BStr url), (py ''tf'', BInt (int tf)), (py ''weight'', BInt 0),
      (py ''fence_epoch'', BInt (int fence_epoch))]"

definition create_words_entry_operation :: "bool \<Rightarrow> pystr \<Rightarrow> pystr \<Rightarrow> nat \<Rightarrow> nat \<Rightarrow> exn + update_op option" where
  "create_words_entry_operation connected word url tf fence_epoch =
     (if \<not> connected then Inr None
      else bindE (page_fenced_filter [FEq (py ''word'') (BStr word), FEq (py ''url'') (BStr url)] fence_epoch) (\<lambda>selector.
        Inr (Some \<lparr>up_filter = selector, up_set = word_values word url tf fence_epoch, up_set_on_insert = [], up_upsert = True\<rparr>)))"

definition optional_text :: "pystr option \<Rightarrow> bson" where
  "optional_text s = (case s of None \<Rightarrow> BNull | Some t \<Rightarrow> BStr t)"

text \<open>\<open>Metadata(...).to_dict()\<close> of a page, with the epoch.\<close>

definition metadata_document ::
    "text_tables \<Rightarrow> page \<Rightarrow> html_data \<Rightarrow> (pystr, nat) dict \<Rightarrow> nat \<Rightarrow> doc" where
  "metadata_document tt page_data html top_words fence_epoch =
     [(py ''_id'', BStr (pg_normalized_url page_data)), (py ''title'', optional_text (hd_title html)),
      (py ''description'', optional_text (hd_description html)), (py ''summary_text'', BStr (hd_summary_text html)),
      (py ''last_crawled'', BStr (tt_stamp tt (pg_last_crawled page_data))),
      (py ''keywords'', BDoc (map (\<lambda>(w, n). (w, BInt (int n))) top_words)),
      (py ''fence_epoch'', BInt (int fence_epoch))]"

definition create_metadata_entry_operation ::
    "text_tables \<Rightarrow> bool \<Rightarrow> page \<Rightarrow> html_data \<Rightarrow> (pystr, nat) dict \<Rightarrow> nat \<Rightarrow> exn + update_op option" where
  "create_metadata_entry_operation tt connected page_data html top_words fence_epoch =
     (if \<not> connected then Inr None
      else bindE (page_fenced_filter [FEq (py ''_id'') (BStr (pg_normalized_url page_data))] fence_epoch) (\<lambda>f.
        Inr (Some \<lparr>up_filter = f, up_set = metadata_document tt page_data html top_words fence_epoch,
                   up_set_on_insert = [], up_upsert = True\<rparr>)))"

definition create_outlinks_entry_operation :: "bool \<Rightarrow> outlinks option \<Rightarrow> nat \<Rightarrow> exn + update_op option" where
  "create_outlinks_entry_operation connected links fence_epoch =
     (if \<not> connected then Inr None
      else (case links of
              None \<Rightarrow> Inr None
            | Some o' \<Rightarrow> bindE (page_fenced_filter [FEq (py ''_id'') (BStr (ol_id o'))] fence_epoch) (\<lambda>f.
                Inr (Some \<lparr>up_filter = f,
                  up_set = [(py ''_id'', BStr (ol_id o')), (py ''links'', BArr (map BStr (ol_links o'))),
                            (py ''fence_epoch'', BInt (int fence_epoch))],
                  up_set_on_insert = [], up_upsert = True\<rparr>))))"

definition dictionary_operation :: "pystr \<Rightarrow> update_op" where
  "dictionary_operation word =
     \<lparr>up_filter = FEq (py ''_id'') (BStr word), up_set = [(py ''_id'', BStr word)], up_set_on_insert = [], up_upsert = True\<rparr>"

definition add_words_to_dictionary ::
    "('w, 'z) service_env_scheme \<Rightarrow> bool \<Rightarrow> pystr list \<Rightarrow> ('w, write_result option) prog" where
  "add_words_to_dictionary env connected words =
     (if \<not> connected then ret None
      else if words = [] then ret None
      else perform_batch_operations env connected (map dictionary_operation words) DICTIONARY_COLLECTION)"

text \<open>The lower-cased words of a text, each once.\<close>

definition dictionary_operations :: "(pystr \<Rightarrow> pystr) \<Rightarrow> pystr list \<Rightarrow> update_op list" where
  "dictionary_operations t words = map (dictionary_operation \<circ> lower_text t) (remdups (map (lower_text t) words))"

definition outlinks_document :: "pystr \<Rightarrow> outlinks \<Rightarrow> nat \<Rightarrow> doc" where
  "outlinks_document url links fence_epoch =
     [(py ''_id'', BStr url), (py ''links'', BArr (map BStr (sort (ol_links links)))),
      (py ''fence_epoch'', BInt (int fence_epoch))]"

section \<open>The search state of a URL\<close>

definition with_page_filter :: "mfilter list \<Rightarrow> nat \<Rightarrow> (mfilter \<Rightarrow> ('w, 'a) prog) \<Rightarrow> ('w, 'a) prog" where
  "with_page_filter identity fence_epoch k = bind (lift (page_fenced_filter identity fence_epoch)) k"

text \<open>\<open>if operations: if not owned or not acknowledged: return False\<close>\<close>

definition bulk_if_owned ::
    "('w, 'z) service_env_scheme \<Rightarrow> ('w, bool) prog \<Rightarrow> string \<Rightarrow> update_op list \<Rightarrow> ('w, bool) prog" where
  "bulk_if_owned env owned coll operations =
     (if operations = [] then ret True else andalso owned (acked (bulk_write env coll operations False)))"

definition word_operations :: "pystr \<Rightarrow> (pystr, nat) dict \<Rightarrow> nat \<Rightarrow> exn + update_op list" where
  "word_operations url top_words fence_epoch =
     mapE (\<lambda>(word, frequency). bindE (create_words_entry_operation True word url frequency fence_epoch) (\<lambda>op. Inr (the op))) top_words"

definition stale_page_words :: "pystr \<Rightarrow> (pystr, nat) dict \<Rightarrow> mfilter list" where
  "stale_page_words url top_words = [FEq (py ''url'') (BStr url), FNin (py ''word'') (map (BStr \<circ> fst) top_words)]"

definition search_state_body ::
    "('w, 'z) service_env_scheme \<Rightarrow> text_tables \<Rightarrow> ('w, bool) prog \<Rightarrow> page \<Rightarrow> html_data \<Rightarrow> (pystr, nat) dict \<Rightarrow>
       outlinks \<Rightarrow> nat \<Rightarrow> update_op list \<Rightarrow> update_op list \<Rightarrow> ('w, bool) prog" where
  "search_state_body env tt owned page_data html top_words links fence_epoch word_ops dictionary_ops =
     (let url = pg_normalized_url page_data in
     guarded owned (
     guarded (acked (with_page_filter (stale_page_words url top_words) fence_epoch (delete_many env WORDS_COLLECTION))) (
     guarded (bulk_if_owned env owned WORDS_COLLECTION word_ops) (
     guarded (bulk_if_owned env owned DICTIONARY_COLLECTION dictionary_ops) (
     guarded owned (
     guarded (acked (with_page_filter [FEq (py ''_id'') (BStr url)] fence_epoch (\<lambda>f.
       replace_one env METADATA_COLLECTION f (metadata_document tt page_data html top_words fence_epoch) True))) (
     guarded owned (
     guarded (acked (with_page_filter [FEq (py ''_id'') (BStr url)] fence_epoch (\<lambda>f.
       replace_one env PAGE_OUTLINKS_COLLECTION f (outlinks_document url links fence_epoch) True))) (
     ret True)))))))))"

definition replace_search_state ::
    "('w, 'z) service_env_scheme \<Rightarrow> text_tables \<Rightarrow> (pystr \<Rightarrow> pystr) \<Rightarrow> bool \<Rightarrow> page \<Rightarrow> html_data \<Rightarrow>
       (pystr, nat) dict \<Rightarrow> outlinks \<Rightarrow> nat \<Rightarrow> pystr \<Rightarrow> ('w, bool) prog \<Rightarrow> ('w, bool) prog" where
  "replace_search_state env tt t connected page_data html top_words links fence_epoch owner_token owner_check =
     (if \<not> connected then ret False
      else bind (lift (word_operations (pg_normalized_url page_data) top_words fence_epoch)) (\<lambda>word_ops.
        catch
          (search_state_body env tt
             (publication_is_owned env connected (pg_normalized_url page_data) owner_token owner_check)
             page_data html top_words links fence_epoch word_ops (dictionary_operations t (hd_text html)))
          (\<lambda>_. ret False)))"

definition remove_search_state ::
    "('w, 'z) service_env_scheme \<Rightarrow> bool \<Rightarrow> pystr \<Rightarrow> nat \<Rightarrow> pystr \<Rightarrow> ('w, bool) prog \<Rightarrow> ('w, bool) prog" where
  "remove_search_state env connected normalized_url fence_epoch owner_token owner_check =
     (if \<not> connected \<or> normalized_url = [] then ret False
      else let owned = publication_is_owned env connected normalized_url owner_token owner_check in
      catch
        (guarded owned (
         guarded (acked (with_page_filter [FEq (py ''url'') (BStr normalized_url)] fence_epoch (delete_many env WORDS_COLLECTION))) (
         guarded owned (
         guarded (acked (with_page_filter [FEq (py ''_id'') (BStr normalized_url)] fence_epoch (delete_one env METADATA_COLLECTION))) (
         guarded owned (
         guarded (acked (with_page_filter [FEq (py ''_id'') (BStr normalized_url)] fence_epoch (delete_one env PAGE_OUTLINKS_COLLECTION)))
         owned))))))
        (\<lambda>_. ret False))"

section \<open>Page artifacts\<close>

definition artifact_document :: "page \<Rightarrow> datetime \<Rightarrow> nat \<Rightarrow> exn + doc" where
  "artifact_document page_data expires_at fence_epoch =
     bindE (bson_date (pg_last_crawled page_data)) (\<lambda>crawled.
     bindE (bson_date expires_at) (\<lambda>expires.
     Inr [(py ''_id'', BStr (pg_normalized_url page_data)), (py ''original_html'', BStr (pg_original_html page_data)),
          (py ''rendered_html'', BStr (pg_html page_data)), (py ''rendered'', BBool True),
          (py ''render_policy_rule'', BStr (pg_render_policy_rule page_data)),
          (py ''render_policy_sha256'', BStr (pg_render_policy_sha256 page_data)),
          (py ''content_type'', BStr (pg_content_type page_data)), (py ''status_code'', BInt (pg_status_code page_data)),
          (py ''last_crawled'', crawled), (py ''expires_at'', expires), (py ''fence_epoch'', BInt (int fence_epoch))]))"

definition save_page_artifact ::
    "('w, 'z) service_env_scheme \<Rightarrow> bool \<Rightarrow> page \<Rightarrow> nat \<Rightarrow> pystr \<Rightarrow> ('w, bool) prog \<Rightarrow> ('w, bool) prog" where
  "save_page_artifact env connected page_data fence_epoch owner_token owner_check =
     (if \<not> pg_rendered page_data then ret True
      else if \<not> connected then ret False
      else bind (lift (datetime_add (pg_last_crawled page_data) (PAGE_ARTIFACT_RETENTION_DAYS * DAY_MICROS))) (\<lambda>expires_at.
        catch
          (guarded (publication_is_owned env connected (pg_normalized_url page_data) owner_token owner_check)
             (acked (with_page_filter [FEq (py ''_id'') (BStr (pg_normalized_url page_data))] fence_epoch (\<lambda>f.
               bind (lift (artifact_document page_data expires_at fence_epoch)) (\<lambda>artifact.
               replace_one env PAGE_ARTIFACTS_COLLECTION f artifact True)))))
          (\<lambda>_. ret False)))"

section \<open>Fencing\<close>

definition search_state_collections :: "string set" where
  "search_state_collections = {WORDS_COLLECTION, METADATA_COLLECTION, PAGE_OUTLINKS_COLLECTION, PAGE_ARTIFACTS_COLLECTION}"

lemma page_fenced_filter_spares: "page_fenced_filter identity n = Inr f \<Longrightarrow> newer n d \<Longrightarrow> \<not> doc_matches f d"
  by (auto simp: page_fenced_filter_def newer_def split: if_splits)

lemma words_entry_spares:
  "bindE (create_words_entry_operation True word url tf n) (\<lambda>op. Inr (the op)) = Inr op \<Longrightarrow> newer n d \<Longrightarrow>
     \<not> doc_matches (up_filter op) d"
  by (auto simp: create_words_entry_operation_def sum_iffs dest: page_fenced_filter_spares)

lemma word_operations_spare:
  assumes "word_operations url top_words n = Inr ops" and "op \<in> set ops" and "newer n d"
  shows "\<not> doc_matches (up_filter op) d"
  by (rule mapE_image_operations_spare [OF assms(1) [unfolded word_operations_def] _ assms(2)])
    (auto split: prod.splits dest: words_entry_spares [OF _ assms(3)] simp del: bindE_simps)

context world_relation
begin

lemma keeps_with_page_filter:
  "(\<And>f. page_fenced_filter identity epoch = Inr f \<Longrightarrow> keeps rel (k f)) \<Longrightarrow> keeps rel (with_page_filter identity epoch k)"
  unfolding with_page_filter_def keeps_def
  by (cases "page_fenced_filter identity epoch") (auto simp: bind_eq rel_refl)

lemma keeps_publication_is_owned:
  assumes "net_within rel env" and "keeps rel owner_check"
  shows "keeps rel (publication_is_owned env connected url token owner_check)"
  unfolding publication_is_owned_def owns_canonical_def
  by (intro keeps_derived keeps_rules keeps_reads assms)

end

lemma keeps_search_writes:
  assumes doc: "service_mongo_documented (mg_cmds env) M idx" and net: "net_within (spares M search_state_collections (newer n)) env"
  shows "keeps (spares M search_state_collections (newer n)) (acked (with_page_filter identity n (delete_many env coll)))"
    and "keeps (spares M search_state_collections (newer n)) (acked (with_page_filter identity n (delete_one env coll)))"
    and "keeps (spares M search_state_collections (newer n)) (acked (with_page_filter identity n (\<lambda>f. replace_one env coll f d True)))"
  by (intro spared.keeps_acked spared.keeps_with_page_filter keeps_spared(2,3,4) [OF doc net];
      blast dest: page_fenced_filter_spares)+

lemma search_state_spares:
  assumes doc: "service_mongo_documented (mg_cmds env) M idx" and net: "net_within (spares M search_state_collections (newer n)) env"
    and check: "keeps (spares M search_state_collections (newer n)) owner_check"
  shows "keeps (spares M search_state_collections (newer n))
      (replace_search_state env tt t connected page_data html top_words links n token owner_check)"
    and "keeps (spares M search_state_collections (newer n)) (remove_search_state env connected url n token owner_check)"
    and "keeps (spares M search_state_collections (newer n)) (save_page_artifact env connected page_data n token owner_check)"
proof -
  let ?R = "spares M search_state_collections (newer n)"
  note writes = keeps_search_writes [OF doc net] and owned = spared.keeps_publication_is_owned [OF net check]
  have dictionary: "keeps ?R (bulk_if_owned env owned' DICTIONARY_COLLECTION ops)" if "keeps ?R owned'" for owned' ops
    unfolding bulk_if_owned_def
    by (intro spared.keeps_rules spared.keeps_derived that spared.keeps_acked keeps_spared(5) [OF doc net])
      (simp add: search_state_collections_def search_collections)
  have words: "keeps ?R (bulk_if_owned env owned' WORDS_COLLECTION ops)"
    if "keeps ?R owned'" "word_operations u top_words n = Inr ops" for owned' ops u
    unfolding bulk_if_owned_def
    by (intro spared.keeps_rules spared.keeps_derived that(1) spared.keeps_acked keeps_spared(5) [OF doc net])
      (use word_operations_spare [OF that(2)] in blast)
  show "keeps ?R (replace_search_state env tt t connected page_data html top_words links n token owner_check)"
    unfolding replace_search_state_def search_state_body_def Let_def
    by (intro spared.keeps_if spared.keeps_pure spared.keeps_catch spared.keeps_guarded
        keeps_bind_lift [OF spared.world_relation_axioms] writes owned dictionary words)
  show "keeps ?R (remove_search_state env connected url n token owner_check)"
    unfolding remove_search_state_def Let_def
    by (intro spared.keeps_rules spared.keeps_guarded writes owned)
  have "keeps ?R (acked (with_page_filter identity n (\<lambda>f. bind (lift (artifact_document page_data e n)) (\<lambda>artifact.
      replace_one env PAGE_ARTIFACTS_COLLECTION f artifact True))))" for identity e
    by (intro spared.keeps_acked spared.keeps_with_page_filter keeps_bind_lift [OF spared.world_relation_axioms]
        keeps_spared(4) [OF doc net]) (blast dest: page_fenced_filter_spares)
  then show "keeps ?R (save_page_artifact env connected page_data n token owner_check)"
    unfolding save_page_artifact_def
    by (intro spared.keeps_rules spared.keeps_guarded owned)
qed


section \<open>Operations that succeed\<close>

text \<open>
  A bulk of upserts made from rows with different keys: each leaves a document that satisfies its
  row's condition, and only such documents are new.
\<close>

lemma bulk_rows:
  assumes ops: "mapE mk rows = Inr ops" and keys: "distinct (map key rows)"
    and run: "coll_bulk idx True ops c = (True, c')"
    and upsert: "\<And>r op. mk r = Inr op \<Longrightarrow> up_upsert op"
    and made: "\<And>r op d. mk r = Inr op \<Longrightarrow> made_by op d \<Longrightarrow> good r d"
    and match: "\<And>r r' op d. mk r' = Inr op \<Longrightarrow> good r d \<Longrightarrow> doc_matches (up_filter op) d \<Longrightarrow> key r = key r'"
  shows "r \<in> set rows \<Longrightarrow> \<exists>d \<in> set c'. good r d" and "d \<in> set c' \<Longrightarrow> d \<in> set c \<or> (\<exists>r \<in> set rows. good r d)"
proof -
  have all: "list_all2 (\<lambda>r op. mk r = Inr op) rows ops" using ops by (simp add: mapE_Inr_iff)
  have from_row: "\<exists>r \<in> set rows. mk r = Inr op" if "op \<in> set ops" for op
    using all that by (fastforce simp: list_all2_conv_all_nth in_set_conv_nth)
  have sep: "sorted_wrt (\<lambda>op op'. \<forall>d. made_by op d \<longrightarrow> \<not> doc_matches (up_filter op') d) ops"
    unfolding sorted_wrt_iff_nth_less
  proof (intro allI impI notI)
    fix i j d assume ij: "i < j" "j < length ops" and m: "made_by (ops ! i) d" and d: "doc_matches (up_filter (ops ! j)) d"
    have row: "mk (rows ! i) = Inr (ops ! i)" "mk (rows ! j) = Inr (ops ! j)" and len: "length rows = length ops"
      using all ij by (simp_all add: list_all2_conv_all_nth)
    have "key (rows ! i) = key (rows ! j)" by (rule match [OF row(2) made [OF row(1) m] d])
    then show False using nth_eq_iff_index_eq [OF keys, of i j] ij len by simp
  qed
  show "\<exists>d \<in> set c'. good r d" if member: "r \<in> set rows"
  proof -
    obtain op where op: "op \<in> set ops" "mk r = Inr op"
      using all member by (fastforce simp: list_all2_conv_all_nth in_set_conv_nth)
    obtain d where "d \<in> set c'" "made_by op d"
      using coll_bulk_leaves [OF run op(1) _ sep] upsert from_row by blast
    then show ?thesis using made [OF op(2)] by blast
  qed
  show "d \<in> set c \<or> (\<exists>r \<in> set rows. good r d)" if "d \<in> set c'"
    using coll_bulk_made [OF run that] from_row made by blast
qed

lemma coll_bulk_unordered: "coll_bulk idx b ops c = (True, c') \<Longrightarrow> coll_bulk idx True ops c = (True, c')"
  by (induction ops arbitrary: c) (auto split: option.splits if_splits)

definition has_fields :: "doc \<Rightarrow> doc \<Rightarrow> bool" where
  "has_fields kvs d \<longleftrightarrow> (\<forall>(k, v) \<in> set kvs. map_of d k = Some v)"

lemma set_fields_has: "distinct (map fst kvs) \<Longrightarrow> has_fields kvs (set_fields kvs d)"
  unfolding has_fields_def by (auto simp: set_fields_distinct dest: map_of_is_SomeI)

lemma made_has_fields: "made_by op d \<Longrightarrow> distinct (map fst (up_set op)) \<Longrightarrow> has_fields (up_set op) d"
  by (auto simp: made_by_def upsert_doc_def set_fields_has)

lemma page_word_operation_made:
  assumes "(case p of (word, frequency) \<Rightarrow> bindE (create_words_entry_operation True word url frequency n) (\<lambda>op. Inr (the op))) = Inr op"
  shows "up_upsert op" and "made_by op d \<Longrightarrow> has_fields (word_values (fst p) url (snd p) n) d"
    and "has_fields (word_values (fst q) url (snd q) n) d \<Longrightarrow> doc_matches (up_filter op) d \<Longrightarrow> fst q = fst p"
proof -
  have op: "up_set op = word_values (fst p) url (snd p) n" "up_upsert op"
    "doc_matches (up_filter op) d \<Longrightarrow> field_matches (py ''word'') (BStr (fst p)) d"
    using assms by (auto simp: create_words_entry_operation_def page_fenced_filter_def sum_iffs split: prod.splits if_splits)
  show "up_upsert op" by (rule op)
  show "made_by op d \<Longrightarrow> has_fields (word_values (fst p) url (snd p) n) d"
    using made_has_fields [of op d] op(1) by (simp add: word_values_def)
  show "has_fields (word_values (fst q) url (snd q) n) d \<Longrightarrow> doc_matches (up_filter op) d \<Longrightarrow> fst q = fst p"
    using op(3) by (auto simp: has_fields_def word_values_def field_matches_def value_matches_def)
qed

lemma dictionary_operation_made:
  "made_by (dictionary_operation w) d \<Longrightarrow> map_of d (py ''_id'') = Some (BStr w)"
  using made_has_fields [of "dictionary_operation w" d] by (simp add: dictionary_operation_def has_fields_def)

lemma dictionary_bulk:
  assumes "coll_bulk idx True (map dictionary_operation words) c = (True, c')" and "w \<in> set words"
  shows "\<exists>d \<in> set c'. map_of d (py ''_id'') = Some (BStr w)"
proof -
  have "\<forall>op \<in> set (map dictionary_operation words). up_upsert op" by (simp add: dictionary_operation_def)
  have "(\<exists>d \<in> set c. map_of d (py ''_id'') = Some (BStr w)) \<or> w \<in> set words \<Longrightarrow> coll_bulk idx True (map dictionary_operation words) c = (True, c') \<Longrightarrow>
      \<exists>d \<in> set c'. map_of d (py ''_id'') = Some (BStr w)" for c
  proof (induction words arbitrary: c)
    case (Cons v words)
    then obtain c1 where c1: "coll_update idx (dictionary_operation v) c = Some c1"
      and rest: "coll_bulk idx True (map dictionary_operation words) c1 = (True, c')"
      by (auto split: option.splits)
    have "\<exists>d \<in> set c1. map_of d (py ''_id'') = Some (BStr w)" if "v = w"
      using coll_update_set(3) [OF c1] dictionary_operation_made [of v] that
      by (auto simp: made_by_def) (auto simp: dictionary_operation_def)
    moreover have "\<exists>d \<in> set c1. map_of d (py ''_id'') = Some (BStr w)"
      if e: "e \<in> set c" "map_of e (py ''_id'') = Some (BStr w)" and "v \<noteq> w" for e
      using coll_update_set(1) [OF c1 e(1)] e(2) that(3) by (auto simp: dictionary_operation_def field_matches_def)
    ultimately show ?case using Cons.IH [OF _ rest] Cons.prems(1) by auto
  qed simp
  with assms show ?thesis by blast
qed

lemma acked_page: "acked (with_page_filter identity n k) w = (Inr True, w') \<Longrightarrow>
    \<exists>f r. page_fenced_filter identity n = Inr f \<and> k f w = (Inr r, w')"
  by (auto simp: acked_def with_page_filter_def bind_Inr_iff)

lemma bulk_if_owned_True:
  assumes doc: "service_mongo_documented (mg_cmds env) M idx" and still: "undisturbed M env"
    and owned: "\<And>w r v. owned w = (r, v) \<Longrightarrow> M v = M w"
    and run: "bulk_if_owned env owned coll ops w = (Inr True, w')"
  shows "\<exists>c. coll_bulk (idx coll) True ops (M w coll) = (True, c) \<and> M w' = (M w)(coll := c)"
proof (cases "ops = []")
  case True
  then show ?thesis using run by (simp add: bulk_if_owned_def fun_upd_idem)
next
  case False
  then obtain v r where v: "owned w = (Inr True, v)" "bulk_write env coll ops False v = (Inr r, w')"
    using run by (auto simp: bulk_if_owned_def andalso_def acked_def bind_Inr_iff split: if_splits)
  obtain c where "coll_bulk (idx coll) False ops (M v coll) = (True, c)" "M w' = (M v)(coll := c)"
    using bulk_write_Inr [OF doc still v(2)] by blast
  then show ?thesis using coll_bulk_unordered owned [OF v(1)] by metis
qed

text \<open>
  The words of a URL when its search state has been replaced: one document with the fields of each
  word, and no document of the URL for any other word, except newer ones.
\<close>

definition page_words_reconciled :: "pystr \<Rightarrow> (pystr, nat) dict \<Rightarrow> nat \<Rightarrow> doc list \<Rightarrow> bool" where
  "page_words_reconciled url top_words n c \<longleftrightarrow>
     (\<forall>(word, tf) \<in> set top_words. \<exists>d \<in> set c. has_fields (word_values word url tf n) d) \<and>
     (\<forall>d \<in> set c. map_of d (py ''url'') = Some (BStr url) \<longrightarrow>
        newer n d \<or> (\<exists>word \<in> fst ` set top_words. field_matches (py ''word'') (BStr word) d))"

lemma page_stale_or_newer:
  assumes "page_fenced_filter identity n = Inr f" and "d \<in> set (delete_all f c)" and "\<forall>g \<in> set identity. doc_matches g d"
  shows "newer n d"
  using assms by (auto simp: delete_all_set page_fenced_filter_def newer_def list_all_iff split: if_splits)

lemma page_words_after:
  assumes f: "page_fenced_filter (stale_page_words url top_words) n = Inr f" and keys: "distinct (map fst top_words)"
    and ops: "word_operations url top_words n = Inr ops"
    and run: "coll_bulk idx True ops (delete_all f c) = (True, c')"
  shows "page_words_reconciled url top_words n c'"
proof -
  note rows = bulk_rows [OF ops [unfolded word_operations_def] keys run page_word_operation_made]
  have stored: "p \<in> set top_words \<Longrightarrow> \<exists>d \<in> set c'. has_fields (word_values (fst p) url (snd p) n) d" for p
    by (rule rows(1))
  have new: "d \<in> set c' \<Longrightarrow> d \<in> set (delete_all f c) \<or> (\<exists>p \<in> set top_words. has_fields (word_values (fst p) url (snd p) n) d)" for d
    by (rule rows(2))
  show ?thesis
    unfolding page_words_reconciled_def
  proof (intro conjI ballI impI)
    fix p assume "p \<in> set top_words"
    then show "case p of (word, tf) \<Rightarrow> \<exists>d \<in> set c'. has_fields (word_values word url tf n) d"
      using stored [of p] by (simp add: case_prod_beta)
  next
    fix d assume d: "d \<in> set c'" "map_of d (py ''url'') = Some (BStr url)"
    show "newer n d \<or> (\<exists>word \<in> fst ` set top_words. field_matches (py ''word'') (BStr word) d)"
    proof (cases "\<exists>p \<in> set top_words. has_fields (word_values (fst p) url (snd p) n) d")
      case True
      then show ?thesis by (force simp: has_fields_def word_values_def field_matches_def value_matches_def)
    next
      case False
      then have kept: "d \<in> set (delete_all f c)" using new [OF d(1)] by blast
      show ?thesis
      proof (cases "\<exists>word \<in> fst ` set top_words. field_matches (py ''word'') (BStr word) d")
        case False
        then have "\<forall>g \<in> set (stale_page_words url top_words). doc_matches g d"
          using d(2) by (simp add: stale_page_words_def field_matches_def [of "py ''url''"] value_matches_def list_ex_iff)
        then show ?thesis using page_stale_or_newer [OF f kept] by blast
      qed simp
    qed
  qed
qed


lemma publication_is_owned_keeps:
  assumes still: "undisturbed M env" and check: "\<And>w r v. owner_check w = (r, v) \<Longrightarrow> M v = M w"
    and run: "publication_is_owned env connected url token owner_check w = (r, v)"
  shows "M v = M w"
proof -
  have "keeps (\<lambda>w w'. M w' = M w) owner_check" using check by (simp add: keeps_def)
  from keepsD [OF untouched.keeps_publication_is_owned [OF still [unfolded undisturbed_def] this] run] show ?thesis .
qed

lemma search_state_body_True:
  assumes doc: "service_mongo_documented (mg_cmds env) M idx" and still: "undisturbed M env"
    and owned: "\<And>w r v. owned w = (r, v) \<Longrightarrow> M v = M w" and keys: "distinct (map fst top_words)"
    and ops: "word_operations (pg_normalized_url page_data) top_words n = Inr word_ops"
    and run: "search_state_body env tt owned page_data html top_words links n word_ops (dictionary_operations t words) w = (Inr True, w')"
  shows "page_words_reconciled (pg_normalized_url page_data) top_words n (M w' WORDS_COLLECTION)"
    and "metadata_document tt page_data html top_words n \<in> set (M w' METADATA_COLLECTION)"
    and "outlinks_document (pg_normalized_url page_data) links n \<in> set (M w' PAGE_OUTLINKS_COLLECTION)"
    and "x \<in> set words \<Longrightarrow> \<exists>d \<in> set (M w' DICTIONARY_COLLECTION). map_of d (py ''_id'') = Some (BStr (lower_text t (lower_text t x)))"
proof -
  let ?url = "pg_normalized_url page_data"
  obtain v1 v2 v3 v4 v5 v6 v7 where 1: "owned w = (Inr True, v1)"
    and 2: "acked (with_page_filter (stale_page_words ?url top_words) n (delete_many env WORDS_COLLECTION)) v1 = (Inr True, v2)"
    and 3: "bulk_if_owned env owned WORDS_COLLECTION word_ops v2 = (Inr True, v3)"
    and 4: "bulk_if_owned env owned DICTIONARY_COLLECTION (dictionary_operations t words) v3 = (Inr True, v4)"
    and 5: "owned v4 = (Inr True, v5)"
    and 6: "acked (with_page_filter [FEq (py ''_id'') (BStr ?url)] n (\<lambda>f.
       replace_one env METADATA_COLLECTION f (metadata_document tt page_data html top_words n) True)) v5 = (Inr True, v6)"
    and 7: "owned v6 = (Inr True, v7)"
    and 8: "acked (with_page_filter [FEq (py ''_id'') (BStr ?url)] n (\<lambda>f.
       replace_one env PAGE_OUTLINKS_COLLECTION f (outlinks_document ?url links n) True)) v7 = (Inr True, w')"
    using run by (auto simp: search_state_body_def Let_def guarded_True)
  obtain f r where f: "page_fenced_filter (stale_page_words ?url top_words) n = Inr f"
    and del: "delete_many env WORDS_COLLECTION f v1 = (Inr r, v2)"
    using acked_page [OF 2] by blast
  have bulk: "\<exists>c. coll_bulk (idx coll) True ops (M x coll) = (True, c) \<and> M y = (M x)(coll := c)"
    if "bulk_if_owned env owned coll ops x = (Inr True, y)" for coll ops x y
    using owned that by (rule bulk_if_owned_True [OF doc still])
  have m2: "M v2 = (M w)(WORDS_COLLECTION := delete_all f (M w WORDS_COLLECTION))"
    using delete_many_Inr [OF doc still del] owned [OF 1] by simp
  obtain c3 where c3: "coll_bulk (idx WORDS_COLLECTION) True word_ops (delete_all f (M w WORDS_COLLECTION)) = (True, c3)"
      "M v3 = (M v2)(WORDS_COLLECTION := c3)"
    using bulk [OF 3] m2 by auto
  obtain c4 where c4: "coll_bulk (idx DICTIONARY_COLLECTION) True (dictionary_operations t words) (M v3 DICTIONARY_COLLECTION) = (True, c4)"
      "M v4 = (M v3)(DICTIONARY_COLLECTION := c4)"
    using bulk [OF 4] by blast
  obtain f6 r6 where 6: "replace_one env METADATA_COLLECTION f6 (metadata_document tt page_data html top_words n) True v5 = (Inr r6, v6)"
    using acked_page [OF 6] by auto
  obtain c6 where c6: "metadata_document tt page_data html top_words n \<in> set c6" "M v6 = (M v4)(METADATA_COLLECTION := c6)"
    using replace_one_Inr [OF doc still 6] coll_replace_set(3) owned [OF 5] by force
  obtain f8 r8 where 8: "replace_one env PAGE_OUTLINKS_COLLECTION f8 (outlinks_document ?url links n) True v7 = (Inr r8, w')"
    using acked_page [OF 8] by auto
  obtain c8 where c8: "outlinks_document ?url links n \<in> set c8" "M w' = (M v6)(PAGE_OUTLINKS_COLLECTION := c8)"
    using replace_one_Inr [OF doc still 8] coll_replace_set(3) owned [OF 7] by force
  have final: "M w' WORDS_COLLECTION = c3" "M w' METADATA_COLLECTION = c6" "M w' PAGE_OUTLINKS_COLLECTION = c8"
    "M w' DICTIONARY_COLLECTION = c4"
    by (simp_all add: c8 c6 c4 c3 search_collections)
  show "page_words_reconciled ?url top_words n (M w' WORDS_COLLECTION)"
    unfolding final by (rule page_words_after [OF f keys ops c3(1)])
  show "metadata_document tt page_data html top_words n \<in> set (M w' METADATA_COLLECTION)"
    and "outlinks_document ?url links n \<in> set (M w' PAGE_OUTLINKS_COLLECTION)"
    using c6(1) c8(1) by (simp_all add: final)
  show "\<exists>d \<in> set (M w' DICTIONARY_COLLECTION). map_of d (py ''_id'') = Some (BStr (lower_text t (lower_text t x)))"
    if "x \<in> set words"
  proof -
    let ?ws = "map (lower_text t) (remdups (map (lower_text t) words))"
    have "dictionary_operations t words = map dictionary_operation ?ws" by (simp add: dictionary_operations_def)
    then have "coll_bulk (idx DICTIONARY_COLLECTION) True (map dictionary_operation ?ws) (M v3 DICTIONARY_COLLECTION) = (True, c4)"
      using c4(1) by simp
    then show ?thesis unfolding final by (rule dictionary_bulk) (use that in auto)
  qed
qed

text \<open>Ids are unique, as the database's own index has it; then a fenced deletion by id is complete.\<close>

definition unique_ids :: "doc list \<Rightarrow> bool" where
  "unique_ids c \<longleftrightarrow> distinct (List.map_filter (\<lambda>d. map_of d (py ''_id'')) c)"

lemma unique_ids_other:
  assumes "unique_ids (a @ e # b)" and "map_of e (py ''_id'') = Some v" and "x \<in> set a \<union> set b"
  shows "map_of x (py ''_id'') \<noteq> Some v"
proof
  assume x: "map_of x (py ''_id'') = Some v"
  have member: "x \<in> set c \<Longrightarrow> v \<in> set (List.map_filter (\<lambda>d. map_of d (py ''_id'')) c)" for c
    using x by (induction c) (auto simp: List.map_filter_simps split: option.splits)
  show False
    using assms member by (auto simp: unique_ids_def List.map_filter_def)
qed

lemma delete_first_ids:
  assumes "unique_ids c" and "page_fenced_filter [FEq (py ''_id'') (BStr url)] n = Inr f"
    and "d \<in> set (delete_first f c)" and "map_of d (py ''_id'') = Some (BStr url)"
  shows "newer n d"
proof (cases "first_match f c")
  case None
  then have "delete_first f c = c" by (simp add: delete_first_def)
  moreover have "\<forall>e \<in> set c. \<not> doc_matches f e" using None by (simp only: first_match_None)
  ultimately have "d \<in> set (delete_all f c)" using assms(3) by (simp add: delete_all_set)
  then show ?thesis using page_stale_or_newer [OF assms(2)] assms(4) by (simp add: field_matches_def)
next
  case (Some p)
  then obtain a e b where p: "first_match f c = Some (a, e, b)" by (cases p) auto
  note e = first_match_Some [OF p]
  have "map_of e (py ''_id'') = Some (BStr url)"
    using e assms(2) by (auto simp: page_fenced_filter_def field_matches_def split: if_splits)
  moreover have "d \<in> set a \<union> set b" using assms(3) p by (auto simp: delete_first_def)
  ultimately show ?thesis
    using unique_ids_other [of a e b "BStr url" d] assms(1,4) e by simp
qed

lemma delete_one_Inr:
  assumes doc: "service_mongo_documented (mg_cmds env) M idx" and still: "undisturbed M env"
    and run: "delete_one env coll f w = (Inr r, w')"
  shows "M w' = (M w)(coll := delete_first f (M w coll))"
proof -
  obtain v where v: "mg_net env w = (Delivered, v)" "mc_delete_one (mg_cmds env) coll f v = (Inr r, w')"
    using call_mongo_Inr run unfolding delete_one_def by metis
  have "simulates M (mc_delete_one (mg_cmds env) coll f) (mc_delete_one (mem_service_mongo idx) coll f)"
    using doc by (simp add: service_mongo_documented_def)
  from simulatesD [OF this v(2)] show ?thesis
    using undisturbed_net [OF still v(1)] by (simp add: mem_service_mongo_def mem_delete_def)
qed

text \<open>No searchable document of the URL is left, except newer ones.\<close>

definition search_state_removed :: "pystr \<Rightarrow> nat \<Rightarrow> mdb \<Rightarrow> bool" where
  "search_state_removed url n db \<longleftrightarrow>
     (\<forall>d \<in> set (db WORDS_COLLECTION). map_of d (py ''url'') = Some (BStr url) \<longrightarrow> newer n d) \<and>
     (\<forall>d \<in> set (db METADATA_COLLECTION) \<union> set (db PAGE_OUTLINKS_COLLECTION).
        map_of d (py ''_id'') = Some (BStr url) \<longrightarrow> newer n d)"

lemma remove_search_state_True:
  assumes doc: "service_mongo_documented (mg_cmds env) M idx" and still: "undisturbed M env"
    and check: "\<And>w r v. owner_check w = (r, v) \<Longrightarrow> M v = M w"
    and unique: "unique_ids (M w METADATA_COLLECTION)" "unique_ids (M w PAGE_OUTLINKS_COLLECTION)"
    and run: "remove_search_state env connected url n token owner_check w = (Inr True, w')"
  shows "search_state_removed url n (M w')"
proof -
  let ?owned = "publication_is_owned env connected url token owner_check"
  have owned: "M v = M u" if "?owned u = (r, v)" for u r v
    using check that by (rule publication_is_owned_keeps [OF still])
  obtain v1 v2 v3 v4 v5 v6 where 1: "?owned w = (Inr True, v1)"
    and 2: "acked (with_page_filter [FEq (py ''url'') (BStr url)] n (delete_many env WORDS_COLLECTION)) v1 = (Inr True, v2)"
    and 3: "?owned v2 = (Inr True, v3)"
    and 4: "acked (with_page_filter [FEq (py ''_id'') (BStr url)] n (delete_one env METADATA_COLLECTION)) v3 = (Inr True, v4)"
    and 5: "?owned v4 = (Inr True, v5)"
    and 6: "acked (with_page_filter [FEq (py ''_id'') (BStr url)] n (delete_one env PAGE_OUTLINKS_COLLECTION)) v5 = (Inr True, v6)"
    and 7: "?owned v6 = (Inr True, w')"
    using run by (auto simp: remove_search_state_def Let_def guarded_True catch_Inr_iff split: if_splits)
  obtain f r where f: "page_fenced_filter [FEq (py ''url'') (BStr url)] n = Inr f" "delete_many env WORDS_COLLECTION f v1 = (Inr r, v2)"
    using acked_page [OF 2] by blast
  obtain g s where g: "page_fenced_filter [FEq (py ''_id'') (BStr url)] n = Inr g" "delete_one env METADATA_COLLECTION g v3 = (Inr s, v4)"
    using acked_page [OF 4] by blast
  obtain s' where h: "delete_one env PAGE_OUTLINKS_COLLECTION g v5 = (Inr s', v6)"
    using acked_page [OF 6] g(1) by auto
  have db: "M w' = (M w)(WORDS_COLLECTION := delete_all f (M w WORDS_COLLECTION),
      METADATA_COLLECTION := delete_first g (M w METADATA_COLLECTION),
      PAGE_OUTLINKS_COLLECTION := delete_first g (M w PAGE_OUTLINKS_COLLECTION))"
    using delete_many_Inr [OF doc still f(2)] delete_one_Inr [OF doc still g(2)] delete_one_Inr [OF doc still h]
      owned [OF 1] owned [OF 3] owned [OF 5] owned [OF 7]
    by (simp add: search_collections)
  show ?thesis
    unfolding search_state_removed_def db
    using page_stale_or_newer [OF f(1)] delete_first_ids [OF unique(1) g(1)]
      delete_first_ids [OF unique(2) g(1)]
    by (auto simp: field_matches_def value_matches_def search_collections)
qed

lemmas page_mongo_eval [eval_simps] =
  search_collections page_validate_mongo_auth_def word_url_index_def page_indexes_def page_fenced_filter_def
  page_lock_token_def word_values_def create_words_entry_operation_def optional_text_def
  metadata_document_def dictionary_operation_def dictionary_operations_def outlinks_document_def
  with_page_filter_def bulk_if_owned_def word_operations_def stale_page_words_def artifact_document_def

end
