(* ===== verification/Page_Main.thy ===== *)
theory Page_Main
  imports Page_Redis Page_Mongo
begin

text \<open>
  \<open>main.py\<close> of the page indexer: one claim from its parsing to the hand-over to the image indexer, and
  the service loop with the signal that resumes the crawler. \<open>connected\<close> is whether the MongoDB client
  was initialised; the text of a page and its language are the parameter \<open>pe_html\<close>. The log lines and
  the claim references they print are not modelled.

  The lemmas: everything the service does to Redis is steps of the page queue's protocol and, at the
  same time, steps of the image queue's.
\<close>

record 'w page_env = "'w indexer_env" +
  pe_tables :: text_tables
  pe_html :: "pystr \<Rightarrow> bool \<Rightarrow> exn + html_data"

section \<open>Ownership\<close>

definition page_renew_owner :: "('w, 'z) indexer_env_scheme \<Rightarrow> redis_client \<Rightarrow> ('w, bool) prog" where
  "page_renew_owner env cl = false_on_error (page_renew_lock env cl)"

definition page_acquire_owner ::
    "('w, 'z) indexer_env_scheme \<Rightarrow> nat \<Rightarrow> redis_client \<Rightarrow> ('w, (bool \<times> redis_client) option) prog" where
  "page_acquire_owner env fuel cl = acquire_loop env (page_acquire_lock env) fuel cl"

definition page_recover_claims :: "('w, 'z) indexer_env_scheme \<Rightarrow> nat \<Rightarrow> redis_client \<Rightarrow> ('w, bool option) prog" where
  "page_recover_claims env fuel cl =
     recover_batches env (page_renew_owner env cl) (recover_abandoned_claims env cl INDEXER_RECOVERY_BATCH_SIZE)
       INDEXER_RECOVERY_BATCH_SIZE fuel"

definition page_owner_check ::
    "('w, 'z) indexer_env_scheme \<Rightarrow> redis_client \<Rightarrow> bool \<Rightarrow> pystr \<Rightarrow> pystr \<Rightarrow> ('w, bool) prog" where
  "page_owner_check env cl connected key_url token =
     andalso (is_running env) (andalso (page_renew_owner env cl) (owns_canonical env connected key_url token))"

section \<open>One claim\<close>

text \<open>What the steps of one claim have in common.\<close>

record 'w claim_context =
  cc_client :: redis_client
  cc_connected :: bool
  cc_page_key :: pystr
  cc_key_url :: pystr
  cc_epoch :: nat
  cc_token :: pystr
  cc_check :: "('w, bool) prog"

definition remove_state_and_skip ::
    "('w, 'z) indexer_env_scheme \<Rightarrow> 'w claim_context \<Rightarrow> pystr \<Rightarrow> ('w, claim_outcome) prog" where
  "remove_state_and_skip env c normalized_url =
     bind (cc_check c) (\<lambda>ok.
     if \<not> ok then ret TransientFailure
     else bind (attempt (remove_search_state env (cc_connected c) normalized_url (cc_epoch c) (cc_token c) (cc_check c))) (\<lambda>removed.
       case removed of
         Inl e \<Rightarrow> ret TransientFailure
       | Inr done_ok \<Rightarrow>
           bind (if done_ok then cc_check c else ret False) (\<lambda>current.
           if \<not> current then ret TransientFailure
           else outcome_of Skipped (skip_page env (cc_client c) (cc_page_key c)))))"

definition quarantine_if_owned :: "('w, 'z) indexer_env_scheme \<Rightarrow> 'w claim_context \<Rightarrow> ('w, claim_outcome) prog" where
  "quarantine_if_owned env c =
     outcome_of Quarantined (andalso (cc_check c) (quarantine_page env (cc_client c) (cc_page_key c)))"

definition index_text ::
    "('w, 'z) page_env_scheme \<Rightarrow> 'w claim_context \<Rightarrow> page \<Rightarrow> html_data \<Rightarrow> ('w, claim_outcome) prog" where
  "index_text env c page html =
     (let url = pg_normalized_url page;
          keywords = page_keywords (sv_lower env) (hd_text html) url in
      bind (attempt (get_outlinks env (cc_client c) (cc_page_key c) url)) (\<lambda>fetched.
      case fetched of
        Inl e \<Rightarrow> ret TransientFailure
      | Inr links \<Rightarrow>
          bind (attempt (replace_search_state env (pe_tables env) (sv_lower env) (cc_connected c) page html keywords links
            (cc_epoch c) (cc_token c) (cc_check c))) (\<lambda>reconciled.
          case reconciled of
            Inl e \<Rightarrow> ret TransientFailure
          | Inr ok \<Rightarrow>
              bind (if ok then cc_check c else ret False) (\<lambda>current.
              if \<not> current then ret TransientFailure
              else outcome_of Completed (complete_page env (cc_client c) (cc_page_key c) url)))))"

definition index_page :: "('w, 'z) page_env_scheme \<Rightarrow> 'w claim_context \<Rightarrow> page \<Rightarrow> ('w, claim_outcome) prog" where
  "index_page env c page =
     (if pg_normalized_url page \<noteq> cc_key_url c then ret TransientFailure
      else bind (attempt (if pg_rendered page
              then save_page_artifact env (cc_connected c) page (cc_epoch c) (cc_token c) (cc_check c) else ret True)) (\<lambda>saved.
        if saved \<noteq> Inr True then ret TransientFailure
        else (case pe_html env (pg_html page) (pg_rendered page) of
                Inl e \<Rightarrow> ret TransientFailure
              | Inr html \<Rightarrow>
                  if hd_language html \<noteq> py ''en'' \<or> hd_text html = []
                  then remove_state_and_skip env c (pg_normalized_url page)
                  else index_text env c page html)))"

definition process_page :: "('w, 'z) page_env_scheme \<Rightarrow> 'w claim_context \<Rightarrow> ('w, claim_outcome) prog" where
  "process_page env c =
     bind (attempt (get_page_data env (pe_tables env) (cc_client c) (cc_page_key c))) (\<lambda>loaded.
     case loaded of
       Inl (PageDataDecodeError _) \<Rightarrow> quarantine_if_owned env c
     | Inl e \<Rightarrow> ret TransientFailure
     | Inr None \<Rightarrow> quarantine_if_owned env c
     | Inr (Some page) \<Rightarrow> index_page env c page)"

text \<open>
  A client without an epoch fails its renewal, so the inner \<open>case\<close> has an epoch whenever it is
  reached.
\<close>

definition page_process_claim ::
    "('w, 'z) page_env_scheme \<Rightarrow> redis_client \<Rightarrow> bool \<Rightarrow> pystr \<Rightarrow> ('w, claim_outcome) prog" where
  "page_process_claim env cl connected page_key =
     (case parse_page_publication_key page_key of
        Inl (InvalidPublicationKey _) \<Rightarrow> ret TransientFailure
      | Inl e \<Rightarrow> raise e
      | Inr (publication_id, key_url, _) \<Rightarrow>
          bind (page_renew_owner env cl) (\<lambda>renewed.
          if \<not> renewed then ret TransientFailure
          else bind (lift (page_lock_token (rc_owner_token cl) publication_id)) (\<lambda>token.
            case rc_owner_epoch cl of
              None \<Rightarrow> ret TransientFailure
            | Some epoch \<Rightarrow>
                bind (false_on_error (page_acquire_canonical env connected key_url token publication_id epoch)) (\<lambda>acquired.
                if \<not> acquired then ret TransientFailure
                else finally_do
                  (process_page env
                     \<lparr>cc_client = cl, cc_connected = connected, cc_page_key = page_key, cc_key_url = key_url,
                      cc_epoch = epoch, cc_token = token, cc_check = page_owner_check env cl connected key_url token\<rparr>)
                  (bind (false_on_error (release_canonical env connected key_url token)) (\<lambda>_. ret ()))))))"

section \<open>The service loop\<close>

text \<open>
  The Redis calls at the top of a turn: \<open>None\<close> when the crawler could not be signalled, otherwise the
  claim, if any, and whether the signal has been sent for the present idle time.
\<close>

definition next_signal :: "('w, 'z) indexer_env_scheme \<Rightarrow> redis_client \<Rightarrow> nat \<Rightarrow> nat \<Rightarrow> bool \<Rightarrow> ('w, bool option) prog" where
  "next_signal env cl queued_pages processing_pages sent =
     (if queued_pages = 0 \<and> processing_pages = 0 \<and> \<not> sent
      then bind (signal_crawler env cl) (\<lambda>ok. ret (if ok then Some True else None))
      else ret (Some (if queued_pages \<noteq> 0 \<or> processing_pages \<noteq> 0 then False else sent)))"

definition poll_queue ::
    "('w, 'z) indexer_env_scheme \<Rightarrow> redis_client \<Rightarrow> bool \<Rightarrow> ('w, (pystr option \<times> bool) option) prog" where
  "poll_queue env cl sent =
     bind (page_work_sizes env cl) (\<lambda>(queued_pages, processing_pages).
     bind (next_signal env cl queued_pages processing_pages sent) (\<lambda>signalled.
     case signalled of
       None \<Rightarrow> ret None
     | Some sent' \<Rightarrow> bind (claim_page env cl) (\<lambda>page_key. ret (Some (page_key, sent')))))"

text \<open>One turn with a claim: \<open>None\<close> goes on, \<open>Some code\<close> leaves the loop.\<close>

definition page_take_claim ::
    "('w, 'z) page_env_scheme \<Rightarrow> redis_client \<Rightarrow> bool \<Rightarrow> pystr \<Rightarrow> ('w, nat option) prog" where
  "page_take_claim env cl connected page_key =
     bind (is_running env) (\<lambda>running.
     if \<not> running then ret (Some 0)
     else (case parse_page_publication_key page_key of
             Inl (InvalidPublicationKey _) \<Rightarrow>
               bind (quarantine_page env cl page_key) (\<lambda>ok. ret (if ok then None else Some 1))
           | Inl e \<Rightarrow> raise e
           | Inr _ \<Rightarrow>
               bind (page_process_claim env cl connected page_key) (\<lambda>outcome.
               if outcome = TransientFailure
               then bind (release_page env cl page_key) (\<lambda>_. ret (Some 1))
               else ret None)))"

primrec page_loop ::
    "('w, 'z) page_env_scheme \<Rightarrow> redis_client \<Rightarrow> bool \<Rightarrow> nat \<Rightarrow> bool \<Rightarrow> int \<Rightarrow> ('w, nat option) prog" where
  "page_loop env cl connected 0 sent last_renewal = ret None"
| "page_loop env cl connected (Suc fuel) sent last_renewal =
     bind (is_running env) (\<lambda>running.
     if \<not> running then ret (Some 0)
     else bind (renew_if_due env INDEXER_LOCK_RENEW_SECONDS (page_renew_owner env cl) last_renewal) (\<lambda>renewal.
       case renewal of
         None \<Rightarrow> ret (Some 1)
       | Some last_renewal' \<Rightarrow>
           bind (attempt (poll_queue env cl sent)) (\<lambda>polled.
           case polled of
             Inl e \<Rightarrow> ret (Some 1)
           | Inr None \<Rightarrow> ret (Some 1)
           | Inr (Some (None, sent')) \<Rightarrow>
               bind (mod_state (sv_sleep env)) (\<lambda>_. page_loop env cl connected fuel sent' last_renewal')
           | Inr (Some (Some page_key, sent')) \<Rightarrow>
               bind (page_take_claim env cl connected page_key) (\<lambda>left.
               case left of None \<Rightarrow> page_loop env cl connected fuel False last_renewal' | Some code \<Rightarrow> ret (Some code)))))"

definition page_serve ::
    "('w, 'z) page_env_scheme \<Rightarrow> redis_client \<Rightarrow> bool \<Rightarrow> nat \<Rightarrow> ('w, nat option) prog" where
  "page_serve env cl connected fuel =
     bind (page_recover_claims env fuel cl) (\<lambda>recovered.
     case recovered of
       None \<Rightarrow> ret None
     | Some ok \<Rightarrow>
         if \<not> ok then stopped_code env
         else bind (monotonic env) (\<lambda>now. page_loop env cl connected fuel False now))"

definition page_run_indexer ::
    "('w, 'z) page_env_scheme \<Rightarrow> redis_client \<Rightarrow> bool \<Rightarrow> nat \<Rightarrow> ('w, nat option) prog" where
  "page_run_indexer env cl connected fuel =
     bind (page_acquire_owner env fuel cl) (\<lambda>acquired.
     case acquired of
       None \<Rightarrow> ret None
     | Some (granted, cl') \<Rightarrow>
         if \<not> granted then stopped_code env
         else release_at_exit (page_release_lock env cl') (page_serve env cl' connected fuel))"

section \<open>Protocol conformance\<close>

lemma pipeline_still: "(\<And>w. V (snd (m w)) = V w) \<Longrightarrow> keeps (pipeline V) m"
  unfolding pipeline_keeps by (auto intro: keeps_still)

lemma keeps_pipeline_mongo:
  assumes "net_within (pipeline V) env" and "mongo_apart V (mg_cmds env)"
  shows "keeps (pipeline V) (insert_one env c d)" and "keeps (pipeline V) (delete_one env c f)"
    and "keeps (pipeline V) (delete_many env c f)" and "keeps (pipeline V) (replace_one env c f e u)"
    and "keeps (pipeline V) (bulk_write env c ops b)" and "keeps (pipeline V) (find_one env c f names)"
  using assms(2) unfolding insert_one_def delete_one_def delete_many_def replace_one_def bulk_write_def
  by (intro pipe.keeps_rules pipe.keeps_call_mongo [OF assms(1)] pipe.keeps_reads [OF assms(1)] pipeline_still;
      simp add: mongo_apart_def)+

lemma pipeline_net_within: "net_within (pipeline V) env \<Longrightarrow> pipeline_net V env"
  by (auto simp: net_within_def pipeline_net_def steps_only_def pipeline_def by_steps_def)

lemma keeps_search_state:
  assumes net: "net_within (pipeline V) env" and apart: "mongo_apart V (mg_cmds env)"
    and check: "keeps (pipeline V) owner_check"
  shows "keeps (pipeline V) (replace_search_state env tt t connected page html top_words links n token owner_check)"
    and "keeps (pipeline V) (remove_search_state env connected url n token owner_check)"
    and "keeps (pipeline V) (save_page_artifact env connected page n token owner_check)"
proof -
  note mongo = keeps_pipeline_mongo [OF net apart]
  note rules = pipe.keeps_rules pipe.keeps_derived pipe.keeps_guarded pipe.keeps_acked mongo
    world_relation.keeps_with_page_filter [OF pipe.world_relation_axioms]
    world_relation.keeps_publication_is_owned [OF pipe.world_relation_axioms net check]
  show "keeps (pipeline V) (replace_search_state env tt t connected page html top_words links n token owner_check)"
    unfolding replace_search_state_def search_state_body_def bulk_if_owned_def Let_def by (intro rules)
  show "keeps (pipeline V) (remove_search_state env connected url n token owner_check)"
    unfolding remove_search_state_def Let_def by (intro rules)
  show "keeps (pipeline V) (save_page_artifact env connected page n token owner_check)"
    unfolding save_page_artifact_def by (intro rules)
qed

lemma page_conformance:
  assumes doc: "redis_documented (rc_cmds env) V" and net: "net_within (pipeline V) env"
    and apart: "mongo_apart V (mg_cmds env)"
  shows "keeps (pipeline V) (page_process_claim env cl connected key)"
    and "keeps (pipeline V) (page_run_indexer env cl connected fuel)"
proof -
  note rnet = pipeline_net_within [OF net]
  note client = keeps_page_client [OF doc rnet] keeps_page_operations [OF doc rnet]
  note mongo = keeps_pipeline_mongo [OF net apart]
  note rules = pipe.keeps_rules pipe.keeps_derived pipe.keeps_case_sum pipe.keeps_environment [OF net] client mongo
    pipe.keeps_canonical(2,3) [OF net mongo(1,2)]
  have renew: "keeps (pipeline V) (page_renew_owner env cl)" for cl
    unfolding page_renew_owner_def by (intro rules)
  have check: "keeps (pipeline V) (page_owner_check env cl connected url token)" for cl url token
    unfolding page_owner_check_def by (intro rules renew)
  have acquire: "keeps (pipeline V) (page_acquire_canonical env connected url token publication epoch)" for url token publication epoch
    unfolding page_acquire_canonical_def by (intro rules)
  have process: "keeps (pipeline V) (process_page env c)" if c: "keeps (pipeline V) (cc_check c)" for c
  proof -
    note search = keeps_search_state [OF net apart c]
    have skip: "keeps (pipeline V) (remove_state_and_skip env c url)" for url
      unfolding remove_state_and_skip_def by (intro rules search c)
    have quarantine: "keeps (pipeline V) (quarantine_if_owned env c)"
      unfolding quarantine_if_owned_def by (intro rules c)
    have textual: "keeps (pipeline V) (index_text env c page html)" for page html
      unfolding index_text_def Let_def by (intro rules search c)
    have page: "keeps (pipeline V) (index_page env c page)" for page
      unfolding index_page_def by (intro rules search skip textual)
    have decode: "keeps (pipeline V) (case e of PageDataDecodeError _ \<Rightarrow> quarantine_if_owned env c | _ \<Rightarrow> ret TransientFailure)" for e
      by (cases e) (simp_all add: quarantine pipe.keeps_pure)
    show ?thesis unfolding process_page_def by (intro rules decode quarantine page)
  qed
  show claim: "keeps (pipeline V) (page_process_claim env cl connected key)" for cl key
  proof (cases "parse_page_publication_key key")
    case (Inl e)
    then show ?thesis by (cases e) (simp_all add: page_process_claim_def pipe.keeps_pure)
  next
    case (Inr p)
    obtain a b d where "p = (a, b, d)" by (cases p) auto
    then show ?thesis
      using Inr unfolding page_process_claim_def
      by (auto intro!: rules renew acquire process pipe.keeps_finally check)
  qed
  have take: "keeps (pipeline V) (page_take_claim env cl connected k)" for cl k
  proof -
    have invalid: "keeps (pipeline V) (case e of
        InvalidPublicationKey _ \<Rightarrow> bind (quarantine_page env cl k) (\<lambda>ok. ret (if ok then None else Some (1::nat)))
      | e' \<Rightarrow> raise e')" for e
      by (cases e) (simp_all add: pipe.keeps_pure pipe.keeps_bind client)
    show ?thesis unfolding page_take_claim_def by (intro rules invalid claim)
  qed
  have poll: "keeps (pipeline V) (poll_queue env cl sent)" for cl sent
    unfolding poll_queue_def next_signal_def by (intro rules)
  have loop: "keeps (pipeline V) (page_loop env cl connected fuel sent t)" for cl fuel sent t
  proof (induction fuel arbitrary: sent t)
    case (Suc fuel)
    show ?case
      unfolding page_loop.simps by (intro rules pipe.keeps_renew_if_due [OF net] renew poll take Suc)
  qed (simp add: pipe.keeps_pure)
  have serve: "keeps (pipeline V) (page_serve env cl connected fuel)" for cl fuel
    unfolding page_serve_def page_recover_claims_def
    by (intro rules loop pipe.keeps_recover_batches [OF net] renew pipe.keeps_stopped_code [OF net])
  show "keeps (pipeline V) (page_run_indexer env cl connected fuel)"
    unfolding page_run_indexer_def page_acquire_owner_def
    by (intro rules pipe.keeps_acquire_loop [OF net] pipe.keeps_stopped_code [OF net] pipe.keeps_release_at_exit serve)
qed

end
