(* ===== verification/Page_Load.thy ===== *)
theory Page_Load
  imports Page_Redis Image_Load
begin

text \<open>
  What \<open>get_page_data\<close> of the indexer reads: \<open>page_stored\<close> says which hash Redis holds for a page, field
  by field, and the lemmas show that exactly these hashes are read as that page.
\<close>

section \<open>Stored pages\<close>

text \<open>A field of a hash as text: absent, or the text that its value encodes.\<close>

definition text_at :: "(bytes, bytes) dict \<Rightarrow> string \<Rightarrow> pystr option" where
  "text_at h f = (case map_of h (py f) of None \<Rightarrow> None | Some b \<Rightarrow> utf8_decode b)"

abbreviation stored_or_empty :: "(bytes, bytes) dict \<Rightarrow> string \<Rightarrow> pystr" where
  "stored_or_empty h f \<equiv> (case text_at h f of None \<Rightarrow> [] | Some s \<Rightarrow> s)"

text \<open>A rendered page names its source document and its policy; a static one has none of the three.\<close>

definition provenance_stored :: "(bytes, bytes) dict \<Rightarrow> page \<Rightarrow> bool" where
  "provenance_stored h page \<longleftrightarrow>
     pg_original_html page = stored_or_empty h ''original_html'' \<and>
     pg_render_policy_rule page = stored_or_empty h ''render_policy_rule'' \<and>
     pg_render_policy_sha256 page = stored_or_empty h ''render_policy_sha256'' \<and>
     (if pg_rendered page
      then text_at h ''rendered'' = Some (py ''true'') \<and> pg_original_html page \<noteq> [] \<and>
           pg_render_policy_rule page \<noteq> [] \<and> valid_policy_sha256 (pg_render_policy_sha256 page)
      else text_at h ''rendered'' \<in> {None, Some (py ''false'')} \<and> pg_original_html page = [] \<and>
           pg_render_policy_rule page = [] \<and> pg_render_policy_sha256 page = [])"

definition page_fields_stored :: "text_tables \<Rightarrow> pystr \<Rightarrow> (bytes, bytes) dict \<Rightarrow> page \<Rightarrow> bool" where
  "page_fields_stored tt publication_id h page \<longleftrightarrow>
     text_at h ''publication_id'' = Some publication_id \<and>
     text_at h ''normalized_url'' = Some (pg_normalized_url page) \<and>
     text_at h ''html'' = Some (pg_html page) \<and> text_at h ''content_type'' = Some (pg_content_type page) \<and>
     (\<exists>s. text_at h ''status_code'' = Some s \<and> py_int (tt_digit tt) s = Inr (pg_status_code page)) \<and>
     (\<exists>s. text_at h ''last_crawled'' = Some s \<and> tt_date tt s = Inr (pg_last_crawled page)) \<and>
     provenance_stored h page"

definition hash_is_text :: "(bytes, bytes) dict \<Rightarrow> bool" where
  "hash_is_text h \<longleftrightarrow> (\<forall>(f, v) \<in> set h. utf8_decode f \<noteq> None \<and> utf8_decode v \<noteq> None)"

definition page_stored :: "text_tables \<Rightarrow> rdb \<Rightarrow> pystr \<Rightarrow> page \<Rightarrow> bool" where
  "page_stored tt db page_key page \<longleftrightarrow>
     (\<exists>publication_id e k h.
        publication_id_ok publication_id \<and> key_url_ok (pg_normalized_url page) \<and>
        encode_key_url (pg_normalized_url page) = Some e \<and> page_key = page_key_text publication_id e \<and>
        utf8_encode page_key = Some k \<and> db k = Some (RHash h) \<and> hash_is_text h \<and>
        page_fields_stored tt publication_id h page)"

definition page_absent :: "rdb \<Rightarrow> pystr \<Rightarrow> bool" where
  "page_absent db page_key \<longleftrightarrow>
     (\<exists>publication_id url e. publication_id_ok publication_id \<and> key_url_ok url \<and> encode_key_url url = Some e \<and>
        page_key = page_key_text publication_id e) \<and>
     (\<exists>k. utf8_encode page_key = Some k \<and> (db k = None \<or> db k = Some (RHash [])))"

section \<open>Reading a page\<close>

lemma text_decodes: "hash_is_text h \<longleftrightarrow> (\<exists>m. decode_pairs h = Inr m)"
proof
  assume t: "hash_is_text h"
  have "\<exists>f v. utf8_encode f = Some (fst p) \<and> utf8_encode v = Some (snd p)" if "p \<in> set h" for p
    using t that by (cases p) (auto simp: hash_is_text_def utf8_decode_iff)
  then show "\<exists>m. decode_pairs h = Inr m" using decodes_exists [of h] by (auto simp: decode_pairs_iff)
next
  assume "\<exists>m. decode_pairs h = Inr m"
  then obtain m where "list_all2 decodes h m" by (auto simp: decode_pairs_iff)
  then show "hash_is_text h"
    by (induction rule: list_all2_induct) (auto simp: hash_is_text_def utf8_decode_encode)
qed

lemma decoded_text:
  assumes "decode_pairs h = Inr m" and "is_ascii (py f)"
  shows "map_of m (py f) = text_at h f"
proof -
  have l: "list_all2 decodes h m" using assms(1) by (simp add: decode_pairs_iff)
  have "map_of m (py f) = Some v \<Longrightarrow> \<exists>b. utf8_encode v = Some b" for v
    using decodes_value [OF l] map_of_SomeD by fastforce
  then show ?thesis
    using decodes_lookup [OF l assms(2)]
    by (cases "map_of m (py f)") (auto simp: text_at_def utf8_decode_encode)
qed

lemma decode_page_iff:
  assumes "decode_pairs h = Inr m"
  shows "decode_page tt publication_id url m = Inr page \<longleftrightarrow>
     pg_normalized_url page = url \<and> page_fields_stored tt publication_id h page"
proof -
  have t: "map_of m (py f) = text_at h f"
    if "f \<in> {''publication_id'', ''normalized_url'', ''html'', ''content_type'', ''status_code'', ''last_crawled'',
      ''rendered'', ''original_html'', ''render_policy_rule'', ''render_policy_sha256''}" for f
    using that by (intro decoded_text [OF assms]) (auto simp: py_def is_ascii_def)
  have "decode_page tt publication_id url m = Inr page \<longleftrightarrow>
     text_at h ''publication_id'' = Some publication_id \<and> page_from_hash tt m = Inr page \<and> pg_normalized_url page = url"
    by (auto simp: decode_page_def sum_iffs t split: sum.splits if_splits)
  moreover have "page_from_hash tt m = Inr page \<longleftrightarrow>
      text_at h ''normalized_url'' = Some (pg_normalized_url page) \<and>
      text_at h ''html'' = Some (pg_html page) \<and> text_at h ''content_type'' = Some (pg_content_type page) \<and>
      (\<exists>s. text_at h ''status_code'' = Some s \<and> py_int (tt_digit tt) s = Inr (pg_status_code page)) \<and>
      (\<exists>s. text_at h ''last_crawled'' = Some s \<and> tt_date tt s = Inr (pg_last_crawled page)) \<and>
      provenance_stored h page"
    by (cases page)
      (auto simp: page_from_hash_def required_def optional_def sum_iffs Let_def t provenance_stored_def split: option.splits)
  ultimately show ?thesis by (auto simp: page_fields_stored_def)
qed

lemma hgetall_text_cases:
  assumes "redis_documented (rc_cmds env) V" and "reliable env"
  shows "hgetall_text env k w = (Inr p, w') \<longleftrightarrow>
     w' = w \<and> (V w k = None \<or> (\<exists>h. V w k = Some (RHash h))) \<and> decode_pairs (hash_of (V w k)) = Inr p"
  by (auto simp: hgetall_text_def bind_Inr_iff call_reliable [OF assms(2)] hgetall_cmd_def check_run
      documented_cmds [OF assms(1)] type_of_iffs split: if_splits)

lemma decode_pairs_Nil_iff: "decode_pairs h = Inr [] \<longleftrightarrow> h = []"
  by (simp add: decode_pairs_iff)

lemma get_page_data_iff:
  assumes "redis_documented (rc_cmds env) V" and "reliable env" and "rc_connected cl"
  shows "get_page_data env tt cl page_key w = (Inr (Some page), w') \<longleftrightarrow> w' = w \<and> page_stored tt (V w) page_key page"
    and "get_page_data env tt cl page_key w = (Inr None, w') \<longleftrightarrow> w' = w \<and> page_absent (V w) page_key"
proof -
  have run: "get_page_data env tt cl page_key w = (Inr r, w') \<longleftrightarrow>
     (\<exists>publication_id url outlinks_key k m. parse_page_publication_key page_key = Inr (publication_id, url, outlinks_key) \<and>
        utf8_encode page_key = Some k \<and> (V w k = None \<or> (\<exists>h. V w k = Some (RHash h))) \<and>
        decode_pairs (hash_of (V w k)) = Inr m \<and> w' = w \<and>
        (m = [] \<and> r = None \<or> m \<noteq> [] \<and> (\<exists>p. decode_page tt publication_id url m = Inr p \<and> r = Some p)))" for r
  proof (cases "parse_page_publication_key page_key")
    case (Inr x)
    then show ?thesis
      by (cases x) (auto simp: get_page_data_def require_client_def assms(3) bind_Inr_iff encode_arg_iff
          hgetall_text_cases [OF assms(1,2)] split: if_splits)
  qed (simp add: get_page_data_def require_client_def assms(3) bind_Inr_iff)
  have nonempty: "page_fields_stored tt publication_id h page \<Longrightarrow> h \<noteq> []" for publication_id h
    by (auto simp: page_fields_stored_def text_at_def)
  show "get_page_data env tt cl page_key w = (Inr (Some page), w') \<longleftrightarrow> w' = w \<and> page_stored tt (V w) page_key page"
    (is "?l \<longleftrightarrow> ?r")
  proof
    assume ?l
    then obtain publication_id url e k h m where r: "publication_id_ok publication_id" "key_url_ok url" "encode_key_url url = Some e"
        "page_key = page_key_text publication_id e" "utf8_encode page_key = Some k" "V w k = Some (RHash h)"
        "decode_pairs h = Inr m" "w' = w" "decode_page tt publication_id url m = Inr page"
      unfolding run by (auto simp: decode_pairs_iff parse_page_publication_key_iff)
    then show ?r unfolding page_stored_def text_decodes decode_page_iff [OF r(7)] by blast
  next
    assume ?r
    then obtain publication_id e k h m where r: "publication_id_ok publication_id" "key_url_ok (pg_normalized_url page)"
        "encode_key_url (pg_normalized_url page) = Some e" "page_key = page_key_text publication_id e"
        "utf8_encode page_key = Some k" "V w k = Some (RHash h)" "w' = w" "decode_pairs h = Inr m"
        "page_fields_stored tt publication_id h page"
      unfolding page_stored_def text_decodes by blast
    have "m \<noteq> []" using r(8) nonempty [OF r(9)] by (auto simp: decode_pairs_Nil_iff)
    moreover have "decode_page tt publication_id (pg_normalized_url page) m = Inr page"
      using r(9) decode_page_iff [OF r(8)] by blast
    moreover have "parse_page_publication_key page_key = Inr (publication_id, pg_normalized_url page, outlinks_key_text publication_id e)"
      using r by (simp add: parse_page_publication_key_iff)
    ultimately show ?l using r unfolding run by auto
  qed
  show "get_page_data env tt cl page_key w = (Inr None, w') \<longleftrightarrow> w' = w \<and> page_absent (V w) page_key"
  proof -
    have parsed: "(\<exists>publication_id url outlinks_key. parse_page_publication_key page_key = Inr (publication_id, url, outlinks_key)) \<longleftrightarrow>
      (\<exists>publication_id url e. publication_id_ok publication_id \<and> key_url_ok url \<and> encode_key_url url = Some e \<and>
        page_key = page_key_text publication_id e)"
      unfolding parse_page_publication_key_iff by blast
    have "(V w k = None \<or> (\<exists>h. V w k = Some (RHash h))) \<and> hash_of (V w k) = [] \<longleftrightarrow> V w k = None \<or> V w k = Some (RHash [])" for k
      by auto
    then show ?thesis unfolding run page_absent_def parsed [symmetric] using decode_pairs_Nil_iff by blast
  qed
qed

end
