(* ===== verification/Page_Properties.thy ===== *)
theory Page_Properties
  imports Page_Main Page_Load Image_Properties
begin

text \<open>
  The claims about the page indexer, and about the two indexers together. \<open>V w\<close> is the Redis keyspace
  of the world and \<open>M w\<close> the MongoDB database; the witnesses run in the reference world.
\<close>

definition wit_tables :: text_tables where
  "wit_tables =
     \<lparr>tt_date = (\<lambda>s. Inr \<lparr>dt_fields = UNIX_EPOCH_MICROS, dt_offset = None\<rparr>), tt_stamp = (\<lambda>d. py ''now''), tt_digit = (\<lambda>c. None)\<rparr>"

definition wit_html :: html_data where
  "wit_html =
     \<lparr>hd_title = None, hd_description = None, hd_summary_text = [], hd_text = [py ''cat''], hd_language = py ''en''\<rparr>"

definition page_ref_env :: "ref_world page_env" where
  "page_ref_env =
     indexer_env.extend (ref_env page_indexes) (page_env.fields wit_tables (\<lambda>_ _. Inr wit_html))"

lemma page_ref_env_simps [simp]:
  "rc_cmds page_ref_env = ref_redis" "mg_cmds page_ref_env = ref_mongo page_indexes"
  "rc_net page_ref_env w = (Delivered, w)" "mg_net page_ref_env w = (Delivered, w)"
  "sv_running page_ref_env w = (True, w)" "sv_now page_ref_env w = (0, w)"
  "sv_monotonic page_ref_env w = (0, w)" "sv_sleep page_ref_env w = w"
  by (simp_all add: page_ref_env_def ref_env_def indexer_env.defs page_env.defs)

lemma page_ref_net_within: "(\<And>w. rel w w) \<Longrightarrow> net_within rel page_ref_env"
  by (simp add: net_within_def)

lemma page_ref_undisturbed: "undisturbed M page_ref_env"
  by (simp add: undisturbed_def page_ref_net_within)

section \<open>The queue protocols\<close>

text \<open>
  C18. Parsing a page key inverts making one, and its outlinks and manifest keys name the same
  publication and URL.
\<close>

theorem page_key_roundtrip:
  "parse_page_publication_key key = Inr (publication_id, url, outlinks_key) \<longleftrightarrow>
     publication_id_ok publication_id \<and> key_url_ok url \<and>
     (\<exists>e. encode_key_url url = Some e \<and> key = page_key_text publication_id e \<and>
          outlinks_key = outlinks_key_text publication_id e \<and>
          image_manifest_key_from_page_key key = Inr (manifest_key_text publication_id e))"
proof
  assume "parse_page_publication_key key = Inr (publication_id, url, outlinks_key)"
  then show "publication_id_ok publication_id \<and> key_url_ok url \<and>
     (\<exists>e. encode_key_url url = Some e \<and> key = page_key_text publication_id e \<and>
          outlinks_key = outlinks_key_text publication_id e \<and>
          image_manifest_key_from_page_key key = Inr (manifest_key_text publication_id e))"
    by (metis image_manifest_key_of_page parse_page_publication_key_iff)
qed (auto simp: parse_page_publication_key_iff)

text \<open>
  C19. The page indexer refines the protocols of both queues: whatever it does to Redis, in a run of
  any length and with any failures, is a sequence of steps of the page queue's protocol and also one
  of the image queue's.
\<close>

theorem page_run_indexer_conforms:
  assumes "redis_documented (rc_cmds env) V" and "net_within (pipeline V) env" and "mongo_apart V (mg_cmds env)"
    and "page_run_indexer env cl connected fuel w = (r, w')"
  shows "qsteps page_messages page_keys (V w) (V w') \<and> qsteps image_messages image_keys (V w) (V w') \<and>
    epoch_of page_keys (V w) \<le> epoch_of page_keys (V w')"
proof -
  have "pipeline V w w'"
    by (rule keepsD [OF page_conformance(2) [OF assms(1-3)] assms(4)])
  then show ?thesis by (auto simp: pipeline_def by_steps_def intro: page_queue.qsteps_epoch)
qed

theorem page_run_indexer_conforms_witness:
  "qsteps page_messages page_keys (fst (Map.empty, no_docs))
     (fst (snd (page_run_indexer page_ref_env ref_client True 3 (Map.empty, no_docs))))"
proof -
  have c: "redis_documented (rc_cmds page_ref_env) fst" "net_within (pipeline fst) page_ref_env"
    "mongo_apart fst (mg_cmds page_ref_env)"
    by (simp_all add: ref_redis_documented page_ref_net_within pipe.rel_refl ref_mongo_apart)
  show ?thesis using page_run_indexer_conforms [OF c prod.collapse [symmetric]] by blast
qed

text \<open>
  Once a newer owner has been granted the page queue, nothing an earlier worker runs ever changes
  Redis again: neither its queue scripts nor its hand-over to the image indexer.
\<close>

theorem page_overtaken_worker:
  assumes "n < epoch_of page_keys db" and "qsteps page_messages page_keys db db'"
  shows "run_op page_messages page_keys token n op db' = db' \<and>
    snd (handoff_script mem_redis (owner_text token n) (show_nat n) a db') = db'"
proof -
  have "n < epoch_of page_keys db'" using assms page_queue.qsteps_epoch [OF assms(2)] by simp
  then have "\<not> owns page_keys token n db'" using owns_epoch by fastforce
  then have "snd (handoff_script mem_redis (owner_text token n) (show_nat n) a db') = db'"
    using handoff_run by (metis prod.collapse)
  then show ?thesis using page_queue.overtaken_worker [OF assms] by simp
qed

definition page_epoch_2 :: rdb where
  "page_epoch_2 = [qk_epoch page_keys \<mapsto> RStr (py ''2''), qk_queue page_keys \<mapsto> RList [py ''a'']]"

theorem page_overtaken_worker_witness:
  "run_op page_messages page_keys (py ''old'') 1 Claim page_epoch_2 = page_epoch_2 \<and>
   snd (handoff_script mem_redis (owner_text (py ''old'') 1) (show_nat 1)
     \<lparr>ha_page = [], ha_outlinks = [], ha_manifest = [], ha_publication = [], ha_url = []\<rparr> page_epoch_2) = page_epoch_2"
proof (rule page_overtaken_worker)
  show "1 < epoch_of page_keys page_epoch_2"
    by (simp add: epoch_of_def page_keys_def page_epoch_2_def decimal_value_def py_def)
qed simp

section \<open>The hand-over\<close>

lemma handoff_call:
  assumes doc: "redis_documented (rc_cmds env) V" and net: "rc_net env w = (Delivered, v)"
    and run: "call_as_owner env cl (\<lambda>owner epoch. handoff_script (rc_cmds env) owner epoch a) w = (Inr 1, w')"
  shows "\<exists>t n. handoff_script mem_redis (owner_text t n) (show_nat n) a (V v) = (Inr 1, V w')"
proof -
  obtain n where n: "rc_owner_epoch cl = Some n"
    using run by (cases "rc_owner_epoch cl") (auto simp: call_as_owner_def owner_value_def bind_Inr_iff)
  obtain owner where o: "utf8_encode (rc_owner_token cl @ [58] @ show_nat n) = Some owner"
    and script: "handoff_script (rc_cmds env) owner (show_nat n) a v = (Inr 1, w')"
    using net run n
    by (auto simp: call_as_owner_def owner_value_def encode_arg_def call_server_def bind_Inr_iff
        split: option.splits if_splits)
  obtain t where "owner = owner_text t n" by (rule owner_encoding [OF o])
  then show ?thesis using simulatesD [OF simulates_handoff [OF doc] script] by blast
qed

text \<open>
  C20. Completing or skipping a page that succeeds was one atomic hand-over: the claim was there and
  one occurrence of it is gone, the manifest of the publication was there and heads the image queue,
  the page and its outlinks are deleted, and no other key has changed.
\<close>

theorem page_handoff_exact:
  assumes "redis_documented (rc_cmds env) V" and "rc_net env w = (Delivered, v)"
    and "parse_page_publication_key key = Inr (publication_id, url, outlinks_key)"
    and "image_manifest_key_from_page_key key = Inr manifest_key"
    and "handoff_arguments key outlinks_key manifest_key publication_id url = Inr a"
    and "complete_page env cl key url w = (Inr True, w') \<or> skip_page env cl key w = (Inr True, w')"
  shows "ha_page a \<in> set (claimed page_keys (V v)) \<and>
    claimed page_keys (V w') = remove1 (ha_page a) (claimed page_keys (V v)) \<and>
    queued image_keys (V w') = ha_manifest a # queued image_keys (V v) \<and>
    (\<exists>h. V v (ha_manifest a) = Some (RHash h) \<and> map_of h (py ''publication_id'') = Some (ha_publication a) \<and>
         map_of h (py ''normalized_url'') = Some (ha_url a)) \<and>
    V w' (ha_page a) = None \<and> V w' (ha_outlinks a) = None \<and>
    (\<forall>k. k \<notin> {ha_page a, ha_outlinks a, qk_processing page_keys, qk_queue image_keys} \<longrightarrow> V w' k = V v k)"
proof -
  have "call_as_owner env cl (\<lambda>owner epoch. handoff_script (rc_cmds env) owner epoch a) w = (Inr 1, w')"
    using assms(3-6)
    by (auto simp: complete_page_def skip_page_def page_complete_script_def page_skip_script_def false_on_error_def
        catch_Inr_iff bind_Inr_iff require_client_def split: if_splits)
  then obtain t n where "handoff_script mem_redis (owner_text t n) (show_nat n) a (V v) = (Inr 1, V w')"
    using handoff_call [OF assms(1,2)] by blast
  note run = handoff_run(1) [OF this refl]
  have foreign: "handoff_foreign a" by (rule handoff_arguments_foreign [OF assms(3,5)])
  show ?thesis using run handoff_db_queues [OF foreign] by auto
qed
text \<open>A page in the processing list whose images have been published.\<close>

definition wit_page_key :: pystr where "wit_page_key = page_key_text wit_publication (py ''dQ'')"
definition wit_outlinks_key :: pystr where "wit_outlinks_key = outlinks_key_text wit_publication (py ''dQ'')"

definition crawled :: rdb where
  "crawled =
     [qk_epoch page_keys \<mapsto> RStr [49], qk_lock page_keys \<mapsto> RStr (py ''worker'' @ [58, 49]),
      qk_processing page_keys \<mapsto> RList [wit_page_key], wit_key \<mapsto> RHash wit_manifest,
      wit_outlinks_key \<mapsto> RSet [py ''l'']]"

lemma crawled_at [simp]:
  "crawled wit_key = Some (RHash wit_manifest)" "crawled (qk_processing page_keys) = Some (RList [wit_page_key])"
  "crawled (qk_lock page_keys) = Some (RStr (owner_text (py ''worker'') 1))"
  "crawled (qk_epoch page_keys) = Some (RStr (show_nat 1))" "crawled (qk_queue image_keys) = None"
  "crawled wit_page_key = None" "crawled wit_outlinks_key = Some (RSet [py ''l''])"
  by (simp_all add: crawled_def page_keys_def image_keys_def wit_key_def wit_page_key_def wit_outlinks_key_def
      manifest_key_text_def page_key_text_def outlinks_key_text_def PAGE_PREFIX_def OUTLINKS_PREFIX_def image_constants
      py_def owner_text_def show_nat_small)

lemma wit_page_parsed:
  "parse_page_publication_key wit_page_key = Inr (wit_publication, py ''u'', wit_outlinks_key)"
  "image_manifest_key_from_page_key wit_page_key = Inr wit_key"
proof -
  show p: "parse_page_publication_key wit_page_key = Inr (wit_publication, py ''u'', wit_outlinks_key)"
    using wit_publication_ok wit_urls
    by (auto simp: parse_page_publication_key_iff wit_page_key_def wit_outlinks_key_def)
  obtain e where "encode_key_url (py ''u'') = Some e"
      "image_manifest_key_from_page_key wit_page_key = Inr (manifest_key_text wit_publication e)"
    using image_manifest_key_of_page [OF p] by metis
  then show "image_manifest_key_from_page_key wit_page_key = Inr wit_key"
    by (simp add: wit_urls wit_key_def)
qed

definition wit_handoff :: handoff_args where
  "wit_handoff =
     \<lparr>ha_page = wit_page_key, ha_outlinks = wit_outlinks_key, ha_manifest = wit_key,
      ha_publication = wit_publication, ha_url = py ''u''\<rparr>"

lemma wit_handoff_arguments:
  "handoff_arguments wit_page_key wit_outlinks_key wit_key wit_publication (py ''u'') = Inr wit_handoff"
proof -
  have "is_ascii wit_page_key" "is_ascii wit_outlinks_key"
    by (simp_all add: wit_page_key_def wit_outlinks_key_def page_key_text_def outlinks_key_text_def wit_publication_def
        PAGE_PREFIX_def OUTLINKS_PREFIX_def py_def is_ascii_def list_all_iff)
  then show ?thesis
    by (simp add: handoff_arguments_def encode_arg_def utf8_encode_ascii wit_handoff_def)
qed

lemma wit_completes: "\<exists>db. complete_page page_ref_env ref_client wit_page_key (py ''u'') (crawled, no_docs) = (Inr True, (db, no_docs))"
proof -
  have o: "call_as_owner page_ref_env ref_client script w = script (owner_text (py ''worker'') 1) (show_nat 1) w" for script w
  proof -
    have "utf8_encode (py ''worker'' @ [58] @ show_nat 1) = Some (py ''worker'' @ [58] @ show_nat 1)"
      by (rule utf8_encode_ascii) (simp add: py_def is_ascii_def show_nat_small)
    then show ?thesis
      by (simp add: call_as_owner_def owner_value_def ref_client_def encode_arg_def call_server_def bind_eq owner_text_def)
  qed
  have "\<exists>db. handoff_script ref_redis (owner_text (py ''worker'') 1) (show_nat 1) wit_handoff (crawled, no_docs) = (Inr 1, (db, no_docs))"
    by (simp add: handoff_script_def wit_handoff_def check_run bind_eq require_owner_def owner_types_def owner_matches_def
        redis_read_defs wit_manifest_def ref_redis_def show_nat_small)
  then show ?thesis
    by (auto simp: complete_page_def page_complete_script_def require_client_def wit_page_parsed wit_handoff_arguments
        o bind_eq false_on_error_def catch_def) (simp add: ref_client_def)
qed

theorem page_handoff_exact_witness:
  "\<exists>w'. complete_page page_ref_env ref_client wit_page_key (py ''u'') (crawled, no_docs) = (Inr True, w') \<and>
     claimed page_keys (fst w') = [] \<and> queued image_keys (fst w') = [wit_key] \<and> fst w' wit_outlinks_key = None"
proof -
  obtain db where run: "complete_page page_ref_env ref_client wit_page_key (py ''u'') (crawled, no_docs) = (Inr True, (db, no_docs))"
    using wit_completes by blast
  have c: "redis_documented (rc_cmds page_ref_env) fst" "rc_net page_ref_env (crawled, no_docs) = (Delivered, (crawled, no_docs))"
    by (simp_all add: ref_redis_documented)
  show ?thesis
    using page_handoff_exact [OF c wit_page_parsed wit_handoff_arguments disjI1 [OF run]] run
    by (auto simp: wit_handoff_def claimed_def queued_def)
qed

section \<open>Page data\<close>

text \<open>
  C21. A page is read from Redis exactly when its key names a publication and a URL, the hash at the key is UTF-8 text
  with that publication and that URL, it has its HTML, its content type, a status code that is an integer and a crawl
  date that parses, and its provenance fits: a rendered page has the original HTML, the rule and a policy digest, a
  static one has none of the three. The page returned has these values. No page is the answer exactly when there is no
  hash at such a key; everything else is an exception. Redis is unchanged.
\<close>

theorem get_page_data_exact:
  assumes "redis_documented (rc_cmds env) V" and "reliable env" and "rc_connected cl"
  shows "(get_page_data env tt cl page_key w = (Inr (Some page), w') \<longleftrightarrow> w' = w \<and> page_stored tt (V w) page_key page) \<and>
    (get_page_data env tt cl page_key w = (Inr None, w') \<longleftrightarrow> w' = w \<and> page_absent (V w) page_key)"
  using get_page_data_iff [OF assms] by blast

text \<open>A rendered page of the publication.\<close>

definition wit_page_hash :: "(bytes, bytes) dict" where
  "wit_page_hash =
     [(py ''publication_id'', wit_publication), (py ''normalized_url'', py ''u''), (py ''html'', py ''<p>''),
      (py ''content_type'', py ''text/html''), (py ''status_code'', py ''200''), (py ''last_crawled'', py ''now''),
      (py ''rendered'', py ''true''), (py ''original_html'', py ''<div>''), (py ''render_policy_rule'', py ''spa''),
      (py ''render_policy_sha256'', wit_publication)]"

definition wit_rendered :: page where
  "wit_rendered =
     \<lparr>pg_normalized_url = py ''u'', pg_html = py ''<p>'', pg_content_type = py ''text/html'', pg_status_code = 200,
      pg_last_crawled = \<lparr>dt_fields = UNIX_EPOCH_MICROS, dt_offset = None\<rparr>, pg_rendered = True,
      pg_original_html = py ''<div>'', pg_render_policy_rule = py ''spa'', pg_render_policy_sha256 = wit_publication\<rparr>"

lemma wit_page_stored: "page_stored wit_tables [wit_page_key \<mapsto> RHash wit_page_hash] wit_page_key wit_rendered"
proof -
  have ascii: "is_ascii wit_page_key"
    by (simp add: wit_page_key_def page_key_text_def wit_publication_def PAGE_PREFIX_def py_def is_ascii_def list_all_iff)
  have key: "publication_id_ok wit_publication" "key_url_ok (pg_normalized_url wit_rendered)"
      "encode_key_url (pg_normalized_url wit_rendered) = Some (py ''dQ'')" "wit_page_key = page_key_text wit_publication (py ''dQ'')"
      "utf8_encode wit_page_key = Some wit_page_key"
    using wit_publication_ok wit_urls utf8_encode_ascii [OF ascii] by (simp_all add: wit_rendered_def wit_page_key_def)
  have utf: "utf8_decode wit_publication = Some wit_publication"
      "list_all (\<lambda>s. utf8_decode (py s) = Some (py s)) [''u'', ''<p>'', ''text/html'', ''200'', ''now'', ''true'', ''<div>'',
        ''spa'', ''publication_id'', ''normalized_url'', ''html'', ''content_type'', ''status_code'', ''last_crawled'', ''rendered'',
        ''original_html'', ''render_policy_rule'', ''render_policy_sha256'']"
    by (simp_all add: utf8_decode_ascii wit_publication_def is_ascii_def list_all_iff py_def)
  have sha: "valid_policy_sha256 wit_publication"
    by (simp add: valid_policy_sha256_def wit_publication_def list_all_iff)
  have status: "py_int d (py ''200'') = Inr 200" for d
    by (simp add: py_int_def int_strip_def int_sign_def int_space_def digit_value_def ascii_digit_def digits_value_def
        MAX_INT_DIGITS_def py_def)
  have fields: "page_fields_stored wit_tables wit_publication wit_page_hash wit_rendered"
    using utf sha status
    by (simp add: page_fields_stored_def provenance_stored_def text_at_def wit_page_hash_def wit_rendered_def wit_tables_def)
  have "hash_is_text wit_page_hash" using utf by (simp add: hash_is_text_def wit_page_hash_def)
  then show ?thesis using key fields unfolding page_stored_def by fastforce
qed

theorem get_page_data_exact_witness:
  "get_page_data page_ref_env wit_tables ref_client wit_page_key ([wit_page_key \<mapsto> RHash wit_page_hash], no_docs) =
     (Inr (Some wit_rendered), ([wit_page_key \<mapsto> RHash wit_page_hash], no_docs))"
proof -
  have doc: "redis_documented (rc_cmds page_ref_env) fst" by (simp add: ref_redis_documented)
  have rel: "reliable page_ref_env" by (simp add: reliable_def)
  have "rc_connected ref_client" by (simp add: ref_client_def)
  from get_page_data_exact [OF doc rel this, of wit_tables wit_page_key "([wit_page_key \<mapsto> RHash wit_page_hash], no_docs)"
      wit_rendered "([wit_page_key \<mapsto> RHash wit_page_hash], no_docs)"]
  show ?thesis using wit_page_stored by simp
qed

text \<open>
  The keywords of a page: each word once, none that only the URL has and that is a popular
  domain, and at most 1000 more than the words of the URL.
\<close>

theorem page_keywords_bounded:
  "distinct (map fst (page_keywords t text_words url)) \<and>
   length (page_keywords t text_words url) \<le> 1000 + length (split_url t url) \<and>
   fst ` set (page_keywords t text_words url) \<subseteq> set text_words \<union> (set (split_url t url) - set POPULAR_DOMAINS)"
proof -
  have sub: "fst ` set (counter ws) \<subseteq> set ws" for ws
  proof -
    have "fst ` set (foldl (\<lambda>c w. counter_add c w 1) c ws) \<subseteq> fst ` set c \<union> set ws" for c :: "(pystr, nat) dict"
    proof (induction ws arbitrary: c)
      case (Cons w ws)
      then show ?case using Cons.IH [of "counter_add c w 1"] unfolding counter_add_def by (simp add: dom_update)
    qed simp
    then show ?thesis by (force simp: counter_def)
  qed
  have top: "fst ` set (most_common n c) \<subseteq> fst ` set c" for n c
    by (auto simp: most_common_def dest!: in_set_takeD intro: rev_image_eqI)
  have add: "fst ` set (foldl add_url_word k ws) \<subseteq> fst ` set k \<union> set ws" for k ws
  proof (induction ws arbitrary: k)
    case (Cons w ws)
    then show ?case using Cons.IH [of "add_url_word k w"] unfolding add_url_word_def Let_def by (simp add: dom_update)
  qed simp
  have "fst ` set (page_keywords t text_words url) \<subseteq> set text_words \<union> set (split_url t url)"
    unfolding page_keywords_def using add top sub by blast
  moreover have "set (split_url t url) \<inter> set POPULAR_DOMAINS = {}" using split_url_words by blast
  ultimately show ?thesis using page_keywords_bound [of t text_words url] by blast
qed

section \<open>The search state\<close>

text \<open>
  C22. Fencing: whatever happens during the replacement or the removal of a search state or the saving
  of an artifact, and however it ends, no document of a newer epoch is changed or deleted by it.
\<close>

theorem search_state_fenced:
  assumes "service_mongo_documented (mg_cmds env) M idx" and "net_within (spares M search_state_collections (newer n)) env"
    and "keeps (spares M search_state_collections (newer n)) owner_check"
    and "replace_search_state env tt t connected page html top_words links n token owner_check w = (r, w') \<or>
         remove_search_state env connected url n token owner_check w = (r, w') \<or>
         save_page_artifact env connected page n token owner_check w = (r, w')"
    and "coll \<in> search_state_collections" and "d \<in> set (M w coll)" and "newer n d"
  shows "d \<in> set (M w' coll)"
proof -
  have "spares M search_state_collections (newer n) w w'"
    using assms(4) by (elim disjE) (erule keepsD [OF search_state_spares(1) [OF assms(1-3)]]
      keepsD [OF search_state_spares(2) [OF assms(1-3)]] keepsD [OF search_state_spares(3) [OF assms(1-3)]])+
  then show ?thesis using assms(5-7) by (auto simp: spares_def)
qed

definition wit_page :: page where
  "wit_page =
     \<lparr>pg_normalized_url = py ''u'', pg_html = py ''cat'', pg_content_type = py ''text/html'', pg_status_code = 200,
      pg_last_crawled = \<lparr>dt_fields = UNIX_EPOCH_MICROS, dt_offset = None\<rparr>, pg_rendered = False, pg_original_html = [],
      pg_render_policy_rule = [], pg_render_policy_sha256 = []\<rparr>"

definition wit_links :: outlinks where
  "wit_links = \<lparr>ol_id = py ''u'', ol_links = [py ''z'', py ''l'']\<rparr>"

definition newer_word :: doc where
  "newer_word = [(py ''_id'', BStr (py ''n'')), (py ''word'', BStr (py ''dog'')), (py ''url'', BStr (py ''u'')), (py ''fence_epoch'', BInt 9)]"

definition stale_word :: doc where
  "stale_word = [(py ''_id'', BStr (py ''o'')), (py ''word'', BStr (py ''old'')), (py ''url'', BStr (py ''u'')), (py ''fence_epoch'', BInt 1)]"

definition page_locked :: mdb where
  "page_locked =
     no_docs(CANONICAL_LOCKS_COLLECTION := [lock_document ''page-indexer'' (py ''u'') (py ''token'') wit_publication 2 0],
             WORDS_COLLECTION := [stale_word, newer_word])"

abbreviation wit_search :: "ref_world \<Rightarrow> (exn + bool) \<times> ref_world" where
  "wit_search \<equiv> replace_search_state page_ref_env wit_tables (\<lambda>s. s) True wit_page wit_html [(py ''cat'', 1)] wit_links 2
     (py ''token'') (ret True)"

theorem search_state_fenced_witness:
  "newer_word \<in> set (snd (snd (wit_search (Map.empty, page_locked))) WORDS_COLLECTION)"
proof -
  let ?R = "spares snd search_state_collections (newer 2)"
  have doc: "service_mongo_documented (mg_cmds page_ref_env) snd page_indexes" by (simp add: ref_mongo_documented)
  have net: "net_within ?R page_ref_env" by (intro page_ref_net_within spared.rel_refl)
  have check: "keeps ?R (ret True)" by (rule spared.keeps_pure)
  have mem: "WORDS_COLLECTION \<in> search_state_collections" "newer_word \<in> set (snd (Map.empty :: rdb, page_locked) WORDS_COLLECTION)"
      "newer 2 newer_word"
    by (simp_all add: search_state_collections_def page_locked_def newer_def newer_word_def value_lte_def)
  show ?thesis
    by (rule search_state_fenced [OF doc net check disjI1 mem]) (rule prod.collapse [symmetric])
qed

text \<open>
  C23. A replacement that returns \<open>True\<close> while nobody else writes leaves the metadata and the outlinks
  of the publication, one document with its frequency per keyword, no document of the URL for any
  other word except newer ones, and every word of the text in the dictionary.
\<close>

theorem replace_search_state_exact:
  assumes "service_mongo_documented (mg_cmds env) M idx" and "undisturbed M env"
    and "\<And>w r v. owner_check w = (r, v) \<Longrightarrow> M v = M w" and "distinct (map fst top_words)"
    and "replace_search_state env tt t connected page html top_words links n token owner_check w = (Inr True, w')"
  shows "page_words_reconciled (pg_normalized_url page) top_words n (M w' WORDS_COLLECTION) \<and>
    metadata_document tt page html top_words n \<in> set (M w' METADATA_COLLECTION) \<and>
    outlinks_document (pg_normalized_url page) links n \<in> set (M w' PAGE_OUTLINKS_COLLECTION) \<and>
    (\<forall>x \<in> set (hd_text html). \<exists>d \<in> set (M w' DICTIONARY_COLLECTION).
       map_of d (py ''_id'') = Some (BStr (lower_text t (lower_text t x))))"
proof -
  let ?owned = "publication_is_owned env connected (pg_normalized_url page) token owner_check"
  obtain word_ops where ops: "word_operations (pg_normalized_url page) top_words n = Inr word_ops"
    and run: "search_state_body env tt ?owned page html top_words links n word_ops (dictionary_operations t (hd_text html)) w = (Inr True, w')"
    using assms(5) by (auto simp: replace_search_state_def bind_Inr_iff catch_Inr_iff split: if_splits)
  have owned: "M v = M u" if "?owned u = (r, v)" for u r v
    using assms(3) that by (rule publication_is_owned_keeps [OF assms(2)])
  show ?thesis
    by (intro conjI ballI search_state_body_True [OF assms(1,2) _ assms(4) ops run]) (assumption | erule owned)+
qed

definition page_lock_only :: mdb where
  "page_lock_only = no_docs(CANONICAL_LOCKS_COLLECTION := [lock_document ''page-indexer'' (py ''u'') (py ''token'') wit_publication 2 0])"

lemma wit_search_body:
  "fst (search_state_body page_ref_env wit_tables
     (publication_is_owned page_ref_env True (py ''u'') (py ''token'') (ret True)) wit_page wit_html [(py ''cat'', 1)] wit_links 2
     [\<lparr>up_filter = FAnd [FEq (py ''word'') (BStr (py ''cat'')), FEq (py ''url'') (BStr (py ''u'')),
          FOr [FExists (py ''fence_epoch'') False, FLte (py ''fence_epoch'') 2]],
       up_set = word_values (py ''cat'') (py ''u'') 1 2, up_set_on_insert = [], up_upsert = True\<rparr>]
     [dictionary_operation (py ''cat'')] (Map.empty, page_lock_only)) = Inr True"
  by (simp add: search_state_body_def guarded_def acked_def with_page_filter_def page_fenced_filter_def
      stale_page_words_def bulk_if_owned_def publication_is_owned_def owns_canonical_def lock_filter_def andalso_def
      find_one_def delete_many_def replace_one_def bulk_write_def call_mongo_def get_state_def ref_mongo_def
      mem_service_mongo_def on_mongo_def mem_write_def mem_delete_def mem_bulk_def coll_replace_def coll_insert_def
      coll_update_def coll_put_def delete_all_def conflicts_def field_matches_def value_matches_def value_lte_def project_def
      written_def page_lock_only_def lock_document_def set_fields_def upsert_doc_def require_def doc_fits_def ret_def
      bind_def lift_def catch_def page_indexes_def word_url_index_def id_index_def search_collections wit_page_def wit_html_def
      wit_tables_def wit_links_def word_values_def dictionary_operation_def metadata_document_def outlinks_document_def
      optional_text_def Let_def py_def)

lemma wit_search_run: "wit_search (Map.empty, page_lock_only) = (Inr True, snd (wit_search (Map.empty, page_lock_only)))"
proof -
  have ops: "word_operations (py ''u'') [(py ''cat'', 1)] 2 =
     Inr [\<lparr>up_filter = FAnd [FEq (py ''word'') (BStr (py ''cat'')), FEq (py ''url'') (BStr (py ''u'')),
          FOr [FExists (py ''fence_epoch'') False, FLte (py ''fence_epoch'') 2]],
       up_set = word_values (py ''cat'') (py ''u'') 1 2, up_set_on_insert = [], up_upsert = True\<rparr>]"
    by (simp add: word_operations_def create_words_entry_operation_def page_fenced_filter_def)
  have dictionary: "dictionary_operations (\<lambda>s. s) [py ''cat''] = [dictionary_operation (py ''cat'')]"
    by (simp add: dictionary_operations_def lower_text_def is_ascii_def lower_ascii_def ascii_upper_def py_def)
  have fields: "pg_normalized_url wit_page = py ''u''" "hd_text wit_html = [py ''cat'']"
    by (simp_all add: wit_page_def wit_html_def)
  show ?thesis
    using wit_search_body
    by (auto simp: replace_search_state_def fields ops [simplified] dictionary catch_def bind_eq split: prod.splits)
qed

theorem replace_search_state_exact_witness:
  "metadata_document wit_tables wit_page wit_html [(py ''cat'', 1)] 2
     \<in> set (snd (snd (wit_search (Map.empty, page_lock_only))) METADATA_COLLECTION)"
proof -
  have doc: "service_mongo_documented (mg_cmds page_ref_env) snd page_indexes" by (simp add: ref_mongo_documented)
  have check: "\<And>w r v. ret True w = (r, v) \<Longrightarrow> snd v = snd w" by (simp add: ret_def)
  show ?thesis
    using replace_search_state_exact [OF doc page_ref_undisturbed check _ wit_search_run] by simp
qed

text \<open>
  A removal that returns \<open>True\<close> while nobody else writes leaves no document of the URL that search
  could find, except newer ones.
\<close>

theorem remove_search_state_exact:
  assumes "service_mongo_documented (mg_cmds env) M idx" and "undisturbed M env"
    and "\<And>w r v. owner_check w = (r, v) \<Longrightarrow> M v = M w"
    and "unique_ids (M w METADATA_COLLECTION)" and "unique_ids (M w PAGE_OUTLINKS_COLLECTION)"
    and "remove_search_state env connected url n token owner_check w = (Inr True, w')"
  shows "search_state_removed url n (M w')"
  using assms(3) by (rule remove_search_state_True [OF assms(1,2) _ assms(4-6)])

abbreviation wit_remove :: "ref_world \<Rightarrow> (exn + bool) \<times> ref_world" where
  "wit_remove \<equiv> remove_search_state page_ref_env True (py ''u'') 2 (py ''token'') (ret True)"

lemma wit_remove_run: "wit_remove (Map.empty, page_locked) = (Inr True, snd (wit_remove (Map.empty, page_locked)))"
proof -
  have "fst (wit_remove (Map.empty, page_locked)) = Inr True"
    by (simp add: remove_search_state_def guarded_def acked_def with_page_filter_def page_fenced_filter_def
      publication_is_owned_def owns_canonical_def lock_filter_def andalso_def
      find_one_def delete_many_def delete_one_def call_mongo_def get_state_def ref_mongo_def
      mem_service_mongo_def on_mongo_def mem_delete_def delete_all_def delete_first_def
      field_matches_def value_matches_def value_lte_def project_def
      written_def page_locked_def lock_document_def require_def ret_def stale_word_def newer_word_def
      bind_def lift_def catch_def search_collections Let_def py_def)
  then show ?thesis by (metis prod.collapse)
qed

theorem remove_search_state_exact_witness:
  "search_state_removed (py ''u'') 2 (snd (snd (wit_remove (Map.empty, page_locked))))"
proof -
  have doc: "service_mongo_documented (mg_cmds page_ref_env) snd page_indexes" by (simp add: ref_mongo_documented)
  have check: "\<And>w r v. ret True w = (r, v) \<Longrightarrow> snd v = snd w" by (simp add: ret_def)
  have "unique_ids (snd (Map.empty :: rdb, page_locked) METADATA_COLLECTION)"
    "unique_ids (snd (Map.empty :: rdb, page_locked) PAGE_OUTLINKS_COLLECTION)"
    by (simp_all add: unique_ids_def page_locked_def search_collections List.map_filter_def)
  from remove_search_state_exact [OF doc page_ref_undisturbed check this wit_remove_run] show ?thesis .
qed

section \<open>The canonical URL lock\<close>

lemma insert_one_Inr:
  assumes doc: "service_mongo_documented (mg_cmds env) M idx" and still: "undisturbed M env"
    and run: "insert_one env coll d w = (Inr r, w')"
  shows "\<not> conflicts (idx coll) d (M w coll)" and "M w' = (M w)(coll := M w coll @ [d])"
proof -
  obtain v where v: "mg_net env w = (Delivered, v)" "mc_insert_one (mg_cmds env) coll d v = (Inr r, w')"
    using run by (auto simp: insert_one_def bind_Inr_iff require_def split: if_splits dest!: call_mongo_Inr)
  have "simulates M (mc_insert_one (mg_cmds env) coll d) (mc_insert_one (mem_service_mongo idx) coll d)"
    using doc by (simp add: service_mongo_documented_def)
  from simulatesD [OF this v(2)] undisturbed_net [OF still v(1)]
  show "\<not> conflicts (idx coll) d (M w coll)" and "M w' = (M w)(coll := M w coll @ [d])"
    by (auto simp: mem_service_mongo_def mem_write_def coll_insert_def split: option.splits if_splits)
qed

text \<open>\<open>url\<close> is locked: there is a document with it as its id.\<close>

definition url_locked :: "pystr \<Rightarrow> mdb \<Rightarrow> bool" where
  "url_locked url db \<longleftrightarrow> (\<exists>d \<in> set (db CANONICAL_LOCKS_COLLECTION). map_of d (py ''_id'') = Some (BStr url))"

lemma lock_inserted:
  assumes "service_mongo_documented (mg_cmds env) M idx" and still: "undisturbed M env"
    and ix: "id_index \<in> set (idx CANONICAL_LOCKS_COLLECTION)"
    and run: "bind (time_now env) (\<lambda>now. bind (insert_one env CANONICAL_LOCKS_COLLECTION (lock_document who url token publication epoch now))
      (\<lambda>result. ret (wr_acknowledged result))) w = (Inr True, w')"
  shows "\<not> url_locked url (M w)" and "url_locked url (M w')"
proof -
  obtain now v r where t: "time_now env w = (Inr now, v)"
    and ins: "insert_one env CANONICAL_LOCKS_COLLECTION (lock_document who url token publication epoch now) v = (Inr r, w')"
    using run by (auto simp: bind_Inr_iff)
  have v: "M v = M w" using t still by (auto simp: time_now_def undisturbed_def net_within_def split: prod.splits)
  have id: "map_of (lock_document who url token publication epoch now) (py ''_id'') = Some (BStr url)"
    by (simp add: lock_document_def)
  note i = insert_one_Inr [OF assms(1) still ins]
  show "url_locked url (M w')" using i(2) id by (auto simp: url_locked_def)
  show "\<not> url_locked url (M w)"
  proof
    assume "url_locked url (M w)"
    then obtain d where "d \<in> set (M v CANONICAL_LOCKS_COLLECTION)" "id_index d = Some [BStr url]"
      using v by (auto simp: url_locked_def id_index_def)
    moreover have "id_index (lock_document who url token publication epoch now) = Some [BStr url]"
      using id by (simp add: id_index_def)
    ultimately show False using i(1) ix unfolding conflicts_def list_ex_iff by (metis image_eqI option.distinct(1))
  qed
qed

text \<open>
  C24. The canonical URL lock excludes the two indexers from each other: an acquisition that returns
  \<open>True\<close> found no lock on the URL and leaves one, so as long as it is there the other service, or
  another worker of the same one, cannot acquire it.
\<close>

theorem canonical_lock_exclusive:
  assumes "service_mongo_documented (mg_cmds env) M page_indexes" and "undisturbed M env"
    and "service_mongo_documented (mg_cmds env') M image_indexes" and "undisturbed M env'"
    and "page_acquire_canonical env connected url token publication epoch w = (Inr page_granted, v)"
    and "image_acquire_canonical env' connected' url' token' publication' epoch' w' = (Inr image_granted, v')"
  shows "(page_granted \<longrightarrow> \<not> url_locked url (M w) \<and> url_locked url (M v)) \<and>
    (image_granted \<longrightarrow> \<not> url_locked url' (M w') \<and> url_locked url' (M v'))"
proof -
  have ix: "id_index \<in> set (page_indexes CANONICAL_LOCKS_COLLECTION)" "id_index \<in> set (image_indexes CANONICAL_LOCKS_COLLECTION)"
    by (simp_all add: page_indexes_def image_indexes_def)
  have page: "\<not> url_locked url (M w)" "url_locked url (M v)" if "page_granted"
    using assms(5) that
    by (auto simp: page_acquire_canonical_def catch_Inr_iff split: if_splits dest: lock_inserted [OF assms(1,2) ix(1)])
  have "\<not> url_locked url' (M w')" "url_locked url' (M v')" if "image_granted"
    using assms(6) that
    by (auto simp: image_acquire_canonical_def catch_Inr_iff split: if_splits dest: lock_inserted [OF assms(3,4) ix(2)])
  with page show ?thesis by blast
qed

abbreviation wit_page_lock :: "ref_world \<Rightarrow> (exn + bool) \<times> ref_world" where
  "wit_page_lock \<equiv> page_acquire_canonical page_ref_env True (py ''u'') (py ''p'') wit_publication 2"

abbreviation wit_image_lock :: "ref_world \<Rightarrow> (exn + bool) \<times> ref_world" where
  "wit_image_lock \<equiv> image_acquire_canonical (ref_env image_indexes) True (py ''u'') (py ''i'') wit_publication 2"

theorem canonical_lock_exclusive_witness:
  "fst (wit_page_lock (Map.empty, no_docs)) = Inr True \<and>
   url_locked (py ''u'') (snd (snd (wit_page_lock (Map.empty, no_docs)))) \<and>
   fst (wit_image_lock (snd (wit_page_lock (Map.empty, no_docs)))) = Inr False"
proof -
  let ?w = "snd (wit_page_lock (Map.empty, no_docs))"
  have docs: "service_mongo_documented (mg_cmds page_ref_env) snd page_indexes"
    "service_mongo_documented (mg_cmds (ref_env image_indexes)) snd image_indexes"
    by (simp_all add: ref_mongo_documented)
  have granted: "fst (wit_page_lock (Map.empty, no_docs)) = Inr True"
    by (simp add: page_acquire_canonical_def catch_def bind_def time_now_def insert_one_def require_def call_mongo_def
        ref_mongo_def mem_service_mongo_def on_mongo_def mem_write_def coll_insert_def conflicts_def written_def
        ret_def doc_fits_def lock_document_def page_indexes_def py_def)
  then have page: "wit_page_lock (Map.empty, no_docs) = (Inr True, ?w)" by (metis prod.collapse)
  obtain b where "fst (wit_image_lock ?w) = Inr b"
    by (cases "fst (wit_image_lock ?w)")
      (auto simp: image_acquire_canonical_def catch_def ret_def split: prod.splits sum.splits)
  then have image': "wit_image_lock ?w = (Inr b, snd (wit_image_lock ?w))" by (metis prod.collapse)
  note excl = canonical_lock_exclusive [OF docs(1) page_ref_undisturbed docs(2) ref_undisturbed page image']
  have "\<not> b" using excl by auto
  then have "fst (wit_image_lock ?w) = Inr False" using image' by (metis (full_types) fst_conv)
  then show ?thesis using granted excl by simp
qed

end
