(* ===== verification/Percent_Encoding.thy ===== *)
theory Percent_Encoding
  imports Canonical_Text Backlinks_Url
begin

text \<open>
  Percent-encoding of a URL component as the seed importer does it: escapes already there get
  upper-case digits, every other character outside the safe set is escaped. The lemmas: the result
  has only allowed characters and upper-case escapes, hides no control character that the source did
  not have, and encoding again changes nothing.
\<close>

section \<open>Text with well-formed escapes\<close>

lemma percent_not_hex [simp]: "\<not> hex_digit 37"
  by (simp add: char_class_defs)

lemma malformed_escape [simp]:
  "malformed_percent (37 # a # b # s) \<longleftrightarrow> \<not> hex_digit a \<or> \<not> hex_digit b \<or> malformed_percent s"
  by (auto simp: hex_digit_def char_class_defs)

lemma malformed_plain: "c \<noteq> 37 \<Longrightarrow> malformed_percent (c # s) \<longleftrightarrow> malformed_percent s"
  by simp

declare malformed_plain [simp] malformed_percent.simps(2) [simp del]

lemma escapes_induct [consumes 1, case_names Nil Escape Plain]:
  assumes "\<not> malformed_percent s"
    and "P []"
    and "\<And>a b s. hex_digit a \<Longrightarrow> hex_digit b \<Longrightarrow> \<not> malformed_percent s \<Longrightarrow> P s \<Longrightarrow> P (37 # a # b # s)"
    and "\<And>c s. c \<noteq> 37 \<Longrightarrow> \<not> malformed_percent s \<Longrightarrow> P s \<Longrightarrow> P (c # s)"
  shows "P s"
  using assms(1)
proof (induction s rule: length_induct)
  case (1 s)
  show ?case
  proof (cases s)
    case (Cons c r)
    show ?thesis
    proof (cases "c = 37")
      case True
      then obtain a b t where "r = a # b # t" "hex_digit a" "hex_digit b"
        using "1.prems" Cons by (auto simp: malformed_percent.simps(2) split: list.splits)
      then show ?thesis using assms(3) [of a b t] 1 Cons True by auto
    next
      case False
      then show ?thesis using assms(4) [of c r] 1 Cons by auto
    qed
  qed (simp add: assms(2))
qed

lemma uppercase_plain: "c \<noteq> 37 \<Longrightarrow> uppercase_escapes (c # s) = c # uppercase_escapes s"
  by (cases s; cases "tl s") auto

lemma has_encoded_control_plain: "c \<noteq> 37 \<Longrightarrow> has_encoded_control (c # s) = has_encoded_control s"
  by (cases s; cases "tl s") auto

lemma lowercase_plain: "c \<noteq> 37 \<Longrightarrow> lowercase_escape (c # s) = lowercase_escape s"
  by (cases s; cases "tl s") auto

lemma percent_free:
  assumes "37 \<notin> set p"
  shows "malformed_percent (p @ s) \<longleftrightarrow> malformed_percent s" and "has_encoded_control (p @ s) \<longleftrightarrow> has_encoded_control s"
    and "lowercase_escape (p @ s) \<longleftrightarrow> lowercase_escape s"
  using assms by (induction p) (auto simp: malformed_plain has_encoded_control_plain lowercase_plain)

lemma malformed_append:
  "\<not> malformed_percent s \<Longrightarrow> malformed_percent (s @ t) \<longleftrightarrow> malformed_percent t"
  by (induction s rule: escapes_induct) auto

text \<open>Whether a text begins with the escape of a C1 continuation byte.\<close>

definition c1_escape_next :: "pystr \<Rightarrow> bool" where
  "c1_escape_next s =
     (case s of p # x # y # _ \<Rightarrow>
          p = 37 \<and> 128 \<le> 16 * hex_value x + hex_value y \<and> 16 * hex_value x + hex_value y \<le> 159
      | _ \<Rightarrow> False)"

definition escape_value :: "nat \<Rightarrow> nat \<Rightarrow> nat" where "escape_value a b = 16 * hex_value a + hex_value b"

lemma has_encoded_control_escape:
  "has_encoded_control (37 # a # b # s) \<longleftrightarrow>
     escape_value a b < 32 \<or> escape_value a b = 127 \<or> escape_value a b = 194 \<and> c1_escape_next s \<or> has_encoded_control s"
  by (auto simp: escape_value_def c1_escape_next_def Let_def)

declare has_encoded_control.simps(1) [simp del]

lemma c1_escape_next_escape: "c1_escape_next (37 # a # b # s) \<longleftrightarrow> 128 \<le> escape_value a b \<and> escape_value a b \<le> 159"
  by (simp add: c1_escape_next_def escape_value_def)

lemma c1_escape_next_plain: "c \<noteq> 37 \<Longrightarrow> \<not> c1_escape_next (c # s)" "\<not> c1_escape_next []"
  by (auto simp: c1_escape_next_def split: list.splits)

text \<open>Taking a well-formed text apart; what stands before the cut keeps no half of an escape.\<close>

lemma has_encoded_control_parts:
  assumes "\<not> malformed_percent s" and "\<not> has_encoded_control (s @ t)"
  shows "\<not> has_encoded_control s" and "\<not> has_encoded_control t"
proof -
  have "\<not> has_encoded_control s \<and> \<not> has_encoded_control t \<and> (c1_escape_next s \<longrightarrow> c1_escape_next (s @ t))"
    using assms
  proof (induction s rule: escapes_induct)
    case (Escape a b s)
    have "c1_escape_next s \<longrightarrow> c1_escape_next (s @ t)"
      by (auto simp: c1_escape_next_def split: list.splits)
    then show ?case using Escape by (auto simp: has_encoded_control_escape c1_escape_next_escape)
  qed (auto simp: has_encoded_control_plain c1_escape_next_plain)
  then show "\<not> has_encoded_control s" and "\<not> has_encoded_control t" by blast+
qed

section \<open>Encoding\<close>

definition encode_component :: "pystr \<Rightarrow> pystr \<Rightarrow> exn + pystr" where
  "encode_component safe value =
     (case quote safe (uppercase_escapes value) of
        None \<Rightarrow> Inl (URLCanonicalizationError ''invalid_utf8'')
      | Some s \<Rightarrow> Inr s)"

definition quote_char :: "pystr \<Rightarrow> nat \<Rightarrow> pystr option" where
  "quote_char safe c = map_option (\<lambda>b. concat (map (quote_byte safe) b)) (utf8_char c)"

lemma quote_Nil [simp]: "quote safe [] = Some []"
  by (simp add: quote_def)

lemma quote_Cons:
  "quote safe (c # s) = (case quote_char safe c of None \<Rightarrow> None | Some q \<Rightarrow> map_option (\<lambda>r. q @ r) (quote safe s))"
  by (cases "utf8_char c"; cases "utf8_encode s") (simp_all add: quote_def quote_char_def)

lemma quote_char_safe: "c < 128 \<Longrightarrow> ascii_alnum c \<or> c \<in> set safe \<Longrightarrow> quote_char safe c = Some [c]"
  by (auto simp: quote_char_def utf8_char_def quote_byte_def)

lemma upper_hex:
  assumes "hex_digit a"
  shows "hex_digit (upper_ascii a)" and "\<not> ascii_lower (upper_ascii a)" and "hex_value (upper_ascii a) = hex_value a"
    and "ascii_alnum (upper_ascii a)" and "upper_ascii a < 128" and "upper_ascii (upper_ascii a) = upper_ascii a"
    and "upper_ascii a \<noteq> 37"
  using assms by (auto simp: char_class_defs upper_ascii_def hex_value_def)

lemma hex_upper_digit:
  assumes "d < 16"
  shows "hex_digit (hex_upper d)" and "\<not> ascii_lower (hex_upper d)" and "hex_value (hex_upper d) = d"
    and "ascii_alnum (hex_upper d)"
  using assms by (auto simp: char_class_defs hex_upper_def hex_value_def)

text \<open>The characters that a component may have after encoding.\<close>

definition safe_set :: "pystr \<Rightarrow> bool" where
  "safe_set safe \<longleftrightarrow> is_ascii safe \<and> 37 \<in> set safe \<and> {95, 46, 45, 126} \<subseteq> set safe"

lemma encode_escape:
  assumes "safe_set safe" and "hex_digit a" and "hex_digit b"
  shows "quote safe (uppercase_escapes (37 # a # b # s)) =
     map_option (\<lambda>r. 37 # upper_ascii a # upper_ascii b # r) (quote safe (uppercase_escapes s))"
proof -
  have "quote_char safe 37 = Some [37]" "quote_char safe (upper_ascii a) = Some [upper_ascii a]"
    "quote_char safe (upper_ascii b) = Some [upper_ascii b]"
    using assms upper_hex by (auto intro!: quote_char_safe simp: safe_set_def)
  then show ?thesis using assms by (simp add: quote_Cons option.map_comp comp_def)
qed

lemma encode_plain:
  "c \<noteq> 37 \<Longrightarrow> quote safe (uppercase_escapes (c # s)) =
     (case quote_char safe c of None \<Rightarrow> None | Some q \<Rightarrow> map_option (\<lambda>r. q @ r) (quote safe (uppercase_escapes s)))"
  by (simp add: uppercase_plain quote_Cons)

lemma escaped_bytes:
  assumes "\<forall>b \<in> set bs. b < 256 \<and> 32 \<le> b \<and> b \<noteq> 127 \<and> b \<noteq> 194"
  shows "has_encoded_control (concat (map (\<lambda>b. [37, hex_upper (b div 16), hex_upper (b mod 16)]) bs) @ t) \<longleftrightarrow> has_encoded_control t"
  using assms
proof (induction bs)
  case (Cons b bs)
  have "escape_value (hex_upper (b div 16)) (hex_upper (b mod 16)) = b"
    using Cons.prems hex_upper_digit(3) [of "b div 16"] hex_upper_digit(3) [of "b mod 16"]
    by (simp add: escape_value_def less_mult_imp_div_less)
  then show ?case using Cons by (simp add: has_encoded_control_escape)
qed simp

text \<open>What the encoding of one character is: itself, or escapes of its UTF-8 bytes.\<close>

abbreviation escaped :: "nat list \<Rightarrow> pystr" where
  "escaped bs \<equiv> concat (map (\<lambda>b. [37, hex_upper (b div 16), hex_upper (b mod 16)]) bs)"

lemma quote_char_cases:
  assumes "quote_char safe c = Some q" and "is_ascii safe"
  shows "q = [c] \<and> c < 128 \<and> (ascii_alnum c \<or> c \<in> {95, 46, 45, 126} \<union> set safe) \<or>
    (\<exists>bs. utf8_char c = Some bs \<and> q = escaped bs)"
proof -
  obtain bs where bs: "utf8_char c = Some bs" and q: "q = concat (map (quote_byte safe) bs)"
    using assms(1) by (auto simp: quote_char_def)
  show ?thesis
  proof (cases "c < 128")
    case True
    then have "bs = [c]" using bs by (simp add: utf8_char_def)
    then show ?thesis using q bs True by (auto simp: quote_byte_def)
  next
    case False
    then have "\<forall>b \<in> set bs. 128 \<le> b" using bs by (auto simp: utf8_char_def split: if_splits)
    then have "\<forall>b \<in> set bs. quote_byte safe b = [37, hex_upper (b div 16), hex_upper (b mod 16)]"
      using assms(2) by (fastforce simp: quote_byte_def char_class_defs is_ascii_def list_all_iff)
    then have "map (quote_byte safe) bs = map (\<lambda>b. [37, hex_upper (b div 16), hex_upper (b mod 16)]) bs" by simp
    then show ?thesis using bs q by metis
  qed
qed

lemma utf8_char_bytes: "utf8_char c = Some bs \<Longrightarrow> bs \<noteq> [] \<and> (\<forall>b \<in> set bs. b < 256)"
  using utf8_encode_bytes [of "[c]" bs] by (auto simp: list_all_iff utf8_char_def split: if_splits)

lemma escaped_hex:
  assumes "b < 256"
  shows "hex_digit (hex_upper (b div 16))" and "hex_digit (hex_upper (b mod 16))"
    and "upper_ascii (hex_upper (b div 16)) = hex_upper (b div 16)" and "upper_ascii (hex_upper (b mod 16)) = hex_upper (b mod 16)"
    and "escape_value (hex_upper (b div 16)) (hex_upper (b mod 16)) = b"
proof -
  have "b div 16 < 16" "b mod 16 < 16" using assms by (simp_all add: less_mult_imp_div_less)
  note d = hex_upper_digit [OF this(1)] hex_upper_digit [OF this(2)]
  show "hex_digit (hex_upper (b div 16))" "hex_digit (hex_upper (b mod 16))" by (rule d)+
  show "upper_ascii (hex_upper (b div 16)) = hex_upper (b div 16)" "upper_ascii (hex_upper (b mod 16)) = hex_upper (b mod 16)"
    using d by (simp_all add: upper_ascii_def)
  show "escape_value (hex_upper (b div 16)) (hex_upper (b mod 16)) = b"
    by (simp add: escape_value_def d)
qed

lemma quoted_control:
  assumes "quote_char safe c = Some q" and "is_ascii safe" and "\<not> is_control c" and "c \<noteq> 37"
  shows "has_encoded_control (q @ t) \<longleftrightarrow> has_encoded_control t" and "\<not> c1_escape_next (q @ t)" 
proof -
  have "(has_encoded_control (q @ t) \<longleftrightarrow> has_encoded_control t) \<and> \<not> c1_escape_next (q @ t)"
  proof (cases "q = [c]")
    case True
    then show ?thesis using assms(4) by (simp add: has_encoded_control_plain c1_escape_next_plain)
  next
    case False
    then obtain bs where bs: "utf8_char c = Some bs" and q: "q = escaped bs"
      using quote_char_cases [OF assms(1,2)] by blast
    consider (one) "c < 128" "bs = [c]" | (two) "128 \<le> c" "c < 2048" "bs = [192 + c div 64, 128 + c mod 64]"
      | (more) b r where "bs = b # r" "224 \<le> b" "\<forall>x \<in> set r. 128 \<le> x \<and> x < 192"
      using bs by (fastforce simp: utf8_char_def split: if_splits)
    then show ?thesis
    proof cases
      case one
      then have "32 \<le> c" "c \<noteq> 127" using assms(3) by (auto simp: is_control_def)
      then show ?thesis
        using one q escaped_hex [of c] by (simp add: has_encoded_control_escape c1_escape_next_escape)
    next
      case two
      obtain x y where x: "x = 192 + c div 64" and y: "y = 128 + c mod 64" by blast
      have "160 \<le> c" using assms(3) two by (auto simp: is_control_def)
      moreover have "c = 64 * (c div 64) + c mod 64" "c mod 64 < 64" by simp_all
      ultimately have b: "x < 256" "y < 256" "128 \<le> y" "y < 192" "194 \<le> x" "x = 194 \<Longrightarrow> 160 \<le> y"
        using two(1,2) x y by linarith+
      have q': "q = escaped [x, y]" using q two by (simp add: x y)
      show ?thesis
        using b escaped_hex(5) [OF b(1)] escaped_hex(5) [OF b(2)]
        by (auto simp: q' has_encoded_control_escape c1_escape_next_escape)
    next
      case more
      have b: "\<forall>b \<in> set bs. b < 256" using utf8_char_bytes [OF bs] by blast
      then have "has_encoded_control (q @ t) \<longleftrightarrow> has_encoded_control t"
        unfolding q using more by (intro escaped_bytes) auto
      then show ?thesis
        using q more b escaped_hex(5) [of b] by (auto simp: c1_escape_next_escape)
    qed
  qed
  then show "has_encoded_control (q @ t) \<longleftrightarrow> has_encoded_control t" and "\<not> c1_escape_next (q @ t)" by blast+
qed

lemma quoted_escapes:
  assumes "quote_char safe c = Some q" and "safe_set safe" and "c \<noteq> 37"
  shows "malformed_percent (q @ t) \<longleftrightarrow> malformed_percent t"
    and "quote safe (uppercase_escapes (q @ t)) = map_option (\<lambda>r. q @ r) (quote safe (uppercase_escapes t))"
    and "lowercase_escape (q @ t) \<longleftrightarrow> lowercase_escape t"
proof -
  have ascii: "is_ascii safe" using assms(2) by (simp add: safe_set_def)
  have "(malformed_percent (q @ t) \<longleftrightarrow> malformed_percent t) \<and> (lowercase_escape (q @ t) \<longleftrightarrow> lowercase_escape t) \<and>
      quote safe (uppercase_escapes (q @ t)) = map_option (\<lambda>r. q @ r) (quote safe (uppercase_escapes t))"
  proof -
    consider (literal) "q = [c]" "c < 128" "ascii_alnum c \<or> c \<in> {95, 46, 45, 126} \<union> set safe"
      | (escapes) bs where "utf8_char c = Some bs" "q = escaped bs"
      using quote_char_cases [OF assms(1) ascii] by blast
    then show ?thesis
  proof cases
    case literal
    then have "quote_char safe c = Some [c]"
      using assms(2) by (intro quote_char_safe) (auto simp: safe_set_def)
    moreover have "(@) [c] = (#) c" by auto
    ultimately show ?thesis using literal assms(3) by (simp add: malformed_plain lowercase_plain encode_plain)
  next
    case (escapes bs)
    then have "\<forall>b \<in> set bs. b < 256" using utf8_char_bytes by blast
    then have "(malformed_percent (escaped bs @ t) \<longleftrightarrow> malformed_percent t) \<and>
        (lowercase_escape (escaped bs @ t) \<longleftrightarrow> lowercase_escape t) \<and>
        quote safe (uppercase_escapes (escaped bs @ t)) = map_option (\<lambda>r. escaped bs @ r) (quote safe (uppercase_escapes t))"
    proof (induction bs)
      case (Cons b bs)
      have b: "b < 256" using Cons.prems by simp
      note h = escaped_hex [OF b]
      have "\<not> ascii_lower (hex_upper (b div 16))" "\<not> ascii_lower (hex_upper (b mod 16))"
        using h(3,4) by (auto simp: upper_ascii_def ascii_lower_def split: if_splits)
      then show ?case
        using Cons h(1-4) encode_escape [OF assms(2) h(1,2)] by (simp add: option.map_comp comp_def)
    qed (cases "quote safe (uppercase_escapes t)"; simp)
    then show ?thesis using escapes by simp
  qed
  qed
  then show "malformed_percent (q @ t) \<longleftrightarrow> malformed_percent t"
    and "quote safe (uppercase_escapes (q @ t)) = map_option (\<lambda>r. q @ r) (quote safe (uppercase_escapes t))"
    and "lowercase_escape (q @ t) \<longleftrightarrow> lowercase_escape t"
    by blast+
qed

text \<open>The encoding of a component.\<close>

lemma encoded:
  assumes "\<not> malformed_percent s" and "safe_set safe" and "quote safe (uppercase_escapes s) = Some e"
  shows "\<not> malformed_percent e" and "\<not> lowercase_escape e" and "valid_component e safe"
    and "quote safe (uppercase_escapes e) = Some e"
    and "\<not> list_ex is_control s \<Longrightarrow> \<not> has_encoded_control s \<Longrightarrow> \<not> has_encoded_control e"
    and "s \<noteq> [] \<Longrightarrow> hd s = 47 \<Longrightarrow> 47 \<in> set safe \<Longrightarrow> e \<noteq> [] \<and> hd e = 47"
proof -
  have "\<not> malformed_percent e \<and> \<not> lowercase_escape e \<and> valid_component e safe \<and>
     quote safe (uppercase_escapes e) = Some e \<and>
     (\<not> list_ex is_control s \<longrightarrow> \<not> has_encoded_control s \<longrightarrow>
        \<not> has_encoded_control e \<and> (c1_escape_next e \<longrightarrow> c1_escape_next s)) \<and>
     (s \<noteq> [] \<and> hd s = 47 \<and> 47 \<in> set safe \<longrightarrow> e \<noteq> [] \<and> hd e = 47)"
    using assms(1,3)
  proof (induction s arbitrary: e rule: escapes_induct)
    case Nil
    then show ?case by (simp add: valid_component_def c1_escape_next_plain)
  next
    case (Escape a b s)
    then obtain r where r: "quote safe (uppercase_escapes s) = Some r" and e: "e = 37 # upper_ascii a # upper_ascii b # r"
      using encode_escape [OF assms(2)] by auto
    note IH = Escape.IH [OF r] and u = upper_hex [OF Escape.hyps(1)] upper_hex [OF Escape.hyps(2)]
    have v: "escape_value (upper_ascii a) (upper_ascii b) = escape_value a b" by (simp add: escape_value_def u)
    have "valid_component e safe" using IH e u assms(2) by (auto simp: valid_component_def safe_set_def)
    moreover have "quote safe (uppercase_escapes e) = Some e"
      using IH e u encode_escape [OF assms(2) u(1) u(8)] by simp
    ultimately show ?case
      using IH e u v by (auto simp: has_encoded_control_escape c1_escape_next_escape)
  next
    case (Plain c s)
    then obtain q r where q: "quote_char safe c = Some q" and r: "quote safe (uppercase_escapes s) = Some r" and e: "e = q @ r"
      by (auto simp: encode_plain split: option.splits)
    note IH = Plain.IH [OF r] and p = quoted_escapes [OF q assms(2) Plain.hyps(1), of r]
    have ascii: "is_ascii safe" using assms(2) by (simp add: safe_set_def)
    have valid: "valid_component q safe"
      using quote_char_cases [OF q ascii]
    proof (elim disjE exE conjE)
      fix bs assume "utf8_char c = Some bs" and qq: "q = escaped bs"
      then have "\<forall>b \<in> set bs. b < 256" using utf8_char_bytes by blast
      then show ?thesis
        unfolding qq valid_component_def using assms(2) hex_upper_digit
        by (auto simp: safe_set_def list_all_iff hex_upper_def char_class_defs)
    qed (use assms(2) in \<open>auto simp: valid_component_def safe_set_def is_ascii_def list_all_iff\<close>)
    have head: "e \<noteq> [] \<and> hd e = 47" if "c = 47" "47 \<in> set safe"
      using quote_char_safe [of 47 safe] that q e by auto
    have "\<not> has_encoded_control e \<and> (c1_escape_next e \<longrightarrow> c1_escape_next (c # s))"
      if "\<not> list_ex is_control (c # s)" "\<not> has_encoded_control (c # s)"
    proof -
      have "\<not> is_control c" using that by simp
      note qc = quoted_control [OF q ascii this Plain.hyps(1), of r]
      show ?thesis using qc that IH Plain.hyps(1) e by (simp add: has_encoded_control_plain)
    qed
    moreover have "valid_component e safe" using valid IH e by (simp add: valid_component_def)
    ultimately show ?case using IH p e head by auto
  qed
  then show "\<not> malformed_percent e" and "\<not> lowercase_escape e" and "valid_component e safe"
    and "quote safe (uppercase_escapes e) = Some e"
    and "\<not> list_ex is_control s \<Longrightarrow> \<not> has_encoded_control s \<Longrightarrow> \<not> has_encoded_control e"
    and "s \<noteq> [] \<Longrightarrow> hd s = 47 \<Longrightarrow> 47 \<in> set safe \<Longrightarrow> e \<noteq> [] \<and> hd e = 47"
    by blast+
qed

text \<open>A component with only safe characters and upper-case escapes is its own encoding.\<close>

lemma encode_fixed:
  assumes "\<not> malformed_percent s" and "\<not> lowercase_escape s" and "valid_component s safe" and "safe_set safe"
  shows "quote safe (uppercase_escapes s) = Some s"
  using assms(1-3)
proof (induction s rule: escapes_induct)
  case (Escape a b s)
  then have "upper_ascii a = a" "upper_ascii b = b" by (auto simp: upper_ascii_def split: if_splits)
  moreover have "quote safe (uppercase_escapes s) = Some s" using Escape by (simp add: valid_component_def)
  ultimately show ?case
    using encode_escape [OF assms(4) Escape.hyps(1,2), of s] by (simp only: option.map)
next
  case (Plain c s)
  then have "quote_char safe c = Some [c]" by (intro quote_char_safe) (auto simp: valid_component_def)
  then show ?case using Plain by (simp add: encode_plain lowercase_plain valid_component_def)
qed simp

section \<open>Cutting and joining\<close>

lemma malformed_suffix: "\<not> malformed_percent (p @ s) \<Longrightarrow> \<not> malformed_percent s"
  by (induction p) (auto simp: malformed_percent.simps(2))

lemma malformed_prefix:
  "\<not> malformed_percent (s @ t) \<Longrightarrow> t = [] \<or> \<not> hex_digit (hd t) \<Longrightarrow> \<not> malformed_percent s"
proof (induction s)
  case (Cons c s)
  have "\<not> malformed_percent s" using Cons by (auto simp: malformed_percent.simps(2))
  moreover have "case s of a # b # _ \<Rightarrow> hex_digit a \<and> hex_digit b | _ \<Rightarrow> False" if "c = 37"
    using Cons.prems that by (cases s; cases "tl s"; cases t; cases "tl t") (auto simp: malformed_percent.simps(2))
  ultimately show ?case by (auto simp: malformed_percent.simps(2))
qed simp

lemma lowercase_append:
  "\<not> malformed_percent s \<Longrightarrow> lowercase_escape (s @ t) \<longleftrightarrow> lowercase_escape s \<or> lowercase_escape t"
  by (induction s rule: escapes_induct) (auto simp: lowercase_plain)

lemma has_encoded_control_append:
  assumes "\<not> malformed_percent s" and "\<not> c1_escape_next t"
  shows "has_encoded_control (s @ t) \<longleftrightarrow> has_encoded_control s \<or> has_encoded_control t"
proof -
  have "(has_encoded_control (s @ t) \<longleftrightarrow> has_encoded_control s \<or> has_encoded_control t) \<and> c1_escape_next (s @ t) = c1_escape_next s"
    using assms(1) by (induction s rule: escapes_induct)
      (use assms(2) in \<open>auto simp: has_encoded_control_plain has_encoded_control_escape c1_escape_next_plain c1_escape_next_escape\<close>)
  then show ?thesis ..
qed

text \<open>Text of printable ASCII characters without the space.\<close>

lemma printable_text:
  assumes "\<forall>c \<in> set v. 33 \<le> c \<and> c \<le> 126"
  shows "is_ascii v" and "py_strip v = v" and "\<not> list_ex is_control v"
proof -
  have sp: "\<not> is_space c" if "c \<in> set v" for c using assms that by (auto simp: is_space_def)
  then have "dropWhile is_space v = v" "dropWhile is_space (rev v) = rev v"
    by (auto simp: dropWhile_eq_self_iff hd_rev)
  then show "py_strip v = v" by (simp add: py_strip_def)
  show "is_ascii v" "\<not> list_ex is_control v"
    using assms by (fastforce simp: is_ascii_def list_all_iff list_ex_iff is_control_def)+
qed

end
