(* ===== verification/Seed_Url.thy ===== *)
theory Seed_Url
  imports Percent_Encoding Sha256
begin

text \<open>
  \<open>url_identity.py\<close> of the seed importer: the V1 canonical form of a URL, its identifier and the static
  admission rules. The \<open>idna\<close> package is the argument \<open>ix\<close>.

  The lemmas: a canonical URL is its own canonical form, and it is canonical exactly when the
  backlinks processor accepts it.
\<close>

definition CANONICALIZATION_VERSION :: int where "CANONICALIZATION_VERSION = 1"
definition ID_NAMESPACE_BYTES :: bytes where "ID_NAMESPACE_BYTES = py ''mifolyo-url:v1'' @ [0]"
definition MAX_URL_BYTES :: nat where "MAX_URL_BYTES = 2048"

definition PATH_SAFE :: pystr where "PATH_SAFE = py ''/:@!$&'()*+,;=-._~%''"
definition QUERY_SAFE :: pystr where "QUERY_SAFE = py ''/?:@!$&'()*+,;=-._~%''"

definition LOCAL_NAMES :: "pystr list" where
  "LOCAL_NAMES = map py
     [''localhost'', ''local'', ''localdomain'', ''internal'', ''intranet'', ''home'', ''home.arpa'', ''lan'', ''onion'',
      ''alt'', ''arpa'', ''test'', ''invalid'', ''example'']"

record crawl_eligibility =
  ce_eligible :: bool
  ce_rejection :: "string option"

record url_identity =
  ui_canonical_url :: pystr
  ui_url_id :: pystr
  ui_crawl_eligible :: bool
  ui_crawl_rejection :: "string option"
  ui_canonicalization_version :: int

abbreviation url_error :: "string \<Rightarrow> exn + 'a" where
  "url_error code \<equiv> Inl (URLCanonicalizationError code)"

section \<open>Guards\<close>

definition seed_utf8_length :: "pystr \<Rightarrow> exn + nat" where
  "seed_utf8_length value = (case utf8_encode value of None \<Rightarrow> url_error ''invalid_utf8'' | Some b \<Rightarrow> Inr (length b))"

definition seed_has_encoded_control :: "pystr \<Rightarrow> bool" where
  "seed_has_encoded_control = has_encoded_control"

definition seed_alabel_ok :: "ucd \<Rightarrow> idna \<Rightarrow> pystr \<Rightarrow> bool" where
  "seed_alabel_ok u ix label =
     (case idna_decode ix label of
        None \<Rightarrow> False
      | Some decoded \<Rightarrow>
          (case idna_encode ix decoded of
             None \<Rightarrow> False
           | Some round_trip \<Rightarrow> decoded \<noteq> [] \<and> py_lower (uc_lower u) round_trip = py_lower (uc_lower u) label))"

definition validate_domain_host :: "ucd \<Rightarrow> idna \<Rightarrow> pystr \<Rightarrow> exn + unit" where
  "validate_domain_host u ix host =
     (let labels = split_on 46 host in
      bindE (requireE (length host \<le> 253 \<and> \<not> ends_with (py ''.'') host) (URLCanonicalizationError ''invalid_host'')) (\<lambda>_.
      bindE (requireE (list_all host_label labels) (URLCanonicalizationError ''invalid_host'')) (\<lambda>_.
      requireE (list_all (\<lambda>l. starts_with (py ''xn--'') (py_lower (uc_lower u) l) \<longrightarrow> seed_alabel_ok u ix l) labels)
        (URLCanonicalizationError ''invalid_host''))))"

text \<open>The host in lower case and whether it is an IP literal.\<close>

definition validated_host :: "ucd \<Rightarrow> idna \<Rightarrow> pystr \<Rightarrow> exn + pystr \<times> bool" where
  "validated_host u ix host =
     bindE (requireE (host \<noteq> []) (URLCanonicalizationError ''invalid_host'')) (\<lambda>_.
     bindE (requireE (\<not> list_ex (\<lambda>c. 127 < c) host) (URLCanonicalizationError ''non_ascii_host_v1'')) (\<lambda>_.
     let lowered = py_lower (uc_lower u) host in
     bindE (requireE (\<not> (37 \<in> set lowered \<and> 58 \<in> set lowered)) (URLCanonicalizationError ''invalid_host'')) (\<lambda>_.
     if ip_version lowered \<noteq> None then Inr (lowered, True)
     else bindE (requireE (58 \<notin> set lowered \<and> \<not> dotted_numeric_host lowered) (URLCanonicalizationError ''invalid_host'')) (\<lambda>_.
       bindE (validate_domain_host u ix lowered) (\<lambda>_. Inr (lowered, False))))))"

definition port_number :: "pystr \<Rightarrow> exn + nat option" where
  "port_number text_value =
     bindE (requireE (text_value \<noteq> [] \<and> list_all ascii_digit text_value) (URLCanonicalizationError ''invalid_port'')) (\<lambda>_.
     bindE (requireE (1 \<le> decimal_value text_value \<and> decimal_value text_value \<le> 65535) (URLCanonicalizationError ''invalid_port'')) (\<lambda>_.
     Inr (Some (decimal_value text_value))))"

definition explicit_port :: "pystr \<Rightarrow> bool \<Rightarrow> exn + nat option" where
  "explicit_port netloc is_ip_literal =
     (if is_ip_literal \<and> starts_with [91] netloc
      then (let (_, closed, remainder) = partition_at 93 netloc in
            if \<not> closed then url_error ''invalid_host''
            else if remainder = [] then Inr None
            else if \<not> starts_with [58] remainder then url_error ''invalid_host''
            else port_number (drop 1 remainder))
      else if 58 \<notin> set netloc then Inr None
      else port_number (snd (snd (rpartition_at 58 netloc))))"

text \<open>The checks on the characters of the URL, before it is parsed.\<close>

definition raw_url_checks :: "pystr \<Rightarrow> exn + unit" where
  "raw_url_checks raw_url =
     bindE (requireE (raw_url \<noteq> []) (URLCanonicalizationError ''absolute_url_required'')) (\<lambda>_.
     bindE (seed_utf8_length raw_url) (\<lambda>n.
     bindE (requireE (n \<le> MAX_URL_BYTES) (URLCanonicalizationError ''url_too_long'')) (\<lambda>_.
     bindE (requireE (raw_url = py_strip raw_url \<and> \<not> list_ex is_control raw_url)
       (URLCanonicalizationError ''whitespace_or_control'')) (\<lambda>_.
     bindE (requireE (92 \<notin> set raw_url) (URLCanonicalizationError ''backslash_forbidden'')) (\<lambda>_.
     bindE (requireE (\<not> malformed_percent raw_url) (URLCanonicalizationError ''malformed_escape'')) (\<lambda>_.
     requireE (\<not> seed_has_encoded_control raw_url) (URLCanonicalizationError ''encoded_control'')))))))"

definition bracketed_authority :: "pystr \<Rightarrow> bool \<Rightarrow> pystr" where
  "bracketed_authority host is_ip_literal = (if is_ip_literal \<and> 58 \<in> set host then 91 # host @ [93] else host)"

section \<open>The canonical form\<close>

definition canonicalize_parsed :: "ucd \<Rightarrow> idna \<Rightarrow> pystr \<Rightarrow> split_result \<Rightarrow> exn + pystr" where
  "canonicalize_parsed u ix raw_url parsed =
     (let scheme = map lower_ascii (sr_scheme parsed) in
      bindE (requireE (sr_scheme parsed \<noteq> []) (URLCanonicalizationError ''absolute_url_required'')) (\<lambda>_.
      bindE (requireE (scheme = py ''http'' \<or> scheme = py ''https'') (URLCanonicalizationError ''scheme_not_allowed'')) (\<lambda>_.
      bindE (requireE (sr_netloc parsed \<noteq> []) (URLCanonicalizationError ''absolute_url_required'')) (\<lambda>_.
      bindE (requireE (64 \<notin> set (sr_netloc parsed)) (URLCanonicalizationError ''userinfo_forbidden'')) (\<lambda>_.
      bindE (validated_host u ix (sr_hostname u parsed)) (\<lambda>(host, is_ip_literal).
      case sr_port parsed of
        Inl _ \<Rightarrow> url_error ''invalid_port''
      | Inr _ \<Rightarrow>
          bindE (explicit_port (sr_netloc parsed) is_ip_literal) (\<lambda>port.
          let shown_port = (case port of
                None \<Rightarrow> []
              | Some p \<Rightarrow> if p \<noteq> (if scheme = py ''http'' then 80 else 443) then 58 # show_nat p else []) in
          bindE (encode_component PATH_SAFE (if sr_path parsed = [] then [47] else sr_path parsed)) (\<lambda>path.
          bindE (encode_component QUERY_SAFE (sr_query parsed)) (\<lambda>query.
          let has_query_marker = (63 \<in> set (fst (partition_at 35 raw_url)));
              canonical = scheme @ py ''://'' @ bracketed_authority host is_ip_literal @ shown_port @ path @
                (if has_query_marker then 63 # query else []) in
          bindE (seed_utf8_length canonical) (\<lambda>n.
          bindE (requireE (n \<le> MAX_URL_BYTES) (URLCanonicalizationError ''url_too_long'')) (\<lambda>_. Inr canonical)))))))))))"

definition canonicalize_url :: "ucd \<Rightarrow> idna \<Rightarrow> pystr \<Rightarrow> exn + pystr" where
  "canonicalize_url u ix raw_url =
     bindE (raw_url_checks raw_url) (\<lambda>_.
     case urlsplit u raw_url of
       Inl _ \<Rightarrow> url_error ''invalid_host''
     | Inr parsed \<Rightarrow> canonicalize_parsed u ix raw_url parsed)"

section \<open>Identity and admission\<close>

definition url_id_for_canonical_url :: "pystr \<Rightarrow> exn + pystr" where
  "url_id_for_canonical_url canonical_url =
     (case utf8_encode canonical_url of
        None \<Rightarrow> Inl (UnicodeError ''encode'')
      | Some b \<Rightarrow> Inr (sha256_hex (ID_NAMESPACE_BYTES @ b)))"

definition rejected :: "string \<Rightarrow> crawl_eligibility" where
  "rejected reason = \<lparr>ce_eligible = False, ce_rejection = Some reason\<rparr>"

definition static_crawl_eligibility :: "ucd \<Rightarrow> pystr \<Rightarrow> exn + crawl_eligibility" where
  "static_crawl_eligibility u canonical_url =
     bindE (urlsplit u canonical_url) (\<lambda>parsed.
     let host = sr_hostname u parsed; lowered = py_lower (uc_lower u) host in
     if ip_version host \<noteq> None then Inr (rejected ''ip_literal_forbidden'')
     else if 46 \<notin> set lowered \<or> list_ex (\<lambda>name. lowered = name \<or> ends_with (46 # name) lowered) LOCAL_NAMES
     then Inr (rejected ''local_name_forbidden'')
     else (case sr_port parsed of
             Inl _ \<Rightarrow> Inr (rejected ''non_default_crawl_port'')
           | Inr port \<Rightarrow>
               (case port of
                  None \<Rightarrow> Inr \<lparr>ce_eligible = True, ce_rejection = None\<rparr>
                | Some p \<Rightarrow>
                    if p \<noteq> (if sr_scheme parsed = py ''http'' then 80 else 443)
                    then Inr (rejected ''non_default_crawl_port'')
                    else Inr \<lparr>ce_eligible = True, ce_rejection = None\<rparr>)))"

definition identify_url :: "ucd \<Rightarrow> idna \<Rightarrow> pystr \<Rightarrow> exn + url_identity" where
  "identify_url u ix raw_url =
     bindE (canonicalize_url u ix raw_url) (\<lambda>canonical.
     bindE (static_crawl_eligibility u canonical) (\<lambda>eligibility.
     bindE (url_id_for_canonical_url canonical) (\<lambda>url_id.
     Inr \<lparr>ui_canonical_url = canonical, ui_url_id = url_id, ui_crawl_eligible = ce_eligible eligibility,
          ui_crawl_rejection = ce_rejection eligibility, ui_canonicalization_version = CANONICALIZATION_VERSION\<rparr>)))"

definition assert_canonical_identity :: "ucd \<Rightarrow> idna \<Rightarrow> pystr \<Rightarrow> pystr \<Rightarrow> exn + url_identity" where
  "assert_canonical_identity u ix canonical_url expected_url_id =
     bindE (identify_url u ix canonical_url) (\<lambda>identity.
     bindE (requireE (ui_canonical_url identity = canonical_url \<and> ui_url_id identity = expected_url_id)
       (ValueError ''stored URL does not match its V1 identity'')) (\<lambda>_. Inr identity))"

section \<open>Taking the URL apart\<close>

lemma partition_at_prefix: "c \<notin> set q \<Longrightarrow> fst (partition_at c (q @ r)) = q @ fst (partition_at c r)"
  by (induction q) (auto simp: partition_at_def)

lemma urlsplit_tail:
  assumes ok: "urlsplit u v = Inr r" and clean: "url_cleanup v = v" and ne: "sr_scheme r \<noteq> []" "sr_netloc r \<noteq> []"
  obtains p frag where "v = p @ sr_path r @ (if 63 \<in> set (fst (partition_at 35 v)) then 63 # sr_query r else []) @ frag"
    and "frag = [] \<or> hd frag = 35" and "sr_path r = [] \<or> hd (sr_path r) = 47" and "p \<noteq> []"
    and "63 \<notin> set (sr_path r)" and "35 \<notin> set (sr_path r)" and "35 \<notin> set (sr_query r)"
proof -
  obtain pre found rest0 where p: "partition_at 58 v = (pre, found, rest0)" by (cases "partition_at 58 v") auto
  obtain sch rest where sr: "split_scheme v = (sch, rest)" by fastforce
  define nl where "nl = (if starts_with (py ''//'') rest then takeWhile (\<lambda>c. \<not> netloc_end c) (drop 2 rest) else [])"
  define rest' where "rest' = (if starts_with (py ''//'') rest then dropWhile (\<lambda>c. \<not> netloc_end c) (drop 2 rest) else rest)"
  obtain nofrag f frag0 where fr: "partition_at 35 rest' = (nofrag, f, frag0)" by (cases "partition_at 35 rest'") auto
  have parts: "sr_scheme r = sch" "sr_netloc r = nl" "partition_at 63 nofrag = (sr_path r, 63 \<in> set nofrag, sr_query r)"
    using ok fr unfolding urlsplit_def clean sr nl_def rest'_def
    by (auto simp: sum_iffs Let_def partition_at_def split: prod.splits if_splits)
  have found: "found \<and> list_all scheme_char pre \<and> rest = rest0"
    using sr p ne(1) parts(1) by (auto simp: split_scheme_def split: if_splits)
  then have v: "v = pre @ 58 # rest" using p by (auto simp: partition_at_split)
  have dd: "starts_with (py ''//'') rest" using ne(2) parts(2) by (auto simp: nl_def split: if_splits)
  then obtain t where t: "rest = py ''//'' @ t" using starts_withE by blast
  have nl: "nl = takeWhile (\<lambda>c. \<not> netloc_end c) t" "rest' = dropWhile (\<lambda>c. \<not> netloc_end c) t"
    using dd t by (simp_all add: nl_def rest'_def py_def)
  define q where "q = pre @ 58 # py ''//'' @ nl"
  have vq: "v = q @ rest'" using v t by (simp add: q_def nl)
  have q35: "35 \<notin> set q" "63 \<notin> set q"
    using found by (auto simp: q_def nl py_def list_all_iff scheme_char_def char_class_defs netloc_end_def dest!: set_takeWhileD)
  have r': "nofrag = takeWhile (\<lambda>d. d \<noteq> 35) rest'" using fr by (simp add: partition_at_def)
  have "fst (partition_at 35 v) = q @ nofrag"
    using partition_at_prefix [OF q35(1)] by (simp add: vq fr)
  then have marker: "63 \<in> set (fst (partition_at 35 v)) \<longleftrightarrow> 63 \<in> set nofrag" using q35(2) by simp
  have nf: "nofrag = sr_path r @ (if 63 \<in> set nofrag then 63 # sr_query r else [])" "63 \<notin> set (sr_path r)"
    "63 \<notin> set nofrag \<longrightarrow> sr_query r = []"
    using parts(3) by (auto simp: partition_at_split split: if_splits)
  have no35: "35 \<notin> set nofrag" using fr by (simp add: partition_at_split)
  define frag where "frag = (if f then 35 # frag0 else [])"
  have rest: "rest' = nofrag @ frag" using fr by (auto simp: partition_at_split frag_def split: if_splits)
  show thesis
  proof (rule that [of q frag])
    show "v = q @ sr_path r @ (if 63 \<in> set (fst (partition_at 35 v)) then 63 # sr_query r else []) @ frag"
      unfolding marker using vq rest nf(1) by (metis append.assoc)
    show "frag = [] \<or> hd frag = 35" by (simp add: frag_def)
    show "sr_path r = [] \<or> hd (sr_path r) = 47"
    proof (cases "sr_path r = []")
      case False
      obtain tl' where "rest' = sr_path r @ tl'" using rest nf(1) by (metis append.assoc)
      then have ne: "rest' \<noteq> []" and hd: "hd rest' = hd (sr_path r)" using False by auto
      have "netloc_end (hd rest')" using hd_dropWhile [of "\<lambda>c. \<not> netloc_end c" t] ne by (simp add: nl(2))
      then have "netloc_end (hd (sr_path r))" by (simp add: hd)
      moreover have "hd (sr_path r) \<noteq> 63" using nf(2) False by (metis hd_in_set)
      moreover have "hd (sr_path r) \<noteq> 35" using no35 nf(1) False by (metis UnCI hd_in_set set_append)
      ultimately show ?thesis by (auto simp: netloc_end_def)
    qed simp
    show "q \<noteq> []" by (simp add: q_def)
    show "63 \<notin> set (sr_path r)" by (rule nf)
    have "set nofrag = set (sr_path r) \<union> (if 63 \<in> set nofrag then insert 63 (set (sr_query r)) else {})"
      by (subst nf(1)) auto
    then show "35 \<notin> set (sr_path r)" "35 \<notin> set (sr_query r)"
      using no35 nf(3) by (metis UnCI insertCI, metis UnCI insertCI empty_iff list.set(1))
  qed
qed

section \<open>Hosts\<close>

lemma host_accepted_printable:
  assumes "host_accepted u ix h" and "d \<in> set h"
  shows "ascii_alnum d \<or> d = 45 \<or> d = 46 \<or> d = 58"
proof (cases "ip_version h")
  case None
  then have "list_all host_label (split_on 46 h)" using assms by (auto simp: host_accepted_def domain_host_ok_def)
  then show ?thesis using domain_host_chars [OF _ assms(2)] by blast
next
  case (Some v)
  then have "37 \<notin> set h" using assms by (simp add: host_accepted_def)
  then show ?thesis
    using ip_version_cases [OF Some] ipv6_chars [OF _ _ assms(2)] ipv4_chars [OF _ assms(2)]
    by (auto simp: char_class_defs)
qed

lemma seed_alabel: "is_ascii l \<Longrightarrow> map lower_ascii l = l \<Longrightarrow> seed_alabel_ok u ix l \<longleftrightarrow> alabel_ok u ix l"
  by (auto simp: seed_alabel_ok_def alabel_ok_def py_lower_ascii split: option.splits)

lemma label_lower:
  assumes "is_ascii h" and "map lower_ascii h = h" and "l \<in> set (split_on 46 h)"
  shows "is_ascii l" and "map lower_ascii l = l"
proof -
  have "set l \<subseteq> set h" using split_on_chars [OF assms(3)] by blast
  moreover have "\<forall>c \<in> set h. lower_ascii c = c" using assms(2) by (metis map_eq_conv map_ident)
  ultimately show "is_ascii l" "map lower_ascii l = l"
    using assms(1) by (auto simp: is_ascii_def list_all_iff intro!: map_idI)
qed

lemma domain_hosts:
  assumes "is_ascii h" and "map lower_ascii h = h"
  shows "validate_domain_host u ix h = Inr () \<and> \<not> dotted_numeric_host h \<longleftrightarrow> domain_host_ok u ix h"
  using label_lower [OF assms] seed_alabel [of _ u ix]
  by (auto simp: validate_domain_host_def domain_host_ok_def Let_def list_all_iff py_lower_ascii sum_iffs)

lemma ip_with_percent: "ip_version h = Some v \<Longrightarrow> 37 \<in> set h \<Longrightarrow> 58 \<in> set h"
proof -
  assume "ip_version h = Some v" "37 \<in> set h"
  then have "ipv6_address h" using ip_version_cases ipv4_chars [of h 37] by (auto simp: char_class_defs)
  then have "3 \<le> length (split_on 58 (fst (partition_at 37 h)))" by (auto simp: ipv6_address_def Let_def split: prod.splits)
  then have "0 < count_list (fst (partition_at 37 h)) 58" by (simp add: length_split_on)
  then have "58 \<in> set (fst (partition_at 37 h))" by (metis count_list_0_iff less_not_refl)
  then show ?thesis by (auto simp: partition_at_def dest: set_takeWhileD)
qed

lemma validated_host_Inr:
  assumes "validated_host u ix h = Inr (host, is_ip)"
  shows "host_accepted u ix host" and "bracketed_authority host is_ip = bracket host"
proof -
  have asc: "is_ascii h" and host: "host = py_lower (uc_lower u) h" and pct: "\<not> (37 \<in> set host \<and> 58 \<in> set host)"
    and ip: "is_ip \<longleftrightarrow> ip_version host \<noteq> None"
    and dom: "\<not> is_ip \<Longrightarrow> 58 \<notin> set host \<and> \<not> dotted_numeric_host host \<and> validate_domain_host u ix host = Inr ()"
    using assms
    by (auto simp: validated_host_def sum_iffs Let_def is_ascii_def list_all_iff list_ex_iff split: if_splits)
  have h: "host = map lower_ascii h" "is_ascii host" "map lower_ascii host = host"
    using asc host by (auto simp: py_lower_ascii is_ascii_def list_all_iff lower_ascii_def ascii_upper_def)
  show acc: "host_accepted u ix host"
  proof (cases "ip_version host")
    case None
    then show ?thesis using ip dom domain_hosts [OF h(2,3), of u ix] h(3) by (simp add: host_accepted_def)
  next
    case (Some v)
    then show ?thesis using ip_with_percent [OF Some] pct h(2,3) by (auto simp: host_accepted_def simp del: map_eq_conv)
  qed
  have "58 \<in> set host \<longleftrightarrow> ip_version host = Some 6" using host_accepted_chars [OF acc] by (simp add: host_chars_ok_def)
  then show "bracketed_authority host is_ip = bracket host"
    using ip by (auto simp: bracketed_authority_def bracket_def)
qed

lemma validated_host_accepted:
  assumes "host_accepted u ix host"
  shows "validated_host u ix host = Inr (host, ip_version host \<noteq> None)"
proof -
  have c: "host_chars_ok host" using host_accepted_chars [OF assms] .
  then have h: "host \<noteq> []" "is_ascii host" "map lower_ascii host = host" "37 \<notin> set host" "58 \<in> set host \<longleftrightarrow> ip_version host = Some 6"
    by (auto simp: host_chars_ok_def)
  have "validate_domain_host u ix host = Inr () \<and> \<not> dotted_numeric_host host" if "ip_version host = None"
    using assms that domain_hosts [OF h(2,3)] by (auto simp: host_accepted_def)
  then show ?thesis
    using h by (auto simp: validated_host_def Let_def py_lower_ascii is_ascii_def list_all_iff list_ex_iff requireE_def)
qed

section \<open>The canonical form is canonical\<close>

lemma safe_sets: "safe_set PATH_SAFE" "safe_set QUERY_SAFE" "47 \<in> set PATH_SAFE" "PATH_SAFE = path_characters"
  "valid_component s QUERY_SAFE \<longleftrightarrow> valid_component s query_characters"
  by (auto simp: safe_set_def PATH_SAFE_def QUERY_SAFE_def py_def path_characters_def query_characters_def is_ascii_def
      valid_component_def list_all_iff)

lemma raw_url_checksD:
  assumes "raw_url_checks raw = Inr ()"
  shows "raw \<noteq> []" and "url_cleanup raw = raw" and "\<not> list_ex is_control raw" and "\<not> malformed_percent raw"
    and "\<not> has_encoded_control raw"
  using assms url_cleanup_id [of raw] by (auto simp: raw_url_checks_def sum_iffs seed_has_encoded_control_def)

lemma component_printable:
  assumes "valid_component s query_characters" and "c \<in> set s"
  shows "33 \<le> c \<and> c \<le> 126 \<and> c \<noteq> 35 \<and> c \<noteq> 92"
  using assms by (auto simp: valid_component_def list_all_iff query_characters_def path_characters_def py_def char_class_defs)

lemma path_component: "valid_component s path_characters \<Longrightarrow> valid_component s query_characters \<and> 63 \<notin> set s"
  by (auto simp: valid_component_def list_all_iff query_characters_def path_characters_def py_def char_class_defs)

lemma encode_component_Inr: "encode_component safe s = Inr e \<longleftrightarrow> quote safe (uppercase_escapes s) = Some e"
  by (auto simp: encode_component_def split: option.splits)

text \<open>The authority has only printable characters and no escape.\<close>

lemma authority_chars:
  assumes "parts_ok scheme port path query" and "host_accepted u ix host"
    and "d \<in> set (scheme @ py ''://'' @ bracket host @ port_text port)"
  shows "33 \<le> d \<and> d \<le> 126 \<and> d \<noteq> 37 \<and> d \<noteq> 35 \<and> d \<noteq> 92 \<and> d \<noteq> 63"
proof -
  have "d \<in> set (py ''https://'') \<or> d \<in> set host \<or> d = 91 \<or> d = 93 \<or> d \<in> set (port_text port)"
    using assms(1,3) bracket_chars [of d host] by (auto simp: parts_ok_def py_def)
  then show ?thesis
    using host_accepted_printable [OF assms(2), of d] port_text_chars [of d port]
    by (auto simp: py_def char_class_defs)
qed

lemma canonical_characters:
  assumes parts: "canonical_parts u ix scheme host port path query"
    and path: "\<not> malformed_percent path" "\<not> lowercase_escape path" "\<not> has_encoded_control path"
    and query: "case query of None \<Rightarrow> True
        | Some q \<Rightarrow> \<not> malformed_percent q \<and> \<not> lowercase_escape q \<and> \<not> has_encoded_control q"
    and len: "seed_utf8_length (canonical_text scheme host port path query) = Inr n" "n \<le> MAX_URL_BYTES"
  shows "validate_characters (canonical_text scheme host port path query) = Inr ()"
proof -
  define p where "p = scheme @ py ''://'' @ bracket host @ port_text port"
  define v where "v = canonical_text scheme host port path query"
  have v: "v = p @ path @ query_text query" by (simp add: v_def p_def canonical_text_def)
  have ok: "parts_ok scheme port path query" "host_accepted u ix host" "valid_component path query_characters"
    "case query of None \<Rightarrow> True | Some q \<Rightarrow> valid_component q query_characters"
    using parts path_component by (auto simp: canonical_parts_def)
  have p37: "37 \<notin> set p" using authority_chars [OF ok(1,2)] p_def by blast
  have chars: "33 \<le> c \<and> c \<le> 126 \<and> c \<noteq> 35 \<and> c \<noteq> 92" if "c \<in> set v" for c
    using that authority_chars [OF ok(1,2), of c] component_printable [OF ok(3), of c]
      component_printable [of "the query" c] ok(4)
    by (auto simp: v p_def query_text_def split: option.splits)
  have q: "\<not> malformed_percent (query_text query)" "\<not> lowercase_escape (query_text query)"
    "\<not> has_encoded_control (query_text query)" "\<not> c1_escape_next (query_text query)"
    using query by (auto simp: query_text_def lowercase_plain has_encoded_control_plain c1_escape_next_plain split: option.splits)
  have "\<not> malformed_percent v" "\<not> lowercase_escape v" "\<not> has_encoded_control v"
    unfolding v using q path
    by (simp_all add: percent_free [OF p37] malformed_append lowercase_append has_encoded_control_append)
  moreover have "v \<noteq> []" using ok(1) by (auto simp: v p_def parts_ok_def py_def)
  moreover have "is_ascii v" "py_strip v = v" "\<not> list_ex is_control v"
    by (rule printable_text, use chars in blast)+
  ultimately show ?thesis
    unfolding v_def [symmetric] using chars len
    by (auto simp: validate_characters_def requireE_def utf8_encode_ascii seed_utf8_length_def v_def [symmetric]
        MAX_CANONICAL_URL_BYTES_def MAX_URL_BYTES_def split: option.splits)
qed

lemma explicit_port_range: "explicit_port n b = Inr (Some p) \<Longrightarrow> 1 \<le> p \<and> p \<le> 65535"
  by (auto simp: explicit_port_def port_number_def sum_iffs Let_def split: prod.splits if_splits)

text \<open>The components of a URL that passes the character checks.\<close>

lemma components_checked:
  assumes raw: "raw_url_checks raw = Inr ()" and split: "urlsplit u raw = Inr r"
    and ne: "sr_scheme r \<noteq> []" "sr_netloc r \<noteq> []"
  shows "\<not> malformed_percent (sr_path r) \<and> \<not> has_encoded_control (sr_path r) \<and> \<not> list_ex is_control (sr_path r)"
    and "sr_path r = [] \<or> hd (sr_path r) = 47"
    and "63 \<in> set (fst (partition_at 35 raw)) \<Longrightarrow>
      \<not> malformed_percent (sr_query r) \<and> \<not> has_encoded_control (sr_query r) \<and> \<not> list_ex is_control (sr_query r)"
proof -
  note ck = raw_url_checksD [OF raw]
  define m where "m = (63 \<in> set (fst (partition_at 35 raw)))"
  obtain p frag where v: "raw = p @ sr_path r @ (if m then 63 # sr_query r else []) @ frag"
    and frag: "frag = [] \<or> hd frag = 35" and hd: "sr_path r = [] \<or> hd (sr_path r) = 47"
    using urlsplit_tail [OF split ck(2) ne] unfolding m_def by metis
  let ?q = "if m then 63 # sr_query r else []"
  have cut: "x = [] \<or> \<not> hex_digit (hd x)" if "x = [] \<or> hd x = 47 \<or> hd x = 63 \<or> hd x = 35" for x :: pystr
    using that by (auto simp: char_class_defs)
  have c1: "?q @ frag = [] \<or> hd (?q @ frag) = 47 \<or> hd (?q @ frag) = 63 \<or> hd (?q @ frag) = 35"
    using frag by auto
  then have c2: "sr_path r @ ?q @ frag = [] \<or> hd (sr_path r @ ?q @ frag) = 47 \<or> hd (sr_path r @ ?q @ frag) = 63 \<or>
      hd (sr_path r @ ?q @ frag) = 35"
    using hd by (cases "sr_path r = []") (simp_all del: append_assoc)
  have m1: "\<not> malformed_percent (sr_path r @ ?q @ frag)" using ck(4) malformed_suffix [of p] by (simp only: v)
  have mp: "\<not> malformed_percent p" using ck(4) malformed_prefix [OF _ cut [OF c2]] by (simp only: v)
  have h1: "\<not> has_encoded_control (sr_path r @ ?q @ frag)"
    using has_encoded_control_parts(2) [OF mp] ck(5) by (simp only: v)
  have pm: "\<not> malformed_percent (sr_path r)" using m1 malformed_prefix [OF _ cut [OF c1]] by blast
  note h2 = has_encoded_control_parts [OF pm h1]
  have ctl: "\<not> list_ex is_control (sr_path r)" "m \<Longrightarrow> \<not> list_ex is_control (sr_query r)"
    using ck(3) arg_cong [OF v, of set] by (auto simp: list_ex_iff)
  show "\<not> malformed_percent (sr_path r) \<and> \<not> has_encoded_control (sr_path r) \<and> \<not> list_ex is_control (sr_path r)"
    using pm h2(1) ctl(1) by blast
  show "sr_path r = [] \<or> hd (sr_path r) = 47" by (rule hd)
  assume "63 \<in> set (fst (partition_at 35 raw))"
  then have m by (simp add: m_def)
  then have m2: "\<not> malformed_percent (sr_query r @ frag)" and h3: "\<not> has_encoded_control (sr_query r @ frag)"
    using m1 malformed_append [OF pm] h2(2) by (simp_all add: has_encoded_control_plain)
  have "frag = [] \<or> hd frag = 47 \<or> hd frag = 63 \<or> hd frag = 35" using frag by blast
  then have "\<not> malformed_percent (sr_query r)" using m2 malformed_prefix [OF _ cut] by blast
  then show "\<not> malformed_percent (sr_query r) \<and> \<not> has_encoded_control (sr_query r) \<and> \<not> list_ex is_control (sr_query r)"
    using has_encoded_control_parts(1) [OF _ h3] ctl(2) \<open>m\<close> by blast
qed

lemma encode_checked:
  assumes "encode_component safe s = Inr e" and "safe_set safe"
    and "\<not> malformed_percent s \<and> \<not> has_encoded_control s \<and> \<not> list_ex is_control s"
  shows "\<not> malformed_percent e \<and> \<not> lowercase_escape e \<and> \<not> has_encoded_control e" and "valid_component e safe"
    and "s \<noteq> [] \<Longrightarrow> hd s = 47 \<Longrightarrow> 47 \<in> set safe \<Longrightarrow> e \<noteq> [] \<and> hd e = 47"
  using encoded [OF _ assms(2), of s e] assms(1,3) unfolding encode_component_Inr by blast+

lemma canonicalize_url_parts:
  assumes "canonicalize_url u ix raw = Inr c"
  shows "\<exists>r scheme host port path query. validate_characters c = Inr () \<and> urlsplit u raw = Inr r \<and>
           host = py_lower (uc_lower u) (sr_hostname u r) \<and>
           c = canonical_text scheme host port path query \<and> canonical_parts u ix scheme host port path query"
proof -
  obtain r where raw: "raw_url_checks raw = Inr ()" and split: "urlsplit u raw = Inr r"
    and parsed: "canonicalize_parsed u ix raw r = Inr c"
    using assms by (auto simp: canonicalize_url_def sum_iffs split: sum.splits)
  define scheme where "scheme = map lower_ascii (sr_scheme r)"
  define m where "m = (63 \<in> set (fst (partition_at 35 raw)))"
  obtain pn where pn: "sr_port r = Inr pn"
    using parsed by (cases "sr_port r") (auto simp: canonicalize_parsed_def Let_def sum_iffs)
  obtain host is_ip port path query n where
    s: "sr_scheme r \<noteq> []" "scheme = py ''http'' \<or> scheme = py ''https''" "sr_netloc r \<noteq> []"
    and host: "validated_host u ix (sr_hostname u r) = Inr (host, is_ip)"
    and port: "explicit_port (sr_netloc r) is_ip = Inr port"
    and path: "encode_component PATH_SAFE (if sr_path r = [] then [47] else sr_path r) = Inr path"
    and query: "encode_component QUERY_SAFE (sr_query r) = Inr query"
    and c: "c = scheme @ py ''://'' @ bracketed_authority host is_ip @
      (case port of None \<Rightarrow> [] | Some p \<Rightarrow> if p \<noteq> (if scheme = py ''http'' then 80 else 443) then 58 # show_nat p else []) @
      path @ (if m then 63 # query else [])"
    and len: "seed_utf8_length c = Inr n" "n \<le> MAX_URL_BYTES"
    using parsed unfolding canonicalize_parsed_def scheme_def [symmetric] m_def [symmetric] Let_def pn
    by (auto simp: sum_iffs split: prod.splits)
  define port' where "port' = (case port of None \<Rightarrow> None | Some p \<Rightarrow> if p = default_port scheme then None else Some p)"
  define query' where "query' = (if m then Some query else None)"
  note ck = components_checked [OF raw split s(1,3), folded m_def]
  have p0: "\<not> malformed_percent (if sr_path r = [] then [47] else sr_path r) \<and>
      \<not> has_encoded_control (if sr_path r = [] then [47] else sr_path r) \<and>
      \<not> list_ex is_control (if sr_path r = [] then [47] else sr_path r)"
    using ck(1) by (simp add: has_encoded_control_plain is_control_def)
  note pe = encode_checked [OF path safe_sets(1) p0]
  have pne: "path \<noteq> [] \<and> hd path = 47" using pe(3) ck(2) safe_sets(3) by (cases "sr_path r = []") simp_all
  have pv: "valid_component path path_characters" using pe(2) by (simp add: safe_sets)
  have qe: "m \<Longrightarrow> \<not> malformed_percent query \<and> \<not> lowercase_escape query \<and> \<not> has_encoded_control query \<and>
      valid_component query query_characters"
    using encode_checked [OF query safe_sets(2)] ck(3) by (auto simp: safe_sets)
  have "35 \<notin> set path" "63 \<notin> set path" "m \<Longrightarrow> 35 \<notin> set query"
    using path_component [OF pv] component_printable qe by blast+
  then have ok: "parts_ok scheme port' path query'"
    using s(2) pne explicit_port_range [of "sr_netloc r" is_ip] port
    by (auto simp: parts_ok_def port'_def query'_def split: option.splits)
  note vh = validated_host_Inr [OF host]
  have parts: "canonical_parts u ix scheme host port' path query'"
    using ok vh(1) pv qe by (auto simp: canonical_parts_def query'_def)
  have spelled: "c = canonical_text scheme host port' path query'"
    by (auto simp: c vh(2) canonical_text_def port_text_def port'_def query_text_def query'_def default_port_def split: option.splits)
  have "validate_characters (canonical_text scheme host port' path query') = Inr ()"
    by (rule canonical_characters [OF parts]) (use pe(1) qe len spelled in \<open>auto simp: query'_def\<close>)
  moreover have "host = py_lower (uc_lower u) (sr_hostname u r)"
    using host by (auto simp: validated_host_def sum_iffs Let_def split: if_splits)
  ultimately show ?thesis using spelled parts split by blast
qed

lemma canonicalize_url_sound:
  assumes "canonicalize_url u ix raw = Inr c"
  shows "validate_characters c = Inr () \<and> (\<exists>scheme host port path query. c = canonical_text scheme host port path query \<and>
           canonical_parts u ix scheme host port path query)"
  using canonicalize_url_parts [OF assms] by blast

section \<open>A canonical URL is its own canonical form\<close>

lemma rpartition_at_found: "c \<notin> set b \<Longrightarrow> rpartition_at c (a @ c # b) = (a, True, b)"
proof -
  assume "c \<notin> set b"
  then have "partition_at c (rev (a @ c # b)) = (rev b, True, rev a)" by (simp add: partition_at_split)
  then show ?thesis by (simp add: rpartition_at_def partition_at_def)
qed

lemma explicit_port_canonical:
  assumes "host_chars_ok host" and "case port of None \<Rightarrow> True | Some p \<Rightarrow> 1 \<le> p \<and> p \<le> 65535"
  shows "explicit_port (bracket host @ port_text port) (ip_version host \<noteq> None) = Inr port"
proof -
  have h: "91 \<notin> set host" "93 \<notin> set host" "58 \<in> set host \<longleftrightarrow> ip_version host = Some 6"
    using assms(1) by (auto simp: host_chars_ok_def)
  have number: "port_number (show_nat p) = Inr (Some p)" if "port = Some p" for p
    using assms(2) that show_nat_digits [of p]
    by (auto simp: port_number_def decimal_value_show_nat requireE_def)
  show ?thesis
  proof (cases "ip_version host = Some 6")
    case True
    have "partition_at 93 (91 # host @ 93 # port_text port) = (91 # host, True, port_text port)"
      using partition_at_found [of 93 "91 # host"] h(2) by simp
    then show ?thesis
      using True number by (auto simp: explicit_port_def bracket_def starts_with_def port_text_def split: option.splits)
  next
    case False
    have "\<not> starts_with [91] (host @ port_text port)"
      using h(1) by (cases host) (auto simp: starts_with_def port_text_def split: option.splits)
    moreover have "58 \<notin> set (show_nat p)" for p
      using show_nat_digits [of p] by (auto simp: list_all_iff ascii_digit_def)
    ultimately show ?thesis
      using False h(3) number rpartition_at_found
      by (auto simp: explicit_port_def bracket_def port_text_def split: option.splits)
  qed
qed

lemma canonicalize_url_fixed:
  assumes ch: "validate_characters v = Inr ()" and v: "v = canonical_text scheme host port path query"
    and parts: "canonical_parts u ix scheme host port path query"
  shows "canonicalize_url u ix v = Inr v"
proof -
  note d = validate_charactersD [OF ch]
  have clean: "url_cleanup v = v" by (rule url_cleanup_id [OF d(4,5)])
  have ok: "parts_ok scheme port path query" and host: "host_accepted u ix host"
    and comp: "valid_component path path_characters" "case query of None \<Rightarrow> True | Some q \<Rightarrow> valid_component q query_characters"
    using parts by (auto simp: canonical_parts_def)
  have hc: "host_chars_ok host" by (rule host_accepted_chars [OF host])
  define q where "q = (case query of None \<Rightarrow> [] | Some q \<Rightarrow> q)"
  obtain r where r: "urlsplit u v = Inr r" "sr_scheme r = scheme" "sr_netloc r = bracket host @ port_text port"
    "sr_path r = path" "sr_query r = q" "sr_port r = Inr port" "sr_hostname u r = host" "\<not> sr_userinfo r"
    using urlsplit_canonical [OF ok hc, of u] clean unfolding v q_def by blast
  define p where "p = scheme @ py ''://'' @ bracket host @ port_text port"
  have vp: "v = p @ path @ query_text query" by (simp add: v p_def canonical_text_def)
  have p37: "37 \<notin> set p" and p63: "63 \<notin> set p"
    using authority_chars [OF ok host] unfolding p_def by blast+
  have pm: "\<not> malformed_percent (path @ query_text query)" "\<not> lowercase_escape (path @ query_text query)"
    using d(6,7) by (simp_all add: vp percent_free [OF p37])
  have cut: "query_text query = [] \<or> \<not> hex_digit (hd (query_text query))"
    by (auto simp: query_text_def char_class_defs split: option.splits)
  have m: "\<not> malformed_percent path" by (rule malformed_prefix [OF pm(1) cut])
  have l: "\<not> lowercase_escape path" and qm: "\<not> malformed_percent q" "\<not> lowercase_escape q"
    using pm by (auto simp: lowercase_append [OF m] malformed_append [OF m] q_def query_text_def lowercase_plain split: option.splits)
  have pe: "encode_component PATH_SAFE path = Inr path"
    unfolding encode_component_Inr by (rule encode_fixed [OF m l _ safe_sets(1)]) (simp add: safe_sets comp(1))
  have "valid_component q query_characters" using comp(2) by (auto simp: q_def valid_component_def split: option.splits)
  then have qe: "encode_component QUERY_SAFE q = Inr q"
    unfolding encode_component_Inr by (intro encode_fixed [OF qm _ safe_sets(2)]) (simp add: safe_sets)
  have marker: "63 \<in> set (fst (partition_at 35 v)) \<longleftrightarrow> query \<noteq> None"
    using d(9) p63 ok by (auto simp: vp query_text_def parts_ok_def split: option.splits)
  have scheme: "scheme \<noteq> []" "map lower_ascii scheme = scheme" "scheme = py ''http'' \<or> scheme = py ''https''"
    using ok by (auto simp: parts_ok_def py_def lower_ascii_def ascii_upper_def)
  have path: "path \<noteq> []" using ok by (simp add: parts_ok_def)
  have port: "case port of None \<Rightarrow> True | Some p \<Rightarrow> 1 \<le> p \<and> p \<le> 65535" "port \<noteq> Some (default_port scheme)"
    using ok by (auto simp: parts_ok_def split: option.splits)
  have netloc: "bracket host @ port_text port \<noteq> []" "64 \<notin> set (bracket host @ port_text port)"
    using hc r(3,8) by (auto simp: sr_userinfo_def bracket_def host_chars_ok_def)
  have br: "bracketed_authority host (ip_version host \<noteq> None) = bracket host"
    using hc by (auto simp: bracketed_authority_def bracket_def host_chars_ok_def)
  have spelled: "scheme @ py ''://'' @ bracket host @
      (case port of None \<Rightarrow> [] | Some p \<Rightarrow> if p \<noteq> default_port scheme then 58 # show_nat p else []) @
      path @ (if query \<noteq> None then 63 # q else []) = v"
    using port(2) by (auto simp: v canonical_text_def port_text_def query_text_def q_def split: option.splits)
  have len: "seed_utf8_length v = Inr (length v)" "length v \<le> MAX_URL_BYTES"
    using d(2,3) by (simp_all add: seed_utf8_length_def utf8_encode_ascii MAX_URL_BYTES_def MAX_CANONICAL_URL_BYTES_def)
  have raw: "raw_url_checks v = Inr ()"
    using d len by (simp add: raw_url_checks_def requireE_def seed_has_encoded_control_def)
  have "canonicalize_parsed u ix v r = Inr v"
    unfolding canonicalize_parsed_def r(2-7) scheme(2) Let_def marker default_port_def [symmetric]
    using scheme(1,3) path netloc
    by (simp del: not_None_eq add: requireE_def validated_host_accepted [OF host] explicit_port_canonical [OF hc port(1)] pe qe br spelled len)
  then show ?thesis using raw r(1) by (simp add: canonicalize_url_def)
qed

lemmas seed_url_eval =
  CANONICALIZATION_VERSION_def ID_NAMESPACE_BYTES_def MAX_URL_BYTES_def PATH_SAFE_def QUERY_SAFE_def LOCAL_NAMES_def
  seed_utf8_length_def seed_has_encoded_control_def seed_alabel_ok_def validate_domain_host_def validated_host_def
  port_number_def explicit_port_def raw_url_checks_def bracketed_authority_def canonicalize_parsed_def
  canonicalize_url_def encode_component_def malformed_percent.simps(2) has_encoded_control.simps(1)

text \<open>A run on a concrete URL, without Unicode data and without A-labels.\<close>

definition plain_ucd :: ucd where "plain_ucd = \<lparr>uc_lower = (\<lambda>c. [c]), uc_nfkc = (\<lambda>s. s)\<rparr>"
definition no_alabels :: idna where "no_alabels = \<lparr>idna_decode = (\<lambda>_. None), idna_encode = (\<lambda>_. None)\<rparr>"

lemma canonicalize_example:
  "canonicalize_url plain_ucd no_alabels (py ''HTTPS://A.com:443/%7e ?q#f'') = Inr (py ''https://a.com/%7E%20?q'')"
  by (simp add: eval_simps seed_url_eval plain_ucd_def no_alabels_def)

lemma identify_example:
  "\<exists>i. identify_url plain_ucd no_alabels (py ''HTTPS://A.com:443/%7e ?q#f'') = Inr i \<and> ui_crawl_eligible i"
  by (simp add: identify_url_def canonicalize_example static_crawl_eligibility_def url_id_for_canonical_url_def Let_def
      eval_simps seed_url_eval plain_ucd_def)

text \<open>
  C25. Canonicalisation ends in a canonical URL: its result is its own canonical form, and the validator
  of the backlinks processor accepts it.
\<close>

theorem canonical_form_is_canonical:
  assumes "canonicalize_url u ix raw = Inr c"
  shows "canonicalize_url u ix c = Inr c \<and> validate_canonical_url u ix c = Inr ()"
  using canonicalize_url_sound [OF assms] canonicalize_url_fixed validate_canonical_url_complete by metis

theorem canonical_form_is_canonical_witness:
  "canonicalize_url plain_ucd no_alabels (py ''https://a.com/%7E%20?q'') = Inr (py ''https://a.com/%7E%20?q'')"
  using canonical_form_is_canonical [OF canonicalize_example] by blast

text \<open>
  C26. The two services agree on what a canonical URL is: the seed importer returns a URL unchanged exactly
  when the backlinks processor accepts it, for every URL and every IDNA library.
\<close>

theorem canonical_exactly_when_validated:
  "canonicalize_url u ix v = Inr v \<longleftrightarrow> validate_canonical_url u ix v = Inr ()"
proof
  assume "canonicalize_url u ix v = Inr v"
  then show "validate_canonical_url u ix v = Inr ()"
    using canonicalize_url_sound validate_canonical_url_complete by metis
next
  assume ok: "validate_canonical_url u ix v = Inr ()"
  then obtain scheme host port path query where
    "v = canonical_text scheme host port path query" "canonical_parts u ix scheme host port path query"
    using validate_parsed_sound validate_canonical_urlD by metis
  then show "canonicalize_url u ix v = Inr v"
    using canonicalize_url_fixed validate_canonical_urlD(1) [OF ok] by blast
qed

section \<open>The identity of a canonical URL\<close>

definition local_name :: "pystr \<Rightarrow> bool" where
  "local_name host \<longleftrightarrow> 46 \<notin> set host \<or> list_ex (\<lambda>name. host = name \<or> ends_with (46 # name) host) LOCAL_NAMES"

lemma identify_url_parts:
  assumes "canonicalize_url u ix raw = Inr c"
  shows "\<exists>scheme host port path query i. identify_url u ix raw = Inr i \<and> ui_canonical_url i = c \<and>
     c = canonical_text scheme host port path query \<and> canonical_parts u ix scheme host port path query \<and>
     ui_url_id i = sha256_hex (ID_NAMESPACE_BYTES @ c) \<and>
     (ui_crawl_eligible i \<longleftrightarrow> ip_version host = None \<and> \<not> local_name host \<and> port = None) \<and>
     (ui_crawl_eligible i \<longleftrightarrow> ui_crawl_rejection i = None)"
proof -
  obtain scheme host port path query where ch: "validate_characters c = Inr ()"
    and c: "c = canonical_text scheme host port path query" and parts: "canonical_parts u ix scheme host port path query"
    using canonicalize_url_sound [OF assms] by blast
  have ok: "parts_ok scheme port path query" and hc: "host_chars_ok host"
    using parts host_accepted_chars by (auto simp: canonical_parts_def)
  have "url_cleanup c = c" using url_cleanup_id validate_charactersD(4,5) [OF ch] by blast
  then obtain r where r: "urlsplit u c = Inr r" "sr_scheme r = scheme" "sr_port r = Inr port" "sr_hostname u r = host"
    using urlsplit_canonical [OF ok hc, of u] unfolding c by blast
  have low: "py_lower (uc_lower u) host = host" using hc by (simp add: host_chars_ok_def py_lower_ascii)
  have port: "p \<noteq> (if scheme = py ''http'' then 80 else 443)" if "port = Some p" for p
    using ok that by (auto simp: parts_ok_def default_port_def)
  define e where "e = (if ip_version host \<noteq> None then rejected ''ip_literal_forbidden''
     else if local_name host then rejected ''local_name_forbidden''
     else if port \<noteq> None then rejected ''non_default_crawl_port'' else \<lparr>ce_eligible = True, ce_rejection = None\<rparr>)"
  have static: "static_crawl_eligibility u c = Inr e"
    using port unfolding static_crawl_eligibility_def r bindE_simps(2) Let_def low local_name_def [symmetric] e_def
    by (cases port; cases "ip_version host") (auto simp: r)
  have e: "ce_eligible e \<longleftrightarrow> ip_version host = None \<and> \<not> local_name host \<and> port = None"
    "ce_eligible e \<longleftrightarrow> ce_rejection e = None"
    by (simp_all add: e_def rejected_def)
  define i where "i = \<lparr>ui_canonical_url = c, ui_url_id = sha256_hex (ID_NAMESPACE_BYTES @ c),
      ui_crawl_eligible = ce_eligible e, ui_crawl_rejection = ce_rejection e,
      ui_canonicalization_version = CANONICALIZATION_VERSION\<rparr>"
  have "utf8_encode c = Some c" using validate_charactersD(2) [OF ch] by (rule utf8_encode_ascii)
  then have ident: "identify_url u ix raw = Inr i"
    using assms static by (simp add: identify_url_def url_id_for_canonical_url_def i_def)
  have i: "ui_canonical_url i = c" "ui_url_id i = sha256_hex (ID_NAMESPACE_BYTES @ c)"
    "ui_crawl_eligible i \<longleftrightarrow> ip_version host = None \<and> \<not> local_name host \<and> port = None"
    "ui_crawl_eligible i \<longleftrightarrow> ui_crawl_rejection i = None"
    using e by (simp_all add: i_def)
  show ?thesis
    by (rule exI [of _ scheme], rule exI [of _ host], rule exI [of _ port], rule exI [of _ path], rule exI [of _ query],
        rule exI [of _ i], intro conjI ident i c parts)
qed

text \<open>
  C27. Identifying a URL fails exactly when canonicalisation does. The identifier is the digest of the canonical
  text under its namespace, and the URL is admitted to the crawl exactly when its host is a domain name
  with a dot outside the local names and it has no port; otherwise a reason is given.
\<close>

theorem identify_url_admission:
  assumes "canonicalize_url u ix raw = Inr c"
  shows "\<exists>scheme host port path query i. identify_url u ix raw = Inr i \<and> ui_canonical_url i = c \<and>
     c = canonical_text scheme host port path query \<and> canonical_parts u ix scheme host port path query \<and>
     ui_url_id i = sha256_hex (ID_NAMESPACE_BYTES @ c) \<and>
     (ui_crawl_eligible i \<longleftrightarrow> ip_version host = None \<and> \<not> local_name host \<and> port = None) \<and>
     (ui_crawl_eligible i \<longleftrightarrow> ui_crawl_rejection i = None)"
  by (rule identify_url_parts [OF assms])

theorem identify_url_admission_witness:
  "\<exists>i. identify_url plain_ucd no_alabels (py ''HTTPS://A.com:443/%7e ?q#f'') = Inr i \<and>
     ui_canonical_url i = py ''https://a.com/%7E%20?q'' \<and>
     ui_url_id i = sha256_hex (ID_NAMESPACE_BYTES @ py ''https://a.com/%7E%20?q'')"
  using identify_url_admission [OF canonicalize_example] by blast

text \<open>A stored URL and identifier are accepted exactly when the URL is canonical and the identifier is its own.\<close>

lemma assert_canonical_identity_iff:
  "assert_canonical_identity u ix c uid = Inr i \<longleftrightarrow>
     identify_url u ix c = Inr i \<and> ui_canonical_url i = c \<and> ui_url_id i = uid"
  by (auto simp: assert_canonical_identity_def sum_iffs)

text \<open>What a record keeps of an identity identifies the same URL again.\<close>

lemma canonicalize_again: "canonicalize_url u ix raw = Inr c \<Longrightarrow> canonicalize_url u ix c = Inr c"
  using canonicalize_url_sound canonicalize_url_fixed by blast

lemma identify_again:
  assumes "identify_url u ix raw = Inr i"
  shows "identify_url u ix (ui_canonical_url i) = Inr i"
    and "\<exists>m. ui_url_id i = sha256_hex m"
proof -
  obtain c e uid where c: "canonicalize_url u ix raw = Inr c" "static_crawl_eligibility u c = Inr e"
    "url_id_for_canonical_url c = Inr uid"
    and i: "i = \<lparr>ui_canonical_url = c, ui_url_id = uid, ui_crawl_eligible = ce_eligible e,
      ui_crawl_rejection = ce_rejection e, ui_canonicalization_version = CANONICALIZATION_VERSION\<rparr>"
    using assms by (auto simp: identify_url_def sum_iffs)
  show "identify_url u ix (ui_canonical_url i) = Inr i"
    using c canonicalize_again [OF c(1)] by (simp add: identify_url_def i)
  show "\<exists>m. ui_url_id i = sha256_hex m"
    using c(3) by (auto simp: url_id_for_canonical_url_def i split: option.splits)
qed

end
