(* ===== verification/Crawl_Seed.thy ===== *)
theory Crawl_Seed
  imports Seed_Url Page_Model
begin

text \<open>
  \<open>crawl_seed.py\<close> of the seed importer: the V1 seed document and the deterministic merge of its sources.
  A document is a Python dictionary with values of any type, as the code receives it; every check is a
  branch of the error sum.

  The lemmas: what a valid document is, that the merge of two valid documents of one URL is valid again
  and keeps the newest source of every key, and that merging a document a second time changes nothing.
\<close>

section \<open>Python values\<close>

datatype pyval =
    VNone
  | VBool bool
  | VInt int
  | VStr pystr
  | VDate datetime
  | VList "pyval list"
  | VDict "(pystr \<times> pyval) list"
  | VOther nat

type_synonym pydict = "(pystr, pyval) dict"

text \<open>A field of a dictionary whose fields have been checked.\<close>

definition fld :: "string \<Rightarrow> pydict \<Rightarrow> pyval" where
  "fld k d = (case map_of d (py k) of None \<Rightarrow> VNone | Some v \<Rightarrow> v)"

fun vstr :: "pyval \<Rightarrow> pystr" where
  "vstr (VStr s) = s"
| "vstr _ = []"

fun vint :: "pyval \<Rightarrow> int" where
  "vint (VInt n) = n"
| "vint _ = 0"

fun is_vstr :: "pyval \<Rightarrow> bool" where
  "is_vstr (VStr _) = True"
| "is_vstr _ = False"

fun is_vdict :: "pyval \<Rightarrow> bool" where
  "is_vdict (VDict _) = True"
| "is_vdict _ = False"

fun vdict :: "pyval \<Rightarrow> pydict" where
  "vdict (VDict d) = d"
| "vdict _ = []"

fun vlist :: "pyval \<Rightarrow> pyval list" where
  "vlist (VList xs) = xs"
| "vlist _ = []"

section \<open>Constants\<close>

definition SCHEMA_VERSION :: int where "SCHEMA_VERSION = 1"
definition MAX_SOURCES :: nat where "MAX_SOURCES = 100"
definition SOURCE_RAW_URL_MAX_UTF8_BYTES :: nat where "SOURCE_RAW_URL_MAX_UTF8_BYTES = MAX_URL_BYTES"
definition SOURCE_KEY_NAMESPACE :: bytes where "SOURCE_KEY_NAMESPACE = py ''mifolyo-crawl-source:v1'' @ [0]"

definition ROOT_FIELDS :: "pystr list" where
  "ROOT_FIELDS = map py
     [''_id'', ''schema_version'', ''canonicalization_version'', ''canonical_url'', ''enabled'', ''priority'',
      ''categories'', ''sources'', ''discovered_at'', ''updated_at'']"

definition SOURCE_FIELDS :: "pystr list" where
  "SOURCE_FIELDS = map py
     [''key'', ''type'', ''source_ref'', ''raw_url'', ''category'', ''priority'', ''observed_at'', ''metadata'']"

abbreviation seed_error :: "string \<Rightarrow> exn" where "seed_error \<equiv> CrawlSeedValidationError"

section \<open>Time stamps and keys\<close>

definition utc_datetime :: "pyval \<Rightarrow> exn + datetime" where
  "utc_datetime v =
     (case v of
        VDate d \<Rightarrow>
          (case dt_offset d of
             None \<Rightarrow> Inl (seed_error ''timestamp must include a UTC offset'')
           | Some offset \<Rightarrow>
               bindE (datetime_add d (- offset)) (\<lambda>normalized.
               Inr \<lparr>dt_fields = dt_fields normalized div 1000 * 1000, dt_offset = Some 0\<rparr>))
      | _ \<Rightarrow> Inl (seed_error ''timestamp must be a datetime''))"

definition utf8_byte_length :: "pystr \<Rightarrow> string \<Rightarrow> exn + nat" where
  "utf8_byte_length value field =
     (case utf8_encode value of None \<Rightarrow> Inl (seed_error (field @ '' must be valid UTF-8'')) | Some b \<Rightarrow> Inr (length b))"

definition stable_source_key :: "pystr \<Rightarrow> pystr \<Rightarrow> exn + pystr" where
  "stable_source_key source_type source_ref =
     bindE (requireE (source_type \<noteq> []) (seed_error ''source type must not be empty'')) (\<lambda>_.
     case utf8_encode (source_type @ 0 # source_ref) of
       None \<Rightarrow> Inl (UnicodeError ''encode'')
     | Some payload \<Rightarrow> Inr (source_type @ 58 # sha256_hex (SOURCE_KEY_NAMESPACE @ payload)))"

section \<open>Validation\<close>

definition one_to_three :: "pyval \<Rightarrow> bool" where
  "one_to_three v = (case v of VInt n \<Rightarrow> n \<in> {1, 2, 3} | _ \<Rightarrow> False)"

definition validate_source :: "pydict \<Rightarrow> exn + unit" where
  "validate_source source =
     bindE (requireE (set (map fst source) = set SOURCE_FIELDS) (seed_error ''source fields do not exactly match V1'')) (\<lambda>_.
     bindE (requireE (list_all (\<lambda>f. is_vstr (fld f source) \<and> vstr (fld f source) \<noteq> [])
         [''key'', ''type'', ''raw_url'', ''category'']) (seed_error ''source field must be a non-empty string'')) (\<lambda>_.
     bindE (requireE (is_vstr (fld ''source_ref'' source)) (seed_error ''source.source_ref must be a string'')) (\<lambda>_.
     let raw_url = vstr (fld ''raw_url'' source) in
     bindE (requireE (length raw_url \<le> MAX_URL_BYTES) (seed_error ''source.raw_url exceeds the V1 limit'')) (\<lambda>_.
     bindE (utf8_byte_length raw_url ''source.raw_url'') (\<lambda>n.
     bindE (requireE (n \<le> SOURCE_RAW_URL_MAX_UTF8_BYTES) (seed_error ''source.raw_url exceeds the V1 limit'')) (\<lambda>_.
     bindE (requireE (one_to_three (fld ''priority'' source)) (seed_error ''source.priority must be an integer from 1 to 3'')) (\<lambda>_.
     bindE (utc_datetime (fld ''observed_at'' source)) (\<lambda>_.
     requireE (is_vdict (fld ''metadata'' source)) (seed_error ''source.metadata must be an object'')))))))))"

primrec validate_sources :: "pyval list \<Rightarrow> exn + unit" where
  "validate_sources [] = Inr ()"
| "validate_sources (s # ss) =
     bindE (requireE (is_vdict s) (seed_error ''each source must be an object'')) (\<lambda>_.
     bindE (validate_source (vdict s)) (\<lambda>_. validate_sources ss))"

definition is_url_id :: "pystr \<Rightarrow> bool" where
  "is_url_id s \<longleftrightarrow> length s = 64 \<and> list_all (\<lambda>c. ascii_digit c \<or> 97 \<le> c \<and> c \<le> 102) s"

abbreviation source_key :: "pydict \<Rightarrow> pystr" where "source_key s \<equiv> vstr (fld ''key'' s)"

definition sources_of :: "pydict \<Rightarrow> pydict list" where "sources_of document = map vdict (vlist (fld ''sources'' document))"

definition lowest_priority :: "pydict list \<Rightarrow> int" where
  "lowest_priority sources = min_list (map (\<lambda>s. vint (fld ''priority'' s)) sources)"

definition category_union :: "pydict list \<Rightarrow> pystr list" where
  "category_union sources = sorted_set (map (\<lambda>s. vstr (fld ''category'' s)) sources)"

definition validate_identity :: "ucd \<Rightarrow> idna \<Rightarrow> pydict \<Rightarrow> exn + unit" where
  "validate_identity u ix document =
     bindE (identify_url u ix (vstr (fld ''canonical_url'' document))) (\<lambda>identity.
     bindE (requireE (ui_canonical_url identity = vstr (fld ''canonical_url'' document))
       (seed_error ''canonical_url is not V1 canonical'')) (\<lambda>_.
     bindE (requireE (fld ''_id'' document = VStr (ui_url_id identity)) (seed_error ''_id does not match canonical_url'')) (\<lambda>_.
     requireE (ui_crawl_eligible identity) (seed_error ''canonical_url is not statically crawl eligible''))))"

definition validate_rollups :: "pydict \<Rightarrow> exn + unit" where
  "validate_rollups document =
     (let sources = vlist (fld ''sources'' document); parts = sources_of document in
      bindE (requireE ((case fld ''sources'' document of VList _ \<Rightarrow> True | _ \<Rightarrow> False) \<and> 1 \<le> length sources \<and> length sources \<le> MAX_SOURCES)
        (seed_error ''sources must contain 1 to 100 entries'')) (\<lambda>_.
      bindE (validate_sources sources) (\<lambda>_.
      bindE (requireE (distinct (map source_key parts)) (seed_error ''source keys must be unique within a seed'')) (\<lambda>_.
      bindE (requireE (map source_key parts = sort (map source_key parts)) (seed_error ''sources must be sorted by key'')) (\<lambda>_.
      bindE (requireE (fld ''priority'' document = VInt (lowest_priority parts))
        (seed_error ''priority must be the lowest source priority'')) (\<lambda>_.
      requireE (fld ''categories'' document = VList (map VStr (category_union parts)))
        (seed_error ''categories must be the sorted source union'')))))))"

definition validate_times :: "pydict \<Rightarrow> exn + unit" where
  "validate_times document =
     bindE (utc_datetime (fld ''discovered_at'' document)) (\<lambda>discovered_at.
     bindE (utc_datetime (fld ''updated_at'' document)) (\<lambda>updated_at.
     requireE (dt_fields discovered_at \<le> dt_fields updated_at) (seed_error ''updated_at must not precede discovered_at'')))"

definition validate_seed_document :: "ucd \<Rightarrow> idna \<Rightarrow> pydict \<Rightarrow> exn + unit" where
  "validate_seed_document u ix document =
     bindE (requireE (set (map fst document) = set ROOT_FIELDS) (seed_error ''seed fields do not exactly match V1'')) (\<lambda>_.
     bindE (requireE (is_vstr (fld ''_id'' document) \<and> is_url_id (vstr (fld ''_id'' document)))
       (seed_error ''_id must be a lowercase SHA-256 digest'')) (\<lambda>_.
     bindE (requireE (fld ''schema_version'' document = VInt SCHEMA_VERSION) (seed_error ''unsupported schema_version'')) (\<lambda>_.
     bindE (requireE (fld ''canonicalization_version'' document = VInt CANONICALIZATION_VERSION)
       (seed_error ''unsupported canonicalization_version'')) (\<lambda>_.
     bindE (requireE (case fld ''enabled'' document of VBool _ \<Rightarrow> True | _ \<Rightarrow> False) (seed_error ''enabled must be a boolean'')) (\<lambda>_.
     bindE (requireE (one_to_three (fld ''priority'' document)) (seed_error ''priority must be an integer from 1 to 3'')) (\<lambda>_.
     bindE (requireE (is_vstr (fld ''canonical_url'' document)) (seed_error ''canonical_url must be a string'')) (\<lambda>_.
     bindE (validate_identity u ix document) (\<lambda>_.
     bindE (validate_rollups document) (\<lambda>_.
     validate_times document)))))))))"

section \<open>Construction\<close>

definition make_source ::
    "pystr \<Rightarrow> pystr \<Rightarrow> pystr \<Rightarrow> pyval \<Rightarrow> int \<Rightarrow> pyval \<Rightarrow> pydict option \<Rightarrow> pystr option \<Rightarrow> exn + pydict" where
  "make_source source_type source_ref raw_url category priority observed_at metadata key =
     bindE (case key of Some k \<Rightarrow> if k \<noteq> [] then Inr k else stable_source_key source_type source_ref
            | None \<Rightarrow> stable_source_key source_type source_ref) (\<lambda>k.
     bindE (utc_datetime observed_at) (\<lambda>observed.
     let source = [(py ''key'', VStr k), (py ''type'', VStr source_type), (py ''source_ref'', VStr source_ref),
           (py ''raw_url'', VStr raw_url), (py ''category'', category), (py ''priority'', VInt priority),
           (py ''observed_at'', VDate observed), (py ''metadata'', VDict (case metadata of None \<Rightarrow> [] | Some m \<Rightarrow> m))] in
     bindE (validate_source source) (\<lambda>_. Inr source)))"

definition new_seed_document ::
    "ucd \<Rightarrow> idna \<Rightarrow> pystr \<Rightarrow> pydict \<Rightarrow> bool \<Rightarrow> pyval option \<Rightarrow> exn + pydict" where
  "new_seed_document u ix raw_url source enabled updated_at =
     bindE (identify_url u ix raw_url) (\<lambda>identity.
     bindE (requireE (ui_crawl_eligible identity) (seed_error ''URL is not statically crawl eligible'')) (\<lambda>_.
     bindE (validate_source source) (\<lambda>_.
     bindE (utc_datetime (fld ''observed_at'' source)) (\<lambda>observed_at.
     bindE (utc_datetime (case updated_at of None \<Rightarrow> VDate observed_at | Some t \<Rightarrow> t)) (\<lambda>updated.
     let document = [(py ''_id'', VStr (ui_url_id identity)), (py ''schema_version'', VInt SCHEMA_VERSION),
           (py ''canonicalization_version'', VInt CANONICALIZATION_VERSION),
           (py ''canonical_url'', VStr (ui_canonical_url identity)), (py ''enabled'', VBool enabled),
           (py ''priority'', fld ''priority'' source), (py ''categories'', VList [fld ''category'' source]),
           (py ''sources'', VList [VDict source]), (py ''discovered_at'', VDate observed_at),
           (py ''updated_at'', VDate updated)] in
     bindE (validate_seed_document u ix document) (\<lambda>_. Inr document))))))"

section \<open>Merging\<close>

text \<open>The loop over the incoming sources: a stored source wins a tie.\<close>

primrec merge_sources :: "(pystr, pydict) dict \<Rightarrow> pydict list \<Rightarrow> exn + (pystr, pydict) dict" where
  "merge_sources sources [] = Inr sources"
| "merge_sources sources (source # rest) =
     (case map_of sources (source_key source) of
        None \<Rightarrow> merge_sources (AList.update (source_key source) source sources) rest
      | Some stored \<Rightarrow>
          bindE (utc_datetime (fld ''observed_at'' source)) (\<lambda>incoming_at.
          bindE (utc_datetime (fld ''observed_at'' stored)) (\<lambda>stored_at.
          merge_sources (if dt_fields stored_at < dt_fields incoming_at
                         then AList.update (source_key source) source sources else sources) rest)))"

definition merged_document :: "pydict \<Rightarrow> pydict list \<Rightarrow> datetime \<Rightarrow> datetime \<Rightarrow> pydict" where
  "merged_document existing merged_sources discovered_at updated_at =
     [(py ''_id'', fld ''_id'' existing), (py ''schema_version'', VInt SCHEMA_VERSION),
      (py ''canonicalization_version'', VInt CANONICALIZATION_VERSION), (py ''canonical_url'', fld ''canonical_url'' existing),
      (py ''enabled'', fld ''enabled'' existing), (py ''priority'', VInt (lowest_priority merged_sources)),
      (py ''categories'', VList (map VStr (category_union merged_sources))), (py ''sources'', VList (map VDict merged_sources)),
      (py ''discovered_at'', VDate discovered_at), (py ''updated_at'', VDate updated_at)]"

definition earlier :: "datetime \<Rightarrow> datetime \<Rightarrow> datetime" where "earlier a b = (if dt_fields b < dt_fields a then b else a)"
definition later :: "datetime \<Rightarrow> datetime \<Rightarrow> datetime" where "later a b = (if dt_fields a < dt_fields b then b else a)"

definition merge_existing ::
    "ucd \<Rightarrow> idna \<Rightarrow> pydict \<Rightarrow> pydict \<Rightarrow> pyval option \<Rightarrow> exn + pydict" where
  "merge_existing u ix existing incoming updated_at =
     bindE (requireE (fld ''_id'' existing = fld ''_id'' incoming) (seed_error ''cannot merge different URL IDs'')) (\<lambda>_.
     bindE (requireE (fld ''canonical_url'' existing = fld ''canonical_url'' incoming)
       (seed_error ''same URL ID has conflicting canonical URLs'')) (\<lambda>_.
     bindE (merge_sources (foldl (\<lambda>d s. AList.update (source_key s) s d) [] (sources_of existing)) (sources_of incoming)) (\<lambda>sources.
     let merged_sources = map (\<lambda>k. the (map_of sources k)) (sort (map fst sources)) in
     bindE (requireE (length merged_sources \<le> MAX_SOURCES) (seed_error ''a seed may have at most 100 sources'')) (\<lambda>_.
     bindE (utc_datetime (fld ''discovered_at'' existing)) (\<lambda>d1.
     bindE (utc_datetime (fld ''discovered_at'' incoming)) (\<lambda>d2.
     bindE (case updated_at of
              Some t \<Rightarrow> utc_datetime t
            | None \<Rightarrow>
                bindE (utc_datetime (fld ''updated_at'' existing)) (\<lambda>u1.
                bindE (utc_datetime (fld ''updated_at'' incoming)) (\<lambda>u2. Inr (later u1 u2)))) (\<lambda>merged_updated_at.
     bindE (requireE (dt_fields (earlier d1 d2) \<le> dt_fields merged_updated_at)
       (seed_error ''updated_at must not precede discovered_at'')) (\<lambda>_.
     let document = merged_document existing merged_sources (earlier d1 d2) merged_updated_at in
     bindE (validate_seed_document u ix document) (\<lambda>_. Inr document)))))))))"

definition merge_seed_documents ::
    "ucd \<Rightarrow> idna \<Rightarrow> pydict option \<Rightarrow> pydict \<Rightarrow> pyval option \<Rightarrow> exn + pydict" where
  "merge_seed_documents u ix existing incoming updated_at =
     bindE (validate_seed_document u ix incoming) (\<lambda>_.
     case existing of
       None \<Rightarrow>
         (case updated_at of
            None \<Rightarrow> bindE (validate_seed_document u ix incoming) (\<lambda>_. Inr incoming)
          | Some t \<Rightarrow>
              bindE (utc_datetime t) (\<lambda>updated.
              let document = AList.update (py ''updated_at'') (VDate updated) incoming in
              bindE (validate_seed_document u ix document) (\<lambda>_. Inr document)))
     | Some e \<Rightarrow>
         bindE (validate_seed_document u ix e) (\<lambda>_. merge_existing u ix e incoming updated_at))"

primrec merge_loop :: "ucd \<Rightarrow> idna \<Rightarrow> pydict option \<Rightarrow> pydict list \<Rightarrow> exn + pydict option" where
  "merge_loop u ix merged [] = Inr merged"
| "merge_loop u ix merged (document # documents) =
     bindE (merge_seed_documents u ix merged document None) (\<lambda>d. merge_loop u ix (Some d) documents)"

definition merge_many_seed_documents :: "ucd \<Rightarrow> idna \<Rightarrow> pydict list \<Rightarrow> exn + pydict" where
  "merge_many_seed_documents u ix documents =
     bindE (merge_loop u ix None documents) (\<lambda>merged.
     case merged of None \<Rightarrow> Inl (seed_error ''at least one seed document is required'') | Some d \<Rightarrow> Inr d)"

section \<open>Valid documents\<close>

abbreviation source_ok :: "pydict \<Rightarrow> bool" where "source_ok s \<equiv> validate_source s = Inr ()"

abbreviation seed_ok :: "ucd \<Rightarrow> idna \<Rightarrow> pydict \<Rightarrow> bool" where "seed_ok u ix d \<equiv> validate_seed_document u ix d = Inr ()"

lemma is_vdict_iff: "is_vdict v \<longleftrightarrow> v = VDict (vdict v)"
  by (cases v) auto

lemma is_vstrD: "is_vstr v \<Longrightarrow> v = VStr (vstr v)"
  by (cases v) auto

lemma validate_sources_iff:
  "validate_sources xs = Inr () \<longleftrightarrow> xs = map (VDict \<circ> vdict) xs \<and> (\<forall>s \<in> set (map vdict xs). source_ok s)"
  by (induction xs) (auto simp: sum_iffs is_vdict_iff)

text \<open>When a source was observed, as the merge compares it.\<close>

definition observed :: "pydict \<Rightarrow> int" where
  "observed s = (case utc_datetime (fld ''observed_at'' s) of Inl _ \<Rightarrow> 0 | Inr d \<Rightarrow> dt_fields d)"

lemma source_okD:
  assumes "source_ok s"
  shows "\<exists>d. utc_datetime (fld ''observed_at'' s) = Inr d \<and> dt_fields d = observed s"
    and "fld ''key'' s = VStr (source_key s)" and "source_key s \<noteq> []"
    and "vint (fld ''priority'' s) \<in> {1, 2, 3}" and "fld ''priority'' s = VInt (vint (fld ''priority'' s))"
    and "fld ''category'' s = VStr (vstr (fld ''category'' s))" and "vstr (fld ''category'' s) \<noteq> []"
  using assms
  by (auto simp: validate_source_def sum_iffs Let_def observed_def one_to_three_def dest: is_vstrD split: pyval.splits)

definition documents_sources_ok :: "pydict list \<Rightarrow> bool" where
  "documents_sources_ok ss \<longleftrightarrow>
     ss \<noteq> [] \<and> length ss \<le> MAX_SOURCES \<and> (\<forall>s \<in> set ss. source_ok s) \<and> distinct (map source_key ss) \<and> sorted (map source_key ss)"

lemma validate_rollups_iff:
  "validate_rollups d = Inr () \<longleftrightarrow>
     documents_sources_ok (sources_of d) \<and> fld ''sources'' d = VList (map VDict (sources_of d)) \<and>
     fld ''priority'' d = VInt (lowest_priority (sources_of d)) \<and>
     fld ''categories'' d = VList (map VStr (category_union (sources_of d)))"
proof (cases "fld ''sources'' d")
  case (VList xs)
  have "map source_key ss = sort (map source_key ss) \<longleftrightarrow> sorted (map source_key ss)" for ss
    by (metis sorted_sort sorted_sort_id)
  moreover have "length xs = length (map vdict xs)" "xs = [] \<longleftrightarrow> map vdict xs = []" by auto
  ultimately show ?thesis
    unfolding validate_rollups_def sources_of_def documents_sources_ok_def VList
    by (auto simp: sum_iffs Let_def validate_sources_iff Suc_le_eq comp_def)
qed (auto simp: validate_rollups_def sum_iffs Let_def)

text \<open>The part of a document that its identity rests on, and its time stamps.\<close>

lemma seed_ok_iff:
  "seed_ok u ix d \<longleftrightarrow>
     set (map fst d) = set ROOT_FIELDS \<and> is_vstr (fld ''_id'' d) \<and> is_url_id (vstr (fld ''_id'' d)) \<and>
     fld ''schema_version'' d = VInt SCHEMA_VERSION \<and> fld ''canonicalization_version'' d = VInt CANONICALIZATION_VERSION \<and>
     (\<exists>b. fld ''enabled'' d = VBool b) \<and> one_to_three (fld ''priority'' d) \<and> is_vstr (fld ''canonical_url'' d) \<and>
     validate_identity u ix d = Inr () \<and> validate_rollups d = Inr () \<and> validate_times d = Inr ()"
  by (auto simp: validate_seed_document_def sum_iffs split: pyval.splits)

lemma validate_times_iff:
  "validate_times d = Inr () \<longleftrightarrow>
     (\<exists>a b. utc_datetime (fld ''discovered_at'' d) = Inr a \<and> utc_datetime (fld ''updated_at'' d) = Inr b \<and>
        dt_fields a \<le> dt_fields b)"
  by (auto simp: validate_times_def sum_iffs)

lemma validate_identity_cong:
  "fld ''_id'' d = fld ''_id'' e \<Longrightarrow> fld ''canonical_url'' d = fld ''canonical_url'' e \<Longrightarrow>
     validate_identity u ix d = validate_identity u ix e"
  by (simp add: validate_identity_def)

lemma utc_datetime_normal:
  assumes "utc_datetime v = Inr d"
  shows "utc_datetime (VDate d) = Inr d"
proof -
  obtain n where n: "d = \<lparr>dt_fields = n div 1000 * 1000, dt_offset = Some 0\<rparr>" "0 \<le> n" "n < DATETIME_END"
    using assms by (auto simp: utc_datetime_def datetime_add_def sum_iffs split: pyval.splits option.splits if_splits)
  have "n div 1000 * 1000 \<le> n" "0 \<le> n div 1000 * 1000" using n(2) by (simp_all add: pos_imp_zdiv_nonneg_iff)
  then show ?thesis using n by (simp add: utc_datetime_def datetime_add_def)
qed

section \<open>The merge of the sources\<close>

text \<open>The specification: of two sources with one key the newer, and on a tie the stored one.\<close>

fun newest :: "pydict option \<Rightarrow> pydict option \<Rightarrow> pydict option" where
  "newest None t = t"
| "newest (Some s) None = Some s"
| "newest (Some s) (Some t) = (if observed s < observed t then Some t else Some s)"

definition source_at :: "pydict list \<Rightarrow> pystr \<Rightarrow> pydict option" where
  "source_at ss = map_of (map (\<lambda>s. (source_key s, s)) ss)"

lemma newest_None [simp]: "newest s None = s"
  by (cases s) auto

lemma keyed_foldl:
  "distinct (map fst acc @ map source_key ss) \<Longrightarrow>
     foldl (\<lambda>d s. AList.update (source_key s) s d) acc ss = acc @ map (\<lambda>s. (source_key s, s)) ss"
proof (induction ss arbitrary: acc)
  case (Cons s ss)
  then have "AList.update (source_key s) s acc = acc @ [(source_key s, s)]"
    by (intro dict_update_fresh) auto
  then show ?case using Cons by simp
qed simp

lemma merge_sources_newest:
  assumes "\<forall>s \<in> set ts. source_ok s" and "\<forall>(k, s) \<in> set ss. source_ok s \<and> k = source_key s"
    and "distinct (map source_key ts)" and "distinct (map fst ss)"
  shows "\<exists>m. merge_sources ss ts = Inr m \<and> (\<forall>(k, s) \<in> set m. source_ok s \<and> k = source_key s) \<and> distinct (map fst m) \<and>
     (\<forall>k. map_of m k = newest (map_of ss k) (source_at ts k))"
  using assms
proof (induction ts arbitrary: ss)
  case Nil
  then show ?case by (simp add: source_at_def)
next
  case (Cons t ts)
  have t: "source_ok t" using Cons.prems by simp
  define ss' where "ss' = (case map_of ss (source_key t) of None \<Rightarrow> AList.update (source_key t) t ss
     | Some s \<Rightarrow> if observed s < observed t then AList.update (source_key t) t ss else ss)"
  have step: "merge_sources ss (t # ts) = merge_sources ss' ts"
  proof (cases "map_of ss (source_key t)")
    case (Some s)
    then have "source_ok s" using Cons.prems(2) map_of_SomeD by fastforce
    then show ?thesis using Some source_okD(1) [OF t] source_okD(1) [of s] by (auto simp: ss'_def)
  qed (simp add: ss'_def)
  have up: "(k, s) \<in> set (AList.update a b ss) \<Longrightarrow> (k, s) = (a, b) \<or> (k, s) \<in> set ss" for a b k s
    by (induction ss) (auto split: if_splits)
  have "\<forall>(k, s) \<in> set ss'. source_ok s \<and> k = source_key s"
    using Cons.prems(2) t up by (fastforce simp: ss'_def split: option.splits if_splits)
  moreover have "distinct (map fst ss')"
    using Cons.prems(4) by (auto simp: ss'_def distinct_update split: option.splits)
  ultimately obtain m where m: "merge_sources ss' ts = Inr m" "\<forall>(k, s) \<in> set m. source_ok s \<and> k = source_key s"
    "distinct (map fst m)" "\<forall>k. map_of m k = newest (map_of ss' k) (source_at ts k)"
    using Cons.IH [of ss'] Cons.prems by auto
  have "source_at ts (source_key t) = None"
    using Cons.prems(3) by (auto simp: source_at_def map_of_eq_None_iff)
  then have "newest (map_of ss' k) (source_at ts k) = newest (map_of ss k) (source_at (t # ts) k)" for k
    by (auto simp: ss'_def source_at_def update_conv' split: option.splits)
  then show ?case using m step by auto
qed

section \<open>The merged document\<close>

lemma merged_document_fields [simp]:
  "fld ''_id'' (merged_document e ss a b) = fld ''_id'' e"
  "fld ''schema_version'' (merged_document e ss a b) = VInt SCHEMA_VERSION"
  "fld ''canonicalization_version'' (merged_document e ss a b) = VInt CANONICALIZATION_VERSION"
  "fld ''canonical_url'' (merged_document e ss a b) = fld ''canonical_url'' e"
  "fld ''enabled'' (merged_document e ss a b) = fld ''enabled'' e"
  "fld ''priority'' (merged_document e ss a b) = VInt (lowest_priority ss)"
  "fld ''categories'' (merged_document e ss a b) = VList (map VStr (category_union ss))"
  "fld ''sources'' (merged_document e ss a b) = VList (map VDict ss)"
  "fld ''discovered_at'' (merged_document e ss a b) = VDate a"
  "fld ''updated_at'' (merged_document e ss a b) = VDate b"
  "set (map fst (merged_document e ss a b)) = set ROOT_FIELDS"
  "sources_of (merged_document e ss a b) = ss"
  by (simp_all add: merged_document_def fld_def py_def ROOT_FIELDS_def sources_of_def comp_def)

lemma lowest_priority_range:
  assumes "ss \<noteq> []" and "\<forall>s \<in> set ss. source_ok s"
  shows "lowest_priority ss \<in> {1, 2, 3}"
proof -
  have "lowest_priority ss = Min (set (map (\<lambda>s. vint (fld ''priority'' s)) ss))"
    using assms(1) by (simp add: lowest_priority_def min_list_Min)
  also have "\<dots> \<in> set (map (\<lambda>s. vint (fld ''priority'' s)) ss)" using assms(1) by (intro Min_in) auto
  finally obtain s where "s \<in> set ss" "lowest_priority ss = vint (fld ''priority'' s)" by auto
  then show ?thesis using source_okD(4) [of s] assms(2) by simp
qed

lemma merged_document_ok:
  assumes e: "seed_ok u ix e" and ss: "documents_sources_ok ss"
    and times: "utc_datetime (VDate a) = Inr a" "utc_datetime (VDate b) = Inr b" "dt_fields a \<le> dt_fields b"
  shows "seed_ok u ix (merged_document e ss a b)"
proof -
  have "lowest_priority ss \<in> {1, 2, 3}"
    using ss by (intro lowest_priority_range) (auto simp: documents_sources_ok_def)
  then have "one_to_three (VInt (lowest_priority ss))" by (simp add: one_to_three_def)
  moreover have "validate_identity u ix (merged_document e ss a b) = Inr ()"
    using e validate_identity_cong [of "merged_document e ss a b" e u ix] by (simp add: seed_ok_iff)
  moreover have "validate_rollups (merged_document e ss a b) = Inr ()"
    using ss by (simp add: validate_rollups_iff)
  moreover have "validate_times (merged_document e ss a b) = Inr ()"
    using times by (simp add: validate_times_iff)
  ultimately show ?thesis using e by (simp only: seed_ok_iff merged_document_fields)
qed

text \<open>The keys of the merged sources, and the sources a merge ends with, in the order of their keys.\<close>

definition merged_keys :: "pydict \<Rightarrow> pydict \<Rightarrow> pystr list" where
  "merged_keys e i = sorted_set (map source_key (sources_of e) @ map source_key (sources_of i))"

definition newest_sources :: "pydict \<Rightarrow> pydict \<Rightarrow> pydict list" where
  "newest_sources e i =
     map (\<lambda>k. the (newest (source_at (sources_of e) k) (source_at (sources_of i) k))) (merged_keys e i)"

lemma newest_cases: "newest s t = Some x \<Longrightarrow> s = Some x \<or> t = Some x"
  by (cases s; cases t) (auto split: if_splits)

lemma newest_None_iff: "newest s t = None \<longleftrightarrow> s = None \<and> t = None"
  by (cases s; cases t) auto

lemma source_at_None_iff: "source_at ss k = None \<longleftrightarrow> k \<notin> source_key ` set ss"
  by (simp add: source_at_def map_of_eq_None_iff image_image)

lemma source_at_SomeD: "source_at ss k = Some s \<Longrightarrow> s \<in> set ss \<and> source_key s = k"
  by (auto simp: source_at_def dest: map_of_SomeD)

lemma sources_merged:
  assumes "documents_sources_ok (sources_of e)" and "documents_sources_ok (sources_of i)"
  shows "\<exists>m. merge_sources (foldl (\<lambda>d s. AList.update (source_key s) s d) [] (sources_of e)) (sources_of i) = Inr m \<and>
     map (\<lambda>k. the (map_of m k)) (sort (map fst m)) = newest_sources e i"
proof -
  let ?e = "map (\<lambda>s. (source_key s, s)) (sources_of e)"
  have d: "distinct (map source_key (sources_of e))" "distinct (map source_key (sources_of i))"
    "\<forall>s \<in> set (sources_of e). source_ok s" "\<forall>s \<in> set (sources_of i). source_ok s"
    using assms by (auto simp: documents_sources_ok_def)
  have fold: "foldl (\<lambda>d s. AList.update (source_key s) s d) [] (sources_of e) = ?e"
    using keyed_foldl [of "[]" "sources_of e"] d(1) by simp
  obtain m where m: "merge_sources ?e (sources_of i) = Inr m" "distinct (map fst m)"
    "\<forall>k. map_of m k = newest (map_of ?e k) (source_at (sources_of i) k)"
    using merge_sources_newest [of "sources_of i" ?e] d by (auto simp: comp_def)
  have at: "map_of m k = newest (source_at (sources_of e) k) (source_at (sources_of i) k)" for k
    using m(3) by (simp add: source_at_def)
  have "k \<in> set (map fst m) \<longleftrightarrow> k \<in> set (merged_keys e i)" for k
    using map_of_eq_None_iff [of m k] at [of k] newest_None_iff source_at_None_iff
    by (auto simp: merged_keys_def)
  then have "set (map fst m) = set (merged_keys e i)" by blast
  then have "sort (map fst m) = merged_keys e i"
    using m(2) by (metis distinct_sort merged_keys_def distinct_sorted_set set_sort sorted_distinct_set_unique sorted_sort sorted_sorted_set)
  then show ?thesis using m(1) at fold by (simp add: newest_sources_def)
qed

lemma newest_sources_at:
  assumes "k \<in> set (merged_keys e i)"
  shows "\<exists>s. newest (source_at (sources_of e) k) (source_at (sources_of i) k) = Some s \<and> source_key s = k \<and>
     s \<in> set (sources_of e) \<union> set (sources_of i)"
proof -
  have "\<not> (source_at (sources_of e) k = None \<and> source_at (sources_of i) k = None)"
    using assms by (auto simp: merged_keys_def source_at_None_iff)
  then obtain s where "newest (source_at (sources_of e) k) (source_at (sources_of i) k) = Some s"
    using newest_None_iff by (cases "newest (source_at (sources_of e) k) (source_at (sources_of i) k)") auto
  then show ?thesis using newest_cases source_at_SomeD by blast
qed

lemma newest_sources_keys: "map source_key (newest_sources e i) = merged_keys e i"
  unfolding newest_sources_def map_map
  by (rule map_idI) (use newest_sources_at in fastforce)

lemma newest_sources_ok:
  assumes "documents_sources_ok (sources_of e)" and "documents_sources_ok (sources_of i)"
    and "length (merged_keys e i) \<le> MAX_SOURCES"
  shows "documents_sources_ok (newest_sources e i)"
proof -
  have "source_ok s" if s: "s \<in> set (newest_sources e i)" for s
  proof -
    obtain k where k: "k \<in> set (merged_keys e i)" "s = the (newest (source_at (sources_of e) k) (source_at (sources_of i) k))"
      using s by (auto simp: newest_sources_def)
    then show ?thesis using newest_sources_at [OF k(1)] assms(1,2) by (auto simp: documents_sources_ok_def)
  qed
  moreover have "newest_sources e i \<noteq> []" "length (newest_sources e i) \<le> MAX_SOURCES"
    using assms by (auto simp: newest_sources_def merged_keys_def documents_sources_ok_def)
  moreover have "distinct (merged_keys e i)" "sorted (merged_keys e i)" by (simp_all add: merged_keys_def)
  ultimately show ?thesis unfolding documents_sources_ok_def newest_sources_keys by blast
qed

lemma newest_sources_lookup:
  "source_at (newest_sources e i) k = newest (source_at (sources_of e) k) (source_at (sources_of i) k)"
proof (cases "k \<in> set (merged_keys e i)")
  case True
  obtain s where s: "newest (source_at (sources_of e) k) (source_at (sources_of i) k) = Some s" "source_key s = k"
    using newest_sources_at [OF True] by blast
  have "s \<in> set (newest_sources e i)" using True s(1) by (force simp: newest_sources_def)
  moreover have "distinct (map source_key (newest_sources e i))" by (simp add: newest_sources_keys merged_keys_def)
  ultimately have "source_at (newest_sources e i) k = Some s"
    unfolding source_at_def using s(2) by (intro map_of_is_SomeI) (auto simp: comp_def)
  then show ?thesis using s(1) by simp
next
  case False
  then have "source_at (newest_sources e i) k = None"
    by (metis newest_sources_keys set_map source_at_None_iff)
  moreover have "source_at (sources_of e) k = None" "source_at (sources_of i) k = None"
    using False by (auto simp: merged_keys_def source_at_None_iff)
  ultimately show ?thesis by simp
qed

section \<open>The merge\<close>

definition stamp :: "pyval \<Rightarrow> datetime" where
  "stamp v = (case utc_datetime v of Inl _ \<Rightarrow> \<lparr>dt_fields = 0, dt_offset = Some 0\<rparr> | Inr d \<Rightarrow> d)"

definition merge_result :: "pydict \<Rightarrow> pydict \<Rightarrow> pydict" where
  "merge_result e i = merged_document e (newest_sources e i)
     (earlier (stamp (fld ''discovered_at'' e)) (stamp (fld ''discovered_at'' i)))
     (later (stamp (fld ''updated_at'' e)) (stamp (fld ''updated_at'' i)))"

lemma seed_ok_stamps:
  assumes "seed_ok u ix d"
  shows "utc_datetime (fld ''discovered_at'' d) = Inr (stamp (fld ''discovered_at'' d))"
    and "utc_datetime (fld ''updated_at'' d) = Inr (stamp (fld ''updated_at'' d))"
    and "dt_fields (stamp (fld ''discovered_at'' d)) \<le> dt_fields (stamp (fld ''updated_at'' d))"
  using assms by (auto simp: seed_ok_iff validate_times_iff stamp_def)

lemma seed_ok_sources: "seed_ok u ix d \<Longrightarrow> documents_sources_ok (sources_of d)"
  by (simp add: seed_ok_iff validate_rollups_iff)

definition mergeable :: "ucd \<Rightarrow> idna \<Rightarrow> pydict \<Rightarrow> pydict \<Rightarrow> bool" where
  "mergeable u ix e i \<longleftrightarrow> seed_ok u ix e \<and> seed_ok u ix i \<and> fld ''_id'' e = fld ''_id'' i \<and>
     fld ''canonical_url'' e = fld ''canonical_url'' i"

lemma merge_result_ok:
  assumes "mergeable u ix e i" and "length (merged_keys e i) \<le> MAX_SOURCES"
  shows "seed_ok u ix (merge_result e i)"
proof -
  have ok: "seed_ok u ix e" "seed_ok u ix i" using assms(1) by (simp_all add: mergeable_def)
  note t = seed_ok_stamps [OF ok(1)] seed_ok_stamps [OF ok(2)]
  show ?thesis
    unfolding merge_result_def
  proof (rule merged_document_ok [OF ok(1)])
    show "documents_sources_ok (newest_sources e i)"
      by (rule newest_sources_ok [OF seed_ok_sources [OF ok(1)] seed_ok_sources [OF ok(2)] assms(2)])
  qed (use t utc_datetime_normal [OF t(1)] utc_datetime_normal [OF t(2)] utc_datetime_normal [OF t(4)]
      utc_datetime_normal [OF t(5)] in \<open>auto simp: earlier_def later_def\<close>)
qed

lemma merge_existing_result:
  assumes "mergeable u ix e i"
  shows "merge_seed_documents u ix (Some e) i None =
     (if length (merged_keys e i) \<le> MAX_SOURCES then Inr (merge_result e i)
      else Inl (seed_error ''a seed may have at most 100 sources''))"
proof -
  have ok: "seed_ok u ix e" "seed_ok u ix i" and id: "fld ''_id'' e = fld ''_id'' i" "fld ''canonical_url'' e = fld ''canonical_url'' i"
    using assms by (simp_all add: mergeable_def)
  note t = seed_ok_stamps [OF ok(1)] seed_ok_stamps [OF ok(2)]
  obtain m where m: "merge_sources (foldl (\<lambda>d s. AList.update (source_key s) s d) [] (sources_of e)) (sources_of i) = Inr m"
    "map (\<lambda>k. the (map_of m k)) (sort (map fst m)) = newest_sources e i"
    using sources_merged [OF seed_ok_sources [OF ok(1)] seed_ok_sources [OF ok(2)]] by blast
  have len: "length (newest_sources e i) = length (merged_keys e i)" by (simp add: newest_sources_def)
  have le: "dt_fields (earlier (stamp (fld ''discovered_at'' e)) (stamp (fld ''discovered_at'' i)))
      \<le> dt_fields (later (stamp (fld ''updated_at'' e)) (stamp (fld ''updated_at'' i)))"
    using t(3,6) by (auto simp: earlier_def later_def)
  have "merge_existing u ix e i None =
     (if length (merged_keys e i) \<le> MAX_SOURCES then Inr (merge_result e i)
      else Inl (seed_error ''a seed may have at most 100 sources''))"
    unfolding merge_existing_def m(1) bindE_simps Let_def m(2) len
    using merge_result_ok [OF assms] le by (simp add: id t requireE_def merge_result_def)
  then show ?thesis using ok by (simp add: merge_seed_documents_def)
qed

section \<open>Merging again\<close>

lemma sorted_set_cong: "set xs = set ys \<Longrightarrow> sorted_set xs = sorted_set ys"
  by (metis distinct_sorted_set set_sorted_set sorted_distinct_set_unique sorted_sorted_set)

lemma newest_again: "newest (newest s t) t = newest s t" "newest (newest s t) s = newest s t"
  by (cases s; cases t; auto)+

text \<open>A document whose sources are the newest of two keeps them when either is merged again.\<close>

lemma newest_sources_again:
  assumes "sources_of d = newest_sources e i" and "x = e \<or> x = i"
  shows "merged_keys d x = merged_keys e i" and "newest_sources d x = newest_sources e i"
proof -
  have keys: "map source_key (sources_of d) = merged_keys e i" by (simp add: assms(1) newest_sources_keys)
  have "set (map source_key (sources_of x)) \<subseteq> set (merged_keys e i)" using assms(2) by (auto simp: merged_keys_def)
  then have "sorted_set (merged_keys e i @ map source_key (sources_of x)) = sorted_set (merged_keys e i)"
    by (intro sorted_set_cong) auto
  also have "\<dots> = merged_keys e i" by (simp add: merged_keys_def sorted_set_id)
  finally show k: "merged_keys d x = merged_keys e i" by (simp add: merged_keys_def [of d x] keys)
  show "newest_sources d x = newest_sources e i"
    unfolding newest_sources_def [of d x] k unfolding assms(1) newest_sources_lookup
    using assms(2) newest_again by (auto simp: newest_sources_def)
qed

lemma earlier_later_again:
  "earlier (earlier a b) a = earlier a b" "earlier (earlier a b) b = earlier a b"
  "later (later a b) a = later a b" "later (later a b) b = later a b"
  by (auto simp: earlier_def later_def)

lemma stamp_normal: "utc_datetime v = Inr d \<Longrightarrow> stamp (VDate d) = d"
  using utc_datetime_normal by (simp add: stamp_def)

lemma merged_document_again: "merged_document (merged_document e ss a b) ss' a' b' = merged_document e ss' a' b'"
  unfolding merged_document_def [of "merged_document e ss a b"] merged_document_fields
  by (simp add: merged_document_def)

lemma merge_result_again:
  assumes m: "mergeable u ix e i" and len: "length (merged_keys e i) \<le> MAX_SOURCES" and x: "x = e \<or> x = i"
  shows "merge_seed_documents u ix (Some (merge_result e i)) x None = Inr (merge_result e i)"
proof -
  let ?d = "merge_result e i"
  have ok: "seed_ok u ix e" "seed_ok u ix i" using m by (simp_all add: mergeable_def)
  have d: "sources_of ?d = newest_sources e i" "fld ''_id'' ?d = fld ''_id'' e" "fld ''canonical_url'' ?d = fld ''canonical_url'' e"
    "fld ''enabled'' ?d = fld ''enabled'' e"
    "fld ''discovered_at'' ?d = VDate (earlier (stamp (fld ''discovered_at'' e)) (stamp (fld ''discovered_at'' i)))"
    "fld ''updated_at'' ?d = VDate (later (stamp (fld ''updated_at'' e)) (stamp (fld ''updated_at'' i)))"
    by (simp_all add: merge_result_def)
  have mx: "mergeable u ix ?d x"
    using m merge_result_ok [OF m len] x by (auto simp: mergeable_def d)
  note again = newest_sources_again [OF d(1) x]
  note t = seed_ok_stamps [OF ok(1)] seed_ok_stamps [OF ok(2)]
  have "stamp (VDate (earlier (stamp (fld ''discovered_at'' e)) (stamp (fld ''discovered_at'' i))))
      = earlier (stamp (fld ''discovered_at'' e)) (stamp (fld ''discovered_at'' i))"
    "stamp (VDate (later (stamp (fld ''updated_at'' e)) (stamp (fld ''updated_at'' i))))
      = later (stamp (fld ''updated_at'' e)) (stamp (fld ''updated_at'' i))"
    using t(1,2,4,5) stamp_normal by (auto simp: earlier_def later_def)
  then have "merge_result ?d x = merged_document ?d (newest_sources e i)
      (earlier (stamp (fld ''discovered_at'' e)) (stamp (fld ''discovered_at'' i)))
      (later (stamp (fld ''updated_at'' e)) (stamp (fld ''updated_at'' i)))"
    unfolding merge_result_def [of ?d x] again(2) d(5,6) using x by (elim disjE) (simp_all only: earlier_later_again)
  then have "merge_result ?d x = ?d" by (simp only: merge_result_def [of e i] merged_document_again)
  then show ?thesis
    using merge_existing_result [OF mx] len again(1) by simp
qed

section \<open>New documents\<close>

lemma utc_datetime_cases: "utc_datetime v = Inr d \<Longrightarrow> \<exists>x. v = VDate x"
  by (cases v) (auto simp: utc_datetime_def)

lemma is_url_id_sha256: "is_url_id (sha256_hex m)"
  using sha256_hex_chars [of _ m] by (fastforce simp: is_url_id_def list_all_iff char_class_defs)

text \<open>An admitted URL and a valid source always make a valid document.\<close>

lemma new_seed_document_ok:
  assumes i: "identify_url u ix raw_url = Inr i" "ui_crawl_eligible i" and s: "source_ok source"
  shows "\<exists>d. new_seed_document u ix raw_url source enabled None = Inr d \<and> seed_ok u ix d \<and> sources_of d = [source] \<and>
     fld ''_id'' d = VStr (ui_url_id i) \<and> fld ''canonical_url'' d = VStr (ui_canonical_url i) \<and> fld ''enabled'' d = VBool enabled"
proof -
  obtain o' where o': "utc_datetime (fld ''observed_at'' source) = Inr o'" using source_okD(1) [OF s] by blast
  obtain p c where p: "fld ''priority'' source = VInt p" "fld ''category'' source = VStr c"
    using source_okD(5,6) [OF s] by blast
  define d where "d = [(py ''_id'', VStr (ui_url_id i)), (py ''schema_version'', VInt SCHEMA_VERSION),
           (py ''canonicalization_version'', VInt CANONICALIZATION_VERSION),
           (py ''canonical_url'', VStr (ui_canonical_url i)), (py ''enabled'', VBool enabled),
           (py ''priority'', fld ''priority'' source), (py ''categories'', VList [fld ''category'' source]),
           (py ''sources'', VList [VDict source]), (py ''discovered_at'', VDate o'),
           (py ''updated_at'', VDate o')]"
  have f: "fld ''_id'' d = VStr (ui_url_id i)" "fld ''schema_version'' d = VInt SCHEMA_VERSION"
    "fld ''canonicalization_version'' d = VInt CANONICALIZATION_VERSION"
    "fld ''canonical_url'' d = VStr (ui_canonical_url i)" "fld ''enabled'' d = VBool enabled"
    "fld ''priority'' d = fld ''priority'' source" "fld ''categories'' d = VList [fld ''category'' source]"
    "fld ''sources'' d = VList [VDict source]" "fld ''discovered_at'' d = VDate o'" "fld ''updated_at'' d = VDate o'"
    "set (map fst d) = set ROOT_FIELDS" "sources_of d = [source]"
    by (simp_all add: d_def fld_def py_def ROOT_FIELDS_def sources_of_def)
  have "validate_identity u ix d = Inr ()"
    using identify_again(1) [OF i(1)] i(2) by (simp add: validate_identity_def f requireE_def)
  moreover have "validate_rollups d = Inr ()"
    unfolding validate_rollups_iff f documents_sources_ok_def
    using s p by (simp add: lowest_priority_def category_union_def sorted_set_def MAX_SOURCES_def)
  moreover have "validate_times d = Inr ()"
    using utc_datetime_normal [OF o'] by (simp add: validate_times_iff f)
  moreover have "one_to_three (fld ''priority'' source)"
    using source_okD(4) [OF s] p by (simp add: one_to_three_def)
  ultimately have ok: "seed_ok u ix d"
    using identify_again(2) [OF i(1)] is_url_id_sha256 unfolding seed_ok_iff f by auto
  have "new_seed_document u ix raw_url source enabled None = Inr d"
    using i s o' ok utc_datetime_normal [OF o'] by (simp add: new_seed_document_def requireE_def Let_def d_def)
  then show ?thesis using ok f by blast
qed

lemmas crawl_seed_eval =
  fld_def SOURCE_FIELDS_def ROOT_FIELDS_def MAX_SOURCES_def SOURCE_RAW_URL_MAX_UTF8_BYTES_def MAX_URL_BYTES_def
  utc_datetime_def utf8_byte_length_def validate_source_def one_to_three_def
  datetime_add_def DATETIME_END_def

text \<open>Two sources for one URL, and the documents made of them.\<close>

definition example_source :: "string \<Rightarrow> int \<Rightarrow> pydict" where
  "example_source key at =
     [(py ''key'', VStr (py key)), (py ''type'', VStr (py ''manual'')), (py ''source_ref'', VStr (py ''row'')),
      (py ''raw_url'', VStr (py ''HTTPS://A.com'')), (py ''category'', VStr (py ''news'')), (py ''priority'', VInt 2),
      (py ''observed_at'', VDate \<lparr>dt_fields = at, dt_offset = Some 0\<rparr>), (py ''metadata'', VDict [])]"

lemma example_source_ok:
  assumes "0 \<le> at" and "at < DATETIME_END" and "key = ''k1'' \<or> key = ''k2''"
  shows "source_ok (example_source key at)" and "source_key (example_source key at) = py key"
  using assms by (auto simp: example_source_def crawl_seed_eval eval_simps)

lemma example_seeds:
  obtains e i where
    "new_seed_document plain_ucd no_alabels (py ''HTTPS://A.com:443/%7e ?q#f'') (example_source ''k1'' 0) True None = Inr e"
    "new_seed_document plain_ucd no_alabels (py ''HTTPS://A.com:443/%7e ?q#f'') (example_source ''k2'' 5000) False None = Inr i"
    "mergeable plain_ucd no_alabels e i" "sources_of e = [example_source ''k1'' 0]" "sources_of i = [example_source ''k2'' 5000]"
    "fld ''enabled'' e = VBool True"
proof -
  obtain n where n: "identify_url plain_ucd no_alabels (py ''HTTPS://A.com:443/%7e ?q#f'') = Inr n" "ui_crawl_eligible n"
    using identify_example by blast
  have ok: "source_ok (example_source ''k1'' 0)" "source_ok (example_source ''k2'' 5000)"
    by (simp_all add: example_source_ok(1) DATETIME_END_def)
  show thesis
    using that new_seed_document_ok [OF n ok(1), of True] new_seed_document_ok [OF n ok(2), of False]
    by (fastforce simp: mergeable_def)
qed

lemma example_keys: "source_key (example_source ''k1'' a) = py ''k1''" "source_key (example_source ''k2'' a) = py ''k2''"
  by (simp_all add: example_source_def fld_def py_def)

text \<open>
  C28. Merging two valid documents of one URL fails only when they have more than 100 source keys together.
  Otherwise the result is a valid document whose sources are, for every key, the newer of the two (the stored
  one on a tie), with priority and categories recomputed from them and the stored \<open>enabled\<close> flag kept.
\<close>

theorem merge_keeps_the_newest_sources:
  assumes "seed_ok u ix e" and "seed_ok u ix i" and "fld ''_id'' e = fld ''_id'' i"
    and "fld ''canonical_url'' e = fld ''canonical_url'' i"
  shows "if MAX_SOURCES < length (merged_keys e i)
     then merge_seed_documents u ix (Some e) i None = Inl (seed_error ''a seed may have at most 100 sources'')
     else \<exists>d. merge_seed_documents u ix (Some e) i None = Inr d \<and> seed_ok u ix d \<and>
       map source_key (sources_of d) = merged_keys e i \<and>
       (\<forall>k. source_at (sources_of d) k = newest (source_at (sources_of e) k) (source_at (sources_of i) k)) \<and>
       fld ''priority'' d = VInt (lowest_priority (sources_of d)) \<and>
       fld ''categories'' d = VList (map VStr (category_union (sources_of d))) \<and>
       fld ''enabled'' d = fld ''enabled'' e"
proof -
  have m: "mergeable u ix e i" using assms by (simp add: mergeable_def)
  have "sources_of (merge_result e i) = newest_sources e i" "fld ''enabled'' (merge_result e i) = fld ''enabled'' e"
    "fld ''priority'' (merge_result e i) = VInt (lowest_priority (newest_sources e i))"
    "fld ''categories'' (merge_result e i) = VList (map VStr (category_union (newest_sources e i)))"
    by (simp_all add: merge_result_def)
  then show ?thesis
    using merge_existing_result [OF m] merge_result_ok [OF m] by (simp add: newest_sources_keys newest_sources_lookup not_less)
qed

theorem merge_keeps_the_newest_sources_witness:
  "\<exists>e i d. new_seed_document plain_ucd no_alabels (py ''HTTPS://A.com:443/%7e ?q#f'') (example_source ''k1'' 0) True None = Inr e \<and>
     new_seed_document plain_ucd no_alabels (py ''HTTPS://A.com:443/%7e ?q#f'') (example_source ''k2'' 5000) False None = Inr i \<and>
     merge_seed_documents plain_ucd no_alabels (Some e) i None = Inr d \<and>
     map source_key (sources_of d) = [py ''k1'', py ''k2''] \<and> fld ''enabled'' d = VBool True"
proof -
  obtain e i where e: "new_seed_document plain_ucd no_alabels (py ''HTTPS://A.com:443/%7e ?q#f'') (example_source ''k1'' 0) True None = Inr e"
    "new_seed_document plain_ucd no_alabels (py ''HTTPS://A.com:443/%7e ?q#f'') (example_source ''k2'' 5000) False None = Inr i"
    "mergeable plain_ucd no_alabels e i" "sources_of e = [example_source ''k1'' 0]" "sources_of i = [example_source ''k2'' 5000]"
    "fld ''enabled'' e = VBool True"
    by (rule example_seeds)
  have keys: "merged_keys e i = [py ''k1'', py ''k2'']"
    using e(4,5) by (simp add: merged_keys_def example_keys sorted_set_def py_def)
  show ?thesis
    using merge_keeps_the_newest_sources [of plain_ucd no_alabels e i] e keys by (auto simp: mergeable_def MAX_SOURCES_def)
qed

text \<open>
  C29. A merge absorbs its inputs: merging either of them into the result again returns the same document,
  so replaying an import changes nothing.
\<close>

theorem merge_replay:
  assumes "seed_ok u ix e" and "seed_ok u ix i" and "fld ''_id'' e = fld ''_id'' i"
    and "fld ''canonical_url'' e = fld ''canonical_url'' i"
    and "merge_seed_documents u ix (Some e) i None = Inr d"
  shows "merge_seed_documents u ix (Some d) i None = Inr d \<and> merge_seed_documents u ix (Some d) e None = Inr d"
proof -
  have m: "mergeable u ix e i" using assms by (simp add: mergeable_def)
  have d: "d = merge_result e i" and len: "length (merged_keys e i) \<le> MAX_SOURCES"
    using merge_existing_result [OF m] assms(5) by (auto split: if_splits)
  show ?thesis unfolding d using merge_result_again [OF m len] by blast
qed

theorem merge_replay_witness:
  "\<exists>e i d. new_seed_document plain_ucd no_alabels (py ''HTTPS://A.com:443/%7e ?q#f'') (example_source ''k1'' 0) True None = Inr e \<and>
     new_seed_document plain_ucd no_alabels (py ''HTTPS://A.com:443/%7e ?q#f'') (example_source ''k2'' 5000) False None = Inr i \<and>
     merge_seed_documents plain_ucd no_alabels (Some e) i None = Inr d \<and>
     merge_seed_documents plain_ucd no_alabels (Some d) i None = Inr d"
proof -
  obtain e i where e: "new_seed_document plain_ucd no_alabels (py ''HTTPS://A.com:443/%7e ?q#f'') (example_source ''k1'' 0) True None = Inr e"
    "new_seed_document plain_ucd no_alabels (py ''HTTPS://A.com:443/%7e ?q#f'') (example_source ''k2'' 5000) False None = Inr i"
    "mergeable plain_ucd no_alabels e i" "sources_of e = [example_source ''k1'' 0]" "sources_of i = [example_source ''k2'' 5000]"
    "fld ''enabled'' e = VBool True"
    by (rule example_seeds)
  have "length (merged_keys e i) \<le> MAX_SOURCES"
    using e(4,5) by (simp add: merged_keys_def example_keys sorted_set_def py_def MAX_SOURCES_def)
  then obtain d where d: "merge_seed_documents plain_ucd no_alabels (Some e) i None = Inr d"
    using merge_existing_result [OF e(3)] by auto
  show ?thesis
    using merge_replay [OF _ _ _ _ d] e(1-3) d by (auto simp: mergeable_def)
qed

end
