(* ===== verification/Utf8_Order.thy ===== *)
theory Utf8_Order
  imports Datastore
begin

text \<open>
  Texts in the order of their code points, as Python sorts them, are in the order of their UTF-8 bytes, as
  MongoDB compares text under the simple collation.
\<close>

lemma byte_digits: "(c :: nat) = 64 * (c div 64) + c mod 64" "c mod 64 < 64"
  "c div 64 = 64 * (c div 4096) + c div 64 mod 64" "c div 64 mod 64 < 64"
  "c div 4096 = 64 * (c div 262144) + c div 4096 mod 64" "c div 4096 mod 64 < 64"
proof -
  have "c div 4096 = c div 64 div 64" "c div 262144 = c div 4096 div 64" by (simp_all flip: div_mult2_eq)
  then show "(c :: nat) = 64 * (c div 64) + c mod 64" "c mod 64 < 64"
    "c div 64 = 64 * (c div 4096) + c div 64 mod 64" "c div 64 mod 64 < 64"
    "c div 4096 = 64 * (c div 262144) + c div 4096 mod 64" "c div 4096 mod 64 < 64"
    by simp_all
qed

text \<open>The bytes of a smaller character come first, whatever follows them.\<close>

lemma utf8_char_less:
  assumes "utf8_char c = Some x" and "utf8_char d = Some y" and "c < d"
  shows "x @ r < y @ r'"
proof -
  note cd = byte_digits [of c] byte_digits [of d]
  define c1 c2 c3 c4 c5 where c: "c1 = c div 64" "c2 = c div 4096" "c3 = c div 262144" "c4 = c div 64 mod 64" "c5 = c div 4096 mod 64"
  define d1 d2 d3 d4 d5 where d: "d1 = d div 64" "d2 = d div 4096" "d3 = d div 262144" "d4 = d div 64 mod 64" "d5 = d div 4096 mod 64"
  note eqs = cd [folded c d]
  have x: "x = (if c < 128 then [c] else if c < 2048 then [192 + c1, 128 + c mod 64]
      else if c < 65536 then [224 + c2, 128 + c4, 128 + c mod 64] else [240 + c3, 128 + c5, 128 + c4, 128 + c mod 64])"
    using assms(1) by (auto simp: utf8_char_def c split: if_splits)
  have y: "y = (if d < 128 then [d] else if d < 2048 then [192 + d1, 128 + d mod 64]
      else if d < 65536 then [224 + d2, 128 + d4, 128 + d mod 64] else [240 + d3, 128 + d5, 128 + d4, 128 + d mod 64])"
    using assms(2) by (auto simp: utf8_char_def d split: if_splits)
  show ?thesis
    unfolding x y using assms(3) eqs by (simp only: if_distrib) (auto split: if_splits)
qed

lemma utf8_less:
  "utf8_encode s = Some a \<Longrightarrow> utf8_encode t = Some b \<Longrightarrow> s < t \<Longrightarrow> a < b"
proof (induction s arbitrary: t a b)
  case Nil
  then obtain d t' where "t = d # t'" by (cases t) auto
  then obtain y r where "utf8_char d = Some y" "b = y @ r" using Nil by (auto split: option.splits)
  moreover from this have "y \<noteq> []" by (auto simp: utf8_char_def split: if_splits)
  ultimately show ?case using Nil by (cases y) auto
next
  case (Cons c s)
  obtain d t' where t: "t = d # t'" using Cons.prems(3) by (cases t) auto
  obtain x r where x: "utf8_char c = Some x" "utf8_encode s = Some r" "a = x @ r"
    using Cons.prems(1) by (auto split: option.splits)
  obtain y r' where y: "utf8_char d = Some y" "utf8_encode t' = Some r'" "b = y @ r'"
    using Cons.prems(2) t by (auto split: option.splits)
  show ?case
  proof (cases "c < d")
    case True
    then show ?thesis using utf8_char_less x y by simp
  next
    case False
    then have "c = d" "s < t'" using Cons.prems(3) t by auto
    then have "x = y" "r < r'" using x y Cons.IH by auto
    moreover have "r < r' \<Longrightarrow> y @ r < y @ r'" by (induction y) auto
    ultimately show ?thesis using x y by simp
  qed
qed

definition utf8_order :: "pystr \<Rightarrow> bytes" where "utf8_order s = the (utf8_encode s)"

text \<open>Sorting by the bytes is sorting by the text.\<close>

lemma utf8_order_less_eq:
  assumes "utf8_encode s \<noteq> None" and "utf8_encode t \<noteq> None"
  shows "utf8_order s \<le> utf8_order t \<longleftrightarrow> s \<le> t"
proof -
  obtain a b where e: "utf8_encode s = Some a" "utf8_encode t = Some b" using assms by auto
  consider "s < t" | "s = t" | "t < s" by (rule linorder_cases)
  then show ?thesis using e utf8_less by cases (auto simp: utf8_order_def not_le [symmetric] less_imp_le)
qed

lemma sort_by_bytes:
  assumes "\<forall>x \<in> set xs. utf8_encode (f x) \<noteq> None" and "sorted (map f ys)" and "distinct (map f ys)" and "set xs = set ys"
    and "distinct (map f xs)"
  shows "sort_key (\<lambda>x. utf8_order (f x)) xs = ys"
proof -
  let ?g = "\<lambda>x. utf8_order (f x)"
  have enc: "\<forall>x \<in> set ys. utf8_encode (f x) \<noteq> None" using assms(1,4) by simp
  have inj: "inj_on ?g (set ys)"
  proof (rule inj_onI)
    fix x y assume "x \<in> set ys" "y \<in> set ys" "?g x = ?g y"
    then have "f x = f y" using enc utf8_order_less_eq by (metis order.antisym order.refl)
    then show "x = y" using assms(3) \<open>x \<in> set ys\<close> \<open>y \<in> set ys\<close> by (auto simp: distinct_map inj_on_def)
  qed
  have "sorted (map ?g ys)"
    using assms(2) enc by (induction ys) (auto simp: utf8_order_less_eq)
  moreover have "distinct (map ?g ys)" using inj assms(3) by (simp add: distinct_map)
  moreover have "set (sort_key ?g xs) = set ys" using assms(4) by simp
  moreover have "distinct (map ?g (sort_key ?g xs))" using inj assms(4,5) by (simp add: distinct_map)
  ultimately show ?thesis
    using inj by (intro map_sorted_distinct_set_unique [of ?g]) auto
qed

end
