(* ===== verification/Seed_Pipeline.thy ===== *)
theory Seed_Pipeline
  imports Crawl_Seed Utf8_Order
begin

text \<open>
  \<open>mongo_merge_pipeline\<close> of \<open>mongo_seeds.py\<close>: the update pipeline that merges a seed document into the
  stored one inside MongoDB. The pipeline is data that the code builds; how MongoDB evaluates it is the
  interface \<open>aggregation\<close>, whose laws are the documented meaning of the operators on the values that
  they get here.

  The theorem: run on a stored document, the pipeline computes the document that \<open>merge_seed_documents\<close>
  computes in Python.
\<close>

section \<open>The pipeline\<close>

datatype aexpr =
    ALiteral pyval
  | AField string
  | AFieldEach string string
  | AVarField string string
  | AEmptyArray
  | AIfNull aexpr aexpr
  | ANot aexpr
  | AIn aexpr aexpr
  | AAnd "aexpr list"
  | AOr "aexpr list"
  | AEq aexpr aexpr
  | AGte aexpr aexpr
  | AGt aexpr aexpr
  | ALt aexpr aexpr
  | AType aexpr
  | ACond aexpr aexpr aexpr
  | AMap aexpr string aexpr
  | AFilter aexpr string aexpr
  | AAnyElementTrue aexpr
  | AConcatArrays "aexpr list"
  | ASortArray aexpr "string option"
  | ASetUnion aexpr aexpr
  | AMin aexpr

datatype astage =
    SSet "(pystr \<times> aexpr) list"
  | SProject "pystr list"

definition existing_sources :: aexpr where
  "existing_sources = AIfNull (AField ''sources'') AEmptyArray"

definition stored_is_same_or_newer :: "pydict \<Rightarrow> aexpr" where
  "stored_is_same_or_newer source =
     AAnd [AEq (AVarField ''source'' ''key'') (ALiteral (fld ''key'' source)),
           AGte (AVarField ''source'' ''observed_at'') (ALiteral (fld ''observed_at'' source))]"

definition preserved_existing :: "pydict list \<Rightarrow> aexpr" where
  "preserved_existing incoming =
     AFilter existing_sources ''source''
       (AOr (ANot (AIn (AVarField ''source'' ''key'') (ALiteral (VList (map (fld ''key'') incoming))))
             # map stored_is_same_or_newer incoming))"

definition incoming_array :: "pydict \<Rightarrow> aexpr" where
  "incoming_array source =
     ACond (AAnyElementTrue (AMap existing_sources ''source'' (stored_is_same_or_newer source)))
       AEmptyArray (ALiteral (VList [VDict source]))"

text \<open>The stored time stamp, unless it is missing or the new one comes before (or after) it.\<close>

definition kept_or :: "string \<Rightarrow> (aexpr \<Rightarrow> aexpr \<Rightarrow> aexpr) \<Rightarrow> pyval \<Rightarrow> aexpr" where
  "kept_or field comparison v =
     ACond (AOr [AEq (AType (AField field)) (ALiteral (VStr (py ''missing''))), comparison (AField field) (ALiteral v)])
       (ALiteral v) (AField field)"

definition mongo_merge_pipeline :: "ucd \<Rightarrow> idna \<Rightarrow> pydict \<Rightarrow> exn + astage list" where
  "mongo_merge_pipeline u ix document =
     bindE (validate_seed_document u ix document) (\<lambda>_.
     let incoming_sources = sources_of document in
     Inr [SSet
            [(py ''schema_version'', ALiteral (VInt 1)), (py ''canonicalization_version'', ALiteral (VInt 1)),
             (py ''canonical_url'', ALiteral (fld ''canonical_url'' document)),
             (py ''enabled'', AIfNull (AField ''enabled'') (ALiteral (fld ''enabled'' document))),
             (py ''sources'', ASortArray (AConcatArrays (preserved_existing incoming_sources # map incoming_array incoming_sources))
                (Some ''key'')),
             (py ''discovered_at'', kept_or ''discovered_at'' AGt (fld ''discovered_at'' document)),
             (py ''updated_at'', kept_or ''updated_at'' ALt (fld ''updated_at'' document))],
          SSet
            [(py ''priority'', AMin (AFieldEach ''sources'' ''priority'')),
             (py ''categories'', ASortArray (ASetUnion (AFieldEach ''sources'' ''category'') AEmptyArray) None)],
          SProject (sorted_set ROOT_FIELDS)])"

section \<open>What the driver stores\<close>

fun bson_of :: "pyval \<Rightarrow> bson" where
  "bson_of VNone = BNull"
| "bson_of (VBool b) = BBool b"
| "bson_of (VInt n) = BInt n"
| "bson_of (VStr s) = BStr s"
| "bson_of (VDate d) = BDate ((dt_fields d - (case dt_offset d of None \<Rightarrow> 0 | Some n \<Rightarrow> n) - UNIX_EPOCH_MICROS) div 1000)"
| "bson_of (VList xs) = BArr (map bson_of xs)"
| "bson_of (VDict d) = BDoc (map (\<lambda>(k, v). (k, bson_of v)) d)"
| "bson_of (VOther n) = BOther n"

definition bson_doc :: "pydict \<Rightarrow> doc" where "bson_doc d = map (\<lambda>(k, v). (k, bson_of v)) d"

section \<open>The interface to the aggregation language\<close>

text \<open>
  \<open>ev env d e\<close> is the value of an expression for the variables \<open>env\<close> and the document \<open>d\<close>, \<open>None\<close> where it is
  missing; \<open>run\<close> applies a stage to a document.
\<close>

locale aggregation =
  fixes ev :: "(string \<Rightarrow> bson option) \<Rightarrow> doc \<Rightarrow> aexpr \<Rightarrow> bson option"
    and run :: "astage \<Rightarrow> doc \<Rightarrow> doc"
  assumes literal: "ev env d (ALiteral w) = Some (bson_of w)"
    and field: "ev env d (AField f) = map_of d (py f)"
    and field_each: "map_of d (py f) = Some (BArr (map BDoc ds)) \<Longrightarrow> \<forall>s \<in> set ds. map_of s (py g) \<noteq> None \<Longrightarrow>
      ev env d (AFieldEach f g) = Some (BArr (map (\<lambda>s. the (map_of s (py g))) ds))"
    and var_field: "env v = Some (BDoc s) \<Longrightarrow> ev env d (AVarField v f) = map_of s (py f)"
    and empty_array: "ev env d AEmptyArray = Some (BArr [])"
    and if_null: "ev env d (AIfNull a b) =
      (if ev env d a = None \<or> ev env d a = Some BNull then ev env d b else ev env d a)"
    and not_law: "ev env d a = Some (BBool p) \<Longrightarrow> ev env d (ANot a) = Some (BBool (\<not> p))"
    and in_texts: "ev env d a = Some (BStr t) \<Longrightarrow> ev env d b = Some (BArr (map BStr ts)) \<Longrightarrow>
      ev env d (AIn a b) = Some (BBool (t \<in> set ts))"
    and and_law: "map (ev env d) es = map (\<lambda>p. Some (BBool p)) ps \<Longrightarrow> ev env d (AAnd es) = Some (BBool (\<forall>p \<in> set ps. p))"
    and or_law: "map (ev env d) es = map (\<lambda>p. Some (BBool p)) ps \<Longrightarrow> ev env d (AOr es) = Some (BBool (\<exists>p \<in> set ps. p))"
    and eq_texts: "ev env d a = Some (BStr t) \<Longrightarrow> ev env d b = Some (BStr t') \<Longrightarrow> ev env d (AEq a b) = Some (BBool (t = t'))"
    and gte_dates: "ev env d a = Some (BDate m) \<Longrightarrow> ev env d b = Some (BDate n) \<Longrightarrow> ev env d (AGte a b) = Some (BBool (n \<le> m))"
    and gt_dates: "ev env d a = Some (BDate m) \<Longrightarrow> ev env d b = Some (BDate n) \<Longrightarrow> ev env d (AGt a b) = Some (BBool (n < m))"
    and lt_dates: "ev env d a = Some (BDate m) \<Longrightarrow> ev env d b = Some (BDate n) \<Longrightarrow> ev env d (ALt a b) = Some (BBool (m < n))"
    and gt_missing: "ev env d a = None \<Longrightarrow> ev env d b = Some (BDate n) \<Longrightarrow> \<exists>p. ev env d (AGt a b) = Some (BBool p)"
    and lt_missing: "ev env d a = None \<Longrightarrow> ev env d b = Some (BDate n) \<Longrightarrow> \<exists>p. ev env d (ALt a b) = Some (BBool p)"
    and type_missing: "ev env d a = None \<Longrightarrow> ev env d (AType a) = Some (BStr (py ''missing''))"
    and type_date: "ev env d a = Some (BDate m) \<Longrightarrow> ev env d (AType a) = Some (BStr (py ''date''))"
    and cond: "ev env d c = Some (BBool p) \<Longrightarrow> ev env d (ACond c a b) = ev env d (if p then a else b)"
    and map_law: "ev env d a = Some (BArr xs) \<Longrightarrow> \<forall>x \<in> set xs. ev (env(v \<mapsto> x)) d b = Some (F x) \<Longrightarrow>
      ev env d (AMap a v b) = Some (BArr (map F xs))"
    and filter_law: "ev env d a = Some (BArr xs) \<Longrightarrow> \<forall>x \<in> set xs. ev (env(v \<mapsto> x)) d b = Some (BBool (P x)) \<Longrightarrow>
      ev env d (AFilter a v b) = Some (BArr (filter P xs))"
    and any_law: "ev env d a = Some (BArr (map BBool ps)) \<Longrightarrow> ev env d (AAnyElementTrue a) = Some (BBool (\<exists>p \<in> set ps. p))"
    and concat_law: "map (ev env d) es = map (\<lambda>xs. Some (BArr xs)) xss \<Longrightarrow> ev env d (AConcatArrays es) = Some (BArr (concat xss))"
    and sort_by_field: "ev env d a = Some (BArr (map BDoc ds)) \<Longrightarrow>
      \<forall>s \<in> set ds. \<exists>t. map_of s (py f) = Some (BStr t) \<and> utf8_encode t \<noteq> None \<Longrightarrow>
      distinct (map (\<lambda>s. map_of s (py f)) ds) \<Longrightarrow>
      ev env d (ASortArray a (Some f)) = Some (BArr (map BDoc (sort_key (\<lambda>s. utf8_order (the (bson_str (the (map_of s (py f)))))) ds)))"
    and sort_texts: "ev env d a = Some (BArr (map BStr ts)) \<Longrightarrow> \<forall>t \<in> set ts. utf8_encode t \<noteq> None \<Longrightarrow>
      ev env d (ASortArray a None) = Some (BArr (map BStr (sort_key utf8_order ts)))"
    and union_texts: "ev env d a = Some (BArr (map BStr ts)) \<Longrightarrow> ev env d b = Some (BArr []) \<Longrightarrow>
      \<exists>us. ev env d (ASetUnion a b) = Some (BArr (map BStr us)) \<and> distinct us \<and> set us = set ts"
    and min_ints: "ev env d a = Some (BArr (map BInt is)) \<Longrightarrow> is \<noteq> [] \<Longrightarrow> ev env d (AMin a) = Some (BInt (Min (set is)))"
    and set_stage: "distinct (map fst kes) \<Longrightarrow> \<forall>(k, e) \<in> set kes. ev (\<lambda>_. None) d e \<noteq> None \<Longrightarrow>
      map_of (run (SSet kes) d) k = (case map_of kes k of None \<Rightarrow> map_of d k | Some e \<Rightarrow> ev (\<lambda>_. None) d e)"
    and project_stage: "map_of (run (SProject ks) d) k = (if k \<in> set ks then map_of d k else None)"

section \<open>Stored sources\<close>

lemma map_of_bson_doc: "map_of (bson_doc d) k = map_option bson_of (map_of d k)"
  by (induction d) (auto simp: bson_doc_def)

lemma bson_of_dict: "bson_of (VDict d) = BDoc (bson_doc d)"
  by (simp add: bson_doc_def)

lemma present_field: "py k \<in> set (map fst d) \<Longrightarrow> map_of d (py k) = Some (fld k d)"
  by (cases "map_of d (py k)") (auto simp: fld_def map_of_eq_None_iff)

text \<open>The millisecond of a source's observation.\<close>

definition millis :: "pyval \<Rightarrow> int" where
  "millis v = (dt_fields (stamp v) - UNIX_EPOCH_MICROS) div 1000"

lemma bson_of_date:
  assumes "utc_datetime v = Inr d"
  shows "bson_of v = BDate (millis v)" and "bson_of (VDate d) = BDate (millis v)"
proof -
  obtain n x off where v: "v = VDate x" "dt_offset x = Some off" "n = dt_fields x - off"
    "d = \<lparr>dt_fields = n div 1000 * 1000, dt_offset = Some 0\<rparr>"
    using assms by (auto simp: utc_datetime_def datetime_add_def sum_iffs split: pyval.splits option.splits if_splits)
  have "(n - UNIX_EPOCH_MICROS) div 1000 = n div 1000 - 62135596800000" by (simp add: UNIX_EPOCH_MICROS_def)
  moreover have "(n div 1000 * 1000 - UNIX_EPOCH_MICROS) div 1000 = n div 1000 - 62135596800000"
    by (simp add: UNIX_EPOCH_MICROS_def)
  moreover have "stamp v = d" using assms by (simp add: stamp_def)
  ultimately show "bson_of v = BDate (millis v)" "bson_of (VDate d) = BDate (millis v)"
    using v by (simp_all add: millis_def)
qed

lemma millis_le:
  assumes "utc_datetime v = Inr d" and "utc_datetime w = Inr e"
  shows "millis v \<le> millis w \<longleftrightarrow> dt_fields d \<le> dt_fields e"
proof -
  obtain m n where "dt_fields d = m * 1000" "dt_fields e = n * 1000"
    using assms by (auto simp: utc_datetime_def datetime_add_def sum_iffs split: pyval.splits option.splits if_splits)
  moreover have "stamp v = d" "stamp w = e" using assms by (simp_all add: stamp_def)
  moreover have "(k * 1000 - UNIX_EPOCH_MICROS) div 1000 = k - 62135596800000" for k
    by (simp add: UNIX_EPOCH_MICROS_def)
  ultimately show ?thesis by (simp add: millis_def)
qed

section \<open>What the pipeline keeps\<close>

definition stays :: "pydict list \<Rightarrow> pydict \<Rightarrow> bool" where
  "stays incoming s \<longleftrightarrow> source_key s \<notin> source_key ` set incoming \<or>
     (\<exists>t \<in> set incoming. source_key s = source_key t \<and> observed t \<le> observed s)"

definition covered :: "pydict list \<Rightarrow> pydict \<Rightarrow> bool" where
  "covered existing t \<longleftrightarrow> (\<exists>s \<in> set existing. source_key s = source_key t \<and> observed t \<le> observed s)"

definition kept_sources :: "pydict list \<Rightarrow> pydict list \<Rightarrow> pydict list" where
  "kept_sources existing incoming = filter (stays incoming) existing @ filter (\<lambda>t. \<not> covered existing t) incoming"

lemma source_at_iff:
  "distinct (map source_key ss) \<Longrightarrow> source_at ss k = Some s \<longleftrightarrow> s \<in> set ss \<and> source_key s = k"
  by (auto simp: source_at_def comp_def dest: map_of_SomeD intro!: map_of_is_SomeI)

lemma key_unique: "distinct (map source_key ss) \<Longrightarrow> s \<in> set ss \<Longrightarrow> t \<in> set ss \<Longrightarrow> source_key s = source_key t \<Longrightarrow> s = t"
  by (auto simp: distinct_map inj_on_def)

lemma kept_sources_distinct:
  assumes "distinct (map source_key E)" and "distinct (map source_key I)"
  shows "distinct (map source_key (kept_sources E I))"
proof -
  have "source_key s \<noteq> source_key t" if s: "s \<in> set E" "stays I s" and t: "t \<in> set I" "\<not> covered E t" for s t
  proof
    assume eq: "source_key s = source_key t"
    then obtain t' where t': "t' \<in> set I" "source_key s = source_key t'" "observed t' \<le> observed s"
      using s(2) t(1) by (auto simp: stays_def)
    then have "t' = t" using key_unique [OF assms(2)] t(1) eq by simp
    then show False using t' t(2) s(1) by (auto simp: covered_def)
  qed
  then show ?thesis
    using assms unfolding kept_sources_def map_append distinct_append by (auto simp: distinct_map_filter)
qed

lemma kept_sources_set:
  assumes "distinct (map source_key E)" and "distinct (map source_key I)"
  shows "s \<in> set (kept_sources E I) \<longleftrightarrow> newest (source_at E (source_key s)) (source_at I (source_key s)) = Some s"
proof -
  note at = source_at_iff [OF assms(1), of "source_key s"] source_at_iff [OF assms(2), of "source_key s"]
  show ?thesis
  proof (cases "source_at E (source_key s)")
    case None
    then have "\<forall>x \<in> set E. source_key x \<noteq> source_key s"
      using source_at_None_iff [of E "source_key s"] by (metis imageI)
    then have "\<not> covered E s" "s \<notin> set E" by (auto simp: covered_def)
    then show ?thesis using None at(2) by (simp add: kept_sources_def)
  next
    case (Some a)
    then have a: "a \<in> set E" "source_key a = source_key s" using at(1) by auto
    then have ca: "covered E s \<longleftrightarrow> observed s \<le> observed a"
      using key_unique [OF assms(1) _ a(1)] a unfolding covered_def by metis
    have sa: "s \<in> set E \<longleftrightarrow> s = a" using key_unique [OF assms(1) _ a(1)] a by metis
    show ?thesis
    proof (cases "source_at I (source_key s)")
      case None
      then have "s \<notin> set I" "stays I s" using source_at_None_iff [of I "source_key s"] by (auto simp: stays_def)
      then show ?thesis using Some None sa by (auto simp: kept_sources_def)
    next
      case (Some b)
      then have b: "b \<in> set I" "source_key b = source_key s" using at(2) by auto
      have sb: "s \<in> set I \<longleftrightarrow> s = b" using key_unique [OF assms(2) _ b(1)] b by metis
      have st: "stays I s \<longleftrightarrow> observed b \<le> observed s"
        using b key_unique [OF assms(2) _ b(1)] unfolding stays_def by (metis imageI)
      show ?thesis using Some \<open>source_at E (source_key s) = Some a\<close> ca sa sb st by (auto simp: kept_sources_def)
    qed
  qed
qed

text \<open>Text that BSON can hold, where the server compares it.\<close>

definition storable :: "pydict \<Rightarrow> bool" where
  "storable d \<longleftrightarrow> (\<forall>s \<in> set (sources_of d). utf8_encode (source_key s) \<noteq> None \<and> utf8_encode (vstr (fld ''category'' s)) \<noteq> None)"

definition sources_fit :: "pydict \<Rightarrow> bool" where
  "sources_fit d \<longleftrightarrow> (\<forall>s \<in> set (sources_of d). source_ok s) \<and> distinct (map source_key (sources_of d)) \<and> storable d"

lemma sources_fitD: "sources_fit d \<Longrightarrow> s \<in> set (sources_of d) \<Longrightarrow> source_ok s \<and> utf8_encode (source_key s) \<noteq> None"
  by (auto simp: sources_fit_def storable_def)

lemma kept_sources_sorted:
  assumes "sources_fit e" and "sources_fit i"
  shows "sort_key (\<lambda>s. utf8_order (source_key s)) (kept_sources (sources_of e) (sources_of i)) = newest_sources e i"
proof (rule sort_by_bytes)
  have d: "distinct (map source_key (sources_of e))" "distinct (map source_key (sources_of i))"
    using assms(1,2) by (simp_all add: sources_fit_def)
  show "distinct (map source_key (kept_sources (sources_of e) (sources_of i)))" by (rule kept_sources_distinct [OF d])
  show "\<forall>x \<in> set (kept_sources (sources_of e) (sources_of i)). utf8_encode (source_key x) \<noteq> None"
    using assms sources_fitD by (auto simp: kept_sources_def)
  show "sorted (map source_key (newest_sources e i))" "distinct (map source_key (newest_sources e i))"
    by (simp_all add: newest_sources_keys merged_keys_def)
  have dn: "distinct (map source_key (newest_sources e i))" by (simp add: newest_sources_keys merged_keys_def)
  show "set (kept_sources (sources_of e) (sources_of i)) = set (newest_sources e i)"
  proof (rule set_eqI)
    fix s
    show "s \<in> set (kept_sources (sources_of e) (sources_of i)) \<longleftrightarrow> s \<in> set (newest_sources e i)"
      using kept_sources_set [OF d, of s] newest_sources_lookup [of e i "source_key s"] source_at_iff [OF dn, of "source_key s" s]
      by simp
  qed
qed

lemma sort_key_cong: "(\<And>x. x \<in> set xs \<Longrightarrow> f x = g x) \<Longrightarrow> sort_key f xs = sort_key g xs"
proof (induction xs)
  case (Cons x xs)
  have "insort_key f x ys = insort_key g x ys" if "\<And>y. y \<in> insert x (set ys) \<Longrightarrow> f y = g y" for ys
    using that by (induction ys) auto
  from this [of "sort_key g xs"] show ?case using Cons by simp
qed simp

lemma sort_key_map: "sort_key f (map g xs) = map g (sort_key (\<lambda>x. f (g x)) xs)"
proof -
  have "insort_key f (g x) (map g ys) = map g (insort_key (\<lambda>x. f (g x)) x ys)" for x ys
    by (induction ys) auto
  then show ?thesis by (induction xs) auto
qed

lemma source_fields_present:
  assumes "source_ok s"
  shows "map_of (bson_doc s) (py ''key'') = Some (BStr (source_key s))"
    and "map_of (bson_doc s) (py ''category'') = Some (BStr (vstr (fld ''category'' s)))"
    and "map_of (bson_doc s) (py ''priority'') = Some (BInt (vint (fld ''priority'' s)))"
    and "map_of (bson_doc s) (py ''observed_at'') = Some (BDate (millis (fld ''observed_at'' s)))"
proof -
  have "set (map fst s) = set SOURCE_FIELDS" using assms unfolding validate_source_def bindE_Inr_iff requireE_Inr_iff by blast
  then have "py ''key'' \<in> set (map fst s)" "py ''category'' \<in> set (map fst s)" "py ''priority'' \<in> set (map fst s)"
    "py ''observed_at'' \<in> set (map fst s)"
    by (simp_all only: SOURCE_FIELDS_def set_map) simp_all
  note in_fields = this
  have m: "map_of s (py ''key'') = Some (fld ''key'' s)" "map_of s (py ''category'') = Some (fld ''category'' s)"
    "map_of s (py ''priority'') = Some (fld ''priority'' s)" "map_of s (py ''observed_at'') = Some (fld ''observed_at'' s)"
    by (rule present_field, rule in_fields)+
  obtain d where "utc_datetime (fld ''observed_at'' s) = Inr d" using source_okD(1) [OF assms] by blast
  then have "bson_of (fld ''observed_at'' s) = BDate (millis (fld ''observed_at'' s))" by (rule bson_of_date)
  note date = this
  obtain k p c where v: "fld ''key'' s = VStr k" "fld ''priority'' s = VInt p" "fld ''category'' s = VStr c"
    by (rule that, rule source_okD(2) [OF assms], rule source_okD(5) [OF assms], rule source_okD(6) [OF assms])
  show "map_of (bson_doc s) (py ''key'') = Some (BStr (source_key s))"
    "map_of (bson_doc s) (py ''category'') = Some (BStr (vstr (fld ''category'' s)))"
    "map_of (bson_doc s) (py ''priority'') = Some (BInt (vint (fld ''priority'' s)))"
    "map_of (bson_doc s) (py ''observed_at'') = Some (BDate (millis (fld ''observed_at'' s)))"
    by (simp_all only: map_of_bson_doc m date v option.map bson_of.simps vstr.simps vint.simps)
qed

lemma observed_millis:
  assumes "source_ok s" and "source_ok t"
  shows "millis (fld ''observed_at'' t) \<le> millis (fld ''observed_at'' s) \<longleftrightarrow> observed t \<le> observed s"
proof -
  obtain d where d: "utc_datetime (fld ''observed_at'' s) = Inr d" "dt_fields d = observed s" using source_okD(1) [OF assms(1)] by blast
  obtain e where e: "utc_datetime (fld ''observed_at'' t) = Inr e" "dt_fields e = observed t" using source_okD(1) [OF assms(2)] by blast
  show ?thesis using millis_le [OF e(1) d(1)] by (simp only: d(2) e(2))
qed

lemma bson_key: "source_ok s \<Longrightarrow> bson_of (fld ''key'' s) = BStr (source_key s)"
  by (subst source_okD(2)) simp_all

section \<open>Evaluating the pipeline\<close>

definition field_names :: "string list" where
  "field_names = [''_id'', ''schema_version'', ''canonicalization_version'', ''canonical_url'', ''enabled'', ''priority'',
      ''categories'', ''sources'', ''discovered_at'', ''updated_at'']"

lemma ROOT_FIELDS_names: "ROOT_FIELDS = map py field_names"
  by (simp add: ROOT_FIELDS_def field_names_def)

context aggregation
begin

lemma same_or_newer_value:
  assumes "source_ok s" and "source_ok t" and "env ''source'' = Some (BDoc (bson_doc s))"
  shows "ev env d (stored_is_same_or_newer t) = Some (BBool (source_key s = source_key t \<and> observed t \<le> observed s))"
proof -
  note var_field = var_field [of env "''source''", OF assms(3)]
  have "bson_of (fld ''observed_at'' t) = BDate (millis (fld ''observed_at'' t))"
    using bson_of_date source_okD(1) [OF assms(2)] by blast
  then have "ev env d (AGte (AVarField ''source'' ''observed_at'') (ALiteral (fld ''observed_at'' t))) =
      Some (BBool (millis (fld ''observed_at'' t) \<le> millis (fld ''observed_at'' s)))"
    by (intro gte_dates) (simp_all add: var_field literal source_fields_present [OF assms(1)])
  moreover have "ev env d (AEq (AVarField ''source'' ''key'') (ALiteral (fld ''key'' t))) = Some (BBool (source_key s = source_key t))"
    by (intro eq_texts) (simp_all add: var_field literal source_fields_present [OF assms(1)] bson_key [OF assms(2)])
  ultimately have "map (ev env d) [AEq (AVarField ''source'' ''key'') (ALiteral (fld ''key'' t)),
      AGte (AVarField ''source'' ''observed_at'') (ALiteral (fld ''observed_at'' t))] =
      map (\<lambda>p. Some (BBool p)) [source_key s = source_key t, observed t \<le> observed s]"
    using observed_millis [OF assms(1,2)] by simp
  from and_law [OF this] show ?thesis by (simp add: stored_is_same_or_newer_def)
qed

abbreviation source_array :: "pydict list \<Rightarrow> bson" where "source_array ss \<equiv> BArr (map BDoc (map bson_doc ss))"

lemma preserved_value:
  assumes "\<And>env. ev env d existing_sources = Some (source_array E)" and "\<forall>s \<in> set E. source_ok s" and "\<forall>s \<in> set I. source_ok s"
  shows "ev env d (preserved_existing I) = Some (source_array (filter (stays I) E))"
proof -
  define b where "b = AOr (ANot (AIn (AVarField ''source'' ''key'') (ALiteral (VList (map (fld ''key'') I)))) # map stored_is_same_or_newer I)"
  define P where "P x \<longleftrightarrow> ev (env(''source'' \<mapsto> x)) d b = Some (BBool True)" for x
  have b: "ev (env(''source'' \<mapsto> BDoc (bson_doc s))) d b = Some (BBool (stays I s))" if s: "source_ok s" for s
  proof -
    let ?e = "env(''source'' \<mapsto> BDoc (bson_doc s))"
    have keys: "bson_of (VList (map (fld ''key'') I)) = BArr (map BStr (map source_key I))"
      using assms(3) bson_key by (auto simp: comp_def)
    have "ev ?e d (AIn (AVarField ''source'' ''key'') (ALiteral (VList (map (fld ''key'') I)))) =
        Some (BBool (source_key s \<in> set (map source_key I)))"
      by (intro in_texts) (simp_all only: literal keys, simp add: var_field source_fields_present(1) [OF s])
    moreover have "map (ev ?e d) (map stored_is_same_or_newer I) =
        map (\<lambda>p. Some (BBool p)) (map (\<lambda>t. source_key s = source_key t \<and> observed t \<le> observed s) I)"
      using assms(3) same_or_newer_value [OF s] by simp
    ultimately have "map (ev ?e d) (ANot (AIn (AVarField ''source'' ''key'') (ALiteral (VList (map (fld ''key'') I)))) # map stored_is_same_or_newer I) =
        map (\<lambda>p. Some (BBool p)) ((source_key s \<notin> set (map source_key I)) # map (\<lambda>t. source_key s = source_key t \<and> observed t \<le> observed s) I)"
      using not_law by simp
    from or_law [OF this] show ?thesis by (simp add: b_def stays_def)
  qed
  have "\<forall>x \<in> set (map BDoc (map bson_doc E)). ev (env(''source'' \<mapsto> x)) d b = Some (BBool (P x))"
    using b assms(2) by (auto simp: P_def)
  from filter_law [OF assms(1) this] have "ev env d (preserved_existing I) = Some (BArr (filter P (map BDoc (map bson_doc E))))"
    by (simp add: preserved_existing_def b_def)
  moreover have "filter P (map BDoc (map bson_doc E)) = map BDoc (map bson_doc (filter (stays I) E))"
    using b assms(2) by (auto simp: filter_map comp_def P_def intro!: filter_cong arg_cong [of _ _ "map _"])
  ultimately show ?thesis by simp
qed

lemma incoming_value:
  assumes "\<And>env. ev env d existing_sources = Some (source_array E)" and "\<forall>s \<in> set E. source_ok s" and "source_ok t"
  shows "ev env d (incoming_array t) = Some (source_array (if covered E t then [] else [t]))"
proof -
  define F where "F x = the (ev (env(''source'' \<mapsto> x)) d (stored_is_same_or_newer t))" for x
  have b: "ev (env(''source'' \<mapsto> BDoc (bson_doc s))) d (stored_is_same_or_newer t) =
      Some (BBool (source_key s = source_key t \<and> observed t \<le> observed s))" if "source_ok s" for s
    using same_or_newer_value [OF that assms(3)] by simp
  have "\<forall>x \<in> set (map BDoc (map bson_doc E)). ev (env(''source'' \<mapsto> x)) d (stored_is_same_or_newer t) = Some (F x)"
    using b assms(2) by (auto simp: F_def)
  from map_law [OF assms(1) this]
  have "ev env d (AMap existing_sources ''source'' (stored_is_same_or_newer t)) =
      Some (BArr (map BBool (map (\<lambda>s. source_key s = source_key t \<and> observed t \<le> observed s) E)))"
    using b assms(2) by (auto simp: F_def comp_def)
  from any_law [OF this] have "ev env d (AAnyElementTrue (AMap existing_sources ''source'' (stored_is_same_or_newer t))) =
      Some (BBool (covered E t))"
    by (simp add: covered_def)
  from cond [OF this] show ?thesis by (simp add: incoming_array_def empty_array literal bson_doc_def)
qed

lemma sources_value:
  assumes E: "\<And>env. ev env d existing_sources = Some (source_array (sources_of e))"
    and ok: "sources_fit e" "sources_fit i"
  shows "ev env d (ASortArray (AConcatArrays (preserved_existing (sources_of i) # map incoming_array (sources_of i))) (Some ''key'')) =
     Some (source_array (newest_sources e i))"
proof -
  let ?E = "sources_of e" and ?I = "sources_of i"
  have so: "\<forall>s \<in> set ?E. source_ok s" "\<forall>s \<in> set ?I. source_ok s" using ok sources_fitD by blast+
  define k where "k s = utf8_order (the (bson_str (the (map_of s (py ''key'')))))" for s :: doc
  have parts: "map (ev env d) (preserved_existing ?I # map incoming_array ?I) =
      map (\<lambda>xs. Some (BArr xs)) (map (map BDoc \<circ> map bson_doc) (filter (stays ?I) ?E # map (\<lambda>t. if covered ?E t then [] else [t]) ?I))"
    using preserved_value [OF E so] incoming_value [OF E so(1)] so(2) by simp
  have all: "concat (map (map BDoc \<circ> map bson_doc) (filter (stays ?I) ?E # map (\<lambda>t. if covered ?E t then [] else [t]) ?I)) =
      map BDoc (map bson_doc (kept_sources ?E ?I))"
  proof -
    have "concat (map (map BDoc \<circ> map bson_doc) (map (\<lambda>t. if covered ?E t then [] else [t]) I')) =
        map BDoc (map bson_doc (filter (\<lambda>t. \<not> covered ?E t) I'))" for I'
      by (induction I') auto
    then show ?thesis by (simp add: kept_sources_def)
  qed
  have c: "ev env d (AConcatArrays (preserved_existing ?I # map incoming_array ?I)) = Some (source_array (kept_sources ?E ?I))"
    using concat_law [OF parts] by (simp only: all)
  have kept: "\<forall>s \<in> set (kept_sources ?E ?I). source_ok s \<and> utf8_encode (source_key s) \<noteq> None"
    using ok sources_fitD by (auto simp: kept_sources_def)
  have dist: "distinct (map (\<lambda>s. map_of s (py ''key'')) (map bson_doc (kept_sources ?E ?I)))"
  proof -
    have "map (\<lambda>s. map_of s (py ''key'')) (map bson_doc (kept_sources ?E ?I)) =
        map (Some \<circ> BStr) (map source_key (kept_sources ?E ?I))"
      using kept by (auto simp: source_fields_present(1))
    moreover have "distinct (map source_key (kept_sources ?E ?I))"
      using ok by (intro kept_sources_distinct) (simp_all add: sources_fit_def)
    moreover have "inj (Some \<circ> BStr)" by (simp add: inj_def)
    ultimately show ?thesis by (metis distinct_map inj_on_subset subset_UNIV)
  qed
  from kept have "ev env d (ASortArray (AConcatArrays (preserved_existing ?I # map incoming_array ?I)) (Some ''key'')) =
      Some (BArr (map BDoc (sort_key k (map bson_doc (kept_sources ?E ?I)))))"
    unfolding k_def by (intro sort_by_field [OF c _ dist]) (auto simp: source_fields_present(1))
  moreover have "sort_key k (map bson_doc (kept_sources ?E ?I)) = map bson_doc (sort_key (\<lambda>s. k (bson_doc s)) (kept_sources ?E ?I))"
    by (rule sort_key_map)
  moreover have "sort_key (\<lambda>s. k (bson_doc s)) (kept_sources ?E ?I) = sort_key (\<lambda>s. utf8_order (source_key s)) (kept_sources ?E ?I)"
  proof -
    have "k (bson_doc s) = utf8_order (source_key s)" if "s \<in> set (kept_sources ?E ?I)" for s
      using kept that by (simp add: k_def source_fields_present(1))
    then show ?thesis by (rule sort_key_cong)
  qed
  ultimately show ?thesis using kept_sources_sorted [OF ok] by simp
qed

lemma rollups_value:
  assumes src: "map_of d (py ''sources'') = Some (source_array ss)" and ne: "ss \<noteq> []" and ok: "\<forall>s \<in> set ss. source_ok s"
    and enc: "\<forall>s \<in> set ss. utf8_encode (vstr (fld ''category'' s)) \<noteq> None"
  shows "ev env d (AMin (AFieldEach ''sources'' ''priority'')) = Some (BInt (lowest_priority ss))"
    and "ev env d (ASortArray (ASetUnion (AFieldEach ''sources'' ''category'') AEmptyArray) None) = Some (BArr (map BStr (category_union ss)))"
proof -
  let ?p = "map (\<lambda>s. vint (fld ''priority'' s)) ss" and ?c = "map (\<lambda>s. vstr (fld ''category'' s)) ss"
  have p: "ev env d (AFieldEach ''sources'' ''priority'') = Some (BArr (map BInt ?p))"
    using field_each [OF src, of "''priority''"] ok source_fields_present(3) by (auto simp: comp_def)
  have c: "ev env d (AFieldEach ''sources'' ''category'') = Some (BArr (map BStr ?c))"
    using field_each [OF src, of "''category''"] ok source_fields_present(2) by (auto simp: comp_def)
  show "ev env d (AMin (AFieldEach ''sources'' ''priority'')) = Some (BInt (lowest_priority ss))"
    using min_ints [OF p] ne by (simp add: lowest_priority_def min_list_Min)
  obtain us where us: "ev env d (ASetUnion (AFieldEach ''sources'' ''category'') AEmptyArray) = Some (BArr (map BStr us))"
    "distinct us" "set us = set ?c"
    using union_texts [OF c empty_array] by blast
  have "sort_key utf8_order us = category_union ss"
    using sort_by_bytes [of us "\<lambda>t. t" "category_union ss"] us enc by (auto simp: category_union_def)
  moreover have "\<forall>t \<in> set us. utf8_encode t \<noteq> None" using us(3) enc by auto
  ultimately show "ev env d (ASortArray (ASetUnion (AFieldEach ''sources'' ''category'') AEmptyArray) None) = Some (BArr (map BStr (category_union ss)))"
    using sort_texts [OF us(1)] by simp
qed

text \<open>The stages, once the first has given the fields of a valid document.\<close>

lemma pipeline_stages:
  assumes pipeline: "mongo_merge_pipeline u ix i = Inr stages" and ok: "seed_ok u ix d" and fit: "storable d"
    and id: "map_of D (py ''_id'') = Some (bson_of (fld ''_id'' d))"
    and url: "fld ''canonical_url'' i = fld ''canonical_url'' d"
    and enabled: "ev (\<lambda>_. None) D (AIfNull (AField ''enabled'') (ALiteral (fld ''enabled'' i))) = Some (bson_of (fld ''enabled'' d))"
    and sources: "ev (\<lambda>_. None) D (ASortArray (AConcatArrays (preserved_existing (sources_of i) # map incoming_array (sources_of i)))
        (Some ''key'')) = Some (source_array (sources_of d))"
    and discovered: "ev (\<lambda>_. None) D (kept_or ''discovered_at'' AGt (fld ''discovered_at'' i)) = Some (bson_of (fld ''discovered_at'' d))"
    and updated: "ev (\<lambda>_. None) D (kept_or ''updated_at'' ALt (fld ''updated_at'' i)) = Some (bson_of (fld ''updated_at'' d))"
  shows "map_of (foldl (\<lambda>x s. run s x) D stages) k = map_of (bson_doc d) k"
proof -
  define n where "n = (\<lambda>_ :: string. None :: bson option)"
  define s1 where "s1 = [(py ''schema_version'', ALiteral (VInt 1)), (py ''canonicalization_version'', ALiteral (VInt 1)),
    (py ''canonical_url'', ALiteral (fld ''canonical_url'' i)),
    (py ''enabled'', AIfNull (AField ''enabled'') (ALiteral (fld ''enabled'' i))),
    (py ''sources'', ASortArray (AConcatArrays (preserved_existing (sources_of i) # map incoming_array (sources_of i))) (Some ''key'')),
    (py ''discovered_at'', kept_or ''discovered_at'' AGt (fld ''discovered_at'' i)),
    (py ''updated_at'', kept_or ''updated_at'' ALt (fld ''updated_at'' i))]"
  define s2 where "s2 = [(py ''priority'', AMin (AFieldEach ''sources'' ''priority'')),
    (py ''categories'', ASortArray (ASetUnion (AFieldEach ''sources'' ''category'') AEmptyArray) None)]"
  have stages: "stages = [SSet s1, SSet s2, SProject (sorted_set ROOT_FIELDS)]"
    using pipeline by (auto simp: mongo_merge_pipeline_def sum_iffs Let_def s1_def s2_def)
  note vals = literal url enabled sources discovered updated
  have keys: "distinct (map fst s1)" "distinct (map fst s2)" by (simp_all add: s1_def s2_def py_def)
  have all1: "\<forall>(k, e) \<in> set s1. ev (\<lambda>_. None) D e \<noteq> None" by (simp add: s1_def vals)
  note r1 = set_stage [OF keys(1) all1]
  define D1 where "D1 = run (SSet s1) D"
  have d1: "map_of D1 k = (case map_of s1 k of None \<Rightarrow> map_of D k | Some e \<Rightarrow> ev (\<lambda>_. None) D e)" for k
    unfolding D1_def by (rule r1)
  have f: "documents_sources_ok (sources_of d)" "fld ''sources'' d = VList (map VDict (sources_of d))"
    "fld ''priority'' d = VInt (lowest_priority (sources_of d))" "fld ''categories'' d = VList (map VStr (category_union (sources_of d)))"
    "fld ''schema_version'' d = VInt SCHEMA_VERSION" "fld ''canonicalization_version'' d = VInt CANONICALIZATION_VERSION"
    "set (map fst d) = set ROOT_FIELDS"
    using ok by (auto simp: seed_ok_iff validate_rollups_iff)
  have first: "map_of D1 (py ''_id'') = map_of D (py ''_id'')" "map_of D1 (py ''schema_version'') = Some (BInt 1)"
    "map_of D1 (py ''canonicalization_version'') = Some (BInt 1)"
    "map_of D1 (py ''canonical_url'') = Some (bson_of (fld ''canonical_url'' d))"
    "map_of D1 (py ''enabled'') = Some (bson_of (fld ''enabled'' d))"
    "map_of D1 (py ''sources'') = Some (source_array (sources_of d))"
    "map_of D1 (py ''discovered_at'') = Some (bson_of (fld ''discovered_at'' d))"
    "map_of D1 (py ''updated_at'') = Some (bson_of (fld ''updated_at'' d))"
    unfolding d1 by (simp_all add: s1_def py_def vals)
  from first(6) have roll: "ev (\<lambda>_. None) D1 (AMin (AFieldEach ''sources'' ''priority'')) = Some (BInt (lowest_priority (sources_of d)))"
    "ev (\<lambda>_. None) D1 (ASortArray (ASetUnion (AFieldEach ''sources'' ''category'') AEmptyArray) None) =
       Some (BArr (map BStr (category_union (sources_of d))))"
    using f(1) fit by (auto intro!: rollups_value simp: documents_sources_ok_def storable_def)
  have second: "map_of s2 (py ''_id'') = None" "map_of s2 (py ''schema_version'') = None" "map_of s2 (py ''canonicalization_version'') = None"
    "map_of s2 (py ''canonical_url'') = None" "map_of s2 (py ''enabled'') = None" "map_of s2 (py ''sources'') = None"
    "map_of s2 (py ''discovered_at'') = None" "map_of s2 (py ''updated_at'') = None"
    "map_of s2 (py ''priority'') = Some (AMin (AFieldEach ''sources'' ''priority''))"
    "map_of s2 (py ''categories'') = Some (ASortArray (ASetUnion (AFieldEach ''sources'' ''category'') AEmptyArray) None)"
    by (simp_all add: s2_def py_def)
  have all2: "\<forall>(k, e) \<in> set s2. ev (\<lambda>_. None) D1 e \<noteq> None" by (simp add: s2_def roll)
  have d3: "map_of (foldl (\<lambda>x s. run s x) D stages) k =
      (if k \<in> set ROOT_FIELDS then case map_of s2 k of None \<Rightarrow> map_of D1 k | Some e \<Rightarrow> ev (\<lambda>_. None) D1 e else None)" for k
    by (simp add: stages project_stage set_stage [OF keys(2) all2] flip: D1_def)
  show ?thesis
  proof (cases "k \<in> set ROOT_FIELDS")
    case True
    then obtain c where c: "k = py c" "c \<in> set field_names" by (auto simp: ROOT_FIELDS_names)
    then have "map_of d k = Some (fld c d)" using True f(7) present_field [of c d] by simp
    moreover have "(case map_of s2 (py c) of None \<Rightarrow> map_of D1 (py c) | Some e \<Rightarrow> ev (\<lambda>_. None) D1 e) = Some (bson_of (fld c d))"
      using c(2) unfolding field_names_def list.set insert_iff empty_iff
      by (elim disjE FalseE) (simp_all only: first second id roll option.case, simp_all add: f SCHEMA_VERSION_def CANONICALIZATION_VERSION_def comp_def bson_doc_def)
    ultimately show ?thesis using True c(1) by (simp add: d3 map_of_bson_doc)
  next
    case False
    then have "map_of d k = None" using f(7) by (metis map_of_eq_None_iff set_map)
    then show ?thesis using False by (simp add: d3 map_of_bson_doc)
  qed
qed

lemma kept_or_stored:
  assumes "map_of d (py f) = Some (BDate m)" and "bson_of v = BDate n"
  shows "ev env d (kept_or f AGt v) = Some (BDate (if n < m then n else m))"
    and "ev env d (kept_or f ALt v) = Some (BDate (if m < n then n else m))"
proof -
  have a: "ev env d (AField f) = Some (BDate m)" and l: "ev env d (ALiteral v) = Some (BDate n)"
    using assms by (simp_all add: field literal)
  have ty: "ev env d (AEq (AType (AField f)) (ALiteral (VStr (py ''missing'')))) = Some (BBool False)"
    using eq_texts [OF type_date [OF a], of "ALiteral (VStr (py ''missing''))" "py ''missing''"] by (simp add: literal py_def)
  have "ev env d (AOr [AEq (AType (AField f)) (ALiteral (VStr (py ''missing''))), AGt (AField f) (ALiteral v)]) = Some (BBool (n < m))"
    using or_law [of env d "[AEq (AType (AField f)) (ALiteral (VStr (py ''missing''))), AGt (AField f) (ALiteral v)]" "[False, n < m]"]
      gt_dates [OF a l] ty by simp
  from cond [OF this] show "ev env d (kept_or f AGt v) = Some (BDate (if n < m then n else m))"
    by (simp add: kept_or_def a l)
  have "ev env d (AOr [AEq (AType (AField f)) (ALiteral (VStr (py ''missing''))), ALt (AField f) (ALiteral v)]) = Some (BBool (m < n))"
    using or_law [of env d "[AEq (AType (AField f)) (ALiteral (VStr (py ''missing''))), ALt (AField f) (ALiteral v)]" "[False, m < n]"]
      lt_dates [OF a l] ty by simp
  from cond [OF this] show "ev env d (kept_or f ALt v) = Some (BDate (if m < n then n else m))"
    by (simp add: kept_or_def a l)
qed

lemma kept_or_missing:
  assumes "map_of d (py f) = None" and "bson_of v = BDate n"
  shows "ev env d (kept_or f AGt v) = Some (BDate n)" and "ev env d (kept_or f ALt v) = Some (BDate n)"
proof -
  have a: "ev env d (AField f) = None" and l: "ev env d (ALiteral v) = Some (BDate n)"
    using assms by (simp_all add: field literal)
  have ty: "ev env d (AEq (AType (AField f)) (ALiteral (VStr (py ''missing'')))) = Some (BBool True)"
    using eq_texts [OF type_missing [OF a], of "ALiteral (VStr (py ''missing''))" "py ''missing''"] by (simp add: literal)
  obtain p q where pq: "ev env d (AGt (AField f) (ALiteral v)) = Some (BBool p)" "ev env d (ALt (AField f) (ALiteral v)) = Some (BBool q)"
    using gt_missing [OF a l] lt_missing [OF a l] by blast
  have "ev env d (AOr [AEq (AType (AField f)) (ALiteral (VStr (py ''missing''))), AGt (AField f) (ALiteral v)]) = Some (BBool True)"
    using or_law [of env d "[AEq (AType (AField f)) (ALiteral (VStr (py ''missing''))), AGt (AField f) (ALiteral v)]" "[True, p]"] pq ty by simp
  from cond [OF this] show "ev env d (kept_or f AGt v) = Some (BDate n)" by (simp add: kept_or_def l)
  have "ev env d (AOr [AEq (AType (AField f)) (ALiteral (VStr (py ''missing''))), ALt (AField f) (ALiteral v)]) = Some (BBool True)"
    using or_law [of env d "[AEq (AType (AField f)) (ALiteral (VStr (py ''missing''))), ALt (AField f) (ALiteral v)]" "[True, q]"] pq ty by simp
  from cond [OF this] show "ev env d (kept_or f ALt v) = Some (BDate n)" by (simp add: kept_or_def l)
qed

end

section \<open>The pipeline computes the merge\<close>

text \<open>The document an upsert applies the pipeline to.\<close>

definition merge_start :: "pydict option \<Rightarrow> pydict \<Rightarrow> doc" where
  "merge_start existing incoming =
     (case existing of None \<Rightarrow> [(py ''_id'', bson_of (fld ''_id'' incoming))] | Some e \<Rightarrow> bson_doc e)"

lemma seed_field_present: "seed_ok u ix d \<Longrightarrow> c \<in> set field_names \<Longrightarrow> map_of d (py c) = Some (fld c d)"
  by (rule present_field) (auto simp: seed_ok_iff ROOT_FIELDS_names)

lemma seed_sources_fit: "seed_ok u ix d \<Longrightarrow> storable d \<Longrightarrow> sources_fit d"
  using seed_ok_sources by (auto simp: sources_fit_def documents_sources_ok_def)

lemma seed_sources_bson: "seed_ok u ix d \<Longrightarrow> bson_of (fld ''sources'' d) = BArr (map BDoc (map bson_doc (sources_of d)))"
  by (simp add: seed_ok_iff validate_rollups_iff bson_doc_def)

lemma newest_sources_fresh:
  assumes "documents_sources_ok (sources_of i)"
  shows "newest_sources [] i = sources_of i"
proof -
  have d: "distinct (map source_key (sources_of i))" "sorted (map source_key (sources_of i))"
    using assms by (simp_all add: documents_sources_ok_def)
  have keys: "merged_keys [] i = map source_key (sources_of i)"
    using sorted_set_id [OF d(2,1)] by (simp add: merged_keys_def sources_of_def fld_def)
  have at: "the (newest (source_at (sources_of []) (source_key s)) (source_at (sources_of i) (source_key s))) = s"
    if s: "s \<in> set (sources_of i)" for s
  proof -
    have "source_at (sources_of i) (source_key s) = Some s" using s by (simp add: source_at_iff [OF d(1)])
    moreover have "source_at (sources_of []) (source_key s) = None" by (simp add: sources_of_def fld_def source_at_def)
    ultimately show ?thesis by simp
  qed
  show ?thesis unfolding newest_sources_def keys map_map comp_def using at by (intro map_idI)
qed

context aggregation
begin

lemma pipeline_updates:
  assumes ok: "mergeable u ix e i" and len: "length (merged_keys e i) \<le> MAX_SOURCES" and fit: "storable e" "storable i"
    and pipeline: "mongo_merge_pipeline u ix i = Inr stages"
  shows "map_of (foldl (\<lambda>x s. run s x) (bson_doc e) stages) k = map_of (bson_doc (merge_result e i)) k"
proof -
  let ?d = "merge_result e i" and ?n = "\<lambda>_. None"
  have e: "seed_ok u ix e" and i: "seed_ok u ix i" and same: "fld ''_id'' e = fld ''_id'' i" "fld ''canonical_url'' e = fld ''canonical_url'' i"
    using ok by (simp_all add: mergeable_def)
  note t = seed_ok_stamps [OF e] seed_ok_stamps [OF i]
  have sf: "sources_fit e" "sources_fit i" using seed_sources_fit e i fit by blast+
  have at: "map_of (bson_doc e) (py c) = Some (bson_of (fld c e))" if "c \<in> set field_names" for c
    using seed_field_present [OF e that] by (simp add: map_of_bson_doc)
  have d: "sources_of ?d = newest_sources e i" "fld ''_id'' ?d = fld ''_id'' e" "fld ''canonical_url'' ?d = fld ''canonical_url'' e"
    "fld ''enabled'' ?d = fld ''enabled'' e"
    "fld ''discovered_at'' ?d = VDate (earlier (stamp (fld ''discovered_at'' e)) (stamp (fld ''discovered_at'' i)))"
    "fld ''updated_at'' ?d = VDate (later (stamp (fld ''updated_at'' e)) (stamp (fld ''updated_at'' i)))"
    by (simp_all add: merge_result_def)
  have sources: "ev env (bson_doc e) existing_sources = Some (source_array (sources_of e))" for env
    using at [of "''sources''"] seed_sources_bson [OF e] by (simp add: existing_sources_def if_null field field_names_def)
  obtain b where b: "fld ''enabled'' e = VBool b" using e by (auto simp: seed_ok_iff)
  have stored: "storable ?d"
  proof -
    have "s \<in> set (sources_of e) \<union> set (sources_of i)" if "s \<in> set (newest_sources e i)" for s
      using that newest_sources_at by (force simp: newest_sources_def)
    then show ?thesis using fit by (auto simp: storable_def d)
  qed
  show ?thesis
  proof (rule pipeline_stages [OF pipeline merge_result_ok [OF ok len] stored])
    show "ev ?n (bson_doc e) (AIfNull (AField ''enabled'') (ALiteral (fld ''enabled'' i))) = Some (bson_of (fld ''enabled'' ?d))"
      using at [of "''enabled''"] by (simp add: if_null field field_names_def d b)
    show "ev ?n (bson_doc e) (ASortArray (AConcatArrays (preserved_existing (sources_of i) # map incoming_array (sources_of i))) (Some ''key'')) =
        Some (source_array (sources_of ?d))"
      unfolding d by (rule sources_value [OF sources sf])
    show "ev ?n (bson_doc e) (kept_or ''discovered_at'' AGt (fld ''discovered_at'' i)) = Some (bson_of (fld ''discovered_at'' ?d))"
      using kept_or_stored(1) [of "bson_doc e" "''discovered_at''" _ "fld ''discovered_at'' i"] at [of "''discovered_at''"]
        bson_of_date [OF t(1)] bson_of_date [OF t(4)] millis_le [OF t(1,4)]
      by (auto simp: field_names_def d earlier_def not_le)
    show "ev ?n (bson_doc e) (kept_or ''updated_at'' ALt (fld ''updated_at'' i)) = Some (bson_of (fld ''updated_at'' ?d))"
      using kept_or_stored(2) [of "bson_doc e" "''updated_at''" _ "fld ''updated_at'' i"] at [of "''updated_at''"]
        bson_of_date [OF t(2)] bson_of_date [OF t(5)] millis_le [OF t(5,2)]
      by (auto simp: field_names_def d later_def not_le)
  qed (use at [of "''_id''"] same in \<open>simp_all add: field_names_def d\<close>)
qed

lemma pipeline_inserts:
  assumes i: "seed_ok u ix i" and fit: "storable i" and pipeline: "mongo_merge_pipeline u ix i = Inr stages"
  shows "map_of (foldl (\<lambda>x s. run s x) (merge_start None i) stages) k = map_of (bson_doc i) k"
proof -
  let ?D = "merge_start None i" and ?n = "\<lambda>_. None"
  note t = seed_ok_stamps [OF i]
  have at: "map_of ?D (py c) = None" if "c \<in> set (tl field_names)" for c
    using that by (auto simp: merge_start_def field_names_def py_def)
  have sources: "ev env ?D existing_sources = Some (source_array (sources_of []))" for env
    using at [of "''sources''"] by (simp add: existing_sources_def if_null field field_names_def empty_array sources_of_def fld_def)
  have sf: "sources_fit []" "sources_fit i"
    using seed_sources_fit [OF i fit] by (simp_all add: sources_fit_def sources_of_def fld_def storable_def)
  show ?thesis
  proof (rule pipeline_stages [OF pipeline i fit])
    show "ev ?n ?D (ASortArray (AConcatArrays (preserved_existing (sources_of i) # map incoming_array (sources_of i))) (Some ''key'')) =
        Some (source_array (sources_of i))"
      using sources_value [OF sources sf] newest_sources_fresh [OF seed_ok_sources [OF i]] by simp
    show "ev ?n ?D (kept_or ''discovered_at'' AGt (fld ''discovered_at'' i)) = Some (bson_of (fld ''discovered_at'' i))"
      using kept_or_missing(1) [OF at bson_of_date(1) [OF t(1)]] bson_of_date(1) [OF t(1)] by (simp add: field_names_def)
    show "ev ?n ?D (kept_or ''updated_at'' ALt (fld ''updated_at'' i)) = Some (bson_of (fld ''updated_at'' i))"
      using kept_or_missing(2) [OF at bson_of_date(1) [OF t(2)]] bson_of_date(1) [OF t(2)] by (simp add: field_names_def)
    show "ev ?n ?D (AIfNull (AField ''enabled'') (ALiteral (fld ''enabled'' i))) = Some (bson_of (fld ''enabled'' i))"
      using at [of "''enabled''"] by (simp add: if_null field field_names_def literal)
    show "map_of ?D (py ''_id'') = Some (bson_of (fld ''_id'' i))" by (simp add: merge_start_def)
  qed simp
qed

lemma pipeline_result:
  assumes merged: "merge_seed_documents u ix existing i None = Inr d"
    and fit: "storable i" "\<forall>e. existing = Some e \<longrightarrow> storable e"
  shows "\<exists>stages. mongo_merge_pipeline u ix i = Inr stages \<and>
     (\<forall>k. map_of (foldl (\<lambda>x s. run s x) (merge_start existing i) stages) k = map_of (bson_doc d) k)"
proof -
  have i: "seed_ok u ix i" using merged by (auto simp: merge_seed_documents_def sum_iffs)
  then obtain stages where p: "mongo_merge_pipeline u ix i = Inr stages" by (simp add: mongo_merge_pipeline_def Let_def)
  show ?thesis
  proof (cases existing)
    case None
    then have "d = i" using merged i by (simp add: merge_seed_documents_def)
    then show ?thesis using pipeline_inserts [OF i fit(1) p] p None by blast
  next
    case (Some e)
    have m: "mergeable u ix e i"
      using merged Some by (auto simp: merge_seed_documents_def merge_existing_def mergeable_def sum_iffs)
    have d: "d = merge_result e i" "length (merged_keys e i) \<le> MAX_SOURCES"
      using merge_existing_result [OF m] merged Some by (auto split: if_splits)
    show ?thesis using pipeline_updates [OF m d(2) _ fit(1) p] fit(2) Some p d(1) by (auto simp: merge_start_def)
  qed
qed

end

end
