(* ===== verification/Seed_Merge.thy ===== *)
theory Seed_Merge
  imports Seed_Pipeline
begin

text \<open>
  An evaluator of the aggregation operators that the merge pipeline uses: an instance of the interface
  \<open>aggregation\<close>, on which the pipeline can be run.
\<close>

section \<open>The evaluator\<close>

fun bdoc :: "bson \<Rightarrow> doc" where
  "bdoc (BDoc d) = d"
| "bdoc _ = []"

fun bint :: "bson \<Rightarrow> int" where
  "bint (BInt n) = n"
| "bint _ = 0"

fun bdate :: "bson option \<Rightarrow> int" where
  "bdate (Some (BDate n)) = n"
| "bdate _ = 0"

fun type_name :: "bson option \<Rightarrow> string" where
  "type_name None = ''missing''"
| "type_name (Some (BDate _)) = ''date''"
| "type_name (Some _) = ''other''"

definition arr :: "bson option \<Rightarrow> bson list" where
  "arr v = (case v of Some (BArr xs) \<Rightarrow> xs | _ \<Rightarrow> [])"

definition text_bytes :: "bson option \<Rightarrow> bytes" where
  "text_bytes v = (case v of Some (BStr t) \<Rightarrow> utf8_order t | _ \<Rightarrow> [])"

fun agg :: "(string \<Rightarrow> bson option) \<Rightarrow> doc \<Rightarrow> aexpr \<Rightarrow> bson option" where
  "agg env d (ALiteral v) = Some (bson_of v)"
| "agg env d (AField f) = map_of d (py f)"
| "agg env d (AFieldEach f g) = Some (BArr (List.map_filter (\<lambda>x. map_of (bdoc x) (py g)) (arr (map_of d (py f)))))"
| "agg env d (AVarField v f) = (case env v of None \<Rightarrow> None | Some x \<Rightarrow> map_of (bdoc x) (py f))"
| "agg env d AEmptyArray = Some (BArr [])"
| "agg env d (AIfNull a b) = (if agg env d a = None \<or> agg env d a = Some BNull then agg env d b else agg env d a)"
| "agg env d (ANot a) = Some (BBool (agg env d a \<noteq> Some (BBool True)))"
| "agg env d (AIn a b) = Some (BBool (\<exists>x \<in> set (arr (agg env d b)). agg env d a = Some x))"
| "agg env d (AAnd es) = Some (BBool (list_all (\<lambda>e. agg env d e = Some (BBool True)) es))"
| "agg env d (AOr es) = Some (BBool (list_ex (\<lambda>e. agg env d e = Some (BBool True)) es))"
| "agg env d (AEq a b) = Some (BBool (agg env d a = agg env d b))"
| "agg env d (AGte a b) = Some (BBool (bdate (agg env d b) \<le> bdate (agg env d a)))"
| "agg env d (AGt a b) = Some (BBool (bdate (agg env d b) < bdate (agg env d a)))"
| "agg env d (ALt a b) = Some (BBool (bdate (agg env d a) < bdate (agg env d b)))"
| "agg env d (AType a) = Some (BStr (py (type_name (agg env d a))))"
| "agg env d (ACond c a b) = (if agg env d c = Some (BBool True) then agg env d a else agg env d b)"
| "agg env d (AMap a v b) = Some (BArr (map (\<lambda>x. case agg (env(v \<mapsto> x)) d b of None \<Rightarrow> BNull | Some y \<Rightarrow> y) (arr (agg env d a))))"
| "agg env d (AFilter a v b) = Some (BArr (filter (\<lambda>x. agg (env(v \<mapsto> x)) d b = Some (BBool True)) (arr (agg env d a))))"
| "agg env d (AAnyElementTrue a) = Some (BBool (list_ex (\<lambda>x. x = BBool True) (arr (agg env d a))))"
| "agg env d (AConcatArrays es) = Some (BArr (concat (map (\<lambda>e. arr (agg env d e)) es)))"
| "agg env d (ASortArray a (Some f)) = Some (BArr (sort_key (\<lambda>x. text_bytes (map_of (bdoc x) (py f))) (arr (agg env d a))))"
| "agg env d (ASortArray a None) = Some (BArr (sort_key (\<lambda>x. text_bytes (Some x)) (arr (agg env d a))))"
| "agg env d (ASetUnion a b) = Some (BArr (remdups (arr (agg env d a) @ arr (agg env d b))))"
| "agg env d (AMin a) = Some (BInt (min_list (map bint (arr (agg env d a)))))"

fun agg_run :: "astage \<Rightarrow> doc \<Rightarrow> doc" where
  "agg_run (SSet kes) d = foldl (\<lambda>r (k, e). case agg (\<lambda>_. None) d e of None \<Rightarrow> r | Some v \<Rightarrow> AList.update k v r) d kes"
| "agg_run (SProject ks) d = filter (\<lambda>(k, _). k \<in> set ks) d"

section \<open>It keeps the laws\<close>

lemma agg_bools:
  assumes "map (agg env d) es = map (\<lambda>p. Some (BBool p)) ps"
  shows "list_all (\<lambda>e. agg env d e = Some (BBool True)) es \<longleftrightarrow> (\<forall>p \<in> set ps. p)"
    and "list_ex (\<lambda>e. agg env d e = Some (BBool True)) es \<longleftrightarrow> (\<exists>p \<in> set ps. p)"
proof -
  have "(\<forall>v \<in> set (map (agg env d) es). v = Some (BBool True)) \<longleftrightarrow> (\<forall>p \<in> set ps. p)" unfolding assms by auto
  then show "list_all (\<lambda>e. agg env d e = Some (BBool True)) es \<longleftrightarrow> (\<forall>p \<in> set ps. p)" by (simp add: list_all_iff)
  have "(\<exists>v \<in> set (map (agg env d) es). v = Some (BBool True)) \<longleftrightarrow> (\<exists>p \<in> set ps. p)" unfolding assms by auto
  then show "list_ex (\<lambda>e. agg env d e = Some (BBool True)) es \<longleftrightarrow> (\<exists>p \<in> set ps. p)"
    by (simp add: list_ex_iff image_iff) metis
qed

lemma set_stage_values:
  assumes "distinct (map fst kes)" and "\<forall>(k, e) \<in> set kes. V e \<noteq> None"
  shows "map_of (foldl (\<lambda>r (k, e). case V e of None \<Rightarrow> r | Some v \<Rightarrow> AList.update k v r) r kes) k =
     (case map_of kes k of None \<Rightarrow> map_of r k | Some e \<Rightarrow> V e)"
  using assms
proof (induction kes arbitrary: r)
  case (Cons ke kes)
  obtain k' e v where ke: "ke = (k', e)" "V e = Some v" using Cons.prems(2) by (cases ke) auto
  have "map_of kes k' = None" using Cons.prems(1) ke by (auto simp: map_of_eq_None_iff)
  then show ?case using Cons ke by (auto simp: update_conv' split: option.splits)
qed simp

lemma map_filter_each:
  "\<forall>s \<in> set ds. map_of s (py g) \<noteq> None \<Longrightarrow>
     List.map_filter (\<lambda>x. map_of (bdoc x) (py g)) (map BDoc ds) = map (\<lambda>s. the (map_of s (py g))) ds"
  by (induction ds) (auto simp: map_filter_simps)

lemma remdups_texts: "remdups (map BStr ts) = map BStr (remdups ts)"
  by (induction ts) auto

lemma map_of_project: "map_of (filter (\<lambda>(k, _). k \<in> set ks) d) k = (if k \<in> set ks then map_of d k else None)"
  by (induction d) auto

lemma arr_values: "map (agg env d) es = map (\<lambda>xs. Some (BArr xs)) xss \<Longrightarrow> map (\<lambda>e. arr (agg env d e)) es = xss"
  by (induction es arbitrary: xss) (auto simp: Cons_eq_map_conv arr_def)

interpretation documented: aggregation agg agg_run
proof
  fix env d a f ds
  assume a: "agg env d a = Some (BArr (map BDoc ds))"
    and k: "\<forall>s \<in> set ds. \<exists>t. map_of s (py f) = Some (BStr t) \<and> utf8_encode t \<noteq> None"
  have "sort_key (\<lambda>s. text_bytes (map_of s (py f))) ds = sort_key (\<lambda>s. utf8_order (the (bson_str (the (map_of s (py f)))))) ds"
    using k by (intro sort_key_cong) (auto simp: text_bytes_def)
  then show "agg env d (ASortArray a (Some f)) =
      Some (BArr (map BDoc (sort_key (\<lambda>s. utf8_order (the (bson_str (the (map_of s (py f)))))) ds)))"
    by (simp add: a arr_def sort_key_map)
next
  fix env d a b ts
  assume "agg env d a = Some (BArr (map BStr ts))" and "agg env d b = Some (BArr [])"
  then show "\<exists>us. agg env d (ASetUnion a b) = Some (BArr (map BStr us)) \<and> distinct us \<and> set us = set ts"
    by (intro exI [of _ "remdups ts"]) (simp add: arr_def remdups_texts)
next
  fix kes k d
  assume "distinct (map fst kes)" and "\<forall>(k :: pystr, e) \<in> set kes. agg (\<lambda>_. None) d e \<noteq> None"
  then show "map_of (agg_run (SSet kes) d) k = (case map_of kes k of None \<Rightarrow> map_of d k | Some e \<Rightarrow> agg (\<lambda>_. None) d e)"
    using set_stage_values [of kes "agg (\<lambda>_. None) d" d k] by simp
next
  fix env d es xss
  assume "map (agg env d) es = map (\<lambda>xs. Some (BArr xs)) xss"
  then show "agg env d (AConcatArrays es) = Some (BArr (concat xss))" using arr_values by simp
next
  fix ks d k
  show "map_of (agg_run (SProject ks) d) k = (if k \<in> set ks then map_of d k else None)" by (simp add: map_of_project)
next
  fix env d a ts
  assume "agg env d a = Some (BArr (map BStr ts))"
  then show "agg env d (ASortArray a None) = Some (BArr (map BStr (sort_key utf8_order ts)))"
    by (simp add: arr_def sort_key_map text_bytes_def)
next
  fix env d a ns
  assume "agg env d a = Some (BArr (map BInt ns))" and "ns \<noteq> []"
  then show "agg env d (AMin a) = Some (BInt (Min (set ns)))" by (simp add: arr_def min_list_Min comp_def)
next
  fix env d f g ds
  assume "map_of d (py f) = Some (BArr (map BDoc ds))" and "\<forall>s \<in> set ds. map_of s (py g) \<noteq> None"
  then show "agg env d (AFieldEach f g) = Some (BArr (map (\<lambda>s. the (map_of s (py g))) ds))"
    by (simp add: arr_def map_filter_each)
next
  fix env d a v b xs P
  assume "agg env d a = Some (BArr xs)" and "\<forall>x \<in> set xs. agg (env(v \<mapsto> x)) d b = Some (BBool (P x))"
  then show "agg env d (AFilter a v b) = Some (BArr (filter P xs))" by (simp add: arr_def cong: filter_cong)
next
  fix env d a ps
  assume "agg env d a = Some (BArr (map BBool ps))"
  then show "agg env d (AAnyElementTrue a) = Some (BBool (\<exists>p \<in> set ps. p))"
    by (auto simp: arr_def list_ex_iff)
next
  fix env d a b t ts
  assume "agg env d a = Some (BStr t)" and "agg env d b = Some (BArr (map BStr ts))"
  then show "agg env d (AIn a b) = Some (BBool (t \<in> set ts))" by (auto simp: arr_def)
qed (simp_all add: agg_bools arr_def)

section \<open>The pipeline and the merge\<close>

lemma example_seeds_storable:
  "sources_of e = [example_source ''k1'' 0] \<or> sources_of e = [example_source ''k2'' 5000] \<Longrightarrow> storable e"
proof -
  have "vstr (fld ''category'' (example_source k a)) = py ''news''" for k a by (simp add: example_source_def fld_def py_def)
  moreover have "utf8_encode (py ''news'') = Some (py ''news'')" "utf8_encode (py ''k1'') = Some (py ''k1'')"
    "utf8_encode (py ''k2'') = Some (py ''k2'')"
    by (rule utf8_encode_ascii, simp add: is_ascii_def py_def)+
  ultimately show "sources_of e = [example_source ''k1'' 0] \<or> sources_of e = [example_source ''k2'' 5000] \<Longrightarrow> storable e"
    by (auto simp: storable_def example_keys)
qed

text \<open>
  C30. The update pipeline is the merge: whatever evaluates the aggregation operators as documented, running
  it on the stored document (or, in an upsert, on the document with the new identifier) gives every field the
  value that \<open>merge_seed_documents\<close> gives it.
\<close>

theorem pipeline_is_the_merge:
  assumes "aggregation ev run" and "merge_seed_documents u ix existing incoming None = Inr d"
    and "storable incoming" and "\<forall>e. existing = Some e \<longrightarrow> storable e"
  shows "\<exists>stages. mongo_merge_pipeline u ix incoming = Inr stages \<and>
     (\<forall>k. map_of (foldl (\<lambda>x s. run s x) (merge_start existing incoming) stages) k = map_of (bson_doc d) k)"
  by (rule aggregation.pipeline_result [OF assms])

theorem pipeline_is_the_merge_witness:
  "\<exists>e i d stages. merge_seed_documents plain_ucd no_alabels (Some e) i None = Inr d \<and> length (sources_of d) = 2 \<and>
     mongo_merge_pipeline plain_ucd no_alabels i = Inr stages \<and>
     map_of (foldl (\<lambda>x s. agg_run s x) (bson_doc e) stages) (py ''sources'') = map_of (bson_doc d) (py ''sources'')"
proof -
  obtain e i where e: "mergeable plain_ucd no_alabels e i" "sources_of e = [example_source ''k1'' 0]" "sources_of i = [example_source ''k2'' 5000]"
    by (rule example_seeds)
  have keys: "merged_keys e i = [py ''k1'', py ''k2'']"
    using e(2,3) by (simp add: merged_keys_def example_keys sorted_set_def py_def)
  have d: "merge_seed_documents plain_ucd no_alabels (Some e) i None = Inr (merge_result e i)"
    using merge_existing_result [OF e(1)] keys by (simp add: MAX_SOURCES_def)
  have "length (sources_of (merge_result e i)) = 2"
    using keys by (simp add: merge_result_def newest_sources_def)
  moreover have "storable e" "storable i" using example_seeds_storable e(2,3) by blast+
  ultimately obtain stages where "mongo_merge_pipeline plain_ucd no_alabels i = Inr stages"
    "\<forall>k. map_of (foldl (\<lambda>x s. agg_run s x) (merge_start (Some e) i) stages) k = map_of (bson_doc (merge_result e i)) k"
    using pipeline_is_the_merge [OF documented.aggregation_axioms d] by blast
  then show ?thesis using d \<open>length (sources_of (merge_result e i)) = 2\<close>
    unfolding merge_start_def option.case by blast
qed

end
