(* ===== verification/Seed_Mongo.thy ===== *)
theory Seed_Mongo
  imports Seed_Merge
begin

text \<open>
  The rest of \<open>mongo_seeds.py\<close>: the collection's validator and indexes, the read-only compatibility check
  before anything is changed, and the ordered write of seed documents. The database is a parameter: the
  operations the code calls on it, and the interface \<open>seed_database\<close> with what they are documented to do.

  The theorem: a collection with a document that is not a valid V1 seed is refused untouched.
\<close>

section \<open>Validator and indexes\<close>

definition obj :: "(string \<times> bson) list \<Rightarrow> bson" where "obj kvs = BDoc (map (\<lambda>(k, v). (py k, v)) kvs)"
definition txt_value :: "string \<Rightarrow> bson" where "txt_value s = BStr (py s)"

definition DATABASE_NAME :: string where "DATABASE_NAME = ''mifolyo_index''"
definition COLLECTION_NAME :: string where "COLLECTION_NAME = ''crawl_seeds''"

definition text_schema :: bson where
  "text_schema = obj [(''bsonType'', txt_value ''string''), (''minLength'', BInt 1)]"

definition priority_schema :: bson where
  "priority_schema = obj [(''bsonType'', txt_value ''int''), (''minimum'', BInt 1), (''maximum'', BInt 3)]"

definition date_schema :: bson where "date_schema = obj [(''bsonType'', txt_value ''date'')]"

definition SOURCE_BSON_SCHEMA :: bson where
  "SOURCE_BSON_SCHEMA = obj
     [(''bsonType'', txt_value ''object''), (''additionalProperties'', BBool False),
      (''required'', BArr (map BStr SOURCE_FIELDS)),
      (''properties'', obj
        [(''key'', text_schema), (''type'', text_schema), (''source_ref'', obj [(''bsonType'', txt_value ''string'')]),
         (''raw_url'', obj [(''bsonType'', txt_value ''string''), (''minLength'', BInt 1), (''maxLength'', BInt 2048)]),
         (''category'', text_schema), (''priority'', priority_schema), (''observed_at'', date_schema),
         (''metadata'', obj [(''bsonType'', txt_value ''object'')])])]"

definition version_schema :: bson where
  "version_schema = obj [(''bsonType'', txt_value ''int''), (''enum'', BArr [BInt 1])]"

definition CRAWL_SEED_BSON_SCHEMA :: bson where
  "CRAWL_SEED_BSON_SCHEMA = obj
     [(''bsonType'', txt_value ''object''), (''additionalProperties'', BBool False),
      (''required'', BArr (map BStr ROOT_FIELDS)),
      (''properties'', obj
        [(''_id'', obj [(''bsonType'', txt_value ''string''), (''pattern'', txt_value ''^[a-f0-9]{64}$'')]),
         (''schema_version'', version_schema), (''canonicalization_version'', version_schema),
         (''canonical_url'', obj [(''bsonType'', txt_value ''string''), (''minLength'', BInt 1), (''maxLength'', BInt 2048),
            (''pattern'', txt_value ''^https?://'')]),
         (''enabled'', obj [(''bsonType'', txt_value ''bool'')]), (''priority'', priority_schema),
         (''categories'', obj [(''bsonType'', txt_value ''array''), (''minItems'', BInt 1), (''uniqueItems'', BBool True),
            (''items'', text_schema)]),
         (''sources'', obj [(''bsonType'', txt_value ''array''), (''minItems'', BInt 1), (''maxItems'', BInt 100),
            (''items'', SOURCE_BSON_SCHEMA)]),
         (''discovered_at'', date_schema), (''updated_at'', date_schema)])]"

definition RAW_URL_BYTE_LENGTH_VALIDATOR :: bson where
  "RAW_URL_BYTE_LENGTH_VALIDATOR = obj
     [(''$expr'', obj [(''$cond'', BArr
        [obj [(''$isArray'', txt_value ''$sources'')],
         obj [(''$allElementsTrue'', BArr [obj [(''$map'', obj
            [(''input'', txt_value ''$sources''), (''as'', txt_value ''source''),
             (''in'', obj [(''$cond'', BArr
                [obj [(''$eq'', BArr [obj [(''$type'', txt_value ''$$source.raw_url'')], txt_value ''string''])],
                 obj [(''$lte'', BArr [obj [(''$strLenBytes'', txt_value ''$$source.raw_url'')],
                    BInt (int SOURCE_RAW_URL_MAX_UTF8_BYTES)])],
                 BBool False])])])]])],
         BBool False])])]"

definition COLLECTION_VALIDATOR :: bson where
  "COLLECTION_VALIDATOR = obj [(''$and'', BArr [obj [(''$jsonSchema'', CRAWL_SEED_BSON_SCHEMA)], RAW_URL_BYTE_LENGTH_VALIDATOR])]"

record index_spec =
  ix_fields :: "(string \<times> int) list"
  ix_name :: string
  ix_unique :: bool
  ix_simple_collation :: bool

definition SEED_INDEXES :: "index_spec list" where
  "SEED_INDEXES =
     [\<lparr>ix_fields = [(''canonical_url'', 1)], ix_name = ''uq_crawl_seeds_canonical_url'', ix_unique = True, ix_simple_collation = True\<rparr>,
      \<lparr>ix_fields = [(''enabled'', 1), (''priority'', 1), (''discovered_at'', 1), (''_id'', 1)], ix_name = ''ix_crawl_seeds_feed'',
        ix_unique = False, ix_simple_collation = False\<rparr>,
      \<lparr>ix_fields = [(''sources.key'', 1)], ix_name = ''ix_crawl_seeds_source_key'', ix_unique = False, ix_simple_collation = True\<rparr>]"

section \<open>The database\<close>

text \<open>An upsert with a pipeline: its filter is an identifier and a URL that is equal or absent.\<close>

record merge_operation =
  mo_id :: pyval
  mo_canonical_url :: pyval
  mo_pipeline :: "astage list"

record 'w seed_db =
  sd_list_names :: "('w, string list) prog"
  sd_create_collection :: "string \<Rightarrow> bson \<Rightarrow> ('w, unit) prog"
  sd_create_index :: "string \<Rightarrow> index_spec \<Rightarrow> ('w, unit) prog"
  sd_coll_mod :: "string \<Rightarrow> bson \<Rightarrow> ('w, unit) prog"
  sd_count :: "string \<Rightarrow> ('w, nat) prog"
  sd_find :: "string \<Rightarrow> ('w, pydict list \<times> exn option) prog"
  sd_distinct_ids :: "string \<Rightarrow> ('w, pystr list) prog"
  sd_validate :: "string \<Rightarrow> ('w, bool) prog"
  sd_bulk_write :: "string \<Rightarrow> merge_operation list \<Rightarrow> ('w, nat) prog"
  sd_rename :: "string \<Rightarrow> string \<Rightarrow> ('w, unit) prog"
  sd_drop :: "string \<Rightarrow> ('w, unit) prog"

section \<open>Operations\<close>

primrec create_indexes :: "('w, 'z) seed_db_scheme \<Rightarrow> string \<Rightarrow> index_spec list \<Rightarrow> ('w, unit) prog" where
  "create_indexes db name [] = ret ()"
| "create_indexes db name (i # is) = bind (sd_create_index db name i) (\<lambda>_. create_indexes db name is)"

definition ensure_seed_indexes :: "('w, 'z) seed_db_scheme \<Rightarrow> string \<Rightarrow> ('w, unit) prog" where
  "ensure_seed_indexes db name = create_indexes db name SEED_INDEXES"

definition create_crawl_seeds_collection :: "('w, 'z) seed_db_scheme \<Rightarrow> string \<Rightarrow> ('w, unit) prog" where
  "create_crawl_seeds_collection db name =
     bind (sd_create_collection db name COLLECTION_VALIDATOR) (\<lambda>_. ensure_seed_indexes db name)"

primrec validate_all :: "ucd \<Rightarrow> idna \<Rightarrow> pydict list \<Rightarrow> exn + unit" where
  "validate_all u ix [] = Inr ()"
| "validate_all u ix (d # ds) = bindE (validate_seed_document u ix d) (\<lambda>_. validate_all u ix ds)"

text \<open>The check reads only; every exception of it is reported as an incompatible collection.\<close>

definition assert_nonempty_collection_is_v1_compatible ::
    "ucd \<Rightarrow> idna \<Rightarrow> ('w, 'z) seed_db_scheme \<Rightarrow> string \<Rightarrow> ('w, unit) prog" where
  "assert_nonempty_collection_is_v1_compatible u ix db name =
     bind (sd_count db name) (\<lambda>count_before.
     if count_before = 0 then ret ()
     else catch
       (bind (sd_find db name) (\<lambda>(documents, failure).
        bind (lift (validate_all u ix documents)) (\<lambda>_.
        bind (case failure of None \<Rightarrow> ret () | Some e \<Rightarrow> raise e) (\<lambda>_.
        bind (sd_count db name) (\<lambda>count_after.
        require (length documents = count_before \<and> count_after = count_before)
          (RuntimeError ''collection changed during compatibility preflight''))))))
       (\<lambda>_. raise IncompatibleCrawlSeedCollection))"

definition ensure_crawl_seeds_collection :: "ucd \<Rightarrow> idna \<Rightarrow> ('w, 'z) seed_db_scheme \<Rightarrow> ('w, unit) prog" where
  "ensure_crawl_seeds_collection u ix db =
     bind (sd_list_names db) (\<lambda>names.
     if COLLECTION_NAME \<in> set names
     then bind (assert_nonempty_collection_is_v1_compatible u ix db COLLECTION_NAME) (\<lambda>_.
          bind (sd_coll_mod db COLLECTION_NAME COLLECTION_VALIDATOR) (\<lambda>_. ensure_seed_indexes db COLLECTION_NAME))
     else create_crawl_seeds_collection db COLLECTION_NAME)"

definition make_merge_operation :: "ucd \<Rightarrow> idna \<Rightarrow> pydict \<Rightarrow> exn + merge_operation" where
  "make_merge_operation u ix document =
     bindE (mongo_merge_pipeline u ix document) (\<lambda>pipeline.
     Inr \<lparr>mo_id = fld ''_id'' document, mo_canonical_url = fld ''canonical_url'' document, mo_pipeline = pipeline\<rparr>)"

definition write_seed_documents ::
    "ucd \<Rightarrow> idna \<Rightarrow> ('w, 'z) seed_db_scheme \<Rightarrow> string \<Rightarrow> pydict list \<Rightarrow> ('w, nat option) prog" where
  "write_seed_documents u ix db name documents =
     (let ordered_documents = sort_key (\<lambda>d. vstr (fld ''_id'' d)) documents in
      bind (lift (mapE (make_merge_operation u ix) ordered_documents)) (\<lambda>operations.
      if operations = [] then ret None
      else bind (sd_bulk_write db name operations) (\<lambda>result. ret (Some result))))"

section \<open>What the database does\<close>

text \<open>An upsert on a list of documents: the first that matches is replaced, else one is added.\<close>

definition matches_merge :: "merge_operation \<Rightarrow> doc \<Rightarrow> bool" where
  "matches_merge op d \<longleftrightarrow>
     map_of d (py ''_id'') = Some (bson_of (mo_id op)) \<and>
     (map_of d (py ''canonical_url'') = Some (bson_of (mo_canonical_url op)) \<or> map_of d (py ''canonical_url'') = None)"

fun apply_merge :: "(astage \<Rightarrow> doc \<Rightarrow> doc) \<Rightarrow> merge_operation \<Rightarrow> doc list \<Rightarrow> doc list" where
  "apply_merge run op [] = [foldl (\<lambda>x s. run s x) [(py ''_id'', bson_of (mo_id op))] (mo_pipeline op)]"
| "apply_merge run op (d # ds) =
     (if matches_merge op d then foldl (\<lambda>x s. run s x) d (mo_pipeline op) # ds else d # apply_merge run op ds)"

text \<open>
  \<open>V w n\<close> is the content of the collection \<open>n\<close>, if it exists, and \<open>S w n\<close> its validator and indexes. A call
  that raises has been carried out or not. \<open>decode\<close> is the driver's reading of a document.
\<close>

locale seed_database =
  fixes db :: "('w, 'z) seed_db_scheme"
    and V :: "'w \<Rightarrow> string \<Rightarrow> doc list option"
    and S :: "'w \<Rightarrow> string \<Rightarrow> 's"
    and decode :: "doc \<Rightarrow> pydict"
    and run :: "astage \<Rightarrow> doc \<Rightarrow> doc"
  assumes list_names: "wp (sd_list_names db) (\<lambda>ns v. (V v, S v) = (V w, S w) \<and> (\<forall>n. n \<in> set ns \<longleftrightarrow> V w n \<noteq> None))
      (\<lambda>_ v. (V v, S v) = (V w, S w)) w"
    and counts: "wp (sd_count db n) (\<lambda>k v. (V v, S v) = (V w, S w) \<and> (\<forall>ds. V w n = Some ds \<longrightarrow> k = length ds))
      (\<lambda>_ v. (V v, S v) = (V w, S w)) w"
    and finds: "wp (sd_find db n) (\<lambda>r v. (V v, S v) = (V w, S w) \<and> (\<forall>ds. V w n = Some ds \<longrightarrow> snd r = None \<longrightarrow> fst r = map decode ds))
      (\<lambda>_ v. (V v, S v) = (V w, S w)) w"
    and ids: "wp (sd_distinct_ids db n)
      (\<lambda>is v. (V v, S v) = (V w, S w) \<and> (\<forall>ds. V w n = Some ds \<longrightarrow> set is = {i. \<exists>d \<in> set ds. map_of d (py ''_id'') = Some (BStr i)}))
      (\<lambda>_ v. (V v, S v) = (V w, S w)) w"
    and validates: "wp (sd_validate db n) (\<lambda>_ v. (V v, S v) = (V w, S w)) (\<lambda>_ v. (V v, S v) = (V w, S w)) w"
    and creates: "wp (sd_create_collection db n c) (\<lambda>_ v. V v = (V w)(n \<mapsto> [])) (\<lambda>_ v. V v = V w \<or> V v = (V w)(n \<mapsto> [])) w"
    and indexes: "wp (sd_create_index db n i) (\<lambda>_ v. V v = V w) (\<lambda>_ v. V v = V w) w"
    and bulk: "V w n = Some ds \<Longrightarrow> wp (sd_bulk_write db n ops) (\<lambda>_ v. V v = (V w)(n \<mapsto> foldl (\<lambda>ds op. apply_merge run op ds) ds ops))
      (\<lambda>_ v. \<exists>ds'. V v = (V w)(n \<mapsto> ds')) w"
    and renames: "V w n = Some ds \<Longrightarrow> n \<noteq> m \<Longrightarrow>
      wp (sd_rename db n m) (\<lambda>_ v. V v = (V w)(m \<mapsto> ds, n := None)) (\<lambda>_ v. V v = V w \<or> V v = (V w)(m \<mapsto> ds, n := None)) w"
    and drops: "wp (sd_drop db n) (\<lambda>_ v. V v = (V w)(n := None)) (\<lambda>_ v. V v = V w \<or> V v = (V w)(n := None)) w"

lemma validate_all_iff: "validate_all u ix ds = Inr () \<longleftrightarrow> (\<forall>d \<in> set ds. seed_ok u ix d)"
  by (induction ds) (auto simp: sum_iffs)

context seed_database
begin

lemma preflight_reads:
  "wp (assert_nonempty_collection_is_v1_compatible u ix db n)
     (\<lambda>_ v. (V v, S v) = (V w, S w) \<and> (\<forall>ds. V w n = Some ds \<longrightarrow> (\<forall>d \<in> set ds. seed_ok u ix (decode d))))
     (\<lambda>_ v. (V v, S v) = (V w, S w)) w"
  unfolding assert_nonempty_collection_is_v1_compatible_def wp_bind
proof (rule wp_call [OF counts], goal_cases)
  case (1 k v)
  then have same: "(V v, S v) = (V w, S w)" and k: "\<forall>ds. V w n = Some ds \<longrightarrow> k = length ds" by auto
  show ?case
  proof (cases "k = 0")
    case True
    then show ?thesis using same k by auto
  next
    case False
    have c: "wp (sd_count db n) (\<lambda>_ y. (V y, S y) = (V x, S x)) (\<lambda>_ y. (V y, S y) = (V x, S x)) x" for x
      by (rule wp_call [OF counts]) auto
    show ?thesis
      unfolding if_not_P [OF False] wp_catch wp_bind
    proof (rule wp_call [OF finds], goal_cases)
      case (1 r x)
      then show ?case
        using same by (cases r) (auto simp: validate_all_iff split: sum.splits intro!: wp_call [OF c])
    qed (use same in auto)
  qed
qed auto

lemma ensure_refuses:
  assumes "V w COLLECTION_NAME = Some ds" and "d \<in> set ds" and "\<not> seed_ok u ix (decode d)"
  shows "wp (ensure_crawl_seeds_collection u ix db) (\<lambda>_ _. False) (\<lambda>_ v. (V v, S v) = (V w, S w)) w"
  unfolding ensure_crawl_seeds_collection_def wp_bind
proof (rule wp_call [OF list_names], goal_cases)
  case (1 names v)
  then have same: "(V v, S v) = (V w, S w)" and n: "COLLECTION_NAME \<in> set names" using assms(1) by auto
  show ?case
    unfolding if_P [OF n] wp_bind
    by (rule wp_call [OF preflight_reads]) (use same assms in auto)
qed

end

section \<open>A database in memory\<close>

type_synonym seed_world = "(string \<Rightarrow> doc list option) \<times> (string \<Rightarrow> bson list \<times> index_spec list)"

fun py_of_bson :: "bson \<Rightarrow> pyval" where
  "py_of_bson BNull = VNone"
| "py_of_bson (BBool b) = VBool b"
| "py_of_bson (BInt n) = VInt n"
| "py_of_bson (BFloat m e) = VOther 0"
| "py_of_bson BNaN = VOther 1"
| "py_of_bson BInfinity = VOther 2"
| "py_of_bson (BStr s) = VStr s"
| "py_of_bson (BDate n) = VDate \<lparr>dt_fields = n * 1000 + UNIX_EPOCH_MICROS, dt_offset = Some 0\<rparr>"
| "py_of_bson (BArr xs) = VList (map py_of_bson xs)"
| "py_of_bson (BDoc d) = VDict (map (\<lambda>(k, v). (k, py_of_bson v)) d)"
| "py_of_bson (BOther n) = VOther n"

definition py_doc :: "doc \<Rightarrow> pydict" where "py_doc d = map (\<lambda>(k, v). (k, py_of_bson v)) d"

definition docs_in :: "seed_world \<Rightarrow> string \<Rightarrow> doc list" where
  "docs_in w n = (case fst w n of None \<Rightarrow> [] | Some ds \<Rightarrow> ds)"

definition mem_seed_db :: "string list \<Rightarrow> seed_world seed_db" where
  "mem_seed_db names =
     \<lparr>sd_list_names = (\<lambda>w. (Inr (filter (\<lambda>n. fst w n \<noteq> None) names), w)),
      sd_create_collection = (\<lambda>n c w. if n \<in> set names then (Inr (), ((fst w)(n \<mapsto> []), (snd w)(n := ([c], []))))
        else (Inl (OperationFailure 1), w)),
      sd_create_index = (\<lambda>n i w. (Inr (), (fst w, (snd w)(n := (fst (snd w n), i # snd (snd w n)))))),
      sd_coll_mod = (\<lambda>n c w. (Inr (), (fst w, (snd w)(n := ([c], snd (snd w n)))))),
      sd_count = (\<lambda>n w. (Inr (length (docs_in w n)), w)),
      sd_find = (\<lambda>n w. (Inr (map py_doc (docs_in w n), None), w)),
      sd_distinct_ids = (\<lambda>n w. (Inr (remdups (List.map_filter (\<lambda>d. case map_of d (py ''_id'') of Some v \<Rightarrow> bson_str v | None \<Rightarrow> None) (docs_in w n))), w)),
      sd_validate = (\<lambda>n w. (Inr True, w)),
      sd_bulk_write = (\<lambda>n ops w.
        let ds = foldl (\<lambda>ds op. apply_merge agg_run op ds) (docs_in w n) ops in
        if distinct (map (\<lambda>d. map_of d (py ''_id'')) ds) then (Inr (length ops), ((fst w)(n \<mapsto> ds), snd w))
        else (Inl DuplicateKeyError, w)),
      sd_rename = (\<lambda>n m w. case fst w n of None \<Rightarrow> (Inl (OperationFailure 26), w)
        | Some ds \<Rightarrow> if m \<notin> set names then (Inl (OperationFailure 1), w) else (Inr (), ((fst w)(m \<mapsto> ds, n := None), (snd w)(m := snd w n)))),
      sd_drop = (\<lambda>n w. (Inr (), ((fst w)(n := None), snd w)))\<rparr>"

definition mem_content :: "string list \<Rightarrow> seed_world \<Rightarrow> string \<Rightarrow> doc list option" where
  "mem_content names w n = (if n \<in> set names then fst w n else None)"

lemma docs_in_content: "mem_content names w n = Some ds \<Longrightarrow> docs_in w n = ds \<and> n \<in> set names"
  by (auto simp: docs_in_def mem_content_def split: if_splits)

lemma mem_content_upd [simp]: "n \<in> set names \<Longrightarrow> mem_content names ((fst w)(n := x), s) = (mem_content names w)(n := x)"
  by (auto simp: mem_content_def fun_eq_iff)

lemma mem_content_settings [simp]: "mem_content names (fst w, s) = mem_content names w"
  by (auto simp: mem_content_def fun_eq_iff)

lemma set_map_filter: "set (List.map_filter f xs) = {y. \<exists>x \<in> set xs. f x = Some y}"
  by (induction xs) (auto simp: map_filter_simps split: option.splits)

lemma text_ids: "set (List.map_filter (\<lambda>d. case map_of d (py ''_id'') of Some v \<Rightarrow> bson_str v | None \<Rightarrow> None) ds) =
    {i. \<exists>d \<in> set ds. map_of d (py ''_id'') = Some (BStr i)}"
proof -
  have str: "bson_str v = Some i \<longleftrightarrow> v = BStr i" for v i by (cases v) auto
  have "(case o' of Some v \<Rightarrow> bson_str v | None \<Rightarrow> None) = Some i \<longleftrightarrow> o' = Some (BStr i)" for o' i
    by (cases o') (auto simp: str)
  then show ?thesis by (simp only: set_map_filter)
qed

interpretation mem: seed_database "mem_seed_db names" "mem_content names" snd py_doc agg_run
proof
  fix w n ds ops
  assume "mem_content names w n = Some ds"
  then show "wp (sd_bulk_write (mem_seed_db names) n ops)
     (\<lambda>_ v. mem_content names v = (mem_content names w)(n \<mapsto> foldl (\<lambda>ds op. apply_merge agg_run op ds) ds ops))
     (\<lambda>_ v. \<exists>ds'. mem_content names v = (mem_content names w)(n \<mapsto> ds')) w"
    using docs_in_content [of names w n ds]
    by (auto simp: wp_def mem_seed_db_def Let_def intro!: exI [of _ ds])
next
  fix w n m ds
  assume "mem_content names w n = Some ds" and "n \<noteq> m"
  then have "n \<in> set names" "fst w n = Some ds" by (auto simp: mem_content_def split: if_splits)
  then show "wp (sd_rename (mem_seed_db names) n m) (\<lambda>_ v. mem_content names v = (mem_content names w)(m \<mapsto> ds, n := None))
     (\<lambda>_ v. mem_content names v = mem_content names w \<or> mem_content names v = (mem_content names w)(m \<mapsto> ds, n := None)) w"
    by (auto simp: wp_def mem_seed_db_def mem_content_def fun_eq_iff)
next
  fix w n
  show "wp (sd_distinct_ids (mem_seed_db names) n)
     (\<lambda>is v. (mem_content names v, snd v) = (mem_content names w, snd w) \<and>
        (\<forall>ds. mem_content names w n = Some ds \<longrightarrow> set is = {i. \<exists>d \<in> set ds. map_of d (py ''_id'') = Some (BStr i)}))
     (\<lambda>_ v. (mem_content names v, snd v) = (mem_content names w, snd w)) w"
    using docs_in_content [of names w n] by (auto simp: wp_def mem_seed_db_def text_ids)
next
  fix w n
  show "wp (sd_drop (mem_seed_db names) n) (\<lambda>_ v. mem_content names v = (mem_content names w)(n := None))
     (\<lambda>_ v. mem_content names v = mem_content names w \<or> mem_content names v = (mem_content names w)(n := None)) w"
    by (auto simp: wp_def mem_seed_db_def mem_content_def fun_eq_iff)
next
  fix w n
  show "wp (sd_count (mem_seed_db names) n)
     (\<lambda>k v. (mem_content names v, snd v) = (mem_content names w, snd w) \<and> (\<forall>ds. mem_content names w n = Some ds \<longrightarrow> k = length ds))
     (\<lambda>_ v. (mem_content names v, snd v) = (mem_content names w, snd w)) w"
    using docs_in_content [of names w n] by (auto simp: wp_def mem_seed_db_def)
next
  fix w n
  show "wp (sd_find (mem_seed_db names) n)
     (\<lambda>r v. (mem_content names v, snd v) = (mem_content names w, snd w) \<and>
        (\<forall>ds. mem_content names w n = Some ds \<longrightarrow> snd r = None \<longrightarrow> fst r = map py_doc ds))
     (\<lambda>_ v. (mem_content names v, snd v) = (mem_content names w, snd w)) w"
    using docs_in_content [of names w n] by (auto simp: wp_def mem_seed_db_def)
next
  fix w n c
  show "wp (sd_create_collection (mem_seed_db names) n c) (\<lambda>_ v. mem_content names v = (mem_content names w)(n \<mapsto> []))
     (\<lambda>_ v. mem_content names v = mem_content names w \<or> mem_content names v = (mem_content names w)(n \<mapsto> [])) w"
    by (simp add: wp_def mem_seed_db_def)
qed (simp_all add: wp_def mem_seed_db_def mem_content_def)

text \<open>
  C31. A collection that holds a document which is not a valid V1 seed is refused: \<open>ensure_crawl_seeds_collection\<close>
  raises and leaves every document, validator and index as it was.
\<close>

theorem incompatible_collection_is_untouched:
  assumes "seed_database db V S decode run"
    and "V w COLLECTION_NAME = Some ds" and "d \<in> set ds" and "\<not> seed_ok u ix (decode d)"
  shows "\<exists>e v. ensure_crawl_seeds_collection u ix db w = (Inl e, v) \<and> V v = V w \<and> S v = S w"
  using seed_database.ensure_refuses [OF assms]
  by (cases "ensure_crawl_seeds_collection u ix db w") (auto simp: wp_def split: sum.splits)

theorem incompatible_collection_is_untouched_witness:
  "\<exists>e v. ensure_crawl_seeds_collection plain_ucd no_alabels (mem_seed_db [COLLECTION_NAME])
       ((\<lambda>_. None)(COLLECTION_NAME \<mapsto> [[(py ''_id'', BInt 7)]]), \<lambda>_. ([], [])) = (Inl e, v) \<and>
     mem_content [COLLECTION_NAME] v COLLECTION_NAME = Some [[(py ''_id'', BInt 7)]] \<and> snd v = (\<lambda>_. ([], []))"
proof -
  let ?w = "((\<lambda>_. None)(COLLECTION_NAME \<mapsto> [[(py ''_id'', BInt 7)]]), \<lambda>_. ([], []))"
  have "\<not> seed_ok plain_ucd no_alabels (py_doc [(py ''_id'', BInt 7)])"
    by (simp add: seed_ok_iff py_doc_def ROOT_FIELDS_def fld_def)
  moreover have "mem_content [COLLECTION_NAME] ?w COLLECTION_NAME = Some [[(py ''_id'', BInt 7)]]" by (simp add: mem_content_def)
  ultimately obtain e v where "ensure_crawl_seeds_collection plain_ucd no_alabels (mem_seed_db [COLLECTION_NAME]) ?w = (Inl e, v)"
    "mem_content [COLLECTION_NAME] v = mem_content [COLLECTION_NAME] ?w" "snd v = snd ?w"
    using incompatible_collection_is_untouched [OF mem.seed_database_axioms] by (metis list.set_intros(1))
  moreover from this have "mem_content [COLLECTION_NAME] v COLLECTION_NAME = Some [[(py ''_id'', BInt 7)]]"
    by (simp only: \<open>mem_content [COLLECTION_NAME] ?w COLLECTION_NAME = _\<close>)
  ultimately show ?thesis by (auto simp del: split_paired_Ex)
qed

end
