(* ===== verification/Seed_Catalog.thy ===== *)
theory Seed_Catalog
  imports Seed_Mongo Py_Number
begin

text \<open>
  \<open>crawl_seeds.py\<close>: building the baseline documents from the rows of the seed file, and the bootstrap and
  guarded rebuild of the local catalog. Reading the CSV file and parsing a MongoDB URI are parameters.

  The theorem: a rebuild replaces the catalog by the complete baseline or leaves it alone, whatever
  operation fails.
\<close>

section \<open>Constants\<close>

definition EXPECTED_MANUAL_ROWS :: nat where "EXPECTED_MANUAL_ROWS = 70"
definition EXPECTED_ENABLED_MANUAL_ROWS :: nat where "EXPECTED_ENABLED_MANUAL_ROWS = 67"
definition EXPECTED_REDDIT_DISCOVERY_ROWS :: nat where "EXPECTED_REDDIT_DISCOVERY_ROWS = 8"
definition DIRECT_SOURCE :: pystr where "DIRECT_SOURCE = py ''manual''"
definition REDDIT_DISCOVERY_SOURCE :: pystr where "REDDIT_DISCOVERY_SOURCE = py ''manual_reddit_discovery''"

definition DISABLED_MANUAL_CANONICAL_URLS :: "pystr list" where
  "DISABLED_MANUAL_CANONICAL_URLS =
     map py [''https://www.bbc.com/news'', ''https://www.khanacademy.org/'', ''https://www.politifact.com/'']"

definition REBUILD_ENVIRONMENTS :: "pystr list" where "REBUILD_ENVIRONMENTS = map py [''development'', ''test'']"
definition REBUILD_ENVIRONMENT_VARIABLE :: string where "REBUILD_ENVIRONMENT_VARIABLE = ''MIFOLYO_ENV''"

definition LOCAL_MONGO_NODES :: "(pystr \<times> int) list" where
  "LOCAL_MONGO_NODES = map (\<lambda>h. (py h, 27017)) [''localhost'', ''127.0.0.1'', ''::1'', ''mongo'']"

definition MANUAL_BASELINE_OBSERVED_AT :: pyval where
  "MANUAL_BASELINE_OBSERVED_AT = VDate \<lparr>dt_fields = UNIX_EPOCH_MICROS, dt_offset = Some 0\<rparr>"

section \<open>The target\<close>

record local_mongo_target =
  mt_host :: pystr
  mt_port :: int

definition target_authority :: "local_mongo_target \<Rightarrow> pystr" where
  "target_authority t =
     (let host = mt_host t in (if 58 \<in> set host then 91 # host @ [93] else host) @ 58 # show_nat (nat (mt_port t)))"

definition target_confirmation :: "local_mongo_target \<Rightarrow> pystr" where
  "target_confirmation t = target_authority t @ 47 # py DATABASE_NAME @ 47 # py COLLECTION_NAME"

record parsed_uri =
  pu_nodelist :: "(pystr \<times> int option) list"
  pu_database :: "pystr option"

definition parse_local_mongo_target :: "ucd \<Rightarrow> (pystr \<Rightarrow> exn + parsed_uri) \<Rightarrow> pystr \<Rightarrow> exn + local_mongo_target" where
  "parse_local_mongo_target u parse_uri mongo_uri =
     bindE (requireE (starts_with (py ''mongodb://'') mongo_uri)
       (PermissionError ''Only mongodb:// local-development targets are supported'')) (\<lambda>_.
     case parse_uri mongo_uri of
       Inl _ \<Rightarrow> Inl (ValueError ''Invalid MongoDB URI'')
     | Inr parsed \<Rightarrow>
         (case pu_nodelist parsed of
            [(host, port)] \<Rightarrow>
              (case port of
                 None \<Rightarrow> Inl (TypeError ''int'')
               | Some p \<Rightarrow>
                   let node = (py_lower (uc_lower u) host, p) in
                   bindE (requireE (pu_database parsed = Some (py DATABASE_NAME) \<and> node \<in> set LOCAL_MONGO_NODES)
                     (PermissionError ''MongoDB target must be local'')) (\<lambda>_.
                   Inr \<lparr>mt_host = fst node, mt_port = snd node\<rparr>))
          | _ \<Rightarrow> Inl (PermissionError ''one documented local MongoDB node'')))"

text \<open>\<open>env\<close> is the process environment; an unset variable is absent.\<close>

definition mongo_uri_from_env :: "(string \<Rightarrow> pystr option) \<Rightarrow> pystr" where
  "mongo_uri_from_env env =
     (let getenv = (\<lambda>k d. case env k of None \<Rightarrow> py d | Some v \<Rightarrow> v);
          host = getenv ''MONGO_HOST'' ''localhost''; port = getenv ''MONGO_PORT'' ''27017'';
          username = getenv ''MONGO_USERNAME'' []; password = getenv ''MONGO_PASSWORD'' [] in
      if getenv ''MONGO_URI'' [] \<noteq> [] then getenv ''MONGO_URI'' []
      else if username \<noteq> []
      then py ''mongodb://'' @ username @ 58 # password @ 64 # host @ 58 # port @ 47 # py DATABASE_NAME @ py ''?authSource=admin''
      else py ''mongodb://'' @ host @ 58 # port @ 47 # py DATABASE_NAME)"

section \<open>The baseline\<close>

type_synonym csv_row = "(pystr, pystr option) dict"

definition cell :: "string \<Rightarrow> csv_row \<Rightarrow> pystr option" where
  "cell k row = (case map_of row (py k) of None \<Rightarrow> None | Some v \<Rightarrow> v)"

definition cell_value :: "pystr option \<Rightarrow> pyval" where
  "cell_value v = (case v of None \<Rightarrow> VNone | Some s \<Rightarrow> VStr s)"

definition read_baseline_rows :: "exn + pystr list \<times> csv_row list \<Rightarrow> exn + csv_row list" where
  "read_baseline_rows file =
     bindE file (\<lambda>(fieldnames, rows).
     bindE (requireE (fieldnames = map py [''url'', ''category'', ''priority'', ''source'', ''notes''])
       (BaselineSeedError ''manual seed header'')) (\<lambda>_.
     let sources = map (cell ''source'') rows in
     bindE (requireE (length rows = EXPECTED_MANUAL_ROWS + EXPECTED_REDDIT_DISCOVERY_ROWS \<and>
         count_list sources (Some DIRECT_SOURCE) = EXPECTED_MANUAL_ROWS \<and>
         count_list sources (Some REDDIT_DISCOVERY_SOURCE) = EXPECTED_REDDIT_DISCOVERY_ROWS)
       (BaselineSeedError ''manual-seeds.csv must contain exactly 70 manual rows'')) (\<lambda>_. Inr rows)))"

text \<open>The document of one direct row.\<close>

definition manual_seed_document ::
    "ucd \<Rightarrow> idna \<Rightarrow> (nat \<Rightarrow> nat option) \<Rightarrow> pyval \<Rightarrow> csv_row \<Rightarrow> exn + pydict" where
  "manual_seed_document u ix digit observed_at row =
     bindE (case cell ''priority'' row of
              None \<Rightarrow> Inl (BaselineSeedError ''invalid priority'')
            | Some t \<Rightarrow> (case py_int digit t of Inl _ \<Rightarrow> Inl (BaselineSeedError ''invalid priority'') | Inr n \<Rightarrow> Inr n)) (\<lambda>priority.
     let url = (case cell ''url'' row of None \<Rightarrow> [] | Some t \<Rightarrow> t) in
     bindE (identify_url u ix url) (\<lambda>identity.
     bindE (requireE (ui_crawl_eligible identity) (BaselineSeedError ''manual URL is not crawl eligible'')) (\<lambda>_.
     let source_ref = py ''seeds/manual-seeds.csv#'' @ ui_url_id identity in
     bindE (stable_source_key DIRECT_SOURCE source_ref) (\<lambda>key.
     bindE (make_source DIRECT_SOURCE source_ref url (cell_value (cell ''category'' row)) priority observed_at
        (Some [(py ''notes'', cell_value (cell ''notes'' row))]) (Some key)) (\<lambda>source.
     new_seed_document u ix url source (ui_canonical_url identity \<notin> set DISABLED_MANUAL_CANONICAL_URLS) (Some observed_at))))))"

primrec add_manual_rows ::
    "ucd \<Rightarrow> idna \<Rightarrow> (nat \<Rightarrow> nat option) \<Rightarrow> pyval \<Rightarrow> (pystr, pydict) dict \<Rightarrow> csv_row list \<Rightarrow> exn + (pystr, pydict) dict" where
  "add_manual_rows u ix digit observed_at documents [] = Inr documents"
| "add_manual_rows u ix digit observed_at documents (row # rows) =
     (if cell ''source'' row = Some REDDIT_DISCOVERY_SOURCE then add_manual_rows u ix digit observed_at documents rows
      else bindE (manual_seed_document u ix digit observed_at row) (\<lambda>incoming.
        let k = vstr (fld ''_id'' incoming) in
        bindE (merge_seed_documents u ix (map_of documents k) incoming None) (\<lambda>d.
        add_manual_rows u ix digit observed_at (AList.update k d documents) rows)))"

definition build_manual_seed_documents ::
    "ucd \<Rightarrow> idna \<Rightarrow> (nat \<Rightarrow> nat option) \<Rightarrow> exn + pystr list \<times> csv_row list \<Rightarrow> pyval \<Rightarrow> exn + pydict list" where
  "build_manual_seed_documents u ix digit file observed_at =
     bindE (read_baseline_rows file) (\<lambda>rows.
     bindE (add_manual_rows u ix digit observed_at [] rows) (\<lambda>documents.
     bindE (requireE (length documents = EXPECTED_MANUAL_ROWS)
       (BaselineSeedError ''the 70 direct rows must resolve to exactly 70 distinct V1 URL IDs'')) (\<lambda>_.
     bindE (requireE (length (filter (\<lambda>d. fld ''enabled'' (snd d) = VBool True) documents) = EXPECTED_ENABLED_MANUAL_ROWS)
       (BaselineSeedError ''the direct baseline must contain exactly 67 enabled and 3 disabled records'')) (\<lambda>_.
     Inr (map (\<lambda>k. the (map_of documents k)) (sort (map fst documents)))))))"

section \<open>Bootstrap and rebuild\<close>

definition require_rebuild_authorization ::
    "ucd \<Rightarrow> local_mongo_target \<Rightarrow> pystr \<Rightarrow> (string \<Rightarrow> pystr option) \<Rightarrow> exn + unit" where
  "require_rebuild_authorization u target confirmation environ =
     (let value = (case environ REBUILD_ENVIRONMENT_VARIABLE of None \<Rightarrow> [] | Some v \<Rightarrow> v);
          normalized_environment = py_lower (uc_lower u) (py_strip value) in
      bindE (requireE (normalized_environment \<in> set REBUILD_ENVIRONMENTS)
        (PermissionError ''rebuild requires the process environment variable'')) (\<lambda>_.
      requireE (confirmation = target_confirmation target) (PermissionError ''rebuild requires --confirm-rebuild'')))"

definition bootstrap_database ::
    "ucd \<Rightarrow> idna \<Rightarrow> ('w, 'z) seed_db_scheme \<Rightarrow> pydict list \<Rightarrow> ('w, nat option) prog" where
  "bootstrap_database u ix db documents =
     bind (ensure_crawl_seeds_collection u ix db) (\<lambda>_. write_seed_documents u ix db COLLECTION_NAME documents)"

text \<open>Staging, checking and renaming; an exception before the rename has returned drops the stage.\<close>

definition stage_and_replace ::
    "ucd \<Rightarrow> idna \<Rightarrow> ('w, 'z) seed_db_scheme \<Rightarrow> string \<Rightarrow> pydict list \<Rightarrow> ('w, nat option) prog" where
  "stage_and_replace u ix db stage_name documents =
     catch
       (bind (create_crawl_seeds_collection db stage_name) (\<lambda>_.
        bind (write_seed_documents u ix db stage_name documents) (\<lambda>result.
        bind (sd_count db stage_name) (\<lambda>actual_count.
        bind (sd_distinct_ids db stage_name) (\<lambda>actual_ids.
        bind (require (actual_count = length documents \<and>
            sort actual_ids = sort (map (\<lambda>d. vstr (fld ''_id'' d)) documents))
          (RuntimeError ''staged crawl seed collection is incomplete; target was not replaced'')) (\<lambda>_.
        bind (sd_validate db stage_name) (\<lambda>valid.
        bind (require valid (RuntimeError ''staged crawl seed collection failed MongoDB validation'')) (\<lambda>_.
        bind (sd_rename db stage_name COLLECTION_NAME) (\<lambda>_. ret result)))))))))
       (\<lambda>e. bind (sd_drop db stage_name) (\<lambda>_. raise e))"

definition rebuild_database ::
    "ucd \<Rightarrow> idna \<Rightarrow> (pystr \<Rightarrow> exn + parsed_uri) \<Rightarrow> ('w, 'z) seed_db_scheme \<Rightarrow> string \<Rightarrow> pydict list \<Rightarrow> pystr \<Rightarrow> pystr \<Rightarrow>
     (string \<Rightarrow> pystr option) \<Rightarrow> string \<Rightarrow> ('w, nat option) prog" where
  "rebuild_database u ix parse_uri db database_name documents mongo_uri confirmation environ stage_name =
     bind (lift (parse_local_mongo_target u parse_uri mongo_uri)) (\<lambda>target.
     bind (lift (require_rebuild_authorization u target confirmation environ)) (\<lambda>_.
     bind (require (database_name = DATABASE_NAME)
       (PermissionError ''parsed confirmation database does not match the connected database'')) (\<lambda>_.
     bind (require (documents \<noteq> []) (RuntimeError ''rebuild refuses to replace crawl_seeds with an empty baseline'')) (\<lambda>_.
     bind (require (list_all (\<lambda>d. map_of d (py ''_id'') \<noteq> None) documents) (KeyError ''_id'')) (\<lambda>_.
     bind (require (distinct (map (fld ''_id'') documents)) (RuntimeError ''rebuild baseline contains duplicate URL IDs'')) (\<lambda>_.
     bind (require (stage_name \<noteq> COLLECTION_NAME) (RuntimeError ''rebuild staging collection name is not safely available'')) (\<lambda>_.
     bind (sd_list_names db) (\<lambda>names.
     bind (require (stage_name \<notin> set names) (RuntimeError ''rebuild staging collection name is not safely available'')) (\<lambda>_.
     stage_and_replace u ix db stage_name documents)))))))))"

section \<open>main\<close>

record catalog_args =
  ar_rebuild :: bool
  ar_mongo_uri :: pystr
  ar_confirm :: pystr
  ar_dry_run :: bool

definition is_startup_error :: "exn \<Rightarrow> bool" where
  "is_startup_error e \<longleftrightarrow> is_value_error e \<or>
     (case e of OSError \<Rightarrow> True | PermissionError _ \<Rightarrow> True | RuntimeError _ \<Rightarrow> True | IncompatibleCrawlSeedCollection \<Rightarrow> True
      | _ \<Rightarrow> False)"

definition catalog_startup ::
    "ucd \<Rightarrow> idna \<Rightarrow> (nat \<Rightarrow> nat option) \<Rightarrow> (pystr \<Rightarrow> exn + parsed_uri) \<Rightarrow> exn + pystr list \<times> csv_row list \<Rightarrow>
     (string \<Rightarrow> pystr option) \<Rightarrow> catalog_args \<Rightarrow> exn + pydict list" where
  "catalog_startup u ix digit parse_uri file environ args =
     bindE (parse_local_mongo_target u parse_uri (ar_mongo_uri args)) (\<lambda>target.
     bindE (if ar_rebuild args \<and> \<not> ar_dry_run args
            then require_rebuild_authorization u target (ar_confirm args) environ
            else requireE (\<not> (ar_rebuild args \<and> ar_confirm args \<noteq> [] \<and> ar_confirm args \<noteq> target_confirmation target))
              (PermissionError ''confirmation does not match parsed target'')) (\<lambda>_.
     build_manual_seed_documents u ix digit file MANUAL_BASELINE_OBSERVED_AT))"

text \<open>\<open>connect\<close> is \<open>MongoClient\<close> and its \<open>ping\<close>; the value is the exit code.\<close>

definition catalog_main ::
    "ucd \<Rightarrow> idna \<Rightarrow> (nat \<Rightarrow> nat option) \<Rightarrow> (pystr \<Rightarrow> exn + parsed_uri) \<Rightarrow> exn + pystr list \<times> csv_row list \<Rightarrow>
     (string \<Rightarrow> pystr option) \<Rightarrow> ('w, unit) prog \<Rightarrow> ('w, 'z) seed_db_scheme \<Rightarrow> string \<Rightarrow> catalog_args \<Rightarrow> ('w, nat) prog" where
  "catalog_main u ix digit parse_uri file environ connect db stage_name args =
     (case catalog_startup u ix digit parse_uri file environ args of
        Inl e \<Rightarrow> if is_startup_error e then ret 1 else raise e
      | Inr documents \<Rightarrow>
          if ar_dry_run args then ret 0
          else catch
            (bind connect (\<lambda>_.
             bind (if ar_rebuild args
                   then rebuild_database u ix parse_uri db DATABASE_NAME documents (ar_mongo_uri args) (ar_confirm args) environ stage_name
                   else bootstrap_database u ix db documents) (\<lambda>_. ret 0)))
            (\<lambda>_. ret 2))"

section \<open>What a rebuild leaves\<close>

text \<open>The documents of a collection are the stored forms of the given ones, field by field.\<close>

definition stored_form :: "doc \<Rightarrow> pydict \<Rightarrow> bool" where
  "stored_form d i \<longleftrightarrow> (\<forall>k. map_of d k = map_of (bson_doc i) k)"

definition by_id :: "pydict list \<Rightarrow> pydict list" where "by_id documents = sort_key (\<lambda>d. vstr (fld ''_id'' d)) documents"

definition holds_exactly :: "doc list option \<Rightarrow> pydict list \<Rightarrow> bool" where
  "holds_exactly content documents \<longleftrightarrow> (\<exists>ds. content = Some ds \<and> list_all2 stored_form ds (by_id documents))"

text \<open>The states a rebuild passes through, apart from the stage: the old catalog, or the complete new one.\<close>

definition old_or_new :: "('w \<Rightarrow> string \<Rightarrow> doc list option) \<Rightarrow> 'w \<Rightarrow> string \<Rightarrow> pydict list \<Rightarrow> 'w \<Rightarrow> bool" where
  "old_or_new V w stage documents v \<longleftrightarrow>
     (\<forall>n. n \<noteq> COLLECTION_NAME \<longrightarrow> n \<noteq> stage \<longrightarrow> V v n = V w n) \<and>
     (V v COLLECTION_NAME = V w COLLECTION_NAME \<or> holds_exactly (V v COLLECTION_NAME) documents)"

lemma wp_ret_eta: "wp (ret x) Q E = Q x"
  by (rule ext) simp

lemma lift_bind: "bind (lift (Inr x)) f = f x"
  by (rule ext) (simp add: bind_eq)

lemma apply_merge_fresh:
  "list_all (\<lambda>d. \<not> matches_merge op d) ds \<Longrightarrow>
     apply_merge run op ds = ds @ [foldl (\<lambda>x s. run s x) [(py ''_id'', bson_of (mo_id op))] (mo_pipeline op)]"
  by (induction ds) auto

locale seed_store = seed_database db V S decode run + aggregation ev run
  for db :: "('w, 'z) seed_db_scheme" and V :: "'w \<Rightarrow> string \<Rightarrow> doc list option" and S :: "'w \<Rightarrow> string \<Rightarrow> 's"
    and decode :: "doc \<Rightarrow> pydict" and run :: "astage \<Rightarrow> doc \<Rightarrow> doc"
    and ev :: "(string \<Rightarrow> bson option) \<Rightarrow> doc \<Rightarrow> aexpr \<Rightarrow> bson option"
begin

lemma merge_operation_inserts:
  assumes "make_merge_operation u ix i = Inr op" and "storable i"
  shows "seed_ok u ix i" and "mo_id op = fld ''_id'' i"
    and "stored_form (foldl (\<lambda>x s. run s x) [(py ''_id'', bson_of (mo_id op))] (mo_pipeline op)) i"
proof -
  obtain stages where p: "mongo_merge_pipeline u ix i = Inr stages"
    and op: "op = \<lparr>mo_id = fld ''_id'' i, mo_canonical_url = fld ''canonical_url'' i, mo_pipeline = stages\<rparr>"
    using assms(1) by (auto simp: make_merge_operation_def sum_iffs)
  show ok: "seed_ok u ix i" using p by (auto simp: mongo_merge_pipeline_def sum_iffs)
  show "mo_id op = fld ''_id'' i" by (simp add: op)
  show "stored_form (foldl (\<lambda>x s. run s x) [(py ''_id'', bson_of (mo_id op))] (mo_pipeline op)) i"
    using pipeline_inserts [OF ok assms(2) p] by (simp add: op stored_form_def merge_start_def)
qed

lemma bulk_fresh:
  assumes "mapE (make_merge_operation u ix) docs = Inr ops" and "\<forall>i \<in> set docs. storable i" and "distinct (map (fld ''_id'') (js @ docs))"
    and "list_all2 stored_form ds js" and "\<forall>j \<in> set js. seed_ok u ix j"
  shows "list_all2 stored_form (foldl (\<lambda>ds op. apply_merge run op ds) ds ops) (js @ docs)"
  using assms
proof (induction docs arbitrary: ops ds js)
  case (Cons i docs)
  obtain op ops' where op: "make_merge_operation u ix i = Inr op" "mapE (make_merge_operation u ix) docs = Inr ops'" "ops = op # ops'"
    using Cons.prems(1) by (auto simp: sum_iffs)
  have "storable i" using Cons.prems(2) by simp
  note ins = merge_operation_inserts [OF op(1) this]
  have "\<not> matches_merge op d" if d: "d \<in> set ds" for d
  proof -
    obtain j where j: "j \<in> set js" "stored_form d j"
      using list_all2_conv_all_nth Cons.prems(4) d by (metis in_set_conv_nth)
    obtain a b where ab: "fld ''_id'' i = VStr a" "fld ''_id'' j = VStr b"
      using ins(1) Cons.prems(5) j(1) is_vstrD unfolding seed_ok_iff by metis
    have "map_of d (py ''_id'') = Some (BStr b)"
      using j(2) seed_field_present [of u ix j "''_id''"] Cons.prems(5) j(1) ab(2)
      by (simp add: stored_form_def map_of_bson_doc field_names_def)
    moreover have "a \<noteq> b" using Cons.prems(3) j(1) ab by (force simp: image_iff)
    ultimately show ?thesis using ins(2) ab by (simp add: matches_merge_def)
  qed
  then have step: "apply_merge run op ds = ds @ [foldl (\<lambda>x s. run s x) [(py ''_id'', bson_of (mo_id op))] (mo_pipeline op)]"
    by (intro apply_merge_fresh) (simp add: list_all_iff)
  have "list_all2 stored_form (apply_merge run op ds) (js @ [i])"
    unfolding step using Cons.prems(4) ins(3) by (intro list_all2_appendI) auto
  then show ?case
    using Cons.IH [OF op(2), of "js @ [i]" "apply_merge run op ds"] Cons.prems ins(1) op(3) by auto
qed simp

lemma write_fresh:
  assumes "V w n = Some []" and "documents \<noteq> []" and "distinct (map (fld ''_id'') documents)" and "\<forall>i \<in> set documents. storable i"
  shows "wp (write_seed_documents u ix db n documents)
     (\<lambda>_ v. \<exists>ds. V v = (V w)(n \<mapsto> ds) \<and> list_all2 stored_form ds (by_id documents))
     (\<lambda>_ v. \<exists>ds. V v = (V w)(n \<mapsto> ds)) w"
proof -
  have same: "\<exists>ds. V w = (V w)(n \<mapsto> ds)" using assms(1) by (metis fun_upd_idem)
  have "mset (by_id documents) = mset documents" by (simp add: by_id_def)
  then have d: "distinct (map (fld ''_id'') (by_id documents))"
    using assms(3) by (metis mset_map mset_eq_imp_distinct_iff)
  show ?thesis
  proof (cases "mapE (make_merge_operation u ix) (by_id documents)")
    case (Inl e)
    then show ?thesis using same by (simp add: write_seed_documents_def Let_def flip: by_id_def)
  next
    case (Inr ops)
    then have "length ops = length documents" using mapE_length by (fastforce simp: by_id_def)
    then have ne: "ops \<noteq> []" using assms(2) by auto
    have all: "list_all2 stored_form (foldl (\<lambda>ds op. apply_merge run op ds) [] ops) (by_id documents)"
      using bulk_fresh [OF Inr, of "[]" "[]"] assms(4) d by (simp add: by_id_def)
    have "wp (bind (sd_bulk_write db n ops) (\<lambda>result. ret (Some result)))
       (\<lambda>_ v. \<exists>ds. V v = (V w)(n \<mapsto> ds) \<and> list_all2 stored_form ds (by_id documents)) (\<lambda>_ v. \<exists>ds. V v = (V w)(n \<mapsto> ds)) w"
      unfolding wp_bind by (rule wp_call [OF bulk [OF assms(1)]]) (use all in auto)
    then show ?thesis using Inr ne by (simp add: write_seed_documents_def Let_def lift_bind del: wp_bind flip: by_id_def)
  qed
qed

lemma indexes_kept: "wp (create_indexes db n ixs) (\<lambda>_ v. V v = V w) (\<lambda>_ v. V v = V w) w"
proof (induction ixs arbitrary: w)
  case (Cons i ixs)
  show ?case
    unfolding create_indexes.simps wp_bind
    by (rule wp_call [OF indexes]) (auto intro: wp_call [OF Cons.IH])
qed simp

lemma drop_keeps:
  assumes "old_or_new V w stage documents v" and "stage \<noteq> COLLECTION_NAME"
  shows "wp (bind (sd_drop db stage) (\<lambda>_. raise e)) (\<lambda>_ _. False) (\<lambda>_ v. old_or_new V w stage documents v) v"
  unfolding wp_bind by (rule wp_call [OF drops]) (use assms in \<open>auto simp: old_or_new_def\<close>)

lemma collection_created:
  "wp (create_crawl_seeds_collection db n) (\<lambda>_ v. V v = (V w)(n \<mapsto> [])) (\<lambda>_ v. V v = V w \<or> V v = (V w)(n \<mapsto> [])) w"
  unfolding create_crawl_seeds_collection_def ensure_seed_indexes_def wp_bind
  by (rule wp_call [OF creates]) (auto intro: wp_call [OF indexes_kept])

lemma staged_keeps: "stage \<noteq> COLLECTION_NAME \<Longrightarrow> V v = V w \<or> (\<exists>ds. V v = (V w)(stage \<mapsto> ds)) \<Longrightarrow> old_or_new V w stage documents v"
  by (auto simp: old_or_new_def)

lemma staging:
  assumes "stage \<noteq> COLLECTION_NAME" and "documents \<noteq> []" and "distinct (map (fld ''_id'') documents)"
    and "\<forall>i \<in> set documents. storable i"
  shows "wp (stage_and_replace u ix db stage documents)
     (\<lambda>_ v. old_or_new V w stage documents v \<and> V v stage = None \<and> holds_exactly (V v COLLECTION_NAME) documents)
     (\<lambda>_ v. old_or_new V w stage documents v) w"
  unfolding stage_and_replace_def wp_catch
proof (rule wp_call)
  fix e v assume "old_or_new V w stage documents v"
  then show "wp (bind (sd_drop db stage) (\<lambda>_. raise e))
      (\<lambda>_ v. old_or_new V w stage documents v \<and> V v stage = None \<and> holds_exactly (V v COLLECTION_NAME) documents)
      (\<lambda>_ v. old_or_new V w stage documents v) v"
    by (intro wp_call [OF drop_keeps [OF _ assms(1)]]) auto
next
  let ?Q = "\<lambda>_ v. old_or_new V w stage documents v \<and> V v stage = None \<and> holds_exactly (V v COLLECTION_NAME) documents"
  let ?E = "\<lambda>_ v. old_or_new V w stage documents v"
  have rename: "wp (sd_rename db stage COLLECTION_NAME) ?Q ?E v"
    if v: "V v = (V w)(stage \<mapsto> ds)" "list_all2 stored_form ds (by_id documents)" for v ds
  proof -
    have at: "V v stage = Some ds" by (simp add: v(1))
    show ?thesis
      by (rule wp_call [OF renames [OF at assms(1)]]) (use v assms(1) in \<open>auto simp: old_or_new_def holds_exactly_def\<close>)
  qed
  have checks: "wp (bind (sd_count db stage) (\<lambda>n. bind (sd_distinct_ids db stage) (\<lambda>is. bind (require (P n is) e1) (\<lambda>_.
      bind (sd_validate db stage) (\<lambda>valid. bind (require valid e2) (\<lambda>_. bind (sd_rename db stage COLLECTION_NAME) (\<lambda>_. ret x))))))) ?Q ?E v"
    if v: "V v = (V w)(stage \<mapsto> ds)" "list_all2 stored_form ds (by_id documents)" for v ds P e1 e2 x
    unfolding wp_bind
  proof (rule wp_call [OF counts], goal_cases)
    case (1 k v1)
    then have v1: "V v1 = (V w)(stage \<mapsto> ds)" using v(1) by simp
    show ?case
    proof (rule wp_call [OF ids], goal_cases)
      case (1 found v2)
      then have v2: "V v2 = (V w)(stage \<mapsto> ds)" using v1 by simp
      have "wp (sd_validate db stage) (\<lambda>valid. wp (require valid e2) (\<lambda>_. wp (sd_rename db stage COLLECTION_NAME) (\<lambda>_. wp (ret x) ?Q ?E) ?E) ?E) ?E v2"
      proof (rule wp_call [OF validates], goal_cases)
        case (1 valid v3)
        then have v3: "V v3 = (V w)(stage \<mapsto> ds)" using v2 by simp
        have "?E e v3" for e by (rule staged_keeps [OF assms(1)]) (use v3 in blast)
        then show ?case using rename [OF v3 v(2)] by (simp add: wp_ret_eta)
      qed (use v2 staged_keeps [OF assms(1)] in auto)
      moreover have "?E e v2" for e by (rule staged_keeps [OF assms(1)]) (use v2 in blast)
      ultimately show ?case by simp
    qed (use v1 staged_keeps [OF assms(1)] in auto)
  qed (use v staged_keeps [OF assms(1)] in auto)
  show "wp (bind (create_crawl_seeds_collection db stage) (\<lambda>_. bind (write_seed_documents u ix db stage documents) (\<lambda>result.
        bind (sd_count db stage) (\<lambda>actual_count. bind (sd_distinct_ids db stage) (\<lambda>actual_ids.
        bind (require (actual_count = length documents \<and> sort actual_ids = sort (map (\<lambda>d. vstr (fld ''_id'' d)) documents))
          (RuntimeError ''staged crawl seed collection is incomplete; target was not replaced'')) (\<lambda>_.
        bind (sd_validate db stage) (\<lambda>valid.
        bind (require valid (RuntimeError ''staged crawl seed collection failed MongoDB validation'')) (\<lambda>_.
        bind (sd_rename db stage COLLECTION_NAME) (\<lambda>_. ret result)))))))))
     ?Q ?E w"
    unfolding wp_bind [of "create_crawl_seeds_collection db stage"]
  proof (rule wp_call [OF collection_created], goal_cases)
    case (1 x v)
    then have at: "V v stage = Some []" by simp
    show ?case
      unfolding wp_bind [of "write_seed_documents u ix db stage documents"]
    proof (rule wp_call [OF write_fresh [where u = u and ix = ix, OF at assms(2-4)]], goal_cases)
      case (1 r v')
      then obtain ds where "V v' = (V w)(stage \<mapsto> ds)" "list_all2 stored_form ds (by_id documents)"
        using \<open>V v = (V w)(stage \<mapsto> [])\<close> by auto
      then show ?case by (rule checks)
    next
      case (2 e v')
      then show ?case using \<open>V v = (V w)(stage \<mapsto> [])\<close> by (intro staged_keeps [OF assms(1)]) auto
    qed
  qed (use staged_keeps [OF assms(1)] in blast)
qed

lemma rebuilding:
  assumes "\<forall>i \<in> set documents. storable i"
  shows "wp (rebuild_database u ix parse_uri db database_name documents mongo_uri confirmation environ stage)
     (\<lambda>_ v. old_or_new V w stage documents v \<and> V v stage = None \<and> holds_exactly (V v COLLECTION_NAME) documents \<and>
        (\<exists>target. parse_local_mongo_target u parse_uri mongo_uri = Inr target \<and>
           require_rebuild_authorization u target confirmation environ = Inr ()))
     (\<lambda>_ v. old_or_new V w stage documents v) w"
proof -
  have self: "old_or_new V w s ds w" for s ds by (simp add: old_or_new_def)
  have "wp (bind (sd_list_names db) (\<lambda>names. bind (require (stage \<notin> set names) e) (\<lambda>_. stage_and_replace u ix db stage documents)))
      (\<lambda>_ v. old_or_new V w stage documents v \<and> V v stage = None \<and> holds_exactly (V v COLLECTION_NAME) documents)
      (\<lambda>_ v. old_or_new V w stage documents v) w"
    if "stage \<noteq> COLLECTION_NAME" "documents \<noteq> []" "distinct (map (fld ''_id'') documents)" for e
    unfolding wp_bind [of "sd_list_names db"]
  proof (rule wp_call [OF list_names], goal_cases)
    case (1 names v)
    then have v: "V v = V w" by simp
    have same: "old_or_new V v stage documents = old_or_new V w stage documents" by (simp add: old_or_new_def fun_eq_iff v)
    have "old_or_new V w stage documents v" using v by (simp add: old_or_new_def)
    then show ?case using staging [OF that assms, of u ix v] by (simp add: same)
  qed (auto simp: old_or_new_def)
  note run = this
  show ?thesis
  proof (cases "parse_local_mongo_target u parse_uri mongo_uri")
    case (Inr target)
    show ?thesis
    proof (cases "require_rebuild_authorization u target confirmation environ")
      case auth: (Inr x)
      have "wp (bind (sd_list_names db) (\<lambda>names. bind (require (stage \<notin> set names) e) (\<lambda>_. stage_and_replace u ix db stage documents)))
        (\<lambda>_ v. old_or_new V w stage documents v \<and> V v stage = None \<and> holds_exactly (V v COLLECTION_NAME) documents \<and>
          (\<exists>target. parse_local_mongo_target u parse_uri mongo_uri = Inr target \<and>
           require_rebuild_authorization u target confirmation environ = Inr ()))
        (\<lambda>_ v. old_or_new V w stage documents v) w"
        if "stage \<noteq> COLLECTION_NAME" "documents \<noteq> []" "distinct (map (fld ''_id'') documents)" for e
        by (rule wp_call [OF run [OF that]]) (use Inr auth in auto)
      then show ?thesis
        using Inr auth self by (simp add: rebuild_database_def lift_bind require_def del: wp_bind)
    qed (use Inr self in \<open>simp add: rebuild_database_def\<close>)
  qed (use self in \<open>simp add: rebuild_database_def\<close>)
qed

end

interpretation mem_store: seed_store "mem_seed_db names" "mem_content names" snd py_doc agg_run agg
  by unfold_locales

text \<open>
  C32. A rebuild is all or nothing: whichever call fails, and whether or not it was carried out, the catalog
  holds its old documents or exactly the given ones, and no other collection but the stage has changed. When
  the rebuild returns, the new catalog is in place, the stage is gone, and the target and the operator's
  confirmation have been checked.
\<close>

theorem rebuild_is_all_or_nothing:
  assumes "seed_store db V S decode run ev" and "\<forall>i \<in> set documents. storable i"
    and "rebuild_database u ix parse_uri db database_name documents mongo_uri confirmation environ stage w = (r, v)"
  shows "(\<forall>n. n \<noteq> COLLECTION_NAME \<longrightarrow> n \<noteq> stage \<longrightarrow> V v n = V w n) \<and>
     (V v COLLECTION_NAME = V w COLLECTION_NAME \<or> holds_exactly (V v COLLECTION_NAME) documents) \<and>
     (\<forall>result. r = Inr result \<longrightarrow> holds_exactly (V v COLLECTION_NAME) documents \<and> V v stage = None \<and>
        (\<exists>target. parse_local_mongo_target u parse_uri mongo_uri = Inr target \<and>
           require_rebuild_authorization u target confirmation environ = Inr ()))"
  using seed_store.rebuilding [OF assms(1,2), of u ix parse_uri database_name mongo_uri confirmation environ stage w] assms(3)
  by (cases r) (auto simp: wp_def old_or_new_def)

theorem rebuild_is_all_or_nothing_witness:
  "\<exists>d r v. new_seed_document plain_ucd no_alabels (py ''HTTPS://A.com:443/%7e ?q#f'') (example_source ''k1'' 0) True None = Inr d \<and>
     rebuild_database plain_ucd no_alabels (\<lambda>_. Inr \<lparr>pu_nodelist = [(py ''mongo'', Some 27017)], pu_database = Some (py DATABASE_NAME)\<rparr>)
       (mem_seed_db [COLLECTION_NAME, ''stage'']) DATABASE_NAME [d] (py ''mongodb://mongo/mifolyo_index'')
       (py ''mongo:27017/mifolyo_index/crawl_seeds'') (\<lambda>_. Some (py ''test'')) ''stage'' ((\<lambda>_. None)(COLLECTION_NAME \<mapsto> []), \<lambda>_. ([], [])) = (r, v) \<and>
     (mem_content [COLLECTION_NAME, ''stage''] v COLLECTION_NAME = Some [] \<or>
      holds_exactly (mem_content [COLLECTION_NAME, ''stage''] v COLLECTION_NAME) [d])"
proof -
  obtain d where d: "new_seed_document plain_ucd no_alabels (py ''HTTPS://A.com:443/%7e ?q#f'') (example_source ''k1'' 0) True None = Inr d"
    "sources_of d = [example_source ''k1'' 0]"
    by (rule example_seeds) blast
  then have "\<forall>i \<in> set [d]. storable i" using example_seeds_storable by auto
  note rb = rebuild_is_all_or_nothing [OF mem_store.seed_store_axioms this]
  let ?w = "((\<lambda>_. None)(COLLECTION_NAME \<mapsto> []), \<lambda>_. ([], []))"
  obtain r v where run: "rebuild_database plain_ucd no_alabels
      (\<lambda>_. Inr \<lparr>pu_nodelist = [(py ''mongo'', Some 27017)], pu_database = Some (py DATABASE_NAME)\<rparr>)
      (mem_seed_db [COLLECTION_NAME, ''stage'']) DATABASE_NAME [d] (py ''mongodb://mongo/mifolyo_index'')
      (py ''mongo:27017/mifolyo_index/crawl_seeds'') (\<lambda>_. Some (py ''test'')) ''stage'' ?w = (r, v)"
    by (rule that [OF prod.collapse [symmetric]])
  have "mem_content [COLLECTION_NAME, ''stage''] ?w COLLECTION_NAME = Some []" by (simp add: mem_content_def)
  then have "mem_content [COLLECTION_NAME, ''stage''] v COLLECTION_NAME = Some [] \<or>
      holds_exactly (mem_content [COLLECTION_NAME, ''stage''] v COLLECTION_NAME) [d]"
    using rb [OF run] by simp
  then show ?thesis using d(1) run by blast
qed

end
