(* ===== verification/Seed_Feed.thy ===== *)
theory Seed_Feed
  imports Seed_Catalog Redis_Client Complex_Main
begin

text \<open>
  \<open>feed.py\<close>: the enabled seeds of the catalog go to the crawl frontier in Redis, three keys that hold a
  score, a URL and a depth for every URL identifier; the disabled ones are taken out of it. Each batch is one
  Lua script, which Redis runs alone. The Redis commands, MongoDB and the network are the parameter
  \<open>feed_env\<close>; the interface \<open>frontier_store\<close> says what its commands do, and is interpreted on a keyspace.
\<close>

section \<open>Keys and scores\<close>

definition QUEUE_KEY :: bytes where "QUEUE_KEY = py ''mifolyo:crawl:v1:queue''"
definition URLS_KEY :: bytes where "URLS_KEY = py ''mifolyo:crawl:v1:urls''"
definition DEPTHS_KEY :: bytes where "DEPTHS_KEY = py ''mifolyo:crawl:v1:depths''"

lemma feed_keys_differ [simp]:
  "QUEUE_KEY \<noteq> URLS_KEY" "QUEUE_KEY \<noteq> DEPTHS_KEY" "URLS_KEY \<noteq> DEPTHS_KEY"
  "URLS_KEY \<noteq> QUEUE_KEY" "DEPTHS_KEY \<noteq> QUEUE_KEY" "DEPTHS_KEY \<noteq> URLS_KEY"
  by (simp_all add: QUEUE_KEY_def URLS_KEY_def DEPTHS_KEY_def py_def)

text \<open>
  A score is a double, in Python, in Lua and in a sorted set. On the way between them it is a text that is
  read back as the same double.
\<close>

datatype score = NaN | NegInf | Fin rat | PosInf

instantiation score :: ord
begin

definition less_score :: "score \<Rightarrow> score \<Rightarrow> bool" where
  "less_score x y =
     (case x of
        NaN \<Rightarrow> False
      | NegInf \<Rightarrow> y \<noteq> NaN \<and> y \<noteq> NegInf
      | Fin a \<Rightarrow> (case y of Fin b \<Rightarrow> a < b | PosInf \<Rightarrow> True | _ \<Rightarrow> False)
      | PosInf \<Rightarrow> False)"

definition less_eq_score :: "score \<Rightarrow> score \<Rightarrow> bool" where
  "less_eq_score x y \<longleftrightarrow> x < y \<or> x = y \<and> x \<noteq> NaN"

instance ..

end

fun is_finite_number :: "score \<Rightarrow> bool" where
  "is_finite_number (Fin a) = True"
| "is_finite_number _ = False"

lemma fin_order [simp]: "Fin a < Fin b \<longleftrightarrow> a < b" "Fin a \<le> Fin b \<longleftrightarrow> a \<le> b"
  by (auto simp: less_score_def less_eq_score_def)

text \<open>
  The canonical decimal of a depth. \<open>tonumber\<close> of a number above \<open>MAX_LUA_INTEGER\<close> is rounded, but not to
  one at or below it.
\<close>

definition parse_canonical_depth :: "bytes \<Rightarrow> nat option" where
  "parse_canonical_depth value =
     (if value = py ''0'' then Some 0
      else if \<not> positive_decimal value then None
      else if decimal_value value > MAX_LUA_INTEGER then None
      else Some (decimal_value value))"

section \<open>Redis and MongoDB\<close>

text \<open>
  \<open>fe_find enabled limit\<close> is the sorted query of the catalog, \<open>0\<close> for no limit: the documents the cursor
  delivers and the exception that ends it early, if one does. \<open>fe_net\<close> is what happens to a call
  of a script, and what other clients do before it.
\<close>

record 'w feed_env =
  fe_type :: "bytes \<Rightarrow> 'w \<Rightarrow> string"
  fe_hget :: "bytes \<Rightarrow> bytes \<Rightarrow> 'w \<Rightarrow> bytes option"
  fe_zscore :: "bytes \<Rightarrow> bytes \<Rightarrow> 'w \<Rightarrow> score option"
  fe_hset :: "bytes \<Rightarrow> bytes \<Rightarrow> bytes \<Rightarrow> 'w \<Rightarrow> 'w"
  fe_hdel :: "bytes \<Rightarrow> bytes \<Rightarrow> 'w \<Rightarrow> 'w"
  fe_zadd :: "bytes \<Rightarrow> score \<Rightarrow> bytes \<Rightarrow> 'w \<Rightarrow> 'w"
  fe_zrem :: "bytes \<Rightarrow> bytes \<Rightarrow> 'w \<Rightarrow> 'w"
  fe_net :: "'w \<Rightarrow> delivery \<times> 'w"
  fe_mongo :: "('w, unit) prog"
  fe_redis :: "('w, unit) prog"
  fe_find :: "bool \<Rightarrow> nat \<Rightarrow> ('w, pydict list \<times> exn option) prog"

definition eval_script :: "('w, 'z) feed_env_scheme \<Rightarrow> ('w, 'a) prog \<Rightarrow> ('w, 'a) prog" where
  "eval_script E script w =
     (case fe_net E w of
        (Delivered, v) \<Rightarrow> script v
      | (RequestLost, v) \<Rightarrow> (Inl connection_lost, v)
      | (ReplyLost, v) \<Rightarrow> (Inl connection_lost, snd (script v)))"

section \<open>The scripts\<close>

definition check_key_types :: "('w, 'z) feed_env_scheme \<Rightarrow> ('w, unit) prog" where
  "check_key_types E =
     bind (check (\<lambda>w. fe_type E QUEUE_KEY w = ''none'' \<or> fe_type E QUEUE_KEY w = ''zset'') ''INVALID_QUEUE_KEY_TYPE'') (\<lambda>_.
     bind (check (\<lambda>w. fe_type E URLS_KEY w = ''none'' \<or> fe_type E URLS_KEY w = ''hash'') ''INVALID_URLS_KEY_TYPE'') (\<lambda>_.
     check (\<lambda>w. fe_type E DEPTHS_KEY w = ''none'' \<or> fe_type E DEPTHS_KEY w = ''hash'') ''INVALID_DEPTHS_KEY_TYPE''))"

text \<open>Four arguments of \<open>ENQUEUE_SCRIPT\<close>.\<close>

record enqueue_entry =
  ee_id :: bytes
  ee_url :: bytes
  ee_score :: score
  ee_depth :: bytes

definition check_entry :: "('w, 'z) feed_env_scheme \<Rightarrow> enqueue_entry \<Rightarrow> ('w, unit) prog" where
  "check_entry E a =
     bind (get_state (fe_hget E URLS_KEY (ee_id a))) (\<lambda>existing_url.
     bind (get_state (fe_zscore E QUEUE_KEY (ee_id a))) (\<lambda>existing_score.
     bind (get_state (fe_hget E DEPTHS_KEY (ee_id a))) (\<lambda>existing_depth.
     if (case existing_url of None \<Rightarrow> False | Some url \<Rightarrow> url \<noteq> ee_url a) then reject ''URL_ID_COLLISION''
     else if \<not> is_finite_number (ee_score a) then reject ''INVALID_QUEUE_SCORE''
     else if (case existing_score of None \<Rightarrow> False | Some s \<Rightarrow> \<not> is_finite_number s) then reject ''INVALID_EXISTING_SCORE''
     else if parse_canonical_depth (ee_depth a) = None then reject ''INVALID_CRAWL_DEPTH''
     else if (case existing_depth of None \<Rightarrow> False | Some d \<Rightarrow> parse_canonical_depth d = None) then reject ''INVALID_EXISTING_DEPTH''
     else ret ())))"

text \<open>A depth that the first loop accepted is a number.\<close>

definition apply_entry :: "('w, 'z) feed_env_scheme \<Rightarrow> enqueue_entry \<Rightarrow> ('w, unit) prog" where
  "apply_entry E a =
     (let depth = the (parse_canonical_depth (ee_depth a)) in
      bind (get_state (fe_zscore E QUEUE_KEY (ee_id a))) (\<lambda>existing_score.
      bind (get_state (fe_hget E DEPTHS_KEY (ee_id a))) (\<lambda>existing_depth.
      bind (mod_state (fe_hset E URLS_KEY (ee_id a) (ee_url a))) (\<lambda>_.
      bind (if (case existing_score of None \<Rightarrow> True | Some s \<Rightarrow> ee_score a < s)
            then mod_state (fe_zadd E QUEUE_KEY (ee_score a) (ee_id a)) else ret ()) (\<lambda>_.
      if existing_score = None \<or> (case existing_depth of None \<Rightarrow> True | Some d \<Rightarrow> depth < decimal_value d)
      then mod_state (fe_hset E DEPTHS_KEY (ee_id a) (show_nat depth)) else ret ())))))"

primrec for_each :: "('a \<Rightarrow> ('w, unit) prog) \<Rightarrow> 'a list \<Rightarrow> ('w, unit) prog" where
  "for_each f [] = ret ()"
| "for_each f (x # xs) = bind (f x) (\<lambda>_. for_each f xs)"

definition ENQUEUE_SCRIPT :: "('w, 'z) feed_env_scheme \<Rightarrow> enqueue_entry list \<Rightarrow> ('w, nat) prog" where
  "ENQUEUE_SCRIPT E entries =
     bind (check_key_types E) (\<lambda>_.
     bind (for_each (check_entry E) entries) (\<lambda>_.
     bind (for_each (apply_entry E) entries) (\<lambda>_. ret (length entries))))"

definition check_removal :: "('w, 'z) feed_env_scheme \<Rightarrow> bytes \<times> bytes \<Rightarrow> ('w, unit) prog" where
  "check_removal E a =
     bind (get_state (fe_hget E URLS_KEY (fst a))) (\<lambda>existing_url.
     if (case existing_url of None \<Rightarrow> False | Some url \<Rightarrow> url \<noteq> snd a) then reject ''URL_ID_COLLISION'' else ret ())"

definition apply_removal :: "('w, 'z) feed_env_scheme \<Rightarrow> bytes \<times> bytes \<Rightarrow> ('w, unit) prog" where
  "apply_removal E a =
     bind (mod_state (fe_zrem E QUEUE_KEY (fst a))) (\<lambda>_.
     bind (mod_state (fe_hdel E URLS_KEY (fst a))) (\<lambda>_. mod_state (fe_hdel E DEPTHS_KEY (fst a))))"

definition REMOVE_DISABLED_SCRIPT :: "('w, 'z) feed_env_scheme \<Rightarrow> (bytes \<times> bytes) list \<Rightarrow> ('w, nat) prog" where
  "REMOVE_DISABLED_SCRIPT E entries =
     bind (check_key_types E) (\<lambda>_.
     bind (for_each (check_removal E) entries) (\<lambda>_.
     bind (for_each (apply_removal E) entries) (\<lambda>_. ret (length entries))))"

section \<open>Seeds\<close>

record feed_seed =
  cs_id :: pystr
  cs_canonical_url :: pystr
  cs_priority :: pyval

record feed_stats =
  fs_seen :: nat
  fs_skipped_invalid :: nat
  fs_prepared :: nat
  fs_enqueued :: nat
  fs_disabled_seen :: nat
  fs_disabled_reconciled :: nat

definition no_stats :: feed_stats where
  "no_stats = \<lparr>fs_seen = 0, fs_skipped_invalid = 0, fs_prepared = 0, fs_enqueued = 0, fs_disabled_seen = 0,
     fs_disabled_reconciled = 0\<rparr>"

definition redis_score :: "pyval \<Rightarrow> exn + score" where
  "redis_score priority =
     (case priority of
        VInt p \<Rightarrow> if p \<in> {1, 2, 3} then Inr (Fin (of_int (p - 1))) else Inl (ValueError ''priority must be 1, 2, or 3'')
      | _ \<Rightarrow> Inl (ValueError ''priority must be 1, 2, or 3''))"

definition seed_from_document :: "ucd \<Rightarrow> idna \<Rightarrow> pydict \<Rightarrow> exn + feed_seed" where
  "seed_from_document u ix document =
     (case (fld ''_id'' document, fld ''canonical_url'' document) of
        (VStr url_id, VStr canonical_url) \<Rightarrow>
          bindE (requireE (case fld ''priority'' document of VInt _ \<Rightarrow> True | _ \<Rightarrow> False)
            (ValueError ''seed priority is not an integer'')) (\<lambda>_.
          bindE (case identify_url u ix canonical_url of
                   Inl (URLCanonicalizationError code) \<Rightarrow> Inl (ValueError (''invalid stored canonical URL: '' @ code))
                 | Inl e \<Rightarrow> Inl e
                 | Inr identity \<Rightarrow> Inr identity) (\<lambda>identity.
          bindE (requireE (ui_canonical_url identity = canonical_url \<and> ui_url_id identity = url_id)
            (ValueError ''stored canonical URL and V1 ID do not match'')) (\<lambda>_.
          bindE (requireE (ui_crawl_eligible identity) (ValueError ''stored URL is not crawl eligible'')) (\<lambda>_.
          bindE (redis_score (fld ''priority'' document)) (\<lambda>_.
          Inr \<lparr>cs_id = url_id, cs_canonical_url = canonical_url, cs_priority = fld ''priority'' document\<rparr>)))))
      | _ \<Rightarrow> Inl (ValueError ''seed is missing its V1 ID or canonical URL''))"

text \<open>
  A generator is the list of its pulls. A pull counts the record it reads and gives a seed, or nothing for
  a record that is skipped.
\<close>

type_synonym pull = "feed_stats \<Rightarrow> exn + feed_seed option \<times> feed_stats"

definition pull_seed :: "ucd \<Rightarrow> idna \<Rightarrow> (feed_stats \<Rightarrow> feed_stats) \<Rightarrow> pydict \<Rightarrow> pull" where
  "pull_seed u ix tick document stats =
     (let stats' = tick stats in
      case seed_from_document u ix document of
        Inr seed \<Rightarrow> Inr (Some seed, stats')
      | Inl e \<Rightarrow> if is_value_error e then Inr (None, stats'\<lparr>fs_skipped_invalid := fs_skipped_invalid stats' + 1\<rparr>) else Inl e)"

definition pulls :: "(pydict \<Rightarrow> pull) \<Rightarrow> pydict list \<times> exn option \<Rightarrow> pull list" where
  "pulls p cursor = map p (fst cursor) @ (case snd cursor of None \<Rightarrow> [] | Some e \<Rightarrow> [\<lambda>_. Inl e])"

definition count_seen :: "feed_stats \<Rightarrow> feed_stats" where
  "count_seen s = s\<lparr>fs_seen := fs_seen s + 1\<rparr>"

definition count_disabled :: "feed_stats \<Rightarrow> feed_stats" where
  "count_disabled s = s\<lparr>fs_disabled_seen := fs_disabled_seen s + 1\<rparr>"

definition iter_mongo_seeds :: "ucd \<Rightarrow> idna \<Rightarrow> ('w, 'z) feed_env_scheme \<Rightarrow> nat \<Rightarrow> ('w, pull list) prog" where
  "iter_mongo_seeds u ix E limit =
     bind (fe_find E True limit) (\<lambda>cursor.
     ret (pulls (pull_seed u ix count_seen) cursor))"

definition iter_mongo_disabled_seeds :: "ucd \<Rightarrow> idna \<Rightarrow> ('w, 'z) feed_env_scheme \<Rightarrow> ('w, pull list) prog" where
  "iter_mongo_disabled_seeds u ix E =
     bind (fe_find E False 0) (\<lambda>cursor.
     ret (pulls (pull_seed u ix count_disabled) cursor))"

section \<open>Batches\<close>

text \<open>The client sends an argument as UTF-8; the depth of a seed is 0.\<close>

definition enqueue_argument :: "pystr \<times> pystr \<times> score \<Rightarrow> exn + enqueue_entry" where
  "enqueue_argument = (\<lambda>(url_id, canonical_url, score).
     bindE (encode_arg url_id) (\<lambda>i. bindE (encode_arg canonical_url) (\<lambda>c.
     Inr \<lparr>ee_id = i, ee_url = c, ee_score = score, ee_depth = show_nat 0\<rparr>)))"

definition enqueue_batch ::
    "('w, 'z) feed_env_scheme \<Rightarrow> (pystr, pystr \<times> score) dict \<Rightarrow> bool \<Rightarrow> ('w, nat) prog" where
  "enqueue_batch E members dry_run =
     (if members = [] then ret 0
      else if dry_run then ret (length members)
      else bind (lift (mapE enqueue_argument (sort_key fst members))) (\<lambda>arguments.
        bind (eval_script E (ENQUEUE_SCRIPT E arguments)) (\<lambda>result.
        bind (require (result = length members) (RuntimeError ''Redis accepted too few crawl seed entries'')) (\<lambda>_. ret result))))"

definition removal_argument :: "pystr \<times> pystr \<Rightarrow> exn + bytes \<times> bytes" where
  "removal_argument = (\<lambda>(url_id, canonical_url).
     bindE (encode_arg url_id) (\<lambda>i. bindE (encode_arg canonical_url) (\<lambda>c. Inr (i, c))))"

definition reconcile_disabled_batch :: "('w, 'z) feed_env_scheme \<Rightarrow> (pystr, pystr) dict \<Rightarrow> bool \<Rightarrow> ('w, nat) prog" where
  "reconcile_disabled_batch E members dry_run =
     (if members = [] then ret 0
      else if dry_run then ret (length members)
      else bind (lift (mapE removal_argument (sort_key fst members))) (\<lambda>arguments.
        bind (eval_script E (REMOVE_DISABLED_SCRIPT E arguments)) (\<lambda>result.
        bind (require (result = length members) (RuntimeError ''Redis reconciled too few disabled entries'')) (\<lambda>_. ret result))))"

primrec reconcile_loop ::
    "('w, 'z) feed_env_scheme \<Rightarrow> int \<Rightarrow> bool \<Rightarrow> feed_stats \<Rightarrow> (pystr, pystr) dict \<Rightarrow> pull list \<Rightarrow> ('w, feed_stats) prog" where
  "reconcile_loop E batch_size dry_run stats pending [] =
     bind (reconcile_disabled_batch E pending dry_run) (\<lambda>n.
     ret (stats\<lparr>fs_disabled_reconciled := fs_disabled_reconciled stats + n\<rparr>))"
| "reconcile_loop E batch_size dry_run stats pending (p # ps) =
     bind (lift (p stats)) (\<lambda>(pulled, stats').
     case pulled of
       None \<Rightarrow> reconcile_loop E batch_size dry_run stats' pending ps
     | Some seed \<Rightarrow>
         bind (require (case map_of pending (cs_id seed) of None \<Rightarrow> True | Some url \<Rightarrow> url = cs_canonical_url seed)
           (ValueError ''conflicting canonical URLs for URL ID'')) (\<lambda>_.
         let pending' = AList.update (cs_id seed) (cs_canonical_url seed) pending in
         if int (length pending') \<ge> batch_size
         then bind (reconcile_disabled_batch E pending' dry_run) (\<lambda>n.
              reconcile_loop E batch_size dry_run (stats'\<lparr>fs_disabled_reconciled := fs_disabled_reconciled stats' + n\<rparr>) [] ps)
         else reconcile_loop E batch_size dry_run stats' pending' ps))"

definition reconcile_disabled_seeds ::
    "('w, 'z) feed_env_scheme \<Rightarrow> ('w, pull list) prog \<Rightarrow> int \<Rightarrow> bool \<Rightarrow> feed_stats \<Rightarrow> ('w, feed_stats) prog" where
  "reconcile_disabled_seeds E seeds batch_size dry_run stats =
     bind seeds (\<lambda>ps. reconcile_loop E batch_size dry_run stats [] ps)"

primrec feed_loop ::
    "('w, 'z) feed_env_scheme \<Rightarrow> int \<Rightarrow> bool \<Rightarrow> feed_stats \<Rightarrow> (pystr, pystr \<times> score) dict \<Rightarrow> pull list \<Rightarrow> ('w, feed_stats) prog" where
  "feed_loop E batch_size dry_run stats pending [] =
     bind (enqueue_batch E pending dry_run) (\<lambda>n. ret (stats\<lparr>fs_enqueued := fs_enqueued stats + n\<rparr>))"
| "feed_loop E batch_size dry_run stats pending (p # ps) =
     bind (lift (p stats)) (\<lambda>(pulled, stats').
     case pulled of
       None \<Rightarrow> feed_loop E batch_size dry_run stats' pending ps
     | Some seed \<Rightarrow>
         bind (lift (redis_score (cs_priority seed))) (\<lambda>score.
         let existing = map_of pending (cs_id seed) in
         bind (require (case existing of None \<Rightarrow> True | Some (url, _) \<Rightarrow> url = cs_canonical_url seed)
           (ValueError ''conflicting canonical URLs for URL ID'')) (\<lambda>_.
         let pending' = (if (case existing of None \<Rightarrow> True | Some (_, old) \<Rightarrow> score < old)
                         then AList.update (cs_id seed) (cs_canonical_url seed, score) pending else pending);
             stats'' = stats'\<lparr>fs_prepared := fs_prepared stats' + 1\<rparr> in
         if int (length pending') \<ge> batch_size
         then bind (enqueue_batch E pending' dry_run) (\<lambda>n.
              feed_loop E batch_size dry_run (stats''\<lparr>fs_enqueued := fs_enqueued stats'' + n\<rparr>) [] ps)
         else feed_loop E batch_size dry_run stats'' pending' ps)))"

definition feed_seeds ::
    "('w, 'z) feed_env_scheme \<Rightarrow> ('w, pull list) prog \<Rightarrow> int \<Rightarrow> bool \<Rightarrow> feed_stats \<Rightarrow> ('w, feed_stats) prog" where
  "feed_seeds E seeds batch_size dry_run stats =
     bind (require (1 \<le> batch_size) (ValueError ''batch_size must be at least 1'')) (\<lambda>_.
     bind seeds (\<lambda>ps. feed_loop E batch_size dry_run stats [] ps))"

section \<open>main\<close>

record feed_args =
  fa_limit :: int
  fa_batch_size :: int
  fa_dry_run :: bool

text \<open>
  \<open>fe_mongo\<close> and \<open>fe_redis\<close> connect and ping. The value is the exit code and, after a complete run, the counts
  that are logged.
\<close>

definition feed_main :: "ucd \<Rightarrow> idna \<Rightarrow> ('w, 'z) feed_env_scheme \<Rightarrow> feed_args \<Rightarrow> ('w, nat \<times> feed_stats option) prog" where
  "feed_main u ix E args =
     (if fa_limit args < 0 \<or> fa_batch_size args < 1 then ret (1, None)
      else catch
        (bind (fe_mongo E) (\<lambda>_.
         bind (if fa_dry_run args then ret () else fe_redis E) (\<lambda>_.
         bind (reconcile_disabled_seeds E (iter_mongo_disabled_seeds u ix E) (fa_batch_size args) (fa_dry_run args) no_stats) (\<lambda>stats.
         bind (feed_seeds E (iter_mongo_seeds u ix E (nat (fa_limit args))) (fa_batch_size args) (fa_dry_run args) stats) (\<lambda>stats'.
         ret (0, Some stats'))))))
        (\<lambda>_. ret (2, None)))"

end
