(* ===== verification/Feed_Frontier.thy ===== *)
theory Feed_Frontier
  imports Seed_Feed
begin

text \<open>
  What \<open>feed.py\<close> does to the crawl frontier: the interface to Redis, the frontier as three maps with the
  operations \<open>offer\<close> and \<open>retract\<close>, and that each script is a sequence of these operations or nothing at all.
\<close>

section \<open>The keyspace\<close>

datatype fvalue = FHash "(bytes, bytes) dict" | FZset "(bytes, score) dict" | FOther string

type_synonym fdb = "bytes \<Rightarrow> fvalue option"

fun ftype :: "fvalue option \<Rightarrow> string" where
  "ftype None = ''none''"
| "ftype (Some (FHash _)) = ''hash''"
| "ftype (Some (FZset _)) = ''zset''"
| "ftype (Some (FOther t)) = t"

fun fhash :: "fvalue option \<Rightarrow> bytes \<rightharpoonup> bytes" where
  "fhash (Some (FHash h)) = map_of h"
| "fhash _ = Map.empty"

fun fzset :: "fvalue option \<Rightarrow> bytes \<rightharpoonup> score" where
  "fzset (Some (FZset z)) = map_of z"
| "fzset _ = Map.empty"

definition hash_or_none :: "fvalue option \<Rightarrow> bool" where
  "hash_or_none v \<longleftrightarrow> ftype v = ''none'' \<or> ftype v = ''hash''"

definition zset_or_none :: "fvalue option \<Rightarrow> bool" where
  "zset_or_none v \<longleftrightarrow> ftype v = ''none'' \<or> ftype v = ''zset''"

text \<open>
  What the scripts rely on: a command on a key of its type, or on no key, reads or changes the map of that
  key; the key goes away with its last field.
\<close>

locale frontier_store =
  fixes E :: "('w, 'z) feed_env_scheme"
    and V :: "'w \<Rightarrow> fdb"
  assumes types: "fe_type E k w = ftype (V w k)"
    and hgets: "hash_or_none (V w k) \<Longrightarrow> fe_hget E k f w = fhash (V w k) f"
    and zscores: "zset_or_none (V w k) \<Longrightarrow> fe_zscore E k f w = fzset (V w k) f"
    and hsets: "hash_or_none (V w k) \<Longrightarrow> \<exists>h. V (fe_hset E k f v w) = (V w)(k := h) \<and> hash_or_none h \<and> fhash h = (fhash (V w k))(f \<mapsto> v)"
    and hdels: "hash_or_none (V w k) \<Longrightarrow> \<exists>h. V (fe_hdel E k f w) = (V w)(k := h) \<and> hash_or_none h \<and> fhash h = (fhash (V w k))(f := None)"
    and zadds: "zset_or_none (V w k) \<Longrightarrow> \<exists>z. V (fe_zadd E k s f w) = (V w)(k := z) \<and> zset_or_none z \<and> fzset z = (fzset (V w k))(f \<mapsto> s)"
    and zrems: "zset_or_none (V w k) \<Longrightarrow> \<exists>z. V (fe_zrem E k f w) = (V w)(k := z) \<and> zset_or_none z \<and> fzset z = (fzset (V w k))(f := None)"

section \<open>The frontier\<close>

record frontier =
  fr_scores :: "bytes \<rightharpoonup> score"
  fr_urls :: "bytes \<rightharpoonup> bytes"
  fr_depths :: "bytes \<rightharpoonup> bytes"

definition frontier_of :: "fdb \<Rightarrow> frontier" where
  "frontier_of db = \<lparr>fr_scores = fzset (db QUEUE_KEY), fr_urls = fhash (db URLS_KEY), fr_depths = fhash (db DEPTHS_KEY)\<rparr>"

definition well_typed :: "fdb \<Rightarrow> bool" where
  "well_typed db \<longleftrightarrow> zset_or_none (db QUEUE_KEY) \<and> hash_or_none (db URLS_KEY) \<and> hash_or_none (db DEPTHS_KEY)"

text \<open>Nothing but the three keys has changed.\<close>

definition only_frontier :: "fdb \<Rightarrow> fdb \<Rightarrow> bool" where
  "only_frontier db db' \<longleftrightarrow> (\<forall>k. k \<noteq> QUEUE_KEY \<longrightarrow> k \<noteq> URLS_KEY \<longrightarrow> k \<noteq> DEPTHS_KEY \<longrightarrow> db' k = db k)"

lemma only_frontier_refl [simp]: "only_frontier db db" by (simp add: only_frontier_def)

lemma only_frontier_trans: "only_frontier a b \<Longrightarrow> only_frontier b c \<Longrightarrow> only_frontier a c"
  by (simp add: only_frontier_def)

definition matching :: "frontier \<Rightarrow> bytes \<Rightarrow> bytes \<Rightarrow> bool" where
  "matching f i url \<longleftrightarrow> (case fr_urls f i of None \<Rightarrow> True | Some url' \<Rightarrow> url' = url)"

definition acceptable :: "frontier \<Rightarrow> enqueue_entry \<Rightarrow> bool" where
  "acceptable f a \<longleftrightarrow> matching f (ee_id a) (ee_url a) \<and> is_finite_number (ee_score a) \<and>
     (\<forall>s. fr_scores f (ee_id a) = Some s \<longrightarrow> is_finite_number s) \<and> parse_canonical_depth (ee_depth a) \<noteq> None \<and>
     (\<forall>d. fr_depths f (ee_id a) = Some d \<longrightarrow> parse_canonical_depth d \<noteq> None)"

definition better :: "score \<Rightarrow> score option \<Rightarrow> bool" where
  "better s old \<longleftrightarrow> (case old of None \<Rightarrow> True | Some s' \<Rightarrow> s < s')"

definition nearer :: "nat \<Rightarrow> bytes option \<Rightarrow> bool" where
  "nearer n old \<longleftrightarrow> (case old of None \<Rightarrow> True | Some d \<Rightarrow> n < decimal_value d)"

definition offer :: "enqueue_entry \<Rightarrow> frontier \<Rightarrow> frontier" where
  "offer a f =
     (let i = ee_id a; n = the (parse_canonical_depth (ee_depth a)) in
      \<lparr>fr_scores = (if better (ee_score a) (fr_scores f i) then (fr_scores f)(i \<mapsto> ee_score a) else fr_scores f),
       fr_urls = (fr_urls f)(i \<mapsto> ee_url a),
       fr_depths = (if fr_scores f i = None \<or> nearer n (fr_depths f i) then (fr_depths f)(i \<mapsto> show_nat n) else fr_depths f)\<rparr>)"

definition retract :: "bytes \<Rightarrow> frontier \<Rightarrow> frontier" where
  "retract i f = \<lparr>fr_scores = (fr_scores f)(i := None), fr_urls = (fr_urls f)(i := None), fr_depths = (fr_depths f)(i := None)\<rparr>"

section \<open>The scripts as operations on the frontier\<close>

lemma wp_check [simp]: "wp (check p msg) Q E w = (if p w then Q () w else E (RedisResponseError msg) w)"
  by (simp add: check_def reject_def)

lemma wp_reject [simp]: "wp (reject msg) Q E w = E (RedisResponseError msg) w"
  by (simp add: reject_def)

text \<open>A loop of checks changes nothing; a loop of changes is a fold.\<close>

lemma wp_for_each_checks:
  assumes "\<And>x. wp (f x) (\<lambda>_ v. v = w \<and> P x) (\<lambda>_ v. v = w \<and> \<not> P x) w"
  shows "wp (for_each f xs) (\<lambda>_ v. v = w \<and> (\<forall>x \<in> set xs. P x)) (\<lambda>_ v. v = w \<and> \<not> (\<forall>x \<in> set xs. P x)) w"
proof (induction xs)
  case (Cons x xs)
  have "wp (f x) (\<lambda>_ v. v = w \<and> P x) (\<lambda>_ v. v = w \<and> \<not> P x) w" by (rule assms)
  then show ?case
    unfolding for_each.simps wp_bind
    by (rule wp_call) (use Cons in \<open>auto elim!: wp_call\<close>)
qed simp

lemma wp_for_each_fold:
  assumes "\<And>x w. I w \<Longrightarrow> wp (f x) (\<lambda>_ v. I v \<and> F v = g x (F w) \<and> R w v) (\<lambda>_ _. False) w"
    and "\<And>w. R w w" and "\<And>u v w. R u v \<Longrightarrow> R v w \<Longrightarrow> R u w"
  shows "I w \<Longrightarrow> wp (for_each f xs) (\<lambda>_ v. I v \<and> F v = fold g xs (F w) \<and> R w v) (\<lambda>_ _. False) w"
proof (induction xs arbitrary: w)
  case (Cons x xs)
  show ?case
    unfolding for_each.simps wp_bind
  proof (rule wp_call [OF assms(1) [OF Cons.prems]])
    fix u v assume "I v \<and> F v = g x (F w) \<and> R w v"
    then show "wp (for_each f xs) (\<lambda>_ v. I v \<and> F v = fold g (x # xs) (F w) \<and> R w v) (\<lambda>_ _. False) v"
      by (intro wp_call [OF Cons.IH]) (auto intro: assms(3))
  qed simp
qed (simp add: assms(2))

context frontier_store
begin

abbreviation F :: "'w \<Rightarrow> frontier" where "F w \<equiv> frontier_of (V w)"

lemma wp_check_key_types:
  "wp (check_key_types E) (\<lambda>_ v. v = w \<and> well_typed (V w)) (\<lambda>_ v. v = w \<and> \<not> well_typed (V w)) w"
  by (auto simp: check_key_types_def types well_typed_def zset_or_none_def hash_or_none_def)

lemma reads:
  assumes "well_typed (V w)"
  shows "fe_hget E URLS_KEY i w = fr_urls (F w) i" and "fe_hget E DEPTHS_KEY i w = fr_depths (F w) i"
    and "fe_zscore E QUEUE_KEY i w = fr_scores (F w) i"
  using assms by (simp_all add: well_typed_def hgets zscores frontier_of_def)

lemma writes:
  assumes "well_typed (V w)"
  shows "well_typed (V (fe_hset E URLS_KEY i s w)) \<and> F (fe_hset E URLS_KEY i s w) = F w\<lparr>fr_urls := (fr_urls (F w))(i \<mapsto> s)\<rparr> \<and>
      only_frontier (V w) (V (fe_hset E URLS_KEY i s w))"
    and "well_typed (V (fe_hset E DEPTHS_KEY i s w)) \<and> F (fe_hset E DEPTHS_KEY i s w) = F w\<lparr>fr_depths := (fr_depths (F w))(i \<mapsto> s)\<rparr> \<and>
      only_frontier (V w) (V (fe_hset E DEPTHS_KEY i s w))"
    and "well_typed (V (fe_zadd E QUEUE_KEY q i w)) \<and> F (fe_zadd E QUEUE_KEY q i w) = F w\<lparr>fr_scores := (fr_scores (F w))(i \<mapsto> q)\<rparr> \<and>
      only_frontier (V w) (V (fe_zadd E QUEUE_KEY q i w))"
    and "well_typed (V (fe_hdel E URLS_KEY i w)) \<and> F (fe_hdel E URLS_KEY i w) = F w\<lparr>fr_urls := (fr_urls (F w))(i := None)\<rparr> \<and>
      only_frontier (V w) (V (fe_hdel E URLS_KEY i w))"
    and "well_typed (V (fe_hdel E DEPTHS_KEY i w)) \<and> F (fe_hdel E DEPTHS_KEY i w) = F w\<lparr>fr_depths := (fr_depths (F w))(i := None)\<rparr> \<and>
      only_frontier (V w) (V (fe_hdel E DEPTHS_KEY i w))"
    and "well_typed (V (fe_zrem E QUEUE_KEY i w)) \<and> F (fe_zrem E QUEUE_KEY i w) = F w\<lparr>fr_scores := (fr_scores (F w))(i := None)\<rparr> \<and>
      only_frontier (V w) (V (fe_zrem E QUEUE_KEY i w))"
  using assms hsets [of w URLS_KEY i s] hsets [of w DEPTHS_KEY i s] zadds [of w QUEUE_KEY q i]
    hdels [of w URLS_KEY i] hdels [of w DEPTHS_KEY i] zrems [of w QUEUE_KEY i]
  by (auto simp: well_typed_def frontier_of_def only_frontier_def)

lemma wp_check_entry:
  "well_typed (V w) \<Longrightarrow> wp (check_entry E a) (\<lambda>_ v. v = w \<and> acceptable (F w) a) (\<lambda>_ v. v = w \<and> \<not> acceptable (F w) a) w"
  by (auto simp: check_entry_def reads acceptable_def matching_def split: option.splits)

lemma wp_apply_entry:
  assumes "well_typed (V w)"
  shows "wp (apply_entry E a)
     (\<lambda>_ v. well_typed (V v) \<and> F v = offer a (F w) \<and> only_frontier (V w) (V v)) (\<lambda>_ _. False) w"
proof -
  define w1 where "w1 = fe_hset E URLS_KEY (ee_id a) (ee_url a) w"
  define w2 where "w2 = (if better (ee_score a) (fr_scores (F w) (ee_id a)) then fe_zadd E QUEUE_KEY (ee_score a) (ee_id a) w1 else w1)"
  define n where "n = the (parse_canonical_depth (ee_depth a))"
  define w3 where "w3 = (if fr_scores (F w) (ee_id a) = None \<or> nearer n (fr_depths (F w) (ee_id a))
      then fe_hset E DEPTHS_KEY (ee_id a) (show_nat n) w2 else w2)"
  have 1: "well_typed (V w1)" "F w1 = F w\<lparr>fr_urls := (fr_urls (F w))(ee_id a \<mapsto> ee_url a)\<rparr>" "only_frontier (V w) (V w1)"
    using writes(1) [OF assms] by (simp_all add: w1_def)
  have 2: "well_typed (V w2)" "only_frontier (V w) (V w2)"
    "F w2 = F w1\<lparr>fr_scores := (if better (ee_score a) (fr_scores (F w) (ee_id a)) then (fr_scores (F w))(ee_id a \<mapsto> ee_score a) else fr_scores (F w))\<rparr>"
    using 1 writes(3) [OF 1(1)] by (auto simp: w2_def intro: only_frontier_trans)
  have 3: "well_typed (V w3)" "only_frontier (V w) (V w3)"
    "F w3 = F w2\<lparr>fr_depths := (if fr_scores (F w) (ee_id a) = None \<or> nearer n (fr_depths (F w) (ee_id a))
       then (fr_depths (F w))(ee_id a \<mapsto> show_nat n) else fr_depths (F w))\<rparr>"
    using 1 2 writes(2) [OF 2(1)] by (auto simp: w3_def intro: only_frontier_trans)
  have "apply_entry E a w = (Inr (), w3)"
    by (simp add: apply_entry_def Let_def reads [OF assms] bind_eq w1_def w2_def w3_def n_def better_def nearer_def split: option.splits)
  then show ?thesis using 1 2 3 by (simp add: wp_def offer_def n_def Let_def)
qed

lemma wp_check_removal:
  "well_typed (V w) \<Longrightarrow> wp (check_removal E a) (\<lambda>_ v. v = w \<and> matching (F w) (fst a) (snd a))
     (\<lambda>_ v. v = w \<and> \<not> matching (F w) (fst a) (snd a)) w"
  by (auto simp: check_removal_def reads matching_def split: option.splits)

lemma wp_apply_removal:
  assumes "well_typed (V w)"
  shows "wp (apply_removal E a)
     (\<lambda>_ v. well_typed (V v) \<and> F v = retract (fst a) (F w) \<and> only_frontier (V w) (V v)) (\<lambda>_ _. False) w"
proof -
  let ?w1 = "fe_zrem E QUEUE_KEY (fst a) w"
  let ?w2 = "fe_hdel E URLS_KEY (fst a) ?w1"
  have 1: "well_typed (V ?w1)" "F ?w1 = F w\<lparr>fr_scores := (fr_scores (F w))(fst a := None)\<rparr>" "only_frontier (V w) (V ?w1)"
    using writes(6) [OF assms] by simp_all
  have 2: "well_typed (V ?w2)" "F ?w2 = F ?w1\<lparr>fr_urls := (fr_urls (F ?w1))(fst a := None)\<rparr>" "only_frontier (V w) (V ?w2)"
    using writes(4) [OF 1(1)] 1(3) by (auto intro: only_frontier_trans)
  show ?thesis
    using writes(5) [OF 2(1), of "fst a"] 1 2 by (auto simp: apply_removal_def retract_def intro: only_frontier_trans)
qed

lemma enqueue_is_offers:
  "wp (ENQUEUE_SCRIPT E as)
     (\<lambda>n v. n = length as \<and> well_typed (V w) \<and> (\<forall>a \<in> set as. acceptable (F w) a) \<and>
        well_typed (V v) \<and> F v = fold offer as (F w) \<and> only_frontier (V w) (V v))
     (\<lambda>_ v. v = w \<and> \<not> (well_typed (V w) \<and> (\<forall>a \<in> set as. acceptable (F w) a))) w"
  unfolding ENQUEUE_SCRIPT_def wp_bind
proof (rule wp_call [OF wp_check_key_types], goal_cases)
  case (1 x v)
  then have v: "v = w" and w: "well_typed (V w)" by auto
  have checks: "wp (for_each (check_entry E) as) (\<lambda>_ v. v = w \<and> (\<forall>a \<in> set as. acceptable (F w) a))
      (\<lambda>_ v. v = w \<and> \<not> (\<forall>a \<in> set as. acceptable (F w) a)) w"
    by (rule wp_for_each_checks) (rule wp_check_entry [OF w])
  have changes: "wp (for_each (apply_entry E) as)
      (\<lambda>_ v. well_typed (V v) \<and> F v = fold offer as (F w) \<and> only_frontier (V w) (V v)) (\<lambda>_ _. False) w"
    by (rule wp_for_each_fold [where F = F and R = "\<lambda>w v. only_frontier (V w) (V v)" and I = "\<lambda>w. well_typed (V w)"])
      (auto intro: wp_apply_entry w only_frontier_trans)
  show ?case unfolding v
    by (rule wp_call [OF checks]) (auto intro!: wp_call [OF changes] simp: w)
qed auto

lemma removal_is_retractions:
  "wp (REMOVE_DISABLED_SCRIPT E as)
     (\<lambda>n v. n = length as \<and> well_typed (V w) \<and> (\<forall>a \<in> set as. matching (F w) (fst a) (snd a)) \<and>
        well_typed (V v) \<and> F v = fold (\<lambda>a. retract (fst a)) as (F w) \<and> only_frontier (V w) (V v))
     (\<lambda>_ v. v = w \<and> \<not> (well_typed (V w) \<and> (\<forall>a \<in> set as. matching (F w) (fst a) (snd a)))) w"
  unfolding REMOVE_DISABLED_SCRIPT_def wp_bind
proof (rule wp_call [OF wp_check_key_types], goal_cases)
  case (1 x v)
  then have v: "v = w" and w: "well_typed (V w)" by auto
  have checks: "wp (for_each (check_removal E) as) (\<lambda>_ v. v = w \<and> (\<forall>a \<in> set as. matching (F w) (fst a) (snd a)))
      (\<lambda>_ v. v = w \<and> \<not> (\<forall>a \<in> set as. matching (F w) (fst a) (snd a))) w"
    by (rule wp_for_each_checks) (rule wp_check_removal [OF w])
  have changes: "wp (for_each (apply_removal E) as)
      (\<lambda>_ v. well_typed (V v) \<and> F v = fold (\<lambda>a. retract (fst a)) as (F w) \<and> only_frontier (V w) (V v)) (\<lambda>_ _. False) w"
    by (rule wp_for_each_fold [where F = F and R = "\<lambda>w v. only_frontier (V w) (V v)" and I = "\<lambda>w. well_typed (V w)"])
      (auto intro: wp_apply_removal w only_frontier_trans)
  show ?case unfolding v
    by (rule wp_call [OF checks]) (auto intro!: wp_call [OF changes] simp: w)
qed auto

end

section \<open>A keyspace that is its own view\<close>

definition put :: "(('k, 'v) dict \<Rightarrow> fvalue) \<Rightarrow> ('k, 'v) dict \<Rightarrow> fvalue option" where
  "put c d = (if d = [] then None else Some (c d))"

fun hash_items :: "fvalue option \<Rightarrow> (bytes, bytes) dict" where
  "hash_items (Some (FHash h)) = h"
| "hash_items _ = []"

fun zset_items :: "fvalue option \<Rightarrow> (bytes, score) dict" where
  "zset_items (Some (FZset z)) = z"
| "zset_items _ = []"

lemma fhash_items [simp]: "map_of (hash_items v) = fhash v" "map_of (zset_items v) = fzset v"
  by (cases v rule: fhash.cases; simp) (cases v rule: fzset.cases; simp)

lemma put_views [simp]:
  "fhash (put FHash h) = map_of h" "fzset (put FZset z) = map_of z" "hash_or_none (put FHash h)" "zset_or_none (put FZset z)"
  by (auto simp: put_def hash_or_none_def zset_or_none_def)

text \<open>A server without other clients, with the enabled and the disabled records of the catalog.\<close>

definition mem_feed :: "pydict list \<Rightarrow> pydict list \<Rightarrow> fdb feed_env" where
  "mem_feed enabled disabled =
     \<lparr>fe_type = (\<lambda>k db. ftype (db k)),
      fe_hget = (\<lambda>k f db. fhash (db k) f),
      fe_zscore = (\<lambda>k f db. fzset (db k) f),
      fe_hset = (\<lambda>k f v db. db(k := put FHash (AList.update f v (hash_items (db k))))),
      fe_hdel = (\<lambda>k f db. db(k := put FHash (AList.delete f (hash_items (db k))))),
      fe_zadd = (\<lambda>k s f db. db(k := put FZset (AList.update f s (zset_items (db k))))),
      fe_zrem = (\<lambda>k f db. db(k := put FZset (AList.delete f (zset_items (db k))))),
      fe_net = (\<lambda>db. (Delivered, db)),
      fe_mongo = ret (),
      fe_redis = ret (),
      fe_find = (\<lambda>is_enabled limit. ret (if is_enabled then if limit = 0 then enabled else take limit enabled else disabled, None))\<rparr>"

interpretation mem_frontier: frontier_store "mem_feed enabled disabled" "\<lambda>w. w"
  by unfold_locales (auto simp: mem_feed_def update_conv' delete_conv')

end
