(* ===== verification/Feed_Properties.thy ===== *)
theory Feed_Properties
  imports Feed_Frontier
begin

text \<open>
  The claims about \<open>feed.py\<close>: the frontier stays well formed whatever fails, and a run that is not disturbed
  puts exactly the enabled seeds into it.
\<close>

section \<open>A well-formed frontier\<close>

text \<open>The identifier belongs to the URL, which is canonical and admitted to the crawl. Both are ASCII, so their bytes are their code points.\<close>

definition identified :: "ucd \<Rightarrow> idna \<Rightarrow> bytes \<Rightarrow> bytes \<Rightarrow> bool" where
  "identified u ix i url \<longleftrightarrow> (\<exists>n. identify_url u ix url = Inr n \<and> ui_canonical_url n = url \<and> ui_url_id n = i \<and> ui_crawl_eligible n)"

text \<open>The numbers of the frontier are numbers.\<close>

definition frontier_sound :: "frontier \<Rightarrow> bool" where
  "frontier_sound f \<longleftrightarrow>
     (\<forall>i s. fr_scores f i = Some s \<longrightarrow> is_finite_number s) \<and> (\<forall>i d. fr_depths f i = Some d \<longrightarrow> parse_canonical_depth d \<noteq> None)"

text \<open>Every queued identifier has a URL and a depth, and every URL its own identifier.\<close>

definition frontier_ok :: "ucd \<Rightarrow> idna \<Rightarrow> frontier \<Rightarrow> bool" where
  "frontier_ok u ix f \<longleftrightarrow> frontier_sound f \<and>
     (\<forall>i. fr_scores f i \<noteq> None \<longrightarrow> fr_urls f i \<noteq> None \<and> fr_depths f i \<noteq> None) \<and>
     (\<forall>i url. fr_urls f i = Some url \<longrightarrow> identified u ix i url)"

lemma parse_zero [simp]: "parse_canonical_depth (show_nat 0) = Some 0"
  by (simp add: parse_canonical_depth_def show_nat.simps py_def)

lemma decimal_grows: "foldl (\<lambda>n c. 10 * n + (c - 48)) k r \<ge> (k :: nat)"
proof (induction r arbitrary: k)
  case (Cons x r)
  show ?case using Cons [of "10 * k + (x - 48)"] by simp
qed simp

lemma parse_positive:
  assumes "parse_canonical_depth d = Some n" and "d \<noteq> show_nat 0"
  shows "0 < n" and "n = decimal_value d"
proof -
  have d: "positive_decimal d" "n = decimal_value d"
    using assms by (auto simp: parse_canonical_depth_def show_nat.simps py_def split: if_splits)
  then obtain c r where cr: "d = c # r" "c \<noteq> 48" "ascii_digit c" by (cases d) (auto simp: positive_decimal_def)
  then have "0 < c - 48" by (simp add: ascii_digit_def)
  then have "0 < foldl (\<lambda>n c. 10 * n + (c - 48)) (c - 48) r" using decimal_grows [of "c - 48" r] by (rule less_le_trans)
  then have "0 < decimal_value d" using cr by (simp add: decimal_value_def)
  then show "0 < n" "n = decimal_value d" using d by simp_all
qed

lemma offer_ok:
  assumes "frontier_ok u ix f" and "identified u ix (ee_id a) (ee_url a)" and "is_finite_number (ee_score a)"
    and "ee_depth a = show_nat 0"
  shows "frontier_ok u ix (offer a f)"
  using assms by (auto simp: frontier_ok_def frontier_sound_def offer_def Let_def)

lemma retract_ok: "frontier_ok u ix f \<Longrightarrow> frontier_ok u ix (retract i f)"
  by (auto simp: frontier_ok_def frontier_sound_def retract_def)

lemma set_update_subset: "set (AList.update k v xs) \<subseteq> insert (k, v) (set xs)"
  by (induction xs) auto

lemma fold_keeps: "(\<And>x y. x \<in> set xs \<Longrightarrow> P y \<Longrightarrow> P (g x y)) \<Longrightarrow> P y \<Longrightarrow> P (fold g xs y)"
  by (induction xs arbitrary: y) auto

section \<open>Seeds\<close>

definition url_errors :: "exn + 'a \<Rightarrow> bool" where
  "url_errors m \<longleftrightarrow> (\<forall>e. m = Inl e \<longrightarrow> (\<exists>c. e = URLCanonicalizationError c))"

lemma url_errors_rules:
  "url_errors (Inr x)" "url_errors (url_error c)" "url_errors (requireE b (URLCanonicalizationError c))"
  "url_errors m \<Longrightarrow> (\<And>x. url_errors (f x)) \<Longrightarrow> url_errors (bindE m f)"
  "url_errors n \<Longrightarrow> url_errors n' \<Longrightarrow> url_errors (if b then n else n')"
  "url_errors k \<Longrightarrow> (\<And>y. url_errors (h y)) \<Longrightarrow> url_errors (case v of None \<Rightarrow> k | Some y \<Rightarrow> h y)"
  "(\<And>e. url_errors (r e)) \<Longrightarrow> (\<And>z. url_errors (t z)) \<Longrightarrow> url_errors (case s of Inl e \<Rightarrow> r e | Inr z \<Rightarrow> t z)"
  "(\<And>a b. url_errors (g a b)) \<Longrightarrow> url_errors (case p of (a, b) \<Rightarrow> g a b)"
  by (auto simp: url_errors_def sum_iffs split: option.splits sum.splits prod.splits)

lemma canonicalize_error: "url_errors (canonicalize_url u ix raw)"
  unfolding canonicalize_url_def raw_url_checks_def seed_utf8_length_def canonicalize_parsed_def validated_host_def
    validate_domain_host_def explicit_port_def port_number_def encode_component_def Let_def
  by (intro url_errors_rules)

lemma identify_url_error: "identify_url u ix raw = Inl e \<Longrightarrow> \<exists>c. e = URLCanonicalizationError c"
proof -
  assume a: "identify_url u ix raw = Inl e"
  show ?thesis
  proof (cases "canonicalize_url u ix raw")
    case (Inl e')
    then show ?thesis using a canonicalize_error [of u ix raw] by (auto simp: identify_url_def url_errors_def)
  next
    case (Inr c)
    then show ?thesis using a identify_url_parts [OF Inr] by auto
  qed
qed

text \<open>A record is a seed or is skipped; a seed names its URL, and its score is a number.\<close>

lemma seed_from_documentD:
  assumes "seed_from_document u ix d = Inr s"
  shows "identified u ix (cs_id s) (cs_canonical_url s)"
    and "\<exists>p \<in> {1, 2, 3}. cs_priority s = VInt p"
proof -
  obtain i url where iu: "fld ''_id'' d = VStr i" "fld ''canonical_url'' d = VStr url"
    using assms by (auto simp: seed_from_document_def split: pyval.splits)
  show "identified u ix (cs_id s) (cs_canonical_url s)"
    using assms by (auto simp: seed_from_document_def iu identified_def sum_iffs split: sum.splits exn.splits)
  show "\<exists>p \<in> {1, 2, 3}. cs_priority s = VInt p"
    using assms by (auto simp: seed_from_document_def iu redis_score_def sum_iffs split: pyval.splits if_splits)
qed

lemma seed_from_document_error:
  assumes "seed_from_document u ix d = Inl e"
  shows "is_value_error e"
proof -
  have "redis_score p = Inl e \<Longrightarrow> is_value_error e" for p
    by (auto simp: redis_score_def split: pyval.splits if_splits)
  moreover have "(case identify_url u ix c of Inl (URLCanonicalizationError code) \<Rightarrow> Inl (ValueError (''invalid stored canonical URL: '' @ code))
      | Inl e' \<Rightarrow> Inl e' | Inr n \<Rightarrow> Inr n) = Inl e \<Longrightarrow> is_value_error e" for c
    using identify_url_error [of u ix c] by (auto split: sum.splits)
  ultimately show ?thesis
    using assms by (auto simp: seed_from_document_def sum_iffs split: pyval.splits)
qed

lemma identified_ascii:
  assumes "identified u ix i url"
  shows "encode_arg i = Inr i" and "encode_arg url = Inr url"
proof -
  obtain n where n: "identify_url u ix url = Inr n" "ui_canonical_url n = url" "ui_url_id n = i"
    using assms by (auto simp: identified_def)
  obtain c where c: "canonicalize_url u ix url = Inr c" using n(1) by (auto simp: identify_url_def sum_iffs)
  then have "c = url" using identify_url_parts [OF c] n by auto
  then have "is_ascii url" using canonicalize_url_sound [OF c] validate_charactersD(2) by blast
  moreover obtain m where "i = sha256_hex m" using identify_again(2) [OF n(1)] n(3) by auto
  then have "is_ascii i" using sha256_hex_chars by (fastforce simp: is_ascii_def list_all_iff)
  ultimately show "encode_arg i = Inr i" "encode_arg url = Inr url"
    by (simp_all add: encode_arg_def utf8_encode_ascii)
qed

definition seeds_in :: "ucd \<Rightarrow> idna \<Rightarrow> pydict list \<Rightarrow> feed_seed list" where
  "seeds_in u ix ds = List.map_filter (\<lambda>d. case seed_from_document u ix d of Inl _ \<Rightarrow> None | Inr s \<Rightarrow> Some s) ds"

lemma seeds_in_simps [simp]:
  "seeds_in u ix [] = []"
  "seeds_in u ix (d # ds) = (case seed_from_document u ix d of Inl _ \<Rightarrow> seeds_in u ix ds | Inr s \<Rightarrow> s # seeds_in u ix ds)"
  by (auto simp: seeds_in_def map_filter_simps split: sum.splits)

section \<open>The frontier stays well formed\<close>

text \<open>The steps of other clients, and of the connections and queries, keep a property of the world.\<close>

definition peers_keep :: "('w \<Rightarrow> bool) \<Rightarrow> ('w, 'z) feed_env_scheme \<Rightarrow> bool" where
  "peers_keep P E \<longleftrightarrow> (\<forall>w. P w \<longrightarrow> P (snd (fe_net E w)) \<and> P (snd (fe_mongo E w)) \<and> P (snd (fe_redis E w)) \<and>
     (\<forall>enabled n. P (snd (fe_find E enabled n w))))"

definition preserves :: "('w \<Rightarrow> bool) \<Rightarrow> 'w \<Rightarrow> 'w \<Rightarrow> bool" where
  "preserves P w w' \<longleftrightarrow> (P w \<longrightarrow> P w')"

interpretation preserved: world_relation "preserves P" for P
  by unfold_locales (auto simp: preserves_def)

lemma keeps_eval_script: "peers_keep P E \<Longrightarrow> keeps (preserves P) script \<Longrightarrow> keeps (preserves P) (eval_script E script)"
  unfolding keeps_def eval_script_def preserves_def peers_keep_def
  by (auto split: prod.splits delivery.splits) (metis prod.collapse snd_conv)+

lemma wp_keeps: "(\<And>w. P w \<Longrightarrow> wp m (\<lambda>_. P) (\<lambda>_. P) w) \<Longrightarrow> keeps (preserves P) m"
  unfolding keeps_def preserves_def wp_def by (metis (no_types, lifting) case_prod_conv sum.case sum.exhaust)

context frontier_store
begin

lemma enqueue_batch_keeps:
  assumes peers: "peers_keep (\<lambda>w. frontier_ok u ix (F w)) E"
    and members: "\<forall>(i, url, s) \<in> set members. identified u ix i url \<and> is_finite_number s"
  shows "keeps (preserves (\<lambda>w. frontier_ok u ix (F w))) (enqueue_batch E members dry)"
proof -
  have script: "keeps (preserves (\<lambda>w. frontier_ok u ix (F w))) (ENQUEUE_SCRIPT E as)"
    if "mapE enqueue_argument (sort_key fst members) = Inr as" for as
  proof -
    have "\<forall>a \<in> set as. identified u ix (ee_id a) (ee_url a) \<and> is_finite_number (ee_score a) \<and> ee_depth a = show_nat 0"
    proof
      fix a assume "a \<in> set as"
      then obtain m where "m \<in> set members" "enqueue_argument m = Inr a"
        using mapE_mem [OF \<open>mapE enqueue_argument _ = _\<close>] by (metis set_sort)
      then obtain i url s where m: "(i, url, s) \<in> set members" "enqueue_argument (i, url, s) = Inr a" by (metis prod_cases3)
      then have "identified u ix i url" "is_finite_number s" using members by auto
      then show "identified u ix (ee_id a) (ee_url a) \<and> is_finite_number (ee_score a) \<and> ee_depth a = show_nat 0"
        using m(2) by (auto simp: enqueue_argument_def identified_ascii [of u ix i url])
    qed
    then have "frontier_ok u ix f \<Longrightarrow> frontier_ok u ix (fold offer as f)" for f
      using offer_ok by (intro fold_keeps [where P = "frontier_ok u ix"]) blast+
    then show ?thesis by (intro wp_keeps wp_call [OF enqueue_is_offers]) auto
  qed
  have "keeps (preserves (\<lambda>w. frontier_ok u ix (F w))) (bind (lift (mapE enqueue_argument (sort_key fst members))) (\<lambda>arguments.
      bind (eval_script E (ENQUEUE_SCRIPT E arguments)) f))"
    if "\<And>n. keeps (preserves (\<lambda>w. frontier_ok u ix (F w))) (f n)" for f :: "nat \<Rightarrow> ('w, nat) prog"
  proof (cases "mapE enqueue_argument (sort_key fst members)")
    case (Inl e)
    then show ?thesis by (simp add: keeps_def bind_eq preserves_def)
  next
    case (Inr as)
    then show ?thesis
      unfolding Inr lift_bind by (intro preserved.keeps_bind keeps_eval_script [OF peers script [OF Inr]] that)
  qed
  note batch = this
  show ?thesis
    unfolding enqueue_batch_def
    by (intro preserved.keeps_if preserved.keeps_pure; rule batch) (intro preserved.keeps_bind preserved.keeps_require preserved.keeps_pure)
qed

lemma reconcile_batch_keeps:
  assumes peers: "peers_keep (\<lambda>w. frontier_ok u ix (F w)) E"
  shows "keeps (preserves (\<lambda>w. frontier_ok u ix (F w))) (reconcile_disabled_batch E members dry)"
proof -
  have "frontier_ok u ix f \<Longrightarrow> frontier_ok u ix (fold (\<lambda>a. retract (fst a)) as f)" for as f
    by (rule fold_keeps [where P = "frontier_ok u ix"]) (rule retract_ok)
  note kept = this
  have "keeps (preserves (\<lambda>w. frontier_ok u ix (F w))) (REMOVE_DISABLED_SCRIPT E as)" for as
  proof (rule wp_keeps)
    fix w assume w: "frontier_ok u ix (F w)"
    show "wp (REMOVE_DISABLED_SCRIPT E as) (\<lambda>_ w. frontier_ok u ix (F w)) (\<lambda>_ w. frontier_ok u ix (F w)) w"
      by (rule wp_call [OF removal_is_retractions]) (use kept [OF w, of as] w in simp_all)
  qed
  then have "keeps (preserves (\<lambda>w. frontier_ok u ix (F w))) (eval_script E (REMOVE_DISABLED_SCRIPT E as))" for as
    by (intro keeps_eval_script [OF peers])
  then show ?thesis
    unfolding reconcile_disabled_batch_def by (intro preserved.keeps_rules)
qed

definition pulls_seeds :: "ucd \<Rightarrow> idna \<Rightarrow> pull list \<Rightarrow> bool" where
  "pulls_seeds u ix ps \<longleftrightarrow> (\<forall>p \<in> set ps. \<forall>stats seed stats'. p stats = Inr (Some seed, stats') \<longrightarrow>
     identified u ix (cs_id seed) (cs_canonical_url seed))"

lemma pulls_seed: "pulls_seeds u ix (pulls (pull_seed u ix tick) cursor)"
  using seed_from_documentD(1)
  by (fastforce simp: pulls_seeds_def pulls_def pull_seed_def Let_def split: option.splits sum.splits if_splits)

lemma feed_loop_keeps:
  assumes peers: "peers_keep (\<lambda>w. frontier_ok u ix (F w)) E"
  shows "pulls_seeds u ix ps \<Longrightarrow> \<forall>(i, url, s) \<in> set pending. identified u ix i url \<and> is_finite_number s \<Longrightarrow>
     keeps (preserves (\<lambda>w. frontier_ok u ix (F w))) (feed_loop E batch_size dry stats pending ps)"
proof (induction ps arbitrary: stats pending)
  case Nil
  then show ?case by (auto intro!: preserved.keeps_rules enqueue_batch_keeps [OF peers])
next
  case (Cons p ps)
  have ps: "pulls_seeds u ix ps" using Cons.prems(1) by (simp add: pulls_seeds_def)
  show ?case
  proof (cases "p stats")
    case (Inl e)
    then show ?thesis by (simp add: keeps_def bind_eq preserves_def)
  next
    case (Inr r)
    obtain pulled stats' where r: "r = (pulled, stats')" by fastforce
    show ?thesis
    proof (cases pulled)
      case None
      then show ?thesis using Cons.IH [OF ps Cons.prems(2)] Inr r by (simp add: lift_bind)
    next
      case (Some seed)
      then have seed: "identified u ix (cs_id seed) (cs_canonical_url seed)"
        using Cons.prems(1) Inr r by (auto simp: pulls_seeds_def)
      show ?thesis
      proof (cases "redis_score (cs_priority seed)")
        case Inl': (Inl e)
        then show ?thesis using Inr r Some by (simp add: lift_bind keeps_def bind_eq preserves_def)
      next
        case Inr': (Inr score)
        then have "is_finite_number score" by (auto simp: redis_score_def split: pyval.splits if_splits)
        then have pending': "\<forall>(i, url, s) \<in> set (if b then AList.update (cs_id seed) (cs_canonical_url seed, score) pending else pending).
            identified u ix i url \<and> is_finite_number s" for b
          using seed Cons.prems(2) set_update_subset [of "cs_id seed" "(cs_canonical_url seed, score)" pending] by auto
        show ?thesis
          unfolding feed_loop.simps Inr r lift_bind prod.case Some option.case Inr' Let_def
          by (intro preserved.keeps_bind preserved.keeps_require preserved.keeps_if enqueue_batch_keeps [OF peers pending']
                Cons.IH [OF ps pending'] Cons.IH [OF ps]) simp
      qed
    qed
  qed
qed

lemma reconcile_loop_keeps:
  assumes peers: "peers_keep (\<lambda>w. frontier_ok u ix (F w)) E"
  shows "keeps (preserves (\<lambda>w. frontier_ok u ix (F w))) (reconcile_loop E batch_size dry stats pending ps)"
proof (induction ps arbitrary: stats pending)
  case Nil
  then show ?case by (auto intro!: preserved.keeps_rules reconcile_batch_keeps [OF peers])
next
  case (Cons p ps)
  show ?case
    unfolding reconcile_loop.simps Let_def
    by (intro preserved.keeps_rules reconcile_batch_keeps [OF peers] Cons.IH)
qed

lemma feed_main_keeps:
  assumes peers: "peers_keep (\<lambda>w. frontier_ok u ix (F w)) E"
  shows "keeps (preserves (\<lambda>w. frontier_ok u ix (F w))) (feed_main u ix E args)"
proof -
  have env: "keeps (preserves (\<lambda>w. frontier_ok u ix (F w))) (fe_mongo E)"
    "keeps (preserves (\<lambda>w. frontier_ok u ix (F w))) (fe_redis E)"
    "keeps (preserves (\<lambda>w. frontier_ok u ix (F w))) (fe_find E enabled n)" for enabled n
    using peers unfolding keeps_def preserves_def peers_keep_def by (metis snd_conv)+
  have feed: "keeps (preserves (\<lambda>w. frontier_ok u ix (F w)))
      (feed_seeds E (iter_mongo_seeds u ix E n) b dry stats)" for n b dry stats
    unfolding feed_seeds_def iter_mongo_seeds_def bind_assoc bind_ret
    by (intro preserved.keeps_bind preserved.keeps_require env feed_loop_keeps [OF peers pulls_seed]) simp
  show ?thesis
    unfolding feed_main_def reconcile_disabled_seeds_def iter_mongo_disabled_seeds_def
    by (intro preserved.keeps_rules env feed reconcile_loop_keeps [OF peers])
qed

end

section \<open>An example\<close>

lemma example_feed:
  obtains d s where "seed_from_document plain_ucd no_alabels d = Inr s"
proof -
  obtain i where i: "identify_url plain_ucd no_alabels (py ''HTTPS://A.com:443/%7e ?q#f'') = Inr i" "ui_crawl_eligible i"
    using identify_example by blast
  define d where "d = [(py ''_id'', VStr (ui_url_id i)), (py ''canonical_url'', VStr (ui_canonical_url i)), (py ''priority'', VInt 2)]"
  have "fld ''_id'' d = VStr (ui_url_id i)" "fld ''canonical_url'' d = VStr (ui_canonical_url i)" "fld ''priority'' d = VInt 2"
    by (simp_all add: d_def fld_def py_def)
  then have "\<exists>s. seed_from_document plain_ucd no_alabels d = Inr s"
    using identify_again(1) [OF i(1)] i(2) by (simp add: seed_from_document_def redis_score_def)
  then show ?thesis using that by blast
qed

text \<open>
  C33. Whatever fails, a run of the feed keeps the frontier well formed if the other clients do: every
  queued identifier has a URL and a depth, scores are finite and depths canonical, and every URL is a canonical
  admitted URL under its own identifier.
\<close>

theorem feed_keeps_frontier_ok:
  assumes "frontier_store E V" and "peers_keep (\<lambda>w. frontier_ok u ix (frontier_of (V w))) E"
    and "frontier_ok u ix (frontier_of (V w))" and "feed_main u ix E args w = (r, w')"
  shows "frontier_ok u ix (frontier_of (V w'))"
  using keepsD [OF frontier_store.feed_main_keeps [OF assms(1,2)] assms(4)] assms(3) by (simp add: preserves_def)

theorem feed_keeps_frontier_ok_witness:
  "\<exists>d s r w'. seed_from_document plain_ucd no_alabels d = Inr s \<and>
     feed_main plain_ucd no_alabels (mem_feed [d] []) \<lparr>fa_limit = 0, fa_batch_size = 1, fa_dry_run = False\<rparr> Map.empty = (r, w') \<and>
     frontier_ok plain_ucd no_alabels (frontier_of w')"
proof -
  obtain d s where d: "seed_from_document plain_ucd no_alabels d = Inr s" by (rule example_feed)
  obtain r w' where run: "feed_main plain_ucd no_alabels (mem_feed [d] []) \<lparr>fa_limit = 0, fa_batch_size = 1, fa_dry_run = False\<rparr> Map.empty = (r, w')"
    by (rule that [OF prod.collapse [symmetric]])
  have "peers_keep (\<lambda>w. frontier_ok plain_ucd no_alabels (frontier_of w)) (mem_feed [d] [])"
    by (auto simp: peers_keep_def mem_feed_def)
  moreover have "frontier_ok plain_ucd no_alabels (frontier_of Map.empty)"
    by (simp add: frontier_ok_def frontier_sound_def frontier_of_def)
  ultimately have "frontier_ok plain_ucd no_alabels (frontier_of w')"
    by (rule feed_keeps_frontier_ok [OF mem_frontier.frontier_store_axioms _ _ run])
  then show ?thesis using d run by blast
qed

section \<open>What an undisturbed run leaves\<close>

text \<open>
  \<open>offered f S f'\<close>: \<open>f'\<close> is \<open>f\<close> with the seeds of \<open>S\<close> in it, each with its URL, depth 0 and the lowest of its
  scores, the one it had before included. \<open>without R f\<close> is \<open>f\<close> with the identifiers of \<open>R\<close> taken out.
\<close>

type_synonym offers = "(bytes \<times> bytes \<times> score) set"

definition scores_for :: "frontier \<Rightarrow> offers \<Rightarrow> bytes \<Rightarrow> score set" where
  "scores_for f S i = {s. \<exists>url. (i, url, s) \<in> S} \<union> set_option (fr_scores f i)"

definition least_score :: "score set \<Rightarrow> score \<Rightarrow> bool" where
  "least_score X m \<longleftrightarrow> m \<in> X \<and> (\<forall>x \<in> X. m \<le> x)"

definition same_at :: "bytes \<Rightarrow> frontier \<Rightarrow> frontier \<Rightarrow> bool" where
  "same_at i f f' \<longleftrightarrow> fr_scores f' i = fr_scores f i \<and> fr_urls f' i = fr_urls f i \<and> fr_depths f' i = fr_depths f i"

definition offered :: "frontier \<Rightarrow> offers \<Rightarrow> frontier \<Rightarrow> bool" where
  "offered f S f' \<longleftrightarrow> (\<forall>i. if i \<in> fst ` S
     then (\<forall>url s. (i, url, s) \<in> S \<longrightarrow> fr_urls f' i = Some url) \<and> fr_depths f' i = Some (show_nat 0) \<and>
       (\<exists>m. fr_scores f' i = Some m \<and> least_score (scores_for f S i) m)
     else same_at i f f')"

definition without :: "bytes set \<Rightarrow> frontier \<Rightarrow> frontier" where
  "without R f = \<lparr>fr_scores = (\<lambda>i. if i \<in> R then None else fr_scores f i), fr_urls = (\<lambda>i. if i \<in> R then None else fr_urls f i),
     fr_depths = (\<lambda>i. if i \<in> R then None else fr_depths f i)\<rparr>"

text \<open>The URL of every identifier, in the frontier and among the seeds.\<close>

definition urls_agree :: "(bytes \<Rightarrow> bytes) \<Rightarrow> frontier \<Rightarrow> offers \<Rightarrow> bool" where
  "urls_agree U f S \<longleftrightarrow> (\<forall>i url. fr_urls f i = Some url \<longrightarrow> url = U i) \<and> (\<forall>(i, url, s) \<in> S. url = U i \<and> is_finite_number s)"

lemma urls_agree_mono: "urls_agree U f S \<Longrightarrow> T \<subseteq> S \<Longrightarrow> urls_agree U f T"
  unfolding urls_agree_def by blast

lemma urls_agreeD: "urls_agree U f S \<Longrightarrow> (i, url, s) \<in> S \<Longrightarrow> url = U i \<and> is_finite_number s"
  unfolding urls_agree_def by blast

lemma score_trans: "x \<le> y \<Longrightarrow> y \<le> z \<Longrightarrow> x \<le> (z :: score)"
  by (cases x; cases y; cases z) (auto simp: less_eq_score_def less_score_def)

lemma score_refl: "is_finite_number s \<Longrightarrow> s \<le> s"
  by (cases s) (auto simp: less_eq_score_def)

lemma not_less_score: "is_finite_number s \<Longrightarrow> is_finite_number s' \<Longrightarrow> \<not> s < s' \<Longrightarrow> s' \<le> s"
  by (cases s; cases s') auto

lemma less_imp_le_score: "s < s' \<Longrightarrow> s \<le> (s' :: score)"
  by (simp add: less_eq_score_def)

lemma offered_empty [simp]: "offered f {} f' \<longleftrightarrow> (\<forall>i. same_at i f f')"
  by (simp add: offered_def)

lemma same_at_refl [simp]: "same_at i f f" by (simp add: same_at_def)

lemma same_everywhere: "(\<forall>i. same_at i f f') \<Longrightarrow> f' = f"
  by (cases f; cases f') (auto simp: same_at_def fun_eq_iff)

lemma without_simps [simp]: "without {} f = f" "without R (without R' f) = without (R \<union> R') f"
  by (auto simp: without_def fun_eq_iff)

lemma retract_without: "retract i f = without {i} f"
  by (auto simp: retract_def without_def fun_eq_iff)

lemma fold_retract: "fold (\<lambda>a. retract (fst a)) as f = without (fst ` set as) f"
proof (induction as arbitrary: f)
  case (Cons a as)
  then show ?case by (simp add: retract_without Un_commute)
qed simp

lemma without_sound: "frontier_sound f \<Longrightarrow> frontier_sound (without R f)"
  by (auto simp: frontier_sound_def without_def split: if_splits)

lemma without_agrees: "urls_agree U f S \<Longrightarrow> urls_agree U (without R f) S"
  by (auto simp: urls_agree_def without_def split: if_splits)

lemma offeredD:
  assumes "offered f S f'"
  shows "i \<in> fst ` S \<Longrightarrow> (\<forall>url s. (i, url, s) \<in> S \<longrightarrow> fr_urls f' i = Some url) \<and> fr_depths f' i = Some (show_nat 0) \<and>
       (\<exists>m. fr_scores f' i = Some m \<and> least_score (scores_for f S i) m)"
    and "i \<notin> fst ` S \<Longrightarrow> same_at i f f'"
  using assms unfolding offered_def by presburger+

lemma offered_sound:
  assumes "offered f S f'" and "frontier_sound f" and "urls_agree U f S"
  shows "frontier_sound f'" and "urls_agree U f' T \<longleftrightarrow> (\<forall>(i, url, s) \<in> T. url = U i \<and> is_finite_number s)"
proof -
  have fin: "is_finite_number m" if "least_score (scores_for f S i) m" for i m
    using that assms(2,3) by (fastforce simp: least_score_def scores_for_def frontier_sound_def urls_agree_def)
  show "frontier_sound f'"
    unfolding frontier_sound_def
  proof (intro conjI allI impI)
    fix i s assume "fr_scores f' i = Some s"
    then show "is_finite_number s"
      using offeredD [OF assms(1), of i] assms(2) fin [of i s] by (cases "i \<in> fst ` S") (auto simp: same_at_def frontier_sound_def)
  next
    fix i d assume "fr_depths f' i = Some d"
    then show "parse_canonical_depth d \<noteq> None"
      using offeredD [OF assms(1), of i] assms(2) by (cases "i \<in> fst ` S") (auto simp: same_at_def frontier_sound_def)
  qed
  have "url = U i" if "fr_urls f' i = Some url" for i url
  proof (cases "i \<in> fst ` S")
    case True
    then obtain url' s where "(i, url', s) \<in> S" by auto
    then have "url' = url" "url' = U i" using offeredD(1) [OF assms(1) True] assms(3) that by (auto simp: urls_agree_def)
    then show ?thesis by simp
  next
    case False
    then show ?thesis using offeredD(2) [OF assms(1)] assms(3) that by (auto simp: same_at_def urls_agree_def)
  qed
  then show "urls_agree U f' T \<longleftrightarrow> (\<forall>(i, url, s) \<in> T. url = U i \<and> is_finite_number s)"
    by (auto simp: urls_agree_def)
qed

lemma least_score_Un:
  "least_score X m \<Longrightarrow> least_score (Y \<union> {m}) m' \<Longrightarrow> least_score (Y \<union> X) m'"
  by (auto simp: least_score_def intro: score_trans)

lemma offered_trans:
  assumes "offered f S f'" and "offered f' T f''" and "urls_agree U f (S \<union> T)"
  shows "offered f (S \<union> T) f''"
  unfolding offered_def
proof
  fix i
  have url: "url = U i" if "(i, url, s) \<in> S \<union> T" for url s using assms(3) that unfolding urls_agree_def by fast
  have at: "if i \<in> fst ` S then (\<forall>url s. (i, url, s) \<in> S \<longrightarrow> fr_urls f' i = Some url) \<and> fr_depths f' i = Some (show_nat 0) \<and>
       (\<exists>m. fr_scores f' i = Some m \<and> least_score (scores_for f S i) m) else same_at i f f'"
    "if i \<in> fst ` T then (\<forall>url s. (i, url, s) \<in> T \<longrightarrow> fr_urls f'' i = Some url) \<and> fr_depths f'' i = Some (show_nat 0) \<and>
       (\<exists>m. fr_scores f'' i = Some m \<and> least_score (scores_for f' T i) m) else same_at i f' f''"
    using assms(1,2) unfolding offered_def by blast+
  show "if i \<in> fst ` (S \<union> T)
     then (\<forall>url s. (i, url, s) \<in> S \<union> T \<longrightarrow> fr_urls f'' i = Some url) \<and> fr_depths f'' i = Some (show_nat 0) \<and>
       (\<exists>m. fr_scores f'' i = Some m \<and> least_score (scores_for f (S \<union> T) i) m)
     else same_at i f f''"
  proof (cases "i \<in> fst ` T")
    case T: True
    then obtain url s where "(i, url, s) \<in> T" by auto
    then have urls: "fr_urls f'' i = Some (U i)" using at(2) T url by auto
    obtain m where m: "fr_scores f'' i = Some m" "least_score (scores_for f' T i) m" using at(2) T by auto
    have "least_score (scores_for f (S \<union> T) i) m"
    proof (cases "i \<in> fst ` S")
      case True
      then obtain m0 where m0: "fr_scores f' i = Some m0" "least_score (scores_for f S i) m0" using at(1) by auto
      have "scores_for f (S \<union> T) i = {s. \<exists>url. (i, url, s) \<in> T} \<union> scores_for f S i" by (auto simp: scores_for_def)
      then show ?thesis using least_score_Un [OF m0(2)] m(2) m0(1) by (simp add: scores_for_def)
    next
      case False
      then have "fr_scores f' i = fr_scores f i" "\<not> (\<exists>url s. (i, url, s) \<in> S)" using at(1) by (auto simp: same_at_def image_iff)
      then show ?thesis using m(2) by (simp add: scores_for_def)
    qed
    then show ?thesis using T at(2) m(1) urls url by auto
  next
    case T: False
    then have same: "same_at i f' f''" and none: "\<not> (\<exists>url s. (i, url, s) \<in> T)" using at(2) by (auto simp: image_iff)
    show ?thesis
    proof (cases "i \<in> fst ` S")
      case True
      have "scores_for f (S \<union> T) i = scores_for f S i" using none by (auto simp: scores_for_def)
      then show ?thesis using at(1) True same none by (auto simp: same_at_def)
    next
      case False
      then show ?thesis using at(1) T same by (simp add: same_at_def image_Un)
    qed
  qed
qed

lemma offered_dominated:
  assumes "offered f S f'" and "(i, url, s) \<in> S" and "s \<le> s'"
  shows "offered f (insert (i, url, s') S) f'"
proof -
  have ids: "fst ` insert (i, url, s') S = fst ` S" using assms(2) by force
  have least: "least_score (scores_for f S j) m \<Longrightarrow> least_score (scores_for f (insert (i, url, s') S) j) m" for j m
    using assms(2,3) by (auto simp: least_score_def scores_for_def intro: score_trans)
  show ?thesis
    unfolding offered_def ids
  proof
    fix j
    show "if j \<in> fst ` S
      then (\<forall>url' s''. (j, url', s'') \<in> insert (i, url, s') S \<longrightarrow> fr_urls f' j = Some url') \<and> fr_depths f' j = Some (show_nat 0) \<and>
        (\<exists>m. fr_scores f' j = Some m \<and> least_score (scores_for f (insert (i, url, s') S) j) m)
      else same_at j f f'"
    proof (cases "j \<in> fst ` S")
      case True
      note at = offeredD(1) [OF assms(1) True]
      then obtain m where m: "fr_scores f' j = Some m" "least_score (scores_for f S j) m" by blast
      have "\<forall>url' s''. (j, url', s'') \<in> insert (i, url, s') S \<longrightarrow> fr_urls f' j = Some url'"
        using at assms(2) by (metis insertE prod.inject)
      then show ?thesis using at m(1) least [OF m(2)] True by simp
    next
      case False
      then show ?thesis using offeredD(2) [OF assms(1) False] by simp
    qed
  qed
qed

text \<open>One entry of the script.\<close>

definition entry_of :: "bytes \<times> bytes \<times> score \<Rightarrow> enqueue_entry" where
  "entry_of = (\<lambda>(i, url, s). \<lparr>ee_id = i, ee_url = url, ee_score = s, ee_depth = show_nat 0\<rparr>)"

lemma offer_offered:
  assumes "frontier_sound f" and "is_finite_number s"
  shows "offered f {(i, url, s)} (offer (entry_of (i, url, s)) f)"
proof -
  have zero: "d = show_nat 0" if "fr_depths f i = Some d" "\<not> 0 < decimal_value d" for d
    using that assms(1) parse_positive [of d] by (fastforce simp: frontier_sound_def)
  have least: "least_score (scores_for f {(i, url, s)} i) (if better s (fr_scores f i) then s else the (fr_scores f i))"
    using assms by (cases "fr_scores f i")
      (auto simp: least_score_def scores_for_def better_def frontier_sound_def score_refl less_imp_le_score not_less_score)
  show ?thesis
    unfolding offered_def
    using least zero
    by (auto simp: offer_def entry_of_def Let_def same_at_def better_def nearer_def split: option.splits if_splits)
qed

lemma acceptable_entry:
  "frontier_sound f \<Longrightarrow> urls_agree U f S \<Longrightarrow> (i, url, s) \<in> S \<Longrightarrow> acceptable f (entry_of (i, url, s))"
  by (auto simp: acceptable_def matching_def entry_of_def frontier_sound_def urls_agree_def split: option.splits)

lemma fold_offered:
  "frontier_sound f \<Longrightarrow> urls_agree U f (set ms) \<Longrightarrow> offered f (set ms) (fold offer (map entry_of ms) f)"
proof (induction ms arbitrary: f)
  case (Cons m ms)
  obtain i url s where m: "m = (i, url, s)" by (rule prod_cases3)
  then have fin: "is_finite_number s" using Cons.prems(2) by (auto simp: urls_agree_def)
  have one: "offered f {m} (offer (entry_of m) f)" unfolding m by (rule offer_offered [OF Cons.prems(1) fin])
  have agree: "urls_agree U f {m}" using Cons.prems(2) by (auto simp: urls_agree_def)
  have "urls_agree U (offer (entry_of m) f) (set ms)"
    using Cons.prems(2) by (subst offered_sound(2) [OF one Cons.prems(1) agree]) (auto simp: urls_agree_def)
  then have "offered (offer (entry_of m) f) (set ms) (fold offer (map entry_of ms) (offer (entry_of m) f))"
    by (rule Cons.IH [OF offered_sound(1) [OF one Cons.prems(1) agree]])
  then show ?case using offered_trans [OF one, of "set ms" _ U] Cons.prems(2) by simp
qed simp

text \<open>The offer of a seed, and what a batch of seeds stands for.\<close>

definition seed_offer :: "feed_seed \<Rightarrow> bytes \<times> bytes \<times> score" where
  "seed_offer s = (cs_id s, cs_canonical_url s, case redis_score (cs_priority s) of Inl _ \<Rightarrow> NaN | Inr x \<Rightarrow> x)"

definition offers_of :: "ucd \<Rightarrow> idna \<Rightarrow> pydict list \<Rightarrow> offers" where
  "offers_of u ix ds = seed_offer ` set (seeds_in u ix ds)"

lemma offers_of_simps [simp]:
  "offers_of u ix [] = {}"
  "offers_of u ix (d # ds) = (case seed_from_document u ix d of Inl _ \<Rightarrow> offers_of u ix ds | Inr s \<Rightarrow> insert (seed_offer s) (offers_of u ix ds))"
  by (auto simp: offers_of_def split: sum.splits)

lemma seed_scored:
  assumes "seed_from_document u ix d = Inr s"
  obtains x where "redis_score (cs_priority s) = Inr x" "is_finite_number x" "seed_offer s = (cs_id s, cs_canonical_url s, x)"
  using seed_from_documentD(2) [OF assms] by (auto simp: redis_score_def seed_offer_def)

definition undisturbed :: "('w, 'z) feed_env_scheme \<Rightarrow> pydict list \<Rightarrow> pydict list \<Rightarrow> nat \<Rightarrow> bool" where
  "undisturbed E enabled disabled limit \<longleftrightarrow>
     (\<forall>w. fe_net E w = (Delivered, w) \<and> fe_mongo E w = (Inr (), w) \<and> fe_redis E w = (Inr (), w) \<and>
       fe_find E True limit w = (Inr (enabled, None), w) \<and> fe_find E False 0 w = (Inr (disabled, None), w))"

lemma distinct_update_set:
  "distinct (map fst xs) \<Longrightarrow> set (AList.update k v xs) = insert (k, v) {p \<in> set xs. fst p \<noteq> k}"
  by (induction xs) (auto simp: image_iff)

lemma merged_offers:
  assumes "distinct (map fst pending)" and "urls_agree U f (insert (i, url, s) (set pending))"
    and "pending' = (if (case map_of pending i of None \<Rightarrow> True | Some (_, old) \<Rightarrow> s < old) then AList.update i (url, s) pending else pending)"
    and "offered f (set pending' \<union> X) f'"
  shows "offered f (insert (i, url, s) (set pending) \<union> X) f'"
proof (cases "map_of pending i")
  case None
  then have "p \<in> set pending \<Longrightarrow> fst p \<noteq> i" for p by (metis map_of_eq_None_iff image_eqI)
  then have "set (AList.update i (url, s) pending) = insert (i, url, s) (set pending)"
    using distinct_update_set [OF assms(1), of i "(url, s)"] by auto
  then show ?thesis using assms(3,4) None by simp
next
  case (Some r)
  obtain url' old where r0: "r = (url', old)" by fastforce
  then have "(i, url', old) \<in> set pending" using map_of_SomeD [OF Some] by simp
  moreover have all: "\<forall>(i', url', s') \<in> insert (i, url, s) (set pending). url' = U i' \<and> is_finite_number s'"
    using assms(2) by (simp add: urls_agree_def)
  ultimately have "url' = U i \<and> is_finite_number old" by (blast dest: bspec [of _ _ "(i, url', old)"])
  then have r: "r = (url, old)" "(i, url, old) \<in> set pending" "is_finite_number old" "is_finite_number s"
    using all r0 \<open>(i, url', old) \<in> set pending\<close> by simp_all
  show ?thesis
  proof (cases "s < old")
    case True
    have other: "p = (i, url, old)" if "p \<in> set pending" "fst p = i" for p
      using eq_key_imp_eq_value [OF assms(1), of i "snd p" "(url, old)"] that r(2) by (cases p) auto
    have p': "set pending' = insert (i, url, s) {p \<in> set pending. fst p \<noteq> i}"
      using assms(3) Some r True distinct_update_set [OF assms(1), of i "(url, s)"] by simp
    have "offered f (insert (i, url, old) (set pending' \<union> X)) f'"
      using p' by (intro offered_dominated [OF assms(4), of i url s] less_imp_le_score True) simp
    moreover have "insert (i, url, old) (set pending' \<union> X) = insert (i, url, s) (set pending) \<union> X"
    proof -
      have "set pending = insert (i, url, old) {p \<in> set pending. fst p \<noteq> i}" using other r(2) by blast
      then show ?thesis unfolding p' by blast
    qed
    ultimately show ?thesis by simp
  next
    case False
    then have "offered f (insert (i, url, s) (set pending' \<union> X)) f'"
      using assms(3) Some r by (intro offered_dominated [OF assms(4), of i url old] not_less_score) simp_all
    then show ?thesis using assms(3) Some r False by simp
  qed
qed

context frontier_store
begin

lemma enqueue_batch_runs:
  assumes "undisturbed E enabled disabled limit" and "well_typed (V w)" and "frontier_sound (F w)"
    and "urls_agree U (F w) (set members)" and "\<forall>(i, url, s) \<in> set members. identified u ix i url"
  shows "wp (enqueue_batch E members False)
     (\<lambda>n v. n = length members \<and> well_typed (V v) \<and> offered (F w) (set members) (F v) \<and> only_frontier (V w) (V v)) (\<lambda>_ _. False) w"
proof -
  have "enqueue_argument m = Inr (entry_of m)" if "m \<in> set members" for m
  proof -
    obtain i url s where m: "m = (i, url, s)" by (rule prod_cases3)
    then have "identified u ix i url" using that assms(5) by auto
    then show ?thesis using identified_ascii [of u ix i url] by (simp add: m enqueue_argument_def entry_of_def)
  qed
  then have "list_all2 (\<lambda>x y. enqueue_argument x = Inr y) (sort_key fst members) (map entry_of (sort_key fst members))"
    by (simp add: list.rel_map list_all2_same)
  then have args: "mapE enqueue_argument (sort_key fst members) = Inr (map entry_of (sort_key fst members))"
    by (simp add: mapE_Inr_iff)
  have eval: "eval_script E m = m" for m :: "('w, nat) prog"
    using assms(1) by (auto simp: eval_script_def undisturbed_def fun_eq_iff)
  have ok: "\<forall>a \<in> set (map entry_of (sort_key fst members)). acceptable (F w) a"
    using acceptable_entry [OF assms(3,4)] by auto
  have "offered (F w) (set (sort_key fst members)) (fold offer (map entry_of (sort_key fst members)) (F w))"
    by (rule fold_offered [OF assms(3), where U = U]) (simp add: assms(4))
  then have off: "offered (F w) (set members) (fold offer (map entry_of (sort_key fst members)) (F w))" by simp
  have "wp (ENQUEUE_SCRIPT E (map entry_of (sort_key fst members)))
     (\<lambda>n v. n = length members \<and> well_typed (V v) \<and> offered (F w) (set members) (F v) \<and> only_frontier (V w) (V v)) (\<lambda>_ _. False) w"
    by (rule wp_call [OF enqueue_is_offers]) (use ok off assms(2) in auto)
  then show ?thesis
    using assms(2) by (auto simp: enqueue_batch_def args lift_bind eval elim!: wp_call)
qed

lemma reconcile_batch_runs:
  assumes "undisturbed E enabled disabled limit" and "well_typed (V w)"
    and "\<forall>(i, url) \<in> set members. identified u ix i url \<and> matching (F w) i url"
  shows "wp (reconcile_disabled_batch E members False)
     (\<lambda>n v. n = length members \<and> well_typed (V v) \<and> F v = without (fst ` set members) (F w) \<and> only_frontier (V w) (V v)) (\<lambda>_ _. False) w"
proof -
  have "removal_argument m = Inr m" if "m \<in> set members" for m
  proof -
    obtain i url where m: "m = (i, url)" by fastforce
    then have "identified u ix i url" using that assms(3) by auto
    then show ?thesis using identified_ascii [of u ix i url] by (simp add: m removal_argument_def)
  qed
  then have args: "mapE removal_argument (sort_key fst members) = Inr (sort_key fst members)"
    by (simp add: mapE_Inr_iff list_all2_same)
  have eval: "eval_script E m = m" for m :: "('w, nat) prog"
    using assms(1) by (auto simp: eval_script_def undisturbed_def fun_eq_iff)
  have ok: "\<forall>a \<in> set (sort_key fst members). matching (F w) (fst a) (snd a)" using assms(3) by auto
  have "wp (REMOVE_DISABLED_SCRIPT E (sort_key fst members))
     (\<lambda>n v. n = length members \<and> well_typed (V v) \<and> F v = without (fst ` set members) (F w) \<and> only_frontier (V w) (V v)) (\<lambda>_ _. False) w"
    by (rule wp_call [OF removal_is_retractions]) (use ok assms(2) in \<open>auto simp: fold_retract\<close>)
  then show ?thesis
    using assms(2) by (auto simp: reconcile_disabled_batch_def args lift_bind eval elim!: wp_call)
qed

lemma feed_loop_runs:
  assumes und: "undisturbed E enabled disabled limit"
  shows "well_typed (V w) \<Longrightarrow> frontier_sound (F w) \<Longrightarrow> distinct (map fst pending) \<Longrightarrow>
     urls_agree U (F w) (set pending \<union> offers_of u ix ds) \<Longrightarrow> \<forall>(i, url, s) \<in> set pending. identified u ix i url \<Longrightarrow>
     wp (feed_loop E b False stats pending (map (pull_seed u ix count_seen) ds))
       (\<lambda>stats' v. well_typed (V v) \<and> offered (F w) (set pending \<union> offers_of u ix ds) (F v) \<and> only_frontier (V w) (V v) \<and>
          fs_seen stats' = fs_seen stats + length ds \<and> fs_prepared stats' = fs_prepared stats + length (seeds_in u ix ds) \<and>
          fs_disabled_seen stats' = fs_disabled_seen stats)
       (\<lambda>_ _. False) w"
proof (induction ds arbitrary: w stats pending)
  case Nil
  then have "urls_agree U (F w) (set pending)" by simp
  from enqueue_batch_runs [OF und Nil.prems(1,2) this Nil.prems(5)] show ?case by (auto elim!: wp_call)
next
  case (Cons d ds)
  note prems = Cons.prems
  show ?case
  proof (cases "seed_from_document u ix d")
    case (Inl e)
    have "is_value_error e" by (rule seed_from_document_error [OF Inl])
    then have pull: "pull_seed u ix count_seen d stats = Inr (None, (count_seen stats)\<lparr>fs_skipped_invalid := fs_skipped_invalid (count_seen stats) + 1\<rparr>)"
      by (simp add: pull_seed_def Inl Let_def)
    have "urls_agree U (F w) (set pending \<union> offers_of u ix ds)" using prems(4) by (simp add: Inl)
    note run = Cons.IH [OF prems(1-3) this prems(5)]
    have step: "feed_loop E b False stats pending (map (pull_seed u ix count_seen) (d # ds)) =
        feed_loop E b False ((count_seen stats)\<lparr>fs_skipped_invalid := fs_skipped_invalid (count_seen stats) + 1\<rparr>) pending
          (map (pull_seed u ix count_seen) ds)"
      by (simp add: pull lift_bind)
    show ?thesis unfolding step by (rule wp_call [OF run]) (simp_all add: Inl count_seen_def)
  next
    case (Inr seed)
    obtain x where x: "redis_score (cs_priority seed) = Inr x" "is_finite_number x"
        "seed_offer seed = (cs_id seed, cs_canonical_url seed, x)"
      by (rule seed_scored [OF Inr])
    let ?s = "(cs_id seed, cs_canonical_url seed, x)"
    let ?stats = "count_seen stats"
    have pull: "pull_seed u ix count_seen d stats = Inr (Some seed, ?stats)"
      by (simp add: pull_seed_def Inr Let_def)
    have agree: "urls_agree U (F w) (insert ?s (set pending) \<union> offers_of u ix ds)" using prems(4) by (simp add: Inr x(3))
    define pending' where "pending' = (if (case map_of pending (cs_id seed) of None \<Rightarrow> True | Some (_, old) \<Rightarrow> x < old)
        then AList.update (cs_id seed) (cs_canonical_url seed, x) pending else pending)"
    have sub: "set pending' \<subseteq> insert ?s (set pending)"
      using set_update_subset [of "cs_id seed" "(cs_canonical_url seed, x)" pending] by (auto simp: pending'_def)
    have p': "distinct (map fst pending')" "\<forall>(i, url, s) \<in> set pending'. identified u ix i url"
      using prems(3,5) sub seed_from_documentD(1) [OF Inr] by (auto simp: pending'_def distinct_update)
    have agree': "urls_agree U (F w) (set pending' \<union> offers_of u ix ds)"
      by (rule urls_agree_mono [OF agree]) (use sub in auto)
    have merged: "offered (F w) (set pending' \<union> offers_of u ix ds) f' \<Longrightarrow> offered (F w) (set pending \<union> offers_of u ix (d # ds)) f'" for f'
    proof -
      assume o': "offered (F w) (set pending' \<union> offers_of u ix ds) f'"
      have "urls_agree U (F w) (insert ?s (set pending))" by (rule urls_agree_mono [OF agree]) auto
      from merged_offers [OF prems(3) this pending'_def o'] show ?thesis by (simp add: Inr x(3))
    qed
    have nobody: "case map_of pending (cs_id seed) of None \<Rightarrow> True | Some (url, _) \<Rightarrow> url = cs_canonical_url seed"
    proof (cases "map_of pending (cs_id seed)")
      case (Some r)
      then have "(cs_id seed, fst r, snd r) \<in> set pending" using map_of_SomeD by fastforce
      then have "fst r = U (cs_id seed)" "cs_canonical_url seed = U (cs_id seed)"
        using urls_agreeD [OF agree, of "cs_id seed" "fst r" "snd r"] urls_agreeD [OF agree, of "cs_id seed" "cs_canonical_url seed" x]
        by auto
      then show ?thesis using Some by (cases r) simp
    qed simp
    let ?loop = "\<lambda>stats pending. feed_loop E b False stats pending (map (pull_seed u ix count_seen) ds)"
    let ?stats' = "?stats\<lparr>fs_prepared := fs_prepared ?stats + 1\<rparr>"
    have step: "feed_loop E b False stats pending (map (pull_seed u ix count_seen) (d # ds)) =
        (if b \<le> int (length pending') then bind (enqueue_batch E pending' False) (\<lambda>n. ?loop (?stats'\<lparr>fs_enqueued := fs_enqueued ?stats' + n\<rparr>) [])
         else ?loop ?stats' pending')"
      using nobody by (simp add: pull lift_bind x(1) Let_def require_def flip: pending'_def)
    show ?thesis
    proof (cases "b \<le> int (length pending')")
      case False
      show ?thesis
        unfolding step using False
        by (simp only: if_False) (rule wp_call [OF Cons.IH [OF prems(1,2) p'(1) agree' p'(2), of ?stats']],
            auto simp: Inr merged count_seen_def simp del: offers_of_simps)
    next
      case True
      have now: "urls_agree U (F w) (set pending')" by (rule urls_agree_mono [OF agree']) simp
      have run: "wp (bind (enqueue_batch E pending' False) (\<lambda>n. ?loop (?stats'\<lparr>fs_enqueued := fs_enqueued ?stats' + n\<rparr>) []))
         (\<lambda>stats' v. well_typed (V v) \<and> offered (F w) (set pending \<union> offers_of u ix (d # ds)) (F v) \<and> only_frontier (V w) (V v) \<and>
          fs_seen stats' = fs_seen stats + length (d # ds) \<and> fs_prepared stats' = fs_prepared stats + length (seeds_in u ix (d # ds)) \<and>
          fs_disabled_seen stats' = fs_disabled_seen stats) (\<lambda>_ _. False) w"
        unfolding wp_bind
      proof (rule wp_call [OF enqueue_batch_runs [OF und prems(1,2) now p'(2)]], goal_cases)
        case (1 n v)
        then have v: "well_typed (V v)" "offered (F w) (set pending') (F v)" "only_frontier (V w) (V v)" by auto
        have "urls_agree U (F v) (set [] \<union> offers_of u ix ds)"
          using agree' offered_sound(2) [OF v(2) prems(2) now, of "set [] \<union> offers_of u ix ds"] urls_agreeD [OF agree'] by auto
        note run = Cons.IH [OF v(1) offered_sound(1) [OF v(2) prems(2) now] _ this]
        show ?case
          by (rule wp_call [OF run])
            (use merged [OF offered_trans [OF v(2) _ agree']] only_frontier_trans [OF v(3)] in
              \<open>auto simp: Inr count_seen_def simp del: offers_of_simps\<close>)
      qed simp
      then show ?thesis using True by (simp only: step if_True)
    qed
  qed
qed

lemma reconcile_loop_runs:
  assumes und: "undisturbed E enabled disabled limit"
  shows "well_typed (V w) \<Longrightarrow> urls_agree U (F w) (offers_of u ix ds) \<Longrightarrow>
     \<forall>(i, url) \<in> set pending. identified u ix i url \<and> url = U i \<Longrightarrow>
     wp (reconcile_loop E b False stats pending (map (pull_seed u ix count_disabled) ds))
       (\<lambda>stats' v. well_typed (V v) \<and> F v = without (fst ` set pending \<union> fst ` offers_of u ix ds) (F w) \<and> only_frontier (V w) (V v) \<and>
          fs_disabled_seen stats' = fs_disabled_seen stats + length ds \<and> fs_seen stats' = fs_seen stats \<and> fs_prepared stats' = fs_prepared stats)
       (\<lambda>_ _. False) w"
proof (induction ds arbitrary: w stats pending)
  case Nil
  then have "\<forall>(i, url) \<in> set pending. identified u ix i url \<and> matching (F w) i url"
    by (auto simp: matching_def urls_agree_def split: option.splits)
  from reconcile_batch_runs [OF und Nil.prems(1) this] show ?case by (auto elim!: wp_call)
next
  case (Cons d ds)
  note prems = Cons.prems
  show ?case
  proof (cases "seed_from_document u ix d")
    case (Inl e)
    have "is_value_error e" by (rule seed_from_document_error [OF Inl])
    then have step: "reconcile_loop E b False stats pending (map (pull_seed u ix count_disabled) (d # ds)) =
        reconcile_loop E b False ((count_disabled stats)\<lparr>fs_skipped_invalid := fs_skipped_invalid (count_disabled stats) + 1\<rparr>) pending
          (map (pull_seed u ix count_disabled) ds)"
      by (simp add: lift_bind pull_seed_def Inl Let_def)
    have "urls_agree U (F w) (offers_of u ix ds)" using prems(2) by (simp add: Inl)
    note run = Cons.IH [OF prems(1) this prems(3)]
    show ?thesis unfolding step by (rule wp_call [OF run]) (simp_all add: Inl count_disabled_def)
  next
    case (Inr seed)
    obtain x where x: "seed_offer seed = (cs_id seed, cs_canonical_url seed, x)" by (rule seed_scored [OF Inr])
    define pending' where "pending' = AList.update (cs_id seed) (cs_canonical_url seed) pending"
    have seed: "cs_canonical_url seed = U (cs_id seed)" and agree: "urls_agree U (F w) (offers_of u ix ds)"
      using prems(2) by (auto simp: Inr x urls_agree_def)
    have p': "\<forall>(i, url) \<in> set pending'. identified u ix i url \<and> url = U i"
      using set_update_subset [of "cs_id seed" "cs_canonical_url seed" pending] prems(3) seed seed_from_documentD(1) [OF Inr]
      by (auto simp: pending'_def)
    have ids: "fst ` set pending' \<union> R = insert (cs_id seed) (fst ` set pending) \<union> R" for R
      using dom_update [of "cs_id seed" "cs_canonical_url seed" pending]
      by (auto simp: pending'_def dom_map_of_conv_image_fst)
    have nobody: "case map_of pending (cs_id seed) of None \<Rightarrow> True | Some url \<Rightarrow> url = cs_canonical_url seed"
      using prems(3) seed by (auto dest!: map_of_SomeD split: option.splits)
    let ?loop = "\<lambda>stats pending. reconcile_loop E b False stats pending (map (pull_seed u ix count_disabled) ds)"
    let ?stats = "count_disabled stats"
    have step: "reconcile_loop E b False stats pending (map (pull_seed u ix count_disabled) (d # ds)) =
        (if b \<le> int (length pending')
         then bind (reconcile_disabled_batch E pending' False) (\<lambda>n. ?loop (?stats\<lparr>fs_disabled_reconciled := fs_disabled_reconciled ?stats + n\<rparr>) [])
         else ?loop ?stats pending')"
      using nobody by (simp add: lift_bind pull_seed_def Inr Let_def require_def flip: pending'_def)
    have all: "fst ` set pending' \<union> fst ` offers_of u ix ds = fst ` set pending \<union> fst ` offers_of u ix (d # ds)"
      unfolding ids by (auto simp: Inr x)
    show ?thesis
    proof (cases "b \<le> int (length pending')")
      case False
      show ?thesis
        unfolding step using False
        by (simp only: if_False) (rule wp_call [OF Cons.IH [OF prems(1) agree p', of ?stats]],
            auto simp: all count_disabled_def simp del: offers_of_simps)
    next
      case True
      have now: "\<forall>(i, url) \<in> set pending'. identified u ix i url \<and> matching (F w) i url"
        using p' prems(2) by (auto simp: matching_def urls_agree_def split: option.splits)
      have "wp (bind (reconcile_disabled_batch E pending' False) (\<lambda>n. ?loop (?stats\<lparr>fs_disabled_reconciled := fs_disabled_reconciled ?stats + n\<rparr>) []))
         (\<lambda>stats' v. well_typed (V v) \<and> F v = without (fst ` set pending \<union> fst ` offers_of u ix (d # ds)) (F w) \<and> only_frontier (V w) (V v) \<and>
          fs_disabled_seen stats' = fs_disabled_seen stats + length (d # ds) \<and> fs_seen stats' = fs_seen stats \<and> fs_prepared stats' = fs_prepared stats)
         (\<lambda>_ _. False) w"
        unfolding wp_bind
      proof (rule wp_call [OF reconcile_batch_runs [OF und prems(1) now]], goal_cases)
        case (1 n v)
        then have v: "well_typed (V v)" "F v = without (fst ` set pending') (F w)" "only_frontier (V w) (V v)" by auto
        have "urls_agree U (F v) (offers_of u ix ds)" unfolding v(2) by (rule without_agrees [OF agree])
        then show ?case
          by (rule wp_call [OF Cons.IH [OF v(1), of "[]"]])
            (use only_frontier_trans [OF v(3)] all in \<open>auto simp: v(2) count_disabled_def Un_commute simp del: offers_of_simps\<close>)
      qed simp
      then show ?thesis using True by (simp only: step if_True)
    qed
  qed
qed

lemma feed_main_runs:
  assumes und: "undisturbed E enabled disabled (nat (fa_limit args))" and "well_typed (V w)" and "frontier_sound (F w)"
    and "urls_agree U (F w) (offers_of u ix enabled \<union> offers_of u ix disabled)"
    and "0 \<le> fa_limit args" and "1 \<le> fa_batch_size args" and "\<not> fa_dry_run args"
  shows "wp (feed_main u ix E args)
     (\<lambda>(code, stats) v. code = 0 \<and> (\<exists>s. stats = Some s \<and> fs_seen s = length enabled \<and> fs_prepared s = length (seeds_in u ix enabled) \<and>
          fs_disabled_seen s = length disabled) \<and>
        offered (without (fst ` offers_of u ix disabled) (F w)) (offers_of u ix enabled) (F v) \<and> only_frontier (V w) (V v))
     (\<lambda>_ _. False) w"
proof -
  have env: "fe_mongo E v = (Inr (), v)" "fe_redis E v = (Inr (), v)" "fe_find E True (nat (fa_limit args)) v = (Inr (enabled, None), v)"
    "fe_find E False 0 v = (Inr (disabled, None), v)" for v
    using und by (auto simp: undisturbed_def)
  have agree: "urls_agree U (F w) (offers_of u ix disabled)" "urls_agree U (F w) (offers_of u ix enabled)"
    using urls_agree_mono [OF assms(4)] by auto
  note first = reconcile_loop_runs [OF und assms(2) agree(1), of "[]" "fa_batch_size args" no_stats, simplified]
  have iter: "iter_mongo_disabled_seeds u ix E v = (Inr (map (pull_seed u ix count_disabled) disabled), v)"
    "iter_mongo_seeds u ix E (nat (fa_limit args)) v = (Inr (map (pull_seed u ix count_seen) enabled), v)" for v
    by (simp_all add: iter_mongo_disabled_seeds_def iter_mongo_seeds_def bind_eq env pulls_def)
  have second: "wp (feed_seeds E (iter_mongo_seeds u ix E (nat (fa_limit args))) (fa_batch_size args) False stats)
      (\<lambda>s v'. offered (without (fst ` offers_of u ix disabled) (F w)) (offers_of u ix enabled) (F v') \<and> only_frontier (V w) (V v') \<and>
         fs_seen s = fs_seen stats + length enabled \<and> fs_prepared s = fs_prepared stats + length (seeds_in u ix enabled) \<and>
         fs_disabled_seen s = fs_disabled_seen stats) (\<lambda>_ _. False) v"
    if v: "well_typed (V v)" "F v = without (fst ` offers_of u ix disabled) (F w)" "only_frontier (V w) (V v)" for v stats
  proof -
    have "frontier_sound (F v)" "urls_agree U (F v) (set [] \<union> offers_of u ix enabled)"
      using without_sound [OF assms(3)] without_agrees [OF agree(2)] by (simp_all add: v(2))
    note run = feed_loop_runs [OF und v(1) this(1) _ this(2), of "fa_batch_size args" stats, simplified]
    have "wp (feed_loop E (fa_batch_size args) False stats [] (map (pull_seed u ix count_seen) enabled))
      (\<lambda>s v'. offered (without (fst ` offers_of u ix disabled) (F w)) (offers_of u ix enabled) (F v') \<and> only_frontier (V w) (V v') \<and>
         fs_seen s = fs_seen stats + length enabled \<and> fs_prepared s = fs_prepared stats + length (seeds_in u ix enabled) \<and>
         fs_disabled_seen s = fs_disabled_seen stats) (\<lambda>_ _. False) v"
      by (rule wp_call [OF run]) (use only_frontier_trans [OF v(3)] v(2) in auto)
    then show ?thesis
      using assms(6) by (simp add: feed_seeds_def wp_def bind_eq iter require_def)
  qed
  have "wp (bind (reconcile_disabled_seeds E (iter_mongo_disabled_seeds u ix E) (fa_batch_size args) False no_stats) (\<lambda>stats.
         bind (feed_seeds E (iter_mongo_seeds u ix E (nat (fa_limit args))) (fa_batch_size args) False stats) (\<lambda>stats'. ret (0 :: nat, Some stats'))))
     (\<lambda>(code, stats) v. code = 0 \<and> (\<exists>s. stats = Some s \<and> fs_seen s = length enabled \<and> fs_prepared s = length (seeds_in u ix enabled) \<and>
          fs_disabled_seen s = length disabled) \<and>
        offered (without (fst ` offers_of u ix disabled) (F w)) (offers_of u ix enabled) (F v) \<and> only_frontier (V w) (V v))
     (\<lambda>_ _. False) w"
  proof -
    have "reconcile_disabled_seeds E (iter_mongo_disabled_seeds u ix E) (fa_batch_size args) False no_stats w =
        reconcile_loop E (fa_batch_size args) False no_stats [] (map (pull_seed u ix count_disabled) disabled) w"
      by (simp add: reconcile_disabled_seeds_def bind_eq iter)
    then have "wp (reconcile_disabled_seeds E (iter_mongo_disabled_seeds u ix E) (fa_batch_size args) False no_stats)
       (\<lambda>stats' v. well_typed (V v) \<and> F v = without (fst ` offers_of u ix disabled) (F w) \<and> only_frontier (V w) (V v) \<and>
          fs_disabled_seen stats' = length disabled \<and> fs_seen stats' = 0 \<and> fs_prepared stats' = 0) (\<lambda>_ _. False) w"
      using first by (simp add: wp_def no_stats_def)
    then show ?thesis
      unfolding wp_bind [of "reconcile_disabled_seeds _ _ _ _ _"]
    proof (rule wp_call, goal_cases)
      case (1 stats v)
      then show ?case unfolding wp_bind by (intro wp_call [OF second]) auto
    qed simp
  qed
  then show ?thesis
    using assms(5,6,7) by (auto simp: feed_main_def wp_def bind_eq catch_def env split: prod.splits sum.splits)
qed

end

text \<open>
  C34. A run that is not disturbed finishes: it exits with 0 and has counted every record, and the frontier is the old one
  without the disabled seeds and with every enabled seed, each under its URL, at depth 0 and with the lowest score
  offered for it. The frontier may hold anything else before, as long as its numbers are numbers and an
  identifier does not have two URLs.
\<close>

theorem feed_queues_every_enabled_seed:
  assumes "frontier_store E V" and "undisturbed E enabled disabled (nat (fa_limit args))"
    and "well_typed (V w)" and "frontier_sound (frontier_of (V w))"
    and "urls_agree U (frontier_of (V w)) (offers_of u ix enabled \<union> offers_of u ix disabled)"
    and "0 \<le> fa_limit args" and "1 \<le> fa_batch_size args" and "\<not> fa_dry_run args"
  shows "\<exists>stats w'. feed_main u ix E args w = (Inr (0, Some stats), w') \<and>
     fs_seen stats = length enabled \<and> fs_prepared stats = length (seeds_in u ix enabled) \<and> fs_disabled_seen stats = length disabled \<and>
     offered (without (fst ` offers_of u ix disabled) (frontier_of (V w))) (offers_of u ix enabled) (frontier_of (V w')) \<and>
     only_frontier (V w) (V w')"
  using frontier_store.feed_main_runs [OF assms] unfolding wp_def by (auto split: prod.splits sum.splits)

lemma mem_feed_undisturbed: "undisturbed (mem_feed enabled disabled) enabled disabled 0"
  by (simp add: undisturbed_def mem_feed_def)

theorem feed_queues_every_enabled_seed_witness:
  "\<exists>d s stats w'. seed_from_document plain_ucd no_alabels d = Inr s \<and>
     feed_main plain_ucd no_alabels (mem_feed [d] []) \<lparr>fa_limit = 0, fa_batch_size = 1, fa_dry_run = False\<rparr> Map.empty = (Inr (0, Some stats), w') \<and>
     fs_prepared stats = 1 \<and> fr_urls (frontier_of w') (cs_id s) = Some (cs_canonical_url s)"
proof -
  obtain d s where d: "seed_from_document plain_ucd no_alabels d = Inr s" by (rule example_feed)
  obtain x where x: "is_finite_number x" "seed_offer s = (cs_id s, cs_canonical_url s, x)" by (rule seed_scored [OF d])
  have empty: "well_typed Map.empty" "frontier_sound (frontier_of Map.empty)"
    by (simp_all add: well_typed_def hash_or_none_def zset_or_none_def frontier_sound_def frontier_of_def)
  have agree: "urls_agree (\<lambda>_. cs_canonical_url s) (frontier_of Map.empty) (offers_of plain_ucd no_alabels [d] \<union> offers_of plain_ucd no_alabels [])"
    using x by (simp add: d urls_agree_def frontier_of_def)
  obtain stats w' where run: "feed_main plain_ucd no_alabels (mem_feed [d] []) \<lparr>fa_limit = 0, fa_batch_size = 1, fa_dry_run = False\<rparr> Map.empty = (Inr (0, Some stats), w')"
      "fs_prepared stats = length (seeds_in plain_ucd no_alabels [d])"
      "offered (without (fst ` offers_of plain_ucd no_alabels []) (frontier_of Map.empty)) (offers_of plain_ucd no_alabels [d]) (frontier_of w')"
    using feed_queues_every_enabled_seed [where V = "\<lambda>w. w" and w = Map.empty and args = "\<lparr>fa_limit = 0, fa_batch_size = 1, fa_dry_run = False\<rparr>",
        OF mem_frontier.frontier_store_axioms [of "[d]" "[]"] _ empty agree] mem_feed_undisturbed [of "[d]" "[]"] by auto
  have "fr_urls (frontier_of w') (cs_id s) = Some (cs_canonical_url s)"
    using offeredD(1) [OF run(3), of "cs_id s"] x(2) by (simp add: d)
  then show ?thesis using d run(1,2) by (metis (no_types, lifting) One_nat_def length_Cons list.size(3) seeds_in_simps sum.simps(6))
qed

end
