(* ===== verification/Reddit_Urls.thy ===== *)
theory Reddit_Urls
  imports Crawl_Seed Py_Number Json
begin

text \<open>
  The URLs of the Reddit adapter (\<open>services/seed-importer/reddit.py\<close>): extraction from a text, unwrapping of
  outbound redirects, the exclusion of Reddit's own hosts, and the HTML and JSON forms of a Reddit page.

  \<open>identify_url\<close> raises nothing but \<open>URLCanonicalizationError\<close> (\<open>identify_url_errors\<close>), and its canonical URL can
  always be split, so the functions that catch that exception return an option.
\<close>

section \<open>Extraction\<close>

text \<open>\<open>https?://[^\s<>()\[\]{}\"']+\<close>: the characters of a URL, and the length of a match at the start of a text.\<close>

definition url_char :: "nat \<Rightarrow> bool" where
  "url_char c \<longleftrightarrow> \<not> is_space c \<and> c \<notin> set (py ''<>()[]{}'') \<and> c \<noteq> 34 \<and> c \<noteq> 39"

definition url_match :: "pystr \<Rightarrow> nat option" where
  "url_match s =
     (let prefix = (if starts_with (py ''http://'') s then 7 else if starts_with (py ''https://'') s then 8 else 0);
          n = length (takeWhile url_char (drop prefix s)) in
      if prefix = 0 \<or> n = 0 then None else Some (prefix + n))"

lemma url_match_positive: "url_match s = Some n \<Longrightarrow> 0 < n"
  by (auto simp: url_match_def Let_def split: if_splits)

function find_urls :: "pystr \<Rightarrow> pystr list" where
  "find_urls [] = []"
| "find_urls (c # s) =
     (case url_match (c # s) of
        None \<Rightarrow> find_urls s
      | Some n \<Rightarrow> take n (c # s) # find_urls (drop n (c # s)))"
  by pat_completeness auto
termination
  by (relation "measure length") (auto dest: url_match_positive)

definition right_strip :: "(nat \<Rightarrow> bool) \<Rightarrow> pystr \<Rightarrow> pystr" where
  "right_strip P s = rev (dropWhile P (rev s))"

definition clean_extracted_url :: "pystr \<Rightarrow> pystr" where
  "clean_extracted_url raw_url = right_strip (\<lambda>c. c \<in> set (py ''.,);]'')) (py_strip raw_url)"

section \<open>Identities\<close>

definition try_identify :: "ucd \<Rightarrow> idna \<Rightarrow> pystr \<Rightarrow> url_identity option" where
  "try_identify u ix raw_url = (case identify_url u ix raw_url of Inl _ \<Rightarrow> None | Inr i \<Rightarrow> Some i)"

definition host_of :: "ucd \<Rightarrow> split_result \<Rightarrow> pystr" where
  "host_of u parsed = py_lower (uc_lower u) (sr_hostname u parsed)"

text \<open>\<open>parse_qsl(query, keep_blank_values=True)\<close>\<close>

definition query_text_value :: "pystr \<Rightarrow> pystr" where
  "query_text_value s = unquote (map (\<lambda>c. if c = 43 then 32 else c) s)"

definition parse_qsl :: "pystr \<Rightarrow> (pystr \<times> pystr) list" where
  "parse_qsl query =
     map (\<lambda>pair. let (name, _, text_value) = partition_at 61 pair in (query_text_value name, query_text_value text_value))
       (filter (\<lambda>pair. pair \<noteq> []) (split_on 38 query))"

definition unwrap_reddit_out_url :: "ucd \<Rightarrow> idna \<Rightarrow> pystr \<Rightarrow> pystr" where
  "unwrap_reddit_out_url u ix raw_url =
     (case try_identify u ix raw_url of
        None \<Rightarrow> raw_url
      | Some i \<Rightarrow>
          if \<not> ui_crawl_eligible i \<or> \<not> starts_with (py ''https://'') (ui_canonical_url i) then raw_url
          else (case urlsplit u (ui_canonical_url i) of
            Inl _ \<Rightarrow> raw_url
          | Inr parsed \<Rightarrow>
              if host_of u parsed \<noteq> py ''out.reddit.com'' then raw_url
              else (case filter (\<lambda>(key, target). key = py ''url'' \<and> target \<noteq> []) (parse_qsl (sr_query parsed)) of
                [] \<Rightarrow> raw_url
              | (_, target) # _ \<Rightarrow> target)))"

definition is_reddit_owned_host :: "ucd \<Rightarrow> pystr \<Rightarrow> bool" where
  "is_reddit_owned_host u name =
     (let host = py_lower (uc_lower u) name in
      host = py ''reddit.com'' \<or> ends_with (py ''.reddit.com'') host \<or>
      host = py ''redd.it'' \<or> ends_with (py ''.redd.it'') host)"

text \<open>The observation and the text to identify; \<open>None\<close> excludes the URL.\<close>

definition prepare_reddit_outbound_url :: "ucd \<Rightarrow> idna \<Rightarrow> pystr \<Rightarrow> (pystr \<times> pystr) option" where
  "prepare_reddit_outbound_url u ix raw_url =
     (let obs = clean_extracted_url raw_url; candidate = unwrap_reddit_out_url u ix obs in
      case urlsplit u candidate of
        Inl _ \<Rightarrow> None
      | Inr parsed \<Rightarrow>
          if is_reddit_owned_host u (host_of u parsed) then None else Some (obs, candidate))"

section \<open>Reddit pages\<close>

definition REDDIT_PAGE_HOSTS :: "pystr list" where
  "REDDIT_PAGE_HOSTS = map py [''reddit.com'', ''www.reddit.com'', ''old.reddit.com'']"

definition REDDIT_PATH_SAFE :: pystr where "REDDIT_PATH_SAFE = py ''/:@!$&'()*+,;=-._~''"

text \<open>\<open>%(?:25|2F|5C)\<close>, ignoring case, found anywhere.\<close>

definition ambiguous_path_escape :: "pystr \<Rightarrow> bool" where
  "ambiguous_path_escape path \<longleftrightarrow>
     list_ex (\<lambda>escape. has_sub escape (map lower_ascii path)) [py ''%25'', py ''%2f'', py ''%5c'']"

text \<open>The path is that of a canonical URL: ASCII, so that it is its own encoding.\<close>

definition unambiguous_reddit_path :: "pystr \<Rightarrow> bool" where
  "unambiguous_reddit_path path \<longleftrightarrow>
     \<not> (92 \<in> set path \<or> has_sub (py ''//'') path \<or> ambiguous_path_escape path) \<and>
     (case utf8_decode (unquote_bytes path) of
        None \<Rightarrow> False
      | Some decoded \<Rightarrow>
          quote REDDIT_PATH_SAFE decoded = Some path \<and>
          list_all (\<lambda>segment. segment \<noteq> py ''.'' \<and> segment \<noteq> py ''..'') (split_on 47 decoded))"

definition reddit_page_parts :: "ucd \<Rightarrow> idna \<Rightarrow> pystr \<Rightarrow> (split_result \<times> bool) option" where
  "reddit_page_parts u ix raw_url =
     (case try_identify u ix raw_url of
        None \<Rightarrow> None
      | Some i \<Rightarrow>
          if \<not> ui_crawl_eligible i then None
          else (case urlsplit u (ui_canonical_url i) of
            Inl _ \<Rightarrow> None
          | Inr parsed \<Rightarrow>
              if host_of u parsed \<notin> set REDDIT_PAGE_HOSTS \<or> \<not> unambiguous_reddit_path (sr_path parsed) then None
              else Some (parsed, 63 \<in> set (ui_canonical_url i))))"

text \<open>\<open>urlunsplit\<close> of an \<open>https\<close> URL with a host and without a fragment.\<close>

definition reddit_url :: "pystr \<Rightarrow> pystr \<Rightarrow> pystr \<Rightarrow> bool \<Rightarrow> pystr" where
  "reddit_url host path query has_query =
     py ''https://'' @ host @ (if path \<noteq> [] \<and> hd path \<noteq> 47 then 47 # path else path) @
     (if query \<noteq> [] then 63 # query else []) @ (if has_query \<and> query = [] then [63] else [])"

definition validated_generated_reddit_url :: "ucd \<Rightarrow> idna \<Rightarrow> pystr \<Rightarrow> pystr option" where
  "validated_generated_reddit_url u ix raw_url =
     (case try_identify u ix raw_url of
        None \<Rightarrow> None
      | Some i \<Rightarrow>
          if \<not> ui_crawl_eligible i \<or> ui_canonical_url i \<noteq> raw_url then None
          else (case urlsplit u (ui_canonical_url i) of
            Inl _ \<Rightarrow> None
          | Inr parsed \<Rightarrow>
              if host_of u parsed \<notin> set REDDIT_PAGE_HOSTS \<or> \<not> unambiguous_reddit_path (sr_path parsed) then None
              else Some (ui_canonical_url i)))"

definition reddit_html_path :: "pystr \<Rightarrow> pystr" where
  "reddit_html_path path =
     (let path = (if path = [] then [47] else path);
          path = (if path \<noteq> [47] then right_strip (\<lambda>c. c = 47) path else path);
          path = (if ends_with (py ''/.json'') path then take (length path - 6) path
                  else if ends_with (py ''.json'') path then take (length path - 5) path else path) in
      if path = [] then [47] else path)"

definition reddit_json_path :: "pystr \<Rightarrow> pystr" where
  "reddit_json_path path =
     (let html_path = reddit_html_path path in
      if html_path = [47] then py ''/.json'' else html_path @ py ''.json'')"

definition www_host :: "pystr \<Rightarrow> pystr" where
  "www_host host = (if host = py ''reddit.com'' then py ''www.reddit.com'' else host)"

definition reddit_html_url :: "ucd \<Rightarrow> idna \<Rightarrow> pystr \<Rightarrow> pystr option" where
  "reddit_html_url u ix raw_url =
     (case reddit_page_parts u ix raw_url of
        None \<Rightarrow> None
      | Some (parsed, has_query) \<Rightarrow>
          validated_generated_reddit_url u ix
            (reddit_url (www_host (host_of u parsed)) (reddit_html_path (sr_path parsed)) (sr_query parsed) has_query))"

definition old_reddit_url :: "ucd \<Rightarrow> idna \<Rightarrow> pystr \<Rightarrow> pystr option" where
  "old_reddit_url u ix raw_url =
     (case reddit_page_parts u ix raw_url of
        None \<Rightarrow> None
      | Some (parsed, has_query) \<Rightarrow>
          validated_generated_reddit_url u ix
            (reddit_url (py ''old.reddit.com'') (reddit_html_path (sr_path parsed)) (sr_query parsed) has_query))"

definition reddit_json_url :: "ucd \<Rightarrow> idna \<Rightarrow> pystr \<Rightarrow> pystr option" where
  "reddit_json_url u ix raw_url =
     (case reddit_page_parts u ix raw_url of
        None \<Rightarrow> None
      | Some (parsed, has_query) \<Rightarrow>
          validated_generated_reddit_url u ix
            (reddit_url (www_host (host_of u parsed)) (reddit_json_path (sr_path parsed)) (sr_query parsed) has_query))"

definition reddit_crawl_urls :: "ucd \<Rightarrow> idna \<Rightarrow> pystr \<Rightarrow> pystr list option" where
  "reddit_crawl_urls u ix raw_url =
     (case reddit_page_parts u ix raw_url of
        None \<Rightarrow> None
      | Some (parsed, has_query) \<Rightarrow>
          let html_path = reddit_html_path (sr_path parsed); json_path = reddit_json_path (sr_path parsed);
              validated = map (validated_generated_reddit_url u ix)
                [reddit_url (py ''www.reddit.com'') html_path (sr_query parsed) has_query,
                 reddit_url (py ''old.reddit.com'') html_path (sr_query parsed) has_query,
                 reddit_url (py ''www.reddit.com'') json_path (sr_query parsed) has_query,
                 reddit_url (py ''old.reddit.com'') json_path (sr_query parsed) has_query] in
          if None \<in> set validated then None else Some (map the validated))"

definition full_reddit_permalink :: "ucd \<Rightarrow> idna \<Rightarrow> pystr \<Rightarrow> pystr option" where
  "full_reddit_permalink u ix permalink =
     (if permalink = [] then None
      else if starts_with (py ''http://'') permalink \<or> starts_with (py ''https://'') permalink
      then old_reddit_url u ix permalink
      else old_reddit_url u ix (py ''https://old.reddit.com'' @ permalink))"

section \<open>What identification raises and what a canonical URL splits into\<close>

definition is_url_error :: "exn \<Rightarrow> bool" where
  "is_url_error e \<longleftrightarrow> (\<exists>code. e = URLCanonicalizationError code)"

lemma url_guard_errors:
  "seed_utf8_length s = Inl e \<Longrightarrow> is_url_error e"
  "encode_component safe s = Inl e \<Longrightarrow> is_url_error e"
  "port_number s = Inl e \<Longrightarrow> is_url_error e"
  "validate_domain_host u ix s = Inl e \<Longrightarrow> is_url_error e"
  by (auto simp: is_url_error_def seed_utf8_length_def encode_component_def port_number_def validate_domain_host_def sum_iffs Let_def
      split: option.splits)

lemma url_check_errors:
  "raw_url_checks s = Inl e \<Longrightarrow> is_url_error e"
  "explicit_port s is_ip = Inl e \<Longrightarrow> is_url_error e"
  "validated_host u ix s = Inl e \<Longrightarrow> is_url_error e"
proof -
  show "raw_url_checks s = Inl e \<Longrightarrow> is_url_error e"
    using url_guard_errors(1) by (auto simp: raw_url_checks_def sum_iffs) (auto simp: is_url_error_def)
  show "explicit_port s is_ip = Inl e \<Longrightarrow> is_url_error e"
    using url_guard_errors(3) by (auto simp: explicit_port_def Let_def split: if_splits prod.splits) (auto simp: is_url_error_def)
  show "validated_host u ix s = Inl e \<Longrightarrow> is_url_error e"
    using url_guard_errors(4) by (auto simp: validated_host_def sum_iffs Let_def split: if_splits) (auto simp: is_url_error_def)
qed

lemma canonicalize_parsed_errors: "canonicalize_parsed u ix raw r = Inl e \<Longrightarrow> is_url_error e"
  unfolding canonicalize_parsed_def Let_def
  by (cases "sr_port r"; auto simp: sum_iffs dest: url_guard_errors url_check_errors) (auto simp: is_url_error_def)

lemma identify_url_errors: "identify_url u ix raw = Inl e \<Longrightarrow> is_url_error e"
proof (cases "canonicalize_url u ix raw")
  case (Inl f)
  assume "identify_url u ix raw = Inl e"
  then have "canonicalize_url u ix raw = Inl e" using Inl by (simp add: identify_url_def)
  then show ?thesis
    by (auto simp: canonicalize_url_def sum_iffs dest: url_check_errors canonicalize_parsed_errors split: sum.splits)
      (auto simp: is_url_error_def)
next
  case (Inr c)
  assume "identify_url u ix raw = Inl e"
  then show ?thesis using identify_url_parts [OF Inr] by auto
qed

lemma try_identify_iff: "try_identify u ix raw = Some i \<longleftrightarrow> identify_url u ix raw = Inr i"
  by (simp add: try_identify_def split: sum.splits)

text \<open>The host of a canonical URL is the lower-cased host of the text it came from.\<close>

lemma canonical_host:
  assumes "canonicalize_url u ix raw = Inr c"
  shows "\<exists>r s. urlsplit u raw = Inr r \<and> urlsplit u c = Inr s \<and> sr_hostname u s = host_of u r \<and> host_of u s = host_of u r"
proof -
  obtain r scheme host port path query where ch: "validate_characters c = Inr ()" and r: "urlsplit u raw = Inr r"
    "host = py_lower (uc_lower u) (sr_hostname u r)"
    and c: "c = canonical_text scheme host port path query" and parts: "canonical_parts u ix scheme host port path query"
    using canonicalize_url_parts [OF assms] by blast
  have p: "parts_ok scheme port path query" "host_chars_ok host"
    using parts host_accepted_chars by (auto simp: canonical_parts_def)
  have "url_cleanup c = c" using url_cleanup_id validate_charactersD(4,5) [OF ch] by blast
  then obtain s where s: "urlsplit u c = Inr s" "sr_hostname u s = host"
    using urlsplit_canonical [OF p, of u] unfolding c by blast
  moreover have "py_lower (uc_lower u) host = host" using p(2) by (simp add: host_chars_ok_def py_lower_ascii)
  ultimately show ?thesis using r by (auto simp: host_of_def)
qed

text \<open>An observation that is prepared and identified is not a Reddit URL.\<close>

lemma prepared_not_reddit:
  assumes "prepare_reddit_outbound_url u ix raw = Some (obs, candidate)" and "identify_url u ix candidate = Inr i"
  shows "\<exists>s. urlsplit u (ui_canonical_url i) = Inr s \<and> \<not> is_reddit_owned_host u (sr_hostname u s)"
proof -
  obtain r where r: "urlsplit u candidate = Inr r" "\<not> is_reddit_owned_host u (host_of u r)"
    using assms(1) by (auto simp: prepare_reddit_outbound_url_def Let_def split: sum.splits if_splits)
  have "canonicalize_url u ix candidate = Inr (ui_canonical_url i)" using assms(2) by (auto simp: identify_url_def sum_iffs)
  then show ?thesis using canonical_host r by fastforce
qed

end
