(* ===== verification/Reddit_Import.thy ===== *)
theory Reddit_Import
  imports Reddit_Urls Seed_Mongo
begin

text \<open>
  The rest of the Reddit adapter (\<open>services/seed-importer/reddit.py\<close>): loading an approved export, its posts and
  comments, the seeds they propose, and the run that merges the seeds and writes them to the catalog.

  The JSON schema is checked by a third-party package: the argument \<open>rd_schema\<close>. What depends on the interpreter
  (case folding and decimal digits beyond ASCII, floating-point numbers, \<open>str\<close> of lists and dictionaries) is in
  the same record.
\<close>

record reddit_env =
  rd_schema :: "pyval \<Rightarrow> bool"
  rd_casefold :: "pystr \<Rightarrow> pystr"
  rd_digit :: "nat \<Rightarrow> nat option"
  rd_float :: "pystr \<Rightarrow> nat"
  rd_float_true :: "nat \<Rightarrow> bool"
  rd_float_int :: "nat \<Rightarrow> exn + int"
  rd_text :: "pyval \<Rightarrow> pystr"

section \<open>Dynamic values\<close>

fun truthy :: "reddit_env \<Rightarrow> pyval \<Rightarrow> bool" where
  "truthy E VNone = False"
| "truthy E (VBool b) = b"
| "truthy E (VInt n) = (n \<noteq> 0)"
| "truthy E (VStr s) = (s \<noteq> [])"
| "truthy E (VDate d) = True"
| "truthy E (VList xs) = (xs \<noteq> [])"
| "truthy E (VDict d) = (d \<noteq> [])"
| "truthy E (VOther k) = rd_float_true E k"

text \<open>\<open>a or b\<close>, \<open>str(v)\<close> and \<open>int(v)\<close>\<close>

definition or_else :: "reddit_env \<Rightarrow> pyval \<Rightarrow> pyval \<Rightarrow> pyval" where
  "or_else E a b = (if truthy E a then a else b)"

definition text_of :: "reddit_env \<Rightarrow> pyval \<Rightarrow> pystr" where
  "text_of E v =
     (case v of
        VStr s \<Rightarrow> s
      | VInt n \<Rightarrow> (if n < 0 then 45 # show_nat (nat (- n)) else show_nat (nat n))
      | VBool b \<Rightarrow> py (if b then ''True'' else ''False'')
      | _ \<Rightarrow> rd_text E v)"

definition int_of :: "reddit_env \<Rightarrow> pyval \<Rightarrow> exn + int" where
  "int_of E v =
     (case v of
        VInt n \<Rightarrow> Inr n
      | VBool b \<Rightarrow> Inr (if b then 1 else 0)
      | VStr s \<Rightarrow> py_int (rd_digit E) s
      | VOther k \<Rightarrow> rd_float_int E k
      | _ \<Rightarrow> Inl (TypeError ''int() argument must be a string, a bytes-like object or a real number''))"

definition casefold :: "reddit_env \<Rightarrow> pystr \<Rightarrow> pystr" where
  "casefold E s = lower_text (rd_casefold E) s"

section \<open>Loading\<close>

definition MAX_REDDIT_EXPORT_BYTES :: nat where "MAX_REDDIT_EXPORT_BYTES = 5 * 1024 * 1024"

definition REDDIT_SOURCE_TYPE :: pystr where "REDDIT_SOURCE_TYPE = py ''reddit_json''"

definition REDDIT_EXPORT_FIELDS :: "pystr list" where
  "REDDIT_EXPORT_FIELDS = map py [''schema_version'', ''source_url'', ''category'', ''priority'', ''payload'']"

text \<open>
  The value that \<open>json.loads\<close> makes of a parsed text, with \<open>_unique_json_object\<close> and \<open>_reject_json_constant\<close>: a
  repeated member, a non-standard constant and an integer of too many digits are a \<open>ValueError\<close>.
\<close>

definition json_number :: "reddit_env \<Rightarrow> pystr \<Rightarrow> exn + pyval" where
  "json_number E s =
     (if s \<in> set (map py [''NaN'', ''Infinity'', ''-Infinity'']) then Inl (ValueError ''non-standard JSON constant'')
      else if list_all (\<lambda>c. ascii_digit c \<or> c = 45) s then bindE (py_int (rd_digit E) s) (\<lambda>n. Inr (VInt n))
      else Inr (VOther (rd_float E s)))"

fun pyval_of_json :: "reddit_env \<Rightarrow> json \<Rightarrow> exn + pyval" where
  "pyval_of_json E JNull = Inr VNone"
| "pyval_of_json E (JBool b) = Inr (VBool b)"
| "pyval_of_json E (JNumber s) = json_number E s"
| "pyval_of_json E (JString s) = Inr (VStr s)"
| "pyval_of_json E (JArray js) = bindE (mapE id (map (pyval_of_json E) js)) (\<lambda>vs. Inr (VList vs))"
| "pyval_of_json E (JObject ms) =
     bindE (mapE id (map (\<lambda>(k, j). bindE (pyval_of_json E j) (\<lambda>v. Inr (k, v))) ms)) (\<lambda>kvs.
     bindE (requireE (distinct (map fst kvs)) (ValueError ''duplicate JSON member'')) (\<lambda>_. Inr (VDict kvs)))"

text \<open>\<open>file\<close> is what opening and reading the file gives.\<close>

definition load_json_file :: "reddit_env \<Rightarrow> exn + bytes \<Rightarrow> exn + pyval" where
  "load_json_file E file =
     bindE file (\<lambda>content.
     let data = take (MAX_REDDIT_EXPORT_BYTES + 1) content in
     bindE (requireE (length data \<le> MAX_REDDIT_EXPORT_BYTES) (ValueError ''Reddit export exceeds the byte limit'')) (\<lambda>_.
     case utf8_decode data of
       None \<Rightarrow> Inl (UnicodeError ''decode'')
     | Some s \<Rightarrow>
         (case json_loads s of
            None \<Rightarrow> Inl (ValueError ''JSONDecodeError'')
          | Some j \<Rightarrow> pyval_of_json E j)))"

section \<open>Posts and comments\<close>

lemma size_member: "(k, v) \<in> set d \<Longrightarrow> size v < size (VDict d)"
  by (induction d) auto

lemma size_field: "fld k d = v \<Longrightarrow> v \<noteq> VNone \<Longrightarrow> size v < size (VDict d)"
  by (auto simp: fld_def split: option.splits dest!: map_of_SomeD size_member)

lemma size_item: "x \<in> set xs \<Longrightarrow> size x < size (VList xs)"
  by (induction xs) auto

function iter_listing_posts :: "pyval \<Rightarrow> pydict list" where
  "iter_listing_posts (VList xs) = concat (map iter_listing_posts xs)"
| "iter_listing_posts (VDict d) =
     (case fld ''data'' d of
        VDict data \<Rightarrow>
          (case fld ''children'' data of
             VList children \<Rightarrow>
               map (\<lambda>child. vdict (fld ''data'' (vdict child)))
                 (filter (\<lambda>child. is_vdict child \<and> fld ''kind'' (vdict child) = VStr (py ''t3'') \<and>
                   is_vdict (fld ''data'' (vdict child))) children)
           | _ \<Rightarrow> [])
      | _ \<Rightarrow> [])"
| "iter_listing_posts VNone = []"
| "iter_listing_posts (VBool b) = []"
| "iter_listing_posts (VInt n) = []"
| "iter_listing_posts (VStr s) = []"
| "iter_listing_posts (VDate t) = []"
| "iter_listing_posts (VOther k) = []"
  by pat_completeness auto
termination by (relation "measure size") (auto dest: size_item)

function iter_comment_urls :: "reddit_env \<Rightarrow> pyval \<Rightarrow> pystr list" where
  "iter_comment_urls E (VList xs) = concat (map (iter_comment_urls E) xs)"
| "iter_comment_urls E (VDict d) =
     (case fld ''data'' d of
        VDict data \<Rightarrow>
          (case or_else E (or_else E (fld ''body'' data) (fld ''body_html'' data)) (VStr []) of
             VStr body \<Rightarrow> find_urls body | _ \<Rightarrow> []) @
          (if truthy E (fld ''replies'' data) then iter_comment_urls E (fld ''replies'' data) else []) @
          (case fld ''children'' data of VList children \<Rightarrow> concat (map (iter_comment_urls E) children) | _ \<Rightarrow> [])
      | _ \<Rightarrow> [])"
| "iter_comment_urls E VNone = []"
| "iter_comment_urls E (VBool b) = []"
| "iter_comment_urls E (VInt n) = []"
| "iter_comment_urls E (VStr s) = []"
| "iter_comment_urls E (VDate t) = []"
| "iter_comment_urls E (VOther k) = []"
  by pat_completeness auto
termination
proof (relation "measure (\<lambda>(_, v). size v)", goal_cases)
  case (2 E xs x)
  then show ?case by (auto dest: size_item)
next
  case (3 E d data)
  have "size (VDict data) < size (VDict d)" using size_field [OF 3(1)] by simp
  moreover have "size (fld ''replies'' data) < size (VDict data)"
    using size_field [OF refl, of "''replies''" data] 3(2) by (cases "fld ''replies'' data = VNone") auto
  ultimately show ?case by simp
next
  case (4 E d data children x)
  have "size (VDict data) < size (VDict d)" using size_field [OF 4(1)] by simp
  moreover have "size (VList children) < size (VDict data)" using size_field [OF 4(2)] by simp
  ultimately show ?case using size_item [OF 4(3)] by simp
qed simp

section \<open>The export\<close>

record export_row =
  er_url :: pystr
  er_category :: pyval
  er_priority :: pyval

definition strip_slashes :: "pystr \<Rightarrow> pystr" where
  "strip_slashes s = right_strip (\<lambda>c. c = 47) (dropWhile (\<lambda>c. c = 47) s)"

definition post_matches :: "reddit_env \<Rightarrow> pystr \<Rightarrow> pydict \<Rightarrow> bool" where
  "post_matches E source_subreddit post \<longleftrightarrow>
     casefold E (text_of E (or_else E (fld ''subreddit'' post) (VStr []))) = source_subreddit \<and>
     starts_with (py ''/r/'' @ source_subreddit @ [47]) (casefold E (text_of E (or_else E (fld ''permalink'' post) (VStr []))))"

definition validate_reddit_export ::
    "ucd \<Rightarrow> idna \<Rightarrow> reddit_env \<Rightarrow> pyval \<Rightarrow> exn + export_row \<times> pyval" where
  "validate_reddit_export u ix E document =
     bindE (requireE (rd_schema E document) (ValueError ''Reddit export does not match schema V1'')) (\<lambda>_.
     bindE (requireE (is_vdict document \<and> set (map fst (vdict document)) = set REDDIT_EXPORT_FIELDS)
       (ValueError ''Reddit export has invalid fields'')) (\<lambda>_.
     let source = fld ''source_url'' (vdict document);
         html = (if is_vstr source then reddit_html_url u ix (vstr source) else None);
         json = (if is_vstr source then reddit_json_url u ix (vstr source) else None) in
     bindE (requireE (json \<noteq> None \<and> html = Some (vstr source)) (ValueError ''Reddit export has an invalid source URL'')) (\<lambda>_.
     let payload = fld ''payload'' (vdict document); posts = iter_listing_posts payload in
     bindE (requireE (posts \<noteq> []) (ValueError ''Reddit export payload has no listing posts'')) (\<lambda>_.
     bindE (urlsplit u (vstr source)) (\<lambda>parsed.
     let source_parts = split_on 47 (strip_slashes (sr_path parsed)) in
     bindE (requireE (length source_parts = 2 \<and> py_lower (uc_lower u) (hd source_parts) = py ''r'')
       (ValueError ''Reddit export source must be one subreddit listing'')) (\<lambda>_.
     bindE (requireE (list_all (post_matches E (casefold E (source_parts ! 1))) posts)
       (ValueError ''Reddit export post does not match its source'')) (\<lambda>_.
     Inr (\<lparr>er_url = vstr source, er_category = fld ''category'' (vdict document), er_priority = fld ''priority'' (vdict document)\<rparr>,
          payload))))))))"

section \<open>Seeds\<close>

record reddit_seed =
  rs_url :: pystr
  rs_category :: pyval
  rs_priority :: int
  rs_source_url :: pystr
  rs_source_json_url :: pystr
  rs_title :: pystr
  rs_score :: int
  rs_subreddit :: pystr
  rs_permalink :: pystr
  rs_raw_url :: pystr
  rs_url_id :: pystr

record import_stats =
  is_pages_seen :: nat
  is_posts_seen :: nat
  is_comment_urls_seen :: nat
  is_outbound_urls_found :: nat
  is_skipped_reddit_urls :: nat
  is_skipped_low_score :: nat
  is_duplicate_urls :: nat
  is_imported :: nat
  is_write_errors :: nat
  is_by_category :: "(pystr, nat) dict"

definition new_stats :: import_stats where
  "new_stats = \<lparr>is_pages_seen = 0, is_posts_seen = 0, is_comment_urls_seen = 0, is_outbound_urls_found = 0,
     is_skipped_reddit_urls = 0, is_skipped_low_score = 0, is_duplicate_urls = 0, is_imported = 0, is_write_errors = 0,
     is_by_category = []\<rparr>"

text \<open>\<open>int(row.get("priority", 3) or 3)\<close>; \<open>None\<close> is a \<open>TypeError\<close> or a \<open>ValueError\<close>, which is caught.\<close>

definition row_priority :: "reddit_env \<Rightarrow> export_row \<Rightarrow> exn + int option" where
  "row_priority E row =
     (case int_of E (or_else E (er_priority row) (VInt 3)) of
        Inr n \<Rightarrow> Inr (Some n)
      | Inl e \<Rightarrow> if is_value_error e \<or> (case e of TypeError _ \<Rightarrow> True | _ \<Rightarrow> False) then Inr None else Inl e)"

text \<open>What a post adds to a seed: title, score, subreddit and permalink.\<close>

type_synonym post_facts = "pystr \<times> int \<times> pystr \<times> pystr"

definition seed_from_url ::
    "ucd \<Rightarrow> idna \<Rightarrow> reddit_env \<Rightarrow> pystr \<Rightarrow> export_row \<Rightarrow> pystr \<Rightarrow> pystr \<Rightarrow> post_facts \<Rightarrow> exn + reddit_seed option" where
  "seed_from_url u ix E url row source_url source_json_url facts =
     (case prepare_reddit_outbound_url u ix url of
        None \<Rightarrow> Inr None
      | Some (raw_observation, candidate) \<Rightarrow>
          if length raw_observation > MAX_URL_BYTES \<or>
             (case utf8_encode raw_observation of None \<Rightarrow> True | Some b \<Rightarrow> length b > MAX_URL_BYTES) then Inr None
          else (case try_identify u ix candidate of
            None \<Rightarrow> Inr None
          | Some identity \<Rightarrow>
              if \<not> ui_crawl_eligible identity then Inr None
              else bindE (row_priority E row) (\<lambda>priority.
                case priority of
                  None \<Rightarrow> Inr None
                | Some p \<Rightarrow>
                    if p \<notin> {1, 2, 3} then Inr None
                    else (let (title, score, subreddit, permalink) = facts in
                      Inr (Some \<lparr>rs_url = ui_canonical_url identity,
                        rs_category = or_else E (er_category row) (VStr (py ''General'')), rs_priority = p,
                        rs_source_url = source_url, rs_source_json_url = source_json_url, rs_title = title,
                        rs_score = score, rs_subreddit = subreddit, rs_permalink = permalink,
                        rs_raw_url = raw_observation, rs_url_id = ui_url_id identity\<rparr>)))))"

definition text_or_empty :: "reddit_env \<Rightarrow> string \<Rightarrow> pydict \<Rightarrow> pystr" where
  "text_or_empty E k post = text_of E (or_else E (fld k post) (VStr []))"

text \<open>One post: the seed it proposes, if it does, and the counters.\<close>

definition discover_post ::
    "ucd \<Rightarrow> idna \<Rightarrow> reddit_env \<Rightarrow> export_row \<Rightarrow> pystr \<Rightarrow> pystr \<Rightarrow> int \<Rightarrow> pydict \<Rightarrow> import_stats \<Rightarrow>
     exn + reddit_seed list \<times> import_stats" where
  "discover_post u ix E row source_url source_json_url min_score post stats0 =
     (let stats = stats0\<lparr>is_posts_seen := is_posts_seen stats0 + 1\<rparr> in
      bindE (int_of E (or_else E (fld ''score'' post) (VInt 0))) (\<lambda>score.
      if score < min_score then Inr ([], stats\<lparr>is_skipped_low_score := is_skipped_low_score stats + 1\<rparr>)
      else if truthy E (fld ''is_self'' post) then Inr ([], stats)
      else let raw_url = or_else E (or_else E (fld ''url_overridden_by_dest'' post) (fld ''url'' post)) (VStr []) in
        bindE (seed_from_url u ix E (text_of E raw_url) row source_url source_json_url
          (text_or_empty E ''title'' post, score, text_or_empty E ''subreddit'' post, text_or_empty E ''permalink'' post)) (\<lambda>seed.
        case seed of
          Some s \<Rightarrow> Inr ([s], stats)
        | None \<Rightarrow> Inr ([], if truthy E raw_url then stats\<lparr>is_skipped_reddit_urls := is_skipped_reddit_urls stats + 1\<rparr> else stats))))"

definition discover_comment ::
    "ucd \<Rightarrow> idna \<Rightarrow> reddit_env \<Rightarrow> export_row \<Rightarrow> pystr \<Rightarrow> pystr \<Rightarrow> pystr \<Rightarrow> import_stats \<Rightarrow> exn + reddit_seed list \<times> import_stats" where
  "discover_comment u ix E row source_url source_json_url raw_url stats0 =
     (let stats = stats0\<lparr>is_comment_urls_seen := is_comment_urls_seen stats0 + 1\<rparr> in
      bindE (seed_from_url u ix E raw_url row source_url source_json_url ([], 0, [], [])) (\<lambda>seed.
      case seed of
        Some s \<Rightarrow> Inr ([s], stats)
      | None \<Rightarrow> Inr ([], stats\<lparr>is_skipped_reddit_urls := is_skipped_reddit_urls stats + 1\<rparr>)))"

text \<open>A loop that collects the seeds of its items and passes the counters on.\<close>

primrec discover_loop :: "('a \<Rightarrow> import_stats \<Rightarrow> exn + reddit_seed list \<times> import_stats) \<Rightarrow> 'a list \<Rightarrow> import_stats \<Rightarrow>
     exn + reddit_seed list \<times> import_stats" where
  "discover_loop f [] stats = Inr ([], stats)"
| "discover_loop f (x # xs) stats =
     bindE (f x stats) (\<lambda>(seeds, stats').
     bindE (discover_loop f xs stats') (\<lambda>(more, stats''). Inr (seeds @ more, stats'')))"

definition discover_from_payload ::
    "ucd \<Rightarrow> idna \<Rightarrow> reddit_env \<Rightarrow> pyval \<Rightarrow> export_row \<Rightarrow> pystr \<Rightarrow> pystr \<Rightarrow> int \<Rightarrow> bool \<Rightarrow> import_stats \<Rightarrow>
     exn + reddit_seed list \<times> import_stats" where
  "discover_from_payload u ix E payload row source_url source_json_url min_score include_comment_urls stats =
     bindE (discover_loop (discover_post u ix E row source_url source_json_url min_score) (iter_listing_posts payload) stats)
       (\<lambda>(discovered, stats).
     if include_comment_urls
     then bindE (discover_loop (discover_comment u ix E row source_url source_json_url) (iter_comment_urls E payload) stats)
       (\<lambda>(more, stats'). Inr (discovered @ more, stats'))
     else Inr (discovered, stats))"

definition reddit_seed_document :: "ucd \<Rightarrow> idna \<Rightarrow> reddit_seed \<Rightarrow> datetime \<Rightarrow> exn + pydict" where
  "reddit_seed_document u ix seed observed_at =
     (let permalink = (case full_reddit_permalink u ix (rs_permalink seed) of None \<Rightarrow> [] | Some p \<Rightarrow> p);
          source_ref = (if permalink \<noteq> [] then permalink else rs_source_json_url seed);
          raw_url = (if rs_raw_url seed \<noteq> [] then rs_raw_url seed else rs_url seed) in
      bindE (stable_source_key REDDIT_SOURCE_TYPE source_ref) (\<lambda>key.
      bindE (make_source REDDIT_SOURCE_TYPE source_ref raw_url (rs_category seed) (rs_priority seed) (VDate observed_at)
        (Some [(py ''source_url'', VStr (rs_source_url seed)), (py ''json_url'', VStr (rs_source_json_url seed)),
               (py ''title'', VStr (rs_title seed)), (py ''score'', VInt (rs_score seed)),
               (py ''subreddit'', VStr (rs_subreddit seed)), (py ''permalink'', VStr permalink)])
        (Some key)) (\<lambda>source.
      new_seed_document u ix (rs_url seed) source True (Some (VDate observed_at)))))"

definition reddit_operation :: "ucd \<Rightarrow> idna \<Rightarrow> reddit_seed \<Rightarrow> datetime \<Rightarrow> exn + merge_operation" where
  "reddit_operation u ix seed observed_at =
     bindE (reddit_seed_document u ix seed observed_at) (make_merge_operation u ix)"

section \<open>The run\<close>

definition document_id :: "pydict \<Rightarrow> pystr" where "document_id d = vstr (fld ''_id'' d)"

definition add_category :: "pystr \<Rightarrow> (pystr, nat) dict \<Rightarrow> (pystr, nat) dict" where
  "add_category category counts =
     AList.update category (case map_of counts category of None \<Rightarrow> 1 | Some n \<Rightarrow> n + 1) counts"

text \<open>
  The loop over the seeds. \<open>document["_id"]\<close> is in \<open>seen_url_ids\<close> exactly when it is a key of \<open>pending\<close>; both are
  kept as the code keeps them. The category of a seed that has a document is a text.
\<close>

primrec collect_seeds ::
    "ucd \<Rightarrow> idna \<Rightarrow> datetime \<Rightarrow> reddit_seed list \<Rightarrow> import_stats \<Rightarrow> pystr set \<Rightarrow> (pystr, pydict) dict \<Rightarrow>
     exn + import_stats \<times> (pystr, pydict) dict" where
  "collect_seeds u ix at [] stats seen pending = Inr (stats, pending)"
| "collect_seeds u ix at (seed # seeds) stats seen pending =
     bindE (reddit_seed_document u ix seed at) (\<lambda>document.
     let id = document_id document;
         stats' = (if id \<in> seen then stats\<lparr>is_duplicate_urls := is_duplicate_urls stats + 1\<rparr>
           else stats\<lparr>is_outbound_urls_found := is_outbound_urls_found stats + 1,
             is_by_category := add_category (vstr (rs_category seed)) (is_by_category stats)\<rparr>) in
     bindE (merge_seed_documents u ix (map_of pending id) document None) (\<lambda>merged.
     collect_seeds u ix at seeds stats' (insert id seen) (AList.update id merged pending)))"

text \<open>The import as far as the database: the counters and the documents to write.\<close>

definition reddit_discovery ::
    "ucd \<Rightarrow> idna \<Rightarrow> reddit_env \<Rightarrow> export_row \<Rightarrow> pyval \<Rightarrow> int \<Rightarrow> bool \<Rightarrow> datetime \<Rightarrow> exn + import_stats \<times> (pystr, pydict) dict" where
  "reddit_discovery u ix E row payload min_score include_comment_urls observed_at =
     (case (reddit_html_url u ix (er_url row), reddit_json_url u ix (er_url row)) of
        (Some source_url, Some source_json_url) \<Rightarrow>
          bindE (discover_from_payload u ix E payload row source_url source_json_url min_score include_comment_urls
            (new_stats\<lparr>is_pages_seen := 1\<rparr>)) (\<lambda>(discovered, stats).
          collect_seeds u ix observed_at discovered stats {} [])
      | _ \<Rightarrow> Inl (ValueError ''validated Reddit export source became invalid''))"

text \<open>
  \<open>rw_client\<close> constructs the client, which \<open>rw_close\<close> closes. \<open>rw_matched\<close> is the matched count of the last
  bulk write, \<open>rw_error_counts\<close> the upserted and matched counts in the details of a failed one.
\<close>

record 'w reddit_db = "'w seed_db" +
  rw_client :: "('w, unit) prog"
  rw_ping :: "('w, unit) prog"
  rw_close :: "('w, unit) prog"
  rw_matched :: "'w \<Rightarrow> nat"
  rw_error_counts :: "bulk_details \<Rightarrow> nat \<times> nat"

definition flush_documents ::
    "ucd \<Rightarrow> idna \<Rightarrow> ('w, 'z) reddit_db_scheme \<Rightarrow> pydict list \<Rightarrow> import_stats \<Rightarrow> ('w, import_stats) prog" where
  "flush_documents u ix db documents stats =
     (if documents = [] then ret stats
      else bind (attempt (write_seed_documents u ix db COLLECTION_NAME documents)) (\<lambda>outcome.
        case outcome of
          Inr None \<Rightarrow> ret stats
        | Inr (Some upserted) \<Rightarrow>
            bind (get_state (rw_matched db)) (\<lambda>matched.
            ret (stats\<lparr>is_imported := is_imported stats + upserted, is_duplicate_urls := is_duplicate_urls stats + matched\<rparr>))
        | Inl (BulkWriteError details) \<Rightarrow>
            (let (upserted, matched) = rw_error_counts db details in
             ret (stats\<lparr>is_imported := is_imported stats + upserted, is_duplicate_urls := is_duplicate_urls stats + matched,
               is_write_errors := is_write_errors stats + length (write_error_codes details)\<rparr>))
        | Inl e \<Rightarrow> raise e))"

primrec flush_batches ::
    "ucd \<Rightarrow> idna \<Rightarrow> ('w, 'z) reddit_db_scheme \<Rightarrow> pydict list list \<Rightarrow> import_stats \<Rightarrow> ('w, import_stats) prog" where
  "flush_batches u ix db [] stats = ret stats"
| "flush_batches u ix db (b # bs) stats = bind (flush_documents u ix db b stats) (\<lambda>stats'. flush_batches u ix db bs stats')"

record reddit_args =
  ra_input :: "(exn + bytes) option"
  ra_batch_size :: int
  ra_min_score :: int
  ra_include_comment_urls :: bool
  ra_dry_run :: bool

definition write_pending ::
    "ucd \<Rightarrow> idna \<Rightarrow> ('w, 'z) reddit_db_scheme \<Rightarrow> nat \<Rightarrow> (pystr, pydict) dict \<Rightarrow> import_stats \<Rightarrow> ('w, import_stats) prog" where
  "write_pending u ix db batch_size pending stats =
     bind (rw_ping db) (\<lambda>_.
     bind (ensure_crawl_seeds_collection u ix db) (\<lambda>_.
     flush_batches u ix db (chunks (batch_size - 1) (map snd pending)) stats))"

text \<open>
  \<open>main\<close>: the exit code and the counters of a run that reports them. Loading ends the process with an exception that
  its \<open>except\<close> clause does not name; every exception of the discovery or of the database is an exit with 2.
\<close>

definition reddit_main ::
    "ucd \<Rightarrow> idna \<Rightarrow> reddit_env \<Rightarrow> ('w, 'z) reddit_db_scheme \<Rightarrow> reddit_args \<Rightarrow> datetime \<Rightarrow> ('w, nat \<times> import_stats option) prog" where
  "reddit_main u ix E db args now =
     (if ra_batch_size args < 1 then ret (1, None)
      else case ra_input args of
        None \<Rightarrow> ret (1, None)
      | Some file \<Rightarrow>
          (case bindE (load_json_file E file) (validate_reddit_export u ix E) of
             Inl e \<Rightarrow> if is_value_error e \<or> e = OSError then ret (1, None) else raise e
           | Inr (row, payload) \<Rightarrow>
               (case reddit_discovery u ix E row payload (ra_min_score args) (ra_include_comment_urls args) now of
                  Inl e \<Rightarrow> ret (2, None)
                | Inr (stats, pending) \<Rightarrow>
                    if ra_dry_run args \<or> pending = [] then ret (0, Some stats)
                    else bind (attempt (rw_client db)) (\<lambda>client.
                      case client of
                        Inl e \<Rightarrow> ret (2, None)
                      | Inr _ \<Rightarrow>
                          finally_do
                            (bind (attempt (write_pending u ix db (nat (ra_batch_size args)) pending stats)) (\<lambda>outcome.
                             case outcome of
                               Inl e \<Rightarrow> ret (2, None)
                             | Inr stats' \<Rightarrow> ret (if is_write_errors stats' = 0 then 0 else 2, Some stats')))
                            (rw_close db)))))"

end
