(* ===== verification/Reddit_Properties.thy ===== *)
theory Reddit_Properties
  imports Reddit_Import Seed_Catalog
begin

text \<open>
  The claims about the Reddit adapter. What an export proposes is a valid seed document that is not on Reddit; the
  documents of a run are the merges of the observations, URL by URL.
\<close>

section \<open>Seeds\<close>

definition good_seed :: "ucd \<Rightarrow> idna \<Rightarrow> reddit_seed \<Rightarrow> bool" where
  "good_seed u ix s \<longleftrightarrow>
     (\<exists>i r. identify_url u ix (rs_url s) = Inr i \<and> ui_canonical_url i = rs_url s \<and> ui_url_id i = rs_url_id s \<and>
        ui_crawl_eligible i \<and> urlsplit u (rs_url s) = Inr r \<and> \<not> is_reddit_owned_host u (sr_hostname u r))"

lemma seed_from_url_good:
  assumes "seed_from_url u ix E url row su sj facts = Inr (Some s)"
  shows "good_seed u ix s"
proof -
  obtain title score subreddit permalink where f: "facts = (title, score, subreddit, permalink)" by (cases facts)
  obtain obs candidate i where p: "prepare_reddit_outbound_url u ix url = Some (obs, candidate)"
    and i: "identify_url u ix candidate = Inr i" "ui_crawl_eligible i"
    and s: "rs_url s = ui_canonical_url i" "rs_url_id s = ui_url_id i"
    using assms unfolding f
    by (auto simp: seed_from_url_def Let_def try_identify_iff sum_iffs split: option.splits if_splits prod.splits)
  show ?thesis
    using prepared_not_reddit [OF p i(1)] identify_again(1) [OF i(1)] i(2) s by (auto simp: good_seed_def)
qed

lemma discover_loop_good:
  assumes "\<And>x st seeds st'. f x st = Inr (seeds, st') \<Longrightarrow> \<forall>s \<in> set seeds. good_seed u ix s"
  shows "discover_loop f xs st = Inr (seeds, st') \<Longrightarrow> \<forall>s \<in> set seeds. good_seed u ix s"
proof (induction xs arbitrary: st seeds)
  case (Cons x xs)
  obtain here st1 more where "f x st = Inr (here, st1)" "discover_loop f xs st1 = Inr (more, st')" "seeds = here @ more"
    using Cons.prems by (auto simp: sum_iffs)
  then show ?case using assms Cons.IH by (metis UnE set_append)
qed simp

lemma discover_post_good:
  assumes "discover_post u ix E row su sj m post st = Inr (seeds, st')"
  shows "\<forall>s \<in> set seeds. good_seed u ix s"
proof (cases "seeds = []")
  case False
  then obtain s url facts where "seeds = [s]" "seed_from_url u ix E url row su sj facts = Inr (Some s)"
    using assms unfolding discover_post_def Let_def sum_iffs
    by (auto simp: sum_iffs simp del: bex_simps split: option.splits if_split_asm)
  then show ?thesis using seed_from_url_good by auto
qed simp

lemma discover_comment_good:
  assumes "discover_comment u ix E row su sj url st = Inr (seeds, st')"
  shows "\<forall>s \<in> set seeds. good_seed u ix s"
proof (cases "seeds = []")
  case False
  then obtain s facts where "seeds = [s]" "seed_from_url u ix E url row su sj facts = Inr (Some s)"
    using assms by (auto simp: discover_comment_def Let_def sum_iffs split: option.splits)
  then show ?thesis using seed_from_url_good by auto
qed simp

lemma discover_from_payload_good:
  assumes "discover_from_payload u ix E payload row su sj m comments st = Inr (seeds, st')"
  shows "\<forall>s \<in> set seeds. good_seed u ix s"
proof -
  obtain posts st1 where p: "discover_loop (discover_post u ix E row su sj m) (iter_listing_posts payload) st = Inr (posts, st1)"
    and rest: "\<not> comments \<and> seeds = posts \<or>
      (\<exists>more. discover_loop (discover_comment u ix E row su sj) (iter_comment_urls E payload) st1 = Inr (more, st') \<and> seeds = posts @ more)"
    using assms by (auto simp: discover_from_payload_def sum_iffs split: if_splits)
  have "\<forall>s \<in> set posts. good_seed u ix s" by (rule discover_loop_good [OF discover_post_good p])
  moreover have "\<forall>s \<in> set more. good_seed u ix s"
    if "discover_loop (discover_comment u ix E row su sj) (iter_comment_urls E payload) st1 = Inr (more, st')" for more
    by (rule discover_loop_good [OF discover_comment_good that])
  ultimately show ?thesis using rest by auto
qed

section \<open>Documents\<close>

lemma new_seed_document_valid:
  assumes "new_seed_document u ix url source enabled at = Inr d"
  shows "seed_ok u ix d" and "\<exists>i. identify_url u ix url = Inr i \<and> fld ''_id'' d = VStr (ui_url_id i) \<and>
    fld ''canonical_url'' d = VStr (ui_canonical_url i)"
  using assms by (auto simp: new_seed_document_def sum_iffs Let_def fld_def py_def)

lemma reddit_document_valid:
  assumes "reddit_seed_document u ix s at = Inr d" and "good_seed u ix s"
  shows "seed_ok u ix d" and "document_id d = rs_url_id s" and "fld ''canonical_url'' d = VStr (rs_url s)"
    and "is_vstr (rs_category s)"
proof -
  obtain source at' where n: "new_seed_document u ix (rs_url s) source True at' = Inr d" and src: "source_ok source"
    and c: "fld ''category'' source = rs_category s"
    using assms(1) by (auto simp: reddit_seed_document_def make_source_def sum_iffs Let_def fld_def py_def)
  show "seed_ok u ix d" by (rule new_seed_document_valid(1) [OF n])
  show "document_id d = rs_url_id s" "fld ''canonical_url'' d = VStr (rs_url s)"
    using new_seed_document_valid(2) [OF n] assms(2) by (auto simp: document_id_def good_seed_def)
  show "is_vstr (rs_category s)" using source_okD(6) [OF src] c is_vstr.simps(1) by metis
qed

text \<open>Every stored form of a document has the identifier and the URL of the first.\<close>

lemma merge_valid:
  assumes "merge_seed_documents u ix e d None = Inr m"
  shows "seed_ok u ix m" and "fld ''_id'' m = fld ''_id'' d" and "fld ''canonical_url'' m = fld ''canonical_url'' d"
  using assms by (cases e; auto simp: merge_seed_documents_def merge_existing_def sum_iffs Let_def)+

definition documents_of :: "ucd \<Rightarrow> idna \<Rightarrow> datetime \<Rightarrow> reddit_seed list \<Rightarrow> pydict list \<Rightarrow> bool" where
  "documents_of u ix at seeds docs \<longleftrightarrow> list_all2 (\<lambda>s d. reddit_seed_document u ix s at = Inr d) seeds docs"

lemma collect_seeds_merges:
  assumes "collect_seeds u ix at seeds st seen pending = Inr (st', pending')"
  shows "\<exists>docs. documents_of u ix at seeds docs \<and>
     (\<forall>k. merge_loop u ix (map_of pending k) (filter (\<lambda>d. document_id d = k) docs) = Inr (map_of pending' k))"
  using assms
proof (induction seeds arbitrary: st seen pending)
  case Nil
  then show ?case by (auto simp: documents_of_def)
next
  case (Cons s seeds)
  obtain d m st1 where d: "reddit_seed_document u ix s at = Inr d"
    and m: "merge_seed_documents u ix (map_of pending (document_id d)) d None = Inr m"
    and rest: "collect_seeds u ix at seeds st1 (insert (document_id d) seen) (AList.update (document_id d) m pending) = Inr (st', pending')"
    using Cons.prems by (auto simp: sum_iffs Let_def)
  obtain docs where docs: "documents_of u ix at seeds docs"
    and all: "\<forall>k. merge_loop u ix (map_of (AList.update (document_id d) m pending) k) (filter (\<lambda>d. document_id d = k) docs) =
        Inr (map_of pending' k)"
    using Cons.IH [OF rest] by blast
  have "merge_loop u ix (map_of pending k) (filter (\<lambda>d. document_id d = k) (d # docs)) = Inr (map_of pending' k)" for k
    using all [rule_format, of k] m by (cases "k = document_id d") (auto simp: update_conv')
  moreover have "documents_of u ix at (s # seeds) (d # docs)" using d docs by (simp add: documents_of_def)
  ultimately show ?case by blast
qed

text \<open>The document of a good seed exists when its texts and its time are what a source may hold.\<close>

lemma new_seed_document_at:
  assumes "utc_datetime (VDate at) = Inr o'" and "fld ''observed_at'' source = VDate o'"
  shows "new_seed_document u ix url source enabled (Some (VDate at)) = new_seed_document u ix url source enabled None"
  using assms utc_datetime_normal [OF assms(1)] by (simp add: new_seed_document_def)

lemma reddit_document_made:
  assumes good: "good_seed u ix s" and at: "utc_datetime (VDate at) = Inr o'"
    and texts: "is_ascii (rs_source_json_url s)" "rs_permalink s = []"
    and raw: "rs_raw_url s \<noteq> []" "length (rs_raw_url s) \<le> MAX_URL_BYTES" "is_ascii (rs_raw_url s)"
    and row: "rs_priority s \<in> {1, 2, 3}" "rs_category s = VStr c" "c \<noteq> []"
  shows "\<exists>d. reddit_seed_document u ix s at = Inr d"
proof -
  have "is_ascii (REDDIT_SOURCE_TYPE @ 0 # rs_source_json_url s)"
    using texts by (simp add: REDDIT_SOURCE_TYPE_def is_ascii_def py_def)
  then have key: "stable_source_key REDDIT_SOURCE_TYPE (rs_source_json_url s) =
      Inr (REDDIT_SOURCE_TYPE @ 58 # sha256_hex (SOURCE_KEY_NAMESPACE @ REDDIT_SOURCE_TYPE @ 0 # rs_source_json_url s))"
    (is "_ = Inr ?key")
    unfolding stable_source_key_def by (simp only: utf8_encode_ascii) (simp add: requireE_def REDDIT_SOURCE_TYPE_def py_def)
  define key where "key = ?key"
  have key: "stable_source_key REDDIT_SOURCE_TYPE (rs_source_json_url s) = Inr key" "key \<noteq> []"
    using key by (simp_all add: key_def)
  define m where "m = [(py ''source_url'', VStr (rs_source_url s)), (py ''json_url'', VStr (rs_source_json_url s)),
               (py ''title'', VStr (rs_title s)), (py ''score'', VInt (rs_score s)),
               (py ''subreddit'', VStr (rs_subreddit s)), (py ''permalink'', VStr [])]"
  define source where "source = [(py ''key'', VStr key), (py ''type'', VStr REDDIT_SOURCE_TYPE), (py ''source_ref'', VStr (rs_source_json_url s)),
           (py ''raw_url'', VStr (rs_raw_url s)), (py ''category'', rs_category s), (py ''priority'', VInt (rs_priority s)),
           (py ''observed_at'', VDate o'), (py ''metadata'', VDict m)]"
  have f: "fld ''observed_at'' source = VDate o'" by (simp add: source_def fld_def py_def)
  have ok: "source_ok source"
    using raw row key(2) utc_datetime_normal [OF at]
    unfolding validate_source_def source_def
    by (auto simp: fld_def py_def SOURCE_FIELDS_def requireE_def utf8_byte_length_def utf8_encode_ascii one_to_three_def
        SOURCE_RAW_URL_MAX_UTF8_BYTES_def REDDIT_SOURCE_TYPE_def)
  have made: "make_source REDDIT_SOURCE_TYPE (rs_source_json_url s) (rs_raw_url s) (rs_category s) (rs_priority s) (VDate at) (Some m) (Some key)
      = Inr source"
    using key(2) at ok by (simp add: make_source_def source_def)
  obtain i where i: "identify_url u ix (rs_url s) = Inr i" "ui_crawl_eligible i" using good by (auto simp: good_seed_def)
  show ?thesis
    using new_seed_document_ok [OF i ok, of True] key made new_seed_document_at [OF at f] texts(2) raw(1)
    by (auto simp: reddit_seed_document_def full_reddit_permalink_def m_def)
qed

section \<open>A run up to the database\<close>

text \<open>Discovery counts posts, comments and what it skips, but no URL and no category.\<close>

abbreviation same_found :: "import_stats \<Rightarrow> import_stats \<Rightarrow> bool" where
  "same_found st st' \<equiv> is_outbound_urls_found st' = is_outbound_urls_found st \<and> is_by_category st' = is_by_category st"

lemma discover_post_found:
  assumes "discover_post u ix E row su sj m post st = Inr (seeds, st')"
  shows "same_found st st'"
proof -
  obtain score where score: "int_of E (or_else E (fld ''score'' post) (VInt 0)) = Inr score"
    using assms by (auto simp: discover_post_def Let_def sum_iffs)
  show ?thesis
  proof (cases "score < m \<or> truthy E (fld ''is_self'' post)")
    case True
    then show ?thesis using assms score by (auto simp: discover_post_def Let_def split: if_split_asm)
  next
    case False
    then show ?thesis using assms score by (auto simp: discover_post_def Let_def bindE_Inr_iff split: option.splits)
  qed
qed

lemma discover_comment_found: "discover_comment u ix E row su sj url st = Inr (seeds, st') \<Longrightarrow> same_found st st'"
  by (auto simp: discover_comment_def Let_def bindE_Inr_iff split: option.splits)

lemma discover_loop_found:
  assumes "\<And>x st seeds st'. f x st = Inr (seeds, st') \<Longrightarrow> same_found st st'"
  shows "discover_loop f xs st = Inr (seeds, st') \<Longrightarrow> same_found st st'"
proof (induction xs arbitrary: st seeds)
  case (Cons x xs)
  obtain here st1 more where "f x st = Inr (here, st1)" "discover_loop f xs st1 = Inr (more, st')"
    using Cons.prems by (auto simp: sum_iffs)
  then show ?case using assms Cons.IH by metis
qed simp

lemma discover_from_payload_found:
  assumes "discover_from_payload u ix E payload row su sj m comments st = Inr (seeds, st')"
  shows "same_found st st'"
proof -
  obtain posts st1 where "discover_loop (discover_post u ix E row su sj m) (iter_listing_posts payload) st = Inr (posts, st1)"
    and rest: "st' = st1 \<or> (\<exists>more. discover_loop (discover_comment u ix E row su sj) (iter_comment_urls E payload) st1 = Inr (more, st'))"
    using assms by (auto simp: discover_from_payload_def sum_iffs split: if_split_asm)
  then have "same_found st st1" by (intro discover_loop_found [OF discover_post_found])
  moreover have "same_found st1 st'"
    if "discover_loop (discover_comment u ix E row su sj) (iter_comment_urls E payload) st1 = Inr (more, st')" for more
    by (rule discover_loop_found [OF discover_comment_found that])
  ultimately show ?thesis using rest by auto
qed

text \<open>What the loop over the seeds keeps of the documents, the set of identifiers and the counters.\<close>

definition off_reddit :: "ucd \<Rightarrow> pydict \<Rightarrow> bool" where
  "off_reddit u d \<longleftrightarrow> (\<exists>r. urlsplit u (vstr (fld ''canonical_url'' d)) = Inr r \<and> \<not> is_reddit_owned_host u (sr_hostname u r))"

definition pending_ok :: "ucd \<Rightarrow> idna \<Rightarrow> import_stats \<Rightarrow> (pystr, pydict) dict \<Rightarrow> bool" where
  "pending_ok u ix st pending \<longleftrightarrow>
     distinct (map fst pending) \<and> is_outbound_urls_found st = length pending \<and>
     distinct (map fst (is_by_category st)) \<and> dict_sum (\<lambda>n. n) (is_by_category st) = length pending \<and>
     (\<forall>(k, d) \<in> set pending. seed_ok u ix d \<and> document_id d = k \<and> off_reddit u d)"

lemma add_category_counts:
  assumes "distinct (map fst counts)"
  shows "distinct (map fst (add_category c counts))" and "dict_sum (\<lambda>n. n) (add_category c counts) = dict_sum (\<lambda>n. n) counts + 1"
proof -
  show "distinct (map fst (add_category c counts))" using assms by (simp add: add_category_def distinct_update)
  define n where "n = (case map_of counts c of None \<Rightarrow> 0 | Some n \<Rightarrow> n)"
  have "dict_sum (\<lambda>n. n) (AList.update c (n + 1) counts) + n = dict_sum (\<lambda>n. n) counts + (n + 1)"
    using dict_sum_update [OF assms, of "\<lambda>n. n" c "n + 1"] by (simp add: n_def split: option.splits)
  moreover have "add_category c counts = AList.update c (n + 1) counts"
    by (simp add: add_category_def n_def split: option.splits)
  ultimately show "dict_sum (\<lambda>n. n) (add_category c counts) = dict_sum (\<lambda>n. n) counts + 1" by simp
qed

lemma pending_ok_empty: "pending_ok u ix (new_stats\<lparr>is_pages_seen := n\<rparr>) []"
  by (simp add: pending_ok_def new_stats_def dict_sum_def)

lemma collect_seeds_ok:
  assumes "collect_seeds u ix at seeds st seen pending = Inr (st', pending')" and "\<forall>s \<in> set seeds. good_seed u ix s"
    and "pending_ok u ix st pending" and "seen = set (map fst pending)"
  shows "pending_ok u ix st' pending'"
  using assms
proof (induction seeds arbitrary: st seen pending)
  case (Cons s seeds)
  define st1 where "st1 k = (if k \<in> seen then st\<lparr>is_duplicate_urls := is_duplicate_urls st + 1\<rparr>
      else st\<lparr>is_outbound_urls_found := is_outbound_urls_found st + 1,
        is_by_category := add_category (vstr (rs_category s)) (is_by_category st)\<rparr>)" for k
  obtain d m where d: "reddit_seed_document u ix s at = Inr d"
    and m: "merge_seed_documents u ix (map_of pending (document_id d)) d None = Inr m"
    and rest: "collect_seeds u ix at seeds (st1 (document_id d)) (insert (document_id d) seen)
      (AList.update (document_id d) m pending) = Inr (st', pending')"
    using Cons.prems(1) unfolding st1_def by (auto simp: sum_iffs Let_def)
  have good: "good_seed u ix s" using Cons.prems(2) by simp
  have "off_reddit u m" "seed_ok u ix m" "document_id m = document_id d"
    using good merge_valid [OF m] reddit_document_valid [OF d good]
    by (auto simp: off_reddit_def good_seed_def document_id_def)
  moreover have "set (AList.update (document_id d) m pending) \<subseteq> insert (document_id d, m) (set pending)"
    by (induction pending) auto
  ultimately have entries: "\<forall>(k, d) \<in> set (AList.update (document_id d) m pending). seed_ok u ix d \<and> document_id d = k \<and> off_reddit u d"
    using Cons.prems(3) unfolding pending_ok_def by blast
  have keys: "map fst (AList.update (document_id d) m pending) =
      (if document_id d \<in> seen then map fst pending else map fst pending @ [document_id d])"
    unfolding Cons.prems(4) by (simp add: update_keys)
  then have len: "length (AList.update (document_id d) m pending) = (if document_id d \<in> seen then length pending else length pending + 1)"
    using length_map [of fst "AList.update (document_id d) m pending"] by (simp split: if_split_asm)
  have "pending_ok u ix (st1 (document_id d)) (AList.update (document_id d) m pending)"
    using Cons.prems(3,4) entries keys len unfolding pending_ok_def
    by (auto simp: st1_def add_category_counts)
  moreover have "insert (document_id d) seen = set (map fst (AList.update (document_id d) m pending))"
    using Cons.prems(4) keys by auto
  ultimately show ?case using Cons.IH [OF rest] Cons.prems(2) by simp
qed simp

lemma reddit_discovery_steps:
  assumes "reddit_discovery u ix E row payload m comments at = Inr (st, pending)"
  obtains su sj seeds st1 where "reddit_html_url u ix (er_url row) = Some su" and "reddit_json_url u ix (er_url row) = Some sj"
    and "discover_from_payload u ix E payload row su sj m comments (new_stats\<lparr>is_pages_seen := 1\<rparr>) = Inr (seeds, st1)"
    and "collect_seeds u ix at seeds st1 {} [] = Inr (st, pending)"
  using assms by (auto simp: reddit_discovery_def sum_iffs split: option.splits prod.splits)

section \<open>An example\<close>

definition plain_env :: reddit_env where
  "plain_env = \<lparr>rd_schema = (\<lambda>_. True), rd_casefold = (\<lambda>s. s), rd_digit = (\<lambda>_. None), rd_float = (\<lambda>_. 0),
     rd_float_true = (\<lambda>_. False), rd_float_int = (\<lambda>_. Inr 0), rd_text = (\<lambda>_. [])\<rparr>"

definition example_row :: export_row where
  "example_row = \<lparr>er_url = py ''https://www.reddit.com/r/news'', er_category = VStr (py ''news''), er_priority = VInt 2\<rparr>"

definition example_post :: pydict where
  "example_post = [(py ''score'', VInt 30), (py ''url'', VStr (py ''HTTPS://A.com:443/%7e ?q#f''))]"

definition example_payload :: pyval where
  "example_payload = VDict [(py ''data'', VDict [(py ''children'',
     VList [VDict [(py ''kind'', VStr (py ''t3'')), (py ''data'', VDict example_post)]])])]"

lemma canonical_r_news:
  "canonicalize_url plain_ucd no_alabels (py ''https://www.reddit.com/r/news'') = Inr (py ''https://www.reddit.com/r/news'')"
  "canonicalize_url plain_ucd no_alabels (py ''https://www.reddit.com/r/news.json'') = Inr (py ''https://www.reddit.com/r/news.json'')"
  by (simp_all add: eval_simps seed_url_eval plain_ucd_def no_alabels_def)


lemma identify_r_news:
  "\<exists>i. identify_url plain_ucd no_alabels (py ''https://www.reddit.com/r/news'') = Inr i \<and> ui_crawl_eligible i \<and>
     ui_canonical_url i = py ''https://www.reddit.com/r/news''"
  "\<exists>i. identify_url plain_ucd no_alabels (py ''https://www.reddit.com/r/news.json'') = Inr i \<and> ui_crawl_eligible i \<and>
     ui_canonical_url i = py ''https://www.reddit.com/r/news.json''"
  by (simp_all add: identify_url_def canonical_r_news static_crawl_eligibility_def url_id_for_canonical_url_def Let_def
      eval_simps seed_url_eval plain_ucd_def)

lemma split_r_news:
  "\<exists>r. urlsplit plain_ucd (py ''https://www.reddit.com/r/news'') = Inr r \<and> host_of plain_ucd r = py ''www.reddit.com'' \<and>
     sr_path r = py ''/r/news'' \<and> sr_query r = []"
  "\<exists>r. urlsplit plain_ucd (py ''https://www.reddit.com/r/news.json'') = Inr r \<and> host_of plain_ucd r = py ''www.reddit.com'' \<and>
     sr_path r = py ''/r/news.json'' \<and> sr_query r = []"
  by (simp_all add: eval_simps seed_url_eval plain_ucd_def host_of_def)

lemma path_r_news:
  "unambiguous_reddit_path (py ''/r/news'')" "unambiguous_reddit_path (py ''/r/news.json'')"
  "reddit_html_path (py ''/r/news'') = py ''/r/news''" "reddit_json_path (py ''/r/news'') = py ''/r/news.json''"
  by (simp_all add: eval_simps seed_url_eval unambiguous_reddit_path_def reddit_html_path_def reddit_json_path_def
      REDDIT_PATH_SAFE_def ambiguous_path_escape_def right_strip_def)

lemma reddit_urls_r_news:
  "reddit_html_url plain_ucd no_alabels (py ''https://www.reddit.com/r/news'') = Some (py ''https://www.reddit.com/r/news'')"
  "reddit_json_url plain_ucd no_alabels (py ''https://www.reddit.com/r/news'') = Some (py ''https://www.reddit.com/r/news.json'')"
proof -
  obtain i j where i: "try_identify plain_ucd no_alabels (py ''https://www.reddit.com/r/news'') = Some i" "ui_crawl_eligible i"
      "ui_canonical_url i = py ''https://www.reddit.com/r/news''"
    and j: "try_identify plain_ucd no_alabels (py ''https://www.reddit.com/r/news.json'') = Some j" "ui_crawl_eligible j"
      "ui_canonical_url j = py ''https://www.reddit.com/r/news.json''"
    using identify_r_news unfolding try_identify_iff by blast
  obtain r t where r: "urlsplit plain_ucd (py ''https://www.reddit.com/r/news'') = Inr r" "host_of plain_ucd r = py ''www.reddit.com''"
      "sr_path r = py ''/r/news''" "sr_query r = []"
    and t: "urlsplit plain_ucd (py ''https://www.reddit.com/r/news.json'') = Inr t" "host_of plain_ucd t = py ''www.reddit.com''"
      "sr_path t = py ''/r/news.json''"
    using split_r_news by blast
  have host: "py ''www.reddit.com'' \<in> set REDDIT_PAGE_HOSTS" "www_host (py ''www.reddit.com'') = py ''www.reddit.com''"
    by (simp_all add: REDDIT_PAGE_HOSTS_def www_host_def py_def)
  have q: "63 \<notin> set (py ''https://www.reddit.com/r/news'')" by (simp add: py_def)
  have parts: "reddit_page_parts plain_ucd no_alabels (py ''https://www.reddit.com/r/news'') = Some (r, False)"
    by (simp add: reddit_page_parts_def i r host(1) path_r_news q)
  have spelled: "reddit_url (py ''www.reddit.com'') (py ''/r/news'') [] False = py ''https://www.reddit.com/r/news''"
    "reddit_url (py ''www.reddit.com'') (py ''/r/news.json'') [] False = py ''https://www.reddit.com/r/news.json''"
    by (simp_all add: reddit_url_def py_def)
  show "reddit_html_url plain_ucd no_alabels (py ''https://www.reddit.com/r/news'') = Some (py ''https://www.reddit.com/r/news'')"
    by (simp add: reddit_html_url_def parts r host path_r_news spelled validated_generated_reddit_url_def i)
  show "reddit_json_url plain_ucd no_alabels (py ''https://www.reddit.com/r/news'') = Some (py ''https://www.reddit.com/r/news.json'')"
    by (simp add: reddit_json_url_def parts r host path_r_news spelled validated_generated_reddit_url_def j t)
qed

lemma example_url_prepared:
  "clean_extracted_url (py ''HTTPS://A.com:443/%7e ?q#f'') = py ''HTTPS://A.com:443/%7e ?q#f''"
  "\<exists>i. identify_url plain_ucd no_alabels (py ''HTTPS://A.com:443/%7e ?q#f'') = Inr i \<and> ui_crawl_eligible i \<and>
     ui_canonical_url i = py ''https://a.com/%7E%20?q''"
  "\<exists>r. urlsplit plain_ucd (py ''HTTPS://A.com:443/%7e ?q#f'') = Inr r \<and> host_of plain_ucd r = py ''a.com''"
  "\<exists>r. urlsplit plain_ucd (py ''https://a.com/%7E%20?q'') = Inr r \<and> host_of plain_ucd r = py ''a.com''"
  by (simp_all add: identify_url_def canonicalize_example static_crawl_eligibility_def url_id_for_canonical_url_def Let_def
      eval_simps seed_url_eval plain_ucd_def host_of_def clean_extracted_url_def right_strip_def)

lemma example_seed:
  "\<exists>s. seed_from_url plain_ucd no_alabels plain_env (py ''HTTPS://A.com:443/%7e ?q#f'') example_row su sj ([], 30, [], []) = Inr (Some s) \<and>
     rs_source_json_url s = sj \<and> rs_permalink s = [] \<and> rs_raw_url s = py ''HTTPS://A.com:443/%7e ?q#f'' \<and> rs_priority s = 2 \<and>
     rs_category s = VStr (py ''news'')"
proof -
  obtain i where i: "try_identify plain_ucd no_alabels (py ''HTTPS://A.com:443/%7e ?q#f'') = Some i" "ui_crawl_eligible i"
      "ui_canonical_url i = py ''https://a.com/%7E%20?q''"
    using example_url_prepared(2) unfolding try_identify_iff by blast
  have p: "prepare_reddit_outbound_url plain_ucd no_alabels (py ''HTTPS://A.com:443/%7e ?q#f'') =
      Some (py ''HTTPS://A.com:443/%7e ?q#f'', py ''HTTPS://A.com:443/%7e ?q#f'')"
    using example_url_prepared(3,4) i
    by (auto simp: prepare_reddit_outbound_url_def example_url_prepared(1) unwrap_reddit_out_url_def is_reddit_owned_host_def Let_def)
      (simp_all add: py_def eval_simps plain_ucd_def)
  have "is_ascii (py ''HTTPS://A.com:443/%7e ?q#f'')" "length (py ''HTTPS://A.com:443/%7e ?q#f'') \<le> MAX_URL_BYTES"
    by (simp_all add: is_ascii_def py_def MAX_URL_BYTES_def)
  then show ?thesis
    using i by (simp add: seed_from_url_def p utf8_encode_ascii row_priority_def example_row_def plain_env_def or_else_def int_of_def)
qed

definition example_time :: datetime where "example_time = \<lparr>dt_fields = 0, dt_offset = Some 0\<rparr>"

lemma example_discovery:
  "\<exists>st k d. reddit_discovery plain_ucd no_alabels plain_env example_row example_payload 25 False example_time = Inr (st, [(k, d)])"
proof -
  define su where "su = py ''https://www.reddit.com/r/news''"
  define sj where "sj = py ''https://www.reddit.com/r/news.json''"
  obtain s where s: "seed_from_url plain_ucd no_alabels plain_env (py ''HTTPS://A.com:443/%7e ?q#f'') example_row su sj ([], 30, [], []) =
      Inr (Some s)"
    and f: "rs_source_json_url s = sj" "rs_permalink s = []" "rs_raw_url s = py ''HTTPS://A.com:443/%7e ?q#f''" "rs_priority s = 2"
      "rs_category s = VStr (py ''news'')"
    using example_seed by blast
  have urls: "reddit_html_url plain_ucd no_alabels (er_url example_row) = Some su"
    "reddit_json_url plain_ucd no_alabels (er_url example_row) = Some sj"
    by (simp_all add: example_row_def reddit_urls_r_news su_def sj_def)
  have posts: "iter_listing_posts example_payload = [example_post]"
    by (simp add: example_payload_def fld_def py_def)
  obtain st1 where found: "discover_from_payload plain_ucd no_alabels plain_env example_payload example_row su sj 25 False
      (new_stats\<lparr>is_pages_seen := 1\<rparr>) = Inr ([s], st1)"
  proof -
    have fields: "fld ''score'' example_post = VInt 30" "fld ''is_self'' example_post = VNone"
      "fld ''url_overridden_by_dest'' example_post = VNone" "fld ''url'' example_post = VStr (py ''HTTPS://A.com:443/%7e ?q#f'')"
      "fld ''title'' example_post = VNone" "fld ''subreddit'' example_post = VNone" "fld ''permalink'' example_post = VNone"
      "py ''HTTPS://A.com:443/%7e ?q#f'' \<noteq> []"
      by (simp_all add: example_post_def fld_def py_def)
    show thesis
      using that by (simp add: discover_from_payload_def posts discover_post_def fields or_else_def text_of_def int_of_def text_or_empty_def s)
  qed
  have good: "good_seed plain_ucd no_alabels s" by (rule seed_from_url_good [OF s])
  have "\<exists>d. reddit_seed_document plain_ucd no_alabels s example_time = Inr d"
  proof (rule reddit_document_made [OF good])
    show "utc_datetime (VDate example_time) = Inr example_time"
      by (simp add: example_time_def crawl_seed_eval eval_simps)
  qed (auto simp: f sj_def is_ascii_def py_def MAX_URL_BYTES_def)
  then obtain d where d: "reddit_seed_document plain_ucd no_alabels s example_time = Inr d" by blast
  have "merge_seed_documents plain_ucd no_alabels None d None = Inr d"
    using reddit_document_valid(1) [OF d good] by (simp add: merge_seed_documents_def)
  then show ?thesis
    by (simp add: reddit_discovery_def urls found [unfolded One_nat_def] d)
qed

section \<open>What the discovery produces\<close>

lemma pending_ok_of_discovery:
  assumes "reddit_discovery u ix E row payload m comments at = Inr (st, pending)"
  shows "pending_ok u ix st pending"
proof -
  obtain su sj seeds st1 where d: "discover_from_payload u ix E payload row su sj m comments (new_stats\<lparr>is_pages_seen := 1\<rparr>) = Inr (seeds, st1)"
    and c: "collect_seeds u ix at seeds st1 {} [] = Inr (st, pending)"
    using reddit_discovery_steps [OF assms] by metis
  have "pending_ok u ix st1 []"
    using discover_from_payload_found [OF d] pending_ok_empty [of u ix 1] by (simp add: pending_ok_def)
  then show ?thesis by (intro collect_seeds_ok [OF c discover_from_payload_good [OF d]]) simp_all
qed

text \<open>
  C39. Whatever an approved export contains, what a run would write are valid seed documents under their own
  identifiers, none of them on a Reddit host, and the counters of found URLs, in total and by category, count them.
\<close>

theorem reddit_documents_valid:
  assumes "reddit_discovery u ix E row payload m comments at = Inr (st, pending)"
  shows "pending_ok u ix st pending"
  by (rule pending_ok_of_discovery [OF assms])

theorem reddit_documents_valid_witness:
  "\<exists>st k d. reddit_discovery plain_ucd no_alabels plain_env example_row example_payload 25 False example_time = Inr (st, [(k, d)]) \<and>
     is_outbound_urls_found st = 1 \<and> seed_ok plain_ucd no_alabels d \<and> document_id d = k \<and> off_reddit plain_ucd d"
proof -
  obtain st k d where r: "reddit_discovery plain_ucd no_alabels plain_env example_row example_payload 25 False example_time = Inr (st, [(k, d)])"
    using example_discovery by blast
  then show ?thesis using reddit_documents_valid [OF r] by (simp add: pending_ok_def)
qed

text \<open>
  C40. The documents of a run are the merges of its observations: for every identifier, the document that is written
  is the merge, in the order of the payload, of the documents of the seeds with that identifier.
\<close>

theorem reddit_documents_merge:
  assumes "reddit_discovery u ix E row payload m comments at = Inr (st, pending)"
  shows "\<exists>su sj seeds st1 docs.
     reddit_html_url u ix (er_url row) = Some su \<and> reddit_json_url u ix (er_url row) = Some sj \<and>
     discover_from_payload u ix E payload row su sj m comments (new_stats\<lparr>is_pages_seen := 1\<rparr>) = Inr (seeds, st1) \<and>
     documents_of u ix at seeds docs \<and>
     (\<forall>k. merge_loop u ix None (filter (\<lambda>d. document_id d = k) docs) = Inr (map_of pending k))"
proof -
  obtain su sj seeds st1 where "reddit_html_url u ix (er_url row) = Some su" "reddit_json_url u ix (er_url row) = Some sj"
    "discover_from_payload u ix E payload row su sj m comments (new_stats\<lparr>is_pages_seen := 1\<rparr>) = Inr (seeds, st1)"
    and c: "collect_seeds u ix at seeds st1 {} [] = Inr (st, pending)"
    using reddit_discovery_steps [OF assms] by metis
  then show ?thesis using collect_seeds_merges [OF c] by fastforce
qed

theorem reddit_documents_merge_witness:
  "\<exists>st k d docs. reddit_discovery plain_ucd no_alabels plain_env example_row example_payload 25 False example_time = Inr (st, [(k, d)]) \<and>
     merge_loop plain_ucd no_alabels None (filter (\<lambda>x. document_id x = k) docs) = Inr (Some d)"
proof -
  obtain st k d where r: "reddit_discovery plain_ucd no_alabels plain_env example_row example_payload 25 False example_time = Inr (st, [(k, d)])"
    using example_discovery by blast
  obtain docs where "\<forall>j. merge_loop plain_ucd no_alabels None (filter (\<lambda>x. document_id x = j) docs) = Inr (map_of [(k, d)] j)"
    using reddit_documents_merge [OF r] by blast
  from this [rule_format, of k] show ?thesis using r by (simp only: map_of.simps fun_upd_same fst_conv snd_conv) blast
qed

section \<open>The run\<close>

text \<open>
  A bulk write whose only failures are write concerns raises \<open>BulkWriteError\<close> without write errors. It is counted as
  a success, so such a run exits with 0.
\<close>

lemma concern_errors_uncounted:
  assumes "write_seed_documents u ix db COLLECTION_NAME ds w = (Inl (BulkWriteError details), w')"
    and "write_error_codes details = []" and "ds \<noteq> []"
  shows "\<exists>st'. flush_documents u ix db ds st w = (Inr st', w') \<and> is_write_errors st' = is_write_errors st"
proof -
  obtain a b where "rw_error_counts db details = (a, b)" by (cases "rw_error_counts db details")
  then show ?thesis using assms by (simp add: flush_documents_def bind_def attempt_def ret_def)
qed

text \<open>
  A dry run changes nothing. It reports its counters exactly when it exits with 0, and then an export was loaded
  and validated and the documents it counts are valid seed documents outside Reddit.
\<close>

theorem reddit_dry_run:
  "\<exists>r. reddit_main u ix E db (args\<lparr>ra_dry_run := True\<rparr>) now w = (r, w) \<and>
     (case r of
        Inl e \<Rightarrow> \<not> is_value_error e \<and> e \<noteq> OSError
      | Inr (code, None) \<Rightarrow> code = 1 \<or> code = 2
      | Inr (code, Some st) \<Rightarrow> code = 0 \<and> 0 < ra_batch_size args \<and>
          (\<exists>file row payload pending. ra_input args = Some file \<and>
             bindE (load_json_file E file) (validate_reddit_export u ix E) = Inr (row, payload) \<and> pending_ok u ix st pending))"
proof (cases "ra_batch_size args < 1 \<or> ra_input args = None")
  case True
  then show ?thesis by (auto simp: reddit_main_def ret_def)
next
  case False
  then obtain f where input: "ra_input args = Some f" "0 < ra_batch_size args" by auto
  show ?thesis
  proof (cases "bindE (load_json_file E f) (validate_reddit_export u ix E)")
    case (Inl e)
    then show ?thesis using input by (auto simp: reddit_main_def ret_def raise_def)
  next
    case (Inr rp)
    obtain row payload where rp: "rp = (row, payload)" by (cases rp)
    show ?thesis
    proof (cases "reddit_discovery u ix E row payload (ra_min_score args) (ra_include_comment_urls args) now")
      case (Inl e)
      then show ?thesis using input \<open>bindE _ _ = Inr rp\<close> by (simp add: reddit_main_def ret_def rp)
    next
      case (Inr sp)
      obtain st pending where sp: "sp = (st, pending)" by (cases sp)
      have "pending_ok u ix st pending" by (rule pending_ok_of_discovery [OF Inr [unfolded sp]])
      then show ?thesis using input Inr \<open>bindE _ _ = Inr rp\<close> by (auto simp: reddit_main_def ret_def rp sp)
    qed
  qed
qed

end
