(* ===== verification/V2_Tables.thy ===== *)
theory V2_Tables
  imports Py_Str Sha256
begin

text \<open>
  The first part of \<open>scripts/crawl_jobs_v2_url.py\<close>: reading the pinned Unicode tables from the one generated Lua
  file, and looking a code point up. The file is an argument; it is accepted only if its length and SHA-256 are
  the pinned ones and its literals have the expected grammar and sizes.

  \<open>tables_ok\<close> is what the rest of the module relies on: every lookup of a code point is in range, and the
  properties are within their bounds.
\<close>

section \<open>Pinned data\<close>

definition DATA_IDENTITY :: string where
  "DATA_IDENTITY = ''cj2-url-v1/go1.25.13/x-net-v0.58.0/x-text-v0.41.0/unicode-15.0.0/data-1''"

definition DATA_SHA256 :: string where
  "DATA_SHA256 = ''07243776f0a5b1691e872cf92bddaf60cebf292175f25e2146a65220f20e849e''"

definition DATA_SOURCE_BYTES :: nat where "DATA_SOURCE_BYTES = 273023"

definition GO_PROPERTY_ORACLE_SHA256 :: string where
  "GO_PROPERTY_ORACLE_SHA256 = ''b728aa7ae09b7e577fead2845d3489daf7e20d427b2a23ef0ffcd7b1722d5981''"

definition PACKED_SIZES :: "(string \<times> nat) list" where
  "PACKED_SIZES = [(''ranges'', 6461 * 5), (''props'', 2099 * 9), (''decomp'', 9804), (''compositions'', 941 * 7), (''ascii'', 128 * 2)]"

definition source_prefix :: bytes where
  "source_prefix =
     py ''-- Generated by tools/generate-unicode; DO NOT EDIT.'' @ [10] @
     py ''-- Go Authors BSD-3-Clause; Unicode notices: licenses/.'' @ [10] @
     py ''-- Exact source provenance: unicode-provenance.json. No runtime loaders.'' @ [10] @
     py ''local byte, floor = string.byte, math.floor'' @ [10]"

definition trailer_start :: bytes where
  "trailer_start = py ''local function uint(s, p, n)'' @ [10]"

definition trailer_end :: bytes where
  "trailer_end =
     py ''return {identity = '' @ [34] @ py DATA_IDENTITY @ [34] @ py '', max_decomposition = 4,'' @ [10] @
     py ''        get = get, compose = compose, props = props, decomp = decomp}'' @ [10]"

definition be_uint :: "bytes \<Rightarrow> nat \<Rightarrow> nat \<Rightarrow> nat" where
  "be_uint data offset width = foldl (\<lambda>n b. 256 * n + b) 0 (take width (drop offset data))"

section \<open>The literals\<close>

text \<open>The pattern \<open>_LITERAL\<close>: four blanks, a quoted run of three-digit escapes, a continuation mark, the end of the line.\<close>

fun escapes :: "bytes \<Rightarrow> bytes list \<times> bytes" where
  "escapes (q # a # b # c # s) =
     (if q = 92 \<and> ascii_digit a \<and> ascii_digit b \<and> ascii_digit c
      then (let (g, r) = escapes s in ([a, b, c] # g, r)) else ([], q # a # b # c # s))"
| "escapes s = ([], s)"

definition literal_at :: "bytes \<Rightarrow> (bytes list \<times> bool \<times> bytes) option" where
  "literal_at s =
     (if \<not> starts_with (py ''    '' @ [34]) s then None
      else let (groups, r) = escapes (drop 5 s) in
        if groups = [] \<or> \<not> starts_with [34] r then None
        else let r1 = drop 1 r; continuation = starts_with (py '' ..'') r1; r2 = (if continuation then drop 3 r1 else r1) in
          if starts_with [10] r2 then Some (groups, continuation, drop 1 r2) else None)"

lemma escapes_length: "escapes s = (g, r) \<Longrightarrow> length r \<le> length s"
  by (induction s arbitrary: g r rule: escapes.induct) (fastforce split: if_splits prod.splits)+

lemma literal_at_shorter: "literal_at s = Some (g, c, r) \<Longrightarrow> length r < length s"
  using escapes_length [of "drop 5 s"]
  by (cases s) (auto simp: literal_at_def Let_def starts_with_def split: if_splits prod.splits)

text \<open>The chunks of one literal: all but the last have 4096 bytes.\<close>

function read_chunks :: "bytes \<Rightarrow> exn + bytes \<times> bytes" where
  "read_chunks s =
     (case literal_at s of
        None \<Rightarrow> Inl TableDataError
      | Some (groups, continuation, rest) \<Rightarrow>
          let chunk = map decimal_value groups in
          if list_ex (\<lambda>b. 255 < b) chunk then Inl TableDataError
          else if \<not> (1 \<le> length chunk \<and> length chunk \<le> 4096) \<or> continuation \<and> length chunk \<noteq> 4096 then Inl TableDataError
          else if continuation then bindE (read_chunks rest) (\<lambda>(more, r). Inr (chunk @ more, r))
          else Inr (chunk, rest))"
  by auto
termination by (relation "measure length") (auto intro: literal_at_shorter)

declare read_chunks.simps [simp del]

primrec read_packed :: "(string \<times> nat) list \<Rightarrow> bytes \<Rightarrow> exn + (string \<times> bytes) list \<times> bytes" where
  "read_packed [] s = Inr ([], s)"
| "read_packed (entry # sizes) s =
     (let declaration = py ''local '' @ py (fst entry) @ py '' ='' @ [10] in
      bindE (requireE (starts_with declaration s) TableDataError) (\<lambda>_.
      bindE (read_chunks (drop (length declaration) s)) (\<lambda>(data, rest).
      bindE (requireE (length data = snd entry) TableDataError) (\<lambda>_.
      bindE (read_packed sizes rest) (\<lambda>(packed, trailer). Inr ((fst entry, data) # packed, trailer))))))"

definition parse_pinned_literals :: "bytes \<Rightarrow> exn + (string \<times> bytes) list" where
  "parse_pinned_literals source =
     bindE (requireE (length source = DATA_SOURCE_BYTES) TableDataError) (\<lambda>_.
     bindE (requireE (sha256_hex source = py DATA_SHA256) TableDataError) (\<lambda>_.
     bindE (requireE (starts_with source_prefix source) TableDataError) (\<lambda>_.
     bindE (read_packed PACKED_SIZES (drop (length source_prefix) source)) (\<lambda>(packed, trailer).
     bindE (requireE (starts_with trailer_start trailer \<and> ends_with trailer_end trailer) TableDataError) (\<lambda>_. Inr packed)))))"

section \<open>Tables\<close>

record v2_properties =
  pr_idna :: nat
  pr_bidi :: nat
  pr_ccc :: nat
  pr_nfc_flags :: nat
  pr_leading :: nat
  pr_decomposition :: "nat list"

record unicode_tables =
  ut_starts :: "nat list"
  ut_indices :: "nat list"
  ut_properties :: "v2_properties list"
  ut_compositions :: "(nat \<times> nat) list"
  ut_packed :: "(string \<times> bytes) list"

definition bisect_right :: "nat list \<Rightarrow> nat \<Rightarrow> nat" where
  "bisect_right xs x = length (takeWhile (\<lambda>y. y \<le> x) xs)"

text \<open>The properties of a code point; \<open>tables_ok\<close> makes both accesses valid.\<close>

definition lookup :: "unicode_tables \<Rightarrow> nat \<Rightarrow> v2_properties" where
  "lookup T scalar = ut_properties T ! (ut_indices T ! (bisect_right (ut_starts T) scalar - 1))"

text \<open>The key keeps 16 bits of each code point; 0 is no composition.\<close>

definition compose :: "unicode_tables \<Rightarrow> nat \<Rightarrow> nat \<Rightarrow> nat" where
  "compose T first second =
     (case map_of (ut_compositions T) (65536 * (first mod 65536) + second mod 65536) of None \<Rightarrow> 0 | Some c \<Rightarrow> c)"

definition be32 :: "nat \<Rightarrow> bytes" where
  "be32 n = [n div 16777216 mod 256, n div 65536 mod 256, n div 256 mod 256, n mod 256]"

definition property_stream :: "unicode_tables \<Rightarrow> bytes" where
  "property_stream T =
     concat (map (\<lambda>scalar. let p = lookup T scalar in
         [pr_idna p, pr_bidi p, pr_ccc p, pr_nfc_flags p, pr_leading p, length (pr_decomposition p)] @
         concat (map be32 (pr_decomposition p))) [0 ..< 1114112]) @
     be32 (length (ut_compositions T) * 8) @
     concat (map (\<lambda>kv. be32 (fst kv) @ be32 (snd kv)) (sort_key snd (ut_compositions T)))"

definition verify_exhaustive_inventory :: "unicode_tables \<Rightarrow> exn + pystr" where
  "verify_exhaustive_inventory T =
     (let result = sha256_hex (property_stream T) in
      bindE (requireE (result = py GO_PROPERTY_ORACLE_SHA256) TableDataError) (\<lambda>_. Inr result))"

definition surrogate :: "nat \<Rightarrow> bool" where
  "surrogate c \<longleftrightarrow> 55296 \<le> c \<and> c \<le> 57343"

text \<open>\<open>range(0, n, k)\<close>\<close>

definition strides :: "nat \<Rightarrow> nat \<Rightarrow> nat list" where
  "strides n k = map (\<lambda>i. i * k) [0 ..< (n + k - 1) div k]"

definition property_at :: "bytes \<Rightarrow> bytes \<Rightarrow> nat \<Rightarrow> exn + v2_properties" where
  "property_at props decomps i =
     (let flags = props ! i; bidi = props ! (i + 1); ccc = props ! (i + 2); nfc = props ! (i + 3); leading = props ! (i + 4);
          offset = be_uint props (i + 5) 3; n = props ! (i + 8) in
      bindE (requireE (\<not> (4 < drop_bit 3 flags \<or> 24 < bidi \<or> 56 \<le> ccc \<or> 64 \<le> nfc \<or> 3 < leading)) TableDataError) (\<lambda>_.
      bindE (requireE (\<not> (offset mod 3 \<noteq> 0 \<or> 4 < n \<or> length decomps < offset + n * 3)) TableDataError) (\<lambda>_.
      let decomposition = map (\<lambda>j. be_uint decomps (offset + j * 3) 3) [0 ..< n] in
      bindE (requireE (\<not> list_ex (\<lambda>c. 1114111 < c \<or> surrogate c) decomposition) TableDataError) (\<lambda>_.
      Inr \<lparr>pr_idna = flags, pr_bidi = bidi, pr_ccc = ccc, pr_nfc_flags = nfc, pr_leading = leading,
           pr_decomposition = decomposition\<rparr>))))"

primrec composition_pairs :: "bytes \<Rightarrow> int \<Rightarrow> nat list \<Rightarrow> exn + (nat \<times> nat) list" where
  "composition_pairs pairs previous [] = Inr []"
| "composition_pairs pairs previous (i # is) =
     (let key = be_uint pairs i 4; v = be_uint pairs (i + 4) 3 in
      bindE (requireE (\<not> (int key \<le> previous \<or> v = 0 \<or> 1114111 < v \<or> surrogate v)) TableDataError) (\<lambda>_.
      bindE (composition_pairs pairs (int key) is) (\<lambda>rest. Inr ((key, v) # rest))))"

definition packed_literal :: "(string \<times> bytes) list \<Rightarrow> string \<Rightarrow> bytes" where
  "packed_literal packed k = (case map_of packed k of None \<Rightarrow> [] | Some d \<Rightarrow> d)"

definition tables_from_packed :: "(string \<times> bytes) list \<Rightarrow> exn + unicode_tables" where
  "tables_from_packed packed =
     (let ranges = packed_literal packed ''ranges''; props = packed_literal packed ''props'';
          decomps = packed_literal packed ''decomp''; pairs = packed_literal packed ''compositions'';
          starts = map (\<lambda>i. be_uint ranges i 3) (strides (length ranges) 5);
          indices = map (\<lambda>i. be_uint ranges (i + 3) 2) (strides (length ranges) 5) in
      bindE (requireE (\<not> (hd starts \<noteq> 0 \<or> 1114111 < last starts \<or> list_ex (\<lambda>(a, b). b \<le> a) (zip starts (tl starts)))) TableDataError) (\<lambda>_.
      bindE (requireE (set indices = {..< 2099}) TableDataError) (\<lambda>_.
      bindE (mapE (property_at props decomps) (strides (length props) 9)) (\<lambda>properties.
      bindE (composition_pairs pairs (-1) (strides (length pairs) 7)) (\<lambda>compositions.
      bindE (requireE (card (set (map snd compositions)) = 941) TableDataError) (\<lambda>_.
      bindE (requireE (\<forall>c < 128. indices ! (bisect_right starts c - 1) = be_uint (packed_literal packed ''ascii'') (c * 2) 2)
        TableDataError) (\<lambda>_.
      Inr \<lparr>ut_starts = starts, ut_indices = indices, ut_properties = properties, ut_compositions = compositions,
           ut_packed = packed\<rparr>)))))))"

definition tables_from_source :: "bytes \<Rightarrow> exn + unicode_tables" where
  "tables_from_source source = bindE (parse_pinned_literals source) tables_from_packed"

section \<open>What accepted tables are\<close>

definition property_ok :: "v2_properties \<Rightarrow> bool" where
  "property_ok p \<longleftrightarrow> drop_bit 3 (pr_idna p) \<le> 4 \<and> pr_bidi p \<le> 24 \<and> pr_ccc p < 56 \<and> pr_nfc_flags p < 64 \<and> pr_leading p \<le> 3 \<and>
     length (pr_decomposition p) \<le> 4 \<and> (\<forall>c \<in> set (pr_decomposition p). c \<le> 1114111 \<and> \<not> surrogate c)"

definition tables_ok :: "unicode_tables \<Rightarrow> bool" where
  "tables_ok T \<longleftrightarrow> ut_starts T \<noteq> [] \<and> hd (ut_starts T) = 0 \<and> sorted_wrt (<) (ut_starts T) \<and>
     length (ut_indices T) = length (ut_starts T) \<and> (\<forall>i \<in> set (ut_indices T). i < length (ut_properties T)) \<and>
     (\<forall>p \<in> set (ut_properties T). property_ok p) \<and> distinct (map fst (ut_compositions T)) \<and>
     (\<forall>(k, c) \<in> set (ut_compositions T). 0 < c \<and> c \<le> 1114111 \<and> \<not> surrogate c)"

lemma bisect_right_bounds:
  assumes "xs \<noteq> []" and "hd xs = 0"
  shows "1 \<le> bisect_right xs x" and "bisect_right xs x \<le> length xs"
  using assms by (cases xs; simp add: bisect_right_def length_takeWhile_le)+

text \<open>A lookup is in range, so its properties are within their bounds.\<close>

lemma lookup_ok: "tables_ok T \<Longrightarrow> property_ok (lookup T c)"
proof -
  assume T: "tables_ok T"
  let ?k = "bisect_right (ut_starts T) c - 1"
  have "?k < length (ut_indices T)" using T bisect_right_bounds [of "ut_starts T" c] by (auto simp: tables_ok_def)
  then have "ut_indices T ! ?k < length (ut_properties T)" using T by (simp add: tables_ok_def)
  then show ?thesis using T by (simp add: tables_ok_def lookup_def)
qed

lemma property_at_ok: "property_at props decomps i = Inr p \<Longrightarrow> property_ok p"
  by (auto simp: property_at_def Let_def sum_iffs property_ok_def list_ex_iff not_less)

lemma composition_pairs_ok:
  "composition_pairs pairs previous ks = Inr cs \<Longrightarrow>
     distinct (map fst cs) \<and> (\<forall>(k, c) \<in> set cs. previous < int k \<and> 0 < c \<and> c \<le> 1114111 \<and> \<not> surrogate c)"
proof (induction ks arbitrary: previous cs)
  case (Cons i ks)
  then obtain rest where rest: "composition_pairs pairs (int (be_uint pairs i 4)) ks = Inr rest"
    "cs = (be_uint pairs i 4, be_uint pairs (i + 4) 3) # rest" "previous < int (be_uint pairs i 4)"
    "0 < be_uint pairs (i + 4) 3" "be_uint pairs (i + 4) 3 \<le> 1114111" "\<not> surrogate (be_uint pairs (i + 4) 3)"
    by (auto simp: sum_iffs Let_def)
  then show ?case using Cons.IH [OF rest(1)] by fastforce
qed simp

lemma sorted_zip: "\<not> list_ex (\<lambda>(a, b). b \<le> a) (zip xs (tl xs)) \<Longrightarrow> sorted_wrt (<) (xs :: nat list)"
proof (induction xs)
  case (Cons x xs)
  then show ?case by (cases xs) (auto intro: less_trans)
qed simp

lemma read_packed_sizes:
  "read_packed sizes s = Inr (packed, r) \<Longrightarrow> map fst packed = map fst sizes \<and> map (length \<circ> snd) packed = map snd sizes"
  by (induction sizes arbitrary: s packed r) (fastforce simp: sum_iffs Let_def)+

lemma tables_from_source_ok:
  assumes "tables_from_source source = Inr T"
  shows "tables_ok T"
proof -
  obtain packed where p: "parse_pinned_literals source = Inr packed" "tables_from_packed packed = Inr T"
    using assms by (auto simp: tables_from_source_def sum_iffs)
  obtain r where "read_packed PACKED_SIZES (drop (length source_prefix) source) = Inr (packed, r)"
    using p(1) by (auto simp: parse_pinned_literals_def sum_iffs)
  then have "map fst packed = map fst PACKED_SIZES" "map (length \<circ> snd) packed = map snd PACKED_SIZES"
    using read_packed_sizes by blast+
  then obtain a b c d e where packed: "packed = [(''ranges'', a), (''props'', b), (''decomp'', c), (''compositions'', d), (''ascii'', e)]"
    and len: "length a = 32305" "length b = 18891"
    by (auto simp: PACKED_SIZES_def Cons_eq_map_conv)
  have n: "length (strides 18891 9) = 2099" "length (strides 32305 5) = 6461" by (simp_all add: strides_def)
  have f: "packed_literal packed ''ranges'' = a" "packed_literal packed ''props'' = b" by (simp_all add: packed packed_literal_def)
  let ?starts = "map (\<lambda>i. be_uint a i 3) (strides (length a) 5)"
  let ?indices = "map (\<lambda>i. be_uint a (i + 3) 2) (strides (length a) 5)"
  note run = p(2) [unfolded tables_from_packed_def Let_def f bindE_Inr_iff requireE_Inr_iff]
  then obtain ps cs where ok: "\<not> (hd ?starts \<noteq> 0 \<or> 1114111 < last ?starts \<or> list_ex (\<lambda>(a, b). b \<le> a) (zip ?starts (tl ?starts)))"
      "set ?indices = {..< 2099}"
      "mapE (property_at b (packed_literal packed ''decomp'')) (strides (length b) 9) = Inr ps"
      "composition_pairs (packed_literal packed ''compositions'') (-1) (strides (length (packed_literal packed ''compositions'')) 7) = Inr cs"
    and T: "\<lparr>ut_starts = ?starts, ut_indices = ?indices, ut_properties = ps, ut_compositions = cs, ut_packed = packed\<rparr> = T"
    unfolding sum.inject by blast
  have starts: "length ?starts = 6461" "length ?indices = 6461" using n(2) len(1) by simp_all
  have sorted: "sorted_wrt (<) ?starts" by (rule sorted_zip) (use ok(1) in blast)
  have hd0: "hd ?starts = 0" using ok(1) by blast
  have "\<forall>i \<in> set ?indices. i < 2099" unfolding ok(2) by simp
  moreover have "length ps = 2099" using mapE_length [OF ok(3)] n(1) len(2) by simp
  moreover have "property_ok q" if q: "q \<in> set ps" for q
  proof -
    obtain x where "property_at b (packed_literal packed ''decomp'') x = Inr q"
      using mapE_mem [OF ok(3) q] by blast
    then show ?thesis by (rule property_at_ok)
  qed
  moreover have "?starts \<noteq> []" using starts(1) by (metis length_0_conv zero_neq_numeral)
  moreover have "distinct (map fst cs) \<and> (\<forall>(k, c) \<in> set cs. 0 < c \<and> c \<le> 1114111 \<and> \<not> surrogate c)"
    using composition_pairs_ok [OF ok(4)] by blast
  ultimately show ?thesis
    unfolding tables_ok_def T [symmetric] unicode_tables.simps
    using hd0 sorted starts by auto
qed

end
