(* ===== verification/V2_Punycode.thy ===== *)
theory V2_Punycode
  imports V2_Tables
begin

text \<open>
  \<open>decode_punycode\<close> of \<open>scripts/crawl_jobs_v2_url.py\<close>, and \<open>str.encode("punycode")\<close> of Python's standard library
  (\<open>punycode_encode\<close>), with which the module checks a decoded label.

  The theorem: the decoder never needs the check. Encoding what it returns gives the payload back.
\<close>

section \<open>The decoder\<close>

abbreviation not_canonical :: "exn + 'a" where
  "not_canonical \<equiv> Inl (URLValidationError ''CANONICAL_URL_NOT_CANONICAL'')"

definition MAX_INT32 :: nat where "MAX_INT32 = 2147483647"

function adapt_loop :: "nat \<Rightarrow> nat \<Rightarrow> nat \<times> nat" where
  "adapt_loop delta bias = (if 455 < delta then adapt_loop (delta div 35) (bias + 36) else (delta, bias))"
  by auto
termination by (relation "measure fst") auto

declare adapt_loop.simps [simp del]

definition adapt :: "nat \<Rightarrow> nat \<Rightarrow> bool \<Rightarrow> nat" where
  "adapt delta points first =
     (let d = delta div (if first then 700 else 2);
          (delta', bias) = adapt_loop (d + d div points) 0 in
      bias + 36 * delta' div (delta' + 38))"

definition letter_value :: "nat \<Rightarrow> nat option" where
  "letter_value c = (if ascii_lower c then Some (c - 97) else if ascii_digit c then Some (c - 48 + 26) else None)"

definition threshold :: "nat \<Rightarrow> nat \<Rightarrow> nat" where
  "threshold k bias = nat (max 1 (min 26 (int k - int bias)))"

text \<open>The inner loop: one number, least significant digit first, and what is left of the payload.\<close>

fun decode_number :: "nat \<Rightarrow> nat \<Rightarrow> nat \<Rightarrow> nat \<Rightarrow> pystr \<Rightarrow> (nat \<times> pystr) option" where
  "decode_number bias k weight insertion [] = None"
| "decode_number bias k weight insertion (c # s) =
     (case letter_value c of
        None \<Rightarrow> None
      | Some digit \<Rightarrow>
          if MAX_INT32 < digit * weight + insertion then None
          else let insertion' = insertion + digit * weight; t = threshold k bias in
            if digit < t then Some (insertion', s)
            else let weight' = weight * (36 - t) in
              if MAX_INT32 < weight' then None else decode_number bias (k + 36) weight' insertion' s)"

lemma decode_number_shorter: "decode_number bias k w i s = Some (j, r) \<Longrightarrow> length r < length s"
  by (induction bias k w i s rule: decode_number.induct) (fastforce simp: Let_def split: option.splits if_splits)+

definition insert_at :: "nat \<Rightarrow> 'a \<Rightarrow> 'a list \<Rightarrow> 'a list" where
  "insert_at i x xs = take i xs @ x # drop i xs"

function decode_loop :: "nat list \<Rightarrow> nat \<Rightarrow> nat \<Rightarrow> nat \<Rightarrow> pystr \<Rightarrow> exn + nat list" where
  "decode_loop result insertion scalar bias s =
     (if s = [] then Inr result
      else case decode_number bias 36 1 insertion s of
        None \<Rightarrow> not_canonical
      | Some (insertion', rest) \<Rightarrow>
          let count = length result + 1; bias' = adapt (insertion' - insertion) count (insertion = 0);
              scalar' = scalar + insertion' div count; position = insertion' mod count in
          if 59 < count then not_canonical
          else if 1114111 < scalar' \<or> surrogate scalar' then not_canonical
          else decode_loop (insert_at position scalar' result) (position + 1) scalar' bias' rest)"
  by pat_completeness auto
termination
  by (relation "measure (\<lambda>(_, _, _, _, s). length s)") (auto intro: decode_number_shorter)

declare decode_loop.simps [simp del]

definition decode_punycode :: "pystr \<Rightarrow> exn + nat list" where
  "decode_punycode payload =
     (if \<not> (1 \<le> length payload \<and> length payload \<le> 59) \<or> \<not> list_all (\<lambda>c. ascii_lower c \<or> ascii_digit c \<or> c = 45) payload
      then not_canonical
      else let (base, dashed, extended) = rpartition_at 45 payload in
        if dashed \<and> (base = [] \<or> extended = []) then not_canonical
        else decode_loop base 0 128 72 extended)"

section \<open>The encoder of the standard library\<close>

text \<open>
  \<open>insertion_unsort\<close>: for every non-basic character in ascending order, its occurrences among the smaller
  ones, each as the distance from the one before.
\<close>

fun unsort_char :: "nat \<Rightarrow> int \<Rightarrow> int \<Rightarrow> int \<Rightarrow> pystr \<Rightarrow> int list \<times> int" where
  "unsort_char c index oldindex delta [] = ([], oldindex)"
| "unsort_char c index oldindex delta (x # s) =
     (if x = c
      then (let (ds, old) = unsort_char c (index + 1) (index + 1) 0 s in ((delta + (index + 1 - oldindex) - 1) # ds, old))
      else unsort_char c (if x < c then index + 1 else index) oldindex delta s)"

primrec unsort :: "pystr \<Rightarrow> nat \<Rightarrow> int \<Rightarrow> pystr \<Rightarrow> int list" where
  "unsort s oldchar oldindex [] = []"
| "unsort s oldchar oldindex (c # cs) =
     (let curlen = length (filter (\<lambda>x. x < c) s);
          (ds, oldindex') = unsort_char c (-1) oldindex ((int curlen + 1) * (int c - int oldchar)) s in
      ds @ unsort s c oldindex' cs)"

definition extended_chars :: "pystr \<Rightarrow> nat list" where
  "extended_chars s = sorted_list_of_set {c \<in> set s. 128 \<le> c}"

definition insertion_unsort :: "pystr \<Rightarrow> int list" where
  "insertion_unsort s = unsort s 128 (-1) (extended_chars s)"

definition punycode_digit :: "nat \<Rightarrow> nat" where
  "punycode_digit d = (if d < 26 then 97 + d else 48 + (d - 26))"

definition encode_threshold :: "nat \<Rightarrow> nat \<Rightarrow> nat" where
  "encode_threshold j bias = (let r = 36 * (int j + 1) - int bias in if r < 1 then 1 else if 26 < r then 26 else nat r)"

lemma encode_threshold_range: "1 \<le> encode_threshold j bias \<and> encode_threshold j bias \<le> 26"
  by (auto simp: encode_threshold_def Let_def)

function generalized_integer :: "nat \<Rightarrow> nat \<Rightarrow> nat \<Rightarrow> pystr" where
  "generalized_integer n bias j =
     (let t = encode_threshold j bias in
      if n < t then [punycode_digit n]
      else punycode_digit (t + (n - t) mod (36 - t)) # generalized_integer ((n - t) div (36 - t)) bias (j + 1))"
  by pat_completeness auto
termination
proof (relation "measure (\<lambda>(n, _, _). n)")
  fix n bias j t assume t: "t = encode_threshold j bias" "\<not> n < t"
  have "1 \<le> t" "t \<le> 26" using encode_threshold_range [of j bias] t(1) by auto
  then have "(n - t) div (36 - t) \<le> n - t" by (intro div_le_dividend)
  also have "n - t < n" using \<open>1 \<le> t\<close> t(2) by simp
  finally have "(n - t) div (36 - t) < n" .
  then show "(((n - t) div (36 - t), bias, j + 1), (n, bias, j)) \<in> measure (\<lambda>(n, _, _). n)" by simp
qed simp

declare generalized_integer.simps [simp del]

primrec generate_integers :: "nat \<Rightarrow> bool \<Rightarrow> nat \<Rightarrow> int list \<Rightarrow> pystr" where
  "generate_integers numchars first bias [] = []"
| "generate_integers numchars first bias (d # ds) =
     generalized_integer (nat d) bias 0 @ generate_integers (numchars + 1) False (adapt (nat d) (numchars + 1) first) ds"

definition punycode_encode :: "pystr \<Rightarrow> pystr" where
  "punycode_encode s =
     (let base = filter (\<lambda>c. c < 128) s; extended = generate_integers (length base) True 72 (insertion_unsort s) in
      if base \<noteq> [] then base @ 45 # extended else extended)"

section \<open>Numbers\<close>

lemma threshold_eq: "threshold (36 * (j + 1)) bias = encode_threshold j bias"
  by (auto simp: threshold_def encode_threshold_def Let_def max_def min_def)

lemma letter_value_inverse: "letter_value c = Some d \<Longrightarrow> d < 36 \<and> punycode_digit d = c"
  by (auto simp: letter_value_def punycode_digit_def ascii_lower_def ascii_digit_def split: if_splits)

text \<open>A decoded number is the one whose encoding was read.\<close>

lemma decode_number_inverse:
  "decode_number bias (36 * (j + 1)) w i s = Some (i', r) \<Longrightarrow>
     \<exists>n. i' = i + n * w \<and> s = generalized_integer n bias j @ r"
proof (induction s arbitrary: j w i)
  case (Cons c s)
  then obtain d where d: "letter_value c = Some d" by (auto split: option.splits)
  define t where "t = encode_threshold j bias"
  have t: "threshold (36 * (j + 1)) bias = t" "1 \<le> t" "t \<le> 26"
    using threshold_eq encode_threshold_range [of j bias] by (auto simp: t_def)
  have c: "d < 36" "punycode_digit d = c" using letter_value_inverse [OF d] by auto
  show ?case
  proof (cases "d < t")
    case True
    then have "i' = i + d * w" "r = s" using Cons.prems d t(1) by (auto simp: Let_def split: if_splits)
    moreover have "generalized_integer d bias j = [c]"
      using True c by (subst generalized_integer.simps) (simp add: t_def [symmetric] Let_def)
    ultimately show ?thesis by (intro exI [of _ d]) simp
  next
    case False
    then have "decode_number bias (36 * ((j + 1) + 1)) (w * (36 - t)) (i + d * w) s = Some (i', r)"
      using Cons.prems d t(1) by (auto simp: Let_def add.commute split: if_splits)
    from Cons.IH [OF this] obtain m where m: "i' = i + d * w + m * (w * (36 - t))" "s = generalized_integer m bias (j + 1) @ r"
      by blast
    define n where "n = d + (36 - t) * m"
    have n: "\<not> n < t" "(n - t) mod (36 - t) = d - t" "(n - t) div (36 - t) = m"
    proof -
      have e: "n - t = (d - t) + m * (36 - t)" "d - t < 36 - t" using False c(1) t(3) by (auto simp: n_def mult.commute)
      show "\<not> n < t" using False by (simp add: n_def)
      show "(n - t) mod (36 - t) = d - t" unfolding e(1) using e(2) by simp
      show "(n - t) div (36 - t) = m" unfolding e(1) using e(2) by simp
    qed
    have "generalized_integer n bias j = c # generalized_integer m bias (j + 1)"
      using n False c(2) by (subst generalized_integer.simps) (simp add: t_def [symmetric] Let_def)
    then show ?thesis using m by (intro exI [of _ n]) (simp add: n_def algebra_simps)
  qed
qed simp

section \<open>Insertion\<close>

text \<open>Only the characters up to \<open>c\<close> matter for the occurrences of \<open>c\<close>.\<close>

lemma unsort_char_filter: "unsort_char c i old d s = unsort_char c i old d (filter (\<lambda>x. x \<le> c) s)"
  by (induction s arbitrary: i old d) auto

lemma unsort_char_none: "c \<notin> set s \<Longrightarrow> unsort_char c i old d s = ([], old)"
  by (induction s arbitrary: i) auto

text \<open>A last occurrence appends one distance.\<close>

lemma unsort_char_append:
  assumes "c \<notin> set v"
  shows "unsort_char c i old d (u @ c # v) =
     (let (ds, old') = unsort_char c i old d u; p = i + int (length (filter (\<lambda>x. x \<le> c) u)) in
      (ds @ [(if c \<in> set u then 0 else d) + p - old'], p + 1))"
  by (induction u arbitrary: i old d)
    (auto simp: unsort_char_none [OF assms] Let_def split: prod.splits)

lemma unsort_char_prefix: "c \<notin> set v \<Longrightarrow> unsort_char c i old d (u @ v) = unsort_char c i old d u"
  by (induction u arbitrary: i old d) (auto simp: unsort_char_none split: prod.splits)

text \<open>The state in which the encoder ends: the position of its last character.\<close>

primrec unsort_end :: "pystr \<Rightarrow> nat \<Rightarrow> int \<Rightarrow> nat list \<Rightarrow> int" where
  "unsort_end s oldchar oldindex [] = oldindex"
| "unsort_end s oldchar oldindex (c # cs) =
     unsort_end s c (snd (unsort_char c (-1) oldindex ((int (length (filter (\<lambda>x. x < c) s)) + 1) * (int c - int oldchar)) s)) cs"

lemma unsort_append:
  "unsort s oldchar oldindex (cs @ ds) =
     unsort s oldchar oldindex cs @ unsort s (if cs = [] then oldchar else last cs) (unsort_end s oldchar oldindex cs) ds"
  by (induction cs arbitrary: oldchar oldindex) (auto simp: Let_def split: prod.splits)

lemma unsort_end_append:
  "unsort_end s oldchar oldindex (cs @ ds) =
     unsort_end s (if cs = [] then oldchar else last cs) (unsort_end s oldchar oldindex cs) ds"
  by (induction cs arbitrary: oldchar oldindex) auto

text \<open>Characters below the largest do not see an insertion of it.\<close>

lemma unsort_below:
  assumes "\<forall>c \<in> set cs. filter (\<lambda>x. x \<le> c) s = filter (\<lambda>x. x \<le> c) s'"
  shows "unsort s oldchar oldindex cs = unsort s' oldchar oldindex cs \<and> unsort_end s oldchar oldindex cs = unsort_end s' oldchar oldindex cs"
  using assms
proof (induction cs arbitrary: oldchar oldindex)
  case (Cons c cs)
  have f: "filter (\<lambda>x. x \<le> c) s = filter (\<lambda>x. x \<le> c) s'" using Cons.prems by simp
  have "filter (\<lambda>x. x < c) (filter (\<lambda>x. x \<le> c) s) = filter (\<lambda>x. x < c) (filter (\<lambda>x. x \<le> c) s')" by (simp only: f)
  then have l: "filter (\<lambda>x. x < c) s = filter (\<lambda>x. x < c) s'" by (simp add: conj_commute less_imp_le cong: conj_cong filter_cong)
  have u: "unsort_char c i old d s = unsort_char c i old d s'" for i old d
    using unsort_char_filter [of c i old d s] unsort_char_filter [of c i old d s'] f by simp
  show ?case using Cons.IH [of _ _] Cons.prems by (simp add: l u Let_def split: prod.splits)
qed simp

text \<open>What the decoder knows of its result: its last insertion is where the encoder of the result ends.\<close>

definition decoder_state :: "nat list \<Rightarrow> nat \<Rightarrow> nat \<Rightarrow> bool" where
  "decoder_state out i n \<longleftrightarrow> 128 \<le> n \<and> (\<forall>x \<in> set out. x \<le> n) \<and> n \<notin> set (drop i out) \<and> i \<le> length out \<and>
     (if extended_chars out = [] then n = 128 \<and> i = 0 else last (extended_chars out) = n) \<and>
     unsort_end out 128 (-1) (extended_chars out) = int i - 1"

lemma set_extended_chars [simp]: "set (extended_chars s) = {c \<in> set s. 128 \<le> c}"
  by (simp add: extended_chars_def)

lemma extended_chars_Nil: "extended_chars s = [] \<longleftrightarrow> (\<forall>c \<in> set s. c < 128)"
  by (auto simp: extended_chars_def sorted_list_of_set_eq_Nil_iff not_le)

lemma extended_chars_snoc:
  assumes "128 \<le> n" and "\<forall>x \<in> set s. x < n" and "set s' = insert n (set s)"
  shows "extended_chars s' = extended_chars s @ [n]"
proof -
  have "{c \<in> set s'. 128 \<le> c} = insert n {c \<in> set s. 128 \<le> c}" using assms by auto
  moreover have "n \<notin> {c \<in> set s. 128 \<le> c}" using assms(2) by auto
  ultimately have "extended_chars s' = insort n (extended_chars s)"
    by (simp add: extended_chars_def sorted_list_of_set_insert)
  also have "\<dots> = extended_chars s @ [n]"
    by (rule sorted_insort_is_snoc) (use assms(2) in \<open>auto simp: extended_chars_def intro: less_imp_le\<close>)
  finally show ?thesis .
qed

lemma extended_chars_cong: "set s = set s' \<Longrightarrow> extended_chars s = extended_chars s'"
  by (simp add: extended_chars_def)

lemma insert_at_facts:
  assumes "i \<le> length xs"
  shows "set (insert_at i x xs) = insert x (set xs)" and "length (insert_at i x xs) = length xs + 1"
    and "filter P (insert_at i x xs) = filter P (take i xs) @ (if P x then [x] else []) @ filter P (drop i xs)"
proof -
  have "set (take i xs) \<union> set (drop i xs) = set xs" by (metis append_take_drop_id set_append)
  then show "set (insert_at i x xs) = insert x (set xs)" by (auto simp: insert_at_def)
  show "length (insert_at i x xs) = length xs + 1" "filter P (insert_at i x xs) = filter P (take i xs) @ (if P x then [x] else []) @ filter P (drop i xs)"
    using assms by (simp_all add: insert_at_def)
qed

lemma filter_insert_at: "\<not> P x \<Longrightarrow> filter P (insert_at i x xs) = filter P xs"
  by (metis append_Nil append_take_drop_id filter_append insert_at_def filter.simps(2))

lemma decoder_step:
  assumes st: "decoder_state out i n" and x: "i \<le> x"
    and n': "n' = n + x div (length out + 1)" and pos: "pos = x mod (length out + 1)"
  shows "insertion_unsort (insert_at pos n' out) = insertion_unsort out @ [int x - int i]"
    and "decoder_state (insert_at pos n' out) (pos + 1) n'"
    and "filter (\<lambda>c. c < 128) (insert_at pos n' out) = filter (\<lambda>c. c < 128) out"
proof -
  let ?out = "insert_at pos n' out"
  define u v where "u = take pos out" and "v = drop pos out"
  have uv: "out = u @ v" "?out = u @ n' # v" by (simp_all add: u_def v_def insert_at_def)
  have le: "pos \<le> length out" using pos by (simp add: less_Suc_eq_le [symmetric] del: less_Suc_eq_le)
  have lu: "length u = pos" using le by (simp add: u_def)
  have n: "128 \<le> n" "\<forall>y \<in> set out. y \<le> n" "n \<le> n'" using st n' by (auto simp: decoder_state_def)
  have fu: "filter (\<lambda>y. y \<le> n') u = u"
    by (rule filter_True) (use n in \<open>auto simp: u_def dest: in_set_takeD intro: order_trans [of _ n n']\<close>)
  have end_eq: "unsort_end out 128 (-1) (extended_chars out) = int i - 1" using st by (simp add: decoder_state_def)
  have v: "n' \<notin> set v"
  proof (cases "n' = n")
    case True
    then have "x < length out + 1" using n' by (simp add: div_eq_0_iff)
    then have "i \<le> pos" using pos x by simp
    then have "set v \<subseteq> set (drop i out)" unfolding v_def by (rule set_drop_subset_set_drop)
    then show ?thesis using st True by (auto simp: decoder_state_def)
  next
    case False
    then have "n < n'" using n(3) by simp
    then show ?thesis using n(2) unfolding uv(1) by (metis Un_iff leD set_append)
  qed
  have below: "filter (\<lambda>y. y \<le> c) ?out = filter (\<lambda>y. y \<le> c) out" if "c < n'" for c
    by (rule filter_insert_at) (use that in simp)
  have lt: "filter (\<lambda>y. y < n') ?out = filter (\<lambda>y. y < n') out" by (rule filter_insert_at) simp
  have result: "insertion_unsort ?out = insertion_unsort out @ [int x - int i] \<and>
      unsort_end ?out 128 (-1) (extended_chars ?out) = int pos \<and> last (extended_chars ?out) = n' \<and> extended_chars ?out \<noteq> []"
  proof (cases "n' \<in> set out")
    case True
    then have nn: "n' = n" using n by (auto intro: antisym)
    then have xp: "x = pos" using n' pos by (simp add: div_eq_0_iff)
    have ext: "extended_chars ?out = extended_chars out" by (rule extended_chars_cong) (use True le in \<open>auto simp: insert_at_facts\<close>)
    have ne: "extended_chars out \<noteq> []" using True n(1) unfolding extended_chars_Nil nn by (auto simp: not_less intro!: bexI [of _ n])
    obtain cs where cs: "extended_chars out = cs @ [n]"
      using st ne by (metis append_butlast_last_id decoder_state_def)
    have "sorted_wrt (<) (extended_chars out)" by (simp add: extended_chars_def)
    then have "\<forall>c \<in> set cs. c < n'" by (simp add: cs sorted_wrt_append nn)
    then have pre: "unsort ?out 128 (-1) cs = unsort out 128 (-1) cs" "unsort_end ?out 128 (-1) cs = unsort_end out 128 (-1) cs"
      using unsort_below [of cs ?out out 128 "-1"] below by auto
    define old D where "old = unsort_end out 128 (-1) cs"
      and "D = (int (length (filter (\<lambda>y. y < n') out)) + 1) * (int n' - int (if cs = [] then 128 else last cs))"
    obtain ds old' where run: "unsort_char n' (-1) old D u = (ds, old')" by fastforce
    have run': "unsort_char n' (-1) old D out = (ds, old')" using run unsort_char_prefix [OF v, of "-1" old D u] by (simp flip: uv(1))
    have "unsort_end out 128 (-1) (cs @ [n]) = old'" using run' unfolding old_def D_def nn by (simp add: unsort_end_append)
    then have "old' = int i - 1" using end_eq by (simp add: cs)
    moreover have "n' \<in> set u" using True v uv(1) by auto
    ultimately have new: "unsort_char n' (-1) old D ?out = (ds @ [int pos - int i], int pos)"
      unfolding uv(2) unsort_char_append [OF v] by (simp add: run fu lu)
    have ins: "insertion_unsort s = unsort s 128 (-1) cs @ unsort s (if cs = [] then 128 else last cs) (unsort_end s 128 (-1) cs) [n']"
      if "extended_chars s = cs @ [n]" for s
      using that by (simp add: insertion_unsort_def unsort_append nn)
    have "insertion_unsort out = unsort out 128 (-1) cs @ ds"
      using run' by (simp add: ins [OF cs] old_def D_def Let_def)
    moreover have "insertion_unsort ?out = unsort out 128 (-1) cs @ ds @ [int pos - int i]"
      using new by (simp add: ins [OF ext [unfolded cs]] pre lt old_def D_def Let_def)
    moreover have "unsort_end ?out 128 (-1) (extended_chars ?out) = int pos"
      using new unfolding ext cs by (simp add: unsort_end_append pre lt old_def D_def flip: nn)
    moreover have "last (extended_chars ?out) = n'" "extended_chars ?out \<noteq> []" unfolding ext cs by (simp_all add: nn)
    ultimately show ?thesis by (simp add: xp)
  next
    case False
    have small: "\<forall>y \<in> set out. y < n'" using n False by (metis le_neq_implies_less order_trans)
    have ext: "extended_chars ?out = extended_chars out @ [n']"
      by (rule extended_chars_snoc) (use n small le in \<open>auto simp: insert_at_facts\<close>)
    have pre: "unsort ?out 128 (-1) (extended_chars out) = unsort out 128 (-1) (extended_chars out)"
      "unsort_end ?out 128 (-1) (extended_chars out) = int i - 1"
      using unsort_below [of "extended_chars out" ?out out 128 "-1"] below small end_eq by auto
    have old: "(if extended_chars out = [] then 128 else last (extended_chars out)) = n"
      using st by (auto simp: decoder_state_def split: if_splits)
    have all: "filter (\<lambda>y. y < n') out = out" using small by (auto intro: filter_True)
    define D where "D = (int (length out) + 1) * (int n' - int n)"
    have "n' \<notin> set u" using False uv(1) by auto
    then have "unsort_char n' (-1) (int i - 1) D u = ([], int i - 1)" by (rule unsort_char_none)
    then have new: "unsort_char n' (-1) (int i - 1) D ?out = ([D + int pos - int i], int pos)"
      using \<open>n' \<notin> set u\<close> unfolding uv(2) unsort_char_append [OF v] by (simp add: fu lu)
    have "D + int pos = int x"
    proof -
      have "int n' - int n = int (x div (length out + 1))" by (simp add: n')
      then have "D = int ((length out + 1) * (x div (length out + 1)))" by (simp add: D_def algebra_simps)
      then show ?thesis using pos by (metis mult_div_mod_eq of_nat_add)
    qed
    then have "D + int pos - int i = int x - int i" by simp
    then show ?thesis
      using new by (simp add: insertion_unsort_def ext unsort_append unsort_end_append pre old lt all D_def Let_def)
  qed
  then show "insertion_unsort ?out = insertion_unsort out @ [int x - int i]" by blast
  have "drop (pos + 1) ?out = v" by (simp add: uv(2) lu)
  then show "decoder_state ?out (pos + 1) n'"
    using result v n le by (auto simp: decoder_state_def insert_at_facts intro: order_trans)
  show "filter (\<lambda>c. c < 128) ?out = filter (\<lambda>c. c < 128) out"
    by (rule filter_insert_at) (use n in simp)
qed

text \<open>What the decoder accepts: at most 59 scalar values, none of them a surrogate, and an encoding that is the payload.\<close>

lemma decode_loop_inverse:
  "decode_loop out i n bias s = Inr r \<Longrightarrow> decoder_state out i n \<Longrightarrow>
     (\<exists>ds. s = generate_integers (length out) (i = 0) bias ds \<and> insertion_unsort r = insertion_unsort out @ ds) \<and>
     filter (\<lambda>c. c < 128) r = filter (\<lambda>c. c < 128) out \<and> length r \<le> max 59 (length out) \<and>
     set r \<subseteq> set out \<union> {c. c \<le> 1114111 \<and> \<not> surrogate c} \<and> (s \<noteq> [] \<longrightarrow> (\<exists>c \<in> set r. 128 \<le> c))"
proof (induction out i n bias s rule: decode_loop.induct)
  case (1 out i n bias s)
  show ?case
  proof (cases "s = []")
    case True
    then show ?thesis using 1(2) by (auto simp: decode_loop.simps intro!: exI [of _ "[]"])
  next
    case False
    then obtain x rest where num: "decode_number bias 36 1 i s = Some (x, rest)"
      using 1(2) by (subst (asm) decode_loop.simps) (auto split: option.splits)
    define n' pos where "n' = n + x div (length out + 1)" and "pos = x mod (length out + 1)"
    have checks: "length out + 1 \<le> 59" "n' \<le> 1114111" "\<not> surrogate n'"
      and loop: "decode_loop (insert_at pos n' out) (pos + 1) n' (adapt (x - i) (length out + 1) (i = 0)) rest = Inr r"
      using 1(2) False num unfolding n'_def pos_def
      by (subst (asm) decode_loop.simps; auto simp: Let_def split: if_splits)+
    obtain m where m: "x = i + m" "s = generalized_integer m bias 0 @ rest"
      using decode_number_inverse [of bias 0 1 i s x rest] num by auto
    note step = decoder_step [OF 1(3) _ n'_def pos_def]
    have ix: "i \<le> x" using m(1) by simp
    have le: "pos \<le> length out" using pos_def by (simp add: less_Suc_eq_le [symmetric] del: less_Suc_eq_le)
    have IH: "(\<exists>ds. rest = generate_integers (length (insert_at pos n' out)) (pos + 1 = 0) (adapt (x - i) (length out + 1) (i = 0)) ds \<and>
          insertion_unsort r = insertion_unsort (insert_at pos n' out) @ ds) \<and>
        filter (\<lambda>c. c < 128) r = filter (\<lambda>c. c < 128) (insert_at pos n' out) \<and> length r \<le> max 59 (length (insert_at pos n' out)) \<and>
        set r \<subseteq> set (insert_at pos n' out) \<union> {c. c \<le> 1114111 \<and> \<not> surrogate c} \<and> (rest \<noteq> [] \<longrightarrow> (\<exists>c \<in> set r. 128 \<le> c))"
      using 1(1) [OF False num refl refl refl refl refl _ _ loop [unfolded n'_def pos_def] step(2) [OF ix, unfolded n'_def pos_def]] checks
      unfolding n'_def pos_def by simp
    then obtain ds where ds: "rest = generate_integers (length out + 1) False (adapt m (length out + 1) (i = 0)) ds"
      "insertion_unsort r = insertion_unsort (insert_at pos n' out) @ ds"
      using m(1) le by (auto simp: insert_at_facts)
    have "s = generate_integers (length out) (i = 0) bias (int m # ds)" using m(2) ds(1) by simp
    moreover have "insertion_unsort r = insertion_unsort out @ int m # ds" using ds(2) step(1) [OF ix] m(1) by simp
    moreover have "128 \<le> n'" using 1(3) n'_def by (simp add: decoder_state_def)
    moreover have "\<exists>c \<in> set r. 128 \<le> c"
    proof (cases "rest = []")
      case True
      then have "r = insert_at pos n' out" using loop by (simp add: decode_loop.simps)
      then show ?thesis using \<open>128 \<le> n'\<close> le by (auto simp: insert_at_facts)
    qed (use IH in blast)
    ultimately show ?thesis
      using IH step(3) [OF ix] checks le by (auto simp: insert_at_facts)
  qed
qed

text \<open>
  C37. Decoding is undone by encoding: whatever payload \<open>decode_punycode\<close> accepts is the encoding of the scalars
  it returns, so two payloads of one label are equal, and the scalars are at most 59, in range and not all ASCII.
\<close>

theorem punycode_roundtrip:
  assumes "decode_punycode payload = Inr scalars"
  shows "punycode_encode scalars = payload \<and> length scalars \<le> 59 \<and>
     (\<forall>c \<in> set scalars. c \<le> 1114111 \<and> \<not> surrogate c) \<and> (\<exists>c \<in> set scalars. 128 \<le> c)"
proof -
  obtain base dashed extended where p: "rpartition_at 45 payload = (base, dashed, extended)" by (cases "rpartition_at 45 payload") auto
  have len: "length payload \<le> 59" "payload \<noteq> []" "list_all (\<lambda>c. ascii_lower c \<or> ascii_digit c \<or> c = 45) payload"
    and parts: "dashed \<longrightarrow> base \<noteq> [] \<and> extended \<noteq> []" and loop: "decode_loop base 0 128 72 extended = Inr scalars"
    using assms p by (auto simp: decode_punycode_def split: if_splits)
  have payload: "if dashed then payload = base @ 45 # extended else base = [] \<and> extended = payload"
  proof (cases "45 \<in> set payload")
    case True
    then have "dropWhile (\<lambda>d. d \<noteq> 45) (rev payload) \<noteq> []" by (simp add: dropWhile_eq_Nil_conv)
    then obtain c r where dw: "dropWhile (\<lambda>d. d \<noteq> 45) (rev payload) = c # r"
      by (cases "dropWhile (\<lambda>d. d \<noteq> 45) (rev payload)") auto
    have "c = 45" using hd_dropWhile [of "\<lambda>d. d \<noteq> 45" "rev payload"] by (simp add: dw)
    have "rev payload = takeWhile (\<lambda>d. d \<noteq> 45) (rev payload) @ 45 # r"
      using takeWhile_dropWhile_id [of "\<lambda>d. d \<noteq> 45" "rev payload"] by (simp add: dw \<open>c = 45\<close>)
    then have "rev (rev payload) = rev (takeWhile (\<lambda>d. d \<noteq> 45) (rev payload) @ 45 # r)" by (rule arg_cong)
    then have "payload = rev r @ 45 # rev (takeWhile (\<lambda>d. d \<noteq> 45) (rev payload))" by simp
    then show ?thesis using p True dw by (auto simp: rpartition_at_def)
  qed (use p in \<open>auto simp: rpartition_at_def\<close>)
  have ascii: "\<forall>c \<in> set base. c < 128"
  proof
    fix c assume "c \<in> set base"
    then have "c \<in> set payload" using payload by (cases dashed) auto
    then show "c < 128" using len(3) by (auto simp: list_all_iff char_class_defs)
  qed
  have none: "extended_chars base = []" using ascii by (simp add: extended_chars_Nil)
  have "128 \<notin> set base" "\<forall>x \<in> set base. x \<le> 128" using ascii by (auto intro: less_imp_le)
  then have st: "decoder_state base 0 128" by (simp add: decoder_state_def none)
  have ne: "extended \<noteq> []"
  proof (cases dashed)
    case False
    then show ?thesis using payload len(2) by simp
  qed (use parts in blast)
  obtain ds where ds: "extended = generate_integers (length base) True 72 ds" "insertion_unsort scalars = insertion_unsort base @ ds"
    and r: "filter (\<lambda>c. c < 128) scalars = filter (\<lambda>c. c < 128) base" "length scalars \<le> max 59 (length base)"
      "set scalars \<subseteq> set base \<union> {c. c \<le> 1114111 \<and> \<not> surrogate c}" "\<exists>c \<in> set scalars. 128 \<le> c"
    using decode_loop_inverse [OF loop st] ne by auto
  have b: "filter (\<lambda>c. c < 128) scalars = base" using ascii r(1) by (simp add: filter_True)
  have d: "insertion_unsort scalars = ds" using ds(2) by (simp add: insertion_unsort_def none)
  have "punycode_encode scalars = (if base \<noteq> [] then base @ 45 # extended else extended)"
    unfolding punycode_encode_def b d Let_def ds(1) [symmetric] ..
  also have "\<dots> = payload"
  proof (cases dashed)
    case True
    then have "base \<noteq> []" "payload = base @ 45 # extended" using parts payload by simp_all
    then show ?thesis by simp
  next
    case False
    then have "base = []" "extended = payload" using payload by simp_all
    then show ?thesis by simp
  qed
  finally have "punycode_encode scalars = payload" .
  moreover have "length base \<le> 59"
  proof (cases dashed)
    case True
    then have "payload = base @ 45 # extended" using payload by simp
    then have "length payload = length base + 1 + length extended" by simp
    then show ?thesis using len(1) by linarith
  qed (use payload in simp)
  moreover have "c \<le> 1114111 \<and> \<not> surrogate c" if "c \<in> set scalars" for c
  proof (cases "c \<in> set base")
    case True
    then have "c < 128" using ascii by blast
    then show ?thesis by (simp add: surrogate_def)
  qed (use r(3) that in blast)
  ultimately show ?thesis using r(2,4) by auto
qed

theorem punycode_roundtrip_witness:
  "decode_punycode (py ''bcher-kva'') = Inr [98, 252, 99, 104, 101, 114] \<and>
     punycode_encode [98, 252, 99, 104, 101, 114] = py ''bcher-kva''"
proof -
  have "decode_punycode (py ''bcher-kva'') = Inr [98, 252, 99, 104, 101, 114]"
    by (simp add: decode_punycode_def py_def rpartition_at_def char_class_defs decode_loop.simps decode_number.simps letter_value_def
        threshold_def MAX_INT32_def adapt_def adapt_loop.simps insert_at_def surrogate_def Let_def)
  then show ?thesis using punycode_roundtrip by blast
qed

end
