(* ===== verification/V2_Nfc.thy ===== *)
theory V2_Nfc
  imports V2_Tables
begin

text \<open>
  The NFC test of \<open>scripts/crawl_jobs_v2_url.py\<close>, a bounded copy of the stream-safe normalisation of Go's
  \<open>x/text\<close>: the quick span, the composition of one segment, and the loop that decomposes, orders, recomposes and
  compares. The variables that \<open>nfc_normal\<close>'s inner functions share are the record \<open>nfc_state\<close>.

  The theorems: the test ends, and Hangul syllables are normal.
\<close>

record rune =
  ru_scalar :: nat
  ru_ccc :: nat
  ru_flags :: nat
  ru_leading :: nat
  ru_decomposition :: "nat list"

definition plain_rune :: "nat \<Rightarrow> rune" where
  "plain_rune scalar = \<lparr>ru_scalar = scalar, ru_ccc = 0, ru_flags = 0, ru_leading = 0, ru_decomposition = []\<rparr>"

definition rune_of :: "unicode_tables \<Rightarrow> nat \<Rightarrow> rune" where
  "rune_of T scalar =
     (let p = lookup T scalar in
      \<lparr>ru_scalar = scalar, ru_ccc = pr_ccc p, ru_flags = pr_nfc_flags p, ru_leading = pr_leading p,
       ru_decomposition = pr_decomposition p\<rparr>)"

section \<open>The quick span\<close>

definition ascii_run :: "rune list \<Rightarrow> nat \<Rightarrow> nat" where
  "ascii_run runes index = length (takeWhile (\<lambda>r. ru_scalar r < 128) (drop index runes))"

lemma ascii_run_positive: "index < length runes \<Longrightarrow> ru_scalar (runes ! index) < 128 \<Longrightarrow> 0 < ascii_run runes index"
  by (simp add: ascii_run_def Cons_nth_drop_Suc [symmetric])

lemma ascii_run_progress:
  "\<not> length runes \<le> index \<Longrightarrow> ru_scalar (runes ! index) < 128 \<Longrightarrow> length runes - (index + ascii_run runes index) < length runes - index"
  using ascii_run_positive [of index runes] by simp

function quick_loop :: "rune list \<Rightarrow> nat \<Rightarrow> nat \<Rightarrow> nat \<Rightarrow> nat \<Rightarrow> nat" where
  "quick_loop runes index segment last_class nonstarters =
     (if length runes \<le> index then index
      else let current = runes ! index in
        if ru_scalar current < 128
        then (let index' = index + ascii_run runes index in quick_loop runes index' (index' - 1) 0 0)
        else let nonstarters' = nonstarters + ru_leading current in
          if 30 < nonstarters' then segment
          else let (segment', nonstarters'') =
                 (if ru_leading current = 0 then (index, ru_flags current mod 4) else (segment, nonstarters')) in
            if ru_leading current \<noteq> 0 \<and> ru_ccc current < last_class then segment'
            else if bit (ru_flags current) 4 then segment'
            else quick_loop runes (index + 1) segment' (ru_ccc current) nonstarters'')"
  by pat_completeness auto
termination
  by (relation "measure (\<lambda>(runes, index, _). length runes - index)")
    (auto intro: ascii_run_progress)

declare quick_loop.simps [simp del]

definition quick_span :: "rune list \<Rightarrow> nat \<Rightarrow> nat" where
  "quick_span runes start = quick_loop runes start start 0 0"

section \<open>Composing a segment\<close>

record compose_state =
  cm_result :: "rune list"
  cm_starter :: nat
  cm_hangul :: bool

definition hangul_jamo :: "nat \<Rightarrow> bool" where "hangul_jamo c \<longleftrightarrow> 4352 \<le> c \<and> c \<le> 4607"

text \<open>What two scalars compose to, \<open>0\<close> for nothing.\<close>

definition combine :: "unicode_tables \<Rightarrow> bool \<Rightarrow> nat \<Rightarrow> nat \<Rightarrow> nat" where
  "combine T hangul first second =
     (if \<not> hangul then compose T first second
      else if 4352 \<le> first \<and> first < 4371 \<and> 4449 \<le> second \<and> second < 4470
      then 44032 + (first - 4352) * 588 + (second - 4449) * 28
      else if 44032 \<le> first \<and> first < 55204 \<and> (first - 44032) mod 28 = 0 \<and> 4519 < second \<and> second < 4547
      then first + second - 4519
      else 0)"

definition compose_step :: "unicode_tables \<Rightarrow> rune \<Rightarrow> compose_state \<Rightarrow> compose_state" where
  "compose_step T current st =
     (let hangul = (cm_hangul st \<or> hangul_jamo (ru_scalar current));
          result = cm_result st; previous_class = ru_ccc (last result);
          active = (hangul \<or> bit (ru_flags current) 3);
          starter = (if active \<and> previous_class = 0 then length result - 1 else cm_starter st);
          blocked = (starter \<noteq> length result - 1 \<and> ru_ccc current \<le> previous_class);
          combined = (if active \<and> \<not> blocked then combine T hangul (ru_scalar (result ! starter)) (ru_scalar current) else 0) in
      \<lparr>cm_result = (if combined \<noteq> 0 then result[starter := plain_rune combined] else result @ [current]),
       cm_starter = starter, cm_hangul = hangul\<rparr>)"

definition compose_segment :: "unicode_tables \<Rightarrow> rune list \<Rightarrow> rune list" where
  "compose_segment T segment =
     (case segment of
        [] \<Rightarrow> []
      | r # rs \<Rightarrow> cm_result (fold (compose_step T) rs \<lparr>cm_result = [r], cm_starter = 0, cm_hangul = False\<rparr>))"

section \<open>The test\<close>

record nfc_state =
  nf_nonstarters :: nat
  nf_buffer :: "rune list"
  nf_comparison :: nat

text \<open>Each inner function returns \<open>None\<close> where the test fails.\<close>

primrec compare_parts :: "rune list \<Rightarrow> nat \<Rightarrow> rune list \<Rightarrow> nat option" where
  "compare_parts runes comparison [] = Some comparison"
| "compare_parts runes comparison (part # parts) =
     (if length runes \<le> comparison \<or> ru_scalar part \<noteq> ru_scalar (runes ! comparison) then None
      else compare_parts runes (comparison + 1) parts)"

definition flush :: "unicode_tables \<Rightarrow> rune list \<Rightarrow> nfc_state \<Rightarrow> nfc_state option" where
  "flush T runes st =
     (case compare_parts runes (nf_comparison st) (compose_segment T (nf_buffer st)) of
        None \<Rightarrow> None
      | Some c \<Rightarrow> Some (st\<lparr>nf_comparison := c, nf_buffer := []\<rparr>))"

definition ordered :: "rune \<Rightarrow> nfc_state \<Rightarrow> nfc_state option" where
  "ordered part st =
     (let buffer = nf_buffer st in
      if length buffer = 32 then None
      else let position = (if ru_ccc part \<noteq> 0
             then length buffer - length (takeWhile (\<lambda>r. ru_ccc part < ru_ccc r) (rev buffer)) else length buffer) in
        Some (st\<lparr>nf_buffer := take position buffer @ part # drop position buffer\<rparr>))"

primrec insert_parts :: "unicode_tables \<Rightarrow> rune list \<Rightarrow> nat list \<Rightarrow> nfc_state \<Rightarrow> nfc_state option" where
  "insert_parts T runes [] st = Some st"
| "insert_parts T runes (scalar # scalars) st =
     (let part = rune_of T scalar in
      case (if ru_ccc part = 0 \<and> \<not> bit (ru_flags part) 3 \<and> nf_buffer st \<noteq> [] then flush T runes st else Some st) of
        None \<Rightarrow> None
      | Some st' \<Rightarrow> (case ordered part st' of None \<Rightarrow> None | Some st'' \<Rightarrow> insert_parts T runes scalars st''))"

definition hangul_parts :: "nat \<Rightarrow> rune list" where
  "hangul_parts scalar =
     (let offset = scalar - 44032 in
      [plain_rune (4352 + offset div 588), plain_rune (4449 + offset div 28 mod 21)] @
      (if offset mod 28 \<noteq> 0 then [plain_rune (4519 + offset mod 28)] else []))"

definition insert_rune :: "unicode_tables \<Rightarrow> rune list \<Rightarrow> rune \<Rightarrow> nfc_state \<Rightarrow> nfc_state option" where
  "insert_rune T runes current st =
     (if 44032 \<le> ru_scalar current \<and> ru_scalar current < 55204
      then (let buffer = nf_buffer st @ hangul_parts (ru_scalar current) in
        if length buffer \<le> 32 then Some (st\<lparr>nf_buffer := buffer\<rparr>) else None)
      else if \<not> bit (ru_flags current) 2 then ordered current st
      else insert_parts T runes (ru_decomposition current) st)"

datatype stream_result = Continues | Starter | Overflow

definition stream :: "rune \<Rightarrow> nfc_state \<Rightarrow> stream_result \<times> nfc_state" where
  "stream current st =
     (let nonstarters = nf_nonstarters st + ru_leading current in
      if 30 < nonstarters then (Overflow, st\<lparr>nf_nonstarters := 0\<rparr>)
      else if ru_leading current = 0 then (Starter, st\<lparr>nf_nonstarters := ru_flags current mod 4\<rparr>)
      else (Continues, st\<lparr>nf_nonstarters := nonstarters\<rparr>))"

text \<open>The inner loop: the rest of the segment that starts before \<open>cursor\<close>.\<close>

function segment_loop :: "unicode_tables \<Rightarrow> rune list \<Rightarrow> nat \<Rightarrow> nfc_state \<Rightarrow> (nat \<times> nfc_state) option" where
  "segment_loop T runes cursor st =
     (if length runes \<le> cursor then Some (cursor, st)
      else case stream (runes ! cursor) st of
        (Starter, st') \<Rightarrow> Some (cursor, st')
      | (Overflow, st') \<Rightarrow> (case ordered (plain_rune 847) st' of None \<Rightarrow> None | Some st'' \<Rightarrow> Some (cursor, st''))
      | (Continues, st') \<Rightarrow>
          (case insert_rune T runes (runes ! cursor) st' of
             None \<Rightarrow> None
           | Some st'' \<Rightarrow> segment_loop T runes (cursor + 1) st''))"
  by pat_completeness auto
termination
  by (relation "measure (\<lambda>(_, runes, cursor, _). length runes - cursor)") auto

declare segment_loop.simps [simp del]

text \<open>One round: a segment, its comparison and the quick span after it.\<close>

definition nfc_round :: "unicode_tables \<Rightarrow> rune list \<Rightarrow> nat \<Rightarrow> nfc_state \<Rightarrow> (nat \<times> nfc_state) option" where
  "nfc_round T runes cursor st0 =
     (let st = st0\<lparr>nf_comparison := cursor\<rparr> in
      case (case stream (runes ! cursor) st of
              (Overflow, st') \<Rightarrow> (case ordered (plain_rune 847) st' of None \<Rightarrow> None | Some st'' \<Rightarrow> Some (cursor, st''))
            | (_, st') \<Rightarrow>
                (case insert_rune T runes (runes ! cursor) st' of
                   None \<Rightarrow> None
                 | Some st'' \<Rightarrow> segment_loop T runes (cursor + 1) st'')) of
        None \<Rightarrow> None
      | Some (cursor', st') \<Rightarrow>
          (case flush T runes st' of None \<Rightarrow> None | Some st'' \<Rightarrow> Some (quick_span runes cursor', st'')))"

text \<open>The loop over rounds takes a number of rounds; \<open>None\<close> is a loop that has not ended.\<close>

primrec nfc_loop :: "nat \<Rightarrow> unicode_tables \<Rightarrow> rune list \<Rightarrow> nat \<Rightarrow> nfc_state \<Rightarrow> bool option" where
  "nfc_loop 0 T runes cursor st = None"
| "nfc_loop (Suc fuel) T runes cursor st =
     (if length runes \<le> cursor then Some True
      else case nfc_round T runes cursor st of None \<Rightarrow> Some False | Some (cursor', st') \<Rightarrow> nfc_loop fuel T runes cursor' st')"

definition nfc_run :: "nat \<Rightarrow> unicode_tables \<Rightarrow> pystr \<Rightarrow> bool option" where
  "nfc_run fuel T text_value =
     (if 59 < length text_value \<or> list_ex surrogate text_value then Some False
      else let runes = map (rune_of T) text_value; cursor = quick_span runes 0 in
        nfc_loop fuel T runes cursor \<lparr>nf_nonstarters = 0, nf_buffer = [], nf_comparison = cursor\<rparr>)"

definition nfc_normal :: "unicode_tables \<Rightarrow> pystr \<Rightarrow> bool" where
  "nfc_normal T text_value \<longleftrightarrow> nfc_run (2 * length text_value + 2) T text_value = Some True"

section \<open>The test ends\<close>

lemma quick_loop_ge: "segment \<le> index \<Longrightarrow> start \<le> segment \<Longrightarrow> start \<le> quick_loop runes index segment last_class nonstarters"
proof (induction runes index segment last_class nonstarters rule: quick_loop.induct)
  case (1 runes index segment last_class nonstarters)
  show ?case
  proof (cases "index < length runes \<and> ru_scalar (runes ! index) < 128")
    case True
    then have "0 < ascii_run runes index" by (intro ascii_run_positive) auto
    then show ?thesis using 1 True by (subst quick_loop.simps) (auto simp: Let_def)
  next
    case False
    then show ?thesis using 1 by (subst quick_loop.simps) (auto simp: Let_def split: if_splits)
  qed
qed

lemma quick_span_ge: "start \<le> quick_span runes start"
  by (simp add: quick_span_def quick_loop_ge)

lemma ordered_nonstarters: "ordered part st = Some st' \<Longrightarrow> nf_nonstarters st' = nf_nonstarters st"
  by (auto simp: ordered_def Let_def split: if_splits)

lemma flush_nonstarters: "flush T runes st = Some st' \<Longrightarrow> nf_nonstarters st' = nf_nonstarters st"
  by (auto simp: flush_def split: option.splits)

lemma segment_loop_ge: "segment_loop T runes cursor st = Some (cursor', st') \<Longrightarrow> cursor \<le> cursor'"
proof (induction T runes cursor st rule: segment_loop.induct)
  case (1 T runes cursor st)
  show ?case
  proof (cases "length runes \<le> cursor")
    case False
    obtain res s where s: "(res, s) = stream (runes ! cursor) st" by (metis prod.exhaust)
    show ?thesis
    proof (cases res)
      case Continues
      then obtain s' where s': "insert_rune T runes (runes ! cursor) s = Some s'" "segment_loop T runes (cursor + 1) s' = Some (cursor', st')"
        using 1(2) False by (subst (asm) segment_loop.simps) (auto simp flip: s split: option.splits)
      show ?thesis using 1(1) [OF False s Continues s'] by simp
    qed (use 1(2) False in \<open>subst (asm) segment_loop.simps, auto simp flip: s split: option.splits\<close>)+
  qed (use 1(2) in \<open>subst (asm) segment_loop.simps, auto\<close>)
qed

text \<open>A round that does not advance leaves no nonstarters behind, so the next one does.\<close>

lemma nfc_round_advances:
  assumes "nfc_round T runes cursor st = Some (cursor', st')" and "\<forall>r \<in> set runes. ru_leading r \<le> 3"
    and "cursor < length runes"
  shows "cursor < cursor' \<or> cursor' = cursor \<and> nf_nonstarters st \<noteq> 0 \<and> nf_nonstarters st' = 0"
proof -
  let ?st = "st\<lparr>nf_comparison := cursor\<rparr>"
  have lead: "ru_leading (runes ! cursor) \<le> 3" using assms(2,3) by simp
  obtain res st1 where s: "stream (runes ! cursor) ?st = (res, st1)" by fastforce
  show ?thesis
  proof (cases "res = Overflow")
    case True
    then have "nf_nonstarters st1 = 0" "nf_nonstarters st \<noteq> 0" using s lead by (auto simp: stream_def Let_def split: if_splits)
    moreover obtain st2 where st2: "ordered (plain_rune 847) st1 = Some st2" "flush T runes st2 = Some st'" "cursor' = quick_span runes cursor"
      using assms(1) s True by (auto simp: nfc_round_def Let_def split: option.splits)
    ultimately have "nf_nonstarters st' = 0" using ordered_nonstarters [OF st2(1)] flush_nonstarters [OF st2(2)] by simp
    then show ?thesis using quick_span_ge [of cursor runes] st2(3) \<open>nf_nonstarters st \<noteq> 0\<close> by linarith
  next
    case False
    then obtain st2 c st3 where "segment_loop T runes (cursor + 1) st2 = Some (c, st3)" "cursor' = quick_span runes c"
      using assms(1) s by (cases res) (auto simp: nfc_round_def Let_def split: option.splits)
    then show ?thesis using segment_loop_ge quick_span_ge [of c runes] by fastforce
  qed
qed

lemma nfc_loop_ends:
  assumes "\<forall>r \<in> set runes. ru_leading r \<le> 3"
  shows "2 * (length runes - cursor) + (if nf_nonstarters st = 0 then 0 else 1) < fuel \<Longrightarrow> nfc_loop fuel T runes cursor st \<noteq> None"
proof (induction fuel arbitrary: cursor st)
  case (Suc fuel)
  show ?case
  proof (cases "cursor < length runes")
    case True
    show ?thesis
    proof (cases "nfc_round T runes cursor st")
      case None
      then show ?thesis using True by simp
    next
      case (Some r)
      obtain cursor' st' where r: "r = (cursor', st')" by fastforce
      have "2 * (length runes - cursor') + (if nf_nonstarters st' = 0 then 0 else 1) < fuel"
        using nfc_round_advances [OF Some [unfolded r] assms True] Suc.prems True by (auto split: if_splits)
      then show ?thesis using True Some r Suc.IH by simp
    qed
  qed simp
qed simp

lemma rune_of_leading: "tables_ok T \<Longrightarrow> ru_leading (rune_of T c) \<le> 3"
  using lookup_ok [of T c] by (simp add: rune_of_def Let_def property_ok_def)

section \<open>Hangul\<close>

text \<open>A syllable is composed from its parts again, and so is normal on its own.\<close>

lemma compose_hangul:
  assumes "44032 \<le> s" and "s < 55204"
  shows "compose_segment T (hangul_parts s) = [plain_rune s]"
proof -
  define o' where "o' = s - 44032"
  have s: "s = 44032 + o'" "o' < 11172" using assms by (auto simp: o'_def)
  have l: "o' div 588 < 19" using s(2) by (simp add: less_mult_imp_div_less)
  have v: "o' div 28 mod 21 < 21" by simp
  have split: "o' div 588 * 588 + o' div 28 mod 21 * 28 + o' mod 28 = o'"
  proof -
    have "o' div 588 = o' div 28 div 21" by (simp add: div_mult2_eq [symmetric])
    then have "o' div 588 * 21 + o' div 28 mod 21 = o' div 28" by simp
    then have "(o' div 588 * 21 + o' div 28 mod 21) * 28 + o' mod 28 = o'" by simp
    then show ?thesis by (simp add: algebra_simps)
  qed
  have sub: "44032 + o' div 588 * 588 + o' div 28 mod 21 * 28 = 44032 + o' - o' mod 28"
    using split by linarith
  have lv: "combine T True (4352 + o' div 588) (4449 + o' div 28 mod 21) = 44032 + (o' - o' mod 28)"
    using l v sub mod_less_eq_dividend [of o' 28] by (simp add: combine_def)
  have le: "o' mod 28 < 44032 + o'" using mod_less_eq_dividend [of o' 28] by linarith
  have first: "compose_step T (plain_rune (4449 + o' div 28 mod 21))
      \<lparr>cm_result = [plain_rune (4352 + o' div 588)], cm_starter = 0, cm_hangul = False\<rparr> =
      \<lparr>cm_result = [plain_rune (44032 + (o' - o' mod 28))], cm_starter = 0, cm_hangul = True\<rparr>"
    using v lv le by (simp add: compose_step_def plain_rune_def hangul_jamo_def Let_def)
  show ?thesis
  proof (cases "o' mod 28 = 0")
    case True
    then show ?thesis using first by (simp add: compose_segment_def hangul_parts_def s(1) Let_def)
  next
    case False
    have t: "o' mod 28 < 28" by simp
    have d: "(o' - o' mod 28) mod 28 = 0" by (simp add: minus_mod_eq_mult_div)
    have b: "44032 \<le> 44032 + o' - o' mod 28" "44032 + o' - o' mod 28 < 55204"
      using s(2) mod_less_eq_dividend [of o' 28] by linarith+
    have sum: "44032 + o' - o' mod 28 + (4519 + o' mod 28) - 4519 = 44032 + o'"
      using mod_less_eq_dividend [of o' 28] by linarith
    have lvt: "combine T True (44032 + (o' - o' mod 28)) (4519 + o' mod 28) = 44032 + o'"
      using False t d s(2) b sum by (simp add: combine_def)
    have "compose_step T (plain_rune (4519 + o' mod 28))
        \<lparr>cm_result = [plain_rune (44032 + (o' - o' mod 28))], cm_starter = 0, cm_hangul = True\<rparr> =
        \<lparr>cm_result = [plain_rune (44032 + o')], cm_starter = 0, cm_hangul = True\<rparr>"
      using lvt by (simp add: compose_step_def plain_rune_def Let_def)
    then show ?thesis using first False by (simp add: compose_segment_def hangul_parts_def s(1) Let_def)
  qed
qed

lemma hangul_is_normal:
  assumes "tables_ok T" and "44032 \<le> s" and "s < 55204"
  shows "nfc_normal T [s]"
proof -
  let ?r = "rune_of T s"
  have r: "ru_scalar ?r = s" "ru_leading ?r \<le> 3" using rune_of_leading [OF assms(1)] by (auto simp: rune_of_def Let_def)
  have q: "quick_span [?r] 1 = 1" by (simp add: quick_span_def quick_loop.simps)
  have q0: "quick_span [?r] 0 \<in> {0, 1}"
    by (simp add: quick_span_def quick_loop.simps [of "[?r]"] r(1) Let_def ascii_run_def split: prod.split)
  have round: "\<exists>st'. nfc_round T [?r] 0 \<lparr>nf_nonstarters = 0, nf_buffer = [], nf_comparison = 0\<rparr> = Some (1, st')"
  proof -
    have "\<exists>res n. stream ?r \<lparr>nf_nonstarters = 0, nf_buffer = [], nf_comparison = 0\<rparr> =
        (res, \<lparr>nf_nonstarters = n, nf_buffer = [], nf_comparison = 0\<rparr>) \<and> res \<noteq> Overflow"
      using r(2) by (simp add: stream_def Let_def)
    then obtain res n where s: "stream ?r \<lparr>nf_nonstarters = 0, nf_buffer = [], nf_comparison = 0\<rparr> =
        (res, \<lparr>nf_nonstarters = n, nf_buffer = [], nf_comparison = 0\<rparr>)" "res \<noteq> Overflow" by blast
    have ins: "insert_rune T [?r] ?r \<lparr>nf_nonstarters = n, nf_buffer = [], nf_comparison = 0\<rparr> =
        Some \<lparr>nf_nonstarters = n, nf_buffer = hangul_parts s, nf_comparison = 0\<rparr>"
      using assms(2,3) by (simp add: insert_rune_def r(1) hangul_parts_def Let_def)
    show ?thesis
      using s q compose_hangul [OF assms(2,3), of T]
      by (cases res) (auto simp: nfc_round_def ins segment_loop.simps flush_def r(1) plain_rune_def)
  qed
  obtain st' where st': "nfc_round T [?r] 0 \<lparr>nf_nonstarters = 0, nf_buffer = [], nf_comparison = 0\<rparr> = Some (1, st')"
    using round by blast
  have fuel: "2 * length [s] + 2 = Suc (Suc (Suc (Suc 0)))" by simp
  have "\<not> surrogate s" using assms(2,3) by (simp add: surrogate_def)
  then have "nfc_run (Suc (Suc (Suc (Suc 0)))) T [s] = Some True"
    using q0 st' by (cases "quick_span [?r] 0 = 0") (simp_all add: nfc_run_def Let_def)
  then show ?thesis unfolding nfc_normal_def fuel .
qed

section \<open>The claim\<close>

text \<open>
  C38. The NFC test ends: with the pinned tables, two rounds for every character of the text and two more are
  enough for a result, for every text.
\<close>

theorem nfc_test_ends:
  assumes "tables_ok T" and "2 * length text_value + 2 \<le> fuel"
  shows "\<exists>b. nfc_run fuel T text_value = Some b"
proof -
  have "\<forall>r \<in> set (map (rune_of T) text_value). ru_leading r \<le> 3" using rune_of_leading [OF assms(1)] by auto
  from nfc_loop_ends [OF this] show ?thesis
    using assms(2) by (auto simp: nfc_run_def Let_def)
qed

text \<open>Tables of one range, whose code points are all valid starters.\<close>

definition plain_tables :: unicode_tables where
  "plain_tables = \<lparr>ut_starts = [0], ut_indices = [0],
     ut_properties = [\<lparr>pr_idna = 1, pr_bidi = 0, pr_ccc = 0, pr_nfc_flags = 0, pr_leading = 0, pr_decomposition = []\<rparr>],
     ut_compositions = [], ut_packed = []\<rparr>"

lemma plain_tables_ok: "tables_ok plain_tables"
  by (simp add: tables_ok_def plain_tables_def property_ok_def)

theorem nfc_test_ends_witness: "\<exists>b. nfc_run 10 plain_tables [228, 246, 252] = Some b"
  by (rule nfc_test_ends [OF plain_tables_ok]) simp

end
