(* ===== verification/V2_Hosts.thy ===== *)
theory V2_Hosts
  imports V2_Punycode V2_Nfc Seed_Url Py_Number
begin

text \<open>
  The host checks of \<open>scripts/crawl_jobs_v2_url.py\<close>: \<open>valid_alabel\<close> (one \<open>xn--\<close> label, with the ContextJ and Bidi
  rules), \<open>_ipv4\<close> and \<open>_ipv6\<close>.

  The lemmas: a label that passes keeps every table access in range, and the two address checks, which the module
  writes out, accept exactly the lower-case addresses that \<open>ipaddress\<close> accepts.
\<close>

section \<open>valid_alabel\<close>

definition JOIN :: "nat list list" where
  "JOIN =
     [[0, 2, 2, 0, 0, 5, 5, 1], [0, 2, 2, 0, 0, 0, 0, 0],
      [0, 2, 2, 2, 0, 5, 4, 3], [0, 2, 2, 2, 0, 0, 0, 0],
      [0, 5, 2, 4, 0, 5, 5, 4], [5, 5, 5, 5, 5, 5, 5, 5]]"

text \<open>\<open>[a-z0-9](?:[a-z0-9-]{0,61}[a-z0-9])?\<close>, matched against the whole label.\<close>

definition lower_alnum :: "nat \<Rightarrow> bool" where "lower_alnum c \<longleftrightarrow> ascii_lower c \<or> ascii_digit c"

definition dns_label :: "pystr \<Rightarrow> bool" where
  "dns_label l \<longleftrightarrow> l \<noteq> [] \<and> length l \<le> 63 \<and> lower_alnum (hd l) \<and> lower_alnum (last l) \<and>
     list_all (\<lambda>c. lower_alnum c \<or> c = 45) l"

definition join_step :: "nat \<times> v2_properties \<Rightarrow> nat \<Rightarrow> nat" where
  "join_step sp state =
     (let (scalar, p) = sp;
          joining = (if scalar = 8205 then 5 else if scalar = 8204 then 6 else drop_bit 3 (pr_idna p));
          state' = JOIN ! state ! joining in
      if bit (pr_idna p) 2 then JOIN ! state' ! 7 else state')"

definition joiners_ok :: "(nat \<times> v2_properties) list \<Rightarrow> bool" where
  "joiners_ok sps \<longleftrightarrow>
     (list_ex (\<lambda>(s, _). s = 8204 \<or> s = 8205) sps \<longrightarrow> fold join_step sps 0 \<notin> {4, 5})"

definition bidi_ok :: "nat list \<Rightarrow> bool" where
  "bidi_ok classes \<longleftrightarrow>
     (list_ex (\<lambda>c. c \<in> {1, 5, 13}) classes \<longrightarrow>
        hd classes \<in> {1, 13} \<and> list_all (\<lambda>c. c \<in> {1, 2, 3, 4, 5, 6, 10, 11, 12, 13}) classes \<and>
        (case filter (\<lambda>c. c \<noteq> 12) (rev classes) of [] \<Rightarrow> False | final # _ \<Rightarrow> final \<in> {1, 2, 5, 13}) \<and>
        \<not> (2 \<in> set classes \<and> 5 \<in> set classes))"

text \<open>
  The checks of the decoded label. The UTF-8 encoder is total on it: the NFC test has excluded the surrogates,
  and the decoder everything past the last code point.
\<close>

definition decoded_label_ok :: "unicode_tables \<Rightarrow> nat list \<Rightarrow> bool" where
  "decoded_label_ok T scalars \<longleftrightarrow>
     scalars \<noteq> [] \<and> \<not> list_all (\<lambda>c. c < 128) scalars \<and>
     (let properties = map (lookup T) scalars in
      list_all (\<lambda>p. bit (pr_idna p) 0) properties \<and>
      nfc_normal T scalars \<and>
      (case utf8_encode scalars of
         None \<Rightarrow> False
       | Some raw \<Rightarrow> \<not> (4 < length raw \<and> take 2 (drop 2 raw) = [45, 45]) \<and> \<not> starts_with [45] raw \<and> \<not> ends_with [45] raw) \<and>
      \<not> bit (pr_idna (hd properties)) 1 \<and>
      joiners_ok (zip scalars properties) \<and>
      bidi_ok (map pr_bidi properties))"

definition valid_alabel :: "unicode_tables \<Rightarrow> pystr \<Rightarrow> bool" where
  "valid_alabel T label \<longleftrightarrow>
     starts_with (py ''xn--'') label \<and> dns_label label \<and>
     (case decode_punycode (drop 4 label) of
        Inl _ \<Rightarrow> False
      | Inr scalars \<Rightarrow> decoded_label_ok T scalars \<and> punycode_encode scalars = drop 4 label)"

lemma lower_alnum_iff: "lower_alnum c \<longleftrightarrow> ascii_alnum c \<and> lower_ascii c = c"
  by (auto simp: lower_alnum_def char_class_defs lower_ascii_def)

lemma dns_label_iff: "dns_label l \<longleftrightarrow> host_label l \<and> map lower_ascii l = l"
proof -
  have "map lower_ascii l = l \<longleftrightarrow> (\<forall>c \<in> set l. lower_ascii c = c)" by (induction l) auto
  then show ?thesis
    by (cases "l = []")
      (auto simp: dns_label_def host_label_def lower_alnum_iff list_all_iff lower_ascii_def ascii_upper_def)
qed

text \<open>Every access to the table of joining states is in range.\<close>

lemma join_step_range:
  assumes "state < 6" and "property_ok p"
  shows "join_step (scalar, p) state < 6"
proof -
  define j where "j = (if scalar = 8205 then 5 else if scalar = 8204 then 6 else drop_bit 3 (pr_idna p))"
  have rows: "\<forall>row \<in> set JOIN. length row = 8 \<and> (\<forall>s \<in> set row. s < 6)" "length JOIN = 6" by (simp_all add: JOIN_def)
  have "j < 8" using assms(2) by (auto simp: j_def property_ok_def)
  moreover have entry: "JOIN ! r ! k < 6" if "r < 6" "k < 8" for r k
  proof -
    have "JOIN ! r \<in> set JOIN" using rows(2) that(1) by simp
    then have "length (JOIN ! r) = 8" "\<forall>s \<in> set (JOIN ! r). s < 6" using rows(1) by blast+
    then show ?thesis using that(2) by simp
  qed
  ultimately have s: "JOIN ! state ! j < 6" using assms(1) by blast
  then have "JOIN ! (JOIN ! state ! j) ! 7 < 6" using entry [of "JOIN ! state ! j" 7] by simp
  then show ?thesis using s by (simp add: join_step_def j_def [symmetric] Let_def)
qed

section \<open>_ipv4 and _ipv6\<close>

text \<open>\<open>0|[1-9][0-9]{0,2}\<close> and \<open>[0-9a-f]{1,4}\<close>\<close>

definition v2_octet :: "pystr \<Rightarrow> bool" where
  "v2_octet p \<longleftrightarrow> p = [48] \<or>
     (case p of [] \<Rightarrow> False | c # s \<Rightarrow> 49 \<le> c \<and> c \<le> 57 \<and> length s \<le> 2 \<and> list_all ascii_digit s)"

definition v2_hextet :: "pystr \<Rightarrow> bool" where
  "v2_hextet p \<longleftrightarrow> p \<noteq> [] \<and> length p \<le> 4 \<and> list_all (\<lambda>c. ascii_digit c \<or> 97 \<le> c \<and> c \<le> 102) p"

definition v2_ipv4 :: "pystr \<Rightarrow> bool" where
  "v2_ipv4 host =
     (let parts = split_on 46 host in
      length parts = 4 \<and> list_all (\<lambda>part. v2_octet part \<and> decimal_value part \<le> 255) parts)"

text \<open>\<open>host.count("::")\<close>, and the two sides of the first \<open>::\<close>.\<close>

fun double_colons :: "pystr \<Rightarrow> nat" where
  "double_colons (c # d # s) = (if c = 58 \<and> d = 58 then Suc (double_colons s) else double_colons (d # s))"
| "double_colons s = 0"

fun at_double_colon :: "pystr \<Rightarrow> pystr \<times> pystr" where
  "at_double_colon (c # d # s) =
     (if c = 58 \<and> d = 58 then ([], s) else (let (a, b) = at_double_colon (d # s) in (c # a, b)))"
| "at_double_colon s = (s, [])"

definition v2_ipv6_groups :: "pystr \<Rightarrow> bool" where
  "v2_ipv6_groups host =
     (if 1 < double_colons host then False
      else let (parts, length_ok) =
          (if 0 < double_colons host
           then (let (first, last) = at_double_colon host;
                     parts = (if first = [] then [] else split_on 58 first) @ (if last = [] then [] else split_on 58 last) in
                 (parts, length parts < 8))
           else (let parts = split_on 58 host in (parts, length parts = 8))) in
        length_ok \<and> list_all v2_hextet parts)"

definition v2_ipv6 :: "pystr \<Rightarrow> bool" where
  "v2_ipv6 host =
     (if 46 \<in> set host
      then (let (prefix, colon, dotted) = rpartition_at 58 host in
            if \<not> colon \<or> \<not> v2_ipv4 dotted then False else v2_ipv6_groups (prefix @ py '':0:0''))
      else v2_ipv6_groups host)"

lemma v2_octet_iff: "v2_octet p \<and> decimal_value p \<le> 255 \<longleftrightarrow> ipv4_octet p"
  by (cases p) (auto simp: v2_octet_def ipv4_octet_def ascii_digit_def decimal_value_def)

lemma v2_ipv4_iff: "v2_ipv4 h \<longleftrightarrow> ipv4_address h"
proof -
  have "47 \<notin> set h" if "list_all ipv4_octet (split_on 46 h)"
  proof
    assume "47 \<in> set h"
    then obtain p where "p \<in> set (split_on 46 h)" "47 \<in> set p" using split_on_parts [of 47 h 46] by auto
    then show False using that by (fastforce simp: list_all_iff ipv4_octet_def ascii_digit_def)
  qed
  then show ?thesis by (auto simp: v2_ipv4_def v2_octet_iff ipv4_address_def Let_def)
qed

lemma v2_hextet_iff: "v2_hextet p \<longleftrightarrow> hextet p \<and> map lower_ascii p = p"
proof -
  have "map lower_ascii p = p \<longleftrightarrow> (\<forall>c \<in> set p. lower_ascii c = c)" by (induction p) auto
  moreover have "ascii_digit c \<or> 97 \<le> c \<and> c \<le> 102 \<longleftrightarrow> hex_digit c \<and> lower_ascii c = c" for c
    by (auto simp: char_class_defs lower_ascii_def)
  ultimately show ?thesis by (auto simp: v2_hextet_def hextet_def list_all_iff)
qed

section \<open>Cutting at colons\<close>

lemma split_on_append: "split_on c (a @ c # b) = split_on c a @ split_on c b"
  by (induction a) (auto split: list.splits)

lemma split_on_cut:
  "split_on c s = xs @ ys \<Longrightarrow> xs \<noteq> [] \<Longrightarrow> ys \<noteq> [] \<Longrightarrow> \<exists>a b. s = a @ c # b \<and> split_on c a = xs \<and> split_on c b = ys"
proof (induction s arbitrary: xs)
  case Nil
  then show ?case by (cases xs) auto
next
  case (Cons d s)
  show ?case
  proof (cases "d = c")
    case True
    show ?thesis
    proof (cases "tl xs = []")
      case one: True
      then have "xs = [[]]" "split_on c s = ys" using Cons.prems True by (cases xs; auto)+
      then show ?thesis using True by (intro exI [of _ "[]"] exI [of _ s]) simp
    next
      case False
      then obtain a b where "s = a @ c # b" "split_on c a = tl xs" "split_on c b = ys"
        using Cons.IH [of "tl xs"] Cons.prems True by (cases xs) auto
      then show ?thesis using Cons.prems True by (intro exI [of _ "c # a"] exI [of _ b]) (cases xs; auto)
    qed
  next
    case False
    obtain p ps where s: "split_on c s = p # ps" by (cases "split_on c s") auto
    obtain x xs' where xs: "xs = x # xs'" using Cons.prems(2) by (cases xs) auto
    have x: "x = d # p" "ps = xs' @ ys" using Cons.prems(1) False s xs by auto
    then obtain a b where "s = a @ c # b" "split_on c a = p # xs'" "split_on c b = ys"
      using Cons.IH [of "p # xs'"] Cons.prems(3) s by auto
    then show ?thesis using False x xs by (intro exI [of _ "d # a"] exI [of _ b]) auto
  qed
qed

lemma double_colons_cut:
  assumes "0 < double_colons s"
  shows "\<exists>a b. s = a @ 58 # 58 # b \<and> at_double_colon s = (a, b) \<and> double_colons s = Suc (double_colons b)"
  using assms
proof (induction s rule: double_colons.induct)
  case (1 c d s)
  show ?case
  proof (cases "c = 58 \<and> d = 58")
    case True
    then show ?thesis by (intro exI [of _ "[]"] exI [of _ s]) simp
  next
    case False
    then have "0 < double_colons (d # s)" using 1(3) by (auto split: if_splits)
    then obtain a b where "d # s = a @ 58 # 58 # b" "at_double_colon (d # s) = (a, b)" "double_colons (d # s) = Suc (double_colons b)"
      using 1(2) [OF False] by blast
    moreover have "at_double_colon (c # d # s) = (let (a, b) = at_double_colon (d # s) in (c # a, b))"
      "double_colons (c # d # s) = double_colons (d # s)" using False by auto
    ultimately have "c # d # s = (c # a) @ 58 # 58 # b \<and> at_double_colon (c # d # s) = (c # a, b) \<and>
        double_colons (c # d # s) = Suc (double_colons b)" by simp
    then show ?thesis by blast
  qed
qed auto

lemma double_colons_empty: "0 < double_colons s \<Longrightarrow> [] \<in> set (split_on 58 s)"
  using double_colons_cut [of s] split_on_append [of 58 _ "58 # _"] by fastforce

lemma double_colons_here: "double_colons (a @ 58 # 58 # b) \<noteq> 0"
  by (induction a rule: double_colons.induct) auto

text \<open>A text whose parts are not empty, or that is empty, has no \<open>::\<close> and makes none with a \<open>::\<close> after it.\<close>

lemma no_double_colon:
  assumes "a = [] \<or> [] \<notin> set (split_on 58 a)"
  shows "double_colons (a @ [58]) = 0" and "double_colons a = 0"
proof -
  show "double_colons a = 0" using assms double_colons_empty by auto
  show "double_colons (a @ [58]) = 0"
  proof (rule ccontr)
    assume "double_colons (a @ [58]) \<noteq> 0"
    then obtain x y where xy: "a @ [58] = x @ 58 # 58 # y" using double_colons_cut [of "a @ [58]"] by auto
    show False
    proof (cases y rule: rev_cases)
      case Nil
      then have "a = x @ 58 # []" using xy by simp
      then show False using assms split_on_append [of 58 x "[]"] by auto
    next
      case (snoc z d)
      then have "a = x @ 58 # (58 # z)" using xy by simp
      then show False using assms split_on_append [of 58 x "58 # z"] by auto
    qed
  qed
qed

lemma at_double_colon_cut:
  "double_colons (a @ [58]) = 0 \<Longrightarrow>
     at_double_colon (a @ 58 # 58 # b) = (a, b) \<and> double_colons (a @ 58 # 58 # b) = Suc (double_colons b)"
proof (induction a rule: double_colons.induct)
  case (1 c d s)
  have "\<not> (c = 58 \<and> d = 58)" using 1(3) by auto
  then show ?case using 1 by (auto split: if_splits)
qed (auto split: if_splits)

section \<open>The two readings of an IPv6 address\<close>

text \<open>What the colon-separated parts of an address are: eight groups, or groups around one inner empty part.\<close>

definition side :: "pystr list \<Rightarrow> pystr list" where "side xs = (if xs = [] then [[]] else xs)"

definition ipv6_spec :: "pystr list \<Rightarrow> bool" where
  "ipv6_spec ps \<longleftrightarrow> length ps = 8 \<and> list_all hextet ps \<or>
     (\<exists>xs ys. ps = side xs @ [] # side ys \<and> list_all hextet (xs @ ys) \<and> length (xs @ ys) \<le> 7)"

lemma hextets_nonempty: "list_all hextet xs \<Longrightarrow> [] \<notin> set xs"
  by (auto simp: list_all_iff hextet_def)

lemma ipv6_parts_spec:
  assumes "ipv6_parts ps"
  shows "ipv6_spec ps"
proof -
  let ?n = "length ps"
  let ?skips = "filter (\<lambda>i. ps ! i = []) [1 ..< ?n - 1]"
  consider (none) "?skips = []" | (one) i where "?skips = [i]"
    using assms by (auto simp: ipv6_parts_def Let_def split: list.splits)
  then show ?thesis
  proof cases
    case none
    then show ?thesis using assms by (auto simp: ipv6_parts_def ipv6_spec_def Let_def)
  next
    case (one i)
    have "i \<in> set ?skips" using one by simp
    then have i: "1 \<le> i" "i < ?n - 1" "ps ! i = []" by auto
    then have ne: "ps \<noteq> []" by auto
    define hi where "hi = (if hd ps = [] then i - 1 else i)"
    define lo where "lo = (if last ps = [] then ?n - i - 2 else ?n - i - 1)"
    have c: "hd ps = [] \<longrightarrow> hi = 0" "last ps = [] \<longrightarrow> lo = 0" "hi + lo \<le> 7"
      "list_all hextet (take hi ps)" "list_all hextet (drop (?n - lo) ps)"
      using assms one by (auto simp: ipv6_parts_def Let_def hi_def lo_def)
    have left: "take i ps = side (take hi ps)"
    proof (cases "hd ps = []")
      case True
      then have "hi = 0" "i = 1" using c(1) i(1) by (auto simp: hi_def)
      then show ?thesis using True ne by (cases ps) (auto simp: side_def)
    next
      case False
      then show ?thesis using i(1) ne by (auto simp: hi_def side_def)
    qed
    have right: "drop (Suc i) ps = side (drop (?n - lo) ps)"
    proof (cases "last ps = []")
      case True
      then have lo: "lo = 0" "?n = Suc (Suc i)" using c(2) i(2) by (auto simp: lo_def)
      then have "drop (Suc i) ps = [last ps]"
        using ne by (metis append_butlast_last_id append_eq_conv_conj diff_Suc_1 length_butlast)
      then show ?thesis using True lo by (simp add: side_def)
    next
      case False
      then have "?n - lo = Suc i" "drop (Suc i) ps \<noteq> []" using i(2) by (auto simp: lo_def)
      then show ?thesis by (simp add: side_def)
    qed
    have "lo \<le> ?n" by (auto simp: lo_def)
    then have "length (take hi ps @ drop (?n - lo) ps) \<le> 7" using c(3) by simp
    moreover have "ps = take i ps @ [] # drop (Suc i) ps" using id_take_nth_drop [of i ps] i by simp
    ultimately have "ps = side (take hi ps) @ [] # side (drop (?n - lo) ps) \<and>
        list_all hextet (take hi ps @ drop (?n - lo) ps) \<and> length (take hi ps @ drop (?n - lo) ps) \<le> 7"
      using left right c(4,5) by simp
    then show ?thesis unfolding ipv6_spec_def by blast
  qed
qed

lemma side_facts: "side xs \<noteq> []" "length (side xs) = (if xs = [] then 1 else length xs)"
  by (auto simp: side_def)

lemma ipv6_spec_parts:
  assumes "ipv6_spec ps"
  shows "ipv6_parts ps"
proof -
  consider (full) "length ps = 8" "list_all hextet ps"
    | (cut) xs ys where "ps = side xs @ [] # side ys" "list_all hextet (xs @ ys)" "length (xs @ ys) \<le> 7"
    using assms by (auto simp: ipv6_spec_def)
  then show ?thesis
  proof cases
    case full
    then have "\<forall>i < 8. ps ! i \<noteq> []" by (auto simp: list_all_length hextet_def)
    then have "filter (\<lambda>i. ps ! i = []) [1 ..< length ps - 1] = []" using full(1) by (auto simp: filter_empty_conv)
    then show ?thesis using full by (simp add: ipv6_parts_def)
  next
    case cut
    let ?i = "length (side xs)"
    have ne: "[] \<notin> set xs" "[] \<notin> set ys" using cut(2) hextets_nonempty [of "xs @ ys"] by auto
    have n: "length ps = ?i + 1 + length (side ys)" using cut(1) by simp
    have at: "ps ! ?i = []" using cut(1) by simp
    have other: "ps ! j \<noteq> []" if j: "1 \<le> j" "j < length ps - 1" "j \<noteq> ?i" for j
    proof (cases "j < ?i")
      case True
      then have "xs \<noteq> []" using j(1) by (auto simp: side_def split: if_splits)
      then have "ps ! j = xs ! j" "j < length xs" using True cut(1) by (auto simp: side_def nth_append)
      then show ?thesis using ne(1) nth_mem by metis
    next
      case False
      define k where "k = j - Suc ?i"
      have k: "j = Suc ?i + k" "k < length (side ys) - 1" using False j n by (auto simp: k_def)
      then have "ys \<noteq> []" by (auto simp: side_def split: if_splits)
      moreover have "ps ! j = side ys ! k" using cut(1) k(1) by (simp add: nth_append)
      ultimately have "ps ! j = ys ! k" "k < length ys" using k(2) by (auto simp: side_def)
      then show ?thesis using ne(2) nth_mem by metis
    qed
    have "1 \<le> ?i" by (cases xs) (auto simp: side_def)
    moreover have "1 \<le> length (side ys)" by (cases ys) (auto simp: side_def)
    ultimately have "1 \<le> ?i" "?i < length ps - 1" using n by auto
    then have range: "[1 ..< length ps - 1] = [1 ..< ?i] @ ?i # [Suc ?i ..< length ps - 1]"
      using upt_add_eq_append [of 1 ?i "length ps - 1 - ?i"] by (simp add: upt_conv_Cons)
    have "filter (\<lambda>i. ps ! i = []) [1 ..< length ps - 1] = [?i]"
      unfolding range using other at n by (auto simp: filter_empty_conv)
    moreover have hd: "hd ps = [] \<longleftrightarrow> xs = []" using cut(1) ne(1) by (cases xs) (auto simp: side_def)
    moreover have "last ps = last (side ys)" using cut(1) side_facts(1) [of ys] by simp
    then have last: "last ps = [] \<longleftrightarrow> ys = []" using ne(2) by (cases ys rule: rev_cases) (auto simp: side_def)
    moreover have "(if hd ps = [] then ?i - 1 else ?i) = length xs" using hd by (auto simp: side_def)
    moreover have "(if last ps = [] then length ps - ?i - 2 else length ps - ?i - 1) = length ys"
      using last n by (auto simp: side_def)
    moreover have "length ps \<le> 9" using n cut(3) by (auto simp: side_facts split: if_splits)
    moreover have "take (length xs) ps = xs" "drop (length ps - length ys) ps = ys"
      using cut(1) by (auto simp: side_def)
    ultimately show ?thesis using cut(2,3) by (simp add: ipv6_parts_def Let_def)
  qed
qed

lemma ipv6_parts_iff: "ipv6_parts ps \<longleftrightarrow> ipv6_spec ps"
  using ipv6_parts_spec ipv6_spec_parts by blast

definition lower_only :: "pystr \<Rightarrow> bool" where
  "lower_only s \<longleftrightarrow> (\<forall>c \<in> set s. lower_ascii c = c)"

lemma lower_only_iff: "map lower_ascii s = s \<longleftrightarrow> lower_only s"
  by (induction s) (auto simp: lower_only_def)

lemma lower_only_parts: "lower_only s \<longleftrightarrow> (\<forall>p \<in> set (split_on 58 s). lower_only p)"
proof -
  have "lower_ascii 58 = 58" by (simp add: lower_ascii_def ascii_upper_def)
  then show ?thesis using split_on_parts [of _ s 58] split_on_chars [of _ 58 s] by (fastforce simp: lower_only_def)
qed

lemma v2_hextets: "list_all v2_hextet ps \<longleftrightarrow> list_all hextet ps \<and> (\<forall>p \<in> set ps. lower_only p)"
  by (auto simp: list_all_iff v2_hextet_iff lower_only_iff)

lemma v2_ipv6_groups_iff: "v2_ipv6_groups s \<longleftrightarrow> ipv6_parts (split_on 58 s) \<and> lower_only s"
proof (cases "double_colons s = 0")
  case True
  have "split_on 58 s \<noteq> side xs @ [] # side ys" for xs ys
  proof
    assume c: "split_on 58 s = side xs @ [] # side ys"
    obtain a t where s: "s = a @ 58 # t" and t: "split_on 58 t = [] # side ys"
      using split_on_cut [OF c] side_facts by auto
    obtain a' b where t': "t = a' @ 58 # b" and a': "split_on 58 a' = [[]]"
      using split_on_cut [of 58 t "[[]]" "side ys"] t side_facts by auto
    have "a' = []"
    proof (cases a')
      case (Cons d w)
      then show ?thesis using a' by (auto split: if_splits list.splits)
    qed simp
    then have "s = a @ 58 # 58 # b" using s t' by simp
    then show False using True double_colons_here by simp
  qed
  then have "ipv6_parts (split_on 58 s) \<longleftrightarrow> length (split_on 58 s) = 8 \<and> list_all hextet (split_on 58 s)"
    by (auto simp: ipv6_parts_iff ipv6_spec_def)
  then show ?thesis using True by (auto simp: v2_ipv6_groups_def v2_hextets lower_only_parts [of s] Let_def)
next
  case False
  then obtain a b where s: "s = a @ 58 # 58 # b" "at_double_colon s = (a, b)" "double_colons s = Suc (double_colons b)"
    using double_colons_cut [of s] by blast
  define xs ys where "xs = (if a = [] then [] else split_on 58 a)" and "ys = (if b = [] then [] else split_on 58 b)"
  have ps: "split_on 58 s = side xs @ [] # side ys"
    using split_on_append [of 58 a "58 # b"] by (auto simp: s(1) xs_def ys_def side_def)
  have v2: "v2_ipv6_groups s \<longleftrightarrow> double_colons b = 0 \<and> length (xs @ ys) \<le> 7 \<and> list_all v2_hextet (xs @ ys)"
    using s(2,3) by (auto simp: v2_ipv6_groups_def Let_def xs_def ys_def)
  have low: "lower_only s \<longleftrightarrow> (\<forall>p \<in> set (xs @ ys). lower_only p)"
    unfolding lower_only_parts [of s] ps by (auto simp: side_def lower_only_def)
  show ?thesis
  proof
    assume "v2_ipv6_groups s"
    then show "ipv6_parts (split_on 58 s) \<and> lower_only s"
      unfolding ipv6_parts_iff ipv6_spec_def ps low using v2 v2_hextets by blast
  next
    assume r: "ipv6_parts (split_on 58 s) \<and> lower_only s"
    have "[] \<in> set (split_on 58 s)" by (simp add: ps)
    then obtain us vs where uv: "split_on 58 s = side us @ [] # side vs" "list_all hextet (us @ vs)" "length (us @ vs) \<le> 7"
      using r hextets_nonempty unfolding ipv6_parts_iff ipv6_spec_def by blast
    obtain a' t where t: "s = a' @ 58 # t" "split_on 58 a' = side us" "split_on 58 t = [] # side vs"
      using split_on_cut [OF uv(1)] side_facts by auto
    obtain e b' where t': "t = e @ 58 # b'" "split_on 58 e = [[]]" "split_on 58 b' = side vs"
      using split_on_cut [of 58 t "[[]]" "side vs"] t(3) side_facts by auto
    have e: "e = []" using t'(2) by (cases e) (auto split: if_splits list.splits)
    have side_empty: "w = []" if "split_on 58 w = [[]]" for w using that by (cases w) (auto split: if_splits list.splits)
    have clean: "w = [] \<or> [] \<notin> set (split_on 58 w)" if "split_on 58 w = side ws" "list_all hextet ws" for w ws
      using that side_empty [of w] hextets_nonempty by (auto simp: side_def split: if_splits)
    have ca: "a' = [] \<or> [] \<notin> set (split_on 58 a')" and cb: "b' = [] \<or> [] \<notin> set (split_on 58 b')"
      using clean t(2) t'(3) uv(2) by auto
    have "at_double_colon s = (a', b')" "double_colons b' = 0"
      using at_double_colon_cut [OF no_double_colon(1) [OF ca], of b'] no_double_colon(2) [OF cb] t(1) t'(1) e by auto
    then have ab: "a = a'" "b = b'" "double_colons b = 0" using s(2) by auto
    have "xs = us" "ys = vs"
      using ab t(2) t'(3) side_empty ca cb uv(2) hextets_nonempty [of "us @ vs"]
      by (auto simp: xs_def ys_def side_def split: if_splits)
    then show "v2_ipv6_groups s" using v2 ab(3) uv(2,3) r low v2_hextets by blast
  qed
qed

lemma side_length: "1 \<le> length (side xs)"
  by (cases xs) (auto simp: side_def)

lemma ipv6_parts_length: "ipv6_parts ps \<Longrightarrow> 3 \<le> length ps"
proof -
  assume "ipv6_parts ps"
  then consider "length ps = 8" | xs ys where "ps = side xs @ [] # side ys" by (auto simp: ipv6_parts_iff ipv6_spec_def)
  then show "3 \<le> length ps"
  proof cases
    case (2 xs ys)
    then show ?thesis using side_length [of xs] side_length [of ys] by simp
  qed simp
qed

lemma ipv6_parts_text:
  assumes "ipv6_parts (split_on 58 s)" and "d \<in> set s"
  shows "hex_digit d \<or> d = 58"
  using ipv6_parts_chars [OF assms(1)] split_on_parts [OF assms(2), of 58] by blast

text \<open>The module's own check accepts exactly the addresses of \<open>ipaddress\<close> in lower case and without a zone.\<close>

lemma v2_ipv6_iff: "v2_ipv6 h \<longleftrightarrow> ipv6_address h \<and> lower_only h \<and> 37 \<notin> set h"
proof (cases "46 \<in> set h")
  case False
  have "46 \<notin> set (last (split_on 58 h))"
    using False split_on_chars [of "last (split_on 58 h)" 58 h] last_in_set [OF split_on_nonempty, of 58 h] by blast
  moreover have "37 \<notin> set h \<and> 47 \<notin> set h" if "ipv6_parts (split_on 58 h)"
    using ipv6_parts_text [OF that, of 37] ipv6_parts_text [OF that, of 47] by (auto simp: char_class_defs)
  ultimately show ?thesis
    using False ipv6_parts_length [of "split_on 58 h"]
    by (auto simp: v2_ipv6_def v2_ipv6_groups_iff ipv6_address_def Let_def)
next
  case dot: True
  show ?thesis
  proof (cases "58 \<in> set h")
    case False
    then show ?thesis using dot by (cases "37 \<in> set h") (auto simp: v2_ipv6_def ipv6_address_def split_on_clean)
  next
    case True
    obtain prefix dotted where h: "h = prefix @ 58 # dotted" "58 \<notin> set dotted"
      using True by (metis split_list_last)
    have ps: "split_on 58 h = split_on 58 prefix @ [dotted]" using h split_on_append split_on_clean by metis
    have tail: "split_on 58 (prefix @ py '':0:0'') = split_on 58 prefix @ [[48], [48]]"
      using split_on_append [of 58 prefix "[48, 58, 48]"] by (simp add: py_def)
    have colons: "lower_only (prefix @ py '':0:0'') \<longleftrightarrow> lower_only prefix"
      by (auto simp: lower_only_def py_def lower_ascii_def ascii_upper_def)
    have v2: "v2_ipv6 h \<longleftrightarrow> ipv4_address dotted \<and> ipv6_parts (split_on 58 prefix @ [[48], [48]]) \<and> lower_only prefix"
      using dot rpartition_at_found [OF h(2), of prefix]
      by (auto simp: h(1) v2_ipv6_def v2_ipv4_iff v2_ipv6_groups_iff tail colons)
    have four: "46 \<in> set dotted \<and> 37 \<notin> set dotted \<and> 47 \<notin> set dotted \<and> lower_only dotted" if "ipv4_address dotted"
      using ipv4_chars [OF that] that split_on_clean [of 46 dotted]
      by (fastforce simp: ipv4_address_def lower_only_def lower_ascii_def char_class_defs)
    have groups: "37 \<notin> set prefix \<and> 47 \<notin> set prefix \<and> 2 \<le> length (split_on 58 prefix)"
      if p: "ipv6_parts (split_on 58 prefix @ [[48], [48]])"
    proof -
      have ch: "hex_digit d \<or> d = 58" if "d \<in> set prefix" for d
        using ipv6_parts_text [of "prefix @ py '':0:0''" d] p that tail by simp
      have "37 \<notin> set prefix" "47 \<notin> set prefix" using ch [of 37] ch [of 47] by (auto simp: char_class_defs)
      moreover have "length (split_on 58 prefix) \<noteq> 1"
      proof
        assume "length (split_on 58 prefix) = 1"
        then obtain q where "split_on 58 prefix = [q]" by (cases "split_on 58 prefix") auto
        then show False using p by (simp add: ipv6_parts_def)
      qed
      moreover have "split_on 58 prefix \<noteq> []" by simp
      ultimately show ?thesis by (cases "split_on 58 prefix"; cases "tl (split_on 58 prefix)") auto
    qed
    have six: "ipv6_address h \<longleftrightarrow> 47 \<notin> set h \<and> 46 \<in> set dotted \<and> 2 \<le> length (split_on 58 prefix) \<and>
        ipv4_address dotted \<and> ipv6_parts (split_on 58 prefix @ [[48], [48]])" if "37 \<notin> set h"
    proof -
      have "\<not> ipv6_parts (split_on 58 h)" using ipv6_parts_text [of h 46] dot by (auto simp: char_class_defs)
      then show ?thesis using that by (auto simp: ipv6_address_def ps Let_def)
    qed
    have low: "lower_only h \<longleftrightarrow> lower_only prefix \<and> lower_only dotted"
      by (auto simp: h(1) lower_only_def lower_ascii_def ascii_upper_def)
    show ?thesis
    proof
      assume "v2_ipv6 h"
      then have "37 \<notin> set h" "47 \<notin> set h" using v2 four groups by (auto simp: h(1))
      then show "ipv6_address h \<and> lower_only h \<and> 37 \<notin> set h"
        using \<open>v2_ipv6 h\<close> v2 four groups six low by blast
    next
      assume "ipv6_address h \<and> lower_only h \<and> 37 \<notin> set h"
      then show "v2_ipv6 h" using v2 six low by blast
    qed
  qed
qed

end
