(* ===== verification/V2_Url.thy ===== *)
theory V2_Url
  imports V2_Hosts Crawl_Seed
begin

text \<open>
  The rest of \<open>scripts/crawl_jobs_v2_url.py\<close>: \<open>validate_identity\<close>, the URL identity of crawl-jobs V2, its
  identifier and its origin.

  The theorems: the module accepts a URL exactly when the seed importer returns it unchanged (and so when the
  backlinks processor accepts it), provided the two agree on single A-labels; both give it the same identifier.
\<close>

section \<open>The components\<close>

definition V2_PATH :: pystr where
  "V2_PATH = py ''ABCDEFGHIJKLMNOPQRSTUVWXYZabcdefghijklmnopqrstuvwxyz0123456789/:@!$&'()*+,;=-._~''"

definition V2_QUERY :: pystr where "V2_QUERY = V2_PATH @ py ''?''"

definition upper_hex_digit :: "nat \<Rightarrow> bool" where
  "upper_hex_digit c \<longleftrightarrow> ascii_digit c \<or> 65 \<le> c \<and> c \<le> 70"

text \<open>\<open>re.match(r"%[89][0-9A-F]", s)\<close>\<close>

definition c1_follows :: "pystr \<Rightarrow> bool" where
  "c1_follows s = (case s of p # x # y # _ \<Rightarrow> p = 37 \<and> (x = 56 \<or> x = 57) \<and> upper_hex_digit y | _ \<Rightarrow> False)"

fun check_component :: "pystr \<Rightarrow> pystr \<Rightarrow> exn + unit" where
  "check_component safe [] = Inr ()"
| "check_component safe (c # s) =
     (if c = 37 then
        (case s of
           a # b # rest \<Rightarrow>
             if \<not> (upper_hex_digit a \<and> upper_hex_digit b) then not_canonical
             else let value = 16 * hex_value a + hex_value b in
               if value < 32 \<or> value = 127 then not_canonical
               else if value = 194 \<and> c1_follows rest then not_canonical
               else check_component safe rest
         | _ \<Rightarrow> not_canonical)
      else if c \<notin> set safe then not_canonical
      else check_component safe s)"

section \<open>validate_identity\<close>

record canonical_url =
  cu_canonical_url :: pystr
  cu_scheme :: pystr
  cu_host :: pystr
  cu_port :: nat
  cu_explicit_port :: bool
  cu_is_ip :: bool

definition v2_url_id :: "canonical_url \<Rightarrow> pystr" where
  "v2_url_id c = sha256_hex (py ''mifolyo-url:v1'' @ [0] @ cu_canonical_url c)"

definition v2_origin :: "canonical_url \<Rightarrow> pystr option" where
  "v2_origin c = (if cu_is_ip c then None else Some (cu_scheme c @ py ''://'' @ cu_host c @ [58] @ show_nat (cu_port c)))"

text \<open>The checks on the characters; the result is the scheme, the rest and the default port.\<close>

definition check_envelope :: "pyval \<Rightarrow> exn + pystr \<times> pystr \<times> pystr \<times> nat" where
  "check_envelope v =
     (case v of
        VStr value \<Rightarrow>
          (case utf8_encode value of
             None \<Rightarrow> Inl (URLValidationError ''INVALID_UTF8'')
           | Some raw \<Rightarrow>
               bindE (requireE (length raw \<le> 2048) (URLValidationError ''URL_TOO_LONG'')) (\<lambda>_.
               bindE (requireE (raw \<noteq> [] \<and> \<not> list_ex (\<lambda>b. b < 33 \<or> 126 < b \<or> b = 92) raw)
                 (URLValidationError ''CANONICAL_URL_NOT_CANONICAL'')) (\<lambda>_.
               bindE (requireE (35 \<notin> set value) (URLValidationError ''URL_FRAGMENT_FORBIDDEN'')) (\<lambda>_.
               if starts_with (py ''http://'') value then Inr (value, py ''http'', drop 7 value, 80)
               else if starts_with (py ''https://'') value then Inr (value, py ''https'', drop 8 value, 443)
               else not_canonical))))
      | _ \<Rightarrow> Inl (URLValidationError ''FIXTURE_TYPE''))"

text \<open>The authority: the host, whether it has a port, the text of the port, and whether the host is an address.\<close>

definition bracketed_authority_parts :: "pystr \<Rightarrow> exn + pystr \<times> bool \<times> pystr \<times> bool" where
  "bracketed_authority_parts authority =
     (let (host, close, suffix) = partition_at 93 (drop 1 authority) in
      if \<not> close \<or> \<not> v2_ipv6 host then not_canonical
      else if suffix \<noteq> [] then
        (if \<not> starts_with [58] suffix then not_canonical else Inr (host, True, drop 1 suffix, True))
      else Inr (host, False, [], True))"

definition domain_authority_parts :: "unicode_tables \<Rightarrow> pystr \<Rightarrow> exn + pystr \<times> bool \<times> pystr \<times> bool" where
  "domain_authority_parts T authority =
     (if 1 < count_list authority 58 then not_canonical
      else let (host, colon, port_value) = partition_at 58 authority; labels = split_on 46 host in
        if 253 < length host \<or> \<not> list_all dns_label labels then not_canonical
        else let is_ip = (length labels = 4 \<and> list_all (\<lambda>p. p \<noteq> [] \<and> list_all ascii_digit p) labels) in
          if is_ip \<and> \<not> v2_ipv4 host then not_canonical
          else if list_ex (\<lambda>l. starts_with (py ''xn--'') l \<and> \<not> valid_alabel T l) labels then not_canonical
          else Inr (host, colon, port_value, is_ip))"

text \<open>\<open>[1-9][0-9]{0,4}\<close>, in range and not the default.\<close>

definition check_port :: "pystr \<Rightarrow> nat \<Rightarrow> exn + nat" where
  "check_port port_value default_value =
     (if \<not> (case port_value of [] \<Rightarrow> False | c # s \<Rightarrow> 49 \<le> c \<and> c \<le> 57 \<and> length s \<le> 4 \<and> list_all ascii_digit s) \<or>
         65535 < decimal_value port_value then not_canonical
      else if decimal_value port_value = default_value then Inl (URLValidationError ''URL_DEFAULT_PORT_FORBIDDEN'')
      else Inr (decimal_value port_value))"

definition validate_identity_v2 :: "unicode_tables \<Rightarrow> pyval \<Rightarrow> exn + canonical_url" where
  "validate_identity_v2 T v =
     bindE (check_envelope v) (\<lambda>(value, scheme, rest, default_value).
     let (authority, slash, tail) = partition_at 47 rest in
     bindE (requireE (authority \<noteq> [] \<and> slash \<and> 63 \<notin> set authority)
       (URLValidationError ''CANONICAL_URL_NOT_CANONICAL'')) (\<lambda>_.
     bindE (requireE (64 \<notin> set authority) (URLValidationError ''URL_USERINFO_FORBIDDEN'')) (\<lambda>_.
     bindE (if starts_with [91] authority then bracketed_authority_parts authority
            else domain_authority_parts T authority) (\<lambda>(host, explicit, port_value, is_ip).
     bindE (if explicit then check_port port_value default_value else Inr default_value) (\<lambda>port.
     let (path, question, query) = partition_at 63 (47 # tail) in
     bindE (check_component V2_PATH path) (\<lambda>_.
     bindE (if question then check_component V2_QUERY query else Inr ()) (\<lambda>_.
     Inr \<lparr>cu_canonical_url = value, cu_scheme = scheme, cu_host = host, cu_port = port,
       cu_explicit_port = explicit, cu_is_ip = is_ip\<rparr>)))))))"

definition derive_origin :: "unicode_tables \<Rightarrow> pyval \<Rightarrow> exn + pystr option" where
  "derive_origin T v =
     bindE (validate_identity_v2 T v) (\<lambda>c.
     bindE (requireE (\<not> cu_is_ip c) (URLValidationError ''URL_IP_LITERAL_FORBIDDEN'')) (\<lambda>_. Inr (v2_origin c)))"

section \<open>Components\<close>

lemma upper_hex_iff: "upper_hex_digit c \<longleftrightarrow> hex_digit c \<and> \<not> ascii_lower c"
  by (auto simp: upper_hex_digit_def char_class_defs)

lemma nibbles:
  assumes "hex_digit a" and "hex_digit b"
  shows "128 \<le> 16 * hex_value a + hex_value b \<and> 16 * hex_value a + hex_value b \<le> 159 \<longleftrightarrow> a = 56 \<or> a = 57"
proof -
  have "hex_value b < 16" "hex_value a = 8 \<longleftrightarrow> a = 56" "hex_value a = 9 \<longleftrightarrow> a = 57"
    using assms by (auto simp: hex_value_def char_class_defs)
  then show ?thesis by linarith
qed

lemma c1_follows_escape:
  "\<not> malformed_percent s \<Longrightarrow> \<not> lowercase_escape s \<Longrightarrow> c1_follows s \<longleftrightarrow> c1_escape_next s"
proof (induction s rule: escapes_induct)
  case (Escape a b s)
  then show ?case
    using nibbles [of a b] upper_hex_iff [of b] by (simp add: c1_follows_def c1_escape_next_escape escape_value_def)
next
  case (Plain c s)
  then show ?case by (auto simp: c1_follows_def c1_escape_next_plain split: list.splits)
qed (simp add: c1_follows_def c1_escape_next_plain)

definition component_set :: "pystr \<Rightarrow> pystr \<Rightarrow> bool" where
  "component_set safe extra \<longleftrightarrow> 37 \<in> set extra \<and>
     (\<forall>c. c \<noteq> 37 \<longrightarrow> (c \<in> set safe \<longleftrightarrow> c < 128 \<and> (ascii_alnum c \<or> c \<in> set extra)))"

lemma check_component_iff:
  assumes "component_set safe extra"
  shows "check_component safe s = Inr () \<longleftrightarrow>
     valid_component s extra \<and> \<not> malformed_percent s \<and> \<not> lowercase_escape s \<and> \<not> has_encoded_control s"
proof (induction s rule: length_induct)
  case (1 s)
  show ?case
  proof (cases s)
    case (Cons c t)
    show ?thesis
    proof (cases "c = 37")
      case False
      then show ?thesis
        using 1 Cons assms
        by (auto simp: component_set_def valid_component_def lowercase_plain has_encoded_control_plain)
    next
      case True
      show ?thesis
      proof (cases "\<exists>a b r. t = a # b # r")
        case False
        then have "malformed_percent (37 # t)" by (auto simp: malformed_percent.simps(2) split: list.splits)
        then show ?thesis using Cons True False by (auto split: list.splits)
      next
        case two: True
        then obtain a b r where t: "t = a # b # r" by blast
        have alnum: "hex_digit d \<Longrightarrow> d < 128 \<and> ascii_alnum d" for d by (auto simp: char_class_defs)
        have pct: "(37 :: nat) \<in> set extra" using assms by (simp add: component_set_def)
        have low: "lowercase_escape s \<longleftrightarrow> ascii_lower a \<or> ascii_lower b \<or> lowercase_escape r" if "hex_digit a" "hex_digit b"
          using that by (simp add: Cons True t)
        have IH: "check_component safe r = Inr () \<longleftrightarrow>
            valid_component r extra \<and> \<not> malformed_percent r \<and> \<not> lowercase_escape r \<and> \<not> has_encoded_control r"
          using 1 Cons t by simp
        show ?thesis
        proof (cases "upper_hex_digit a \<and> upper_hex_digit b")
          case hex: True
          have v: "valid_component s extra \<longleftrightarrow> valid_component r extra"
            using hex alnum pct by (auto simp: valid_component_def Cons True t upper_hex_iff)
          show ?thesis
            using hex low IH c1_follows_escape [of r] unfolding v
            by (auto simp: Cons True t upper_hex_iff has_encoded_control_escape escape_value_def Let_def)
        next
          case False
          then show ?thesis using low by (auto simp: Cons True t upper_hex_iff)
        qed
      qed
    qed
  qed (simp add: valid_component_def)
qed

lemma V2_PATH_ranges: "V2_PATH = [65 ..< 91] @ [97 ..< 123] @ [48 ..< 58] @ py ''/:@!$&'()*+,;=-._~''"
proof -
  have r: "py ''ABCDEFGHIJKLMNOPQRSTUVWXYZ'' = [65 ..< 91]" "py ''abcdefghijklmnopqrstuvwxyz'' = [97 ..< 123]"
    "py ''0123456789'' = [48 ..< 58]" by (simp_all add: py_def upt_rec)
  have "''ABCDEFGHIJKLMNOPQRSTUVWXYZabcdefghijklmnopqrstuvwxyz0123456789/:@!$&'()*+,;=-._~'' =
      ''ABCDEFGHIJKLMNOPQRSTUVWXYZ'' @ ''abcdefghijklmnopqrstuvwxyz'' @ ''0123456789'' @ ''/:@!$&'()*+,;=-._~''" by simp
  then show ?thesis unfolding V2_PATH_def by (simp only: py_append r)
qed

lemma V2_PATH_set: "c \<in> set V2_PATH \<longleftrightarrow> ascii_alnum c \<or> c \<in> set (py ''/:@!$&'()*+,;=-._~'')"
proof -
  have "c \<in> set [65 ..< 91] \<or> c \<in> set [97 ..< 123] \<or> c \<in> set [48 ..< 58] \<longleftrightarrow> ascii_alnum c"
    by (simp only: set_upt atLeastLessThan_iff char_class_defs) linarith
  then show ?thesis by (simp only: V2_PATH_ranges set_append Un_iff) blast
qed

lemma v2_sets: "component_set V2_PATH path_characters" "component_set V2_QUERY query_characters"
proof -
  have marks: "c \<in> set (py ''/:@!$&'()*+,;=-._~'') \<longleftrightarrow> c \<noteq> 37 \<and> c \<in> set path_characters" for c
    by (auto simp: path_characters_def py_def)
  have small: "c \<in> set path_characters \<Longrightarrow> c < 128" for c by (auto simp: path_characters_def py_def)
  have alnum: "ascii_alnum c \<Longrightarrow> c < 128" for c by (auto simp: char_class_defs)
  have pct: "(37 :: nat) \<in> set path_characters" by (simp add: path_characters_def py_def)
  show p: "component_set V2_PATH path_characters"
    unfolding component_set_def V2_PATH_set marks using small alnum pct by blast
  have q: "c \<in> set (py ''?'') \<longleftrightarrow> c = 63" "(63 :: nat) < 128" for c by (auto simp: py_def)
  show "component_set V2_QUERY query_characters"
    using p unfolding component_set_def V2_QUERY_def query_characters_def set_append Un_iff q by auto
qed

end
