(* ===== verification/V2_Identity.thy ===== *)
theory V2_Identity
  imports V2_Url
begin

text \<open>
  What \<open>validate_identity\<close> of \<open>scripts/crawl_jobs_v2_url.py\<close> accepts: the canonical texts of \<open>Canonical_Text\<close>,
  which the seed importer and the backlinks processor reach through \<open>urlsplit\<close> and \<open>ipaddress\<close>. The check of one
  A-label is another here (the pinned tables, after Go's UTS 46) than there (the \<open>idna\<close> package, IDNA 2008), and the
  two do differ. \<open>same_alabels\<close> says that they agree on the labels of one host; the lemmas assume it of the host at
  hand, and the claims, which assume nothing about \<open>idna\<close>, show that a URL on whose A-labels both checks
  succeed is all that is needed.
\<close>

definition same_alabels :: "ucd \<Rightarrow> idna \<Rightarrow> unicode_tables \<Rightarrow> pystr \<Rightarrow> bool" where
  "same_alabels u ix T host \<longleftrightarrow>
     (\<forall>l \<in> set (split_on 46 host). dns_label l \<longrightarrow> starts_with (py ''xn--'') l \<longrightarrow> alabel_ok u ix l = valid_alabel T l)"

section \<open>The envelope\<close>

lemma utf8_ascii_bytes: "utf8_encode s = Some b \<Longrightarrow> list_all (\<lambda>x. x < 128) b \<Longrightarrow> b = s"
  by (induction s arbitrary: b) (auto simp: utf8_char_def split: option.splits if_splits)

definition plain_url :: "pystr \<Rightarrow> bool" where
  "plain_url v \<longleftrightarrow> v \<noteq> [] \<and> length v \<le> 2048 \<and> (\<forall>c \<in> set v. 33 \<le> c \<and> c \<le> 126 \<and> c \<noteq> 92 \<and> c \<noteq> 35)"

lemma plain_url_ascii: "plain_url v \<Longrightarrow> is_ascii v"
  by (fastforce simp: plain_url_def is_ascii_def list_all_iff)

lemma scheme_prefix:
  "starts_with (py ''http://'') v \<longleftrightarrow> (\<exists>r. v = py ''http'' @ py ''://'' @ r)"
  "starts_with (py ''https://'') v \<longleftrightarrow> (\<exists>r. v = py ''https'' @ py ''://'' @ r)"
proof -
  have "py ''http://'' = py ''http'' @ py ''://''" "py ''https://'' = py ''https'' @ py ''://''" by (simp_all add: py_def)
  moreover have "starts_with p v \<longleftrightarrow> (\<exists>r. v = p @ r)" for p using starts_withE starts_with_append by blast
  ultimately show "starts_with (py ''http://'') v \<longleftrightarrow> (\<exists>r. v = py ''http'' @ py ''://'' @ r)"
    "starts_with (py ''https://'') v \<longleftrightarrow> (\<exists>r. v = py ''https'' @ py ''://'' @ r)"
    by simp_all
qed

lemma check_envelope_sound:
  assumes "check_envelope (VStr v) = Inr (value, scheme, rest, d)"
  shows "value = v" and "plain_url v" and "v = scheme @ py ''://'' @ rest"
    and "scheme = py ''http'' \<or> scheme = py ''https''" and "d = default_port scheme"
proof -
  obtain raw where raw: "utf8_encode v = Some raw" "length raw \<le> 2048" "raw \<noteq> []"
    and ch: "\<not> list_ex (\<lambda>b. b < 33 \<or> 126 < b \<or> b = 92) raw" and h: "35 \<notin> set v" and val: "value = v"
    and cut: "starts_with (py ''http://'') v \<and> scheme = py ''http'' \<and> rest = drop 7 v \<and> d = 80 \<or>
      starts_with (py ''https://'') v \<and> scheme = py ''https'' \<and> rest = drop 8 v \<and> d = 443"
    using assms by (auto simp: check_envelope_def sum_iffs split: option.splits if_splits)
  have "list_all (\<lambda>b. b < 128) raw" using ch by (fastforce simp: list_ex_iff list_all_iff)
  then have "raw = v" by (rule utf8_ascii_bytes [OF raw(1)])
  then show "plain_url v" using raw ch h by (fastforce simp: plain_url_def list_ex_iff)
  show "value = v" by (rule val)
  have "v = scheme @ py ''://'' @ rest \<and> (scheme = py ''http'' \<or> scheme = py ''https'') \<and> d = default_port scheme"
    using cut
  proof (elim disjE)
    assume c: "starts_with (py ''http://'') v \<and> scheme = py ''http'' \<and> rest = drop 7 v \<and> d = 80"
    then obtain r where "v = py ''http'' @ py ''://'' @ r" using scheme_prefix(1) [of v] by blast
    then show ?thesis using c by (simp add: default_port_def)
  next
    assume c: "starts_with (py ''https://'') v \<and> scheme = py ''https'' \<and> rest = drop 8 v \<and> d = 443"
    then obtain r where "v = py ''https'' @ py ''://'' @ r" using scheme_prefix(2) [of v] by blast
    then show ?thesis using c by (simp add: default_port_def)
  qed
  then show "v = scheme @ py ''://'' @ rest" "scheme = py ''http'' \<or> scheme = py ''https''" "d = default_port scheme"
    by blast+
qed

lemma check_envelope_complete:
  assumes "plain_url v" and "v = scheme @ py ''://'' @ rest" and "scheme = py ''http'' \<or> scheme = py ''https''"
  shows "check_envelope (VStr v) = Inr (v, scheme, rest, default_port scheme)"
proof -
  have "\<not> list_ex (\<lambda>b. b < 33 \<or> 126 < b \<or> b = 92) v" "v \<noteq> []" "length v \<le> 2048" "35 \<notin> set v"
    using assms(1) by (force simp: plain_url_def list_ex_iff)+
  moreover have "starts_with (py ''http://'') v \<and> drop 7 v = rest \<or> \<not> starts_with (py ''http://'') v \<and> scheme = py ''https''"
    if "scheme = py ''http''" using that assms(2) scheme_prefix(1) [of v] by auto
  moreover have "\<not> starts_with (py ''http://'') v \<and> starts_with (py ''https://'') v \<and> drop 8 v = rest" if "scheme = py ''https''"
    using that assms(2) scheme_prefix(2) [of v] by (auto simp: py_def)
  ultimately show ?thesis
    using assms(3) utf8_encode_ascii [OF plain_url_ascii [OF assms(1)]]
    by (auto simp: check_envelope_def default_port_def)
qed

section \<open>Ports\<close>

lemma show_nat_decimal_value:
  assumes "list_all ascii_digit (c # s)" and "c \<noteq> 48"
  shows "show_nat (decimal_value (c # s)) = c # s"
  using assms
proof (induction s rule: rev_induct)
  case Nil
  then show ?case by (subst show_nat.simps) (auto simp: decimal_value_def ascii_digit_def)
next
  case (snoc d s)
  have IH: "show_nat (decimal_value (c # s)) = c # s" using snoc by simp
  let ?n = "decimal_value (c # s)"
  obtain e where d: "d = 48 + e" "e < 10" using snoc.prems by (auto simp: ascii_digit_def le_iff_add)
  have "?n \<noteq> 0"
  proof
    assume "?n = 0"
    then have "c # s = [48]" using IH by (simp add: show_nat.simps)
    then show False using assms(2) by simp
  qed
  moreover have v: "decimal_value (c # s @ [d]) = 10 * ?n + e" using decimal_value_snoc [of "c # s" d] d(1) by simp
  ultimately have "show_nat (decimal_value (c # s @ [d])) = show_nat ?n @ [48 + e]"
    using d by (subst show_nat.simps) simp
  then show ?case using IH d by simp
qed

lemma show_nat_length: "n < 10 ^ Suc k \<Longrightarrow> length (show_nat n) \<le> Suc k"
proof (induction k arbitrary: n)
  case (Suc k)
  show ?case
  proof (cases "n < 10")
    case False
    have "n div 10 < 10 ^ Suc k" using Suc.prems by (simp add: less_mult_imp_div_less)
    then show ?thesis using Suc.IH False by (subst show_nat.simps) simp
  qed (simp add: show_nat.simps)
qed (simp add: show_nat.simps)

lemma check_port_iff:
  "check_port t d = Inr p \<longleftrightarrow> t = show_nat p \<and> 1 \<le> p \<and> p \<le> 65535 \<and> p \<noteq> d"
proof
  assume ok: "check_port t d = Inr p"
  then obtain c s where t: "t = c # s" "49 \<le> c" "c \<le> 57" "list_all ascii_digit s"
    and p: "p = decimal_value t" "p \<le> 65535" "p \<noteq> d"
    by (auto simp: check_port_def split: list.splits if_splits)
  have "show_nat p = t" using show_nat_decimal_value [of c s] t p(1) by (simp add: ascii_digit_def)
  moreover have "p \<noteq> 0"
  proof
    assume "p = 0"
    then show False using \<open>show_nat p = t\<close> t by (simp add: show_nat.simps)
  qed
  ultimately show "t = show_nat p \<and> 1 \<le> p \<and> p \<le> 65535 \<and> p \<noteq> d" using p by simp
next
  assume p: "t = show_nat p \<and> 1 \<le> p \<and> p \<le> 65535 \<and> p \<noteq> d"
  obtain c s where cs: "show_nat p = c # s" by (cases "show_nat p") auto
  have "c \<noteq> 48" using show_nat_head [OF _ cs] p by simp
  moreover have "list_all ascii_digit (c # s)" using show_nat_digits [of p] cs by simp
  moreover have "length s \<le> 4" using show_nat_length [of p 4] cs p by simp
  ultimately show "check_port t d = Inr p" using p cs decimal_value_show_nat [of p] by (auto simp: check_port_def ascii_digit_def)
qed

section \<open>Hosts\<close>

lemma octet_facts: "ipv4_octet p \<Longrightarrow> dns_label p \<and> length p \<le> 3 \<and> \<not> starts_with (py ''xn--'') p"
  by (cases p) (auto simp: ipv4_octet_def dns_label_def lower_alnum_def list_all_iff py_def ascii_digit_def starts_with_def
      dest: last_in_set)

lemma length_joined: "length s = sum_list (map length (split_on c s)) + (length (split_on c s) - 1)"
  by (induction s) (auto split: list.splits)

lemma ipv4_facts:
  assumes "ipv4_address h"
  shows "length h \<le> 253" and "list_all dns_label (split_on 46 h)" and "dotted_numeric_host h"
    and "\<forall>l \<in> set (split_on 46 h). \<not> starts_with (py ''xn--'') l" and "58 \<notin> set h" and "lower_only h" and "is_ascii h" and "37 \<notin> set h"
proof -
  have p: "list_all ipv4_octet (split_on 46 h)" "length (split_on 46 h) = 4" using assms by (auto simp: ipv4_address_def)
  show "list_all dns_label (split_on 46 h)" "\<forall>l \<in> set (split_on 46 h). \<not> starts_with (py ''xn--'') l"
    using p(1) octet_facts by (auto simp: list_all_iff)
  show "dotted_numeric_host h" using p by (auto simp: dotted_numeric_host_def list_all_iff ipv4_octet_def)
  have "\<forall>q \<in> set (split_on 46 h). length q \<le> 3" using p(1) octet_facts by (auto simp: list_all_iff)
  moreover have "\<forall>q \<in> set ps. length q \<le> 3 \<Longrightarrow> sum_list (map length ps) \<le> 3 * length ps" for ps :: "pystr list"
    by (induction ps) auto
  ultimately have "sum_list (map length (split_on 46 h)) \<le> 3 * length (split_on 46 h)" by blast
  then show "length h \<le> 253" using length_joined [of h 46] p(2) by simp
  show "58 \<notin> set h" "37 \<notin> set h" using ipv4_chars [OF assms, of 58] ipv4_chars [OF assms, of 37] by (auto simp: char_class_defs)
  show "lower_only h" "is_ascii h"
    using ipv4_chars [OF assms] by (fastforce simp: lower_only_def is_ascii_def list_all_iff lower_ascii_def char_class_defs)+
qed

definition v2_domain_host :: "unicode_tables \<Rightarrow> pystr \<Rightarrow> bool" where
  "v2_domain_host T host \<longleftrightarrow> length host \<le> 253 \<and> list_all dns_label (split_on 46 host) \<and>
     (dotted_numeric_host host \<longrightarrow> v2_ipv4 host) \<and>
     \<not> list_ex (\<lambda>l. starts_with (py ''xn--'') l \<and> \<not> valid_alabel T l) (split_on 46 host)"

lemma dns_labels_lower: "list_all dns_label (split_on 46 h) \<longleftrightarrow> list_all host_label (split_on 46 h) \<and> lower_only h"
proof -
  have "lower_only h \<longleftrightarrow> (\<forall>p \<in> set (split_on 46 h). lower_only p)"
  proof -
    have "lower_ascii 46 = 46" by (simp add: lower_ascii_def ascii_upper_def)
    then show ?thesis using split_on_parts [of _ h 46] split_on_chars [of _ 46 h] by (fastforce simp: lower_only_def)
  qed
  then show ?thesis by (auto simp: dns_label_iff lower_only_iff list_all_iff)
qed

lemma last_label_dot: "ends_with (py ''.'') h \<Longrightarrow> [] \<in> set (split_on 46 h)"
proof -
  assume "ends_with (py ''.'') h"
  then have "drop (length h - 1) h = [46]" by (simp add: ends_with_def py_def)
  then obtain w where "h = w @ 46 # []" by (metis append_take_drop_id)
  then show ?thesis using split_on_append [of 46 w "[]"] by simp
qed

lemma v2_domain_host_iff:
  assumes "same_alabels u ix T h" and "58 \<notin> set h"
  shows "v2_domain_host T h \<longleftrightarrow> host_accepted u ix h"
    and "v2_domain_host T h \<Longrightarrow> dotted_numeric_host h \<longleftrightarrow> ip_version h \<noteq> None"
proof -
  have no6: "\<not> ipv6_address h" if "37 \<notin> set h" using ipv6_has_colon [OF _ that] assms(2) by blast
  have al: "list_all dns_label (split_on 46 h) \<Longrightarrow>
      \<not> list_ex (\<lambda>l. starts_with (py ''xn--'') l \<and> \<not> valid_alabel T l) (split_on 46 h) \<longleftrightarrow>
      list_all (\<lambda>l. starts_with (py ''xn--'') l \<longrightarrow> alabel_ok u ix l) (split_on 46 h)"
    using assms(1) by (auto simp: same_alabels_def list_all_iff list_ex_iff)
  have dot: "\<not> ends_with (py ''.'') h" if "list_all host_label (split_on 46 h)"
    using last_label_dot [of h] that by (auto simp: list_all_iff host_label_def)
  have pct: "37 \<notin> set h" if "list_all host_label (split_on 46 h)"
    using domain_host_chars [OF that, of 37] by (auto simp: char_class_defs)
  have version: "ip_version h = (if ipv4_address h then Some 4 else None)" if "37 \<notin> set h"
    using no6 [OF that] by (simp add: ip_version_def)
  show iff: "v2_domain_host T h \<longleftrightarrow> host_accepted u ix h"
  proof (cases "ipv4_address h")
    case True
    then show ?thesis
      using ipv4_facts [OF True] version
      by (auto simp: v2_domain_host_def v2_ipv4_iff host_accepted_def lower_only_iff list_ex_iff)
  next
    case False
    show ?thesis
    proof
      assume v: "v2_domain_host T h"
      then have l: "list_all host_label (split_on 46 h)" "lower_only h" by (auto simp: v2_domain_host_def dns_labels_lower)
      then show "host_accepted u ix h"
        using v False version [OF pct [OF l(1)]] dot [OF l(1)] al
        by (auto simp: v2_domain_host_def v2_ipv4_iff host_accepted_def domain_host_ok_def lower_only_iff)
    next
      assume a: "host_accepted u ix h"
      have "ip_version h = None"
      proof (rule ccontr)
        assume n: "ip_version h \<noteq> None"
        then have "37 \<notin> set h" using a by (auto simp: host_accepted_def)
        then show False using n version False by simp
      qed
      then have d: "domain_host_ok u ix h" "lower_only h" using a by (auto simp: host_accepted_def lower_only_iff)
      then have "list_all dns_label (split_on 46 h)" by (simp add: domain_host_ok_def dns_labels_lower)
      then show "v2_domain_host T h" using d al by (simp add: v2_domain_host_def domain_host_ok_def)
    qed
  qed
  show "dotted_numeric_host h \<longleftrightarrow> ip_version h \<noteq> None" if v: "v2_domain_host T h"
  proof -
    have "37 \<notin> set h" using v pct by (auto simp: v2_domain_host_def dns_labels_lower)
    then show ?thesis using v version ipv4_facts(3) [of h] by (auto simp: v2_domain_host_def v2_ipv4_iff)
  qed
qed

lemma v2_ipv6_host: "v2_ipv6 h \<longleftrightarrow> host_accepted u ix h \<and> ip_version h = Some 6"
proof
  assume v: "v2_ipv6 h"
  then have six: "ipv6_address h" "lower_only h" "37 \<notin> set h" by (auto simp: v2_ipv6_iff)
  have "\<not> ipv4_address h" using ipv6_has_colon [OF six(1,3)] ipv4_facts(5) [of h] by blast
  then have "ip_version h = Some 6" using six(1) by (simp add: ip_version_def)
  moreover have "is_ascii h"
    using ipv6_chars [OF six(1,3)] by (fastforce simp: is_ascii_def list_all_iff char_class_defs)
  ultimately show "host_accepted u ix h \<and> ip_version h = Some 6"
    using six by (simp add: host_accepted_def lower_only_iff)
next
  assume "host_accepted u ix h \<and> ip_version h = Some 6"
  then show "v2_ipv6 h"
    using ip_version_cases [of h 6] by (auto simp: v2_ipv6_iff host_accepted_def lower_only_iff)
qed

text \<open>The authority as a whole: the text of a host and a port, and what is read from it.\<close>

definition authority_parts :: "unicode_tables \<Rightarrow> pystr \<Rightarrow> exn + pystr \<times> bool \<times> pystr \<times> bool" where
  "authority_parts T authority =
     (if starts_with [91] authority then bracketed_authority_parts authority else domain_authority_parts T authority)"

definition port_suffix :: "bool \<Rightarrow> pystr \<Rightarrow> pystr" where
  "port_suffix explicit port_value = (if explicit then 58 # port_value else [])"

lemma authority_parts_sound:
  assumes "authority_parts T authority = Inr (h, explicit, pv, is_ip)" and "same_alabels u ix T h"
  shows "host_accepted u ix h" and "authority = bracket h @ port_suffix explicit pv" and "is_ip \<longleftrightarrow> ip_version h \<noteq> None"
proof -
  have "host_accepted u ix h \<and> authority = bracket h @ port_suffix explicit pv \<and> (is_ip \<longleftrightarrow> ip_version h \<noteq> None)"
  proof (cases "starts_with [91] authority")
    case True
    then obtain r where r: "authority = 91 # r" using starts_withE by fastforce
    obtain host close suffix where p: "partition_at 93 r = (host, close, suffix)" by (cases "partition_at 93 r")
    have q: "close" "v2_ipv6 host" "h = host" "is_ip" "suffix = port_suffix explicit pv"
      using assms(1) True
      by (auto simp: authority_parts_def bracketed_authority_parts_def r p port_suffix_def dest: starts_withE split: if_splits)
    then have "r = host @ 93 # suffix" using p by (simp add: partition_at_split)
    then show ?thesis using q v2_ipv6_host [of host u ix] by (auto simp: r bracket_def)
  next
    case False
    obtain host colon pv' where p: "partition_at 58 authority = (host, colon, pv')" by (cases "partition_at 58 authority")
    have q: "count_list authority 58 \<le> 1" "v2_domain_host T host" "h = host" "explicit = colon" "pv = pv'" "is_ip = dotted_numeric_host host"
      using assms(1) False
      by (auto simp: authority_parts_def domain_authority_parts_def p Let_def v2_domain_host_def dotted_numeric_host_def split: if_splits)
    have h: "58 \<notin> set host" "authority = host @ port_suffix colon pv'"
      using p by (auto simp: partition_at_split port_suffix_def split: if_splits)
    have same: "same_alabels u ix T host" using assms(2) q(3) by simp
    have acc: "host_accepted u ix host" using v2_domain_host_iff(1) [OF same h(1)] q(2) by simp
    then have "ip_version host \<noteq> Some 6" using host_accepted_chars [OF acc] h(1) by (auto simp: host_chars_ok_def)
    then show ?thesis using acc h q v2_domain_host_iff(2) [OF same h(1)] by (auto simp: bracket_def)
  qed
  then show "host_accepted u ix h" "authority = bracket h @ port_suffix explicit pv" "is_ip \<longleftrightarrow> ip_version h \<noteq> None" by blast+
qed

lemma authority_parts_complete:
  assumes "host_accepted u ix h" and "same_alabels u ix T h" and "58 \<notin> set pv" and "explicit \<or> pv = []"
  shows "authority_parts T (bracket h @ port_suffix explicit pv) = Inr (h, explicit, pv, ip_version h \<noteq> None)"
proof (cases "ip_version h = Some 6")
  case True
  then have six: "v2_ipv6 h" using v2_ipv6_host assms(1) by blast
  have "93 \<notin> set h" using host_accepted_chars [OF assms(1)] by (auto simp: host_chars_ok_def)
  then have "partition_at 93 (h @ 93 # port_suffix explicit pv) = (h, True, port_suffix explicit pv)" by simp
  then show ?thesis using True six assms(4)
    by (auto simp: authority_parts_def bracketed_authority_parts_def bracket_def port_suffix_def)
next
  case False
  have hc: "host_chars_ok h" by (rule host_accepted_chars [OF assms(1)])
  then have h: "58 \<notin> set h" "91 \<notin> set h" "h \<noteq> []" using False by (auto simp: host_chars_ok_def)
  then have nb: "\<not> starts_with [91] (h @ port_suffix explicit pv)" by (cases h) auto
  have p: "partition_at 58 (h @ port_suffix explicit pv) = (h, explicit, pv)"
    using h(1) assms(4) by (auto simp: port_suffix_def)
  have c: "count_list (h @ port_suffix explicit pv) 58 \<le> 1"
    using h(1) assms(3) by (simp add: port_suffix_def count_list_0_iff)
  have v: "v2_domain_host T h" using v2_domain_host_iff(1) [OF assms(2) h(1)] assms(1) by simp
  have "(length (split_on 46 h) = 4 \<and> list_all (\<lambda>p. p \<noteq> [] \<and> list_all ascii_digit p) (split_on 46 h)) \<longleftrightarrow> ip_version h \<noteq> None"
    using v2_domain_host_iff(2) [OF assms(2) h(1) v] by (simp add: dotted_numeric_host_def)
  then show ?thesis
    using False nb p c v
    by (auto simp: authority_parts_def domain_authority_parts_def bracket_def Let_def v2_domain_host_def dotted_numeric_host_def)
qed

section \<open>The URL as a whole\<close>

definition canonical_record :: "pystr \<Rightarrow> pystr \<Rightarrow> nat option \<Rightarrow> pystr \<Rightarrow> pystr option \<Rightarrow> canonical_url" where
  "canonical_record scheme host port path query =
     \<lparr>cu_canonical_url = canonical_text scheme host port path query, cu_scheme = scheme, cu_host = host,
      cu_port = (case port of None \<Rightarrow> default_port scheme | Some p \<Rightarrow> p), cu_explicit_port = (port \<noteq> None),
      cu_is_ip = (ip_version host \<noteq> None)\<rparr>"

lemma plain_url_characters: "validate_characters v = Inr () \<Longrightarrow> \<forall>c \<in> set v. 33 \<le> c \<and> c \<le> 126 \<Longrightarrow> plain_url v"
  using validate_charactersD [of v] by (auto simp: plain_url_def MAX_CANONICAL_URL_BYTES_def)

lemma identity_sound:
  assumes ok: "validate_identity_v2 T (VStr v) = Inr c" and same: "same_alabels u ix T (cu_host c)"
  shows "\<exists>scheme host port path query. canonical_parts u ix scheme host port path query \<and>
     validate_characters v = Inr () \<and> v = canonical_text scheme host port path query \<and>
     c = canonical_record scheme host port path query"
proof -
  obtain val scheme rest d where env: "check_envelope (VStr v) = Inr (val, scheme, rest, d)"
    using ok by (cases "check_envelope (VStr v)") (auto simp: validate_identity_v2_def)
  note e = check_envelope_sound [OF env]
  obtain authority slash tail where cut: "partition_at 47 rest = (authority, slash, tail)" by (cases "partition_at 47 rest")
  obtain path question query where pq: "partition_at 63 (47 # tail) = (path, question, query)"
    by (cases "partition_at 63 (47 # tail)")
  obtain host explicit pv is_ip port where g: "authority \<noteq> []" "slash"
    and auth: "authority_parts T authority = Inr (host, explicit, pv, is_ip)"
    and port: "(if explicit then check_port pv d else Inr d) = Inr port"
    and comp: "check_component V2_PATH path = Inr ()" "question \<Longrightarrow> check_component V2_QUERY query = Inr ()"
    and c: "c = \<lparr>cu_canonical_url = val, cu_scheme = scheme, cu_host = host, cu_port = port,
       cu_explicit_port = explicit, cu_is_ip = is_ip\<rparr>"
    using ok unfolding validate_identity_v2_def authority_parts_def [symmetric] env
    by (auto simp: cut pq sum_iffs split: if_splits)
  have "cu_host c = host" by (simp add: c)
  note a = authority_parts_sound [OF auth same [unfolded this]]
  define p where "p = (if explicit then Some port else None)"
  define q where "q = (if question then Some query else None)"
  have pt: "port_suffix explicit pv = port_text p" and pr: "case p of None \<Rightarrow> port = d | Some n \<Rightarrow> 1 \<le> n \<and> n \<le> 65535 \<and> n \<noteq> d"
    using port by (auto simp: p_def port_suffix_def port_text_def check_port_iff split: if_splits)
  have path: "63 \<notin> set path" "47 # tail = path @ query_text q" "path \<noteq> []" "hd path = 47"
    using pq by (auto simp: partition_at_split q_def query_text_def split: if_splits; cases path; auto)+
  have v: "v = canonical_text scheme host p path q"
    using e(3) g(2) cut a(2) pt path(2) by (simp add: canonical_text_def partition_at_split)
  have frag: "35 \<notin> set v" using e(2) by (auto simp: plain_url_def)
  have vp: "valid_component path path_characters" "\<not> malformed_percent path" "\<not> lowercase_escape path" "\<not> has_encoded_control path"
    using comp(1) check_component_iff [OF v2_sets(1)] by auto
  have vq: "case q of None \<Rightarrow> True | Some q \<Rightarrow> valid_component q query_characters \<and> \<not> malformed_percent q \<and>
      \<not> lowercase_escape q \<and> \<not> has_encoded_control q"
    using comp(2) check_component_iff [OF v2_sets(2)] by (auto simp: q_def)
  have "parts_ok scheme p path q"
    using e(4,5) pr path frag by (auto simp: parts_ok_def v canonical_text_def query_text_def split: option.splits)
  then have parts: "canonical_parts u ix scheme host p path q"
    using a(1) vp(1) vq by (auto simp: canonical_parts_def split: option.splits)
  have "seed_utf8_length v = Inr (length v)" "length v \<le> MAX_URL_BYTES"
    using e(2) utf8_encode_ascii [OF plain_url_ascii [OF e(2)]] by (simp_all add: seed_utf8_length_def plain_url_def MAX_URL_BYTES_def)
  then have "validate_characters v = Inr ()"
    unfolding v using vp vq by (intro canonical_characters [OF parts]) (auto split: option.splits)
  moreover have "c = canonical_record scheme host p path q"
    using c e(1,5) v a(3) port by (auto simp: canonical_record_def p_def split: if_splits)
  ultimately show ?thesis using parts v by blast
qed

lemma canonical_printable:
  assumes "canonical_parts u ix scheme host port path query"
  shows "\<forall>c \<in> set (canonical_text scheme host port path query). 33 \<le> c \<and> c \<le> 126"
proof -
  have ok: "parts_ok scheme port path query" "host_accepted u ix host" "valid_component path query_characters"
    "case query of None \<Rightarrow> True | Some q \<Rightarrow> valid_component q query_characters"
    using assms path_component by (auto simp: canonical_parts_def)
  have marks: "c \<in> set query_characters \<Longrightarrow> 33 \<le> c \<and> c \<le> 126" for c
    by (auto simp: query_characters_def path_characters_def py_def)
  have printable: "33 \<le> c \<and> c \<le> 126" if "valid_component s query_characters" "c \<in> set s" for s c
    using that marks by (fastforce simp: valid_component_def list_all_iff char_class_defs)
  have q: "33 \<le> c \<and> c \<le> 126" if "c \<in> set (query_text query)" for c
    using that ok(4) printable by (auto simp: query_text_def split: option.splits)
  show ?thesis
  proof
    fix c
    assume "c \<in> set (canonical_text scheme host port path query)"
    then consider "c \<in> set (scheme @ py ''://'' @ bracket host @ port_text port)" | "c \<in> set path" | "c \<in> set (query_text query)"
      by (auto simp: canonical_text_def)
    then show "33 \<le> c \<and> c \<le> 126" using authority_chars [OF ok(1,2)] printable [OF ok(3)] q by cases blast+
  qed
qed

lemma canonical_components:
  assumes ch: "validate_characters v = Inr ()" and v: "v = canonical_text scheme host port path query"
    and parts: "canonical_parts u ix scheme host port path query"
  shows "check_component V2_PATH path = Inr ()"
    and "case query of None \<Rightarrow> True | Some q \<Rightarrow> check_component V2_QUERY q = Inr ()"
proof -
  note d = validate_charactersD(6-8) [OF ch]
  have ok: "parts_ok scheme port path query" "host_accepted u ix host" using parts by (auto simp: canonical_parts_def)
  define p where "p = scheme @ py ''://'' @ bracket host @ port_text port"
  have p37: "37 \<notin> set p" using authority_chars [OF ok] unfolding p_def by blast
  have vp: "v = p @ path @ query_text query" by (simp add: v p_def canonical_text_def)
  have t: "\<not> malformed_percent (path @ query_text query)" "\<not> lowercase_escape (path @ query_text query)"
    "\<not> has_encoded_control (path @ query_text query)"
    using d by (simp_all add: vp percent_free [OF p37])
  have "query_text query = [] \<or> \<not> hex_digit (hd (query_text query))"
    by (auto simp: query_text_def char_class_defs split: option.splits)
  then have m: "\<not> malformed_percent path" by (rule malformed_prefix [OF t(1)])
  then show "check_component V2_PATH path = Inr ()"
    using t(2) has_encoded_control_parts(1) [OF m t(3)] parts
    by (simp add: check_component_iff [OF v2_sets(1)] lowercase_append [OF m] canonical_parts_def)
  show "case query of None \<Rightarrow> True | Some q \<Rightarrow> check_component V2_QUERY q = Inr ()"
  proof (cases query)
    case (Some q)
    have "\<not> malformed_percent q" "\<not> lowercase_escape q" "\<not> has_encoded_control q"
      using t(1,2) has_encoded_control_parts(2) [OF m t(3)]
      by (auto simp: Some query_text_def malformed_append [OF m] lowercase_append [OF m] lowercase_plain has_encoded_control_plain)
    then show ?thesis using parts by (simp add: Some check_component_iff [OF v2_sets(2)] canonical_parts_def)
  qed simp
qed

lemma identity_complete:
  assumes ch: "validate_characters v = Inr ()" and v: "v = canonical_text scheme host port path query"
    and parts: "canonical_parts u ix scheme host port path query" and same: "same_alabels u ix T host"
  shows "validate_identity_v2 T (VStr v) = Inr (canonical_record scheme host port path query)"
proof -
  have ok: "parts_ok scheme port path query" and host: "host_accepted u ix host" using parts by (auto simp: canonical_parts_def)
  define authority where "authority = bracket host @ port_text port"
  define rest where "rest = authority @ path @ query_text query"
  have plain: "plain_url v" by (rule plain_url_characters [OF ch]) (use canonical_printable [OF parts] v in blast)
  have env: "check_envelope (VStr v) = Inr (v, scheme, rest, default_port scheme)"
    by (rule check_envelope_complete [OF plain])
      (use ok in \<open>auto simp: v canonical_text_def rest_def authority_def parts_ok_def\<close>)
  obtain tail where path: "path = 47 # tail" using ok by (cases path) (auto simp: parts_ok_def)
  have hc: "host_chars_ok host" by (rule host_accepted_chars [OF host])
  have digits: "c \<notin> set (port_text port)" if "\<not> ascii_digit c" "c \<noteq> 58" for c using port_text_chars [of c port] that by blast
  have free: "47 \<notin> set authority" "63 \<notin> set authority" "64 \<notin> set authority" "authority \<noteq> []"
    using hc digits [of 47] digits [of 63] digits [of 64] bracket_chars [of _ host]
    by (auto simp: authority_def host_chars_ok_def bracket_def ascii_digit_def)
  have cut: "partition_at 47 rest = (authority, True, tail @ query_text query)"
    using partition_at_found [OF free(1)] by (simp add: rest_def path)
  have pq: "partition_at 63 (47 # tail @ query_text query) = (path, query \<noteq> None, case query of None \<Rightarrow> [] | Some q \<Rightarrow> q)"
  proof -
    have "63 \<notin> set path" using ok by (simp add: parts_ok_def)
    then have "partition_at 63 (path @ query_text query) = (path, query \<noteq> None, case query of None \<Rightarrow> [] | Some q \<Rightarrow> q)"
      by (auto simp: query_text_def split: option.splits)
    then show ?thesis by (simp add: path)
  qed
  define pv where "pv = (case port of None \<Rightarrow> [] | Some p \<Rightarrow> show_nat p)"
  have digits58: "58 \<notin> set (show_nat n)" for n
    using show_nat_digits [of n] by (auto simp: list_all_iff ascii_digit_def)
  have pv: "58 \<notin> set pv" "port \<noteq> None \<or> pv = []" "authority = bracket host @ port_suffix (port \<noteq> None) pv"
    using digits58 by (auto simp: pv_def authority_def port_suffix_def port_text_def split: option.splits)
  have auth: "(if starts_with [91] authority then bracketed_authority_parts authority else domain_authority_parts T authority) =
      Inr (host, port \<noteq> None, pv, ip_version host \<noteq> None)"
    unfolding authority_parts_def [symmetric] pv(3) by (rule authority_parts_complete [OF host same pv(1,2)])
  have number: "(if port \<noteq> None then check_port pv (default_port scheme) else Inr (default_port scheme)) =
      Inr (case port of None \<Rightarrow> default_port scheme | Some p \<Rightarrow> p)"
    using ok by (auto simp: pv_def parts_ok_def check_port_iff split: option.splits)
  have comp: "check_component V2_PATH path = Inr ()"
    "(if query \<noteq> None then check_component V2_QUERY (case query of None \<Rightarrow> [] | Some q \<Rightarrow> q) else Inr ()) = Inr ()"
    using canonical_components [OF ch v parts] by (auto split: option.splits)
  show ?thesis
    unfolding validate_identity_v2_def env bindE_simps(2) prod.case cut
    using free by (simp del: not_None_eq add: auth number pq comp canonical_record_def v)
qed

text \<open>A canonical text has one reading.\<close>

lemma canonical_reading:
  assumes "validate_characters v = Inr ()" and "v = canonical_text scheme host port path query"
    and "canonical_parts u ix scheme host port path query"
    and "v = canonical_text scheme' host' port' path' query'" and "canonical_parts u ix scheme' host' port' path' query'"
  shows "host = host'" and "port = port'" and "scheme = scheme'"
proof -
  have clean: "url_cleanup v = v" using url_cleanup_id validate_charactersD(4,5) [OF assms(1)] by blast
  have p: "parts_ok scheme port path query" "host_chars_ok host" "parts_ok scheme' port' path' query'" "host_chars_ok host'"
    using assms(3,5) host_accepted_chars by (auto simp: canonical_parts_def)
  obtain r where "urlsplit u v = Inr r" "sr_hostname u r = host" "sr_port r = Inr port" "sr_scheme r = scheme"
    using urlsplit_canonical [OF p(1,2), of u] clean assms(2) by auto
  moreover obtain r' where "urlsplit u v = Inr r'" "sr_hostname u r' = host'" "sr_port r' = Inr port'" "sr_scheme r' = scheme'"
    using urlsplit_canonical [OF p(3,4), of u] clean assms(4) by auto
  ultimately show "host = host'" "port = port'" "scheme = scheme'" by auto
qed

section \<open>A-labels\<close>

text \<open>The labels of a URL's host that start with \<open>xn--\<close>: what the two checks are about.\<close>

definition url_alabels :: "ucd \<Rightarrow> pystr \<Rightarrow> pystr list" where
  "url_alabels u v =
     (case urlsplit u v of
        Inl _ \<Rightarrow> []
      | Inr r \<Rightarrow> filter (starts_with (py ''xn--'')) (split_on 46 (sr_hostname u r)))"

text \<open>Some check of A-labels is the one of the tables: what holds for every \<open>idna\<close> holds for the tables.\<close>

lemma tables_as_idna: "\<exists>ix. \<forall>h. same_alabels u ix T h"
proof -
  define ix where "ix = \<lparr>idna_decode = (\<lambda>l. if valid_alabel T l then Some l else None), idna_encode = Some\<rparr>"
  have "alabel_ok u ix l = valid_alabel T l" if "dns_label l" for l
  proof -
    have l: "l \<noteq> []" "map lower_ascii l = l" using that by (auto simp: dns_label_iff host_label_def)
    have "is_ascii l" using that by (fastforce simp: dns_label_def lower_alnum_def is_ascii_def list_all_iff char_class_defs)
    then show ?thesis using l by (simp add: alabel_ok_def ix_def py_lower_ascii)
  qed
  then show ?thesis by (auto simp: same_alabels_def)
qed

lemma alabels_of_text:
  assumes "validate_characters v = Inr ()" and "v = canonical_text scheme host port path query"
    and "canonical_parts u ix scheme host port path query"
  shows "\<exists>r. urlsplit u v = Inr r \<and> sr_hostname u r = host"
    and "url_alabels u v = filter (starts_with (py ''xn--'')) (split_on 46 host)"
proof -
  have clean: "url_cleanup v = v" using url_cleanup_id validate_charactersD(4,5) [OF assms(1)] by blast
  have p: "parts_ok scheme port path query" "host_chars_ok host"
    using assms(3) host_accepted_chars by (auto simp: canonical_parts_def)
  show "\<exists>r. urlsplit u v = Inr r \<and> sr_hostname u r = host"
    using urlsplit_canonical [OF p, of u] clean assms(2) by auto
  then show "url_alabels u v = filter (starts_with (py ''xn--'')) (split_on 46 host)" by (auto simp: url_alabels_def)
qed

text \<open>The labels of an address are not A-labels; those of an accepted domain pass the check.\<close>

lemma ipv6_no_alabel:
  assumes "ipv6_address h" and "37 \<notin> set h" and "l \<in> set (split_on 46 h)"
  shows "\<not> starts_with (py ''xn--'') l"
proof
  assume "starts_with (py ''xn--'') l"
  then obtain r where "l = py ''xn--'' @ r" using starts_withE by blast
  then have "120 \<in> set l" by (simp add: py_def)
  then have "120 \<in> set h" using split_on_chars [OF assms(3)] by blast
  then show False using ipv6_chars [OF assms(1,2)] by (force simp: char_class_defs)
qed

lemma accepted_alabels:
  assumes "host_accepted u ix h"
  shows "list_all (alabel_ok u ix) (filter (starts_with (py ''xn--'')) (split_on 46 h))"
proof (cases "ip_version h")
  case None
  then show ?thesis using assms by (auto simp: host_accepted_def domain_host_ok_def list_all_iff)
next
  case (Some n)
  then have "ipv4_address h \<or> ipv6_address h \<and> 37 \<notin> set h"
    using assms ip_version_cases by (auto simp: host_accepted_def)
  then show ?thesis using ipv4_facts(4) ipv6_no_alabel by (auto simp: list_all_iff)
qed

lemma same_alabelsI:
  assumes "list_all (alabel_ok u ix) (filter (starts_with (py ''xn--'')) (split_on 46 h))"
    and "list_all (valid_alabel T) (filter (starts_with (py ''xn--'')) (split_on 46 h))"
  shows "same_alabels u ix T h"
  using assms by (auto simp: same_alabels_def list_all_iff)

text \<open>What crawl-jobs V2 accepts is read the same by \<open>urlsplit\<close>, and the tables accept its A-labels.\<close>

lemma v2_reading:
  assumes "validate_identity_v2 T (VStr v) = Inr c"
  shows "\<exists>r. urlsplit u v = Inr r \<and> sr_hostname u r = cu_host c" and "map lower_ascii (cu_host c) = cu_host c" and "is_ascii (cu_host c)"
    and "url_alabels u v = filter (starts_with (py ''xn--'')) (split_on 46 (cu_host c))"
    and "list_all (valid_alabel T) (url_alabels u v)"
proof -
  obtain ix where ix: "\<forall>h. same_alabels u ix T h" using tables_as_idna by blast
  then obtain scheme host port path query where p: "canonical_parts u ix scheme host port path query"
    and v: "validate_characters v = Inr ()" "v = canonical_text scheme host port path query"
    and c: "c = canonical_record scheme host port path query"
    using identity_sound [OF assms] by blast
  have host: "cu_host c = host" by (simp add: c canonical_record_def)
  have acc: "host_accepted u ix host" using p by (simp add: canonical_parts_def)
  note a = alabels_of_text [OF v p]
  show "\<exists>r. urlsplit u v = Inr r \<and> sr_hostname u r = cu_host c"
    "url_alabels u v = filter (starts_with (py ''xn--'')) (split_on 46 (cu_host c))"
    using a by (simp_all add: host)
  show "map lower_ascii (cu_host c) = cu_host c" "is_ascii (cu_host c)"
    using host_accepted_chars [OF acc] by (simp_all add: host host_chars_ok_def)
  have "alabel_ok u ix l = valid_alabel T l" if "l \<in> set (split_on 46 host)" "starts_with (py ''xn--'') l" for l
  proof -
    have "ip_version host = None"
    proof (rule ccontr)
      assume "ip_version host \<noteq> None"
      then have "ipv4_address host \<or> ipv6_address host \<and> 37 \<notin> set host"
        using acc ip_version_cases by (auto simp: host_accepted_def)
      then show False using that ipv4_facts(4) ipv6_no_alabel by blast
    qed
    then have "list_all dns_label (split_on 46 host)"
      using acc by (simp add: dns_labels_lower host_accepted_def domain_host_ok_def lower_only_iff)
    then show ?thesis using ix that by (auto simp: same_alabels_def list_all_iff)
  qed
  then show "list_all (valid_alabel T) (url_alabels u v)"
    using accepted_alabels [OF acc] by (auto simp: a(2) list_all_iff)
qed

lemma v2_accepted_is_canonical:
  assumes "validate_identity_v2 T (VStr v) = Inr c" and "list_all (alabel_ok u ix) (url_alabels u v)"
  shows "canonicalize_url u ix v = Inr v"
proof -
  have "same_alabels u ix T (cu_host c)"
    using same_alabelsI assms(2) v2_reading(4,5) [OF assms(1)] by metis
  then show ?thesis using identity_sound [OF assms(1)] canonicalize_url_fixed by blast
qed

section \<open>The claims\<close>

text \<open>
  C35. The services agree on what a canonical URL is, up to their checks of single A-labels: crawl-jobs V2 accepts a URL
  whose A-labels the IDNA package accepts exactly when the seed importer returns it unchanged and the pinned tables
  accept its A-labels. In particular they agree on every URL without A-labels.
\<close>

theorem v2_accepts_canonical_urls:
  "(\<exists>c. validate_identity_v2 T (VStr v) = Inr c) \<and> list_all (alabel_ok u ix) (url_alabels u v) \<longleftrightarrow>
     canonicalize_url u ix v = Inr v \<and> list_all (valid_alabel T) (url_alabels u v)"
proof
  assume "(\<exists>c. validate_identity_v2 T (VStr v) = Inr c) \<and> list_all (alabel_ok u ix) (url_alabels u v)"
  then show "canonicalize_url u ix v = Inr v \<and> list_all (valid_alabel T) (url_alabels u v)"
    using v2_accepted_is_canonical v2_reading(5) by blast
next
  assume r: "canonicalize_url u ix v = Inr v \<and> list_all (valid_alabel T) (url_alabels u v)"
  then obtain scheme host port path query where ch: "validate_characters v = Inr ()"
    and v: "v = canonical_text scheme host port path query" and p: "canonical_parts u ix scheme host port path query"
    using canonicalize_url_sound by blast
  have labels: "list_all (alabel_ok u ix) (url_alabels u v)"
    using accepted_alabels p by (simp add: alabels_of_text(2) [OF ch v p] canonical_parts_def)
  then have "same_alabels u ix T host"
    using r by (intro same_alabelsI) (simp_all add: alabels_of_text(2) [OF ch v p])
  then show "(\<exists>c. validate_identity_v2 T (VStr v) = Inr c) \<and> list_all (alabel_ok u ix) (url_alabels u v)"
    using identity_complete [OF ch v p] labels by blast
qed

text \<open>
  C36. A URL that crawl-jobs V2 accepts and the seed importer identifies has the same canonical text and the same
  identifier in both, whatever the two think of A-labels; and if the seed importer admits it to the crawl, it has an
  origin and no explicit port.
\<close>

theorem v2_identity_matches_importer:
  assumes "validate_identity_v2 T (VStr v) = Inr c" and "identify_url u ix v = Inr i"
  shows "ui_canonical_url i = v \<and> cu_canonical_url c = v \<and> ui_url_id i = v2_url_id c \<and>
     (ui_crawl_eligible i \<longrightarrow> \<not> cu_explicit_port c \<and> v2_origin c \<noteq> None \<and> derive_origin T (VStr v) = Inr (v2_origin c))"
proof -
  obtain d where d: "canonicalize_url u ix v = Inr d" using assms(2) by (cases "canonicalize_url u ix v") (auto simp: identify_url_def)
  obtain r host0 where r: "urlsplit u v = Inr r" "host0 = py_lower (uc_lower u) (sr_hostname u r)" "host_accepted u ix host0"
    using canonicalize_url_parts [OF d] by (auto simp: canonical_parts_def)
  have "host0 = cu_host c"
    using r v2_reading(1) [OF assms(1), of u] v2_reading(2,3) [OF assms(1)] by (auto simp: py_lower_ascii)
  then have labels: "list_all (alabel_ok u ix) (url_alabels u v)"
    using accepted_alabels [OF r(3)] v2_reading(4) [OF assms(1)] by simp
  have same: "same_alabels u ix T (cu_host c)"
    using same_alabelsI labels v2_reading(4,5) [OF assms(1)] by metis
  obtain scheme host port path query where parts: "canonical_parts u ix scheme host port path query"
    and ch: "validate_characters v = Inr ()" and v: "v = canonical_text scheme host port path query"
    and c: "c = canonical_record scheme host port path query"
    using identity_sound [OF assms(1) same] by blast
  obtain scheme' host' port' path' query' j where j: "identify_url u ix v = Inr j" "ui_canonical_url j = v"
    and v': "v = canonical_text scheme' host' port' path' query'" "canonical_parts u ix scheme' host' port' path' query'"
    and j_id: "ui_url_id j = sha256_hex (ID_NAMESPACE_BYTES @ v)"
    and j_ok: "ui_crawl_eligible j \<Longrightarrow> ip_version host' = None \<and> port' = None"
    using identify_url_parts [OF canonicalize_url_fixed [OF ch v parts]] by blast
  have "j = i" using j(1) assms(2) by simp
  note i = j(2) [unfolded this] and uid = j_id [unfolded this] and e = j_ok [unfolded this]
  have host: "host = host'" "port = port'" using canonical_reading [OF ch v parts v'] by blast+
  have "ui_url_id i = v2_url_id c" by (simp add: uid v2_url_id_def c canonical_record_def v ID_NAMESPACE_BYTES_def)
  moreover have "\<not> cu_explicit_port c \<and> v2_origin c \<noteq> None \<and> derive_origin T (VStr v) = Inr (v2_origin c)"
    if "ui_crawl_eligible i"
    using e [OF that] host assms(1) by (simp add: c canonical_record_def v2_origin_def derive_origin_def)
  moreover have "cu_canonical_url c = v" by (simp add: c canonical_record_def v)
  ultimately show ?thesis using i by blast
qed

lemma v2_example:
  "validate_identity_v2 plain_tables (VStr (py ''https://a.com/%7E%20?q'')) =
     Inr (canonical_record (py ''https'') (py ''a.com'') None (py ''/%7E%20'') (Some (py ''q'')))"
  by (simp add: eval_simps validate_identity_v2_def check_envelope_def domain_authority_parts_def v2_ipv4_def v2_octet_def
      c1_follows_def upper_hex_digit_def dns_label_def lower_alnum_def V2_PATH_set V2_QUERY_def canonical_record_def
      canonical_text_def bracket_def port_text_def query_text_def default_port_def)

lemma importer_example:
  "\<exists>i. identify_url plain_ucd no_alabels (py ''https://a.com/%7E%20?q'') = Inr i"
proof -
  have "canonicalize_url plain_ucd no_alabels (py ''https://a.com/%7E%20?q'') = Inr (py ''https://a.com/%7E%20?q'')"
    by (simp add: eval_simps seed_url_eval plain_ucd_def no_alabels_def)
  then show ?thesis using identify_url_parts by blast
qed

theorem v2_identity_matches_importer_witness:
  "\<exists>i. identify_url plain_ucd no_alabels (py ''https://a.com/%7E%20?q'') = Inr i \<and>
     ui_canonical_url i = py ''https://a.com/%7E%20?q'' \<and>
     ui_url_id i = v2_url_id (canonical_record (py ''https'') (py ''a.com'') None (py ''/%7E%20'') (Some (py ''q'')))"
  using v2_identity_matches_importer [OF v2_example] importer_example by blast

end
