(* ===== verification/Spec2Isabelle.thy ===== *)
theory Spec2Isabelle
  imports Backlinks_Properties Backlinks_Reconcile Image_Properties Page_Properties Seed_Catalog Feed_Properties Reddit_Properties V2_Identity
begin

text \<open>
  A verification library for the Python services of the MiFolyo search engine, under
  \<open>src/services/\<close>.

  \<^bold>\<open>The program.\<close> A crawler writes pages, outlinks, images and backlinks to Redis. Three Python services
  move them to MongoDB, where search reads them. The \<^emph>\<open>page indexer\<close> (\<open>indexer/\<close>) claims a page
  publication from the list \<open>pages_queue\<close>, replaces the searchable state of its URL and hands the
  publication over to the \<^emph>\<open>image indexer\<close> (\<open>image-indexer/\<close>) through \<open>image_indexer_queue\<close>, which
  replaces the images of the page and deletes the publication. The \<^emph>\<open>backlinks processor\<close>
  (\<open>backlinks-processor/\<close>) drains sets of backlinks into documents; its \<open>reconcile.py\<close> compares outlinks
  with backlinks. The \<^emph>\<open>seed importer\<close> (\<open>seed-importer/\<close>) keeps the catalog of URLs the crawler starts from:
  it canonicalizes a URL, gives it an identifier, records which source proposed it and merges records into
  the collection \<open>crawl_seeds\<close>. The queues are protected by an owner lock with a fencing epoch in Redis, the
  documents by the epoch stored in them, and a URL by a lock document that both indexers use.

  \<^bold>\<open>Conventions.\<close> Text is a list of code points (\<open>pystr\<close>), bytes are lists of numbers below 256. A function
  that can raise returns \<open>exn + 'a\<close>, with one constructor of \<open>exn\<close> per Python exception. Stateful code
  is a \<open>('w, 'a) prog\<close>, a function from a world to a result and a world, composed with \<open>bind\<close>, \<open>catch\<close>,
  \<open>attempt\<close> and \<open>finally_do\<close>. The world \<open>'w\<close> is arbitrary: Redis, MongoDB and the network are records of
  functions on it, arguments of the model, since their code is not part of the repository. The
  hypotheses \<open>redis_documented\<close> and \<open>service_mongo_documented\<close> (and \<open>mongo_documented\<close> of the backlinks
  processor) say that each command does to the keyspace \<open>V w\<close> or the database \<open>M w\<close> what its
  documentation says, given by an executable model of it; the network may lose a request or a reply
  and let other processes act, within a stated relation. Every hypothesis has a witness in
  \<open>Service_Reference\<close> or \<open>Backlinks_Stores\<close>, where a world that is a keyspace and a database satisfies it.

  \<^bold>\<open>Foundations.\<close> \<open>Prelude\<close>: the monad with its Hoare rules, the relation framework \<open>world_relation\<close> and
  \<open>keeps\<close>, dictionaries and counters. \<open>Py_Str\<close>, \<open>Py_Text\<close>, \<open>Py_Url\<close>, \<open>Py_Number\<close>: the parts of Python's \<open>str\<close>,
  \<open>urllib.parse\<close>, \<open>ipaddress\<close> and \<open>int\<close> that the services use. \<open>Base64_Url\<close>, \<open>Sha256\<close>, \<open>Json\<close>: the codecs,
  with their round trips. Unicode tables (lower case, NFKC, decimal digits, the idna package) are
  arguments.

  \<^bold>\<open>Queues.\<close> \<open>Redis_Store\<close> has the commands and their documented behaviour; \<open>Queue_Scripts\<close> the Lua scripts
  that both indexers run, over a record of keys; \<open>Queue_Protocol\<close> the step relation \<open>qstep\<close> of one queue
  (what any participant may do to its five keys) with its invariants; \<open>Queue_Client\<close> the methods of
  the two \<open>RedisClient\<close> classes over the scripts; \<open>Queue_Recovery\<close> that recovery ends;
  \<open>Queue_Foreign\<close> that the operations on one queue are steps of any other. \<open>queue_layout\<close> is the interface of
  a queue and is interpreted for the page queue and the image queue.

  \<^bold>\<open>Backlinks processor.\<close> \<open>Canonical_Text\<close> and \<open>Backlinks_Url\<close>: \<open>url_validation.py\<close> and the grammar it
  accepts. \<open>Backlinks_Stores\<close>: the two data clients. \<open>Backlinks_Cycle\<close>: \<open>main.py\<close>, its processor state and
  service loop. \<open>Backlinks_Safety\<close>: what every program built from the clients keeps, and the service loop as a
  step relation (\<open>service_turn\<close>, \<open>service_stop\<close>).
  \<open>Backlinks_Reconcile\<close>: \<open>reconcile.py\<close>. \<open>Backlinks_Properties\<close>: the claims.

  \<^bold>\<open>Image indexer.\<close> \<open>Publication_Keys\<close> and \<open>Image_Model\<close>: keys and documents; \<open>Image_Redis\<close>:
  \<open>data/redis_client.py\<close>, loading and acknowledging a publication; \<open>Image_Load\<close>: which stored hashes are loaded,
  and as what; \<open>Image_Mongo\<close>: \<open>data/mongo_client.py\<close>; \<open>Image_Main\<close>: \<open>main.py\<close>; \<open>Image_Reconcile\<close>: fencing and
  the exact result of a reconciliation; \<open>Image_Service\<close>: whole runs of the service at a value that is not
  UTF-8; \<open>Image_Properties\<close>: the claims.

  \<^bold>\<open>Page indexer.\<close> \<open>Page_Model\<close>, \<open>Page_Redis\<close>, \<open>Page_Load\<close>, \<open>Page_Mongo\<close>, \<open>Page_Main\<close> and \<open>Page_Properties\<close>, in the same roles.
  \<open>Mongo_Store\<close> and \<open>Indexer_Service\<close> hold what the two indexers share.

  \<^bold>\<open>Seed importer.\<close> \<open>Percent_Encoding\<close>: escaping a URL component, with the lemmas that encoding is idempotent.
  \<open>Seed_Url\<close>: \<open>url_identity.py\<close>. \<open>Crawl_Seed\<close>: \<open>crawl_seed.py\<close>, whose documents are dictionaries of Python values
  of any type (\<open>pyval\<close>). \<open>Seed_Pipeline\<close>: the update pipeline of \<open>mongo_seeds.py\<close> as data, and the interface
  \<open>aggregation\<close> of the language MongoDB evaluates it in; \<open>Utf8_Order\<close> relates the server's order of texts to
  Python's; \<open>Seed_Merge\<close> has an evaluator that satisfies the interface and the claim that the pipeline
  computes the Python merge. \<open>Seed_Mongo\<close>: the rest of \<open>mongo_seeds.py\<close> over the interface \<open>seed_database\<close>.
  \<open>Seed_Catalog\<close>: \<open>crawl_seeds.py\<close>. \<open>Seed_Feed\<close>: \<open>feed.py\<close> with its two Lua scripts over the commands \<open>feed_env\<close>;
  \<open>Feed_Frontier\<close>: the interface \<open>frontier_store\<close> and that a script is a fold of operations on three maps or
  nothing; \<open>Feed_Properties\<close>: its claims. \<open>Reddit_Urls\<close> and \<open>Reddit_Import\<close>: \<open>reddit.py\<close>, the discovery of seeds in
  an approved export, the merge of the observations and the run; \<open>Reddit_Properties\<close>: its claims.

  \<^bold>\<open>Crawl-jobs V2.\<close> \<open>scripts/crawl_jobs_v2_url.py\<close> writes the URL identity of the services out without
  \<open>urlsplit\<close>, \<open>ipaddress\<close> and the idna package, on pinned Unicode tables. \<open>V2_Tables\<close>: the reader of the tables,
  from the generated file (an argument), and what an accepted file guarantees. \<open>V2_Punycode\<close>: the decoder, with
  the encoder of Python's standard library. \<open>V2_Nfc\<close>: the streaming NFC test. \<open>V2_Hosts\<close>: A-labels and IP
  addresses. \<open>V2_Url\<close>: \<open>validate_identity\<close>. \<open>V2_Identity\<close>: that it accepts the canonical texts of
  \<open>Canonical_Text\<close>, up to the check of a single A-label: there the tables follow Go's UTS 46 profile and the idna
  package IDNA 2008, so neither is assumed to agree with the other, and the claims name the A-labels of a URL.

  \<^bold>\<open>What the lemmas show.\<close> A run of an indexer is a sequence of steps of its queue's protocol, whatever
  fails and whoever else acts (refinement); in the protocol epochs only grow, an overtaken worker
  changes nothing, and work is conserved. A hand-over or an acknowledgement is exact and atomic. A
  write never replaces a newer document, and a reconciliation that reports success undisturbed leaves
  exactly the documents of the publication. A backlink is removed from Redis only once it is stored.
  Parsers accept exactly what the writers make, and a page or a publication is read exactly from the hashes that
  hold it. The backlinks processor ends only on its stop event; a queue value that is not UTF-8 stops the image
  indexer at every start. The seed importer's canonical form is idempotent and is
  exactly what the backlinks processor accepts; its merge is a join on the newest source of every key, the
  same in Python and in the database; a rebuild is all or nothing. The crawl frontier stays well formed under
  the feed, which, undisturbed, finishes with exactly the enabled seeds offered. A Reddit import writes valid
  documents outside Reddit, each the merge of its observations. The URL identity of crawl-jobs V2
  accepts the same URLs as the seed importer where both accept the A-labels, and gives them the same identifiers.

  \<^bold>\<open>Fuel.\<close> A service loop takes a number of rounds and returns \<open>None\<close> while it is still running;
  \<open>None\<close> is a result of its own, never confused with an exit, and claims about runs hold for every fuel.
  \<open>image_recovery_complete\<close> shows how much fuel recovery needs, and \<open>nfc_test_ends\<close> that the fuel in the NFC test
  is enough for every text.

  \<^bold>\<open>Not modelled.\<close> Connection set-up, environment variables, signal handlers and log lines; the
  extraction of text from HTML (BeautifulSoup, language detection and the vendored tokenizer in
  \<open>indexer/nlp\<close>), which is an argument of the page indexer; in the seed importer, command-line parsing, the
  reading of the CSV file, of an export file and of the MongoDB URI, which are arguments, as are the JSON schema
  check, case folding and floating-point numbers in \<open>reddit.py\<close>, and Python's recursion limit; \<open>tfidf/\<close>,
  \<open>dmoz-importer/\<close>, \<open>page-rank/\<close> and the migrations; the Go, PHP, JavaScript and Rust
  parts of the repository; the other scripts of crawl-jobs V2 (they generate and verify build artifacts), and the
  test and evidence scripts.
\<close>

end
